(* ===== verification/Prelude.thy ===== *)
theory Prelude
  imports Main "HOL-Library.Sublist" "HOL-Library.Char_ord" "HOL-Library.Code_Target_Nat"
begin

text \<open>
  Prelude of the development: the generic list, option and byte-string facts that the
  component theories share.  A Go \<open>string\<close> or \<open>[]byte\<close> is a sequence of bytes, so it is
  modelled by Isabelle's \<^typ>\<open>string\<close> (a list of eight-bit characters): \<open>len(s)\<close> is
  \<^const>\<open>length\<close>, \<open>s[i:j]\<close> is \<open>take (j - i) (drop i s)\<close>, and \<open>s + t\<close> is \<open>s @ t\<close>.  The
  functions of the package \<open>strings\<close> that the program calls are modelled here once
  (\<open>Index\<close>, \<open>Contains\<close>, \<open>HasPrefix\<close>, \<open>Split\<close>, \<open>SplitAfter\<close>, \<open>Join\<close>, \<open>Count\<close>,
  \<open>ReplaceAll\<close>, \<open>TrimSpace\<close>, \<open>TrimRightFunc\<close>), together with Go's UTF-8 decoding of
  runes, which \<open>range\<close> over a string and the conversion to \<open>[]rune\<close> use.
\<close>

named_theorems go_defs \<open>definitions of the modelled operations, unfolded by component proofs\<close>
named_theorems byte_lemmas \<open>facts on byte strings shared by the component proofs\<close>

section \<open>Go values\<close>

type_synonym bytes = string
type_synonym rune = nat
type_synonym time_ms = int

abbreviation NL :: char where "NL \<equiv> CHR 0x0A"
abbreviation CR :: char where "CR \<equiv> CHR 0x0D"
abbreviation TAB :: char where "TAB \<equiv> CHR 0x09"
abbreviation DQUOTE :: char where "DQUOTE \<equiv> CHR 0x22"
abbreviation SQUOTE :: char where "SQUOTE \<equiv> CHR 0x27"
abbreviation BACKSLASH :: char where "BACKSLASH \<equiv> CHR 0x5C"

abbreviation byte :: "char \<Rightarrow> nat" where "byte c \<equiv> of_char c"

section \<open>Generic list facts\<close>

lemma drop_Suc_length_less [simp]: "xs \<noteq> [] \<Longrightarrow> length (drop (Suc n) xs) < length xs"
  by (cases xs) auto

lemma length_pos_drop_less: "0 < n \<Longrightarrow> xs \<noteq> [] \<Longrightarrow> length (drop n xs) < length xs"
  by (cases xs) auto

lemma list_all_filter [simp]: "list_all P (filter P xs)"
  by (induction xs) auto

lemma concat_map_singleton_if:
  "concat (map (\<lambda>x. if P x then [f x] else []) xs) = map f (filter P xs)"
  by (induction xs) auto

text \<open>\<open>last_index P xs\<close> is the index a loop \<open>for i := len(xs)-1; i >= 0; i--\<close> stops at.\<close>

fun last_index :: "('a \<Rightarrow> bool) \<Rightarrow> 'a list \<Rightarrow> nat option" where
  "last_index P [] = None"
| "last_index P (x # xs) =
     (case last_index P xs of Some i \<Rightarrow> Some (Suc i)
      | None \<Rightarrow> if P x then Some 0 else None)"

text \<open>\<open>first_index P xs\<close> is the index a forward search loop with \<open>break\<close> stops at.\<close>

fun first_index :: "('a \<Rightarrow> bool) \<Rightarrow> 'a list \<Rightarrow> nat option" where
  "first_index P [] = None"
| "first_index P (x # xs) = (if P x then Some 0 else map_option Suc (first_index P xs))"

lemma last_index_Some:
  "last_index P xs = Some i \<Longrightarrow> i < length xs \<and> P (xs ! i) \<and> (\<forall>j. i < j \<longrightarrow> j < length xs \<longrightarrow> \<not> P (xs ! j))"
proof (induction xs arbitrary: i)
  case Nil
  then show ?case by simp
next
  case (Cons x xs)
  show ?case
  proof (cases "last_index P xs")
    case None
    have none: "\<forall>y \<in> set xs. \<not> P y"
      using None by (induction xs) (auto split: option.splits if_splits)
    with Cons.prems None show ?thesis
      by (auto split: if_splits simp: nth_Cons')
  next
    case (Some k)
    with Cons.prems have "i = Suc k" by simp
    with Cons.IH [OF Some] show ?thesis
      by (auto simp: nth_Cons' less_Suc_eq_0_disj)
  qed
qed

lemma last_index_None_iff: "last_index P xs = None \<longleftrightarrow> (\<forall>x \<in> set xs. \<not> P x)"
  by (induction xs) (auto split: option.splits)

lemma first_index_Some:
  "first_index P xs = Some i \<Longrightarrow> i < length xs \<and> P (xs ! i) \<and> (\<forall>j < i. \<not> P (xs ! j))"
  by (induction xs arbitrary: i)
     (auto split: if_splits simp: nth_Cons' less_Suc_eq_0_disj)

lemma first_index_None_iff: "first_index P xs = None \<longleftrightarrow> (\<forall>x \<in> set xs. \<not> P x)"
  by (induction xs) auto

section \<open>The package strings\<close>

text \<open>\<open>strings.Index\<close>: the first byte offset at which \<open>sub\<close> occurs.\<close>

fun str_index :: "string \<Rightarrow> string \<Rightarrow> nat option" where
  "str_index s sub =
     (if prefix sub s then Some 0
      else case s of [] \<Rightarrow> None | _ # t \<Rightarrow> map_option Suc (str_index t sub))"

declare str_index.simps [simp del]

lemma str_index_code [code]:
  "str_index [] sub = (if sub = [] then Some 0 else None)"
  "str_index (c # t) sub = (if prefix sub (c # t) then Some 0 else map_option Suc (str_index t sub))"
  by (subst str_index.simps, simp)+

definition str_contains :: "string \<Rightarrow> string \<Rightarrow> bool" where
  "str_contains s sub \<longleftrightarrow> str_index s sub \<noteq> None"

text \<open>\<open>strings.Split(s, c)\<close> and \<open>strings.SplitAfter(s, c)\<close> for a one-byte separator.\<close>

fun split_on :: "char \<Rightarrow> string \<Rightarrow> string list" where
  "split_on c [] = [[]]"
| "split_on c (x # xs) =
     (if x = c then [] # split_on c xs
      else case split_on c xs of [] \<Rightarrow> [[x]] | l # ls \<Rightarrow> (x # l) # ls)"

fun split_after :: "char \<Rightarrow> string \<Rightarrow> string list" where
  "split_after c [] = [[]]"
| "split_after c (x # xs) =
     (if x = c then [x] # split_after c xs
      else case split_after c xs of [] \<Rightarrow> [[x]] | l # ls \<Rightarrow> (x # l) # ls)"

text \<open>\<open>strings.Join(parts, sep)\<close>.\<close>

fun join :: "string \<Rightarrow> string list \<Rightarrow> string" where
  "join sep [] = []"
| "join sep [x] = x"
| "join sep (x # y # ys) = x @ sep @ join sep (y # ys)"

text \<open>\<open>strings.Count(s, sub)\<close> for a non-empty \<open>sub\<close>: occurrences that do not overlap.\<close>

function str_count :: "string \<Rightarrow> string \<Rightarrow> nat" where
  "str_count s sub =
     (if sub = [] then 0
      else case s of [] \<Rightarrow> 0
      | _ # t \<Rightarrow> if prefix sub s then Suc (str_count (drop (length sub) s) sub)
                else str_count t sub)"
  by pat_completeness auto
termination
  by (relation "measure (\<lambda>(s, sub). length s)") auto

declare str_count.simps [simp del]

lemma str_count_code [code]:
  "str_count [] sub = 0"
  "str_count (c # t) sub =
     (if sub = [] then 0
      else if prefix sub (c # t) then Suc (str_count (drop (length sub) (c # t)) sub)
      else str_count t sub)"
  by (subst str_count.simps, simp)+

text \<open>\<open>strings.ReplaceAll(s, old, new)\<close> for a non-empty \<open>old\<close>.\<close>

function replace_all :: "string \<Rightarrow> string \<Rightarrow> string \<Rightarrow> string" where
  "replace_all s old new =
     (if old = [] then s
      else case s of [] \<Rightarrow> []
      | c # t \<Rightarrow> if prefix old s then new @ replace_all (drop (length old) s) old new
                else c # replace_all t old new)"
  by pat_completeness auto
termination
  by (relation "measure (\<lambda>(s, old, new). length s)") auto

declare replace_all.simps [simp del]

lemma replace_all_code [code]:
  "replace_all [] old new = []"
  "replace_all (c # t) old new =
     (if old = [] then c # t
      else if prefix old (c # t) then new @ replace_all (drop (length old) (c # t)) old new
      else c # replace_all t old new)"
  by (subst replace_all.simps, simp)+

subsection \<open>Facts on search, split and join\<close>

lemma str_index_Some:
  "str_index s sub = Some i \<Longrightarrow> prefix sub (drop i s) \<and> i + length sub \<le> length s"
proof (induction s sub arbitrary: i rule: str_index.induct)
  case (1 s sub)
  show ?case
  proof (cases "prefix sub s")
    case True
    with "1.prems" show ?thesis
      by (auto simp: str_index.simps [of s sub] dest: prefix_length_le)
  next
    case False
    with "1.prems" obtain c t j where s: "s = c # t" and j: "str_index t sub = Some j" and i: "i = Suc j"
      by (auto simp: str_index.simps [of s sub] split: list.splits)
    from "1.IH" [OF False s j] show ?thesis by (simp add: s i)
  qed
qed

lemma str_index_take_drop [byte_lemmas]:
  assumes "str_index s sub = Some i"
  shows "s = take i s @ sub @ drop (i + length sub) s"
proof -
  from str_index_Some [OF assms] obtain r where r: "drop i s = sub @ r"
    by (auto simp: prefix_def)
  then have "drop (i + length sub) s = r"
    by (metis add.commute append_eq_conv_conj drop_drop)
  with r show ?thesis by (metis append_take_drop_id)
qed

lemma str_index_None:
  "str_index s sub = None \<Longrightarrow> \<not> prefix sub (drop i s)"
proof (induction s sub arbitrary: i rule: str_index.induct)
  case (1 s sub)
  from "1.prems" have np: "\<not> prefix sub s"
    by (auto simp: str_index.simps [of s sub] split: if_splits)
  show ?case
  proof (cases s)
    case Nil
    with np show ?thesis by simp
  next
    case (Cons c t)
    with "1.prems" np have "map_option Suc (str_index t sub) = None"
      by (simp add: str_index.simps [of "c # t" sub])
    then have "str_index t sub = None" by simp
    from "1.IH" [OF np Cons this] show ?thesis
      using np Cons by (cases i) auto
  qed
qed

lemma str_index_least:
  "str_index s sub = Some i \<Longrightarrow> j < i \<Longrightarrow> \<not> prefix sub (drop j s)"
proof (induction s sub arbitrary: i j rule: str_index.induct)
  case (1 s sub)
  have np: "\<not> prefix sub s"
    using "1.prems" by (auto simp: str_index.simps [of s sub])
  then obtain c t k where s: "s = c # t" and k: "str_index t sub = Some k" and i: "i = Suc k"
    using "1.prems" by (auto simp: str_index.simps [of s sub] split: list.splits)
  show ?case
  proof (cases j)
    case 0
    with np show ?thesis by simp
  next
    case (Suc j')
    with "1.prems"(2) i have "j' < k" by simp
    from "1.IH" [OF np s k this] show ?thesis by (simp add: s Suc)
  qed
qed

lemma str_contains_iff: "str_contains s sub \<longleftrightarrow> (\<exists>a b. s = a @ sub @ b)"
proof
  assume "str_contains s sub"
  then obtain i where "str_index s sub = Some i" by (auto simp: str_contains_def)
  from str_index_take_drop [OF this] show "\<exists>a b. s = a @ sub @ b" by blast
next
  assume "\<exists>a b. s = a @ sub @ b"
  then obtain a b where "s = a @ sub @ b" by blast
  then have "prefix sub (drop (length a) s)" by simp
  with str_index_None [of s sub "length a"] show "str_contains s sub"
    by (auto simp: str_contains_def)
qed

lemma split_on_nonempty [simp]: "split_on c s \<noteq> []"
  by (induction s) (auto split: list.splits)

lemma split_after_nonempty [simp]: "split_after c s \<noteq> []"
  by (induction s) (auto split: list.splits)

lemma concat_split_after [simp]: "concat (split_after c s) = s"
  by (induction s) (auto split: list.splits)

lemma join_Cons: "ls \<noteq> [] \<Longrightarrow> join sep (l # ls) = l @ sep @ join sep ls"
  by (cases ls) auto

lemma join_split_on [simp]: "join [c] (split_on c s) = s"
proof (induction s)
  case Nil
  then show ?case by simp
next
  case (Cons x xs)
  obtain l ls where l: "split_on c xs = l # ls" by (cases "split_on c xs") auto
  with Cons show ?case by (cases ls) (auto simp: join_Cons)
qed

lemma split_on_no_sep: "l \<in> set (split_on c s) \<Longrightarrow> c \<notin> set l"
  by (induction s arbitrary: l) (auto split: list.splits if_splits)

lemma split_on_append_sep:
  "c \<notin> set l \<Longrightarrow> split_on c (l @ c # s) = l # split_on c s"
  by (induction l) auto

lemma split_on_no_occurrence: "c \<notin> set l \<Longrightarrow> split_on c l = [l]"
  by (induction l) auto

lemma split_on_join:
  "ls \<noteq> [] \<Longrightarrow> \<forall>l \<in> set ls. c \<notin> set l \<Longrightarrow> split_on c (join [c] ls) = ls"
proof (induction ls)
  case Nil
  then show ?case by simp
next
  case (Cons l ls)
  then show ?case
    by (cases ls) (auto simp: split_on_no_occurrence split_on_append_sep)
qed

lemma join_append: "xs \<noteq> [] \<Longrightarrow> ys \<noteq> [] \<Longrightarrow> join sep (xs @ ys) = join sep xs @ sep @ join sep ys"
proof (induction xs)
  case Nil
  then show ?case by simp
next
  case (Cons x xs)
  then show ?case by (cases xs) (auto simp: join_Cons)
qed

lemma length_join_one: "ls \<noteq> [] \<Longrightarrow> length (join [c] ls) = sum_list (map length ls) + (length ls - 1)"
proof (induction ls)
  case Nil
  then show ?case by simp
next
  case (Cons l ls)
  then show ?case by (cases ls) (auto simp: join_Cons)
qed

section \<open>Runes: Go's UTF-8 decoding\<close>

text \<open>
  \<open>decode_rune s\<close> is \<open>utf8.DecodeRuneInString\<close>: the code point at the front of a non-empty
  string and its width in bytes; an invalid or short encoding is the replacement rune
  U+FFFD of width one.
\<close>

definition cont_byte :: "char \<Rightarrow> bool" where
  "cont_byte c \<longleftrightarrow> 0x80 \<le> byte c \<and> byte c \<le> 0xBF"

definition rune_error :: rune where "rune_error = 0xFFFD"

definition dec2 :: "nat \<Rightarrow> char \<Rightarrow> nat" where
  "dec2 b0 c1 = (b0 mod 32) * 64 + byte c1 mod 64"

definition dec3 :: "nat \<Rightarrow> char \<Rightarrow> char \<Rightarrow> nat" where
  "dec3 b0 c1 c2 = (b0 mod 16) * 4096 + (byte c1 mod 64) * 64 + byte c2 mod 64"

definition dec4 :: "nat \<Rightarrow> char \<Rightarrow> char \<Rightarrow> char \<Rightarrow> nat" where
  "dec4 b0 c1 c2 c3 =
     (b0 mod 8) * 262144 + (byte c1 mod 64) * 4096 + (byte c2 mod 64) * 64 + byte c3 mod 64"

definition second_ok :: "nat \<Rightarrow> nat \<Rightarrow> bool" where
  "second_ok b0 b1 \<longleftrightarrow>
     (if b0 = 0xE0 then 0xA0 \<le> b1 \<and> b1 \<le> 0xBF
      else if b0 = 0xED then 0x80 \<le> b1 \<and> b1 \<le> 0x9F
      else if b0 = 0xF0 then 0x90 \<le> b1 \<and> b1 \<le> 0xBF
      else if b0 = 0xF4 then 0x80 \<le> b1 \<and> b1 \<le> 0x8F
      else 0x80 \<le> b1 \<and> b1 \<le> 0xBF)"

definition decode_rune :: "string \<Rightarrow> rune \<times> nat" where
  "decode_rune s =
    (case s of [] \<Rightarrow> (rune_error, 0)
     | c0 # s1 \<Rightarrow>
       (let b0 = byte c0 in
        if b0 < 0x80 then (b0, 1)
        else if 0xC2 \<le> b0 \<and> b0 \<le> 0xDF then
          (case s1 of c1 # _ \<Rightarrow> if cont_byte c1 then (dec2 b0 c1, 2) else (rune_error, 1)
           | [] \<Rightarrow> (rune_error, 1))
        else if 0xE0 \<le> b0 \<and> b0 \<le> 0xEF then
          (case s1 of c1 # c2 # _ \<Rightarrow>
             if second_ok b0 (byte c1) \<and> cont_byte c2 then (dec3 b0 c1 c2, 3) else (rune_error, 1)
           | _ \<Rightarrow> (rune_error, 1))
        else if 0xF0 \<le> b0 \<and> b0 \<le> 0xF4 then
          (case s1 of c1 # c2 # c3 # _ \<Rightarrow>
             if second_ok b0 (byte c1) \<and> cont_byte c2 \<and> cont_byte c3
             then (dec4 b0 c1 c2 c3, 4) else (rune_error, 1)
           | _ \<Rightarrow> (rune_error, 1))
        else (rune_error, 1)))"

lemma decode_rune_width: "s \<noteq> [] \<Longrightarrow> 0 < snd (decode_rune s) \<and> snd (decode_rune s) \<le> length s"
  by (auto simp: decode_rune_def Let_def split: list.splits)

text \<open>\<open>rune_segments s\<close> is \<open>for _, r := range s\<close>: each rune with the bytes it was read from.\<close>

function rune_segments :: "string \<Rightarrow> (rune \<times> string) list" where
  "rune_segments s =
     (if s = [] then []
      else let (r, w) = decode_rune s in (r, take w s) # rune_segments (drop w s))"
  by pat_completeness auto
termination
proof (relation "measure length")
  fix s x r w
  assume "s \<noteq> []" and "x = decode_rune s" and "(r, w) = x"
  with decode_rune_width [of s] have "0 < w" by (metis snd_conv)
  with \<open>s \<noteq> []\<close> show "(drop w s, s) \<in> measure length"
    by (simp add: length_pos_drop_less)
qed simp

declare rune_segments.simps [simp del]

lemma rune_segments_code [code]:
  "rune_segments [] = []"
  "rune_segments (c # t) =
     (fst (decode_rune (c # t)), take (snd (decode_rune (c # t))) (c # t))
       # rune_segments (drop (snd (decode_rune (c # t))) (c # t))"
  by (subst rune_segments.simps, simp add: case_prod_beta)+

definition runes :: "string \<Rightarrow> rune list" where
  "runes s = map fst (rune_segments s)"

lemma concat_rune_segments: "concat (map snd (rune_segments s)) = s"
proof (induction s rule: rune_segments.induct)
  case (1 s)
  show ?case
  proof (cases "s = []")
    case True
    then show ?thesis by (simp add: rune_segments.simps)
  next
    case False
    obtain r w where d: "decode_rune s = (r, w)" by fastforce
    from "1.IH" [OF False d [symmetric] refl] False d show ?thesis
      by (simp add: rune_segments.simps [of s])
  qed
qed

text \<open>\<open>strings.Count(s, sub)\<close>; an empty \<open>sub\<close> is counted once more than there are runes.\<close>

definition str_Count :: "string \<Rightarrow> string \<Rightarrow> nat" where
  "str_Count s sub = (if sub = [] then Suc (length (runes s)) else str_count s sub)"

text \<open>\<open>strings.NewReplacer(pairs...).Replace(s)\<close>: at each position the first pair that matches.\<close>

function replacer :: "(string \<times> string) list \<Rightarrow> string \<Rightarrow> string" where
  "replacer ps s =
     (case s of [] \<Rightarrow> []
      | c # t \<Rightarrow>
        (case find (\<lambda>(old, new). old \<noteq> [] \<and> prefix old s) ps of
           Some (old, new) \<Rightarrow> if old = [] then c # replacer ps t else new @ replacer ps (drop (length old) s)
         | None \<Rightarrow> c # replacer ps t))"
  by pat_completeness auto
termination
  by (relation "measure (\<lambda>(ps, s). length s)") (auto simp: length_pos_drop_less)

declare replacer.simps [simp del]

lemma replacer_code [code]:
  "replacer ps [] = []"
  "replacer ps (c # t) =
     (case find (\<lambda>(old, new). old \<noteq> [] \<and> prefix old (c # t)) ps of
        Some (old, new) \<Rightarrow> if old = [] then c # replacer ps t else new @ replacer ps (drop (length old) (c # t))
      | None \<Rightarrow> c # replacer ps t)"
  by (subst replacer.simps, simp)+

text \<open>\<open>utf8.AppendRune\<close>, the conversion of a rune to its bytes; an invalid rune becomes U+FFFD.\<close>

definition encode_rune :: "rune \<Rightarrow> string" where
  "encode_rune r0 =
    (let r = (if (0xD800 \<le> r0 \<and> r0 \<le> 0xDFFF) \<or> 0x10FFFF < r0 then rune_error else r0) in
     if r < 0x80 then [char_of r]
     else if r < 0x800 then [char_of (0xC0 + r div 64), char_of (0x80 + r mod 64)]
     else if r < 0x10000 then
       [char_of (0xE0 + r div 4096), char_of (0x80 + r div 64 mod 64), char_of (0x80 + r mod 64)]
     else [char_of (0xF0 + r div 262144), char_of (0x80 + r div 4096 mod 64),
           char_of (0x80 + r div 64 mod 64), char_of (0x80 + r mod 64)])"

definition string_of_runes :: "rune list \<Rightarrow> string" where
  "string_of_runes rs = concat (map encode_rune rs)"

text \<open>\<open>unicode.IsSpace\<close>.\<close>

definition is_space :: "rune \<Rightarrow> bool" where
  "is_space r \<longleftrightarrow>
     (0x09 \<le> r \<and> r \<le> 0x0D) \<or> r = 0x20 \<or> r = 0x85 \<or> r = 0xA0 \<or> r = 0x1680 \<or>
     (0x2000 \<le> r \<and> r \<le> 0x200A) \<or> r = 0x2028 \<or> r = 0x2029 \<or> r = 0x202F \<or> r = 0x205F \<or> r = 0x3000"

text \<open>
  \<open>strings.TrimRightFunc(s, unicode.IsSpace)\<close> and \<open>strings.TrimSpace(s)\<close>.  UTF-8 is
  self-synchronising, so removing trailing runes one by one removes the same bytes as
  removing trailing segments of the forward decoding.
\<close>

definition trim_right_space :: "string \<Rightarrow> string" where
  "trim_right_space s =
     concat (map snd (rev (dropWhile (\<lambda>(r, _). is_space r) (rev (rune_segments s)))))"

definition trim_space :: "string \<Rightarrow> string" where
  "trim_space s =
     concat (map snd (rev (dropWhile (\<lambda>(r, _). is_space r)
        (rev (dropWhile (\<lambda>(r, _). is_space r) (rune_segments s))))))"

text \<open>
  \<open>strings.ToLower\<close>: ASCII letters are mapped here; the Unicode case tables, which are not
  part of the program, are the parameter \<open>ulow\<close>.
\<close>

definition lower_rune :: "(rune \<Rightarrow> rune) \<Rightarrow> rune \<Rightarrow> rune" where
  "lower_rune ulow r = (if r < 0x80 then (if 0x41 \<le> r \<and> r \<le> 0x5A then r + 0x20 else r) else ulow r)"

definition to_lower :: "(rune \<Rightarrow> rune) \<Rightarrow> string \<Rightarrow> string" where
  "to_lower ulow s = string_of_runes (map (lower_rune ulow) (runes s))"

section \<open>Machine integers\<close>

text \<open>Go's \<open>int64\<close> arithmetic on values read as \<^typ>\<open>int\<close>, and its truncating division.\<close>

definition wrap64 :: "int \<Rightarrow> int" where
  "wrap64 x = (x + 2 ^ 63) mod 2 ^ 64 - 2 ^ 63"

definition in64 :: "int \<Rightarrow> bool" where
  "in64 x \<longleftrightarrow> - (2 ^ 63) \<le> x \<and> x < 2 ^ 63"

definition go_quot :: "int \<Rightarrow> int \<Rightarrow> int" where
  "go_quot a b = sgn a * sgn b * (\<bar>a\<bar> div \<bar>b\<bar>)"

lemma wrap64_id [simp]: "in64 x \<Longrightarrow> wrap64 x = x"
  by (simp add: wrap64_def in64_def)

lemma in64_wrap64 [simp]: "in64 (wrap64 x)"
  by (simp add: wrap64_def in64_def)

lemma go_quot_nonneg [simp]: "0 \<le> a \<Longrightarrow> 0 < b \<Longrightarrow> go_quot a b = a div b"
  by (cases "a = 0") (simp_all add: go_quot_def)

section \<open>Decimal numbers\<close>

text \<open>\<open>fmt.Sprintf("%d", n)\<close>.\<close>

fun nat_digits :: "nat \<Rightarrow> string" where
  "nat_digits n = (if n < 10 then [char_of (48 + n)] else nat_digits (n div 10) @ [char_of (48 + n mod 10)])"

declare nat_digits.simps [simp del]

definition show_nat :: "nat \<Rightarrow> string" where "show_nat n = nat_digits n"

definition show_int :: "int \<Rightarrow> string" where
  "show_int i = (if i < 0 then ''-'' @ nat_digits (nat (- i)) else nat_digits (nat i))"

lemma nat_digits_nonempty [simp]: "nat_digits n \<noteq> []"
  by (subst nat_digits.simps) simp

lemma nat_digits_value: "foldl (\<lambda>v c. v * 10 + (of_char c - 48)) 0 (nat_digits n) = (n :: nat)"
proof (induction n rule: nat_digits.induct)
  case (1 n)
  show ?case
  proof (cases "n < 10")
    case True
    then show ?thesis by (subst nat_digits.simps) simp
  next
    case False
    have b: "48 + n mod 10 < 256" using mod_less_divisor [of 10 n] by linarith
    show ?thesis using False 1 b by (subst nat_digits.simps) simp
  qed
qed

lemma show_nat_inject [simp]: "show_nat m = show_nat n \<longleftrightarrow> m = n"
  unfolding show_nat_def by (metis nat_digits_value)

lemma show_nat_nonempty [simp]: "show_nat n \<noteq> []"
  by (simp add: show_nat_def)

lemma ascii_rune_segments: "\<forall>c \<in> set s. byte c < 128 \<Longrightarrow> rune_segments s = map (\<lambda>c. (byte c, [c])) s"
  by (induction s) (simp_all add: rune_segments.simps [of "[]"] rune_segments.simps [of "_ # _"] decode_rune_def)

lemma ascii_runes: "\<forall>c \<in> set s. byte c < 128 \<Longrightarrow> runes s = map byte s"
  by (simp add: runes_def ascii_rune_segments comp_def)

end
