(* ===== verification/Truncate.thy ===== *)
theory Truncate
  imports Prelude
begin

text \<open>
  The output truncation of \<open>internal/truncate/truncate.go\<close>: \<open>Head\<close> keeps leading lines,
  \<open>Tail\<close> trailing lines (with a UTF-8 safe cut of one overlong line), \<open>Line\<close> caps one line
  in runes.  Limits are Go \<open>int\<close>s and may be zero or negative; counts are \<open>int\<close> too, since
  they are compared with the limits.  The capacity argument of \<open>make\<close> is not a value of the
  result, but \<open>make\<close> panics when it is negative: \<open>Head\<close> and \<open>Tail\<close> return \<^const>\<open>None\<close> then.
\<close>

section \<open>Definitions\<close>

definition DefaultMaxLines :: int where "DefaultMaxLines = 2000"
definition DefaultMaxBytes :: int where "DefaultMaxBytes = 50 * 1024"
definition GrepMaxLineLength :: int where "GrepMaxLineLength = 500"
definition TruncatedByLines :: string where "TruncatedByLines = ''lines''"
definition TruncatedByBytes :: string where "TruncatedByBytes = ''bytes''"
definition truncatedByNone :: string where "truncatedByNone = ''''"
definition truncatedLineSuffix :: string where "truncatedLineSuffix = ''... [truncated]''"

record trunc_result =
  Content :: string
  Truncated :: bool
  TruncatedBy :: string
  TotalLines :: int
  TotalBytes :: int
  OutputLines :: int
  OutputBytes :: int
  LastLinePartial :: bool
  FirstLineExceedsLimit :: bool
  MaxLines :: int
  MaxBytes :: int

record trunc_options =
  opt_max_lines :: "int option"
  opt_max_bytes :: "int option"

record line_result =
  lr_text :: string
  lr_was_truncated :: bool

definition len :: "'a list \<Rightarrow> int" where "len xs = int (length xs)"

definition limits :: "trunc_options \<Rightarrow> int \<times> int" where
  "limits options =
     ((case opt_max_lines options of None \<Rightarrow> DefaultMaxLines | Some n \<Rightarrow> n),
      (case opt_max_bytes options of None \<Rightarrow> DefaultMaxBytes | Some n \<Rightarrow> n))"

definition splitLinesForCounting :: "string \<Rightarrow> string list" where
  "splitLinesForCounting content =
     (if content = [] then []
      else let lines = split_on NL content in
           if suffix [NL] content then butlast lines else lines)"

text \<open>The loop of \<open>Head\<close>: lines still to read, lines kept, bytes kept; with the reason it stopped.\<close>

fun head_loop :: "int \<Rightarrow> int \<Rightarrow> nat \<Rightarrow> string list \<Rightarrow> string list \<Rightarrow> int \<Rightarrow> string list \<times> int \<times> string" where
  "head_loop maxLines maxBytes i [] out outBytes = (out, outBytes, TruncatedByLines)"
| "head_loop maxLines maxBytes i (l # ls) out outBytes =
     (if \<not> int i < maxLines then (out, outBytes, TruncatedByLines)
      else let lineBytes = len l + (if i > 0 then 1 else 0) in
        if outBytes + lineBytes > maxBytes then (out, outBytes, TruncatedByBytes)
        else head_loop maxLines maxBytes (Suc i) ls (out @ [l]) (outBytes + lineBytes))"

definition Head :: "string \<Rightarrow> trunc_options \<Rightarrow> trunc_result option" where
  "Head content options =
    (let (maxLines, maxBytes) = limits options;
         totalBytes = len content;
         lines = splitLinesForCounting content;
         totalLines = len lines in
     if totalLines \<le> maxLines \<and> totalBytes \<le> maxBytes then
       Some \<lparr>Content = content, Truncated = False, TruncatedBy = truncatedByNone,
         TotalLines = totalLines, TotalBytes = totalBytes, OutputLines = totalLines,
         OutputBytes = totalBytes, LastLinePartial = False, FirstLineExceedsLimit = False,
         MaxLines = maxLines, MaxBytes = maxBytes\<rparr>
     else
       let firstLineBytes = (case lines of [] \<Rightarrow> 0 | l # _ \<Rightarrow> len l) in
       if firstLineBytes > maxBytes then
         Some \<lparr>Content = [], Truncated = True, TruncatedBy = TruncatedByBytes,
           TotalLines = totalLines, TotalBytes = totalBytes, OutputLines = 0, OutputBytes = 0,
           LastLinePartial = False, FirstLineExceedsLimit = True,
           MaxLines = maxLines, MaxBytes = maxBytes\<rparr>
       else if min (len lines) maxLines < 0 then None
       else
         let (outputLines, outputBytes, by0) = head_loop maxLines maxBytes 0 lines [] 0;
             truncBy = (if len outputLines \<ge> maxLines \<and> outputBytes \<le> maxBytes
                        then TruncatedByLines else by0);
             output = join [NL] outputLines in
         Some \<lparr>Content = output, Truncated = True, TruncatedBy = truncBy,
           TotalLines = totalLines, TotalBytes = totalBytes, OutputLines = len outputLines,
           OutputBytes = len output, LastLinePartial = False, FirstLineExceedsLimit = False,
           MaxLines = maxLines, MaxBytes = maxBytes\<rparr>)"

definition is_cont :: "char \<Rightarrow> bool" where
  "is_cont c \<longleftrightarrow> byte c div 64 = 2"

definition truncateStringToBytesFromEnd :: "string \<Rightarrow> int \<Rightarrow> string" where
  "truncateStringToBytesFromEnd s maxBytes =
     (if len s \<le> maxBytes then s
      else if maxBytes \<le> 0 then []
      else dropWhile is_cont (drop (nat (len s - maxBytes)) s))"

text \<open>The loop of \<open>Tail\<close> runs over the lines from the last to the first.\<close>

fun tail_loop ::
  "int \<Rightarrow> int \<Rightarrow> string list \<Rightarrow> string list \<Rightarrow> int \<Rightarrow> string list \<times> int \<times> string \<times> bool" where
  "tail_loop maxLines maxBytes [] out outBytes = (out, outBytes, TruncatedByLines, False)"
| "tail_loop maxLines maxBytes (l # before) out outBytes =
     (if \<not> len out < maxLines then (out, outBytes, TruncatedByLines, False)
      else let lineBytes = len l + (if len out > 0 then 1 else 0) in
        if outBytes + lineBytes > maxBytes then
          (if len out = 0 then
             let line = truncateStringToBytesFromEnd l maxBytes in
             (line # out, len line, TruncatedByBytes, True)
           else (out, outBytes, TruncatedByBytes, False))
        else tail_loop maxLines maxBytes before (l # out) (outBytes + lineBytes))"

definition Tail :: "string \<Rightarrow> trunc_options \<Rightarrow> trunc_result option" where
  "Tail content options =
    (let (maxLines, maxBytes) = limits options;
         totalBytes = len content;
         lines = splitLinesForCounting content;
         totalLines = len lines in
     if totalLines \<le> maxLines \<and> totalBytes \<le> maxBytes then
       Some \<lparr>Content = content, Truncated = False, TruncatedBy = truncatedByNone,
         TotalLines = totalLines, TotalBytes = totalBytes, OutputLines = totalLines,
         OutputBytes = totalBytes, LastLinePartial = False, FirstLineExceedsLimit = False,
         MaxLines = maxLines, MaxBytes = maxBytes\<rparr>
     else if min (len lines) maxLines < 0 then None
     else
       let (outputLines, outputBytes, by0, partial) = tail_loop maxLines maxBytes (rev lines) [] 0;
           truncBy = (if len outputLines \<ge> maxLines \<and> outputBytes \<le> maxBytes
                      then TruncatedByLines else by0);
           output = join [NL] outputLines in
       Some \<lparr>Content = output, Truncated = True, TruncatedBy = truncBy,
         TotalLines = totalLines, TotalBytes = totalBytes, OutputLines = len outputLines,
         OutputBytes = len output, LastLinePartial = partial, FirstLineExceedsLimit = False,
         MaxLines = maxLines, MaxBytes = maxBytes\<rparr>)"

definition Line :: "string \<Rightarrow> int \<Rightarrow> line_result" where
  "Line line maxChars0 =
     (let maxChars = (if maxChars0 \<le> 0 then GrepMaxLineLength else maxChars0);
          rs = runes line in
      if len rs \<le> maxChars then \<lparr>lr_text = line, lr_was_truncated = False\<rparr>
      else \<lparr>lr_text = string_of_runes (take (nat maxChars) rs) @ truncatedLineSuffix,
            lr_was_truncated = True\<rparr>)"

section \<open>The loops keep the longest prefix (suffix) that fits\<close>

lemma len_simps [simp]:
  "len [] = 0" "len (x # xs) = 1 + len xs" "len (xs @ ys) = len xs + len ys" "0 \<le> len xs" "\<not> len xs < 0"
  by (simp_all add: len_def)

lemma len_join_snoc:
  "len (join [NL] (out @ [l])) = len (join [NL] out) + len l + (if out = [] then 0 else 1)"
  by (cases "out = []") (simp_all add: join_append)

lemma len_join_cons:
  "len (join [NL] (l # out)) = len (join [NL] out) + len l + (if out = [] then 0 else 1)"
  by (cases out) simp_all

lemma head_loop_spec:
  assumes "head_loop ml mb i ls out ob = (out', ob', by)"
    and "length out = i" and "ob = len (join [NL] out)" and "ob \<le> mb" and "int i \<le> ml"
  shows "\<exists>k \<le> length ls. out' = out @ take k ls \<and> ob' = len (join [NL] out') \<and> ob' \<le> mb
    \<and> len out' \<le> ml \<and> (k < length ls \<longrightarrow> len out' < ml \<longrightarrow> mb < len (join [NL] (out' @ [ls ! k])))"
  using assms
proof (induction ml mb i ls out ob rule: head_loop.induct)
  case (1 ml mb i out ob)
  then show ?case by (auto simp: len_def)
next
  case (2 ml mb i l ls out ob)
  let ?lb = "len l + (if i > 0 then 1 else 0)"
  have step: "len (join [NL] (out @ [l])) = ob + ?lb"
    using "2.prems" by (auto simp: len_join_snoc)
  consider "\<not> int i < ml" | "int i < ml" "ob + ?lb > mb" | "int i < ml" "\<not> ob + ?lb > mb"
    by blast
  then show ?case
  proof cases
    case 1
    with "2.prems" show ?thesis by (intro exI [of _ 0]) (auto simp: len_def)
  next
    case 2
    with "2.prems" step show ?thesis by (intro exI [of _ 0]) (auto simp: len_def Let_def)
  next
    case 3
    with "2.prems" have "head_loop ml mb (Suc i) ls (out @ [l]) (ob + ?lb) = (out', ob', by)"
      by (simp add: Let_def)
    have "\<exists>k \<le> length ls. out' = (out @ [l]) @ take k ls \<and> ob' = len (join [NL] out') \<and> ob' \<le> mb
      \<and> len out' \<le> ml \<and> (k < length ls \<longrightarrow> len out' < ml \<longrightarrow> mb < len (join [NL] (out' @ [ls ! k])))"
      by (rule "2.IH" [OF _ refl _ \<open>head_loop ml mb (Suc i) ls _ _ = _\<close>])
         (use 3 "2.prems" step in auto)
    then obtain k where "k \<le> length ls" "out' = out @ take (Suc k) (l # ls)
        \<and> ob' = len (join [NL] out') \<and> ob' \<le> mb \<and> len out' \<le> ml
        \<and> (Suc k < length (l # ls) \<longrightarrow> len out' < ml
           \<longrightarrow> mb < len (join [NL] (out' @ [(l # ls) ! Suc k])))"
      by (metis append.assoc append_Cons append_Nil length_Cons not_less_eq nth_Cons_Suc take_Suc_Cons)
    then show ?thesis by (intro exI [of _ "Suc k"]) auto
  qed
qed

lemma is_cont_dropWhile: "s' = dropWhile is_cont s \<Longrightarrow> s' = [] \<or> \<not> is_cont (hd s')"
  by (metis dropWhile_eq_Nil_conv hd_dropWhile)

lemma truncateStringToBytesFromEnd_spec:
  assumes "0 \<le> mb" and "mb < len s"
  shows "suffix (truncateStringToBytesFromEnd s mb) s" (is ?suf)
    and "len (truncateStringToBytesFromEnd s mb) \<le> mb" (is ?len)
    and "truncateStringToBytesFromEnd s mb = [] \<or> \<not> is_cont (hd (truncateStringToBytesFromEnd s mb))"
proof -
  let ?d = "drop (nat (len s - mb)) s"
  have d: "length (dropWhile is_cont ?d) \<le> length ?d" by (rule length_dropWhile_le)
  have "suffix (dropWhile is_cont ?d) s"
    using suffix_dropWhile suffix_drop suffix_order.trans by blast
  then show ?suf using assms by (auto simp: truncateStringToBytesFromEnd_def)
  show ?len using assms d by (auto simp: truncateStringToBytesFromEnd_def len_def)
  show "truncateStringToBytesFromEnd s mb = [] \<or> \<not> is_cont (hd (truncateStringToBytesFromEnd s mb))"
    using assms is_cont_dropWhile [OF refl, of ?d] by (auto simp: truncateStringToBytesFromEnd_def)
qed

lemma tail_loop_spec:
  assumes "tail_loop ml mb before out ob = (out', ob', by, partial)"
    and "ob = len (join [NL] out)" and "ob \<le> mb" and "0 \<le> mb" and "len out \<le> ml"
  shows "(\<not> partial \<longrightarrow> (\<exists>k \<le> length before. out' = rev (take k before) @ out
      \<and> len (join [NL] out') \<le> mb \<and> len out' \<le> ml
      \<and> (k < length before \<longrightarrow> len out' < ml \<longrightarrow> mb < len (join [NL] (before ! k # out')))))
    \<and> (partial \<longrightarrow> out = [] \<and> before \<noteq> [] \<and> mb < len (hd before) \<and> 0 < ml
      \<and> out' = [truncateStringToBytesFromEnd (hd before) mb])"
  using assms
proof (induction ml mb before out ob rule: tail_loop.induct)
  case (1 ml mb out ob)
  then show ?case by auto
next
  case (2 ml mb l before out ob)
  let ?lb = "len l + (if len out > 0 then 1 else 0)"
  have pos: "len out > 0 \<longleftrightarrow> out \<noteq> []" by (auto simp: len_def)
  have step: "len (join [NL] (l # out)) = ob + ?lb"
    using "2.prems" by (auto simp: len_join_cons pos)
  consider "\<not> len out < ml" | "len out < ml" "ob + ?lb > mb" "out = []"
    | "len out < ml" "ob + ?lb > mb" "out \<noteq> []" | "len out < ml" "\<not> ob + ?lb > mb"
    by blast
  then show ?case
  proof cases
    case 1
    with "2.prems" show ?thesis by (auto intro!: exI [of _ 0])
  next
    case 2
    with "2.prems" show ?thesis by (auto simp: Let_def)
  next
    case 3
    then have out: "\<not> len out = 0" by (cases out) (auto simp: len_def)
    with 3 "2.prems" have r: "out' = out" "\<not> partial" by (auto simp: Let_def pos)
    with 3 "2.prems" step have "0 \<le> length (l # before) \<and> out' = rev (take 0 (l # before)) @ out
      \<and> len (join [NL] out') \<le> mb \<and> len out' \<le> ml \<and> mb < len (join [NL] ((l # before) ! 0 # out'))"
      by (simp del: join.simps)
    with r show ?thesis by blast
  next
    case 4
    with "2.prems" have "tail_loop ml mb before (l # out) (ob + ?lb) = (out', ob', by, partial)"
      by (simp add: Let_def)
    have "(\<not> partial \<longrightarrow> (\<exists>k \<le> length before. out' = rev (take k before) @ l # out
        \<and> len (join [NL] out') \<le> mb \<and> len out' \<le> ml
        \<and> (k < length before \<longrightarrow> len out' < ml \<longrightarrow> mb < len (join [NL] (before ! k # out')))))
      \<and> (partial \<longrightarrow> l # out = [] \<and> before \<noteq> [] \<and> mb < len (hd before) \<and> 0 < ml
      \<and> out' = [truncateStringToBytesFromEnd (hd before) mb])"
      by (rule "2.IH" [OF _ refl _ \<open>tail_loop ml mb before _ _ = _\<close>])
         (use 4 "2.prems" step in auto)
    then have IH: "\<not> partial" and "\<exists>k \<le> length before. out' = rev (take k before) @ l # out
        \<and> len (join [NL] out') \<le> mb \<and> len out' \<le> ml
        \<and> (k < length before \<longrightarrow> len out' < ml \<longrightarrow> mb < len (join [NL] (before ! k # out')))"
      by blast+
    then obtain k where "k \<le> length before" "out' = rev (take k before) @ l # out
        \<and> len (join [NL] out') \<le> mb \<and> len out' \<le> ml
        \<and> (k < length before \<longrightarrow> len out' < ml \<longrightarrow> mb < len (join [NL] (before ! k # out')))"
      by blast
    then have "\<exists>k \<le> length (l # before). out' = rev (take k (l # before)) @ out
        \<and> len (join [NL] out') \<le> mb \<and> len out' \<le> ml
        \<and> (k < length (l # before) \<longrightarrow> len out' < ml
           \<longrightarrow> mb < len (join [NL] ((l # before) ! k # out')))"
      by (intro exI [of _ "Suc k"]) auto
    with IH show ?thesis by blast
  qed
qed

section \<open>Properties of Head, Tail and Line\<close>

text \<open>C31: with non-negative limits \<open>Head\<close> always returns.  Unless it returns the content
  unchanged (which then fits both limits), its content is the join of the first \<open>k\<close> lines, it
  reports \<open>k\<close> lines and their bytes, both within the limits, and \<open>k\<close> is maximal: one more line
  would break the line or the byte limit.\<close>

theorem Head_longest_prefix:
  assumes "limits options = (ml, mb)" and "0 \<le> ml" and "0 \<le> mb"
  shows "\<exists>r. Head content options = Some r
    \<and> (if Truncated r then
         \<exists>k \<le> length (splitLinesForCounting content).
           Content r = join [NL] (take k (splitLinesForCounting content))
           \<and> OutputLines r = int k \<and> int k \<le> ml \<and> OutputBytes r = len (Content r) \<and> OutputBytes r \<le> mb
           \<and> (k = length (splitLinesForCounting content) \<or> int k = ml
              \<or> mb < len (join [NL] (take (Suc k) (splitLinesForCounting content))))
       else Content r = content \<and> len (splitLinesForCounting content) \<le> ml \<and> len content \<le> mb)"
proof -
  let ?ls = "splitLinesForCounting content"
  obtain out ob by0 where h: "head_loop ml mb 0 ?ls [] 0 = (out, ob, by0)" by (metis prod_cases3)
  from head_loop_spec [OF h] assms
  obtain k where k: "k \<le> length ?ls" "out = take k ?ls" "len (join [NL] out) \<le> mb" "len out \<le> ml"
    "k < length ?ls \<longrightarrow> len out < ml \<longrightarrow> mb < len (join [NL] (out @ [?ls ! k]))"
    by auto
  have outk: "len out = int k" using k(1,2) by (simp add: len_def)
  consider "len ?ls \<le> ml \<and> len content \<le> mb"
    | "\<not> (len ?ls \<le> ml \<and> len content \<le> mb)" "(case ?ls of [] \<Rightarrow> 0 | l # _ \<Rightarrow> len l) > mb"
    | "\<not> (len ?ls \<le> ml \<and> len content \<le> mb)" "\<not> (case ?ls of [] \<Rightarrow> 0 | l # _ \<Rightarrow> len l) > mb"
    by blast
  then show ?thesis
  proof cases
    case 1
    with assms show ?thesis by (simp add: Head_def Let_def)
  next
    case 2
    then obtain l ls where "?ls = l # ls" "mb < len l" using assms(3) by (cases ?ls) auto
    with 2 assms show ?thesis by (auto simp: Head_def Let_def intro!: exI [of _ 0])
  next
    case 3
    then obtain r where r: "Head content options = Some r" "Truncated r" "Content r = join [NL] out"
       "OutputLines r = len out" "OutputBytes r = len (Content r)"
      using assms h by (auto simp: Head_def Let_def min_less_iff_disj simp del: len_simps(2))
    have max: "k = length ?ls \<or> int k = ml \<or> mb < len (join [NL] (take (Suc k) ?ls))"
      using k outk by (auto simp: take_Suc_conv_app_nth)
    have "\<exists>k \<le> length ?ls. Content r = join [NL] (take k ?ls) \<and> OutputLines r = int k \<and> int k \<le> ml
        \<and> OutputBytes r = len (Content r) \<and> OutputBytes r \<le> mb
        \<and> (k = length ?ls \<or> int k = ml \<or> mb < len (join [NL] (take (Suc k) ?ls)))"
      by (rule exI [of _ k]) (use r k outk max in simp)
    with r(1,2) show ?thesis by (intro exI [of _ r]) simp
  qed
qed

theorem Head_longest_prefix_witness:
  "\<exists>r. Head ''ab\<newline>cd'' \<lparr>opt_max_lines = Some 1, opt_max_bytes = Some 9\<rparr> = Some r \<and> Content r = ''ab''
     \<and> (\<exists>r. Head ''ab\<newline>cd'' \<lparr>opt_max_lines = Some 1, opt_max_bytes = Some 9\<rparr> = Some r \<and>
        (Truncated r \<longrightarrow> OutputBytes r \<le> 9))"
proof -
  have l: "limits \<lparr>opt_max_lines = Some 1, opt_max_bytes = Some 9\<rparr> = (1, 9)" by (simp add: limits_def)
  have "Head ''ab\<newline>cd'' \<lparr>opt_max_lines = Some 1, opt_max_bytes = Some 9\<rparr> \<noteq> None"
    using Head_longest_prefix [OF l, of "''ab\<newline>cd''"] by auto
  moreover have "\<exists>r. Head ''ab\<newline>cd'' \<lparr>opt_max_lines = Some 1, opt_max_bytes = Some 9\<rparr> = Some r
      \<and> Content r = ''ab''"
    by (simp add: Head_def l splitLinesForCounting_def Let_def len_def suffix_def)
  ultimately show ?thesis using Head_longest_prefix [OF l, of "''ab\<newline>cd''"] by fastforce
qed

text \<open>With a positive line limit and a non-negative byte limit \<open>Tail\<close> always returns: the
  content unchanged, or the last \<open>k\<close> lines within both limits and maximal, or, when even the
  last line is too long, a suffix of that line of at most \<open>maxBytes\<close> bytes that does not begin
  inside a UTF-8 sequence.\<close>

lemma Tail_longest_suffix:
  assumes "limits options = (ml, mb)" and "0 \<le> ml" and "0 \<le> mb"
  shows "\<exists>r. Tail content options = Some r
    \<and> (if \<not> Truncated r then Content r = content \<and> len (splitLinesForCounting content) \<le> ml \<and> len content \<le> mb
       else if LastLinePartial r then
         suffix (Content r) (last (splitLinesForCounting content)) \<and> len (Content r) \<le> mb
         \<and> mb < len (last (splitLinesForCounting content))
         \<and> (Content r = [] \<or> \<not> is_cont (hd (Content r)))
       else \<exists>k \<le> length (splitLinesForCounting content).
           Content r = join [NL] (drop (length (splitLinesForCounting content) - k) (splitLinesForCounting content))
           \<and> OutputLines r = int k \<and> int k \<le> ml \<and> OutputBytes r = len (Content r) \<and> OutputBytes r \<le> mb
           \<and> (k = length (splitLinesForCounting content) \<or> int k = ml
              \<or> mb < len (join [NL] (drop (length (splitLinesForCounting content) - Suc k)
                                          (splitLinesForCounting content)))))"
proof -
  let ?ls = "splitLinesForCounting content"
  obtain out ob by0 partial where h: "tail_loop ml mb (rev ?ls) [] 0 = (out, ob, by0, partial)"
    by (metis prod_cases4)
  show ?thesis
  proof (cases "len ?ls \<le> ml \<and> len content \<le> mb")
    case True
    with assms show ?thesis by (simp add: Tail_def Let_def)
  next
    case False
    obtain r where r: "Tail content options = Some r" "Truncated r" "Content r = join [NL] out"
       "OutputLines r = len out" "OutputBytes r = len (Content r)" "LastLinePartial r = partial"
      using assms h False by (auto simp: Tail_def Let_def min_less_iff_disj)
    show ?thesis
    proof (cases partial)
      case True
      from tail_loop_spec [OF h] assms True
      have p: "?ls \<noteq> []" "mb < len (hd (rev ?ls))"
        "out = [truncateStringToBytesFromEnd (hd (rev ?ls)) mb]" by auto
      have l: "hd (rev ?ls) = last ?ls" by (simp add: hd_rev)
      have "Content r = truncateStringToBytesFromEnd (last ?ls) mb" by (simp add: r(3) p(3) l)
      with r p(2) l assms(3) True truncateStringToBytesFromEnd_spec [of mb "last ?ls"]
      show ?thesis by (intro exI [of _ r]) simp
    next
      case False
      from tail_loop_spec [OF h] assms False
      obtain k where k: "k \<le> length ?ls" "out = rev (take k (rev ?ls))" "len (join [NL] out) \<le> mb"
        "len out \<le> ml"
        "k < length ?ls \<longrightarrow> len out < ml \<longrightarrow> mb < len (join [NL] (rev ?ls ! k # out))"
        by auto
      have o: "out = drop (length ?ls - k) ?ls" using k(2) by (simp add: rev_take)
      have outk: "len out = int k" using k(1) o by (simp add: len_def)
      have "k < length ?ls \<Longrightarrow> rev ?ls ! k # out = drop (length ?ls - Suc k) ?ls"
        using o Cons_nth_drop_Suc [of "length ?ls - Suc k" ?ls] by (simp add: rev_nth Suc_diff_Suc)
      with k outk have max: "k = length ?ls \<or> int k = ml
          \<or> mb < len (join [NL] (drop (length ?ls - Suc k) ?ls))"
        by fastforce
      have "\<exists>k \<le> length ?ls. Content r = join [NL] (drop (length ?ls - k) ?ls) \<and> OutputLines r = int k
          \<and> int k \<le> ml \<and> OutputBytes r = len (Content r) \<and> OutputBytes r \<le> mb
          \<and> (k = length ?ls \<or> int k = ml \<or> mb < len (join [NL] (drop (length ?ls - Suc k) ?ls)))"
        by (rule exI [of _ k]) (use r k outk o max in simp)
      with r False show ?thesis by (intro exI [of _ r]) simp
    qed
  qed
qed

lemma Tail_longest_suffix_witness:
  "\<exists>r. Tail ''ab\<newline>cd'' \<lparr>opt_max_lines = Some 1, opt_max_bytes = Some 9\<rparr> = Some r \<and> Content r = ''cd''
     \<and> OutputBytes r \<le> 9"
proof -
  have l: "limits \<lparr>opt_max_lines = Some 1, opt_max_bytes = Some 9\<rparr> = (1, 9)" by (simp add: limits_def)
  obtain r where r: "Tail ''ab\<newline>cd'' \<lparr>opt_max_lines = Some 1, opt_max_bytes = Some 9\<rparr> = Some r"
    and b: "Truncated r \<Longrightarrow> \<not> LastLinePartial r \<Longrightarrow> OutputBytes r \<le> 9"
    using Tail_longest_suffix [OF l, of "''ab\<newline>cd''"] by (auto split: if_splits)
  have "\<exists>r. Tail ''ab\<newline>cd'' \<lparr>opt_max_lines = Some 1, opt_max_bytes = Some 9\<rparr> = Some r
      \<and> Content r = ''cd'' \<and> Truncated r \<and> \<not> LastLinePartial r"
    by (simp add: Tail_def l splitLinesForCounting_def Let_def len_def suffix_def)
  with r b show ?thesis by auto
qed

text \<open>The reason a truncation reports: cutting only a final newline for the byte limit is still
  reported as a line truncation, although no line was dropped and the line limit holds.\<close>

lemma Head_reports_lines_for_bytes:
  "\<exists>r. Head ''a\<newline>'' \<lparr>opt_max_lines = None, opt_max_bytes = Some 1\<rparr> = Some r
     \<and> Truncated r \<and> TruncatedBy r = TruncatedByLines \<and> OutputLines r = TotalLines r
     \<and> TotalLines r \<le> MaxLines r \<and> MaxBytes r < TotalBytes r"
  by (simp add: Head_def limits_def splitLinesForCounting_def Let_def len_def suffix_def
      DefaultMaxLines_def TruncatedByLines_def)

end
