(* ===== verification/Sse.thy ===== *)
theory Sse
  imports Prelude
begin

text \<open>
  The server-sent-events decoder of \<open>internal/transport/sseparse/sse.go\<close>.  The reader is the
  list of its \<open>Read\<close> results; each carries what \<open>ctx.Err()\<close> returned at the top of that
  iteration.  The callback \<open>fn\<close> is a function on a caller state \<open>'w\<close> that may return an error.
  \<open>IterateSSE\<close> returns \<^const>\<open>None\<close> while the reader still owes a result (the code blocks in
  \<open>Read\<close>).
\<close>

section \<open>Definitions\<close>

record sse_event =
  sse_event_name :: string
  sse_data :: string
  sse_raw :: "string list"

record decoder_state =
  ds_event :: string
  ds_data :: "string list"
  ds_raw :: "string list"

definition empty_decoder :: decoder_state where
  "empty_decoder = \<lparr>ds_event = [], ds_data = [], ds_raw = []\<rparr>"

definition flushSseEvent :: "decoder_state \<Rightarrow> sse_event option \<times> decoder_state" where
  "flushSseEvent st =
     (if ds_event st = [] \<and> length (ds_data st) = 0 then (None, st)
      else (Some \<lparr>sse_event_name = ds_event st, sse_data = join [NL] (ds_data st), sse_raw = ds_raw st\<rparr>,
            st\<lparr>ds_event := [], ds_data := [], ds_raw := []\<rparr>))"

definition decodeSseLine :: "string \<Rightarrow> decoder_state \<Rightarrow> sse_event option \<times> decoder_state" where
  "decodeSseLine line st =
     (if line = [] then flushSseEvent st
      else
        let st1 = st\<lparr>ds_raw := ds_raw st @ [line]\<rparr> in
        if prefix '':'' line then (None, st1)
        else
          let (fieldName, value0) =
                (case str_index line '':'' of
                   None \<Rightarrow> (line, [])
                 | Some i \<Rightarrow> (take i line, drop (i + 1) line));
              value1 = (if prefix '' '' value0 then drop 1 value0 else value0)
          in if fieldName = ''event'' then (None, st1\<lparr>ds_event := value1\<rparr>)
             else if fieldName = ''data'' then (None, st1\<lparr>ds_data := ds_data st1 @ [value1]\<rparr>)
             else (None, st1))"

definition nextLineBreakIndexBytes :: "bytes \<Rightarrow> nat option" where
  "nextLineBreakIndexBytes text = first_index (\<lambda>b. b = CR \<or> b = NL) text"

definition consumeLineBytes :: "bytes \<Rightarrow> (bytes \<times> bytes) option" where
  "consumeLineBytes text =
    (case nextLineBreakIndexBytes text of
       None \<Rightarrow> None
     | Some i \<Rightarrow>
        let next0 = i + 1;
            next = (if text ! i = CR \<and> next0 < length text \<and> text ! next0 = NL then next0 + 1 else next0)
        in Some (take i text, drop next text))"

lemma consumeLineBytes_shorter: "consumeLineBytes text = Some (line, rest) \<Longrightarrow> length rest < length text"
  by (auto simp: consumeLineBytes_def nextLineBreakIndexBytes_def Let_def
      split: option.splits if_splits dest!: first_index_Some)

function drainCompleteLines ::
  "('w \<Rightarrow> sse_event \<Rightarrow> 'w \<times> 'e option) \<Rightarrow> bytes \<Rightarrow> decoder_state \<Rightarrow> 'w
     \<Rightarrow> bytes \<times> decoder_state \<times> 'w \<times> 'e option" where
  "drainCompleteLines fn buffer st w =
    (case consumeLineBytes buffer of
       None \<Rightarrow> (buffer, st, w, None)
     | Some (line, rest) \<Rightarrow>
        (case decodeSseLine line st of
           (None, st') \<Rightarrow> drainCompleteLines fn rest st' w
         | (Some ev, st') \<Rightarrow>
            (case fn w ev of
               (w', None) \<Rightarrow> drainCompleteLines fn rest st' w'
             | (w', Some e) \<Rightarrow> (rest, st', w', Some e))))"
  by pat_completeness auto
termination
  by (relation "measure (\<lambda>(fn, buffer, st, w). length buffer)") (auto dest: consumeLineBytes_shorter)

declare drainCompleteLines.simps [simp del]

datatype 'e read_err = EOF | ReadErr 'e

record 'e read_step =
  rs_ctx :: "'e option"
  rs_bytes :: bytes
  rs_err :: "'e read_err option"

text \<open>What \<open>IterateSSE\<close> does after the read loop has seen the end of the input.\<close>

definition finishSSE ::
  "('w \<Rightarrow> sse_event \<Rightarrow> 'w \<times> 'e option) \<Rightarrow> bytes \<Rightarrow> decoder_state \<Rightarrow> 'w \<Rightarrow> 'w \<times> 'e option" where
  "finishSSE fn buffer0 st0 w0 =
    (case drainCompleteLines fn buffer0 st0 w0 of
       (_, _, w, Some e) \<Rightarrow> (w, Some e)
     | (buffer, st, w, None) \<Rightarrow>
        let (ev1, st1) = (if length buffer > 0 then decodeSseLine buffer st else (None, st));
            (w1, e1) = (case ev1 of None \<Rightarrow> (w, None) | Some ev \<Rightarrow> fn w ev)
        in case e1 of Some e \<Rightarrow> (w1, Some e)
           | None \<Rightarrow>
             (case flushSseEvent st1 of
                (None, _) \<Rightarrow> (w1, None)
              | (Some ev, _) \<Rightarrow> fn w1 ev))"

fun iterateSSE ::
  "('w \<Rightarrow> sse_event \<Rightarrow> 'w \<times> 'e option) \<Rightarrow> 'e read_step list \<Rightarrow> bytes \<Rightarrow> decoder_state \<Rightarrow> 'w
     \<Rightarrow> ('w \<times> 'e option) option" where
  "iterateSSE fn [] buffer st w = None"
| "iterateSSE fn (r # rs) buffer st w =
    (case rs_ctx r of
       Some e \<Rightarrow> Some (w, Some e)
     | None \<Rightarrow>
        (let (buffer', st', w', callErr) =
               (if length (rs_bytes r) > 0
                then drainCompleteLines fn (buffer @ rs_bytes r) st w
                else (buffer, st, w, None))
         in case callErr of
              Some e \<Rightarrow> Some (w', Some e)
            | None \<Rightarrow>
               (case rs_err r of
                  Some EOF \<Rightarrow> Some (finishSSE fn buffer' st' w')
                | Some (ReadErr e) \<Rightarrow> Some (w', Some e)
                | None \<Rightarrow> iterateSSE fn rs buffer' st' w')))"

definition IterateSSE ::
  "('w \<Rightarrow> sse_event \<Rightarrow> 'w \<times> 'e option) \<Rightarrow> 'e read_step list \<Rightarrow> 'w \<Rightarrow> ('w \<times> 'e option) option" where
  "IterateSSE fn reads w = iterateSSE fn reads [] empty_decoder w"

text \<open>The callback that collects every event, used by the examples.\<close>

definition collect :: "sse_event list \<Rightarrow> sse_event \<Rightarrow> sse_event list \<times> unit option" where
  "collect w ev = (w @ [ev], None)"

definition chunk :: "bytes \<Rightarrow> 'e read_step" where
  "chunk b = \<lparr>rs_ctx = None, rs_bytes = b, rs_err = None\<rparr>"

definition last_chunk :: "bytes \<Rightarrow> 'e read_step" where
  "last_chunk b = \<lparr>rs_ctx = None, rs_bytes = b, rs_err = Some EOF\<rparr>"

section \<open>Draining is independent of how the input is cut\<close>

text \<open>A cut is harmless unless it falls between the two bytes of a CRLF.\<close>

definition safe_cut :: "bytes \<Rightarrow> bool" where
  "safe_cut a \<longleftrightarrow> a = [] \<or> last a \<noteq> CR"

lemma first_index_append:
  "first_index P (xs @ ys) =
     (case first_index P xs of Some i \<Rightarrow> Some i | None \<Rightarrow> map_option (\<lambda>i. length xs + i) (first_index P ys))"
  by (induction xs; cases "first_index P ys") (auto split: option.splits)

lemma consumeLineBytes_append:
  assumes "consumeLineBytes a = Some (l, r)" and "safe_cut a"
  shows "consumeLineBytes (a @ b) = Some (l, r @ b)" and "safe_cut r"
proof -
  from assms(1) obtain i where i: "first_index (\<lambda>b. b = CR \<or> b = NL) a = Some i"
    by (auto simp: consumeLineBytes_def nextLineBreakIndexBytes_def split: option.splits)
  from first_index_Some [OF i] have il: "i < length a" by blast
  have crlf: "a ! i = CR \<Longrightarrow> Suc i < length a"
  proof (rule ccontr)
    assume "a ! i = CR" and "\<not> Suc i < length a"
    with il have "last a = CR" by (metis Suc_lessI diff_Suc_1 last_conv_nth length_0_conv not_less0)
    with assms(2) il show False by (auto simp: safe_cut_def)
  qed
  show "consumeLineBytes (a @ b) = Some (l, r @ b)"
    using assms(1) i il crlf
    by (auto simp: consumeLineBytes_def nextLineBreakIndexBytes_def first_index_append Let_def nth_append
        split: if_splits)
  have "\<exists>n. r = drop n a"
    using assms(1) i by (auto simp: consumeLineBytes_def nextLineBreakIndexBytes_def Let_def)
  with assms(2) show "safe_cut r" by (auto simp: safe_cut_def last_drop)
qed

lemma drain_append:
  "safe_cut a \<Longrightarrow>
   drainCompleteLines fn (a @ b) st w =
     (case drainCompleteLines fn a st w of
        (r, st', w', None) \<Rightarrow> drainCompleteLines fn (r @ b) st' w'
      | (r, st', w', Some e) \<Rightarrow> (r @ b, st', w', Some e))"
proof (induction fn a st w rule: drainCompleteLines.induct)
  case (1 fn a st w)
  show ?case
  proof (cases "consumeLineBytes a")
    case None
    then show ?thesis by (simp add: drainCompleteLines.simps [of fn a])
  next
    case (Some lr)
    obtain l r where lr: "lr = (l, r)" by fastforce
    with Some "1.prems" have c: "consumeLineBytes (a @ b) = Some (l, r @ b)" and safe: "safe_cut r"
      using consumeLineBytes_append by auto
    have ca: "consumeLineBytes a = Some (l, r)" using Some lr by simp
    obtain ev st' where d: "decodeSseLine l st = (ev, st')" by fastforce
    note unfold = drainCompleteLines.simps [of fn a st w] drainCompleteLines.simps [of fn "a @ b" st w]
    show ?thesis
    proof (cases ev)
      case None
      from "1.IH"(1) [OF ca refl d [symmetric] None safe]
      show ?thesis by (simp only: unfold ca c d None option.case prod.case)
    next
      case ev: (Some ev')
      obtain w' e where f: "fn w ev' = (w', e)" by fastforce
      show ?thesis
      proof (cases e)
        case None
        from "1.IH"(2) [OF ca refl d [symmetric] ev f [symmetric] None safe]
        show ?thesis by (simp only: unfold ca c d ev f None option.case prod.case)
      next
        case (Some e')
        show ?thesis by (simp only: unfold ca c d ev f Some option.case prod.case)
      qed
    qed
  qed
qed

lemma safe_cut_append: "safe_cut a \<Longrightarrow> safe_cut b \<Longrightarrow> safe_cut (a @ b)"
  by (cases "b = []") (auto simp: safe_cut_def)

lemma consume_None_safe:
  "consumeLineBytes r = None \<Longrightarrow> safe_cut r"
proof -
  assume "consumeLineBytes r = None"
  then have "first_index (\<lambda>b. b = CR \<or> b = NL) r = None"
    by (simp add: consumeLineBytes_def nextLineBreakIndexBytes_def Let_def split: option.splits)
  then have "\<forall>b \<in> set r. b \<noteq> CR" unfolding first_index_None_iff by blast
  then show "safe_cut r" unfolding safe_cut_def by (metis last_in_set)
qed

lemma drain_rest_None:
  "drainCompleteLines fn a st w = (r, st', w', None) \<Longrightarrow> consumeLineBytes r = None"
proof (induction fn a st w rule: drainCompleteLines.induct)
  case (1 fn a st w)
  note unfold = drainCompleteLines.simps [of fn a st w]
  show ?case
  proof (cases "consumeLineBytes a")
    case None
    with "1.prems" show ?thesis by (simp add: unfold)
  next
    case (Some lr)
    obtain l rest where c: "consumeLineBytes a = Some (l, rest)" using Some by (cases lr) auto
    obtain ev st1 where d: "decodeSseLine l st = (ev, st1)" by fastforce
    show ?thesis
    proof (cases ev)
      case None
      show ?thesis
        by (rule "1.IH"(1) [OF c refl d [symmetric] None])
           (use "1.prems" in \<open>simp only: unfold c d None option.case prod.case\<close>)
    next
      case ev: (Some ev')
      obtain w1 e where f: "fn w ev' = (w1, e)" by fastforce
      show ?thesis
      proof (cases e)
        case None
        show ?thesis
          by (rule "1.IH"(2) [OF c refl d [symmetric] ev f [symmetric] None])
             (use "1.prems" in \<open>simp only: unfold c d ev f None option.case prod.case\<close>)
      next
        case (Some e')
        with "1.prems" show ?thesis by (simp only: unfold c d ev f option.case prod.case) simp
      qed
    qed
  qed
qed

lemma drain_idle: "consumeLineBytes a = None \<Longrightarrow> drainCompleteLines fn a st w = (a, st, w, None)"
  by (simp add: drainCompleteLines.simps)

section \<open>Chunked reading equals reading everything at once\<close>

text \<open>
  \<open>feed\<close> is the state of the loop after some chunks: the pending bytes, the decoder, the
  caller state, and the callback error that stopped it.
\<close>

lemma iterate_step:
  assumes "consumeLineBytes buffer = None" and "drainCompleteLines fn (buffer @ b) st w = (r, st', w', None)"
  shows "iterateSSE fn (chunk b # rs) buffer st w = iterateSSE fn rs r st' w'"
    and "iterateSSE fn (last_chunk b # rs) buffer st w = Some (finishSSE fn r st' w')"
  using assms drain_idle [OF assms(1), of fn st w] by (auto simp: chunk_def last_chunk_def)

lemma iterate_step_error:
  assumes "consumeLineBytes buffer = None" and "drainCompleteLines fn (buffer @ b) st w = (r, st', w', Some e)"
  shows "iterateSSE fn (chunk b # rs) buffer st w = Some (w', Some e)"
    and "iterateSSE fn (last_chunk b # rs) buffer st w = Some (w', Some e)"
  using assms drain_idle [OF assms(1), of fn st w] by (auto simp: chunk_def last_chunk_def)

lemma iterate_chunks:
  "\<lbrakk> consumeLineBytes buffer = None; \<forall>c \<in> set cs. safe_cut c \<rbrakk> \<Longrightarrow>
   iterateSSE fn (map chunk cs @ [last_chunk l]) buffer st w
     = iterateSSE fn [last_chunk (concat cs @ l)] buffer st w"
proof (induction cs arbitrary: buffer st w)
  case Nil
  then show ?case by simp
next
  case (Cons c cs)
  from Cons.prems have sc: "safe_cut (buffer @ c)"
    by (simp add: consume_None_safe safe_cut_append)
  obtain r st' w' e where d: "drainCompleteLines fn (buffer @ c) st w = (r, st', w', e)"
    by (metis prod_cases4)
  note split = drain_append [OF sc, of fn "concat cs @ l" st w, unfolded d append_assoc]
  show ?case
  proof (cases e)
    case None
    with d have r: "consumeLineBytes r = None" by (simp add: drain_rest_None)
    have "iterateSSE fn (map chunk cs @ [last_chunk l]) r st' w'
        = iterateSSE fn [last_chunk (concat cs @ l)] r st' w'"
      by (rule Cons.IH [OF r]) (use Cons.prems in simp)
    moreover have "iterateSSE fn [last_chunk (concat cs @ l)] r st' w'
        = iterateSSE fn [last_chunk (c @ concat cs @ l)] buffer st w"
    proof -
      obtain r2 st2 w2 e2 where d2: "drainCompleteLines fn (r @ concat cs @ l) st' w' = (r2, st2, w2, e2)"
        by (metis prod_cases4)
      with split None have d3: "drainCompleteLines fn (buffer @ c @ concat cs @ l) st w = (r2, st2, w2, e2)"
        by simp
      show ?thesis
        using iterate_step(2) [OF r, of fn "concat cs @ l"] iterate_step(2) [OF Cons.prems(1), of fn "c @ concat cs @ l"]
          iterate_step_error(2) [OF r, of fn "concat cs @ l"]
          iterate_step_error(2) [OF Cons.prems(1), of fn "c @ concat cs @ l"] d2 d3
        by (cases e2) simp_all
    qed
    ultimately show ?thesis
      using iterate_step(1) [OF Cons.prems(1), of fn c] d None by simp
  next
    case (Some e')
    with split have d3: "drainCompleteLines fn (buffer @ c @ concat cs @ l) st w
        = (r @ concat cs @ l, st', w', Some e')" by simp
    show ?thesis
      using iterate_step_error(1) [OF Cons.prems(1), of fn c] iterate_step_error(2) [OF Cons.prems(1) d3] d Some
      by simp
  qed
qed

text \<open>C32: however the provider's byte stream is cut into reads, as long as no read but the last
  ends in a carriage return, the callback sees the same events in the same order and
  \<open>IterateSSE\<close> returns the same result as if the whole stream had arrived in one read; this
  holds for callbacks that fail too.\<close>

theorem IterateSSE_chunk_independent:
  assumes "\<forall>c \<in> set cs. safe_cut c"
  shows "IterateSSE fn (map chunk cs @ [last_chunk l]) w = IterateSSE fn [last_chunk (concat cs @ l)] w"
proof -
  have "consumeLineBytes [] = None"
    by (simp add: consumeLineBytes_def nextLineBreakIndexBytes_def)
  then show ?thesis unfolding IterateSSE_def by (rule iterate_chunks [OF _ assms])
qed

theorem IterateSSE_chunk_independent_witness:
  "IterateSSE collect (map chunk [''da'', ''ta: x\<newline>''] @ [last_chunk ''\<newline>'']) []
     = IterateSSE collect [last_chunk ''data: x\<newline>\<newline>''] []"
  using IterateSSE_chunk_independent [of "[''da'', ''ta: x\<newline>'']" collect "''\<newline>''" "[]"]
  by (simp add: safe_cut_def)

text \<open>
  The restriction is needed: a CRLF cut between its two bytes is read as two line breaks, so
  the event is dispatched before its second data line.
\<close>

lemma IterateSSE_split_crlf:
  "map_option (map sse_data \<circ> fst)
     (IterateSSE collect [chunk (''data: a'' @ [CR]), last_chunk ([NL] @ ''data: b'' @ [CR, NL, CR, NL])] [])
     = Some [''a'', ''b'']"
  "map_option (map sse_data \<circ> fst)
     (IterateSSE collect [last_chunk (''data: a'' @ [CR] @ [NL] @ ''data: b'' @ [CR, NL, CR, NL])] [])
     = Some [''a'' @ [NL] @ ''b'']"
  by code_simp+

section \<open>Decoding what a server writes\<close>

definition data_line :: "string \<Rightarrow> string" where
  "data_line l = ''data: '' @ l"

text \<open>The wire form of one event: its name and its data lines.\<close>

definition sse_frame :: "string \<times> string list \<Rightarrow> bytes" where
  "sse_frame e = ''event: '' @ fst e @ [NL] @ concat (map (\<lambda>l. data_line l @ [NL]) (snd e)) @ [NL]"

definition frame_lines :: "string \<times> string list \<Rightarrow> string list" where
  "frame_lines e = (''event: '' @ fst e) # map data_line (snd e)"

definition clean_line :: "string \<Rightarrow> bool" where
  "clean_line l \<longleftrightarrow> CR \<notin> set l \<and> NL \<notin> set l"

definition clean_frame :: "string \<times> string list \<Rightarrow> bool" where
  "clean_frame e \<longleftrightarrow> (fst e \<noteq> [] \<or> snd e \<noteq> []) \<and> clean_line (fst e) \<and> (\<forall>l \<in> set (snd e). clean_line l)"

definition frame_event :: "string \<times> string list \<Rightarrow> sse_event" where
  "frame_event e = \<lparr>sse_event_name = fst e, sse_data = join [NL] (snd e), sse_raw = frame_lines e\<rparr>"

lemma clean_line_simps [simp]:
  "clean_line []" "clean_line (c # l) \<longleftrightarrow> c \<noteq> CR \<and> c \<noteq> NL \<and> clean_line l"
  "clean_line (a @ b) \<longleftrightarrow> clean_line a \<and> clean_line b"
  by (auto simp: clean_line_def)

lemma consume_clean_line: "clean_line l \<Longrightarrow> consumeLineBytes (l @ NL # rest) = Some (l, rest)"
proof -
  assume l: "clean_line l"
  then have "first_index (\<lambda>b. b = CR \<or> b = NL) l = None"
    by (auto simp: first_index_None_iff clean_line_def)
  then show ?thesis
    by (simp add: consumeLineBytes_def nextLineBreakIndexBytes_def first_index_append)
qed

lemma drain_clean_line:
  assumes "clean_line l"
  shows "drainCompleteLines collect (l @ NL # rest) st w =
    (case decodeSseLine l st of
       (None, st') \<Rightarrow> drainCompleteLines collect rest st' w
     | (Some ev, st') \<Rightarrow> drainCompleteLines collect rest st' (w @ [ev]))"
  by (subst drainCompleteLines.simps)
     (simp add: consume_clean_line [OF assms] collect_def split: option.splits prod.splits)

lemma decode_event_line:
  "decodeSseLine (''event: '' @ n) st = (None, st\<lparr>ds_raw := ds_raw st @ [''event: '' @ n], ds_event := n\<rparr>)"
  by (simp add: decodeSseLine_def str_index.simps)

lemma decode_data_line:
  "decodeSseLine (data_line l) st
     = (None, st\<lparr>ds_raw := ds_raw st @ [data_line l], ds_data := ds_data st @ [l]\<rparr>)"
  by (simp add: decodeSseLine_def str_index.simps data_line_def)

lemma drain_data_lines:
  "\<forall>l \<in> set ls. clean_line l \<Longrightarrow>
   drainCompleteLines collect (concat (map (\<lambda>l. data_line l @ [NL]) ls) @ rest) st w =
   drainCompleteLines collect rest
     (st\<lparr>ds_raw := ds_raw st @ map data_line ls, ds_data := ds_data st @ ls\<rparr>) w"
proof (induction ls arbitrary: st)
  case Nil
  then show ?case by simp
next
  case (Cons l ls)
  have "clean_line (data_line l)" using Cons.prems by (simp add: data_line_def)
  note line = drain_clean_line [OF this]
  have eq: "concat (map (\<lambda>l. data_line l @ [NL]) (l # ls)) @ rest
      = data_line l @ NL # (concat (map (\<lambda>l. data_line l @ [NL]) ls) @ rest)" by simp
  have tl: "\<forall>l \<in> set ls. clean_line l" using Cons.prems by simp
  show ?case
    unfolding eq line decode_data_line option.case prod.case Cons.IH [OF tl] by simp
qed

lemma drain_frame:
  assumes "clean_frame e"
  shows "drainCompleteLines collect (sse_frame e @ rest) empty_decoder w =
    drainCompleteLines collect rest empty_decoder (w @ [frame_event e])"
proof -
  let ?st1 = "empty_decoder\<lparr>ds_raw := [''event: '' @ fst e], ds_event := fst e\<rparr>"
  let ?st2 = "?st1\<lparr>ds_raw := frame_lines e, ds_data := snd e\<rparr>"
  let ?body = "concat (map (\<lambda>l. data_line l @ [NL]) (snd e))"
  have c: "clean_line (''event: '' @ fst e)" and cl: "\<forall>l \<in> set (snd e). clean_line l"
    using assms by (auto simp: clean_frame_def)
  have "drainCompleteLines collect (sse_frame e @ rest) empty_decoder w
      = drainCompleteLines collect (?body @ [NL] @ rest) ?st1 w"
    using drain_clean_line [OF c, of "?body @ [NL] @ rest" empty_decoder w]
    by (simp add: sse_frame_def decode_event_line [simplified] empty_decoder_def)
  also have "\<dots> = drainCompleteLines collect ([NL] @ rest) ?st2 w"
    using drain_data_lines [OF cl, of "[NL] @ rest" ?st1 w]
    by (simp add: empty_decoder_def frame_lines_def)
  also have "\<dots> = drainCompleteLines collect rest empty_decoder (w @ [frame_event e])"
    using drain_clean_line [of "[]" rest ?st2 w] assms
    by (auto simp: decodeSseLine_def flushSseEvent_def empty_decoder_def frame_event_def clean_frame_def)
  finally show ?thesis .
qed

lemma drain_frames:
  "\<forall>e \<in> set es. clean_frame e \<Longrightarrow>
   drainCompleteLines collect (concat (map sse_frame es)) empty_decoder w
     = ([], empty_decoder, w @ map frame_event es, None)"
proof (induction es arbitrary: w)
  case Nil
  then show ?case by (simp add: drain_idle consumeLineBytes_def nextLineBreakIndexBytes_def)
next
  case (Cons e es)
  then show ?case by (simp add: drain_frame)
qed

lemma frames_no_cr: "\<forall>e \<in> set es. clean_frame e \<Longrightarrow> CR \<notin> set (concat (map sse_frame es))"
  by (auto simp: sse_frame_def clean_frame_def clean_line_def data_line_def)

text \<open>C33: a server that writes each event as an \<open>event:\<close> line, its \<open>data:\<close> lines and a blank
  line is decoded exactly, however the bytes are cut into reads: the callback sees each event
  once, in order, with its name and its data lines joined by newlines, and no error results.\<close>

theorem IterateSSE_roundtrip:
  assumes "\<forall>e \<in> set es. clean_frame e" and "concat cs @ l = concat (map sse_frame es)"
  shows "IterateSSE collect (map chunk cs @ [last_chunk l]) [] = Some (map frame_event es, None)"
proof -
  have nocr: "CR \<notin> set (concat cs @ l)" using frames_no_cr [OF assms(1)] assms(2) by simp
  then have "\<forall>c \<in> set cs. safe_cut c"
    by (auto simp: safe_cut_def) (metis last_in_set)
  then have "IterateSSE collect (map chunk cs @ [last_chunk l]) []
      = IterateSSE collect [last_chunk (concat (map sse_frame es))] []"
    unfolding IterateSSE_def assms(2) [symmetric]
    by (intro iterate_chunks) (simp_all add: consumeLineBytes_def nextLineBreakIndexBytes_def)
  also have "\<dots> = Some (map frame_event es, None)"
  proof -
    have "finishSSE collect [] empty_decoder w = (w, None)" for w
      by (simp add: finishSSE_def drain_idle consumeLineBytes_def nextLineBreakIndexBytes_def
          flushSseEvent_def empty_decoder_def)
    with drain_frames [OF assms(1), of "[]"] show ?thesis
      by (cases es) (simp_all add: IterateSSE_def last_chunk_def sse_frame_def)
  qed
  finally show ?thesis .
qed

theorem IterateSSE_roundtrip_witness:
  "IterateSSE collect (map chunk [''event: m\<newline>data'', '': {}\<newline>''] @ [last_chunk ''\<newline>'']) []
     = Some ([frame_event (''m'', [''{}''])], None)"
  using IterateSSE_roundtrip [of "[(''m'', [''{}''])]" "[''event: m\<newline>data'', '': {}\<newline>'']" "''\<newline>''"]
  by (simp add: clean_frame_def sse_frame_def data_line_def)

text \<open>A property of the callback's state that every call keeps holds after the iteration.\<close>

lemma drainCompleteLines_inv:
  assumes step: "\<And>w ev. P w \<Longrightarrow> P (fst (fn w ev))"
  shows "P w \<Longrightarrow> P (fst (snd (snd (drainCompleteLines fn buffer st w))))"
proof (induction buffer arbitrary: st w rule: measure_induct_rule [where f = length])
  case (less buffer)
  show ?case
  proof (cases "consumeLineBytes buffer")
    case None
    with less.prems show ?thesis by (simp add: drainCompleteLines.simps [of fn buffer])
  next
    case (Some lr)
    obtain line rest where lr: "lr = (line, rest)" by (cases lr)
    note short = consumeLineBytes_shorter [OF Some [unfolded lr]]
    obtain o1 st' where d: "decodeSseLine line st = (o1, st')" by (cases "decodeSseLine line st")
    show ?thesis
    proof (cases o1)
      case None
      with Some lr d less.IH [OF short less.prems] show ?thesis by (simp add: drainCompleteLines.simps [of fn buffer])
    next
      case ev: (Some ev)
      obtain w' e where f: "fn w ev = (w', e)" by (cases "fn w ev")
      with step [OF less.prems, of ev] have w': "P w'" by simp
      show ?thesis using Some lr d ev f w' less.IH [OF short w']
        by (cases e) (simp_all add: drainCompleteLines.simps [of fn buffer])
    qed
  qed
qed

lemma finishSSE_inv:
  assumes step: "\<And>w ev. P w \<Longrightarrow> P (fst (fn w ev))"
  shows "P w \<Longrightarrow> P (fst (finishSSE fn buffer st w))"
proof -
  assume w: "P w"
  obtain b1 st1 w1 e1 where d: "drainCompleteLines fn buffer st w = (b1, st1, w1, e1)"
    by (cases "drainCompleteLines fn buffer st w") auto
  with drainCompleteLines_inv [of P fn, OF step w, of buffer st] have w1: "P w1" by simp
  show ?thesis
  proof (cases e1)
    case None
    obtain o2 st2 where l: "(if 0 < length b1 then decodeSseLine b1 st1 else (None, st1)) = (o2, st2)"
      by (cases "if 0 < length b1 then decodeSseLine b1 st1 else (None, st1)")
    obtain w2 e2 where f: "(case o2 of None \<Rightarrow> (w1, None) | Some ev \<Rightarrow> fn w1 ev) = (w2, e2)"
      by (cases "case o2 of None \<Rightarrow> (w1, None) | Some ev \<Rightarrow> fn w1 ev")
    have w2: "P w2" using f w1 step [OF w1] by (cases o2) (auto, metis fst_conv)
    show ?thesis using None d l f w2 step [OF w2]
      by (auto simp: finishSSE_def Let_def split: option.splits prod.splits) 
  qed (use d w1 in \<open>simp add: finishSSE_def\<close>)
qed

lemma iterateSSE_inv:
  assumes step: "\<And>w ev. P w \<Longrightarrow> P (fst (fn w ev))"
  shows "P w \<Longrightarrow> iterateSSE fn reads buffer st w = Some (w', e) \<Longrightarrow> P w'"
proof (induction reads arbitrary: buffer st w)
  case (Cons r reads)
  obtain b1 st1 w1 e1 where d: "(if length (rs_bytes r) > 0 then drainCompleteLines fn (buffer @ rs_bytes r) st w
      else (buffer, st, w, None)) = (b1, st1, w1, e1)"
    by (cases "if length (rs_bytes r) > 0 then drainCompleteLines fn (buffer @ rs_bytes r) st w else (buffer, st, w, None)") auto
  have w1: "P w1" using drainCompleteLines_inv [of P fn, OF step Cons.prems(1), of "buffer @ rs_bytes r" st] d Cons.prems(1)
    by (auto split: if_splits)
  from finishSSE_inv [of P fn, OF step w1] Cons.IH [OF w1] Cons.prems d w1 show ?case
    by (auto simp: Let_def split: option.splits read_err.splits if_splits) (metis fst_conv)+
qed simp

lemma IterateSSE_inv:
  "(\<And>w ev. P w \<Longrightarrow> P (fst (fn w ev))) \<Longrightarrow> P w \<Longrightarrow> IterateSSE fn reads w = Some (w', e) \<Longrightarrow> P w'"
  unfolding IterateSSE_def by (rule iterateSSE_inv)


text \<open>The iteration returns once a read fails, ends the input or is cancelled.\<close>

definition read_ends :: "'e read_step \<Rightarrow> bool" where
  "read_ends r \<longleftrightarrow> rs_ctx r \<noteq> None \<or> rs_err r \<noteq> None"

lemma iterateSSE_ends: "list_ex read_ends reads \<Longrightarrow> iterateSSE fn reads buffer st w \<noteq> None"
  by (induction reads arbitrary: buffer st w)
    (auto simp: read_ends_def Let_def split: option.splits prod.splits read_err.splits if_splits)

lemma IterateSSE_ends: "list_ex read_ends reads \<Longrightarrow> \<exists>w' e. IterateSSE fn reads w = Some (w', e)"
  unfolding IterateSSE_def using iterateSSE_ends [of reads fn "[]" empty_decoder w] by auto

end
