(* ===== verification/Json_Repair.thy ===== *)
theory Json_Repair
  imports Prelude
begin

text \<open>
  \<open>internal/engine/jsonrepair/jsonrepair.go\<close>: the byte state machine that repairs the string
  literals of model-written JSON, and the two parsers built on it.  \<open>json.Unmarshal\<close> of the
  parsers is the argument \<open>unmarshal\<close>; it returns an error or the decoded value, and for a map
  the decoded value may be the nil map, \<^const>\<open>None\<close>.
\<close>

section \<open>Definitions\<close>

definition isControlCharacter :: "char \<Rightarrow> bool" where
  "isControlCharacter c \<longleftrightarrow> byte c \<le> 0x1F"

definition hex_digit :: "nat \<Rightarrow> char" where
  "hex_digit n = (if n < 10 then char_of (48 + n) else char_of (87 + n))"

text \<open>\<open>fmt.Sprintf("%04x", n)\<close> for a byte.\<close>

definition hex4 :: "nat \<Rightarrow> string" where
  "hex4 n = [hex_digit (n div 4096 mod 16), hex_digit (n div 256 mod 16), hex_digit (n div 16 mod 16), hex_digit (n mod 16)]"

definition escapeControlCharacter :: "char \<Rightarrow> string" where
  "escapeControlCharacter c =
     (if c = CHR 0x08 then [BACKSLASH, CHR ''b'']
      else if c = CHR 0x0C then [BACKSLASH, CHR ''f'']
      else if c = NL then [BACKSLASH, CHR ''n'']
      else if c = CR then [BACKSLASH, CHR ''r'']
      else if c = TAB then [BACKSLASH, CHR ''t'']
      else [BACKSLASH, CHR ''u''] @ hex4 (byte c))"

definition isValidJSONEscape :: "char \<Rightarrow> bool" where
  "isValidJSONEscape c \<longleftrightarrow> c \<in> {DQUOTE, BACKSLASH, CHR ''/'', CHR ''b'', CHR ''f'', CHR ''n'', CHR ''r'', CHR ''t'', CHR ''u''}"

definition is_hex :: "char \<Rightarrow> bool" where
  "is_hex c \<longleftrightarrow> (48 \<le> byte c \<and> byte c \<le> 57) \<or> (97 \<le> byte c \<and> byte c \<le> 102) \<or> (65 \<le> byte c \<and> byte c \<le> 70)"

definition isHex4 :: "string \<Rightarrow> bool" where
  "isHex4 s \<longleftrightarrow> (\<forall>c \<in> set s. is_hex c)"

text \<open>The loop of \<open>RepairJson\<close>; the first argument is \<open>inString\<close>.\<close>

function (sequential) repair :: "bool \<Rightarrow> string \<Rightarrow> string" where
  "repair inString [] = []"
| "repair False (c # cs) = c # repair (c = DQUOTE) cs"
| "repair True (c # cs) =
     (if c = DQUOTE then c # repair False cs
      else if c = BACKSLASH then
        (case cs of
           [] \<Rightarrow> [BACKSLASH, BACKSLASH]
         | n # cs1 \<Rightarrow>
             if n = CHR ''u'' \<and> length (take 4 cs1) = 4 \<and> isHex4 (take 4 cs1)
             then [BACKSLASH, CHR ''u''] @ take 4 cs1 @ repair True (drop 4 cs1)
             else if isValidJSONEscape n then [BACKSLASH, n] @ repair True cs1
             else [BACKSLASH, BACKSLASH] @ repair True (n # cs1))
      else if isControlCharacter c then escapeControlCharacter c @ repair True cs
      else c # repair True cs)"
  by pat_completeness auto
termination
  by (relation "measure (\<lambda>(b, s). length s)") auto

declare repair.simps(3) [simp del]

definition RepairJson :: "string \<Rightarrow> string" where
  "RepairJson input = repair False input"

definition ParseJsonWithRepair :: "(string \<Rightarrow> 'e + 'v) \<Rightarrow> string \<Rightarrow> 'e + 'v" where
  "ParseJsonWithRepair unmarshal input =
    (case unmarshal input of
       Inl err \<Rightarrow> (let repaired = RepairJson input in
                 if repaired \<noteq> input then unmarshal repaired else Inl err)
     | Inr v \<Rightarrow> Inr v)"

definition ParseStreamingJSON ::
  "(string \<Rightarrow> 'e + (string \<rightharpoonup> 'v) option) \<Rightarrow> string \<Rightarrow> (string \<rightharpoonup> 'v)" where
  "ParseStreamingJSON unmarshal partial =
     (if trim_space partial = [] then Map.empty
      else case ParseJsonWithRepair unmarshal partial of
             Inr (Some m) \<Rightarrow> m
           | _ \<Rightarrow> Map.empty)"

section \<open>Well-escaped JSON text\<close>

text \<open>
  \<open>well_escaped inString s\<close>: inside string literals \<open>s\<close> has no raw control byte and every
  backslash starts an escape that the decoder's scanner knows.
\<close>

fun well_escaped :: "bool \<Rightarrow> string \<Rightarrow> bool" where
  "well_escaped b [] = True"
| "well_escaped False (c # cs) = well_escaped (c = DQUOTE) cs"
| "well_escaped True [c] = (c \<noteq> BACKSLASH \<and> (c = DQUOTE \<or> \<not> isControlCharacter c))"
| "well_escaped True (c # n # cs) =
     (if c = DQUOTE then well_escaped False (n # cs)
      else if c = BACKSLASH then isValidJSONEscape n \<and> well_escaped True cs
      else \<not> isControlCharacter c \<and> well_escaped True (n # cs))"

definition plain_char :: "char \<Rightarrow> bool" where
  "plain_char c \<longleftrightarrow> c \<noteq> DQUOTE \<and> c \<noteq> BACKSLASH \<and> \<not> isControlCharacter c"

lemma well_escaped_plain [simp]:
  "plain_char c \<Longrightarrow> well_escaped True (c # cs) = well_escaped True cs"
  by (cases cs) (auto simp: plain_char_def)

lemma well_escaped_plains:
  "\<forall>c \<in> set xs. plain_char c \<Longrightarrow> well_escaped True (xs @ cs) = well_escaped True cs"
  by (induction xs) auto

lemma well_escaped_quote [simp]: "well_escaped True (DQUOTE # cs) = well_escaped False cs"
  by (cases cs) auto

lemma well_escaped_escape [simp]:
  "well_escaped True (BACKSLASH # n # cs) = (isValidJSONEscape n \<and> well_escaped True cs)"
  by simp

lemma hex_plain: "is_hex c \<Longrightarrow> plain_char c"
  by (auto simp: is_hex_def plain_char_def isControlCharacter_def)

lemma hex_digit_is_hex [simp]: "n < 16 \<Longrightarrow> is_hex (hex_digit n)"
  by (auto simp: hex_digit_def is_hex_def of_char_of take_bit_eq_mod)

lemma hex4_plain: "\<forall>x \<in> set (hex4 n). plain_char x"
  by (simp add: hex4_def hex_plain)

lemma escapeControl_well_escaped:
  "well_escaped True (escapeControlCharacter c @ cs) = well_escaped True cs"
  by (simp add: escapeControlCharacter_def isValidJSONEscape_def well_escaped_plains hex4_plain)

lemma repair_well_escaped: "well_escaped b (repair b s)"
proof (induction b s rule: repair.induct)
  case (1 b)
  then show ?case by simp
next
  case (2 c cs)
  then show ?case by simp
next
  case (3 c cs)
  consider (quote) "c = DQUOTE" | (fin) "c = BACKSLASH" "cs = []"
    | (esc) n cs1 where "c = BACKSLASH" "cs = n # cs1"
    | (ctl) "c \<noteq> DQUOTE" "c \<noteq> BACKSLASH" "isControlCharacter c"
    | (plain) "plain_char c"
    by (cases cs) (auto simp: plain_char_def)
  then show ?case
  proof cases
    case quote
    with "3.IH"(1) show ?thesis by (simp add: repair.simps(3))
  next
    case fin
    then show ?thesis by (simp add: repair.simps(3) isValidJSONEscape_def)
  next
    case esc
    have ncq: "c \<noteq> DQUOTE" using esc by simp
    consider "n = CHR ''u'' \<and> length (take 4 cs1) = 4 \<and> isHex4 (take 4 cs1)"
      | "\<not> (n = CHR ''u'' \<and> length (take 4 cs1) = 4 \<and> isHex4 (take 4 cs1))" "isValidJSONEscape n"
      | "\<not> (n = CHR ''u'' \<and> length (take 4 cs1) = 4 \<and> isHex4 (take 4 cs1))" "\<not> isValidJSONEscape n"
      by blast
    then show ?thesis
    proof cases
      case 1
      then have "\<forall>x \<in> set (take 4 cs1). plain_char x" by (auto simp: isHex4_def hex_plain)
      moreover have "well_escaped True (repair True (drop 4 cs1))" by (rule "3.IH"(2) [OF ncq esc 1])
      ultimately show ?thesis
        using 1 esc by (simp add: repair.simps(3) isValidJSONEscape_def well_escaped_plains)
    next
      case 2
      with "3.IH"(3) [OF ncq esc 2] esc show ?thesis by (auto simp: repair.simps(3))
    next
      case 3
      with "3.IH"(4) [OF ncq esc 3] esc show ?thesis
        by (simp add: repair.simps(3) isValidJSONEscape_def)
    qed
  next
    case ctl
    with "3.IH"(5) show ?thesis by (simp add: repair.simps(3) escapeControl_well_escaped)
  next
    case plain
    with "3.IH"(6) show ?thesis by (auto simp: repair.simps(3) plain_char_def [of c])
  qed
qed

lemma repair_fixed: "well_escaped b s \<Longrightarrow> repair b s = s"
proof (induction b s rule: repair.induct)
  case (1 b)
  then show ?case by simp
next
  case (2 c cs)
  then show ?case by simp
next
  case (3 c cs)
  consider (quote) "c = DQUOTE" | (fin) "c = BACKSLASH" "cs = []"
    | (esc) n cs1 where "c = BACKSLASH" "cs = n # cs1"
    | (ctl) "c \<noteq> DQUOTE" "c \<noteq> BACKSLASH" "isControlCharacter c"
    | (plain) "plain_char c"
    by (cases cs) (auto simp: plain_char_def)
  then show ?case
  proof cases
    case quote
    with "3.IH"(1) "3.prems" show ?thesis by (simp add: repair.simps(3))
  next
    case fin
    with "3.prems" show ?thesis by simp
  next
    case esc
    have ncq: "c \<noteq> DQUOTE" using esc by simp
    from "3.prems" esc have v: "isValidJSONEscape n" "well_escaped True cs1" by auto
    show ?thesis
    proof (cases "n = CHR ''u'' \<and> length (take 4 cs1) = 4 \<and> isHex4 (take 4 cs1)")
      case True
      then have "\<forall>x \<in> set (take 4 cs1). plain_char x" by (auto simp: isHex4_def hex_plain)
      with v(2) have "well_escaped True (drop 4 cs1)"
        by (metis append_take_drop_id well_escaped_plains)
      with "3.IH"(2) [OF ncq esc True] True esc show ?thesis by (simp add: repair.simps(3))
    next
      case False
      with "3.IH"(3) [OF ncq esc False v(1) v(2)] esc v(1) show ?thesis
        by (auto simp: repair.simps(3))
    qed
  next
    case ctl
    with "3.prems" show ?thesis by (cases cs) auto
  next
    case plain
    with "3.IH"(6) "3.prems" show ?thesis by (auto simp: repair.simps(3) plain_char_def [of c])
  qed
qed

section \<open>Properties\<close>


text \<open>The retry of \<open>ParseJsonWithRepair\<close> never hides a valid document: input that the decoder
  accepts decodes as it is; input that fails is decoded once more only when it was not well
  escaped, and then from its repaired form; otherwise the first error is returned.\<close>

lemma ParseJsonWithRepair_cases:
  "ParseJsonWithRepair unmarshal input =
    (if \<exists>v. unmarshal input = Inr v then unmarshal input
     else if well_escaped False input then unmarshal input
     else unmarshal (RepairJson input))"
  using RepairJson_def repair_fixed repair_well_escaped [of False input]
  by (auto simp: ParseJsonWithRepair_def Let_def RepairJson_def split: sum.splits)

text \<open>An escape \<open>\u\<close> that is not followed by four hexadecimal digits is left as it is, although
  the decoder rejects it.\<close>

lemma RepairJson_keeps_bad_unicode:
  "RepairJson [DQUOTE, BACKSLASH, CHR ''u'', CHR ''Z'', CHR ''Z'', DQUOTE]
     = [DQUOTE, BACKSLASH, CHR ''u'', CHR ''Z'', CHR ''Z'', DQUOTE]"
  by code_simp

end
