(* ===== verification/Edit_Diff.thy ===== *)
theory Edit_Diff
  imports Prelude "HOL-Library.Multiset"
begin

text \<open>
  \<open>internal/editdiff/editdiff.go\<close>: find-and-replace edits on file content and the line diff.
  Unicode NFKC normalisation (\<open>golang.org/x/text/unicode/norm\<close>) is the argument \<open>nfkc\<close>.
  Byte offsets are \<^typ>\<open>nat\<close>; a slice expression out of range panics, which is \<^const>\<open>None\<close>.
  Errors are a datatype with the code's message texts in \<open>edit_error_message\<close>.
\<close>

section \<open>Line endings, BOM, normalisation\<close>

datatype line_ending = LF | CRLF

definition crlf :: string where "crlf = [CR, NL]"
definition BOM :: string where "BOM = [CHR 0xEF, CHR 0xBB, CHR 0xBF]"

definition DetectLineEnding :: "string \<Rightarrow> line_ending" where
  "DetectLineEnding content =
    (case (str_index content [NL], str_index content crlf) of
       (Some lfIdx, Some crlfIdx) \<Rightarrow> if crlfIdx < lfIdx then CRLF else LF
     | _ \<Rightarrow> LF)"

definition NormalizeToLF :: "string \<Rightarrow> string" where
  "NormalizeToLF text = replace_all (replace_all text crlf [NL]) [CR] [NL]"

definition RestoreLineEndings :: "string \<Rightarrow> line_ending \<Rightarrow> string" where
  "RestoreLineEndings text ending = (if ending = CRLF then replace_all text [NL] crlf else text)"

definition StripBOM :: "string \<Rightarrow> string \<times> string" where
  "StripBOM content = (if prefix BOM content then (BOM, drop (length BOM) content) else ([], content))"

definition fuzzy_pairs :: "(string \<times> string) list" where
  "fuzzy_pairs =
     map (\<lambda>r. (encode_rune r, [SQUOTE])) [0x2018, 0x2019, 0x201A, 0x201B] @
     map (\<lambda>r. (encode_rune r, [DQUOTE])) [0x201C, 0x201D, 0x201E, 0x201F] @
     map (\<lambda>r. (encode_rune r, ''-'')) [0x2010, 0x2011, 0x2012, 0x2013, 0x2014, 0x2015, 0x2212] @
     map (\<lambda>r. (encode_rune r, '' '')) [0x00A0, 0x2002, 0x2003, 0x2004, 0x2005, 0x2006, 0x2007,
       0x2008, 0x2009, 0x200A, 0x202F, 0x205F, 0x3000]"

lemma fuzzy_pairs_bytes [code]:
  "fuzzy_pairs =
    [([CHR 0xE2, CHR 0x80, CHR 0x98], [SQUOTE]),
     ([CHR 0xE2, CHR 0x80, CHR 0x99], [SQUOTE]),
     ([CHR 0xE2, CHR 0x80, CHR 0x9A], [SQUOTE]),
     ([CHR 0xE2, CHR 0x80, CHR 0x9B], [SQUOTE]),
     ([CHR 0xE2, CHR 0x80, CHR 0x9C], [DQUOTE]),
     ([CHR 0xE2, CHR 0x80, CHR 0x9D], [DQUOTE]),
     ([CHR 0xE2, CHR 0x80, CHR 0x9E], [DQUOTE]),
     ([CHR 0xE2, CHR 0x80, CHR 0x9F], [DQUOTE]),
     ([CHR 0xE2, CHR 0x80, CHR 0x90], ''-''),
     ([CHR 0xE2, CHR 0x80, CHR 0x91], ''-''),
     ([CHR 0xE2, CHR 0x80, CHR 0x92], ''-''),
     ([CHR 0xE2, CHR 0x80, CHR 0x93], ''-''),
     ([CHR 0xE2, CHR 0x80, CHR 0x94], ''-''),
     ([CHR 0xE2, CHR 0x80, CHR 0x95], ''-''),
     ([CHR 0xE2, CHR 0x88, CHR 0x92], ''-''),
     ([CHR 0xC2, CHR 0xA0], '' ''),
     ([CHR 0xE2, CHR 0x80, CHR 0x82], '' ''),
     ([CHR 0xE2, CHR 0x80, CHR 0x83], '' ''),
     ([CHR 0xE2, CHR 0x80, CHR 0x84], '' ''),
     ([CHR 0xE2, CHR 0x80, CHR 0x85], '' ''),
     ([CHR 0xE2, CHR 0x80, CHR 0x86], '' ''),
     ([CHR 0xE2, CHR 0x80, CHR 0x87], '' ''),
     ([CHR 0xE2, CHR 0x80, CHR 0x88], '' ''),
     ([CHR 0xE2, CHR 0x80, CHR 0x89], '' ''),
     ([CHR 0xE2, CHR 0x80, CHR 0x8A], '' ''),
     ([CHR 0xE2, CHR 0x80, CHR 0xAF], '' ''),
     ([CHR 0xE2, CHR 0x81, CHR 0x9F], '' ''),
     ([CHR 0xE3, CHR 0x80, CHR 0x80], '' '')]"
  by (simp add: fuzzy_pairs_def encode_rune_def Let_def char_of_def bit_Suc_0_iff)

definition NormalizeForFuzzyMatch :: "(string \<Rightarrow> string) \<Rightarrow> string \<Rightarrow> string" where
  "NormalizeForFuzzyMatch nfkc text =
     replacer fuzzy_pairs (join [NL] (map trim_right_space (split_on NL (nfkc text))))"

section \<open>Finding and applying edits\<close>

record edit =
  OldText :: string
  NewText :: string
  Anchor :: string

record fuzzy_match =
  Found :: bool
  Index :: int
  MatchLength :: nat
  UsedFuzzyMatch :: bool
  ContentForReplacement :: string

definition FuzzyFindText :: "(string \<Rightarrow> string) \<Rightarrow> string \<Rightarrow> string \<Rightarrow> fuzzy_match" where
  "FuzzyFindText nfkc content oldText =
    (case str_index content oldText of
       Some idx \<Rightarrow> \<lparr>Found = True, Index = int idx, MatchLength = length oldText, UsedFuzzyMatch = False,
                   ContentForReplacement = content\<rparr>
     | None \<Rightarrow>
        (let fuzzyContent = NormalizeForFuzzyMatch nfkc content;
             fuzzyOldText = NormalizeForFuzzyMatch nfkc oldText in
         case str_index fuzzyContent fuzzyOldText of
           None \<Rightarrow> \<lparr>Found = False, Index = -1, MatchLength = 0, UsedFuzzyMatch = False,
                    ContentForReplacement = content\<rparr>
         | Some idx \<Rightarrow> \<lparr>Found = True, Index = int idx, MatchLength = length fuzzyOldText,
                    UsedFuzzyMatch = True, ContentForReplacement = fuzzyContent\<rparr>))"

record text_replacement =
  matchIndex :: nat
  matchLength :: nat
  newText :: string

record matched_edit = text_replacement +
  editIndex :: nat

datatype edit_error =
    EmptyOldText string nat nat
  | NotFound string nat nat
  | Duplicate string nat nat nat
  | Overlap nat nat string
  | LineCountDiffers
  | OutsideBase
  | NoChange string nat

fun edit_error_message :: "edit_error \<Rightarrow> string" where
  "edit_error_message (EmptyOldText path i tot) =
     (if tot = 1 then ''oldText must not be empty in '' @ path @ ''.''
      else ''edits['' @ show_nat i @ ''].oldText must not be empty in '' @ path @ ''.'')"
| "edit_error_message (NotFound path i tot) =
     (if tot = 1 then ''Could not find the exact text in '' @ path @
        ''. The old text must match exactly including all whitespace and newlines.''
      else ''Could not find edits['' @ show_nat i @ ''] in '' @ path @
        ''. The oldText must match exactly including all whitespace and newlines.'')"
| "edit_error_message (Duplicate path i tot n) =
     (if tot = 1 then ''Found '' @ show_nat n @ '' occurrences of the text in '' @ path @
        ''. The text must be unique. Please provide more context to make it unique.''
      else ''Found '' @ show_nat n @ '' occurrences of edits['' @ show_nat i @ ''] in '' @ path @
        ''. Each oldText must be unique. Please provide more context to make it unique.'')"
| "edit_error_message (Overlap i j path) =
     ''edits['' @ show_nat i @ ''] and edits['' @ show_nat j @ ''] overlap in '' @ path @
     ''. Merge them into one edit or target disjoint regions.''"
| "edit_error_message LineCountDiffers =
     ''Cannot preserve unchanged lines because the base content has a different line count.''"
| "edit_error_message OutsideBase = ''Replacement range is outside the base content.''"
| "edit_error_message (NoChange path tot) =
     (if tot = 1 then ''No changes made to '' @ path @
        ''. The replacement produced identical content. This might indicate an issue with special characters or the text not existing as expected.''
      else ''No changes made to '' @ path @ ''. The replacements produced identical content.'')"

definition countOccurrences :: "(string \<Rightarrow> string) \<Rightarrow> string \<Rightarrow> string \<Rightarrow> nat" where
  "countOccurrences nfkc content oldText =
     str_Count (NormalizeForFuzzyMatch nfkc content) (NormalizeForFuzzyMatch nfkc oldText)"

text \<open>
  The stable insertion sort of \<open>sortMatchedEdits\<close> and \<open>sortReplacements\<close>: the sorted part is
  kept with its last element first, so the inner loop of swaps walks down that list.
\<close>

fun swap_down :: "('a \<Rightarrow> nat) \<Rightarrow> 'a \<Rightarrow> 'a list \<Rightarrow> 'a list" where
  "swap_down key x [] = [x]"
| "swap_down key x (y # ys) = (if key y > key x then y # swap_down key x ys else x # y # ys)"

fun insertion_sort :: "('a \<Rightarrow> nat) \<Rightarrow> 'a list \<Rightarrow> 'a list \<Rightarrow> 'a list" where
  "insertion_sort key pre [] = rev pre"
| "insertion_sort key pre (x # xs) = insertion_sort key (swap_down key x pre) xs"

definition sortMatchedEdits :: "matched_edit list \<Rightarrow> matched_edit list" where
  "sortMatchedEdits ms = insertion_sort matchIndex [] ms"

definition sortReplacements :: "text_replacement list \<Rightarrow> text_replacement list" where
  "sortReplacements rs = insertion_sort matchIndex [] rs"

text \<open>\<open>result[:i] + newText + result[i+matchLength:]\<close> with \<open>i = matchIndex - offset\<close>.\<close>

definition splice :: "nat \<Rightarrow> ('a text_replacement_scheme) \<Rightarrow> string \<Rightarrow> string option" where
  "splice offset r s =
     (if offset \<le> matchIndex r \<and> matchIndex r - offset + matchLength r \<le> length s
      then Some (take (matchIndex r - offset) s @ newText r @ drop (matchIndex r - offset + matchLength r) s)
      else None)"

fun applyReplacements :: "string \<Rightarrow> ('a text_replacement_scheme) list \<Rightarrow> nat \<Rightarrow> string option" where
  "applyReplacements content [] offset = Some content"
| "applyReplacements content (r # rs) offset =
     Option.bind (applyReplacements content rs offset) (splice offset r)"

definition splitLinesWithEndings :: "string \<Rightarrow> string list" where
  "splitLinesWithEndings content =
     (if content = [] then []
      else let parts = split_after NL content in if last parts = [] then butlast parts else parts)"

fun spans_from :: "nat \<Rightarrow> string list \<Rightarrow> (nat \<times> nat) list" where
  "spans_from offset [] = []"
| "spans_from offset (l # ls) = (offset, offset + length l) # spans_from (offset + length l) ls"

definition getLineSpans :: "string \<Rightarrow> (nat \<times> nat) list" where
  "getLineSpans content = spans_from 0 (splitLinesWithEndings content)"

text \<open>The scan \<open>for endLine < len(lines) && lines[endLine].end < replacementEnd\<close>.\<close>

fun scan_end :: "nat \<Rightarrow> (nat \<times> nat) list \<Rightarrow> nat \<Rightarrow> nat option" where
  "scan_end endLine [] replacementEnd = None"
| "scan_end endLine (l # ls) replacementEnd =
     (if snd l < replacementEnd then scan_end (Suc endLine) ls replacementEnd else Some endLine)"

definition getReplacementLineRange ::
  "(nat \<times> nat) list \<Rightarrow> 'a text_replacement_scheme \<Rightarrow> edit_error + nat \<times> nat" where
  "getReplacementLineRange lines r =
    (case first_index (\<lambda>l. fst l \<le> matchIndex r \<and> matchIndex r < snd l) lines of
       None \<Rightarrow> Inl OutsideBase
     | Some startLine \<Rightarrow>
        (case scan_end startLine (drop startLine lines) (matchIndex r + matchLength r) of
           None \<Rightarrow> Inl OutsideBase
         | Some endLine \<Rightarrow> Inr (startLine, endLine + 1)))"

record edit_group =
  startLine :: nat
  endLine :: nat
  replacements :: "text_replacement list"

text \<open>The grouping loop; the groups are kept with the newest first.\<close>

fun group_replacements ::
  "(nat \<times> nat) list \<Rightarrow> text_replacement list \<Rightarrow> edit_group list \<Rightarrow> edit_error + edit_group list" where
  "group_replacements baseLines [] groups = Inr (rev groups)"
| "group_replacements baseLines (r # rs) groups =
    (case getReplacementLineRange baseLines r of
       Inl e \<Rightarrow> Inl e
     | Inr (sl, el) \<Rightarrow>
        (case groups of
           g # gs \<Rightarrow>
             if sl < endLine g
             then group_replacements baseLines rs
                    (g\<lparr>endLine := (if el > endLine g then el else endLine g),
                       replacements := replacements g @ [r]\<rparr> # gs)
             else group_replacements baseLines rs (\<lparr>startLine = sl, endLine = el, replacements = [r]\<rparr> # groups)
         | [] \<Rightarrow> group_replacements baseLines rs [\<lparr>startLine = sl, endLine = el, replacements = [r]\<rparr>]))"

definition slice :: "nat \<Rightarrow> nat \<Rightarrow> 'a list \<Rightarrow> 'a list option" where
  "slice i j xs = (if i \<le> j \<and> j \<le> length xs then Some (take (j - i) (drop i xs)) else None)"

text \<open>The writing loop: \<open>originalLines[originalLineIndex:]\<close> is what is left to copy.\<close>

fun write_groups ::
  "string list \<Rightarrow> string \<Rightarrow> (nat \<times> nat) list \<Rightarrow> edit_group list \<Rightarrow> nat \<Rightarrow> string option" where
  "write_groups originalLines baseContent baseLines [] at =
     map_option concat (slice at (length originalLines) originalLines)"
| "write_groups originalLines baseContent baseLines (g # gs) at =
     Option.bind (slice at (startLine g) originalLines) (\<lambda>kept.
     if startLine g < length baseLines \<and> 0 < endLine g \<and> endLine g \<le> length baseLines then
       (let groupStart = fst (baseLines ! startLine g); groupEnd = snd (baseLines ! (endLine g - 1)) in
        Option.bind (slice groupStart groupEnd baseContent) (\<lambda>region.
        Option.bind (applyReplacements region (replacements g) groupStart) (\<lambda>edited.
        Option.bind (write_groups originalLines baseContent baseLines gs (endLine g)) (\<lambda>rest.
        Some (concat kept @ edited @ rest)))))
     else None)"

definition ApplyReplacementsPreservingUnchangedLines ::
  "string \<Rightarrow> string \<Rightarrow> text_replacement list \<Rightarrow> (edit_error + string) option" where
  "ApplyReplacementsPreservingUnchangedLines originalContent baseContent reps =
    (let originalLines = splitLinesWithEndings originalContent;
         baseLines = getLineSpans baseContent in
     if length originalLines \<noteq> length baseLines then Some (Inl LineCountDiffers)
     else case group_replacements baseLines (sortReplacements reps) [] of
            Inl e \<Rightarrow> Some (Inl e)
          | Inr groups \<Rightarrow> map_option Inr (write_groups originalLines baseContent baseLines groups 0))"

record applied_edits =
  BaseContent :: string
  NewContent :: string

definition normalizeEdit :: "edit \<Rightarrow> edit" where
  "normalizeEdit e = \<lparr>OldText = NormalizeToLF (OldText e), NewText = NormalizeToLF (NewText e), Anchor = []\<rparr>"

text \<open>The matching loop of \<open>ApplyEditsToNormalizedContent\<close>; \<open>i\<close> is the index of the next edit.\<close>

fun match_edits ::
  "(string \<Rightarrow> string) \<Rightarrow> string \<Rightarrow> bool \<Rightarrow> string \<Rightarrow> nat \<Rightarrow> nat \<Rightarrow> edit list \<Rightarrow> edit_error + matched_edit list" where
  "match_edits nfkc base usedFuzzy path tot i [] = Inr []"
| "match_edits nfkc base usedFuzzy path tot i (e # es) =
    (let m = FuzzyFindText nfkc base (OldText e) in
     if \<not> Found m then Inl (NotFound path i tot)
     else
       let needle = (if usedFuzzy then NormalizeForFuzzyMatch nfkc (OldText e) else OldText e);
           occurrences = countOccurrences nfkc base needle in
       if occurrences > 1 then Inl (Duplicate path i tot occurrences)
       else case match_edits nfkc base usedFuzzy path tot (Suc i) es of
              Inl err \<Rightarrow> Inl err
            | Inr ms \<Rightarrow> Inr (\<lparr>matchIndex = nat (Index m), matchLength = MatchLength m,
                              newText = NewText e, editIndex = i\<rparr> # ms))"

fun find_overlap :: "matched_edit list \<Rightarrow> (nat \<times> nat) option" where
  "find_overlap (prev # cur # ms) =
     (if matchIndex prev + matchLength prev > matchIndex cur then Some (editIndex prev, editIndex cur)
      else find_overlap (cur # ms))"
| "find_overlap _ = None"

definition textReplacement :: "matched_edit \<Rightarrow> text_replacement" where
  "textReplacement m = \<lparr>matchIndex = matchIndex m, matchLength = matchLength m, newText = newText m\<rparr>"

definition ApplyEditsToNormalizedContent ::
  "(string \<Rightarrow> string) \<Rightarrow> string \<Rightarrow> edit list \<Rightarrow> string \<Rightarrow> (edit_error + applied_edits) option" where
  "ApplyEditsToNormalizedContent nfkc normalizedContent edits path =
    (let normalizedEdits = map normalizeEdit edits; tot = length normalizedEdits in
     case first_index (\<lambda>e. length (OldText e) = 0) normalizedEdits of
       Some i \<Rightarrow> Some (Inl (EmptyOldText path i tot))
     | None \<Rightarrow>
        (let usedFuzzy = list_ex (\<lambda>e. UsedFuzzyMatch (FuzzyFindText nfkc normalizedContent (OldText e))) normalizedEdits;
             base = (if usedFuzzy then NormalizeForFuzzyMatch nfkc normalizedContent else normalizedContent) in
         case match_edits nfkc base usedFuzzy path tot 0 normalizedEdits of
           Inl err \<Rightarrow> Some (Inl err)
         | Inr matched0 \<Rightarrow>
            (let matched = sortMatchedEdits matched0 in
             case find_overlap matched of
               Some (i, j) \<Rightarrow> Some (Inl (Overlap i j path))
             | None \<Rightarrow>
                (let reps = map textReplacement matched;
                     result = (if usedFuzzy
                       then ApplyReplacementsPreservingUnchangedLines normalizedContent base reps
                       else map_option Inr (applyReplacements base reps 0)) in
                 case result of
                   None \<Rightarrow> None
                 | Some (Inl err) \<Rightarrow> Some (Inl err)
                 | Some (Inr newContent) \<Rightarrow>
                    if normalizedContent = newContent then Some (Inl (NoChange path tot))
                    else Some (Inr \<lparr>BaseContent = normalizedContent, NewContent = newContent\<rparr>)))))"

section \<open>The sorts\<close>

text \<open>What the edit application relies on: a stable sort by match index.\<close>

locale index_sort =
  fixes sort :: "'a list \<Rightarrow> 'a list" and key :: "'a \<Rightarrow> nat"
  assumes sort_mset: "mset (sort xs) = mset xs"
    and sort_sorted: "sorted (map key (sort xs))"
    and sort_stable: "filter (\<lambda>x. key x = k) (sort xs) = filter (\<lambda>x. key x = k) xs"
begin

lemma sort_set [simp]: "set (sort xs) = set xs"
  using sort_mset mset_eq_setD by blast

lemma sort_length [simp]: "length (sort xs) = length xs"
  using sort_mset mset_eq_length by blast

lemma sort_nth_mono: "i \<le> j \<Longrightarrow> j < length xs \<Longrightarrow> key (sort xs ! i) \<le> key (sort xs ! j)"
  using sort_sorted [of xs] by (simp add: sorted_iff_nth_mono)

end

lemma mset_swap_down: "mset (swap_down key x pre) = add_mset x (mset pre)"
  by (induction pre) auto

lemma set_swap_down: "set (swap_down key x pre) = insert x (set pre)"
  by (induction pre) auto

lemma sorted_swap_down:
  "sorted (map key (rev pre)) \<Longrightarrow> sorted (map key (rev (swap_down key x pre)))"
  by (induction pre) (auto simp: sorted_append set_swap_down)

lemma stable_swap_down:
  "filter (\<lambda>y. key y = k) (swap_down key x pre) =
     (if key x = k then x # filter (\<lambda>y. key y = k) pre else filter (\<lambda>y. key y = k) pre)
   \<or> \<not> sorted (map key (rev pre))"
  by (induction pre) (auto simp: sorted_append)

lemma mset_insertion_sort: "mset (insertion_sort key pre xs) = mset pre + mset xs"
  by (induction xs arbitrary: pre) (auto simp: mset_swap_down)

lemma sorted_insertion_sort:
  "sorted (map key (rev pre)) \<Longrightarrow> sorted (map key (insertion_sort key pre xs))"
  by (induction xs arbitrary: pre) (simp_all add: sorted_swap_down)

lemma stable_insertion_sort:
  "sorted (map key (rev pre)) \<Longrightarrow>
   filter (\<lambda>y. key y = k) (insertion_sort key pre xs) =
     rev (filter (\<lambda>y. key y = k) pre) @ filter (\<lambda>y. key y = k) xs"
proof (induction xs arbitrary: pre)
  case Nil
  then show ?case by (simp add: rev_filter)
next
  case (Cons x xs)
  with stable_swap_down [of key k x pre] show ?case by (simp add: sorted_swap_down)
qed

interpretation me_sort: index_sort sortMatchedEdits "matchIndex :: matched_edit \<Rightarrow> nat"
  by unfold_locales
     (simp_all add: sortMatchedEdits_def mset_insertion_sort sorted_insertion_sort stable_insertion_sort)

interpretation tr_sort: index_sort sortReplacements "matchIndex :: text_replacement \<Rightarrow> nat"
  by unfold_locales
     (simp_all add: sortReplacements_def mset_insertion_sort sorted_insertion_sort stable_insertion_sort)

section \<open>Disjoint replacements\<close>

text \<open>Replacements that start at or after \<open>pos\<close>, in order, without overlap.\<close>

fun disjoint_from :: "nat \<Rightarrow> ('a text_replacement_scheme) list \<Rightarrow> bool" where
  "disjoint_from pos [] = True"
| "disjoint_from pos (r # rs) = (pos \<le> matchIndex r \<and> disjoint_from (matchIndex r + matchLength r) rs)"

definition in_range :: "nat \<Rightarrow> 'a text_replacement_scheme \<Rightarrow> bool" where
  "in_range n r \<longleftrightarrow> matchIndex r + matchLength r \<le> n"

fun spliced :: "nat \<Rightarrow> string \<Rightarrow> ('a text_replacement_scheme) list \<Rightarrow> string" where
  "spliced pos s [] = drop pos s"
| "spliced pos s (r # rs) =
     take (matchIndex r - pos) (drop pos s) @ newText r @ spliced (matchIndex r + matchLength r) s rs"

lemma applyReplacements_spliced:
  "disjoint_from pos rs \<Longrightarrow> pos \<le> length s \<Longrightarrow> \<forall>r \<in> set rs. in_range (length s) r \<Longrightarrow>
   applyReplacements s rs 0 = Some (take pos s @ spliced pos s rs)"
proof (induction rs arbitrary: pos)
  case Nil
  then show ?case by simp
next
  case (Cons r rs)
  let ?q = "matchIndex r + matchLength r"
  have q: "?q \<le> length s" using Cons.prems(3) by (simp add: in_range_def)
  have "applyReplacements s rs 0 = Some (take ?q s @ spliced ?q s rs)"
    by (rule Cons.IH) (use Cons.prems q in simp_all)
  moreover have "take (matchIndex r) s = take pos s @ take (matchIndex r - pos) (drop pos s)"
    using Cons.prems(1) by (simp flip: take_add)
  ultimately show ?case
    using q by (simp add: splice_def)
qed

text \<open>\<open>weave gaps xs\<close> alternates the gaps with the texts between them.\<close>

fun weave :: "string list \<Rightarrow> string list \<Rightarrow> string" where
  "weave (g # gs) (x # xs) = g @ x @ weave gs xs"
| "weave gs _ = concat gs"

lemma spliced_weave:
  "disjoint_from pos rs \<Longrightarrow> pos \<le> length s \<Longrightarrow> \<forall>r \<in> set rs. in_range (length s) r \<Longrightarrow>
   \<exists>gaps. length gaps = Suc (length rs)
     \<and> drop pos s = weave gaps (map (\<lambda>r. take (matchLength r) (drop (matchIndex r) s)) rs)
     \<and> spliced pos s rs = weave gaps (map newText rs)"
proof (induction rs arbitrary: pos)
  case Nil
  then show ?case by (intro exI [of _ "[drop pos s]"]) simp
next
  case (Cons r rs)
  let ?q = "matchIndex r + matchLength r"
  have q: "?q \<le> length s" using Cons.prems(3) by (simp add: in_range_def)
  obtain gaps where g: "length gaps = Suc (length rs)"
    "drop ?q s = weave gaps (map (\<lambda>r. take (matchLength r) (drop (matchIndex r) s)) rs)"
    "spliced ?q s rs = weave gaps (map newText rs)"
    using Cons.IH [of ?q] Cons.prems q by auto
  have "drop pos s = take (matchIndex r - pos) (drop pos s) @ drop (matchIndex r) s"
    using Cons.prems(1) by (metis append_take_drop_id disjoint_from.simps(2) drop_drop le_add_diff_inverse2)
  moreover have "drop (matchIndex r) s = take (matchLength r) (drop (matchIndex r) s) @ drop ?q s"
    by (metis add.commute append_take_drop_id drop_drop)
  ultimately show ?case
    using g by (intro exI [of _ "take (matchIndex r - pos) (drop pos s) # gaps"]) simp
qed

lemma find_overlap_None:
  "find_overlap ms = None \<Longrightarrow> disjoint_from (case ms of [] \<Rightarrow> 0 | m # _ \<Rightarrow> matchIndex m) ms"
  by (induction ms rule: find_overlap.induct) (auto split: if_splits)

lemma disjoint_from_mono: "disjoint_from pos rs \<Longrightarrow> q \<le> pos \<Longrightarrow> disjoint_from q rs"
  by (cases rs) auto

lemma disjoint_from_textReplacement [simp]:
  "disjoint_from pos (map textReplacement ms) = disjoint_from pos ms"
  by (induction ms arbitrary: pos) (auto simp: textReplacement_def)

section \<open>Matching\<close>

lemma FuzzyFindText_exact:
  "str_index c old = Some i \<Longrightarrow>
   FuzzyFindText nfkc c old = \<lparr>Found = True, Index = int i, MatchLength = length old,
     UsedFuzzyMatch = False, ContentForReplacement = c\<rparr>"
  by (simp add: FuzzyFindText_def)

lemma match_edits_exact:
  assumes "match_edits nfkc c b path tot i es = Inr ms" and "\<forall>e \<in> set es. str_index c (OldText e) \<noteq> None"
  shows "map (\<lambda>m. (take (matchLength m) (drop (matchIndex m) c), newText m)) ms
       = map (\<lambda>e. (OldText e, NewText e)) es
    \<and> (\<forall>m \<in> set ms. in_range (length c) m)
    \<and> map editIndex ms = [i..<i + length es]"
  using assms
proof (induction nfkc c b path tot i es arbitrary: ms rule: match_edits.induct)
  case (1 nfkc c b path tot i)
  then show ?case by simp
next
  case (2 nfkc c b path tot i e es)
  then obtain k where k: "str_index c (OldText e) = Some k" by auto
  from str_index_Some [OF k] have at: "take (length (OldText e)) (drop k c) = OldText e"
    and r: "k + length (OldText e) \<le> length c" by (auto simp: prefix_def)
  from "2.prems"(1) k obtain ms' where ms': "match_edits nfkc c b path tot (Suc i) es = Inr ms'"
    and ms: "ms = \<lparr>matchIndex = k, matchLength = length (OldText e), newText = NewText e, editIndex = i\<rparr> # ms'"
    by (auto simp: FuzzyFindText_exact Let_def split: if_splits sum.splits)
  have "map (\<lambda>m. (take (matchLength m) (drop (matchIndex m) c), newText m)) ms'
       = map (\<lambda>e. (OldText e, NewText e)) es
    \<and> (\<forall>m \<in> set ms'. in_range (length c) m) \<and> map editIndex ms' = [Suc i..<Suc i + length es]"
    by (rule "2.IH" [OF refl _ refl refl _ ms'])
       (use "2.prems" k in \<open>auto simp: FuzzyFindText_exact Let_def split: if_splits\<close>)
  with at r show ?case
    using upt_conv_Cons [of i "i + length (e # es)"] by (simp add: ms in_range_def del: upt_Suc)
qed

section \<open>Overlap detection\<close>

definition region_before :: "matched_edit \<Rightarrow> matched_edit \<Rightarrow> bool" where
  "region_before m m' \<longleftrightarrow> matchIndex m + matchLength m \<le> matchIndex m'"

lemma disjoint_from_bounds:
  "disjoint_from pos ms \<Longrightarrow> m \<in> set ms \<Longrightarrow> pos \<le> matchIndex m"
  by (induction ms arbitrary: pos) (auto, meson add_leD1 le_trans)

lemma disjoint_from_sorted_wrt: "disjoint_from pos ms \<Longrightarrow> sorted_wrt region_before ms"
  by (induction ms arbitrary: pos) (auto simp: region_before_def dest: disjoint_from_bounds)

lemma find_overlap_complete: "sorted_wrt region_before ms \<Longrightarrow> find_overlap ms = None"
  by (induction ms rule: find_overlap.induct) (auto simp: region_before_def)

lemma find_overlap_None_iff: "find_overlap ms = None \<longleftrightarrow> sorted_wrt region_before ms"
  using find_overlap_None disjoint_from_sorted_wrt find_overlap_complete by blast

text \<open>Checking neighbours after a sort by match index is as good as checking every pair.\<close>

locale edit_sort = index_sort sort matchIndex
  for sort :: "matched_edit list \<Rightarrow> matched_edit list"
begin

lemma overlap_check_complete:
  assumes "\<forall>m \<in> set ms. 0 < matchLength m"
    and "\<forall>m \<in> set ms. \<forall>m' \<in> set ms. m \<noteq> m' \<longrightarrow> region_before m m' \<or> region_before m' m"
    and "distinct ms"
  shows "find_overlap (sort ms) = None"
proof -
  have d: "distinct (sort ms)" using assms(3) sort_mset by (metis mset_eq_imp_distinct_iff)
  have "sorted_wrt region_before (sort ms)"
  proof (simp add: sorted_wrt_iff_nth_less, intro allI impI)
    fix i j assume ij: "i < j" "j < length ms"
    then have ne: "sort ms ! i \<noteq> sort ms ! j" using d by (simp add: nth_eq_iff_index_eq)
    have mem: "sort ms ! i \<in> set ms" "sort ms ! j \<in> set ms"
      using ij sort_set [of ms] by (metis less_trans nth_mem sort_length)+
    have "matchIndex (sort ms ! i) \<le> matchIndex (sort ms ! j)" using ij by (simp add: sort_nth_mono)
    moreover have "0 < matchLength (sort ms ! j)" using assms(1) mem by blast
    ultimately have "\<not> region_before (sort ms ! j) (sort ms ! i)" by (simp add: region_before_def)
    with assms(2) mem ne show "region_before (sort ms ! i) (sort ms ! j)" by blast
  qed
  then show ?thesis by (rule find_overlap_complete)
qed

lemma overlap_check_sound:
  assumes "find_overlap (sort ms) = None" and "m \<in> set ms" and "m' \<in> set ms" and "m \<noteq> m'"
  shows "region_before m m' \<or> region_before m' m"
proof -
  have w: "sorted_wrt region_before (sort ms)" using assms(1) by (simp add: find_overlap_None_iff)
  obtain i j where ij: "i < length ms" "sort ms ! i = m" "j < length ms" "sort ms ! j = m'"
    using assms(2,3) sort_set [of ms] by (metis in_set_conv_nth sort_length)
  with assms(4) consider "i < j" | "j < i" by (metis linorder_neqE_nat)
  then show ?thesis
    using w ij by cases (auto simp: sorted_wrt_iff_nth_less)
qed

end

interpretation me_edit: edit_sort sortMatchedEdits
  by unfold_locales

section \<open>Properties of edit application\<close>

text \<open>The overlap check is exact.  For matched edits of positive length with different edit
  indices, comparing neighbours after \<open>sortMatchedEdits\<close> finds no overlap if and only if the
  regions of every two different edits are disjoint.\<close>

lemma overlap_check_exact:
  assumes "\<forall>m \<in> set ms. 0 < matchLength m" and "distinct (map editIndex ms)"
  shows "find_overlap (sortMatchedEdits ms) = None
    \<longleftrightarrow> (\<forall>m \<in> set ms. \<forall>m' \<in> set ms. m \<noteq> m' \<longrightarrow> region_before m m' \<or> region_before m' m)"
  using me_edit.overlap_check_complete [OF assms(1)] me_edit.overlap_check_sound [of ms]
    assms(2) [unfolded distinct_map] by blast

lemma overlap_check_exact_witness:
  "find_overlap (sortMatchedEdits
     [\<lparr>matchIndex = 4, matchLength = 2, newText = ''x'', editIndex = 0\<rparr>,
      \<lparr>matchIndex = 1, matchLength = 3, newText = ''y'', editIndex = 1\<rparr>]) = None"
  by (subst overlap_check_exact) (auto simp: region_before_def)

lemma matched_regions:
  assumes "match_edits nfkc c b path tot 0 es = Inr ms" and "\<forall>e \<in> set es. str_index c (OldText e) \<noteq> None"
    and "find_overlap (sortMatchedEdits ms) = None"
  shows "applyReplacements c (map textReplacement (sortMatchedEdits ms)) 0
         = Some (spliced 0 c (sortMatchedEdits ms))"
    and "disjoint_from 0 (sortMatchedEdits ms)" and "\<forall>r \<in> set (sortMatchedEdits ms). in_range (length c) r"
proof -
  let ?s = "sortMatchedEdits ms"
  show d: "disjoint_from 0 ?s" using find_overlap_None [OF assms(3)] disjoint_from_mono by blast
  show r: "\<forall>r \<in> set ?s. in_range (length c) r" using match_edits_exact [OF assms(1,2)] by simp
  have t: "spliced pos c (map textReplacement xs) = spliced pos c xs" for pos xs
    by (induction xs arbitrary: pos) (auto simp: textReplacement_def)
  from d r show "applyReplacements c (map textReplacement ?s) 0 = Some (spliced 0 c ?s)"
    using applyReplacements_spliced [of 0 "map textReplacement ?s" c]
    by (auto simp: in_range_def textReplacement_def t)
qed

lemma exact_not_fuzzy:
  "\<forall>e \<in> set es. str_index c (OldText e) \<noteq> None \<Longrightarrow>
   \<not> list_ex (\<lambda>e. UsedFuzzyMatch (FuzzyFindText nfkc c (OldText e))) es"
  by (auto simp: list_ex_iff FuzzyFindText_def split: option.splits)

text \<open>C29: when every edit's old text occurs in the content, a successful application replaces
  exactly the matched texts: the content is some gaps interleaved with the old texts of all edits
  (each once, in the order they occur), the new content is the same gaps interleaved with the new
  texts, so every byte outside the edits is kept, and the result differs from the input.\<close>

theorem ApplyEdits_replaces_exactly:
  assumes "\<forall>e \<in> set edits. str_index c (NormalizeToLF (OldText e)) \<noteq> None"
    and "ApplyEditsToNormalizedContent nfkc c edits path = Some (Inr r)"
  shows "BaseContent r = c \<and> NewContent r \<noteq> c \<and> (\<exists>ps gaps.
      mset ps = mset (map (\<lambda>e. (NormalizeToLF (OldText e), NormalizeToLF (NewText e))) edits)
      \<and> length gaps = Suc (length ps) \<and> c = weave gaps (map fst ps) \<and> NewContent r = weave gaps (map snd ps))"
proof -
  let ?es = "map normalizeEdit edits"
  let ?f = "\<lambda>m :: matched_edit. (take (matchLength m) (drop (matchIndex m) c), newText m)"
  have ex: "\<forall>e \<in> set ?es. str_index c (OldText e) \<noteq> None" using assms(1) by (auto simp: normalizeEdit_def)
  from assms(2) exact_not_fuzzy [OF ex, of nfkc] obtain ms where
    ms: "match_edits nfkc c False path (length edits) 0 ?es = Inr ms"
    and ov: "find_overlap (sortMatchedEdits ms) = None"
    and res: "applyReplacements c (map textReplacement (sortMatchedEdits ms)) 0 = Some (NewContent r)"
      "BaseContent r = c" "NewContent r \<noteq> c"
    by (auto simp: ApplyEditsToNormalizedContent_def Let_def split: option.splits sum.splits if_splits)
  note mr = matched_regions [OF ms ex ov]
  obtain gaps where g: "length gaps = Suc (length (sortMatchedEdits ms))"
    "c = weave gaps (map (fst \<circ> ?f) (sortMatchedEdits ms))"
    "spliced 0 c (sortMatchedEdits ms) = weave gaps (map (snd \<circ> ?f) (sortMatchedEdits ms))"
    using spliced_weave [OF mr(2) _ mr(3)] by (auto simp: o_def)
  have "mset (map ?f (sortMatchedEdits ms)) = mset (map ?f ms)"
    by (simp add: me_sort.sort_mset mset_map)
  also have "\<dots> = mset (map (\<lambda>e. (NormalizeToLF (OldText e), NormalizeToLF (NewText e))) edits)"
    using match_edits_exact [OF ms ex] by (simp add: normalizeEdit_def o_def)
  finally have perm: "mset (map ?f (sortMatchedEdits ms))
      = mset (map (\<lambda>e. (NormalizeToLF (OldText e), NormalizeToLF (NewText e))) edits)" .
  have "NewContent r = weave gaps (map snd (map ?f (sortMatchedEdits ms)))"
    using res(1) mr(1) g(3) by simp
  moreover have "c = weave gaps (map fst (map ?f (sortMatchedEdits ms)))" using g(2) by simp
  moreover have "length gaps = Suc (length (map ?f (sortMatchedEdits ms)))" using g(1) by simp
  ultimately show ?thesis using res(2,3) perm by blast
qed

theorem ApplyEdits_replaces_exactly_witness:
  "\<exists>r. ApplyEditsToNormalizedContent id ''abcd'' [\<lparr>OldText = ''c'', NewText = ''X'', Anchor = []\<rparr>] ''p'' = Some (Inr r)
     \<and> NewContent r = ''abXd'' \<and> BaseContent r = ''abcd''"
proof -
  let ?e = "[\<lparr>OldText = ''c'', NewText = ''X'', Anchor = []\<rparr>]"
  have run: "ApplyEditsToNormalizedContent id ''abcd'' ?e ''p''
      = Some (Inr \<lparr>BaseContent = ''abcd'', NewContent = ''abXd''\<rparr>)" by code_simp
  have "\<forall>e \<in> set ?e. str_index ''abcd'' (NormalizeToLF (OldText e)) \<noteq> None" by code_simp
  from ApplyEdits_replaces_exactly [OF this run] run show ?thesis by simp
qed

lemma match_edits_exact_error:
  assumes "match_edits nfkc c b path tot i es = Inl err" and "\<forall>e \<in> set es. str_index c (OldText e) \<noteq> None"
  shows "\<exists>k n. err = Duplicate path k tot n \<and> 1 < n"
  using assms
proof (induction nfkc c b path tot i es rule: match_edits.induct)
  case (1 nfkc c b path tot i)
  then show ?case by simp
next
  case (2 nfkc c b path tot i e es)
  then obtain k where k: "str_index c (OldText e) = Some k" by auto
  let ?occ = "countOccurrences nfkc c (if b then NormalizeForFuzzyMatch nfkc (OldText e) else OldText e)"
  show ?case
  proof (cases "?occ > 1")
    case True
    with "2.prems" k show ?thesis by (auto simp: FuzzyFindText_exact Let_def)
  next
    case False
    with "2.prems" k have "match_edits nfkc c b path tot (Suc i) es = Inl err"
      by (auto simp: FuzzyFindText_exact Let_def split: sum.splits)
    show ?thesis
      by (rule "2.IH" [OF refl _ refl refl _ \<open>match_edits nfkc c b path tot (Suc i) es = Inl err\<close>])
         (use "2.prems" k False in \<open>auto simp: FuzzyFindText_exact\<close>)
  qed
qed

lemma find_overlap_members:
  "find_overlap ms = Some (i, j) \<Longrightarrow> i \<in> editIndex ` set ms \<and> j \<in> editIndex ` set ms"
  by (induction ms rule: find_overlap.induct) (auto split: if_splits)

text \<open>Applying edits whose old texts all occur never slices out of range: the call returns a
  result or an error, and an error is one of: an old text that is empty, an old text counted more
  than once, two of the given edits that overlap, or a result equal to the input.\<close>

lemma ApplyEdits_no_panic:
  assumes "\<forall>e \<in> set edits. str_index c (NormalizeToLF (OldText e)) \<noteq> None"
  shows "ApplyEditsToNormalizedContent nfkc c edits path \<noteq> None
    \<and> (\<forall>err. ApplyEditsToNormalizedContent nfkc c edits path = Some (Inl err) \<longrightarrow>
         (case err of EmptyOldText _ _ _ \<Rightarrow> \<exists>e \<in> set edits. NormalizeToLF (OldText e) = []
          | Duplicate _ i _ n \<Rightarrow> 1 < n
          | Overlap i j _ \<Rightarrow> i < length edits \<and> j < length edits
          | NoChange _ _ \<Rightarrow> True
          | _ \<Rightarrow> False))"
proof -
  let ?es = "map normalizeEdit edits"
  have ex: "\<forall>e \<in> set ?es. str_index c (OldText e) \<noteq> None" using assms by (auto simp: normalizeEdit_def)
  note nf = exact_not_fuzzy [OF ex, of nfkc]
  show ?thesis
  proof (cases "first_index (\<lambda>e. length (OldText e) = 0) ?es")
    case (Some k)
    from first_index_Some [OF this] have "\<exists>e \<in> set edits. NormalizeToLF (OldText e) = []"
      by (auto simp: normalizeEdit_def intro: nth_mem)
    with Some show ?thesis by (simp add: ApplyEditsToNormalizedContent_def)
  next
    case ne: None
    show ?thesis
    proof (cases "match_edits nfkc c False path (length edits) 0 ?es")
      case (Inl err)
      from match_edits_exact_error [OF this ex] Inl ne nf show ?thesis
        by (auto simp: ApplyEditsToNormalizedContent_def Let_def)
    next
      case (Inr ms)
      have idx: "editIndex ` set ms \<subseteq> {..<length edits}"
        using match_edits_exact [OF Inr ex] by (metis add_0 atLeast0LessThan length_map order_refl set_map set_upt)
      show ?thesis
      proof (cases "find_overlap (sortMatchedEdits ms)")
        case None
        from matched_regions(1) [OF Inr ex None] None Inr ne nf show ?thesis
          by (simp add: ApplyEditsToNormalizedContent_def Let_def)
      next
        case (Some ij)
        obtain i j where ij: "ij = (i, j)" by fastforce
        from find_overlap_members [OF Some [unfolded ij]] idx
        have "i < length edits \<and> j < length edits" by auto
        with Some ij Inr ne nf show ?thesis
          by (simp add: ApplyEditsToNormalizedContent_def Let_def)
      qed
    qed
  qed
qed

lemma ApplyEdits_no_panic_witness:
  "ApplyEditsToNormalizedContent id ''abab'' [\<lparr>OldText = ''ab'', NewText = ''X'', Anchor = []\<rparr>] ''p''
     = Some (Inl (Duplicate ''p'' 0 1 2))
   \<and> ApplyEditsToNormalizedContent id ''abab'' [\<lparr>OldText = ''ab'', NewText = ''X'', Anchor = []\<rparr>] ''p'' \<noteq> None"
proof -
  let ?e = "[\<lparr>OldText = ''ab'', NewText = ''X'', Anchor = []\<rparr>]"
  have "\<forall>e \<in> set ?e. str_index ''abab'' (NormalizeToLF (OldText e)) \<noteq> None" by code_simp
  from ApplyEdits_no_panic [OF this, of id "''p''"]
  have "ApplyEditsToNormalizedContent id ''abab'' ?e ''p'' \<noteq> None" by blast
  moreover have "ApplyEditsToNormalizedContent id ''abab'' ?e ''p'' = Some (Inl (Duplicate ''p'' 0 1 2))"
    by code_simp
  ultimately show ?thesis by blast
qed

end
