(* ===== verification/Msg_Types.thy ===== *)
theory Msg_Types
  imports Prelude
begin

text \<open>
  The core message types of \<open>internal/engine/types\<close>: content blocks, the three transcript
  messages with their pointer forms, token usage, stream events, and the
  \<open>AssistantBuilder\<close> that folds a stream of events into an assistant message.

  A Go interface value of type \<open>Message\<close> is one of the constructors of \<open>message\<close>: a struct,
  a pointer to a struct (\<^const>\<open>None\<close> is the typed nil pointer), or the nil interface.
  \<open>json.RawMessage\<close> and the maps of type \<open>any\<close> that the program only copies are opaque byte
  strings.  The floating-point \<open>Cost\<close> of a usage is not modelled.
\<close>

section \<open>Content blocks\<close>

datatype block_type =
    BlockText | BlockThinking | BlockImage | BlockDocumentRef | BlockImageRef | BlockToolCall
  | BlockOther string

record content_block =
  cb_type :: block_type
  cb_text :: string
  cb_text_signature :: string
  cb_thinking :: string
  cb_thinking_signature :: string
  cb_redacted :: bool
  cb_data :: string
  cb_mime_type :: string
  cb_ref_store :: string
  cb_ref_key :: string
  cb_ref_media_type :: string
  cb_ref_filename :: string
  cb_ref_size_bytes :: int
  cb_ref_page_count :: int
  cb_id :: string
  cb_name :: string
  cb_arguments :: bytes
  cb_thought_signature :: string

definition empty_block :: "block_type \<Rightarrow> content_block" where
  "empty_block t =
     \<lparr>cb_type = t, cb_text = [], cb_text_signature = [], cb_thinking = [],
      cb_thinking_signature = [], cb_redacted = False, cb_data = [], cb_mime_type = [],
      cb_ref_store = [], cb_ref_key = [], cb_ref_media_type = [], cb_ref_filename = [],
      cb_ref_size_bytes = 0, cb_ref_page_count = 0, cb_id = [], cb_name = [],
      cb_arguments = [], cb_thought_signature = []\<rparr>"

definition NewText :: "string \<Rightarrow> content_block" where
  "NewText text = (empty_block BlockText)\<lparr>cb_text := text\<rparr>"

definition NewThinking :: "string \<Rightarrow> string \<Rightarrow> content_block" where
  "NewThinking thinking signature =
     (empty_block BlockThinking)\<lparr>cb_thinking := thinking, cb_thinking_signature := signature\<rparr>"

definition NewImage :: "string \<Rightarrow> string \<Rightarrow> content_block" where
  "NewImage data mime = (empty_block BlockImage)\<lparr>cb_data := data, cb_mime_type := mime\<rparr>"

definition NewDocumentRef :: "string \<Rightarrow> string \<Rightarrow> string \<Rightarrow> string \<Rightarrow> int \<Rightarrow> int \<Rightarrow> content_block" where
  "NewDocumentRef store key media filename sz pages =
     (empty_block BlockDocumentRef)\<lparr>cb_ref_store := store, cb_ref_key := key,
       cb_ref_media_type := media, cb_ref_filename := filename, cb_ref_size_bytes := sz,
       cb_ref_page_count := pages\<rparr>"

definition NewImageRef :: "string \<Rightarrow> string \<Rightarrow> string \<Rightarrow> string \<Rightarrow> int \<Rightarrow> content_block" where
  "NewImageRef store key media filename sz =
     (empty_block BlockImageRef)\<lparr>cb_ref_store := store, cb_ref_key := key,
       cb_ref_media_type := media, cb_ref_filename := filename, cb_ref_size_bytes := sz\<rparr>"

definition NewToolCall :: "string \<Rightarrow> string \<Rightarrow> bytes \<Rightarrow> content_block" where
  "NewToolCall tid name args =
     (empty_block BlockToolCall)\<lparr>cb_id := tid, cb_name := name, cb_arguments := args\<rparr>"

lemmas new_block_defs = empty_block_def NewText_def NewThinking_def NewImage_def
  NewDocumentRef_def NewImageRef_def NewToolCall_def

lemma cb_type_new [simp]:
  "cb_type (empty_block t) = t" "cb_type (NewText s) = BlockText" "cb_text (NewText s) = s"
  "cb_type (NewThinking s g) = BlockThinking" "cb_type (NewImage d m) = BlockImage"
  "cb_type (NewToolCall i n a) = BlockToolCall" "cb_id (NewToolCall i n a) = i"
  "cb_name (NewToolCall i n a) = n" "cb_arguments (NewToolCall i n a) = a"
  "cb_thinking (NewText s) = []"
  by (simp_all add: new_block_defs)

datatype stop_reason =
  StopStop | StopLength | StopToolUse | StopError | StopAborted | StopOther string

abbreviation StopUnset :: stop_reason where "StopUnset \<equiv> StopOther []"

section \<open>Usage and messages\<close>

record usage =
  u_input :: int
  u_output :: int
  u_cache_read :: int
  u_cache_write :: int
  u_cache_write_1h :: "int option"
  u_reasoning :: "int option"
  u_total_tokens :: int

definition zero_usage :: usage where
  "zero_usage = \<lparr>u_input = 0, u_output = 0, u_cache_read = 0, u_cache_write = 0,
     u_cache_write_1h = None, u_reasoning = None, u_total_tokens = 0\<rparr>"

text \<open>\<open>UserContent\<close>: block form when \<open>Blocks\<close> is not nil, text form otherwise.\<close>

record user_content =
  uc_text :: string
  uc_blocks :: "content_block list option"

definition StringContent :: "string \<Rightarrow> user_content" where
  "StringContent s = \<lparr>uc_text = s, uc_blocks = None\<rparr>"

text \<open>The variadic \<open>BlockContent(blocks...)\<close> keeps the nil-ness of the slice it is given.\<close>

definition BlockContent :: "content_block list option \<Rightarrow> user_content" where
  "BlockContent blocks = \<lparr>uc_text = [], uc_blocks = blocks\<rparr>"

definition IsBlocks :: "user_content \<Rightarrow> bool" where
  "IsBlocks u \<longleftrightarrow> uc_blocks u \<noteq> None"

record user_message =
  um_content :: user_content
  um_timestamp :: time_ms

record assistant_message =
  am_content :: "content_block list"
  am_api :: string
  am_provider :: string
  am_model :: string
  am_response_model :: string
  am_response_id :: string
  am_diagnostics :: "bytes list"
  am_usage :: usage
  am_stop_reason :: stop_reason
  am_error_message :: string
  am_error_code :: string
  am_error_details :: "bytes option"
  am_timestamp :: time_ms

definition empty_assistant :: "string \<Rightarrow> string \<Rightarrow> string \<Rightarrow> assistant_message" where
  "empty_assistant api provider model =
     \<lparr>am_content = [], am_api = api, am_provider = provider, am_model = model,
      am_response_model = [], am_response_id = [], am_diagnostics = [], am_usage = zero_usage,
      am_stop_reason = StopUnset, am_error_message = [], am_error_code = [],
      am_error_details = None, am_timestamp = 0\<rparr>"

record tool_result_message =
  tr_tool_call_id :: string
  tr_tool_name :: string
  tr_content :: "content_block list"
  tr_details :: "bytes option"
  tr_is_error :: bool
  tr_timestamp :: time_ms

datatype message =
    NilMessage
  | UserMessage user_message
  | PUserMessage "user_message option"
  | AssistantMessage assistant_message
  | PAssistantMessage "assistant_message option"
  | ToolResultMessage tool_result_message
  | PToolResultMessage "tool_result_message option"

text \<open>
  \<open>Role()\<close>.  Calling it on the nil interface or on a nil pointer panics: \<^const>\<open>None\<close>.
\<close>

fun Role :: "message \<Rightarrow> string option" where
  "Role (UserMessage _) = Some ''user''"
| "Role (PUserMessage (Some _)) = Some ''user''"
| "Role (AssistantMessage _) = Some ''assistant''"
| "Role (PAssistantMessage (Some _)) = Some ''assistant''"
| "Role (ToolResultMessage _) = Some ''toolResult''"
| "Role (PToolResultMessage (Some _)) = Some ''toolResult''"
| "Role _ = None"

text \<open>The type switches \<open>asAssistant\<close> and \<open>asToolResult\<close> of several packages.\<close>

fun asAssistant :: "message \<Rightarrow> assistant_message option" where
  "asAssistant (AssistantMessage m) = Some m"
| "asAssistant (PAssistantMessage m) = m"
| "asAssistant _ = None"

fun asToolResult :: "message \<Rightarrow> tool_result_message option" where
  "asToolResult (ToolResultMessage m) = Some m"
| "asToolResult (PToolResultMessage m) = m"
| "asToolResult _ = None"

fun asUser :: "message \<Rightarrow> user_message option" where
  "asUser (UserMessage m) = Some m"
| "asUser (PUserMessage m) = m"
| "asUser _ = None"

lemma Role_iff [simp]:
  "Role m = Some ''user'' \<longleftrightarrow> asUser m \<noteq> None"
  "Role m = Some ''assistant'' \<longleftrightarrow> asAssistant m \<noteq> None"
  "Role m = Some ''toolResult'' \<longleftrightarrow> asToolResult m \<noteq> None"
  by (cases m rule: Role.cases; simp)+

text \<open>The tool calls of an assistant message, in source order.\<close>

definition tool_calls_of :: "assistant_message \<Rightarrow> content_block list" where
  "tool_calls_of m = filter (\<lambda>b. cb_type b = BlockToolCall) (am_content m)"

section \<open>Models and request context\<close>

record model =
  mo_id :: string
  mo_name :: string
  mo_api :: string
  mo_provider :: string
  mo_input :: "string list"
  mo_context_window :: int
  mo_max_tokens :: int

definition SupportsVision :: "model \<Rightarrow> bool" where
  "SupportsVision m \<longleftrightarrow> ''image'' \<in> set (mo_input m)"

record tool =
  to_name :: string
  to_description :: string
  to_parameters :: bytes

record llm_context =
  lc_system_prompt :: string
  lc_messages :: "message list"
  lc_tools :: "tool list"

section \<open>Stream events and the builder\<close>

datatype ev_type =
    EvStart | EvTextStart | EvTextDelta | EvTextEnd
  | EvThinkingStart | EvThinkingDelta | EvThinkingEnd
  | EvToolCallStart | EvToolCallDelta | EvToolCallEnd
  | EvDone | EvError

text \<open>\<open>ContentIndex\<close> is an index into the content, a natural number.\<close>

record stream_event =
  ev_type :: ev_type
  ev_index :: nat
  ev_delta :: string
  ev_content :: string
  ev_tool_call :: "content_block option"
  ev_reason :: stop_reason
  ev_partial :: "assistant_message option"
  ev_message :: "assistant_message option"
  ev_err :: "assistant_message option"

definition event :: "ev_type \<Rightarrow> stream_event" where
  "event t = \<lparr>ev_type = t, ev_index = 0, ev_delta = [], ev_content = [], ev_tool_call = None,
     ev_reason = StopUnset, ev_partial = None, ev_message = None, ev_err = None\<rparr>"

definition is_terminal :: "stream_event \<Rightarrow> bool" where
  "is_terminal ev \<longleftrightarrow> ev_type ev = EvDone \<or> ev_type ev = EvError"

text \<open>
  \<open>block(i, typ)\<close> grows the content with blocks of the given type until it has index \<open>i\<close>;
  the caller then mutates that block through the returned pointer, here the update \<open>f\<close>.
\<close>

definition grow :: "nat \<Rightarrow> block_type \<Rightarrow> content_block list \<Rightarrow> content_block list" where
  "grow i t bs = bs @ replicate (Suc i - length bs) (empty_block t)"

definition with_block ::
  "nat \<Rightarrow> block_type \<Rightarrow> (content_block \<Rightarrow> content_block) \<Rightarrow> assistant_message \<Rightarrow> assistant_message" where
  "with_block i t f m = m\<lparr>am_content := (let bs = grow i t (am_content m) in bs[i := f (bs ! i)])\<rparr>"

definition NewAssistantBuilder :: "string \<Rightarrow> string \<Rightarrow> string \<Rightarrow> assistant_message" where
  "NewAssistantBuilder api provider model = empty_assistant api provider model"

definition Fold :: "assistant_message \<Rightarrow> stream_event \<Rightarrow> assistant_message" where
  "Fold m ev =
    (case ev_type ev of
       EvStart \<Rightarrow> m
     | EvTextStart \<Rightarrow> with_block (ev_index ev) BlockText id m
     | EvTextDelta \<Rightarrow> with_block (ev_index ev) BlockText (\<lambda>b. b\<lparr>cb_text := cb_text b @ ev_delta ev\<rparr>) m
     | EvTextEnd \<Rightarrow> with_block (ev_index ev) BlockText (\<lambda>b. b\<lparr>cb_text := ev_content ev\<rparr>) m
     | EvThinkingStart \<Rightarrow> with_block (ev_index ev) BlockThinking id m
     | EvThinkingDelta \<Rightarrow>
         with_block (ev_index ev) BlockThinking (\<lambda>b. b\<lparr>cb_thinking := cb_thinking b @ ev_delta ev\<rparr>) m
     | EvThinkingEnd \<Rightarrow>
         with_block (ev_index ev) BlockThinking (\<lambda>b. b\<lparr>cb_thinking := ev_content ev\<rparr>) m
     | EvToolCallStart \<Rightarrow>
         with_block (ev_index ev) BlockToolCall
           (\<lambda>b. case ev_tool_call ev of None \<Rightarrow> b
                | Some tc \<Rightarrow> b\<lparr>cb_id := cb_id tc, cb_name := cb_name tc\<rparr>) m
     | EvToolCallDelta \<Rightarrow>
         with_block (ev_index ev) BlockToolCall (\<lambda>b. b\<lparr>cb_arguments := cb_arguments b @ ev_delta ev\<rparr>) m
     | EvToolCallEnd \<Rightarrow>
         with_block (ev_index ev) BlockToolCall
           (\<lambda>b. case ev_tool_call ev of None \<Rightarrow> b | Some tc \<Rightarrow> tc) m
     | EvDone \<Rightarrow> m\<lparr>am_stop_reason := ev_reason ev\<rparr>
     | EvError \<Rightarrow>
         (let m1 = m\<lparr>am_stop_reason := ev_reason ev\<rparr> in
          case ev_err ev of None \<Rightarrow> m1
          | Some e \<Rightarrow>
            (let m2 = (if am_error_message e \<noteq> [] then m1\<lparr>am_error_message := am_error_message e\<rparr> else m1);
                 m3 = (if am_error_code e \<noteq> [] then m2\<lparr>am_error_code := am_error_code e\<rparr> else m2)
             in if am_error_details e \<noteq> None then m3\<lparr>am_error_details := am_error_details e\<rparr> else m3)))"

section \<open>Facts on the builder\<close>

lemma length_grow [simp]: "length (grow i t bs) = max (length bs) (Suc i)"
  by (simp add: grow_def)

lemma nth_grow_old [simp]: "j < length bs \<Longrightarrow> grow i t bs ! j = bs ! j"
  by (simp add: grow_def nth_append)

lemma nth_grow_new: "length bs \<le> j \<Longrightarrow> j \<le> i \<Longrightarrow> grow i t bs ! j = empty_block t"
  by (simp add: grow_def nth_append)

lemma grow_idem [simp]: "i < length bs \<Longrightarrow> grow i t bs = bs"
  by (simp add: grow_def)

lemma am_content_with_block:
  "am_content (with_block i t f m) = (grow i t (am_content m))[i := f (grow i t (am_content m) ! i)]"
  by (simp add: with_block_def Let_def)

lemma with_block_frame [simp]:
  "am_api (with_block i t f m) = am_api m" "am_provider (with_block i t f m) = am_provider m"
  "am_model (with_block i t f m) = am_model m" "am_stop_reason (with_block i t f m) = am_stop_reason m"
  "am_error_message (with_block i t f m) = am_error_message m"
  by (simp_all add: with_block_def)

lemma with_block_twice:
  "with_block i t f (with_block i t' g m) = with_block i t' (\<lambda>b. f (g b)) m"
  by (simp add: with_block_def Let_def)

lemma Fold_provenance [simp]:
  "am_api (Fold m ev) = am_api m" "am_provider (Fold m ev) = am_provider m"
  "am_model (Fold m ev) = am_model m"
  by (simp_all add: Fold_def Let_def split: ev_type.splits option.splits)

lemma with_block_untouched:
  "j \<noteq> i \<Longrightarrow> j < length (am_content m) \<Longrightarrow> am_content (with_block i t f m) ! j = am_content m ! j"
  by (simp add: am_content_with_block)

lemma Fold_length:
  "length (am_content m) \<le> length (am_content (Fold m ev))"
  by (auto simp: Fold_def am_content_with_block Let_def split: ev_type.splits option.splits)

lemma Fold_untouched:
  "j \<noteq> ev_index ev \<Longrightarrow> j < length (am_content m) \<Longrightarrow> am_content (Fold m ev) ! j = am_content m ! j"
  by (auto simp: Fold_def with_block_untouched Let_def split: ev_type.splits option.splits)

end
