(* ===== verification/Retry_Policy.thy ===== *)
theory Retry_Policy
  imports Msg_Types Complex_Main "HOL-Library.Multiset"
begin

text \<open>
  \<open>internal/retry/config.go\<close>, \<open>hints.go\<close> and \<open>error.go\<close>: the retry configuration, the delays,
  the provider's retry hints and the classification of failures.  A \<open>time.Duration\<close> is its number
  of nanoseconds, an \<^typ>\<open>int\<close> with the \<open>int64\<close> wrap-around written out; a \<open>time.Time\<close> its
  nanoseconds since the epoch.  A finite \<open>float64\<close> is the rational it denotes and the rounding of
  a product is the argument \<open>rnd\<close>; \<open>strconv.ParseFloat\<close> is \<open>parse_float\<close>, \<open>http.ParseTime\<close> is
  \<open>parse_time\<close>, and the Unicode lower-case table is \<open>ulow\<close>.
\<close>

section \<open>Configuration and delays\<close>

datatype float64 = NaN | Inf bool | Fin rat

definition MaxInt64 :: int where "MaxInt64 = 2 ^ 63 - 1"
definition Millisecond :: int where "Millisecond = 1000000"
definition Second :: int where "Second = 1000000000"

text \<open>\<open>cfg_deps\<close> says of the clock, the sleeper and the random source whether each was provided.\<close>

record config =
  cfg_MaxAttempts :: int
  cfg_BaseDelay :: int
  cfg_BackoffCap :: int
  cfg_MaxDelay :: int
  cfg_JitterMin :: float64
  cfg_JitterMax :: float64
  cfg_Clock :: bool
  cfg_Sleeper :: bool
  cfg_Random :: bool

definition DefaultConfig :: config where
  "DefaultConfig =
     \<lparr>cfg_MaxAttempts = 11, cfg_BaseDelay = 500 * Millisecond, cfg_BackoffCap = 8 * Second,
      cfg_MaxDelay = 300 * Second, cfg_JitterMin = Fin (3 / 4), cfg_JitterMax = Fin 1,
      cfg_Clock = True, cfg_Sleeper = True, cfg_Random = True\<rparr>"

definition Validate :: "config \<Rightarrow> string option" where
  "Validate c =
     (if cfg_MaxAttempts c < 1 then Some ''max attempts must be at least one''
      else if cfg_BaseDelay c \<le> 0 then Some ''base delay must be positive''
      else if cfg_BackoffCap c < cfg_BaseDelay c then Some ''backoff cap must be at least base delay''
      else if \<not> cfg_Clock c \<or> \<not> cfg_Sleeper c \<or> \<not> cfg_Random c
        then Some ''clock, sleeper, and random must be provided''
      else case (cfg_JitterMin c, cfg_JitterMax c) of
             (Fin lo, Fin hi) \<Rightarrow>
               if lo < 0 \<or> hi > 1 \<or> lo > hi then Some ''jitter bounds must be within [0, 1] and ordered''
               else None
           | _ \<Rightarrow> Some ''jitter bounds must be finite'')"

text \<open>The loop of \<open>nominalDelay\<close>; the first argument counts the iterations left.\<close>

fun nominal_loop :: "nat \<Rightarrow> int \<Rightarrow> int \<Rightarrow> int" where
  "nominal_loop 0 cap delay = (if delay > cap then cap else delay)"
| "nominal_loop (Suc n) cap delay =
     (if delay < cap then
        if delay > go_quot cap 2 then cap else nominal_loop n cap (wrap64 (delay * 2))
      else if delay > cap then cap else delay)"

definition nominalDelay :: "int \<Rightarrow> int \<Rightarrow> int \<Rightarrow> int" where
  "nominalDelay base cap ordinal = nominal_loop (nat (ordinal - 1)) cap base"

text \<open>
  The bounds of \<open>jitterDelay\<close>; \<open>rounded\<close> is \<open>math.Round(float64(nominal) * factor)\<close>, and
  \<open>float64(math.MaxInt64)\<close> is \<open>2 ^ 63\<close>.
\<close>

definition jitterDelay :: "int \<Rightarrow> int" where
  "jitterDelay rounded = (if rounded \<le> 0 then 0 else if rounded \<ge> 2 ^ 63 then MaxInt64 else rounded)"

lemma jitterDelay_bounds: "0 \<le> jitterDelay r \<and> jitterDelay r \<le> MaxInt64"
  by (simp add: jitterDelay_def MaxInt64_def)

lemma nominal_loop_exact:
  "0 < delay \<Longrightarrow> delay \<le> cap \<Longrightarrow> in64 cap \<Longrightarrow> nominal_loop n cap delay = min (delay * 2 ^ n) cap"
proof (induction n arbitrary: delay)
  case 0
  then show ?case by simp
next
  case (Suc n)
  have pow: "delay * 1 \<le> delay * 2 ^ n" using Suc.prems(1) by (intro mult_left_mono) simp_all
  show ?case
  proof (cases "delay < cap")
    case False
    with Suc.prems have "delay = cap" by simp
    moreover have "cap * 1 \<le> cap * 2 ^ Suc n" using Suc.prems by (intro mult_left_mono one_le_power) simp_all
    ultimately show ?thesis by (simp add: min_absorb2 del: power_Suc)
  next
    case lt: True
    show ?thesis
    proof (cases "delay > cap div 2")
      case True
      then have "cap \<le> 2 * delay" by simp
      also have "\<dots> \<le> delay * 2 ^ Suc n" using pow by simp
      finally show ?thesis using True lt Suc.prems by (simp add: min_def)
    next
      case False
      then have "delay * 2 \<le> cap" by simp
      moreover from this Suc.prems have "in64 (delay * 2)" by (simp add: in64_def)
      ultimately show ?thesis using Suc.IH [of "delay * 2"] lt False Suc.prems by (simp add: mult.assoc)
    qed
  qed
qed

text \<open>For every configuration that validates, the nominal delay before retry \<open>ordinal\<close> is the
  base delay doubled \<open>ordinal - 1\<close> times and capped, computed without an overflow of \<open>Duration\<close>.\<close>

lemma nominalDelay_exact:
  assumes "Validate c = None" and "in64 (cfg_BackoffCap c)"
  shows "nominalDelay (cfg_BaseDelay c) (cfg_BackoffCap c) ordinal
      = min (cfg_BaseDelay c * 2 ^ nat (ordinal - 1)) (cfg_BackoffCap c)"
  using assms by (auto simp: nominalDelay_def Validate_def split: if_splits intro!: nominal_loop_exact)

lemma nominalDelay_exact_witness:
  "Validate DefaultConfig = None \<and> map (nominalDelay (500 * Millisecond) (8 * Second)) [1, 2, 5, 40]
     = [500 * Millisecond, 1 * Second, 8 * Second, 8 * Second]"
proof -
  have v: "Validate DefaultConfig = None"
    by (simp add: Validate_def DefaultConfig_def Millisecond_def Second_def)
  have "in64 (cfg_BackoffCap DefaultConfig)" by (simp add: in64_def DefaultConfig_def Second_def)
  from nominalDelay_exact [OF v this]
  have "nominalDelay (500 * Millisecond) (8 * Second) n = min (500 * Millisecond * 2 ^ nat (n - 1)) (8 * Second)"
    for n by (simp add: DefaultConfig_def)
  with v show ?thesis by (simp add: Millisecond_def Second_def)
qed

section \<open>Retry hints\<close>

definition durationCeilMillis :: "(rat \<Rightarrow> float64) \<Rightarrow> rat \<Rightarrow> int \<Rightarrow> int option" where
  "durationCeilMillis rnd v unit =
    (case rnd (v * (of_int unit / of_int Millisecond)) of
       Fin millis \<Rightarrow>
         if millis \<le> 0 then None
         else let m = ceiling millis in
           if of_int m \<ge> (2 ^ 63 :: rat) / of_int Millisecond then None
           else Some (wrap64 (m * Millisecond))
     | _ \<Rightarrow> None)"

definition decimalDuration ::
  "(string \<Rightarrow> float64 option) \<Rightarrow> (rat \<Rightarrow> float64) \<Rightarrow> string \<Rightarrow> int \<Rightarrow> int option" where
  "decimalDuration parse_float rnd v unit =
    (case parse_float (trim_space v) of
       Some (Fin parsed) \<Rightarrow> if parsed \<le> 0 then None else durationCeilMillis rnd parsed unit
     | _ \<Rightarrow> None)"

text \<open>\<open>at.Sub(now)\<close> saturates.\<close>

definition time_sub :: "int \<Rightarrow> int \<Rightarrow> int" where
  "time_sub a b = (if a - b > MaxInt64 then MaxInt64 else if a - b < - (2 ^ 63) then - (2 ^ 63) else a - b)"

definition absoluteDelay :: "(rat \<Rightarrow> float64) \<Rightarrow> rat \<Rightarrow> int \<Rightarrow> int \<Rightarrow> int option" where
  "absoluteDelay rnd v unit now =
    (case rnd (v * of_int unit) of
       Fin nanos \<Rightarrow>
         if nanos \<ge> 2 ^ 63 \<or> nanos \<le> - (2 ^ 63) then None
         else let t = ceiling nanos in if t > now then Some (time_sub t now) else None
     | _ \<Rightarrow> None)"

definition resetDelay ::
  "(string \<Rightarrow> float64 option) \<Rightarrow> (rat \<Rightarrow> float64) \<Rightarrow> string \<Rightarrow> int \<Rightarrow> int \<Rightarrow> int option" where
  "resetDelay parse_float rnd v now relativeUnit =
    (case parse_float (trim_space v) of
       Some (Fin parsed) \<Rightarrow>
         if parsed \<le> 0 then None
         else if parsed > 1000000000000 then absoluteDelay rnd parsed Millisecond now
         else if parsed > 1000000000 then absoluteDelay rnd parsed Second now
         else durationCeilMillis rnd parsed relativeUnit
     | _ \<Rightarrow> None)"

definition retryAfterSecondsOrDate ::
  "(string \<Rightarrow> float64 option) \<Rightarrow> (rat \<Rightarrow> float64) \<Rightarrow> (string \<Rightarrow> int option) \<Rightarrow> string \<Rightarrow> int \<Rightarrow> int option" where
  "retryAfterSecondsOrDate parse_float rnd parse_time v now =
    (case decimalDuration parse_float rnd v Second of
       Some delay \<Rightarrow> Some delay
     | None \<Rightarrow>
        (case parse_time (trim_space v) of
           None \<Rightarrow> None
         | Some date \<Rightarrow> if date > now then Some (time_sub date now) else None))"

text \<open>The library functions the hints use, gathered in one record.\<close>

record lib =
  parse_float :: "string \<Rightarrow> float64 option"
  rnd :: "rat \<Rightarrow> float64"
  parse_time :: "string \<Rightarrow> int option"
  ulow :: "rune \<Rightarrow> rune"

definition header_hint :: "lib \<Rightarrow> int \<Rightarrow> string \<times> string \<Rightarrow> int option" where
  "header_hint l now h =
    (let name = to_lower (ulow l) (trim_space (fst h)); v = snd h in
     if name = ''retry-after-ms'' then decimalDuration (parse_float l) (rnd l) v Millisecond
     else if name = ''retry-after'' then retryAfterSecondsOrDate (parse_float l) (rnd l) (parse_time l) v now
     else if name = ''x-ratelimit-reset-ms'' then resetDelay (parse_float l) (rnd l) v now Millisecond
     else if name = ''x-ratelimit-reset'' then resetDelay (parse_float l) (rnd l) v now Second
     else None)"

text \<open>
  The loop ranges over a Go map, in an unspecified order: \<open>headers\<close> lists the entries in the
  order of the iteration.
\<close>

fun retry_after_loop :: "lib \<Rightarrow> int \<Rightarrow> (string \<times> string) list \<Rightarrow> int \<Rightarrow> bool \<Rightarrow> int \<times> bool" where
  "retry_after_loop l now [] largest valid = (largest, valid)"
| "retry_after_loop l now (h # hs) largest valid =
    (case header_hint l now h of
       Some delay \<Rightarrow>
         if \<not> valid \<or> delay > largest then retry_after_loop l now hs delay True
         else retry_after_loop l now hs largest valid
     | None \<Rightarrow> retry_after_loop l now hs largest valid)"

definition RetryAfter :: "lib \<Rightarrow> (string \<times> string) list \<Rightarrow> int \<Rightarrow> int \<times> bool" where
  "RetryAfter l headers now = retry_after_loop l now headers 0 False"

definition retryAfterOrZero :: "lib \<Rightarrow> (string \<times> string) list \<Rightarrow> int \<Rightarrow> int" where
  "retryAfterOrZero l headers now = (let (delay, ok) = RetryAfter l headers now in if \<not> ok then 0 else delay)"

lemma durationCeilMillis_bounds:
  assumes a: "durationCeilMillis f v unit = Some d" shows "0 < d \<and> d \<le> MaxInt64"
proof -
  obtain q where fq: "f (v * (of_int unit / of_int Millisecond)) = Fin q"
    using a unfolding durationCeilMillis_def by (auto split: float64.splits)
  have q: "0 < q" "of_int (ceiling q) < (2 ^ 63 :: rat) / of_int Millisecond"
    "d = wrap64 (ceiling q * Millisecond)"
    using a unfolding durationCeilMillis_def fq float64.case Let_def
    by (auto simp only: not_le not_less option.inject split: if_splits)
  from q(2) have "of_int (ceiling q * Millisecond) < (of_int (2 ^ 63) :: rat)"
    by (simp add: Millisecond_def field_simps)
  then have lt: "ceiling q * Millisecond < 2 ^ 63" by (simp only: of_int_less_iff)
  from q(1) have "0 < ceiling q" by simp
  then have "0 < ceiling q * Millisecond" by (simp add: Millisecond_def)
  with lt q(3) show ?thesis by (simp add: in64_def MaxInt64_def)
qed

lemma time_sub_bounds: "b < a \<Longrightarrow> 0 < time_sub a b \<and> time_sub a b \<le> MaxInt64"
  by (simp add: time_sub_def MaxInt64_def)

lemma header_hint_bounds: "header_hint l now h = Some d \<Longrightarrow> 0 < d \<and> d \<le> MaxInt64"
  by (auto simp: header_hint_def Let_def decimalDuration_def retryAfterSecondsOrDate_def resetDelay_def
        absoluteDelay_def durationCeilMillis_bounds time_sub_bounds
      split: if_splits option.splits float64.splits)

lemma retry_after_loop_char:
  "retry_after_loop l now hs largest valid =
    (let ds = List.map_filter (header_hint l now) hs in
     if valid then (foldr max ds largest, True)
     else case ds of [] \<Rightarrow> (largest, False) | d # ds' \<Rightarrow> (foldr max ds' d, True))"
proof (induction l now hs largest valid rule: retry_after_loop.induct)
  case (2 l now h hs largest valid)
  have fold_max: "foldr max ds (max a b) = max a (foldr max ds b)" for ds and a b :: int
    by (induction ds) auto
  show ?case
  proof (cases "header_hint l now h")
    case None
    with 2 show ?thesis by (simp add: map_filter_simps)
  next
    case (Some d)
    with 2 show ?thesis
      using fold_max [of "List.map_filter (header_hint l now) hs" d largest]
      by (auto simp: map_filter_simps Let_def max_def split: if_splits)
  qed
qed (simp add: map_filter_simps)

text \<open>The retry hint is the largest of the valid hints of the headers: it does not depend on
  the order in which Go iterates the map, it is positive and fits a \<open>Duration\<close>, some header gives
  it, and no header gives more; without a valid hint the call says so.\<close>

lemma RetryAfter_largest:
  "(RetryAfter l headers now = (0, False) \<and> (\<forall>h \<in> set headers. header_hint l now h = None))
   \<or> (\<exists>d. RetryAfter l headers now = (d, True) \<and> 0 < d \<and> d \<le> MaxInt64
        \<and> (\<exists>h \<in> set headers. header_hint l now h = Some d)
        \<and> (\<forall>h \<in> set headers. \<forall>d'. header_hint l now h = Some d' \<longrightarrow> d' \<le> d))"
proof (cases "List.map_filter (header_hint l now) headers")
  case Nil
  then show ?thesis
    by (auto simp: RetryAfter_def retry_after_loop_char map_filter_def filter_empty_conv)
next
  case (Cons d ds)
  have mx: "foldr max ds d = Max (set (d # ds))"
    by (induction ds) (auto simp: Max.insert_remove max.left_commute insert_commute)
  let ?m = "foldr max ds d"
  have mem: "?m \<in> set (d # ds)" unfolding mx by (rule Max_in) simp_all
  have set_eq: "set (d # ds) = {e. \<exists>h \<in> set headers. header_hint l now h = Some e}"
    unfolding Cons [symmetric] by (force simp: map_filter_def)
  have "RetryAfter l headers now = (?m, True)"
    by (simp add: RetryAfter_def retry_after_loop_char Cons)
  moreover have "?m \<in> {e. \<exists>h \<in> set headers. header_hint l now h = Some e}" using mem unfolding set_eq .
  then obtain h where h: "h \<in> set headers" "header_hint l now h = Some ?m" by blast
  note this h
  moreover from header_hint_bounds [OF h(2)] have "0 < ?m \<and> ?m \<le> MaxInt64" .
  moreover have "d' \<le> ?m" if "h' \<in> set headers" "header_hint l now h' = Some d'" for h' d'
  proof -
    from that have "d' \<in> set (d # ds)" unfolding set_eq by blast
    then show ?thesis unfolding mx by (intro Max_ge) simp_all
  qed
  ultimately show ?thesis by blast
qed

lemma RetryAfter_largest_witness:
  "\<exists>d. RetryAfter \<lparr>parse_float = (\<lambda>s. if s = ''2'' then Some (Fin 2) else Some (Fin 5)), rnd = Fin,
          parse_time = (\<lambda>_. None), ulow = id\<rparr> [(''Retry-After'', ''2''), (''retry-after-ms'', ''5'')] 0 = (d, True)
     \<and> 0 < d"
proof -
  let ?l = "\<lparr>parse_float = (\<lambda>s. if s = ''2'' then Some (Fin 2) else Some (Fin 5)), rnd = Fin,
          parse_time = (\<lambda>_. None), ulow = id\<rparr>"
  let ?h = "[(''Retry-After'', ''2''), (''retry-after-ms'', ''5'')]"
  have "to_lower id (trim_space ''retry-after-ms'') = ''retry-after-ms''" by code_simp
  moreover have "trim_space ''5'' = ''5''" by code_simp
  ultimately have "header_hint ?l 0 (''retry-after-ms'', ''5'') = Some (5 * Millisecond)"
    by (simp add: header_hint_def Let_def decimalDuration_def durationCeilMillis_def Millisecond_def in64_def)
  then have "\<not> (\<forall>h \<in> set ?h. header_hint ?l 0 h = None)" by auto
  with RetryAfter_largest [of ?l ?h 0] show ?thesis by blast
qed

section \<open>Failures and their classification\<close>

datatype code =
    CodeRateLimited | CodeServerFailure | CodeNetworkFailure | CodeAttemptTimeout
  | CodeStreamInterrupted | CodeContextOverflow | CodeCanceled | CodeAuthentication
  | CodeInvalidRequest | CodeProviderFailure | CodeAttemptsExhausted | CodeRetryDelayExceeded

fun code_string :: "code \<Rightarrow> string" where
  "code_string CodeRateLimited = ''rate_limited''"
| "code_string CodeServerFailure = ''server_failure''"
| "code_string CodeNetworkFailure = ''network_failure''"
| "code_string CodeAttemptTimeout = ''attempt_timeout''"
| "code_string CodeStreamInterrupted = ''stream_interrupted''"
| "code_string CodeContextOverflow = ''context_overflow''"
| "code_string CodeCanceled = ''canceled''"
| "code_string CodeAuthentication = ''authentication''"
| "code_string CodeInvalidRequest = ''invalid_request''"
| "code_string CodeProviderFailure = ''provider_failure''"
| "code_string CodeAttemptsExhausted = ''attempts_exhausted''"
| "code_string CodeRetryDelayExceeded = ''retry_delay_exceeded''"

text \<open>A cause is kept as its text; the errors of a context are \<open>ctx_err\<close> texts.\<close>

record retry_error =
  re_Code :: code
  re_Message :: string
  re_Retryable :: bool
  re_RetryAfter :: int
  re_Attempts :: int
  re_Cause :: "string option"

definition Error :: "retry_error \<Rightarrow> string" where
  "Error e = (if re_Message e \<noteq> [] then re_Message e else ''provider failure: '' @ code_string (re_Code e))"

datatype sentinel = ErrRetryable | ErrTerminal | ErrExhausted | ErrCanceled | Typed code | OtherError

fun Is :: "retry_error \<Rightarrow> sentinel \<Rightarrow> bool" where
  "Is e ErrRetryable = re_Retryable e"
| "Is e ErrTerminal = (\<not> re_Retryable e)"
| "Is e ErrExhausted = (re_Code e = CodeAttemptsExhausted)"
| "Is e ErrCanceled = (re_Code e = CodeCanceled)"
| "Is e (Typed c) = (re_Code e = c)"
| "Is e OtherError = False"

record failure =
  f_Message :: string
  f_ProviderCode :: string
  f_StopReason :: stop_reason
  f_Status :: int
  f_Headers :: "(string \<times> string) list"
  f_ContextErr :: "string option"

definition containsAny :: "string \<Rightarrow> string list \<Rightarrow> bool" where
  "containsAny v patterns = list_ex (str_contains v) patterns"

definition isContextOverflow :: "string \<Rightarrow> bool" where
  "isContextOverflow v =
     (containsAny v [''context_length_exceeded'', ''prompt_too_long'', ''maximum context length'',
        ''too many input tokens''] \<or> (str_contains v ''context window'' \<and> str_contains v ''exceeded''))"

definition classifyProviderCode :: "(rune \<Rightarrow> rune) \<Rightarrow> string \<Rightarrow> (code \<times> bool) option" where
  "classifyProviderCode ul c =
    (let s = replace_all (to_lower ul (trim_space c)) ''-'' ''_'' in
     if s \<in> set [''rate_limit_error'', ''rate_limited'', ''too_many_requests''] then Some (CodeRateLimited, True)
     else if s \<in> set [''overloaded_error'', ''overloaded'', ''server_error'', ''internal_server_error'',
       ''service_unavailable''] then Some (CodeServerFailure, True)
     else if s \<in> set [''authentication_error'', ''permission_error'', ''permission_denied'',
       ''invalid_api_key''] then Some (CodeAuthentication, False)
     else if s \<in> set [''invalid_request_error'', ''not_found_error''] then Some (CodeInvalidRequest, False)
     else None)"

definition classify_status :: "int \<Rightarrow> (code \<times> bool) option" where
  "classify_status status =
    (if status = 429 then Some (CodeRateLimited, True)
     else if status \<ge> 500 \<and> status \<le> 599 then Some (CodeServerFailure, True)
     else if status \<noteq> 0 then
       (if status = 401 \<or> status = 403 then Some (CodeAuthentication, False)
        else if status = 400 \<or> status = 404 \<or> status = 409 \<or> status = 422 then Some (CodeInvalidRequest, False)
        else if status \<ge> 400 \<and> status \<le> 499 then Some (CodeInvalidRequest, False)
        else Some (CodeProviderFailure, False))
     else None)"

definition classify_text :: "(rune \<Rightarrow> rune) \<Rightarrow> string \<Rightarrow> string \<Rightarrow> code \<times> bool" where
  "classify_text ul combined message =
    (if containsAny combined [''i/o timeout'', ''tls handshake timeout'', ''context deadline exceeded'', ''timed out'']
       then (CodeAttemptTimeout, True)
     else if containsAny combined [''connection reset'', ''connection refused'', ''connection closed'',
         ''broken pipe'', ''unexpected eof'', ''server closed idle connection'', ''socket hang up'',
         ''stream idle'', ''stream ended without finish_reason'', ''fetch failed'']
         \<or> trim_space (to_lower ul message) = ''eof''
         \<or> (str_contains combined ''upstream'' \<and> str_contains combined ''reset'')
       then (if str_contains combined ''stream'' then (CodeStreamInterrupted, True) else (CodeNetworkFailure, True))
     else if containsAny combined [''overloaded'', ''service unavailable'', ''server/internal error'']
       then (CodeServerFailure, True)
     else if containsAny combined [''too many requests'', ''rate limit'', ''retry your request'']
       then (CodeRateLimited, True)
     else if str_contains combined ''provider returned error'' then (CodeServerFailure, True)
     else (CodeProviderFailure, False))"

text \<open>The closure \<open>result\<close>, given the trimmed message and the text of the cause.\<close>

definition classified :: "lib \<Rightarrow> failure \<Rightarrow> int \<Rightarrow> string \<Rightarrow> string \<Rightarrow> code \<times> bool \<Rightarrow> retry_error" where
  "classified l f now message causeText r =
     \<lparr>re_Code = fst r, re_Message = message, re_Retryable = snd r,
      re_RetryAfter = retryAfterOrZero l (f_Headers f) now, re_Attempts = 0,
      re_Cause = (if causeText \<noteq> [] then Some causeText else None)\<rparr>"

definition cause_text :: "string \<Rightarrow> string \<Rightarrow> string" where
  "cause_text providerCode message =
     (if providerCode \<noteq> [] then (if message \<noteq> [] then providerCode @ '': '' @ message else providerCode) else message)"

definition Classify :: "lib \<Rightarrow> failure \<Rightarrow> int \<Rightarrow> retry_error" where
  "Classify l f now =
    (let message = trim_space (f_Message f);
         providerCode = trim_space (f_ProviderCode f);
         result = classified l f now message (cause_text providerCode message);
         combined = to_lower (ulow l) (providerCode @ '' '' @ message)
     in if f_ContextErr f \<noteq> None \<or> f_StopReason f = StopAborted then result (CodeCanceled, False)
        else if isContextOverflow combined then result (CodeContextOverflow, False)
        else case classify_status (f_Status f) of
          Some r \<Rightarrow> result r
        | None \<Rightarrow>
           (case (if providerCode \<noteq> [] then classifyProviderCode (ulow l) providerCode else None) of
              Some r \<Rightarrow> result r
            | None \<Rightarrow> result (classify_text (ulow l) combined message)))"

lemma classify_status_retryable:
  "classify_status s = Some (c, r) \<Longrightarrow> r \<longleftrightarrow> s = 429 \<or> (500 \<le> s \<and> s \<le> 599)"
  by (auto simp: classify_status_def split: if_splits)

lemma classify_status_None [simp]: "classify_status s = None \<longleftrightarrow> s = 0"
  by (auto simp: classify_status_def)

definition transient_codes :: "code set" where
  "transient_codes = {CodeRateLimited, CodeServerFailure, CodeNetworkFailure, CodeAttemptTimeout, CodeStreamInterrupted}"

lemma classify_parts_consistent:
  "classify_status s = Some (c, r) \<Longrightarrow> r \<longleftrightarrow> c \<in> transient_codes"
  "classifyProviderCode ul p = Some (c, r) \<Longrightarrow> r \<longleftrightarrow> c \<in> transient_codes"
  "classify_text ul t m = (c, r) \<Longrightarrow> r \<longleftrightarrow> c \<in> transient_codes"
  by (auto simp: classify_status_def classifyProviderCode_def classify_text_def transient_codes_def Let_def
      split: if_splits)

text \<open>The category and the retry decision, apart from the texts of the error.\<close>

definition decision :: "lib \<Rightarrow> failure \<Rightarrow> code \<times> bool" where
  "decision l f =
    (if f_ContextErr f \<noteq> None \<or> f_StopReason f = StopAborted then (CodeCanceled, False)
     else if isContextOverflow (to_lower (ulow l) (trim_space (f_ProviderCode f) @ '' '' @ trim_space (f_Message f)))
       then (CodeContextOverflow, False)
     else case classify_status (f_Status f) of
            Some r \<Rightarrow> r
          | None \<Rightarrow>
             (case (if trim_space (f_ProviderCode f) \<noteq> [] then classifyProviderCode (ulow l) (trim_space (f_ProviderCode f)) else None) of
                Some r \<Rightarrow> r
              | None \<Rightarrow> classify_text (ulow l) (to_lower (ulow l) (trim_space (f_ProviderCode f) @ '' '' @ trim_space (f_Message f)))
                          (trim_space (f_Message f))))"

lemma Classify_classified:
  "Classify l f now = classified l f now (trim_space (f_Message f))
     (cause_text (trim_space (f_ProviderCode f)) (trim_space (f_Message f))) (decision l f)"
  unfolding Classify_def decision_def Let_def
  by (simp only: if_distrib [of "classified l f now m c" for m c] option.case_distrib [of "classified l f now m c" for m c])

lemma Classify_fields [simp]:
  "re_Code (Classify l f now) = fst (decision l f)" "re_Retryable (Classify l f now) = snd (decision l f)"
  "re_RetryAfter (Classify l f now) = retryAfterOrZero l (f_Headers f) now"
  by (simp_all add: Classify_classified classified_def)

lemma decision_consistent: "decision l f = (c, r) \<Longrightarrow> r \<longleftrightarrow> c \<in> transient_codes"
  by (auto simp: decision_def dest: classify_parts_consistent split: if_splits option.splits)
     (simp_all add: transient_codes_def)

lemma decision_status:
  assumes "f_ContextErr f = None" "f_StopReason f \<noteq> StopAborted" "f_Status f \<noteq> 0"
    and "\<not> isContextOverflow (to_lower (ulow l) (trim_space (f_ProviderCode f) @ '' '' @ trim_space (f_Message f)))"
  shows "snd (decision l f) \<longleftrightarrow> f_Status f = 429 \<or> (500 \<le> f_Status f \<and> f_Status f \<le> 599)"
proof -
  from assms(3) obtain c r where cr: "classify_status (f_Status f) = Some (c, r)"
    by (cases "classify_status (f_Status f)") auto
  then have "decision l f = (c, r)"
    unfolding decision_def using assms by (simp only: if_False option.case simp_thms)
  with classify_status_retryable [OF cr] show ?thesis by simp
qed

text \<open>The classification is coherent with the retry decision: a failure is retryable exactly when
  its code is one of the transient categories, a cancelled or aborted call and a context overflow
  are never retried whatever the status says, and otherwise a non-zero HTTP status alone decides:
  it is retried exactly for 429 and the 5xx range.\<close>

lemma Classify_retryable:
  "(re_Retryable (Classify l f now) \<longleftrightarrow> re_Code (Classify l f now) \<in> transient_codes)
   \<and> (f_ContextErr f \<noteq> None \<or> f_StopReason f = StopAborted \<longrightarrow> re_Code (Classify l f now) = CodeCanceled)
   \<and> (isContextOverflow (to_lower (ulow l) (trim_space (f_ProviderCode f) @ '' '' @ trim_space (f_Message f)))
        \<longrightarrow> \<not> re_Retryable (Classify l f now))
   \<and> (f_ContextErr f = None \<and> f_StopReason f \<noteq> StopAborted \<and> f_Status f \<noteq> 0
        \<and> \<not> isContextOverflow (to_lower (ulow l) (trim_space (f_ProviderCode f) @ '' '' @ trim_space (f_Message f)))
        \<longrightarrow> (re_Retryable (Classify l f now) \<longleftrightarrow> f_Status f = 429 \<or> (500 \<le> f_Status f \<and> f_Status f \<le> 599)))"
proof -
  have "f_ContextErr f \<noteq> None \<or> f_StopReason f = StopAborted \<Longrightarrow> decision l f = (CodeCanceled, False)"
    and "isContextOverflow (to_lower (ulow l) (trim_space (f_ProviderCode f) @ '' '' @ trim_space (f_Message f)))
      \<Longrightarrow> \<not> snd (decision l f)"
    unfolding decision_def by (simp_all only: if_True if_False split: if_split) simp
  with decision_consistent [of l f "fst (decision l f)" "snd (decision l f)"] decision_status [of f l]
  show ?thesis by simp
qed

definition example_failure :: failure where
  "example_failure = \<lparr>f_Message = ''connection reset'', f_ProviderCode = [], f_StopReason = StopError,
     f_Status = 503, f_Headers = [], f_ContextErr = None\<rparr>"

lemma Classify_retryable_witness:
  "re_Retryable (Classify \<lparr>parse_float = (\<lambda>_. None), rnd = Fin, parse_time = (\<lambda>_. None), ulow = id\<rparr>
     example_failure 0)"
proof -
  let ?l = "\<lparr>parse_float = (\<lambda>_. None), rnd = Fin, parse_time = (\<lambda>_. None), ulow = id\<rparr>"
  have "\<not> isContextOverflow (to_lower id (trim_space (f_ProviderCode example_failure) @ '' '' @
    trim_space (f_Message example_failure)))" by code_simp
  then show ?thesis
    using Classify_retryable [of ?l example_failure 0, THEN conjunct2, THEN conjunct2, THEN conjunct2]
    by (simp only: lib.select_convs) (simp add: example_failure_def)
qed

end
