(* ===== verification/Event_Stream.thy ===== *)
theory Event_Stream
  imports Msg_Types
begin

text \<open>
  \<open>internal/engine/stream/stream.go\<close> and \<open>assistant.go\<close>: the event stream with a final result.
  The critical sections of \<open>Push\<close>, \<open>End\<close> and \<open>EndWith\<close> are functions on the state; the dispatch
  goroutine and the consumers are steps of a relation, so their interleaving with the single
  producer is any order of the steps.
\<close>

section \<open>State and operations\<close>

text \<open>
  \<open>sm_sending\<close> is the event the dispatcher has taken off the queue and not yet sent, \<open>sm_events\<close>
  the contents of the buffered channel \<open>events\<close>, \<open>sm_events_closed\<close> that it was closed.  \<open>done\<close> is
  closed together with \<open>closed\<close>, in \<open>finishLocked\<close>, and is not a field of its own.
\<close>

record ('t, 'r) stream_state =
  sm_queue :: "'t list"
  sm_closed :: bool
  sm_once :: bool
  sm_result :: 'r
  sm_have_result :: bool
  sm_sending :: "'t option"
  sm_events :: "'t list"
  sm_events_closed :: bool

definition New :: "'r \<Rightarrow> ('t, 'r) stream_state" where
  "New zero =
     \<lparr>sm_queue = [], sm_closed = False, sm_once = False, sm_result = zero, sm_have_result = False,
      sm_sending = None, sm_events = [], sm_events_closed = False\<rparr>"

definition finishLocked :: "'r \<Rightarrow> bool \<Rightarrow> ('t, 'r) stream_state \<Rightarrow> ('t, 'r) stream_state" where
  "finishLocked result haveResult s =
     s\<lparr>sm_result := result, sm_have_result := haveResult, sm_closed := True\<rparr>"

text \<open>\<open>once.Do(f)\<close>.\<close>

definition once_do ::
  "(('t, 'r) stream_state \<Rightarrow> ('t, 'r) stream_state) \<Rightarrow> ('t, 'r) stream_state \<Rightarrow> ('t, 'r) stream_state" where
  "once_do f s = (if sm_once s then s else f (s\<lparr>sm_once := True\<rparr>))"

definition finish :: "'r \<Rightarrow> bool \<Rightarrow> ('t, 'r) stream_state \<Rightarrow> ('t, 'r) stream_state" where
  "finish result haveResult s = once_do (finishLocked result haveResult) s"

definition Push ::
  "('t \<Rightarrow> bool) \<Rightarrow> ('t \<Rightarrow> 'r) \<Rightarrow> 't \<Rightarrow> ('t, 'r) stream_state \<Rightarrow> ('t, 'r) stream_state" where
  "Push isComplete extr ev s =
     (if sm_closed s then s
      else let s1 = s\<lparr>sm_queue := sm_queue s @ [ev]\<rparr> in
           if isComplete ev then once_do (finishLocked (extr ev) True) s1 else s1)"

definition End :: "'r \<Rightarrow> ('t, 'r) stream_state \<Rightarrow> ('t, 'r) stream_state" where
  "End zero s = finish zero False s"

definition EndWith :: "'r \<Rightarrow> ('t, 'r) stream_state \<Rightarrow> ('t, 'r) stream_state" where
  "EndWith result s = finish result True s"

text \<open>
  \<open>Result\<close> once \<open>done\<close> is closed: \<open>Some (Inr r)\<close>, or \<open>Some (Inl ())\<close> for \<open>ErrNoResult\<close>;
  \<^const>\<open>None\<close> while it blocks.
\<close>

definition Result :: "('t, 'r) stream_state \<Rightarrow> (unit + 'r) option" where
  "Result s = (if sm_closed s then Some (if sm_have_result s then Inr (sm_result s) else Inl ()) else None)"

section \<open>Steps\<close>

datatype ('t, 'r) action =
    DoPush 't | DoEnd | DoEndWith 'r
  | Take | Send | Hand 't | CloseEvents
  | Receive 't

text \<open>
  The dispatcher takes the head of the queue, sends it (into the buffer when there is room, or
  straight to a waiting receiver: \<open>Hand\<close>), and closes \<open>events\<close> when the stream is closed and
  drained.  \<open>buf\<close> is the capacity of the channel.
\<close>

inductive step ::
  "nat \<Rightarrow> 'r \<Rightarrow> ('t \<Rightarrow> bool) \<Rightarrow> ('t \<Rightarrow> 'r) \<Rightarrow>
   ('t, 'r) stream_state \<Rightarrow> ('t, 'r) action \<Rightarrow> ('t, 'r) stream_state \<Rightarrow> bool"
  for buf zero isComplete extr where
  push: "step buf zero isComplete extr s (DoPush ev) (Push isComplete extr ev s)"
| ends: "step buf zero isComplete extr s DoEnd (End zero s)"
| end_with: "step buf zero isComplete extr s (DoEndWith r) (EndWith r s)"
| take_head: "sm_sending s = None \<Longrightarrow> \<not> sm_events_closed s \<Longrightarrow> sm_queue s = ev # q \<Longrightarrow>
    step buf zero isComplete extr s Take (s\<lparr>sm_queue := q, sm_sending := Some ev\<rparr>)"
| send: "sm_sending s = Some ev \<Longrightarrow> length (sm_events s) < buf \<Longrightarrow>
    step buf zero isComplete extr s Send (s\<lparr>sm_sending := None, sm_events := sm_events s @ [ev]\<rparr>)"
| hand: "sm_sending s = Some ev \<Longrightarrow> sm_events s = [] \<Longrightarrow>
    step buf zero isComplete extr s (Hand ev) (s\<lparr>sm_sending := None\<rparr>)"
| close_events: "sm_sending s = None \<Longrightarrow> \<not> sm_events_closed s \<Longrightarrow> sm_queue s = [] \<Longrightarrow> sm_closed s \<Longrightarrow>
    step buf zero isComplete extr s CloseEvents (s\<lparr>sm_events_closed := True\<rparr>)"
| receive: "sm_events s = ev # es \<Longrightarrow>
    step buf zero isComplete extr s (Receive ev) (s\<lparr>sm_events := es\<rparr>)"

inductive_cases step_E: "step buf zero isComplete extr s a s'"

inductive_simps step_simps:
  "step buf zero isComplete extr s (DoPush ev) s'"
  "step buf zero isComplete extr s Take s'"
  "step buf zero isComplete extr s Send s'"
  "step buf zero isComplete extr s CloseEvents s'"
  "step buf zero isComplete extr s (Receive ev) s'"

inductive steps ::
  "nat \<Rightarrow> 'r \<Rightarrow> ('t \<Rightarrow> bool) \<Rightarrow> ('t \<Rightarrow> 'r) \<Rightarrow> ('t, 'r) action list \<Rightarrow> ('t, 'r) stream_state \<Rightarrow> bool"
  for buf zero isComplete extr where
  start: "steps buf zero isComplete extr [] (New zero)"
| more: "steps buf zero isComplete extr as s \<Longrightarrow> step buf zero isComplete extr s a s' \<Longrightarrow>
    steps buf zero isComplete extr (as @ [a]) s'"

section \<open>What a stream promises\<close>

text \<open>
  The specification reads the actions only: the events accepted are those pushed before the first
  finish (a completing push is accepted and finishes), the outcome is that of the first finish,
  and the consumers have seen the events received or handed over.
\<close>

fun accepted :: "('t \<Rightarrow> bool) \<Rightarrow> ('t, 'r) action list \<Rightarrow> 't list" where
  "accepted isComplete [] = []"
| "accepted isComplete (DoPush ev # as) = ev # (if isComplete ev then [] else accepted isComplete as)"
| "accepted isComplete (DoEnd # as) = []"
| "accepted isComplete (DoEndWith r # as) = []"
| "accepted isComplete (_ # as) = accepted isComplete as"

fun outcome :: "('t \<Rightarrow> bool) \<Rightarrow> ('t \<Rightarrow> 'r) \<Rightarrow> ('t, 'r) action list \<Rightarrow> (unit + 'r) option" where
  "outcome isComplete extr [] = None"
| "outcome isComplete extr (DoPush ev # as) =
     (if isComplete ev then Some (Inr (extr ev)) else outcome isComplete extr as)"
| "outcome isComplete extr (DoEnd # as) = Some (Inl ())"
| "outcome isComplete extr (DoEndWith r # as) = Some (Inr r)"
| "outcome isComplete extr (_ # as) = outcome isComplete extr as"

fun seen :: "('t, 'r) action list \<Rightarrow> 't list" where
  "seen [] = []"
| "seen (Receive ev # as) = ev # seen as"
| "seen (Hand ev # as) = ev # seen as"
| "seen (_ # as) = seen as"

fun finishes :: "('t \<Rightarrow> bool) \<Rightarrow> ('t, 'r) action \<Rightarrow> bool" where
  "finishes isComplete (DoPush ev) = isComplete ev"
| "finishes isComplete DoEnd = True"
| "finishes isComplete (DoEndWith r) = True"
| "finishes isComplete _ = False"

fun pushed :: "('t, 'r) action \<Rightarrow> 't list" where
  "pushed (DoPush ev) = [ev]"
| "pushed _ = []"

lemma accepted_append:
  "accepted isComplete (as @ bs) =
     (if list_ex (finishes isComplete) as then accepted isComplete as
      else accepted isComplete as @ accepted isComplete bs)"
  by (induction isComplete as rule: accepted.induct) auto

lemma outcome_append:
  "outcome isComplete extr (as @ bs) =
     (if list_ex (finishes isComplete) as then outcome isComplete extr as
      else outcome isComplete extr bs)"
  by (induction isComplete extr as rule: outcome.induct) auto

lemma outcome_None_iff: "outcome isComplete extr as = None \<longleftrightarrow> \<not> list_ex (finishes isComplete) as"
  by (induction isComplete extr as rule: outcome.induct) auto

lemma seen_append: "seen (as @ bs) = seen as @ seen bs"
  by (induction as rule: seen.induct) auto

definition stream_inv ::
  "('t \<Rightarrow> bool) \<Rightarrow> ('t \<Rightarrow> 'r) \<Rightarrow> nat \<Rightarrow> ('t, 'r) action list \<Rightarrow> ('t, 'r) stream_state \<Rightarrow> bool" where
  "stream_inv isComplete extr buf as s \<longleftrightarrow>
     seen as @ sm_events s @ (case sm_sending s of None \<Rightarrow> [] | Some ev \<Rightarrow> [ev]) @ sm_queue s
       = accepted isComplete as
     \<and> sm_closed s = list_ex (finishes isComplete) as
     \<and> sm_once s = sm_closed s
     \<and> Result s = outcome isComplete extr as
     \<and> (sm_events_closed s \<longrightarrow> sm_closed s \<and> sm_queue s = [] \<and> sm_sending s = None)
     \<and> length (sm_events s) \<le> buf"

lemmas stream_op_defs = Push_def End_def EndWith_def finish_def finishLocked_def once_do_def Result_def

lemma stream_inv_step:
  assumes "stream_inv isComplete extr buf as s" and "step buf zero isComplete extr s a s'"
  shows "stream_inv isComplete extr buf (as @ [a]) s'"
  using assms(2,1)
  by (cases rule: step.cases)
     (auto simp: stream_inv_def stream_op_defs accepted_append outcome_append seen_append Let_def
        outcome_None_iff split: if_splits option.splits)

lemma stream_inv_steps: "steps buf zero isComplete extr as s \<Longrightarrow> stream_inv isComplete extr buf as s"
proof (induction rule: steps.induct)
  case start
  show ?case by (simp add: stream_inv_def New_def Result_def)
next
  case (more as s a s')
  then show ?case by (blast intro: stream_inv_step)
qed

text \<open>C35: a stream delivers in order and loses nothing: after any interleaving of the producer, the
  dispatcher and the consumers, what the consumers have seen, then what is buffered, in the
  dispatcher's hand and queued, are exactly the events pushed before the first finish; \<open>Result\<close> is
  that of the first finish alone, whether or not the events were consumed; and \<open>events\<close> is closed
  only when everything was passed on, so a consumer that drains a closed channel saw them all.\<close>

theorem stream_delivers:
  assumes "steps buf zero isComplete extr as s"
  shows "seen as @ sm_events s @ (case sm_sending s of None \<Rightarrow> [] | Some ev \<Rightarrow> [ev]) @ sm_queue s
           = accepted isComplete as
       \<and> Result s = outcome isComplete extr as
       \<and> (sm_events_closed s \<and> sm_events s = [] \<longrightarrow> seen as = accepted isComplete as)"
  using stream_inv_steps [OF assms] by (auto simp: stream_inv_def)

theorem stream_delivers_witness:
  "\<exists>s. steps 1 (0::nat) (\<lambda>n. n = 9) id [DoPush 3, DoPush 9, DoPush 4, Take, Send, Take, Receive 3] s
     \<and> seen [DoPush 3, DoPush 9, DoPush 4, Take, Send, Take, Receive (3::nat)] = [3]
     \<and> sm_sending s = Some 9 \<and> Result s = Some (Inr 9)"
proof -
  let ?st = "step 1 (0::nat) (\<lambda>n. n = 9) id"
  let ?P = "\<lambda>n. Push (\<lambda>n. n = 9) id (n::nat)"
  let ?s3 = "?P 4 (?P 9 (?P 3 (New 0)))"
  let ?s4 = "?s3\<lparr>sm_queue := [9], sm_sending := Some 3\<rparr>"
  let ?s5 = "?s4\<lparr>sm_sending := None, sm_events := [3]\<rparr>"
  let ?s6 = "?s5\<lparr>sm_queue := [], sm_sending := Some 9\<rparr>"
  let ?s7 = "?s6\<lparr>sm_events := []\<rparr>"
  note d = stream_op_defs New_def Let_def
  have 1: "?st (New 0) (DoPush 3) (?P 3 (New 0))" by (rule step.push)
  have 2: "?st (?P 3 (New 0)) (DoPush 9) (?P 9 (?P 3 (New 0)))" by (rule step.push)
  have 3: "?st (?P 9 (?P 3 (New 0))) (DoPush 4) ?s3" by (rule step.push)
  have 4: "?st ?s3 Take ?s4" by (rule step.take_head) (simp_all add: d)
  have 5: "?st ?s4 Send ?s5" using step.send [of ?s4 3 1] by (simp add: d)
  have 6: "?st ?s5 Take ?s6" by (rule step.take_head) (simp_all add: d)
  have 7: "?st ?s6 (Receive 3) ?s7" by (rule step.receive) (simp add: d)
  have run: "steps 1 0 (\<lambda>n. n = 9) id [DoPush 3, DoPush 9, DoPush 4, Take, Send, Take, Receive 3] ?s7"
    using steps.more [OF steps.more [OF steps.more [OF steps.more [OF steps.more [OF steps.more
      [OF steps.more [OF steps.start 1] 2] 3] 4] 5] 6] 7] by simp
  from stream_delivers [OF run]
  have "seen [DoPush 3, DoPush 9, DoPush 4, Take, Send, Take, Receive (3::nat)] = [3]" by simp
  with run show ?thesis by (intro exI [of _ ?s7]) (simp add: d)
qed

section \<open>Draining always finishes\<close>

fun internal :: "('t, 'r) action \<Rightarrow> bool" where
  "internal (DoPush ev) = False"
| "internal DoEnd = False"
| "internal (DoEndWith r) = False"
| "internal _ = True"

definition left_over :: "('t, 'r) stream_state \<Rightarrow> nat" where
  "left_over s = 3 * length (sm_queue s) + (if sm_sending s = None then 0 else 2)
     + length (sm_events s) + (if sm_events_closed s then 0 else 1)"

lemma internal_decreases:
  "step buf zero isComplete extr s a s' \<Longrightarrow> internal a \<Longrightarrow> left_over s' < left_over s"
  by (cases rule: step.cases) (auto simp: left_over_def)

lemma internal_enabled:
  assumes "sm_closed s" and "sm_events_closed s \<longrightarrow> sm_sending s = None" and "\<not> (sm_events_closed s \<and> sm_events s = [])"
  shows "\<exists>a s'. internal a \<and> step buf zero isComplete extr s a s'"
proof (cases "sm_events s")
  case (Cons ev es)
  then show ?thesis using step.receive [of s ev es] by (metis internal.simps(8))
next
  case Nil
  with assms(3) have open_ev: "\<not> sm_events_closed s" by simp
  show ?thesis
  proof (cases "sm_sending s")
    case (Some ev)
    then show ?thesis using step.hand [OF Some Nil] by (metis internal.simps(6))
  next
    case None
    show ?thesis
    proof (cases "sm_queue s")
      case Nil
      then show ?thesis using step.close_events [OF None open_ev Nil assms(1)] by (metis internal.simps(7))
    next
      case (Cons ev q)
      then show ?thesis using step.take_head [OF None open_ev Cons] by (metis internal.simps(4))
    qed
  qed
qed

text \<open>C36: no interleaving gets stuck before the end: once the stream is closed, some step of the
  dispatcher or of a consumer is possible until \<open>events\<close> is closed and drained, and every such step
  strictly decreases what is left to do, so every run of them reaches that end.\<close>

theorem stream_drains:
  assumes "steps buf zero isComplete extr as s" and "sm_closed s"
  shows "((sm_events_closed s \<and> sm_events s = []) \<or> (\<exists>a s'. internal a \<and> step buf zero isComplete extr s a s'))
     \<and> (\<forall>a s'. internal a \<and> step buf zero isComplete extr s a s' \<longrightarrow> left_over s' < left_over s)"
  using internal_enabled [OF assms(2), of buf zero isComplete extr] stream_inv_steps [OF assms(1)]
    internal_decreases
  by (auto simp: stream_inv_def)

theorem stream_drains_witness:
  "\<exists>a s'. internal a \<and> step 0 (0::nat) (\<lambda>n::nat. False) id (End 0 (New 0)) a s'"
proof -
  let ?s = "End 0 (New 0) :: (nat, nat) stream_state"
  have run: "steps 0 (0::nat) (\<lambda>n::nat. False) id [DoEnd] ?s"
    using steps.more [OF steps.start step.ends] by simp
  have "sm_closed ?s" "\<not> sm_events_closed ?s" by (simp_all add: stream_op_defs New_def)
  then show ?thesis using stream_drains [OF run] by blast
qed

section \<open>Assistant streams\<close>

text \<open>
  \<open>AssistantStream\<close>: \<open>Push\<close> folds every event into a builder before it forwards it.  The result
  is the message of a done event, the error message of an error event, or nil.
\<close>

record assistant_stream =
  as_stream :: "(stream_event, assistant_message option) stream_state"
  as_builder :: assistant_message
  as_final :: "assistant_message option"

definition extract_result :: "stream_event \<Rightarrow> assistant_message option" where
  "extract_result ev =
     (case ev_type ev of EvDone \<Rightarrow> ev_message ev | EvError \<Rightarrow> ev_err ev | _ \<Rightarrow> None)"

definition NewAssistantStream :: "string \<Rightarrow> string \<Rightarrow> string \<Rightarrow> assistant_stream" where
  "NewAssistantStream api provider model =
     \<lparr>as_stream = New None, as_builder = NewAssistantBuilder api provider model, as_final = None\<rparr>"

definition push_assistant :: "assistant_stream \<Rightarrow> stream_event \<Rightarrow> assistant_stream" where
  "push_assistant a ev =
     (let a1 = a\<lparr>as_builder := Fold (as_builder a) ev\<rparr>;
          a2 = (if ev_type ev = EvDone \<and> ev_message ev \<noteq> None then a1\<lparr>as_final := ev_message ev\<rparr>
                else if ev_type ev = EvError \<and> ev_err ev \<noteq> None then a1\<lparr>as_final := ev_err ev\<rparr>
                else a1)
      in a2\<lparr>as_stream := Push is_terminal extract_result ev (as_stream a2)\<rparr>)"

definition Final :: "assistant_stream \<Rightarrow> assistant_message" where
  "Final a = (case as_final a of Some m \<Rightarrow> m | None \<Rightarrow> as_builder a)"

lemma push_assistant_simps [simp]:
  "as_stream (push_assistant a ev) = Push is_terminal extract_result ev (as_stream a)"
  "as_builder (push_assistant a ev) = Fold (as_builder a) ev"
  "as_final (push_assistant a ev) = (if extract_result ev \<noteq> None then extract_result ev else as_final a)"
  by (auto simp: push_assistant_def Let_def extract_result_def split: ev_type.splits)

lemma extract_result_nonterminal [simp]: "\<not> is_terminal ev \<Longrightarrow> extract_result ev = None"
  by (auto simp: extract_result_def is_terminal_def split: ev_type.splits)

lemma push_nonterminals:
  assumes "list_all (\<lambda>ev. \<not> is_terminal ev) evs" and "\<not> sm_closed (as_stream a)"
  shows "as_stream (foldl push_assistant a evs) = (as_stream a)\<lparr>sm_queue := sm_queue (as_stream a) @ evs\<rparr>
    \<and> as_builder (foldl push_assistant a evs) = foldl Fold (as_builder a) evs
    \<and> as_final (foldl push_assistant a evs) = as_final a"
  using assms by (induction evs arbitrary: a) (auto simp: Push_def Let_def)

text \<open>For a producer that stops at its terminal event, \<open>Final\<close> and \<open>Result\<close> agree: the result
  is the message the terminal event carries, \<open>Final\<close> is that message, or the fold of all the
  events when it carries none, and every event was queued for the consumers.\<close>

lemma assistant_final:
  assumes "list_all (\<lambda>ev. \<not> is_terminal ev) evs" and "is_terminal t"
  shows "let a = foldl push_assistant (NewAssistantStream api provider model) (evs @ [t]) in
      Result (as_stream a) = Some (Inr (extract_result t))
    \<and> Final a = (case extract_result t of Some m \<Rightarrow> m
                | None \<Rightarrow> foldl Fold (NewAssistantBuilder api provider model) (evs @ [t]))
    \<and> sm_queue (as_stream a) = evs @ [t]"
  using push_nonterminals [OF assms(1), of "NewAssistantStream api provider model"] assms(2)
  by (auto simp: NewAssistantStream_def Final_def New_def stream_op_defs Let_def split: option.splits)

lemma assistant_final_witness:
  "Final (foldl push_assistant (NewAssistantStream ''a'' ''p'' ''m'')
     [(event EvTextDelta)\<lparr>ev_delta := ''hi''\<rparr>, (event EvDone)\<lparr>ev_reason := StopStop\<rparr>])
   = (empty_assistant ''a'' ''p'' ''m'')\<lparr>am_content := [NewText ''hi''], am_stop_reason := StopStop\<rparr>"
proof -
  let ?d = "(event EvTextDelta)\<lparr>ev_delta := ''hi''\<rparr>" and ?t = "(event EvDone)\<lparr>ev_reason := StopStop\<rparr>"
  have "list_all (\<lambda>ev. \<not> is_terminal ev) [?d]" "is_terminal ?t" by (simp_all add: is_terminal_def event_def)
  from assistant_final [OF this, of "''a''" "''p''" "''m''"] show ?thesis
    by (simp add: extract_result_def event_def NewAssistantBuilder_def Fold_def with_block_def grow_def
      empty_assistant_def NewText_def empty_block_def)
qed

text \<open>
  \<open>Push\<close> folds also an event the closed stream drops, so a second terminal event changes \<open>Final\<close>
  and not the result.
\<close>

lemma Final_follows_dropped_event:
  assumes "ev_type d = EvDone" "ev_message d = Some m" "ev_type e = EvError" "ev_err e = Some x"
  shows "let a = foldl push_assistant (NewAssistantStream api provider model) [d, e] in
      Result (as_stream a) = Some (Inr (Some m)) \<and> sm_queue (as_stream a) = [d] \<and> Final a = x"
  using assms(1-4)
  by (auto simp: NewAssistantStream_def New_def Final_def stream_op_defs Let_def is_terminal_def
      extract_result_def)

end
