(* ===== verification/Retry_Stream.thy ===== *)
theory Retry_Stream
  imports Retry_Policy Event_Stream
begin

text \<open>
  \<open>internal/retry/stream.go\<close>: the logical stream that hides failed attempts.  What the world does
  during an attempt is the record \<open>attempt\<close>: the events the provider's stream delivers (the list
  ends where the channel is closed), the points where the select sees the cancelled context, the
  values of \<open>ctx.Err()\<close> at each place the code reads it, the response the hook recorded, the clock,
  the rounded jitter product and the outcome of the sleep.
\<close>

section \<open>Attempts\<close>

datatype item = CtxDone string | Recv stream_event

record attempt =
  at_ctx_start :: "string option"
  at_stream :: "item list option"
  at_status :: int
  at_headers :: "(string \<times> string) list"
  at_ctx_closed :: "string option"
  at_ctx_classify :: "string option"
  at_now :: int
  at_rounded :: "int \<Rightarrow> int"
  at_sleep_fails :: bool
  at_ctx_slept :: "string option"

text \<open>What \<open>produce\<close> has pushed, its builder \<open>logical\<close> and the delays it has slept.\<close>

record retry_state =
  rs_out :: "stream_event list"
  rs_logical :: assistant_message
  rs_slept :: "int list"

definition preOutputLimit :: nat where "preOutputLimit = 64"

definition push_event :: "stream_event \<Rightarrow> retry_state \<Rightarrow> retry_state" where
  "push_event ev st = st\<lparr>rs_out := rs_out st @ [ev]\<rparr>"

definition forward :: "stream_event \<Rightarrow> retry_state \<Rightarrow> retry_state" where
  "forward event0 st =
    (let ev = event0\<lparr>ev_partial := None\<rparr>;
         logical = Fold (rs_logical st) ev
     in push_event (ev\<lparr>ev_partial := Some logical\<rparr>) (st\<lparr>rs_logical := logical\<rparr>))"

definition flush :: "stream_event list \<Rightarrow> retry_state \<Rightarrow> retry_state" where
  "flush events st = foldl (\<lambda>s ev. forward ev s) st events"

text \<open>Values have no aliases here, so copying an event only drops the provider's live partial.\<close>

definition copyEvent :: "stream_event \<Rightarrow> stream_event" where
  "copyEvent ev = ev\<lparr>ev_partial := None\<rparr>"

definition eventHasObservableOutput :: "stream_event \<Rightarrow> bool" where
  "eventHasObservableOutput ev =
    (case (case ev_type ev of EvError \<Rightarrow> ev_err ev | EvDone \<Rightarrow> ev_message ev | _ \<Rightarrow> None) of
       None \<Rightarrow> False
     | Some m \<Rightarrow> list_ex (\<lambda>b. cb_type b = BlockToolCall \<or> cb_text b \<noteq> [] \<or> cb_thinking b \<noteq> []) (am_content m))"

definition eventObservable :: "stream_event \<Rightarrow> bool" where
  "eventObservable ev =
    (case ev_type ev of
       EvTextDelta \<Rightarrow> ev_delta ev \<noteq> []
     | EvThinkingDelta \<Rightarrow> ev_delta ev \<noteq> []
     | EvTextEnd \<Rightarrow> ev_content ev \<noteq> []
     | EvThinkingEnd \<Rightarrow> ev_content ev \<noteq> []
     | EvToolCallStart \<Rightarrow> True
     | EvToolCallDelta \<Rightarrow> True
     | EvToolCallEnd \<Rightarrow> True
     | _ \<Rightarrow> eventHasObservableOutput ev)"

definition generated_reason :: "retry_error \<Rightarrow> stop_reason" where
  "generated_reason e = (if re_Code e = CodeCanceled then StopAborted else StopError)"

definition error_event :: "stop_reason \<Rightarrow> assistant_message option \<Rightarrow> stream_event" where
  "error_event reason err = (event EvError)\<lparr>ev_reason := reason, ev_err := err\<rparr>"

definition pushGenerated :: "model \<Rightarrow> retry_error \<Rightarrow> retry_state \<Rightarrow> retry_state" where
  "pushGenerated m e st =
     push_event (error_event (generated_reason e)
       (Some ((empty_assistant (mo_api m) (mo_provider m) (mo_id m))
          \<lparr>am_stop_reason := generated_reason e, am_error_code := code_string (re_Code e),
           am_error_message := Error e\<rparr>))) st"

definition pushGeneratedWithMessage :: "retry_error \<Rightarrow> assistant_message \<Rightarrow> retry_state \<Rightarrow> retry_state" where
  "pushGeneratedWithMessage e partial st =
     push_event (error_event (generated_reason e)
       (Some (partial\<lparr>am_stop_reason := generated_reason e, am_error_code := code_string (re_Code e),
           am_error_message := Error e\<rparr>))) st"

definition pushCanceled :: "model \<Rightarrow> string option \<Rightarrow> retry_state \<Rightarrow> retry_state" where
  "pushCanceled m cause st =
     pushGenerated m \<lparr>re_Code = CodeCanceled, re_Message = ''retry canceled'', re_Retryable = False,
       re_RetryAfter = 0, re_Attempts = 0, re_Cause = cause\<rparr> st"

definition gave_up :: "code \<Rightarrow> string \<Rightarrow> nat \<Rightarrow> string option \<Rightarrow> retry_error" where
  "gave_up c msg n cause =
     \<lparr>re_Code = c, re_Message = msg, re_Retryable = False, re_RetryAfter = 0, re_Attempts = int n, re_Cause = cause\<rparr>"

text \<open>The result says whether the caller starts the next attempt.\<close>

definition retryClassified ::
  "config \<Rightarrow> model \<Rightarrow> nat \<Rightarrow> attempt \<Rightarrow> retry_error \<Rightarrow> stream_event list \<Rightarrow> assistant_message option
     \<Rightarrow> stop_reason \<Rightarrow> retry_state \<Rightarrow> retry_state \<times> bool" where
  "retryClassified c m n a e buffer errMessage reason st =
    (if \<not> re_Retryable e then
       (let st1 = flush buffer st in
        (if errMessage \<noteq> None then push_event (error_event reason errMessage) st1 else pushGenerated m e st1, False))
     else if int n \<ge> cfg_MaxAttempts c then
       (pushGenerated m (gave_up CodeAttemptsExhausted ''retry attempts exhausted'' n (re_Cause e)) st, False)
     else
       (let local = jitterDelay (at_rounded a (nominalDelay (cfg_BaseDelay c) (cfg_BackoffCap c) (int n)));
            delay = (if re_RetryAfter e > local then re_RetryAfter e else local) in
        if cfg_MaxDelay c > 0 \<and> delay > cfg_MaxDelay c then
          (pushGenerated m (gave_up CodeRetryDelayExceeded ''retry delay exceeds configured maximum'' n (re_Cause e)) st, False)
        else
          (let st1 = st\<lparr>rs_slept := rs_slept st @ [delay]\<rparr> in
           if at_sleep_fails a \<or> at_ctx_slept a \<noteq> None then (pushCanceled m (at_ctx_slept a) st1, False)
           else (st1, True))))"

definition retryFailure ::
  "lib \<Rightarrow> config \<Rightarrow> model \<Rightarrow> nat \<Rightarrow> attempt \<Rightarrow> assistant_message option \<Rightarrow> stop_reason
     \<Rightarrow> stream_event list \<Rightarrow> string \<Rightarrow> retry_state \<Rightarrow> retry_state \<times> bool" where
  "retryFailure l c m n a errMessage reason buffer fallback st =
    (let (message, pcode) =
           (case errMessage of None \<Rightarrow> (fallback, []) | Some e \<Rightarrow> (am_error_message e, am_error_code e))
     in retryClassified c m n a
          (Classify l \<lparr>f_Message = message, f_ProviderCode = pcode, f_StopReason = reason, f_Status = at_status a,
             f_Headers = at_headers a, f_ContextErr = at_ctx_classify a\<rparr> (at_now a))
          buffer errMessage reason st)"

definition joinProviderMessage :: "string \<Rightarrow> string \<Rightarrow> string" where
  "joinProviderMessage pcode message =
     (if trim_space message \<noteq> [] then message else ''provider failure: '' @ pcode)"

definition terminalFields :: "stream_event \<Rightarrow> string \<times> string \<times> stop_reason" where
  "terminalFields ev =
     (case ev_err ev of None \<Rightarrow> ([], [], ev_reason ev)
      | Some e \<Rightarrow> (am_error_message e, am_error_code e, ev_reason ev))"

definition interrupted_text :: string where
  "interrupted_text = ''provider stream ended without terminal event''"

text \<open>The body of the attempt: the loop over the events of the provider's stream.\<close>

fun consume ::
  "lib \<Rightarrow> config \<Rightarrow> model \<Rightarrow> nat \<Rightarrow> attempt \<Rightarrow> item list \<Rightarrow> stream_event list \<Rightarrow> bool
     \<Rightarrow> retry_state \<Rightarrow> retry_state \<times> bool" where
  "consume l c m n a [] buffer committed st =
    (if committed then
       (pushGeneratedWithMessage (\<lparr>re_Code = CodeStreamInterrupted, re_Message = interrupted_text,
          re_Retryable = False, re_RetryAfter = 0, re_Attempts = 0, re_Cause = Some interrupted_text\<rparr>)
          (rs_logical st) st, False)
     else if at_ctx_closed a \<noteq> None then (pushCanceled m (at_ctx_closed a) st, False)
     else retryClassified c m n a
       \<lparr>re_Code = CodeStreamInterrupted, re_Message = interrupted_text, re_Retryable = True,
        re_RetryAfter = retryAfterOrZero l (at_headers a) (at_now a), re_Attempts = 0,
        re_Cause = Some interrupted_text\<rparr> buffer None StopError st)"
| "consume l c m n a (CtxDone err # is) buffer committed st = (pushCanceled m (Some err) st, False)"
| "consume l c m n a (Recv event0 # is) buffer committed st =
    (let ev = copyEvent event0 in
     case ev_type ev of
       EvDone \<Rightarrow> (push_event ev (flush buffer st), False)
     | EvError \<Rightarrow>
         if committed \<or> eventHasObservableOutput ev then (push_event ev (flush buffer st), False)
         else
           (let (message, pcode, reason) = terminalFields ev in
            retryFailure l c m n a (ev_err ev) reason buffer (joinProviderMessage pcode message) st)
     | _ \<Rightarrow>
         if \<not> committed \<and> (eventObservable ev \<or> length buffer + 1 \<ge> preOutputLimit)
           then consume l c m n a is [] True (forward ev (flush buffer st))
         else if committed then consume l c m n a is buffer True (forward ev st)
         else consume l c m n a is (buffer @ [ev]) False st)"

definition run_attempt ::
  "lib \<Rightarrow> config \<Rightarrow> model \<Rightarrow> nat \<Rightarrow> attempt \<Rightarrow> retry_state \<Rightarrow> retry_state \<times> bool" where
  "run_attempt l c m n a st =
    (if at_ctx_start a \<noteq> None then (pushCanceled m (at_ctx_start a) st, False)
     else case at_stream a of
       None \<Rightarrow> retryFailure l c m n a None StopError [] ''provider stream was nil'' st
     | Some items \<Rightarrow> consume l c m n a items [] False st)"

lemma retryClassified_again:
  "snd (retryClassified c m n a e buffer errMessage reason st) \<Longrightarrow>
     int n < cfg_MaxAttempts c \<and> re_Retryable e \<and>
     (\<exists>d. fst (retryClassified c m n a e buffer errMessage reason st) = st\<lparr>rs_slept := rs_slept st @ [d]\<rparr>
        \<and> 0 \<le> d \<and> re_RetryAfter e \<le> d \<and> (0 < cfg_MaxDelay c \<longrightarrow> d \<le> cfg_MaxDelay c))"
  using jitterDelay_bounds [of "at_rounded a (nominalDelay (cfg_BaseDelay c) (cfg_BackoffCap c) (int n))"]
  by (auto simp: retryClassified_def Let_def split: if_splits)

definition pure_retry :: "config \<Rightarrow> nat \<Rightarrow> retry_state \<Rightarrow> retry_state \<Rightarrow> bool" where
  "pure_retry c n st st' \<longleftrightarrow>
     int n < cfg_MaxAttempts c \<and>
     (\<exists>d. st' = st\<lparr>rs_slept := rs_slept st @ [d]\<rparr> \<and> 0 \<le> d \<and> (0 < cfg_MaxDelay c \<longrightarrow> d \<le> cfg_MaxDelay c))"

lemma retryClassified_pure:
  "retryClassified c m n a e buffer errMessage reason st = (st', True) \<Longrightarrow> pure_retry c n st st'"
  using retryClassified_again [of c m n a e buffer errMessage reason st] by (auto simp: pure_retry_def)

lemma retryFailure_pure:
  "retryFailure l c m n a errMessage reason buffer fallback st = (st', True) \<Longrightarrow> pure_retry c n st st'"
  by (auto simp: retryFailure_def Let_def split: option.splits dest: retryClassified_pure)

lemma consume_terminal:
  "ev_type ev = EvDone \<Longrightarrow> consume l c m n a (Recv ev # is) buffer committed st =
     (push_event (copyEvent ev) (flush buffer st), False)"
  "ev_type ev = EvError \<Longrightarrow> consume l c m n a (Recv ev # is) buffer committed st =
     (if committed \<or> eventHasObservableOutput (copyEvent ev)
      then (push_event (copyEvent ev) (flush buffer st), False)
      else retryFailure l c m n a (ev_err ev) (ev_reason ev) buffer
         (case terminalFields ev of (message, pcode, reason) \<Rightarrow> joinProviderMessage pcode message) st)"
  by (simp_all add: copyEvent_def terminalFields_def Let_def split: option.splits)

lemma consume_nonterminal:
  "\<not> is_terminal ev \<Longrightarrow> consume l c m n a (Recv ev # is) buffer committed st =
     (if \<not> committed \<and> (eventObservable (copyEvent ev) \<or> length buffer + 1 \<ge> preOutputLimit)
        then consume l c m n a is [] True (forward (copyEvent ev) (flush buffer st))
      else if committed then consume l c m n a is buffer True (forward (copyEvent ev) st)
      else consume l c m n a is (buffer @ [copyEvent ev]) False st)"
  by (cases "ev_type ev") (simp_all add: is_terminal_def copyEvent_def)

declare consume.simps(3) [simp del]

lemma item_cases [case_names Nil CtxDone Done Error Event]:
  assumes "items = [] \<Longrightarrow> P" "\<And>e is. items = CtxDone e # is \<Longrightarrow> P"
    "\<And>ev is. items = Recv ev # is \<Longrightarrow> ev_type ev = EvDone \<Longrightarrow> P"
    "\<And>ev is. items = Recv ev # is \<Longrightarrow> ev_type ev = EvError \<Longrightarrow> P"
    "\<And>ev is. items = Recv ev # is \<Longrightarrow> \<not> is_terminal ev \<Longrightarrow> P"
  shows P
  using assms by (metis is_terminal_def item.exhaust list.exhaust)

lemma consume_committed: "\<not> snd (consume l c m n a items buffer True st)"
proof (induction items arbitrary: buffer st)
  case Nil
  show ?case by simp
next
  case (Cons x xs)
  show ?case
    by (cases "x # xs" rule: item_cases) (use Cons.IH in \<open>auto simp: consume_terminal consume_nonterminal\<close>)
qed

text \<open>Before the failure nothing observable was received, and too few events to fill the buffer.\<close>

fun unobserved :: "item list \<Rightarrow> bool" where
  "unobserved [] = True"
| "unobserved (CtxDone e # is) = True"
| "unobserved (Recv ev # is) =
     (if is_terminal ev then ev_type ev = EvError \<and> \<not> eventHasObservableOutput ev
      else \<not> eventObservable ev \<and> unobserved is)"

lemma observable_copy [simp]:
  "eventHasObservableOutput (copyEvent ev) = eventHasObservableOutput ev"
  "eventObservable (copyEvent ev) = eventObservable ev"
  "is_terminal (copyEvent ev) = is_terminal ev"
  "ev_type (copyEvent ev) = ev_type ev"
  by (cases "ev_type ev"; simp add: copyEvent_def eventHasObservableOutput_def eventObservable_def is_terminal_def)+

lemma consume_retry:
  "consume l c m n a items buffer False st = (st', True) \<Longrightarrow> pure_retry c n st st' \<and> unobserved items"
proof (induction items arbitrary: buffer)
  case Nil
  then show ?case by (auto split: if_splits dest: retryClassified_pure)
next
  case (Cons x xs)
  show ?case
  proof (cases "x # xs" rule: item_cases)
    case (Event ev "is")
    note step = Cons.prems [unfolded Event(1) consume_nonterminal [OF Event(2)]]
    have quiet: "\<not> (eventObservable ev \<or> length buffer + 1 \<ge> preOutputLimit)"
    proof
      assume "eventObservable ev \<or> length buffer + 1 \<ge> preOutputLimit"
      with step have "snd (consume l c m n a is [] True (forward (copyEvent ev) (flush buffer st)))" by simp
      with consume_committed show False by blast
    qed
    with step have "consume l c m n a is (buffer @ [copyEvent ev]) False st = (st', True)" by simp
    moreover from Event(1) have "is = xs" by simp
    ultimately have "pure_retry c n st st' \<and> unobserved is" using Cons.IH by blast
    with quiet Event show ?thesis by simp
  qed (use Cons.prems in \<open>auto simp: consume_terminal is_terminal_def split: if_splits dest: retryFailure_pure\<close>)
qed

lemma run_attempt_retry:
  assumes "run_attempt l c m n a st = (st', True)"
  shows "pure_retry c n st st' \<and> (\<forall>items. at_stream a = Some items \<longrightarrow> unobserved items)"
proof (cases "at_stream a")
  case None
  with assms show ?thesis by (simp add: run_attempt_def retryFailure_pure split: if_splits)
next
  case (Some items)
  with assms have "consume l c m n a items [] False st = (st', True)"
    by (simp add: run_attempt_def split: if_splits)
  from consume_retry [OF this] Some show ?thesis by simp
qed

lemma run_attempt_limit: "snd (run_attempt l c m n a st) \<Longrightarrow> int n < cfg_MaxAttempts c"
  by (cases "run_attempt l c m n a st") (auto dest!: run_attempt_retry simp: pure_retry_def)

section \<open>The loop over the attempts\<close>

text \<open>
  \<open>for attempt := 1; ; attempt++\<close>.  \<open>env n\<close> is what happens in attempt \<open>n\<close>.  Go states no bound;
  it ends because an attempt that starts another one is below \<open>MaxAttempts\<close>.
\<close>

function produce_loop ::
  "lib \<Rightarrow> config \<Rightarrow> model \<Rightarrow> (nat \<Rightarrow> attempt) \<Rightarrow> nat \<Rightarrow> retry_state \<Rightarrow> retry_state" where
  "produce_loop l c m env n st =
    (if snd (run_attempt l c m n (env n) st)
     then produce_loop l c m env (Suc n) (fst (run_attempt l c m n (env n) st))
     else fst (run_attempt l c m n (env n) st))"
  by pat_completeness auto
termination
  by (relation "measure (\<lambda>(l, c, m, env, n, st). nat (cfg_MaxAttempts c) - n)")
     (auto dest!: run_attempt_limit)

declare produce_loop.simps [simp del]

definition start_state :: "model \<Rightarrow> retry_state" where
  "start_state m = \<lparr>rs_out = [], rs_logical = NewAssistantBuilder (mo_api m) (mo_provider m) (mo_id m), rs_slept = []\<rparr>"

definition produce :: "lib \<Rightarrow> config \<Rightarrow> model \<Rightarrow> string option \<Rightarrow> (nat \<Rightarrow> attempt) \<Rightarrow> retry_state" where
  "produce l c m ctx env =
    (if ctx \<noteq> None then pushCanceled m ctx (start_state m) else produce_loop l c m env 1 (start_state m))"

text \<open>\<open>Stream\<close>: what \<open>produce\<close> pushes goes to a new assistant stream.\<close>

definition retry_Stream :: "lib \<Rightarrow> config \<Rightarrow> model \<Rightarrow> string option \<Rightarrow> (nat \<Rightarrow> attempt) \<Rightarrow> assistant_stream" where
  "retry_Stream l c m ctx env =
     foldl push_assistant (NewAssistantStream (mo_api m) (mo_provider m) (mo_id m)) (rs_out (produce l c m ctx env))"

section \<open>One terminal event, at the end\<close>

definition one_terminal :: "stream_event list \<Rightarrow> bool" where
  "one_terminal es \<longleftrightarrow> es \<noteq> [] \<and> is_terminal (last es) \<and> list_all (\<lambda>e. \<not> is_terminal e) (butlast es)"

definition extends_by :: "(stream_event list \<Rightarrow> bool) \<Rightarrow> retry_state \<Rightarrow> retry_state \<Rightarrow> bool" where
  "extends_by P st st' \<longleftrightarrow> (\<exists>es. rs_out st' = rs_out st @ es \<and> P es)"

lemma one_terminal_snoc [simp]:
  "one_terminal (es @ [t]) \<longleftrightarrow> is_terminal t \<and> list_all (\<lambda>e. \<not> is_terminal e) es"
  by (simp add: one_terminal_def)

lemma is_terminal_error_event [simp]: "is_terminal (error_event r e)"
  by (simp add: error_event_def event_def is_terminal_def)

lemma extends_push:
  "extends_by (list_all (\<lambda>e. \<not> is_terminal e)) st st' \<Longrightarrow> is_terminal t \<Longrightarrow>
   extends_by one_terminal st (push_event t st')"
  by (auto simp: extends_by_def push_event_def)

lemma extends_refl: "extends_by (list_all P) st st"
  by (simp add: extends_by_def)

lemma extends_forward:
  "extends_by (list_all (\<lambda>e. \<not> is_terminal e)) st st' \<Longrightarrow> \<not> is_terminal ev \<Longrightarrow>
   extends_by (list_all (\<lambda>e. \<not> is_terminal e)) st (forward ev st')"
  by (auto simp: extends_by_def forward_def push_event_def Let_def is_terminal_def)

lemma extends_flush:
  "extends_by (list_all (\<lambda>e. \<not> is_terminal e)) st st' \<Longrightarrow> list_all (\<lambda>e. \<not> is_terminal e) es \<Longrightarrow>
   extends_by (list_all (\<lambda>e. \<not> is_terminal e)) st (flush es st')"
  unfolding flush_def by (induction es arbitrary: st') (simp_all add: extends_forward)

lemmas extends_rules = extends_push extends_refl extends_forward extends_flush

lemma extends_generated:
  "extends_by (list_all (\<lambda>e. \<not> is_terminal e)) st st' \<Longrightarrow> extends_by one_terminal st (pushGenerated m e st')"
  "extends_by (list_all (\<lambda>e. \<not> is_terminal e)) st st' \<Longrightarrow> extends_by one_terminal st (pushCanceled m err st')"
  "extends_by (list_all (\<lambda>e. \<not> is_terminal e)) st st' \<Longrightarrow> extends_by one_terminal st (pushGeneratedWithMessage e p st')"
  by (simp_all add: pushGenerated_def pushCanceled_def pushGeneratedWithMessage_def extends_push)

lemma extends_slept [simp]: "extends_by P st (st'\<lparr>rs_slept := d\<rparr>) = extends_by P st st'"
  by (simp add: extends_by_def)

lemma retryClassified_terminal:
  "list_all (\<lambda>e. \<not> is_terminal e) buffer \<Longrightarrow> extends_by (list_all (\<lambda>e. \<not> is_terminal e)) st0 st \<Longrightarrow>
   retryClassified c m n a e buffer errMessage reason st = (st', False) \<Longrightarrow> extends_by one_terminal st0 st'"
  by (auto simp: retryClassified_def Let_def split: if_splits intro!: extends_rules extends_generated)

lemma retryFailure_terminal:
  "list_all (\<lambda>e. \<not> is_terminal e) buffer \<Longrightarrow> extends_by (list_all (\<lambda>e. \<not> is_terminal e)) st0 st \<Longrightarrow>
   retryFailure l c m n a errMessage reason buffer fallback st = (st', False) \<Longrightarrow> extends_by one_terminal st0 st'"
  by (auto simp: retryFailure_def Let_def split: option.splits intro: retryClassified_terminal)

lemma consume_one_terminal:
  "list_all (\<lambda>e. \<not> is_terminal e) buffer \<Longrightarrow> extends_by (list_all (\<lambda>e. \<not> is_terminal e)) st0 st \<Longrightarrow>
   consume l c m n a items buffer committed st = (st', False) \<Longrightarrow> extends_by one_terminal st0 st'"
proof (induction items arbitrary: buffer committed st)
  case Nil
  then show ?case by (auto split: if_splits intro: extends_generated retryClassified_terminal)
next
  case (Cons x xs)
  show ?case
  proof (cases "x # xs" rule: item_cases)
    case (Event ev "is")
    note step = Cons.prems(3) [unfolded Event(1) consume_nonterminal [OF Event(2)]]
    note nt = Event(2) Cons.prems(1,2)
    from Event(1) have xs: "is = xs" by simp
    consider "\<not> committed \<and> (eventObservable (copyEvent ev) \<or> length buffer + 1 \<ge> preOutputLimit)"
      | "committed" | "\<not> committed \<and> \<not> (eventObservable (copyEvent ev) \<or> length buffer + 1 \<ge> preOutputLimit)"
      by blast
    then show ?thesis
    proof cases
      case 1
      with step have "consume l c m n a xs [] True (forward (copyEvent ev) (flush buffer st)) = (st', False)"
        by (simp add: xs)
      then show ?thesis by (rule Cons.IH [rotated 2]) (use nt in \<open>auto intro!: extends_rules\<close>)
    next
      case 2
      with step have "consume l c m n a xs buffer True (forward (copyEvent ev) st) = (st', False)"
        by (simp add: xs)
      then show ?thesis by (rule Cons.IH [rotated 2]) (use nt in \<open>auto intro!: extends_rules\<close>)
    next
      case 3
      with step have "consume l c m n a xs (buffer @ [copyEvent ev]) False st = (st', False)"
        by (simp add: xs)
      then show ?thesis by (rule Cons.IH [rotated 2]) (use nt in \<open>auto intro!: extends_rules\<close>)
    qed
  next
    case (Done ev "is")
    with Cons.prems show ?thesis
      by (auto simp: consume_terminal is_terminal_def intro!: extends_rules)
  next
    case (Error ev "is")
    with Cons.prems show ?thesis
      by (auto simp: consume_terminal is_terminal_def split: if_splits intro!: extends_rules
          intro: retryFailure_terminal)
  qed (use Cons.prems in \<open>auto intro: extends_generated\<close>)
qed

lemma run_attempt_one_terminal:
  assumes "run_attempt l c m n a st = (st', False)" shows "extends_by one_terminal st st'"
proof (cases "at_stream a")
  case None
  with assms retryFailure_terminal [of "[]" st st] show ?thesis
    by (auto simp: run_attempt_def extends_refl extends_generated split: if_splits)
next
  case (Some items)
  with assms consume_one_terminal [of "[]" st st] show ?thesis
    by (auto simp: run_attempt_def extends_refl extends_generated split: if_splits)
qed

section \<open>What the caller sees\<close>

definition slept_state :: "model \<Rightarrow> int list \<Rightarrow> retry_state" where
  "slept_state m ds = (start_state m)\<lparr>rs_slept := ds\<rparr>"

definition delay_ok :: "config \<Rightarrow> int \<Rightarrow> bool" where
  "delay_ok c d \<longleftrightarrow> 0 \<le> d \<and> (cfg_MaxDelay c \<le> 0 \<or> d \<le> cfg_MaxDelay c)"

lemma pure_retry_slept:
  assumes "pure_retry c n (slept_state m ds) st'"
  shows "\<exists>d. st' = slept_state m (ds @ [d]) \<and> delay_ok c d \<and> int n < cfg_MaxAttempts c"
  using assms by (auto simp: pure_retry_def slept_state_def delay_ok_def)

definition silent :: "attempt \<Rightarrow> bool" where
  "silent a \<longleftrightarrow> (case at_stream a of None \<Rightarrow> True | Some items \<Rightarrow> unobserved items)"

lemma produce_loop_last_attempt:
  assumes "list_all (delay_ok c) ds"
  shows "\<exists>k ds'. n \<le> k \<and> int k \<le> max (int n) (cfg_MaxAttempts c) \<and> length ds' = length ds + (k - n)
     \<and> list_all (delay_ok c) ds' \<and> list_all (\<lambda>j. silent (env j)) [n..<k]
     \<and> run_attempt l c m k (env k) (slept_state m ds') = (produce_loop l c m env n (slept_state m ds), False)"
  using assms
proof (induction "nat (cfg_MaxAttempts c) - n" arbitrary: n ds rule: less_induct)
  case less
  obtain st' again where r: "run_attempt l c m n (env n) (slept_state m ds) = (st', again)" by fastforce
  show ?case
  proof (cases again)
    case False
    with r have "run_attempt l c m n (env n) (slept_state m ds) = (produce_loop l c m env n (slept_state m ds), False)"
      by (simp add: produce_loop.simps [of l c m env n])
    with less.prems show ?thesis by (intro exI [of _ n] exI [of _ ds]) simp
  next
    case True
    with run_attempt_retry [of l c m n "env n" "slept_state m ds" st'] r
    have "pure_retry c n (slept_state m ds) st'" by simp
    from pure_retry_slept [OF this] obtain d where
      d: "st' = slept_state m (ds @ [d])" "delay_ok c d" "int n < cfg_MaxAttempts c" by blast
    have quiet: "silent (env n)"
      using run_attempt_retry [of l c m n "env n" "slept_state m ds" st'] r True
      by (auto simp: silent_def split: option.splits)
    have step: "produce_loop l c m env n (slept_state m ds) = produce_loop l c m env (Suc n) (slept_state m (ds @ [d]))"
      using r True d(1) by (simp add: produce_loop.simps [of l c m env n])
    have "nat (cfg_MaxAttempts c) - Suc n < nat (cfg_MaxAttempts c) - n" using d(3) by linarith
    from less.hyps [OF this, of "ds @ [d]"] d(2) less.prems obtain k ds' where
      k: "Suc n \<le> k" "int k \<le> max (int (Suc n)) (cfg_MaxAttempts c)" "length ds' = length (ds @ [d]) + (k - Suc n)"
      "list_all (delay_ok c) ds'" "list_all (\<lambda>j. silent (env j)) [Suc n..<k]"
      "run_attempt l c m k (env k) (slept_state m ds')
         = (produce_loop l c m env (Suc n) (slept_state m (ds @ [d])), False)" by auto
    have "[n..<k] = n # [Suc n..<k]" using k(1) by (simp add: upt_conv_Cons)
    with k d(3) quiet step show ?thesis by (intro exI [of _ k] exI [of _ ds']) auto
  qed
qed

text \<open>C22: a stream that fails before any output is retried out of sight: the caller sees exactly what
  one attempt \<open>k\<close>, at most \<open>MaxAttempts\<close>, pushes on a fresh builder; every earlier attempt ended
  before an observable event and left no trace; and between the attempts \<open>k - 1\<close> delays were slept,
  none of them negative or above a positive \<open>MaxDelay\<close>.\<close>

theorem produce_hides_failed_attempts:
  "\<exists>k ds. 1 \<le> k \<and> int k \<le> max 1 (cfg_MaxAttempts c) \<and> length ds = k - 1
     \<and> list_all (\<lambda>d. 0 \<le> d \<and> (cfg_MaxDelay c \<le> 0 \<or> d \<le> cfg_MaxDelay c)) ds
     \<and> list_all (\<lambda>j. silent (env j)) [1..<k]
     \<and> run_attempt l c m k (env k) (slept_state m ds) = (produce l c m None env, False)"
proof -
  obtain k ds where "1 \<le> k" "int k \<le> max (int 1) (cfg_MaxAttempts c)" "length ds = length [] + (k - 1)"
    "list_all (delay_ok c) ds" "list_all (\<lambda>j. silent (env j)) [1..<k]"
    "run_attempt l c m k (env k) (slept_state m ds) = (produce_loop l c m env 1 (slept_state m []), False)"
    using produce_loop_last_attempt [of c "[]" 1 env l m] by (auto simp del: upt_Suc)
  moreover have "slept_state m [] = start_state m" by (simp add: slept_state_def start_state_def)
  ultimately show ?thesis
    by (intro exI [of _ k] exI [of _ ds]) (simp add: produce_def delay_ok_def [abs_def])
qed

lemma produce_one_terminal: "one_terminal (rs_out (produce l c m ctx env))"
proof (cases ctx)
  case None
  obtain k ds where "run_attempt l c m k (env k) (slept_state m ds) = (produce_loop l c m env 1 (slept_state m []), False)"
    using produce_loop_last_attempt [of c "[]" 1 env l m] by (auto simp del: upt_Suc)
  moreover have "slept_state m [] = start_state m" by (simp add: slept_state_def start_state_def)
  ultimately have "run_attempt l c m k (env k) (slept_state m ds) = (produce l c m ctx env, False)"
    using None by (simp add: produce_def)
  from run_attempt_one_terminal [OF this] show ?thesis
    by (auto simp: extends_by_def slept_state_def start_state_def)
next
  case (Some e)
  then show ?thesis
    using extends_generated(2) [OF extends_refl, of "start_state m" m ctx]
    by (auto simp: produce_def extends_by_def start_state_def)
qed

text \<open>C30: whatever the provider, the clock and the context do, the logical stream ends with exactly one
  terminal event, the last one; its result is the message of that event and the caller is handed
  every event that was pushed.\<close>

theorem retry_stream_one_result:
  "let out = rs_out (produce l c m ctx env); s = as_stream (retry_Stream l c m ctx env) in
     out \<noteq> [] \<and> is_terminal (last out) \<and> list_all (\<lambda>e. \<not> is_terminal e) (butlast out)
     \<and> sm_queue s = out \<and> Result s = Some (Inr (extract_result (last out)))"
proof -
  let ?out = "rs_out (produce l c m ctx env)"
  let ?a = "NewAssistantStream (mo_api m) (mo_provider m) (mo_id m)"
  have o: "?out \<noteq> []" "is_terminal (last ?out)" "list_all (\<lambda>e. \<not> is_terminal e) (butlast ?out)"
    using produce_one_terminal [of l c m ctx env] by (simp_all add: one_terminal_def)
  then have split: "foldl push_assistant ?a ?out = push_assistant (foldl push_assistant ?a (butlast ?out)) (last ?out)"
    by (metis append_butlast_last_id foldl.simps foldl_append)
  have fresh: "as_stream ?a = New None" "\<not> sm_closed (as_stream ?a)" by (simp_all add: NewAssistantStream_def New_def)
  have "as_stream (retry_Stream l c m ctx env)
      = Push is_terminal extract_result (last ?out) ((New None)\<lparr>sm_queue := butlast ?out\<rparr>)"
    using push_nonterminals [OF o(3) fresh(2)] by (simp add: retry_Stream_def split fresh(1)) (simp add: New_def)
  then have "sm_queue (as_stream (retry_Stream l c m ctx env)) = butlast ?out @ [last ?out]
      \<and> Result (as_stream (retry_Stream l c m ctx env)) = Some (Inr (extract_result (last ?out)))"
    using o(2) by (simp add: New_def stream_op_defs Let_def)
  with o show ?thesis by (simp add: Let_def)
qed

definition demo_lib :: lib where
  "demo_lib = \<lparr>parse_float = (\<lambda>_. None), rnd = Fin, parse_time = (\<lambda>_. None), ulow = id\<rparr>"

definition demo_model :: model where
  "demo_model = \<lparr>mo_id = ''m'', mo_name = ''m'', mo_api = ''a'', mo_provider = ''p'', mo_input = [],
     mo_context_window = 8, mo_max_tokens = 4\<rparr>"

definition demo_env :: "nat \<Rightarrow> attempt" where
  "demo_env n = \<lparr>at_ctx_start = None,
     at_stream = (if n = 1 then None else Some [Recv (event EvStart), Recv (event EvDone)]), at_status = 503,
     at_headers = [], at_ctx_closed = None, at_ctx_classify = None, at_now = 0, at_rounded = id,
     at_sleep_fails = False, at_ctx_slept = None\<rparr>"

theorem produce_hides_failed_attempts_witness:
  "\<exists>k ds. int k \<le> 11 \<and> length ds = k - 1
     \<and> run_attempt demo_lib DefaultConfig demo_model k (demo_env k) (slept_state demo_model ds)
       = (produce demo_lib DefaultConfig demo_model None demo_env, False)"
proof -
  have "max 1 (cfg_MaxAttempts DefaultConfig) = 11" by (simp add: DefaultConfig_def)
  with produce_hides_failed_attempts [of DefaultConfig demo_env demo_lib demo_model] show ?thesis by metis
qed

lemma demo_run: "map ev_type (rs_out (produce demo_lib DefaultConfig demo_model None demo_env)) = [EvStart, EvDone]"
  by code_simp

end
