(* ===== verification/Agent_Types.thy ===== *)
theory Agent_Types
  imports Msg_Types
begin

text \<open>
  \<open>internal/agent/types.go\<close>: the types of the agent loop, its hooks and its events.

  Hooks, tools, listeners, the clock and the context are code outside the loop with effects of
  their own.  Each is a function on a world \<open>'w\<close> that returns the changed world; a panic that the
  loop recovers is the left alternative \<^const>\<open>Inl\<close> with its text.  The state threaded through the
  loop is the world together with the log of the events emitted so far.
\<close>

section \<open>Tools\<close>

record tool_result =
  ar_content :: "content_block list"
  ar_details :: "bytes option"
  ar_terminate :: bool

text \<open>
  A running tool is a tree of atomic steps: it acts on the world, reports a partial result through
  its \<open>onUpdate\<close> callback, or returns a result, an error or a recovered panic.
\<close>

datatype 'w exec =
    Return "string + tool_result"
  | Report tool_result "'w exec"
  | Act "'w \<Rightarrow> 'w \<times> 'w exec"

definition ExecSequential :: string where "ExecSequential = ''sequential''"
definition ExecParallel :: string where "ExecParallel = ''parallel''"

record 'w agent_tool =
  at_tool :: tool
  at_label :: string
  at_prepare :: "(bytes \<Rightarrow> 'w \<Rightarrow> 'w \<times> (string + bytes)) option"
  at_execution_mode :: string
  at_execute :: "string \<Rightarrow> bytes \<Rightarrow> 'w exec"

record 'w agent_context =
  ac_system_prompt :: string
  ac_messages :: "message list"
  ac_tools :: "'w agent_tool list"

section \<open>Events\<close>

datatype agent_event =
    AgentStart
  | AgentEnd "message list"
  | TurnStart
  | TurnEnd message "tool_result_message list"
  | MessageStart message
  | MessageUpdate message stream_event
  | MessageEnd message
  | ToolExecutionStart string string bytes
  | ToolExecutionUpdate string string bytes tool_result
  | ToolExecutionEnd string string tool_result bool

section \<open>Hooks and configuration\<close>

record before_result =
  br_block :: bool
  br_reason :: string

record after_result =
  xr_content :: "content_block list option"
  xr_details :: "bytes option"
  xr_has_details :: bool
  xr_is_error :: "bool option"
  xr_terminate :: "bool option"

record 'w before_context =
  bc_assistant :: assistant_message
  bc_tool_call :: content_block
  bc_args :: bytes
  bc_context :: "'w agent_context"

record 'w after_context =
  xc_assistant :: assistant_message
  xc_tool_call :: content_block
  xc_args :: bytes
  xc_result :: tool_result
  xc_is_error :: bool
  xc_context :: "'w agent_context"

record 'w turn_context =
  tc_message :: assistant_message
  tc_tool_results :: "tool_result_message list"
  tc_context :: "'w agent_context"
  tc_new_messages :: "message list"

record 'w turn_update =
  tu_context :: "'w agent_context option"
  tu_model :: "model option"
  tu_thinking :: string

definition ThinkingOff :: string where "ThinkingOff = ''off''"

text \<open>
  \<open>config\<close> keeps of \<open>SimpleStreamOptions\<close> the fields the loop writes.  \<open>stream_response\<close> is what the
  loop reads of a provider stream: its events, and \<open>Result\<close> under the background context and under
  the run's context (an error text with whether it is a context error, or the message or nil).
\<close>

record stream_response =
  sr_events :: "stream_event list"
  sr_result :: "(string \<times> bool) + assistant_message option"
  sr_result_ctx :: "(string \<times> bool) + assistant_message option"

record request_options =
  ro_api_key :: string
  ro_reasoning :: string

record 'w config =
  lc_model :: model
  lc_options :: request_options
  lc_tool_execution :: string
  lc_convert :: "message list \<Rightarrow> 'w \<Rightarrow> 'w \<times> message list"
  lc_transform :: "(message list \<Rightarrow> 'w \<Rightarrow> 'w \<times> message list) option"
  lc_api_key :: "(string \<Rightarrow> 'w \<Rightarrow> 'w \<times> string) option"
  lc_should_stop :: "('w turn_context \<Rightarrow> 'w \<Rightarrow> 'w \<times> bool) option"
  lc_prepare_next :: "('w turn_context \<Rightarrow> 'w \<Rightarrow> 'w \<times> 'w turn_update option) option"
  lc_steering :: "('w \<Rightarrow> 'w \<times> message list) option"
  lc_follow_up :: "('w \<Rightarrow> 'w \<times> message list) option"
  lc_before :: "('w before_context \<Rightarrow> 'w \<Rightarrow> 'w \<times> (string + before_result option)) option"
  lc_after :: "('w after_context \<Rightarrow> 'w \<Rightarrow> 'w \<times> (string + after_result option)) option"

text \<open>
  The surroundings of a run: the event sink, \<open>ctx.Err() != nil\<close>, the clock, the provider's stream
  function and the argument validation of \<open>internal/engine/validate\<close>.
\<close>

record 'w env =
  en_emit :: "agent_event \<Rightarrow> 'w \<Rightarrow> 'w \<times> string option"
  en_ctx :: "'w \<Rightarrow> 'w \<times> bool"
  en_now :: "'w \<Rightarrow> 'w \<times> time_ms"
  en_stream :: "model \<Rightarrow> llm_context \<Rightarrow> request_options \<Rightarrow> 'w \<Rightarrow> 'w \<times> stream_response"
  en_validate :: "tool \<Rightarrow> content_block \<Rightarrow> string + bytes"

section \<open>The state of a run\<close>

record 'w run =
  ru_world :: 'w
  ru_log :: "agent_event list"

definition on_world :: "('w \<Rightarrow> 'w \<times> 'a) \<Rightarrow> 'w run \<Rightarrow> 'w run \<times> 'a" where
  "on_world f st = (case f (ru_world st) of (w, a) \<Rightarrow> (st\<lparr>ru_world := w\<rparr>, a))"

definition emit :: "'w env \<Rightarrow> agent_event \<Rightarrow> 'w run \<Rightarrow> 'w run \<times> string option" where
  "emit en ev st = on_world (en_emit en ev) (st\<lparr>ru_log := ru_log st @ [ev]\<rparr>)"

text \<open>Two emits in a row, the second only when the first succeeds.\<close>

definition emit2 :: "'w env \<Rightarrow> agent_event \<Rightarrow> agent_event \<Rightarrow> 'w run \<Rightarrow> 'w run \<times> string option" where
  "emit2 en e1 e2 st =
     (case emit en e1 st of (st1, Some err) \<Rightarrow> (st1, Some err) | (st1, None) \<Rightarrow> emit en e2 st1)"

lemma on_world_log: "on_world f st = (st', a) \<Longrightarrow> ru_log st' = ru_log st"
  by (auto simp: on_world_def split: prod.splits)

lemma emit_log: "emit en ev st = (st', err) \<Longrightarrow> ru_log st' = ru_log st @ [ev]"
  by (auto simp: emit_def dest: on_world_log)

lemma emit2_log: "emit2 en e1 e2 st = (st', None) \<Longrightarrow> ru_log st' = ru_log st @ [e1, e2]"
  by (auto simp: emit2_def dest!: emit_log split: prod.splits option.splits)

section \<open>Logs of a phase\<close>

text \<open>
  What an operation appends to the log, seen through a filter: \<open>seen f\<close> collects what \<open>f\<close> extracts
  from the events.  The operations below only append.
\<close>

definition log_since :: "'w run \<Rightarrow> 'w run \<Rightarrow> agent_event list" where
  "log_since st st' = drop (length (ru_log st)) (ru_log st')"

definition appends :: "'w run \<Rightarrow> 'w run \<Rightarrow> bool" where
  "appends st st' \<longleftrightarrow> prefix (ru_log st) (ru_log st')"

fun message_ended :: "agent_event \<Rightarrow> message option" where
  "message_ended (MessageEnd m) = Some m"
| "message_ended _ = None"

fun tool_started :: "agent_event \<Rightarrow> string option" where
  "tool_started (ToolExecutionStart i n a) = Some i"
| "tool_started _ = None"

fun tool_ended :: "agent_event \<Rightarrow> string option" where
  "tool_ended (ToolExecutionEnd i n r e) = Some i"
| "tool_ended _ = None"

definition ended :: "agent_event list \<Rightarrow> message list" where
  "ended evs = List.map_filter message_ended evs"

lemma ended_simps [simp]:
  "ended [] = []"
  "ended (ev # evs) = (case message_ended ev of None \<Rightarrow> [] | Some m \<Rightarrow> [m]) @ ended evs"
  "ended (as @ bs) = ended as @ ended bs"
  by (auto simp: ended_def map_filter_def split: option.splits)

fun is_agent_end :: "agent_event \<Rightarrow> bool" where
  "is_agent_end (AgentEnd ms) = True"
| "is_agent_end _ = False"

definition no_end :: "agent_event list \<Rightarrow> bool" where
  "no_end evs \<longleftrightarrow> \<not> list_ex is_agent_end evs"

lemma no_end_simps [simp]:
  "no_end []" "no_end (ev # evs) \<longleftrightarrow> \<not> is_agent_end ev \<and> no_end evs"
  "no_end (as @ bs) \<longleftrightarrow> no_end as \<and> no_end bs"
  by (auto simp: no_end_def)

lemma appends_refl [simp]: "appends st st"
  by (simp add: appends_def)

lemma appends_trans: "appends a b \<Longrightarrow> appends b c \<Longrightarrow> appends a c"
  by (auto simp: appends_def)

lemma log_since_same [simp]: "ru_log st' = ru_log st @ evs \<Longrightarrow> log_since st st' = evs"
  by (simp add: log_since_def)

end
