(* ===== verification/Agent_Executor.thy ===== *)
theory Agent_Executor
  imports Agent_Types
begin

text \<open>
  \<open>internal/agent/executor.go\<close>: the tool calls of one assistant message, run one after the other or
  in parallel.  The parallel goroutines are tasks whose atomic steps are interleaved by a schedule,
  a list of task numbers; the emit mutex makes every emit one step.  \<open>wg.Wait\<close> returns when all
  tasks have finished, so a schedule that leaves one running gives \<^const>\<open>None\<close>.  A tool that
  calls \<open>onUpdate\<close> from a goroutine of its own is not modelled, nor are the log lines.
\<close>

section \<open>Preparing, executing and finalising one call\<close>

record 'w prepared_call =
  pc_tool_call :: content_block
  pc_tool :: "'w agent_tool"
  pc_args :: bytes

record finalized =
  fi_tool_call :: content_block
  fi_result :: tool_result
  fi_is_error :: bool

record batch =
  ba_messages :: "tool_result_message list"
  ba_terminate :: bool

definition createErrorToolResult :: "string \<Rightarrow> tool_result" where
  "createErrorToolResult message = \<lparr>ar_content = [NewText message], ar_details = None, ar_terminate = False\<rparr>"

definition prepareToolCallArguments ::
  "'w agent_tool \<Rightarrow> content_block \<Rightarrow> 'w run \<Rightarrow> 'w run \<times> (string + content_block)" where
  "prepareToolCallArguments t call st =
    (case at_prepare t of
       None \<Rightarrow> (st, Inr call)
     | Some f \<Rightarrow>
        (case on_world (f (cb_arguments call)) st of
           (st1, Inl panic) \<Rightarrow> (st1, Inl panic)
         | (st1, Inr args) \<Rightarrow>
             (st1, Inr (if args = cb_arguments call then call else call\<lparr>cb_arguments := args\<rparr>))))"

text \<open>The last check for a cancelled context, then the prepared call.\<close>

definition ready_call ::
  "'w env \<Rightarrow> content_block \<Rightarrow> 'w agent_tool \<Rightarrow> bytes \<Rightarrow> 'w run \<Rightarrow> 'w run \<times> (string + 'w prepared_call)" where
  "ready_call en call t args st =
    (case on_world (en_ctx en) st of
       (st1, cancelled) \<Rightarrow>
         (st1, if cancelled then Inl ''Operation aborted''
               else Inr \<lparr>pc_tool_call = call, pc_tool = t, pc_args = args\<rparr>))"

text \<open>The \<open>BeforeToolCall\<close> gate.\<close>

definition before_gate ::
  "'w env \<Rightarrow> 'w config \<Rightarrow> 'w agent_context \<Rightarrow> assistant_message \<Rightarrow> content_block \<Rightarrow> 'w agent_tool \<Rightarrow> bytes \<Rightarrow> 'w run
     \<Rightarrow> 'w run \<times> (string + 'w prepared_call)" where
  "before_gate en cfg cx am call t args st =
    (case lc_before cfg of
       None \<Rightarrow> ready_call en call t args st
     | Some hook \<Rightarrow>
        (case on_world (hook \<lparr>bc_assistant = am, bc_tool_call = call, bc_args = args, bc_context = cx\<rparr>) st of
           (st1, Inl panic) \<Rightarrow> (st1, Inl panic)
         | (st1, Inr before) \<Rightarrow>
            (case on_world (en_ctx en) st1 of
               (st2, cancelled) \<Rightarrow>
                 if cancelled then (st2, Inl ''Operation aborted'')
                 else (case before of
                         None \<Rightarrow> ready_call en call t args st2
                       | Some b \<Rightarrow>
                           if br_block b
                           then (st2, Inl (if br_reason b = [] then ''Tool execution was blocked'' else br_reason b))
                           else ready_call en call t args st2))))"

text \<open>The call proper, after the tool was found: the text of an error result, or the prepared call.\<close>

definition gate_call ::
  "'w env \<Rightarrow> 'w config \<Rightarrow> 'w agent_context \<Rightarrow> assistant_message \<Rightarrow> content_block \<Rightarrow> 'w agent_tool \<Rightarrow> 'w run
     \<Rightarrow> 'w run \<times> (string + 'w prepared_call)" where
  "gate_call en cfg cx am call t st =
    (case prepareToolCallArguments t call st of
       (st1, Inl panic) \<Rightarrow> (st1, Inl panic)
     | (st1, Inr prepared) \<Rightarrow>
        (case en_validate en (at_tool t)
                (if cb_arguments prepared = [] then prepared\<lparr>cb_arguments := ''{}''\<rparr> else prepared) of
           Inl err \<Rightarrow> (st1, Inl err)
         | Inr args \<Rightarrow> before_gate en cfg cx am call t args st1))"

definition find_tool :: "'w agent_context \<Rightarrow> string \<Rightarrow> 'w agent_tool option" where
  "find_tool cx name = find (\<lambda>t. to_name (at_tool t) = name) (ac_tools cx)"

text \<open>Every immediate outcome of \<open>prepareToolCall\<close> is an error result.\<close>

definition prepareToolCall ::
  "'w env \<Rightarrow> 'w config \<Rightarrow> 'w agent_context \<Rightarrow> assistant_message \<Rightarrow> content_block \<Rightarrow> 'w run
     \<Rightarrow> 'w run \<times> (finalized + 'w prepared_call)" where
  "prepareToolCall en cfg cx am call st =
    (let immediate = (\<lambda>msg. \<lparr>fi_tool_call = call, fi_result = createErrorToolResult msg, fi_is_error = True\<rparr>) in
     case find_tool cx (cb_name call) of
       None \<Rightarrow> (st, Inl (immediate (''Tool '' @ cb_name call @ '' not found'')))
     | Some t \<Rightarrow>
        (case gate_call en cfg cx am call t st of
           (st1, Inl msg) \<Rightarrow> (st1, Inl (immediate msg))
         | (st1, Inr p) \<Rightarrow> (st1, Inr p)))"

text \<open>\<open>updateErr\<close> keeps the first error of an update.\<close>

definition report ::
  "'w env \<Rightarrow> content_block \<Rightarrow> tool_result \<Rightarrow> string option \<Rightarrow> 'w run \<Rightarrow> 'w run \<times> string option" where
  "report en call partial err st =
    (case emit en (ToolExecutionUpdate (cb_id call) (cb_name call) (cb_arguments call) partial) st of
       (st1, e) \<Rightarrow> (st1, if err = None then e else err))"

primrec run_exec ::
  "'w env \<Rightarrow> content_block \<Rightarrow> 'w exec \<Rightarrow> string option \<Rightarrow> 'w run \<Rightarrow> 'w run \<times> (string + tool_result) \<times> string option"
where
  "run_exec en call (Return r) = (\<lambda>err st. (st, r, err))"
| "run_exec en call (Report partial k) =
     (\<lambda>err st. case report en call partial err st of (st1, err1) \<Rightarrow> run_exec en call k err1 st1)"
| "run_exec en call (Act f) =
     (\<lambda>err st. case map_prod id (run_exec en call) (f (ru_world st)) of (w, go) \<Rightarrow> go err (st\<lparr>ru_world := w\<rparr>))"

definition executed_outcome :: "string + tool_result \<Rightarrow> string option \<Rightarrow> tool_result \<times> bool" where
  "executed_outcome r updateErr =
    (case r of
       Inl err \<Rightarrow> (createErrorToolResult err, True)
     | Inr res \<Rightarrow> (case updateErr of Some err \<Rightarrow> (createErrorToolResult err, True) | None \<Rightarrow> (res, False)))"

definition executePreparedToolCall ::
  "'w env \<Rightarrow> 'w prepared_call \<Rightarrow> 'w run \<Rightarrow> 'w run \<times> tool_result \<times> bool" where
  "executePreparedToolCall en p st =
    (case run_exec en (pc_tool_call p) (at_execute (pc_tool p) (cb_id (pc_tool_call p)) (pc_args p)) None st of
       (st1, r, updateErr) \<Rightarrow> (st1, executed_outcome r updateErr))"

definition override :: "after_result \<Rightarrow> tool_result \<times> bool \<Rightarrow> tool_result \<times> bool" where
  "override x rb =
    (let r = fst rb;
         r1 = (case xr_content x of Some c \<Rightarrow> r\<lparr>ar_content := c\<rparr> | None \<Rightarrow> r);
         r2 = (if xr_has_details x then r1\<lparr>ar_details := xr_details x\<rparr> else r1);
         r3 = (case xr_terminate x of Some t \<Rightarrow> r2\<lparr>ar_terminate := t\<rparr> | None \<Rightarrow> r2)
     in (r3, case xr_is_error x of Some e \<Rightarrow> e | None \<Rightarrow> snd rb))"

definition finalizeExecutedToolCall ::
  "'w config \<Rightarrow> 'w agent_context \<Rightarrow> assistant_message \<Rightarrow> 'w prepared_call \<Rightarrow> tool_result \<times> bool \<Rightarrow> 'w run
     \<Rightarrow> 'w run \<times> finalized" where
  "finalizeExecutedToolCall cfg cx am p executed st =
    (let mk = (\<lambda>rb. \<lparr>fi_tool_call = pc_tool_call p, fi_result = fst rb, fi_is_error = snd rb\<rparr>) in
     case lc_after cfg of
       None \<Rightarrow> (st, mk executed)
     | Some hook \<Rightarrow>
        (case on_world (hook \<lparr>xc_assistant = am, xc_tool_call = pc_tool_call p, xc_args = pc_args p,
                 xc_result = fst executed, xc_is_error = snd executed, xc_context = cx\<rparr>) st of
           (st1, Inl panic) \<Rightarrow> (st1, mk (createErrorToolResult panic, True))
         | (st1, Inr None) \<Rightarrow> (st1, mk executed)
         | (st1, Inr (Some x)) \<Rightarrow> (st1, mk (override x executed))))"

definition emitToolExecutionEnd :: "'w env \<Rightarrow> finalized \<Rightarrow> 'w run \<Rightarrow> 'w run \<times> string option" where
  "emitToolExecutionEnd en f st =
     emit en (ToolExecutionEnd (cb_id (fi_tool_call f)) (cb_name (fi_tool_call f)) (fi_result f) (fi_is_error f)) st"

definition createToolResultMessage :: "'w env \<Rightarrow> finalized \<Rightarrow> 'w run \<Rightarrow> 'w run \<times> tool_result_message" where
  "createToolResultMessage en f st =
    (case on_world (en_now en) st of
       (st1, now) \<Rightarrow>
         (st1, \<lparr>tr_tool_call_id = cb_id (fi_tool_call f), tr_tool_name = cb_name (fi_tool_call f),
                tr_content = ar_content (fi_result f), tr_details = ar_details (fi_result f),
                tr_is_error = fi_is_error f, tr_timestamp = now\<rparr>))"

definition emitToolResultMessage :: "'w env \<Rightarrow> tool_result_message \<Rightarrow> 'w run \<Rightarrow> 'w run \<times> string option" where
  "emitToolResultMessage en m st =
     emit2 en (MessageStart (ToolResultMessage m)) (MessageEnd (ToolResultMessage m)) st"

definition shouldTerminateToolBatch :: "finalized list \<Rightarrow> bool" where
  "shouldTerminateToolBatch fs \<longleftrightarrow> fs \<noteq> [] \<and> list_all (\<lambda>f. ar_terminate (fi_result f)) fs"

text \<open>\<open>createToolResultMessage\<close> and the two emits, as both modes do them.\<close>

definition answer :: "'w env \<Rightarrow> finalized \<Rightarrow> 'w run \<Rightarrow> 'w run \<times> (string + tool_result_message)" where
  "answer en f st =
    (case createToolResultMessage en f st of
       (st1, m) \<Rightarrow>
         (case emitToolResultMessage en m st1 of
            (st2, Some err) \<Rightarrow> (st2, Inl err)
          | (st2, None) \<Rightarrow> (st2, Inr m)))"

section \<open>Sequential execution\<close>

definition run_one ::
  "'w env \<Rightarrow> 'w config \<Rightarrow> 'w agent_context \<Rightarrow> assistant_message \<Rightarrow> content_block \<Rightarrow> 'w run \<Rightarrow> 'w run \<times> finalized" where
  "run_one en cfg cx am call st =
    (case prepareToolCall en cfg cx am call st of
       (st1, Inl f) \<Rightarrow> (st1, f)
     | (st1, Inr p) \<Rightarrow>
        (case executePreparedToolCall en p st1 of
           (st2, executed) \<Rightarrow> finalizeExecutedToolCall cfg cx am p executed st2))"

fun seq_loop ::
  "'w env \<Rightarrow> 'w config \<Rightarrow> 'w agent_context \<Rightarrow> assistant_message \<Rightarrow> content_block list
     \<Rightarrow> finalized list \<Rightarrow> tool_result_message list \<Rightarrow> 'w run \<Rightarrow> 'w run \<times> (string + batch)" where
  "seq_loop en cfg cx am [] fs ms st =
     (st, Inr \<lparr>ba_messages = ms, ba_terminate = shouldTerminateToolBatch fs\<rparr>)"
| "seq_loop en cfg cx am (call # calls) fs ms st =
    (case emit en (ToolExecutionStart (cb_id call) (cb_name call) (cb_arguments call)) st of
       (st1, Some err) \<Rightarrow> (st1, Inl err)
     | (st1, None) \<Rightarrow>
        (case run_one en cfg cx am call st1 of
           (st2, f) \<Rightarrow>
            (case emitToolExecutionEnd en f st2 of
               (st3, Some err) \<Rightarrow> (st3, Inl err)
             | (st3, None) \<Rightarrow>
                (case answer en f st3 of
                   (st4, Inl err) \<Rightarrow> (st4, Inl err)
                 | (st4, Inr m) \<Rightarrow>
                    (case on_world (en_ctx en) st4 of
                       (st5, True) \<Rightarrow>
                         (st5, Inr \<lparr>ba_messages = ms @ [m], ba_terminate = shouldTerminateToolBatch (fs @ [f])\<rparr>)
                     | (st5, False) \<Rightarrow> seq_loop en cfg cx am calls (fs @ [f]) (ms @ [m]) st5)))))"

definition executeToolCallsSequential ::
  "'w env \<Rightarrow> 'w config \<Rightarrow> 'w agent_context \<Rightarrow> assistant_message \<Rightarrow> content_block list \<Rightarrow> 'w run
     \<Rightarrow> 'w run \<times> (string + batch)" where
  "executeToolCallsSequential en cfg cx am calls st = seq_loop en cfg cx am calls [] [] st"

section \<open>Parallel execution\<close>

text \<open>
  \<open>Settled\<close> is a call that was answered while preparing (\<open>isPending[i]\<close> is false), \<open>Running\<close> a
  goroutine inside \<open>Execute\<close>, \<open>Ending\<close> one that has written its slot and not yet emitted the end.
\<close>

datatype 'w task =
    Settled
  | Running "'w prepared_call" "'w exec" "string option"
  | Ending finalized
  | Finished

record 'w par_state =
  pa_run :: "'w run"
  pa_tasks :: "'w task list"
  pa_slots :: "finalized list"
  pa_err :: "string option"

definition zero_finalized :: finalized where
  "zero_finalized = \<lparr>fi_tool_call = empty_block (BlockOther []),
     fi_result = \<lparr>ar_content = [], ar_details = None, ar_terminate = False\<rparr>, fi_is_error = False\<rparr>"

definition spawn :: "'w prepared_call \<Rightarrow> 'w task" where
  "spawn p = Running p (at_execute (pc_tool p) (cb_id (pc_tool_call p)) (pc_args p)) None"

text \<open>
  The preparing loop.  The tasks and slots grow with \<open>reached\<close>; a goroutine starts running only
  after the loop, and its slot holds the zero value until then.
\<close>

fun prepare_loop ::
  "'w env \<Rightarrow> 'w config \<Rightarrow> 'w agent_context \<Rightarrow> assistant_message \<Rightarrow> content_block list
     \<Rightarrow> 'w task list \<Rightarrow> finalized list \<Rightarrow> 'w run \<Rightarrow> 'w run \<times> (string + 'w task list \<times> finalized list)" where
  "prepare_loop en cfg cx am [] tasks slots st = (st, Inr (tasks, slots))"
| "prepare_loop en cfg cx am (call # calls) tasks slots st =
    (case emit en (ToolExecutionStart (cb_id call) (cb_name call) (cb_arguments call)) st of
       (st1, Some err) \<Rightarrow> (st1, Inl err)
     | (st1, None) \<Rightarrow>
        (case prepareToolCall en cfg cx am call st1 of
           (st2, Inl f) \<Rightarrow>
            (case emitToolExecutionEnd en f st2 of
               (st3, Some err) \<Rightarrow> (st3, Inl err)
             | (st3, None) \<Rightarrow>
                (case on_world (en_ctx en) st3 of
                   (st4, True) \<Rightarrow> (st4, Inr (tasks @ [Settled], slots @ [f]))
                 | (st4, False) \<Rightarrow> prepare_loop en cfg cx am calls (tasks @ [Settled]) (slots @ [f]) st4))
         | (st2, Inr p) \<Rightarrow>
            (case on_world (en_ctx en) st2 of
               (st3, True) \<Rightarrow> (st3, Inr (tasks @ [spawn p], slots @ [zero_finalized]))
             | (st3, False) \<Rightarrow>
                 prepare_loop en cfg cx am calls (tasks @ [spawn p]) (slots @ [zero_finalized]) st3)))"

definition task_step ::
  "'w env \<Rightarrow> 'w config \<Rightarrow> 'w agent_context \<Rightarrow> assistant_message \<Rightarrow> nat \<Rightarrow> 'w par_state \<Rightarrow> 'w par_state" where
  "task_step en cfg cx am i ps =
    (if i < length (pa_tasks ps) then
       (case pa_tasks ps ! i of
          Running p ex err \<Rightarrow>
            (case ex of
               Return r \<Rightarrow>
                 (case finalizeExecutedToolCall cfg cx am p (executed_outcome r err) (pa_run ps) of
                    (st, f) \<Rightarrow> ps\<lparr>pa_run := st, pa_tasks := (pa_tasks ps)[i := Ending f],
                                 pa_slots := (pa_slots ps)[i := f]\<rparr>)
             | Report partial k \<Rightarrow>
                 (case report en (pc_tool_call p) partial err (pa_run ps) of
                    (st, err1) \<Rightarrow> ps\<lparr>pa_run := st, pa_tasks := (pa_tasks ps)[i := Running p k err1]\<rparr>)
             | Act g \<Rightarrow>
                 (case on_world g (pa_run ps) of
                    (st, k) \<Rightarrow> ps\<lparr>pa_run := st, pa_tasks := (pa_tasks ps)[i := Running p k err]\<rparr>))
        | Ending f \<Rightarrow>
            (case emitToolExecutionEnd en f (pa_run ps) of
               (st, e) \<Rightarrow> ps\<lparr>pa_run := st, pa_tasks := (pa_tasks ps)[i := Finished],
                            pa_err := (if pa_err ps = None then e else pa_err ps)\<rparr>)
        | Settled \<Rightarrow> ps
        | Finished \<Rightarrow> ps)
     else ps)"

definition run_schedule ::
  "'w env \<Rightarrow> 'w config \<Rightarrow> 'w agent_context \<Rightarrow> assistant_message \<Rightarrow> nat list \<Rightarrow> 'w par_state \<Rightarrow> 'w par_state" where
  "run_schedule en cfg cx am sched ps = fold (task_step en cfg cx am) sched ps"

definition waited :: "'w par_state \<Rightarrow> bool" where
  "waited ps = list_all (\<lambda>t. case t of Settled \<Rightarrow> True | Finished \<Rightarrow> True | _ \<Rightarrow> False) (pa_tasks ps)"

fun answer_loop ::
  "'w env \<Rightarrow> finalized list \<Rightarrow> tool_result_message list \<Rightarrow> 'w run \<Rightarrow> 'w run \<times> (string + tool_result_message list)" where
  "answer_loop en [] ms st = (st, Inr ms)"
| "answer_loop en (f # fs) ms st =
    (case answer en f st of
       (st1, Inl err) \<Rightarrow> (st1, Inl err)
     | (st1, Inr m) \<Rightarrow> answer_loop en fs (ms @ [m]) st1)"

definition executeToolCallsParallel ::
  "'w env \<Rightarrow> 'w config \<Rightarrow> 'w agent_context \<Rightarrow> assistant_message \<Rightarrow> content_block list \<Rightarrow> nat list \<Rightarrow> 'w run
     \<Rightarrow> ('w run \<times> (string + batch)) option" where
  "executeToolCallsParallel en cfg cx am calls sched st =
    (case prepare_loop en cfg cx am calls [] [] st of
       (st1, Inl err) \<Rightarrow> Some (st1, Inl err)
     | (st1, Inr (tasks, slots)) \<Rightarrow>
        (let ps = run_schedule en cfg cx am sched
                    \<lparr>pa_run = st1, pa_tasks = tasks, pa_slots = slots, pa_err = None\<rparr> in
         if \<not> waited ps then None
         else case pa_err ps of
                Some err \<Rightarrow> Some (pa_run ps, Inl err)
              | None \<Rightarrow>
                 (case answer_loop en (pa_slots ps) [] (pa_run ps) of
                    (st2, Inl err) \<Rightarrow> Some (st2, Inl err)
                  | (st2, Inr ms) \<Rightarrow>
                      Some (st2, Inr \<lparr>ba_messages = ms, ba_terminate = shouldTerminateToolBatch (pa_slots ps)\<rparr>))))"

section \<open>Dispatch\<close>

definition hasSequentialToolCall :: "'w agent_context \<Rightarrow> content_block list \<Rightarrow> bool" where
  "hasSequentialToolCall cx calls =
     list_ex (\<lambda>call. list_ex (\<lambda>t. to_name (at_tool t) = cb_name call \<and> at_execution_mode t = ExecSequential)
       (ac_tools cx)) calls"

definition executeToolCalls ::
  "'w env \<Rightarrow> 'w config \<Rightarrow> 'w agent_context \<Rightarrow> assistant_message \<Rightarrow> nat list \<Rightarrow> 'w run
     \<Rightarrow> ('w run \<times> (string + batch)) option" where
  "executeToolCalls en cfg cx am sched st =
    (let calls = tool_calls_of am in
     if lc_tool_execution cfg = ExecSequential \<or> hasSequentialToolCall cx calls
     then Some (executeToolCallsSequential en cfg cx am calls st)
     else executeToolCallsParallel en cfg cx am calls sched st)"

section \<open>What each step appends to the log\<close>

definition only_updates :: "agent_event list \<Rightarrow> bool" where
  "only_updates evs = list_all (\<lambda>ev. case ev of ToolExecutionUpdate _ _ _ _ \<Rightarrow> True | _ \<Rightarrow> False) evs"

lemma only_updates_quiet:
  "only_updates evs \<Longrightarrow> ended evs = [] \<and> List.map_filter tool_started evs = [] \<and> no_end evs"
  by (induction evs) (auto simp: only_updates_def map_filter_simps split: agent_event.splits)

lemma report_log:
  "report en call partial err st = (st', e) \<Longrightarrow> \<exists>evs. ru_log st' = ru_log st @ evs \<and> only_updates evs"
  by (auto simp: report_def only_updates_def dest!: emit_log split: prod.splits)

lemma run_exec_log:
  "run_exec en call ex err st = (st', r) \<Longrightarrow> \<exists>evs. ru_log st' = ru_log st @ evs \<and> only_updates evs"
proof (induction ex arbitrary: err st)
  case (Return x)
  then show ?case by (intro exI [of _ "[]"]) (simp add: only_updates_def)
next
  case (Report partial k)
  obtain st1 e1 where rep: "report en call partial err st = (st1, e1)" by fastforce
  with Report.prems have "run_exec en call k e1 st1 = (st', r)" by simp
  from Report.IH [OF this] obtain evs where "ru_log st' = ru_log st1 @ evs" "only_updates evs" by blast
  moreover from report_log [OF rep] obtain evs1 where "ru_log st1 = ru_log st @ evs1" "only_updates evs1" by blast
  ultimately show ?case by (intro exI [of _ "evs1 @ evs"]) (simp add: only_updates_def)
next
  case (Act f)
  obtain w k where f: "f (ru_world st) = (w, k)" by fastforce
  with Act.prems have run: "run_exec en call k err (st\<lparr>ru_world := w\<rparr>) = (st', r)" by simp
  have "\<exists>evs. ru_log st' = ru_log (st\<lparr>ru_world := w\<rparr>) @ evs \<and> only_updates evs"
    by (rule Act.IH [OF _ _ run]) (use f in \<open>auto simp: snds.simps intro: range_eqI [of _ _ "ru_world st"]\<close>)
  then show ?case by simp
qed

lemma prepare_arguments_log:
  "prepareToolCallArguments t call st = (st', r) \<Longrightarrow> ru_log st' = ru_log st"
  by (auto simp: prepareToolCallArguments_def dest: on_world_log split: option.splits prod.splits sum.splits)

lemma ready_call_facts:
  "ready_call en call t args st = (st', r) \<Longrightarrow>
     ru_log st' = ru_log st \<and> (\<forall>p. r = Inr p \<longrightarrow> p = \<lparr>pc_tool_call = call, pc_tool = t, pc_args = args\<rparr>
       \<and> (\<exists>w. \<not> snd (en_ctx en w)))"
  by (auto simp: ready_call_def on_world_def split: prod.splits if_splits) (metis snd_conv)

text \<open>Why a call was let through: the context was not cancelled and the hook did not block it.\<close>

definition let_through ::
  "'w env \<Rightarrow> 'w config \<Rightarrow> 'w agent_context \<Rightarrow> assistant_message \<Rightarrow> content_block \<Rightarrow> bytes \<Rightarrow> bool" where
  "let_through en cfg cx am call args \<longleftrightarrow> (\<exists>w. \<not> snd (en_ctx en w)) \<and>
     (case lc_before cfg of None \<Rightarrow> True
      | Some hook \<Rightarrow> (\<exists>w w' b. hook \<lparr>bc_assistant = am, bc_tool_call = call, bc_args = args, bc_context = cx\<rparr> w = (w', Inr b)
            \<and> (case b of None \<Rightarrow> True | Some br \<Rightarrow> \<not> br_block br)))"

lemma before_gate_facts:
  assumes "before_gate en cfg cx am call t args st = (st', r)"
  shows "ru_log st' = ru_log st \<and> (\<forall>p. r = Inr p \<longrightarrow> p = \<lparr>pc_tool_call = call, pc_tool = t, pc_args = args\<rparr>
      \<and> let_through en cfg cx am call args)"
proof (cases "lc_before cfg")
  case None
  with assms ready_call_facts [of en call t args st st' r] show ?thesis by (auto simp: before_gate_def let_through_def)
next
  case (Some hook)
  obtain w r1 where h: "hook \<lparr>bc_assistant = am, bc_tool_call = call, bc_args = args, bc_context = cx\<rparr> (ru_world st) = (w, r1)"
    by fastforce
  obtain st2 c where c: "on_world (en_ctx en) (st\<lparr>ru_world := w\<rparr>) = (st2, c)" by fastforce
  note log2 = on_world_log [OF c]
  show ?thesis
  proof (cases r1)
    case (Inl e)
    with assms Some h show ?thesis by (auto simp: before_gate_def on_world_def)
  next
    case (Inr before)
    show ?thesis
    proof (cases "c \<or> (\<exists>b. before = Some b \<and> br_block b)")
      case True
      with assms Some h c Inr log2 show ?thesis
        by (auto simp: before_gate_def on_world_def [of "hook x" for x] split: if_splits option.splits)
    next
      case False
      with assms Some h c Inr have "ready_call en call t args st2 = (st', r)"
        by (auto simp: before_gate_def on_world_def [of "hook x" for x] split: if_splits option.splits)
      moreover have "case before of None \<Rightarrow> True | Some br \<Rightarrow> \<not> br_block br" using False by (auto split: option.splits)
      with h Inr have "\<exists>w w' b. hook \<lparr>bc_assistant = am, bc_tool_call = call, bc_args = args, bc_context = cx\<rparr> w = (w', Inr b)
          \<and> (case b of None \<Rightarrow> True | Some br \<Rightarrow> \<not> br_block br)" by blast
      ultimately show ?thesis using ready_call_facts [of en call t args st2 st' r] log2 Some
        by (simp add: let_through_def)
    qed
  qed
qed

lemma gate_call_facts:
  assumes "gate_call en cfg cx am call t st = (st', r)"
  shows "ru_log st' = ru_log st \<and> (\<forall>p. r = Inr p \<longrightarrow> pc_tool_call p = call \<and> pc_tool p = t
      \<and> (\<exists>prepared. en_validate en (at_tool t) prepared = Inr (pc_args p)) \<and> let_through en cfg cx am call (pc_args p))"
proof -
  obtain st1 r1 where pa: "prepareToolCallArguments t call st = (st1, r1)" by fastforce
  show ?thesis
  proof (cases r1)
    case (Inl e)
    with assms pa prepare_arguments_log [OF pa] show ?thesis by (auto simp: gate_call_def)
  next
    case (Inr prepared)
    let ?p = "if cb_arguments prepared = [] then prepared\<lparr>cb_arguments := ''{}''\<rparr> else prepared"
    show ?thesis
    proof (cases "en_validate en (at_tool t) ?p")
      case (Inl e)
      with assms pa Inr prepare_arguments_log [OF pa] show ?thesis by (auto simp: gate_call_def)
    next
      case v: (Inr args)
      with assms pa Inr have "before_gate en cfg cx am call t args st1 = (st', r)" by (simp add: gate_call_def)
      from before_gate_facts [OF this] prepare_arguments_log [OF pa] v show ?thesis by auto
    qed
  qed
qed

lemma prepareToolCall_facts:
  assumes "prepareToolCall en cfg cx am call st = (st', r)"
  shows "ru_log st' = ru_log st"
    and "r = Inl f \<Longrightarrow> fi_tool_call f = call \<and> fi_is_error f"
    and "r = Inr p \<Longrightarrow> pc_tool_call p = call \<and> find_tool cx (cb_name call) = Some (pc_tool p)
      \<and> (\<exists>prepared. en_validate en (at_tool (pc_tool p)) prepared = Inr (pc_args p))
      \<and> let_through en cfg cx am call (pc_args p)"
  using assms
  by (auto simp: prepareToolCall_def Let_def dest!: gate_call_facts
      split: option.splits prod.splits sum.splits)

lemma finalize_facts:
  "finalizeExecutedToolCall cfg cx am p executed st = (st', f) \<Longrightarrow>
     ru_log st' = ru_log st \<and> fi_tool_call f = pc_tool_call p"
  by (auto simp: finalizeExecutedToolCall_def Let_def dest: on_world_log
      split: option.splits prod.splits sum.splits)

lemma run_one_facts:
  assumes "run_one en cfg cx am call st = (st', f)"
  shows "fi_tool_call f = call \<and> (\<exists>evs. ru_log st' = ru_log st @ evs \<and> only_updates evs)"
proof -
  obtain st1 r where prep: "prepareToolCall en cfg cx am call st = (st1, r)" by fastforce
  show ?thesis
  proof (cases r)
    case (Inl g)
    with assms prep have "f = g" "st' = st1" by (simp_all add: run_one_def)
    with prepareToolCall_facts(1) [OF prep] prepareToolCall_facts(2) [OF prep Inl] show ?thesis
      by (simp add: only_updates_def)
  next
    case (Inr p)
    obtain st2 x where ex: "executePreparedToolCall en p st1 = (st2, x)" by (metis surj_pair)
    then obtain evs where "ru_log st2 = ru_log st1 @ evs" "only_updates evs"
      by (auto simp: executePreparedToolCall_def dest: run_exec_log split: prod.splits)
    moreover from assms prep Inr ex have "finalizeExecutedToolCall cfg cx am p x st2 = (st', f)"
      by (simp add: run_one_def)
    ultimately show ?thesis
      using prepareToolCall_facts(1) [OF prep] prepareToolCall_facts(3) [OF prep Inr] finalize_facts by fastforce
  qed
qed

lemma emit_end_log:
  "emitToolExecutionEnd en f st = (st', e) \<Longrightarrow>
   ru_log st' = ru_log st @ [ToolExecutionEnd (cb_id (fi_tool_call f)) (cb_name (fi_tool_call f)) (fi_result f) (fi_is_error f)]"
  by (auto simp: emitToolExecutionEnd_def dest: emit_log)

definition answers :: "content_block \<Rightarrow> tool_result_message \<Rightarrow> bool" where
  "answers call m \<longleftrightarrow> tr_tool_call_id m = cb_id call \<and> tr_tool_name m = cb_name call"

lemma createToolResultMessage_facts:
  "createToolResultMessage en f st = (st', m) \<Longrightarrow> ru_log st' = ru_log st \<and> answers (fi_tool_call f) m"
  by (auto simp: createToolResultMessage_def answers_def dest: on_world_log split: prod.splits)

lemma answer_facts:
  assumes "answer en f st = (st', Inr m)"
  shows "ru_log st' = ru_log st @ [MessageStart (ToolResultMessage m), MessageEnd (ToolResultMessage m)]"
    and "answers (fi_tool_call f) m"
proof -
  obtain st1 m1 where c: "createToolResultMessage en f st = (st1, m1)" by fastforce
  with assms have e: "emitToolResultMessage en m1 st1 = (st', None)" and [simp]: "m1 = m"
    by (auto simp: answer_def split: prod.splits option.splits)
  from createToolResultMessage_facts [OF c] emit2_log [OF e [unfolded emitToolResultMessage_def]]
  show "ru_log st' = ru_log st @ [MessageStart (ToolResultMessage m), MessageEnd (ToolResultMessage m)]"
    and "answers (fi_tool_call f) m" by simp_all
qed

section \<open>Every call is answered, in source order\<close>

text \<open>
  \<open>answered en calls evs ms\<close>: the events \<open>evs\<close> started the first calls of \<open>calls\<close> in order, the
  messages \<open>ms\<close> answer exactly these, and they are the messages ended in \<open>evs\<close>; all calls are
  answered unless the context was found cancelled.
\<close>

definition answered :: "'w env \<Rightarrow> content_block list \<Rightarrow> agent_event list \<Rightarrow> tool_result_message list \<Rightarrow> bool" where
  "answered en calls evs ms \<longleftrightarrow>
     length ms \<le> length calls \<and> list_all2 answers (take (length ms) calls) ms
     \<and> ended evs = map ToolResultMessage ms
     \<and> List.map_filter tool_started evs = map cb_id (take (length ms) calls) \<and> no_end evs
     \<and> ((\<forall>w. \<not> snd (en_ctx en w)) \<longrightarrow> length ms = length calls)"

lemma map_filter_append: "List.map_filter f (xs @ ys) = List.map_filter f xs @ List.map_filter f ys"
  by (simp add: map_filter_def)

lemma map_filter_Cons: "List.map_filter f (x # xs) = (case f x of None \<Rightarrow> [] | Some y \<Rightarrow> [y]) @ List.map_filter f xs"
  by (simp add: map_filter_simps split: option.splits)

lemmas log_simps = map_filter_append map_filter_Cons map_filter_simps(2)

lemma on_world_ctx: "on_world (en_ctx en) st = (st', c) \<Longrightarrow> ru_log st' = ru_log st \<and> ((\<forall>w. \<not> snd (en_ctx en w)) \<longrightarrow> \<not> c)"
  by (auto simp: on_world_def split: prod.splits) (metis snd_conv)

lemma seq_loop_answered:
  "seq_loop en cfg cx am calls fs ms st = (st', Inr b) \<Longrightarrow>
   \<exists>evs new. ru_log st' = ru_log st @ evs \<and> ba_messages b = ms @ new \<and> answered en calls evs new"
proof (induction calls arbitrary: fs ms st)
  case Nil
  then show ?case by (auto simp: answered_def map_filter_simps)
next
  case (Cons call calls)
  obtain st1 e1 where s1: "emit en (ToolExecutionStart (cb_id call) (cb_name call) (cb_arguments call)) st = (st1, e1)"
    by fastforce
  obtain st2 f where s2: "run_one en cfg cx am call st1 = (st2, f)" by fastforce
  obtain st3 e3 where s3: "emitToolExecutionEnd en f st2 = (st3, e3)" by fastforce
  obtain st4 r4 where s4: "answer en f st3 = (st4, r4)" by fastforce
  obtain st5 c5 where s5: "on_world (en_ctx en) st4 = (st5, c5)" by fastforce
  from Cons.prems s1 s2 s3 s4 have ok: "e1 = None" "e3 = None" "\<exists>m. r4 = Inr m"
    by (auto split: option.splits sum.splits)
  then obtain m where m: "r4 = Inr m" by blast
  from run_one_facts [OF s2] obtain us where us: "fi_tool_call f = call" "ru_log st2 = ru_log st1 @ us" "only_updates us"
    by blast
  let ?evs = "ToolExecutionStart (cb_id call) (cb_name call) (cb_arguments call) # us
     @ [ToolExecutionEnd (cb_id call) (cb_name call) (fi_result f) (fi_is_error f),
        MessageStart (ToolResultMessage m), MessageEnd (ToolResultMessage m)]"
  have log5: "ru_log st5 = ru_log st @ ?evs"
    using emit_log [OF s1] us emit_end_log [OF s3] answer_facts(1) [OF s4 [unfolded m]] on_world_ctx [OF s5] by simp
  have evs: "ended ?evs = [ToolResultMessage m]" "List.map_filter tool_started ?evs = [cb_id call]" "answers call m" "no_end ?evs"
    using only_updates_quiet [OF us(3)] answer_facts(2) [OF s4 [unfolded m]] us(1) by (simp_all add: log_simps)
  show ?case
  proof (cases c5)
    case True
    with Cons.prems s1 s2 s3 s4 s5 ok m have "st' = st5" "ba_messages b = ms @ [m]" by auto
    with log5 evs True on_world_ctx [OF s5] show ?thesis
      by (intro exI [of _ ?evs] exI [of _ "[m]"]) (auto simp add: answered_def)
  next
    case False
    with Cons.prems s1 s2 s3 s4 s5 ok m have "seq_loop en cfg cx am calls (fs @ [f]) (ms @ [m]) st5 = (st', Inr b)"
      by simp
    from Cons.IH [OF this] obtain evs' new where r:
      "ru_log st' = ru_log st5 @ evs'" "ba_messages b = (ms @ [m]) @ new" "answered en calls evs' new" by blast
    from r(3) evs have "answered en (call # calls) (?evs @ evs') (m # new)"
      by (simp only: answered_def ended_simps(3) log_simps(1) no_end_simps(3)) auto
    with r log5 show ?thesis by (intro exI [of _ "?evs @ evs'"] exI [of _ "m # new"]) simp
  qed
qed

section \<open>The parallel phase\<close>

definition settled_slot :: "content_block \<Rightarrow> 'w task \<Rightarrow> finalized \<Rightarrow> bool" where
  "settled_slot call t f \<longleftrightarrow>
     (case t of
        Settled \<Rightarrow> fi_tool_call f = call
      | Finished \<Rightarrow> fi_tool_call f = call
      | Running p ex err \<Rightarrow> pc_tool_call p = call
      | Ending g \<Rightarrow> fi_tool_call f = call \<and> g = f)"

definition par_ok :: "content_block list \<Rightarrow> 'w task list \<Rightarrow> finalized list \<Rightarrow> bool" where
  "par_ok calls tasks slots \<longleftrightarrow> length tasks = length calls \<and> length slots = length calls
     \<and> (\<forall>i < length calls. settled_slot (calls ! i) (tasks ! i) (slots ! i))"

lemma par_ok_snoc:
  "par_ok calls tasks slots \<Longrightarrow> settled_slot call t f \<Longrightarrow> par_ok (calls @ [call]) (tasks @ [t]) (slots @ [f])"
  by (auto simp: par_ok_def nth_append)

lemma prepare_loop_facts:
  assumes "prepare_loop en cfg cx am calls tasks slots st = (st', Inr (tasks', slots'))"
    and "par_ok past tasks slots"
  shows "\<exists>n evs. n \<le> length calls \<and> par_ok (past @ take n calls) tasks' slots'
      \<and> ru_log st' = ru_log st @ evs \<and> ended evs = [] \<and> no_end evs
      \<and> List.map_filter tool_started evs = map cb_id (take n calls)
      \<and> ((\<forall>w. \<not> snd (en_ctx en w)) \<longrightarrow> n = length calls)"
  using assms
proof (induction calls arbitrary: past tasks slots st)
  case Nil
  then show ?case by (auto simp: log_simps)
next
  case (Cons call calls)
  obtain st1 e1 where s1: "emit en (ToolExecutionStart (cb_id call) (cb_name call) (cb_arguments call)) st = (st1, e1)"
    by fastforce
  with Cons.prems(1) have [simp]: "e1 = None" by (cases e1) auto
  obtain st2 r where s2: "prepareToolCall en cfg cx am call st1 = (st2, r)" by fastforce
  let ?start = "ToolExecutionStart (cb_id call) (cb_name call) (cb_arguments call)"
  have step: ?case if st4: "on_world (en_ctx en) st3 = (st4, c)"
    and log: "ru_log st3 = ru_log st @ evs" "ended evs = []" "no_end evs" "List.map_filter tool_started evs = [cb_id call]"
    and ok: "settled_slot call t f"
    and go: "c \<Longrightarrow> st' = st4 \<and> tasks' = tasks @ [t] \<and> slots' = slots @ [f]"
      "\<not> c \<Longrightarrow> prepare_loop en cfg cx am calls (tasks @ [t]) (slots @ [f]) st4 = (st', Inr (tasks', slots'))"
    for st3 st4 c evs t f
  proof (cases c)
    case True
    with go(1) st4 log on_world_ctx [OF st4] par_ok_snoc [OF Cons.prems(2) ok] show ?thesis
      by (intro exI [of _ 1] exI [of _ evs]) auto
  next
    case False
    from Cons.IH [OF go(2) [OF False] par_ok_snoc [OF Cons.prems(2) ok]] obtain n evs' where
      "n \<le> length calls" "par_ok ((past @ [call]) @ take n calls) tasks' slots'" "ru_log st' = ru_log st4 @ evs'"
      "ended evs' = []" "no_end evs'" "List.map_filter tool_started evs' = map cb_id (take n calls)"
      "(\<forall>w. \<not> snd (en_ctx en w)) \<longrightarrow> n = length calls" by blast
    with log on_world_ctx [OF st4] show ?thesis
      by (intro exI [of _ "Suc n"] exI [of _ "evs @ evs'"]) (auto simp: log_simps)
  qed
  show ?case
  proof (cases r)
    case (Inl f)
    obtain st3 e3 where s3: "emitToolExecutionEnd en f st2 = (st3, e3)" by fastforce
    with Cons.prems(1) s1 s2 Inl have [simp]: "e3 = None" by (cases e3) auto
    obtain st4 c where s4: "on_world (en_ctx en) st3 = (st4, c)" by fastforce
    note f = prepareToolCall_facts(1) [OF s2] prepareToolCall_facts(2) [OF s2 Inl]
    show ?thesis
      by (rule step [OF s4, of "[?start, ToolExecutionEnd (cb_id (fi_tool_call f)) (cb_name (fi_tool_call f)) (fi_result f) (fi_is_error f)]" Settled f])
         (use Cons.prems(1) s1 s2 s3 s4 Inl f emit_log [OF s1] emit_end_log [OF s3] in
           \<open>auto simp: settled_slot_def log_simps split: bool.splits\<close>)
  next
    case (Inr p)
    obtain st3 c where s3: "on_world (en_ctx en) st2 = (st3, c)" by fastforce
    note f = prepareToolCall_facts(1) [OF s2] prepareToolCall_facts(3) [OF s2 Inr]
    show ?thesis
      by (rule step [OF s3, of "[?start]" "spawn p" zero_finalized])
         (use Cons.prems(1) s1 s2 s3 Inr f emit_log [OF s1] in
           \<open>auto simp: settled_slot_def spawn_def log_simps split: bool.splits\<close>)
  qed
qed

definition quiet :: "agent_event list \<Rightarrow> bool" where
  "quiet evs \<longleftrightarrow> ended evs = [] \<and> List.map_filter tool_started evs = [] \<and> no_end evs"

lemma quiet_append [simp]: "quiet (as @ bs) \<longleftrightarrow> quiet as \<and> quiet bs"
  by (auto simp: quiet_def log_simps)

lemma quiet_Nil [simp]: "quiet []"
  by (simp add: quiet_def log_simps)

lemma task_step_facts:
  assumes "par_ok calls (pa_tasks ps) (pa_slots ps)" and "task_step en cfg cx am i ps = ps'"
  shows "par_ok calls (pa_tasks ps') (pa_slots ps')
    \<and> (\<exists>evs. ru_log (pa_run ps') = ru_log (pa_run ps) @ evs \<and> quiet evs)"
proof (cases "i < length (pa_tasks ps)")
  case False
  with assms show ?thesis by (auto simp: task_step_def)
next
  case True
  with assms(1) have here: "settled_slot (calls ! i) (pa_tasks ps ! i) (pa_slots ps ! i)"
    and len: "length (pa_tasks ps) = length calls" "length (pa_slots ps) = length calls" by (auto simp: par_ok_def)
  have upd: "par_ok calls ((pa_tasks ps)[i := t]) ((pa_slots ps)[i := f])" if "settled_slot (calls ! i) t f" for t f
    using assms(1) that True by (auto simp: par_ok_def nth_list_update)
  have upd1: "par_ok calls ((pa_tasks ps)[i := t]) (pa_slots ps)" if "settled_slot (calls ! i) t (pa_slots ps ! i)" for t
    using upd [OF that] by simp
  show ?thesis
  proof (cases "pa_tasks ps ! i")
    case (Running p ex err)
    with here have call: "pc_tool_call p = calls ! i" by (simp add: settled_slot_def)
    show ?thesis
    proof (cases ex)
      case (Return r)
      obtain st f where f: "finalizeExecutedToolCall cfg cx am p (executed_outcome r err) (pa_run ps) = (st, f)" by fastforce
      from finalize_facts [OF f] call have "settled_slot (calls ! i) (Ending f) f" by (simp add: settled_slot_def)
      with upd [OF this] assms(2) True Running Return f finalize_facts [OF f] show ?thesis
        by (auto simp: task_step_def)
    next
      case (Report partial k)
      obtain st e where r: "report en (pc_tool_call p) partial err (pa_run ps) = (st, e)" by fastforce
      with report_log [OF r] only_updates_quiet upd1 [of "Running p k e"] call assms(2) True Running Report show ?thesis
        by (auto simp: task_step_def settled_slot_def quiet_def)
    next
      case (Act g)
      obtain st k where g: "on_world g (pa_run ps) = (st, k)" by fastforce
      with on_world_log [OF g] upd1 [of "Running p k err"] call assms(2) True Running Act show ?thesis
        by (auto simp: task_step_def settled_slot_def)
    qed
  next
    case (Ending f)
    obtain st e where r: "emitToolExecutionEnd en f (pa_run ps) = (st, e)" by fastforce
    with emit_end_log [OF r] upd1 [of Finished] here assms(2) True Ending show ?thesis
      by (auto simp: task_step_def settled_slot_def quiet_def log_simps)
  qed (use assms True in \<open>auto simp: task_step_def\<close>)
qed

lemma run_schedule_facts:
  "par_ok calls (pa_tasks ps) (pa_slots ps) \<Longrightarrow> run_schedule en cfg cx am sched ps = ps' \<Longrightarrow>
   par_ok calls (pa_tasks ps') (pa_slots ps') \<and> (\<exists>evs. ru_log (pa_run ps') = ru_log (pa_run ps) @ evs \<and> quiet evs)"
proof (induction sched arbitrary: ps)
  case Nil
  then show ?case by (auto simp: run_schedule_def)
next
  case (Cons i sched)
  let ?ps1 = "task_step en cfg cx am i ps"
  from task_step_facts [OF Cons.prems(1) refl, of en cfg cx am i]
  obtain evs1 where 1: "par_ok calls (pa_tasks ?ps1) (pa_slots ?ps1)"
    "ru_log (pa_run ?ps1) = ru_log (pa_run ps) @ evs1" "quiet evs1" by blast
  from Cons.prems(2) have "run_schedule en cfg cx am sched ?ps1 = ps'" by (simp add: run_schedule_def)
  from Cons.IH [OF 1(1) this] 1 show ?case by auto
qed

lemma answer_loop_facts:
  "answer_loop en fs ms st = (st', Inr ms') \<Longrightarrow>
   \<exists>new evs. ms' = ms @ new \<and> list_all2 (\<lambda>f m. answers (fi_tool_call f) m) fs new
     \<and> ru_log st' = ru_log st @ evs \<and> ended evs = map ToolResultMessage new \<and> List.map_filter tool_started evs = [] \<and> no_end evs"
proof (induction fs arbitrary: ms st)
  case Nil
  then show ?case by (auto simp: log_simps)
next
  case (Cons f fs)
  obtain st1 r where a: "answer en f st = (st1, r)" by fastforce
  with Cons.prems obtain m where m: "r = Inr m" by (cases r) auto
  with a Cons.prems have "answer_loop en fs (ms @ [m]) st1 = (st', Inr ms')" by simp
  from Cons.IH [OF this] obtain new evs where r: "ms' = (ms @ [m]) @ new"
    "list_all2 (\<lambda>f m. answers (fi_tool_call f) m) fs new" "ru_log st' = ru_log st1 @ evs"
    "ended evs = map ToolResultMessage new" "List.map_filter tool_started evs = []" "no_end evs" by blast
  with answer_facts [OF a [unfolded m]] show ?case
    by (intro exI [of _ "m # new"] exI [of _ "[MessageStart (ToolResultMessage m), MessageEnd (ToolResultMessage m)] @ evs"])
       (auto simp: log_simps)
qed

lemma parallel_answered:
  assumes "executeToolCallsParallel en cfg cx am calls sched st = Some (st', Inr b)"
  shows "\<exists>evs. ru_log st' = ru_log st @ evs \<and> answered en calls evs (ba_messages b)"
proof -
  obtain st1 tasks slots where p: "prepare_loop en cfg cx am calls [] [] st = (st1, Inr (tasks, slots))"
    using assms by (auto simp: executeToolCallsParallel_def split: prod.splits sum.splits)
  let ?ps = "run_schedule en cfg cx am sched \<lparr>pa_run = st1, pa_tasks = tasks, pa_slots = slots, pa_err = None\<rparr>"
  from assms p have w: "waited ?ps"
    by (auto simp: executeToolCallsParallel_def Let_def split: if_splits)
  with assms p have e: "pa_err ?ps = None"
    by (auto simp: executeToolCallsParallel_def Let_def split: option.splits)
  obtain ms where a: "answer_loop en (pa_slots ?ps) [] (pa_run ?ps) = (st', Inr ms)" and b: "ba_messages b = ms"
    using assms p w e by (auto simp: executeToolCallsParallel_def Let_def split: prod.splits sum.splits)
  have "par_ok [] [] []" by (simp add: par_ok_def)
  from prepare_loop_facts [OF p this] obtain n evs1 where n: "n \<le> length calls" "par_ok (take n calls) tasks slots" "ru_log st1 = ru_log st @ evs1"
      "ended evs1 = []" "no_end evs1" "List.map_filter tool_started evs1 = map cb_id (take n calls)"
      "(\<forall>w. \<not> snd (en_ctx en w)) \<longrightarrow> n = length calls"
    unfolding append_Nil by blast
  from run_schedule_facts [OF _ refl, of "take n calls" "\<lparr>pa_run = st1, pa_tasks = tasks, pa_slots = slots, pa_err = None\<rparr>" en cfg cx am sched] n(2)
  obtain evs2 where r: "par_ok (take n calls) (pa_tasks ?ps) (pa_slots ?ps)" "ru_log (pa_run ?ps) = ru_log st1 @ evs2" "quiet evs2"
    by auto
  from answer_loop_facts [OF a] obtain evs3 where l: "list_all2 (\<lambda>f m. answers (fi_tool_call f) m) (pa_slots ?ps) ms"
    "ru_log st' = ru_log (pa_run ?ps) @ evs3" "ended evs3 = map ToolResultMessage ms" "List.map_filter tool_started evs3 = []" "no_end evs3"
    by auto
  have slots: "map fi_tool_call (pa_slots ?ps) = take n calls"
  proof (rule nth_equalityI)
    show len: "length (map fi_tool_call (pa_slots ?ps)) = length (take n calls)" using r(1) by (simp add: par_ok_def)
    fix i assume "i < length (map fi_tool_call (pa_slots ?ps))"
    with len r(1) have i: "i < length (take n calls)" "i < length (pa_slots ?ps)" "i < length (pa_tasks ?ps)"
      and s: "settled_slot (take n calls ! i) (pa_tasks ?ps ! i) (pa_slots ?ps ! i)" by (auto simp: par_ok_def)
    from w i(3) have "case pa_tasks ?ps ! i of Settled \<Rightarrow> True | Finished \<Rightarrow> True | _ \<Rightarrow> False"
      unfolding waited_def list_all_length by blast
    with s have "fi_tool_call (pa_slots ?ps ! i) = take n calls ! i"
      by (simp add: settled_slot_def split: task.splits)
    with i show "map fi_tool_call (pa_slots ?ps) ! i = take n calls ! i" by simp
  qed
  have len: "length ms = n" using l(1) slots n(1) by (metis length_map length_take list_all2_lengthD min.absorb2)
  have "list_all2 answers (take n calls) ms" using l(1) by (simp add: slots [symmetric] list_all2_map1)
  with n r l len b show ?thesis
    by (intro exI [of _ "evs1 @ evs2 @ evs3"]) (simp add: answered_def quiet_def log_simps)
qed

lemma executeToolCalls_answered:
  assumes "executeToolCalls en cfg cx am sched st = Some (st', Inr b)"
  shows "\<exists>evs. ru_log st' = ru_log st @ evs \<and> answered en (tool_calls_of am) evs (ba_messages b)"
proof (cases "lc_tool_execution cfg = ExecSequential \<or> hasSequentialToolCall cx (tool_calls_of am)")
  case True
  with assms have "seq_loop en cfg cx am (tool_calls_of am) [] [] st = (st', Inr b)"
    by (auto simp: executeToolCalls_def executeToolCallsSequential_def Let_def)
  from seq_loop_answered [OF this] show ?thesis by auto
next
  case False
  with assms have "executeToolCallsParallel en cfg cx am (tool_calls_of am) sched st = Some (st', Inr b)"
    by (auto simp: executeToolCalls_def Let_def)
  from parallel_answered [OF this] show ?thesis .
qed

text \<open>C13: however the tool calls of a message are run, in sequence or with the parallel goroutines
  interleaved by any schedule, a batch that succeeds answers a prefix of the calls, each by one
  result message with its id and name, in source order, and these are exactly the messages
  announced to the listeners; every call is answered unless the context was cancelled.\<close>

theorem tool_batch_answers_in_order:
  assumes "executeToolCalls en cfg cx am sched st = Some (st', Inr b)"
  shows "\<exists>evs. ru_log st' = ru_log st @ evs
     \<and> length (ba_messages b) \<le> length (tool_calls_of am)
     \<and> map tr_tool_call_id (ba_messages b) = map cb_id (take (length (ba_messages b)) (tool_calls_of am))
     \<and> map tr_tool_name (ba_messages b) = map cb_name (take (length (ba_messages b)) (tool_calls_of am))
     \<and> ended evs = map ToolResultMessage (ba_messages b)
     \<and> List.map_filter tool_started evs = map cb_id (take (length (ba_messages b)) (tool_calls_of am))
     \<and> ((\<forall>w. \<not> snd (en_ctx en w)) \<longrightarrow> length (ba_messages b) = length (tool_calls_of am))"
proof -
  note executeToolCalls_answered [OF assms]
  moreover have "map tr_tool_call_id ms = map cb_id calls \<and> map tr_tool_name ms = map cb_name calls"
    if "list_all2 answers calls ms" for ms calls
    using that by (induction rule: list_all2_induct) (auto simp: answers_def)
  ultimately show ?thesis unfolding answered_def by blast
qed

section \<open>The goroutines always finish\<close>

lemma task_step_other:
  "j \<noteq> i \<Longrightarrow> pa_tasks (task_step en cfg cx am i ps) ! j = pa_tasks ps ! j"
  by (auto simp: task_step_def split: task.splits exec.splits prod.splits)

lemma task_step_length [simp]: "length (pa_tasks (task_step en cfg cx am i ps)) = length (pa_tasks ps)"
  by (auto simp: task_step_def split: task.splits exec.splits prod.splits)

lemma run_schedule_Nil [simp]: "run_schedule en cfg cx am [] ps = ps"
  by (simp add: run_schedule_def)

lemma run_schedule_Cons: "run_schedule en cfg cx am (i # is) ps = run_schedule en cfg cx am is (task_step en cfg cx am i ps)"
  by (simp add: run_schedule_def)

lemma run_schedule_append:
  "run_schedule en cfg cx am (as @ bs) ps = run_schedule en cfg cx am bs (run_schedule en cfg cx am as ps)"
  by (simp add: run_schedule_def)

lemma run_schedule_length [simp]: "length (pa_tasks (run_schedule en cfg cx am sched ps)) = length (pa_tasks ps)"
  by (induction sched arbitrary: ps) (simp_all add: run_schedule_Cons)

lemma run_schedule_other:
  "i \<notin> set sched \<Longrightarrow> pa_tasks (run_schedule en cfg cx am sched ps) ! i = pa_tasks ps ! i"
  by (induction sched arbitrary: ps) (auto simp: run_schedule_Cons task_step_other)

definition over :: "'w task \<Rightarrow> bool" where
  "over t \<longleftrightarrow> (case t of Settled \<Rightarrow> True | Finished \<Rightarrow> True | _ \<Rightarrow> False)"

lemma ending_finishes:
  "i < length (pa_tasks ps) \<Longrightarrow> pa_tasks ps ! i = Ending f \<Longrightarrow> over (pa_tasks (task_step en cfg cx am i ps) ! i)"
  by (auto simp: task_step_def over_def split: prod.splits)

lemma running_finishes:
  "i < length (pa_tasks ps) \<Longrightarrow> pa_tasks ps ! i = Running p ex err \<Longrightarrow>
   \<exists>n. over (pa_tasks (run_schedule en cfg cx am (replicate n i) ps) ! i)"
proof (induction ex arbitrary: err ps)
  case (Return r)
  let ?ps1 = "task_step en cfg cx am i ps"
  have "\<exists>f. pa_tasks ?ps1 ! i = Ending f" using Return by (auto simp: task_step_def split: prod.splits)
  then have "over (pa_tasks (task_step en cfg cx am i ?ps1) ! i)" using Return by (auto intro: ending_finishes)
  then show ?case by (intro exI [of _ 2]) (simp add: numeral_2_eq_2 run_schedule_Cons)
next
  case (Report partial k)
  let ?ps1 = "task_step en cfg cx am i ps"
  have "\<exists>e. pa_tasks ?ps1 ! i = Running p k e" using Report.prems by (auto simp: task_step_def split: prod.splits)
  then obtain e where "pa_tasks ?ps1 ! i = Running p k e" ..
  from Report.IH [OF _ this] Report.prems obtain n where
    "over (pa_tasks (run_schedule en cfg cx am (replicate n i) ?ps1) ! i)" by auto
  then show ?case by (intro exI [of _ "Suc n"]) (simp add: run_schedule_Cons)
next
  case (Act g)
  let ?ps1 = "task_step en cfg cx am i ps"
  let ?k = "snd (g (ru_world (pa_run ps)))"
  have r: "pa_tasks ?ps1 ! i = Running p ?k err" using Act.prems by (auto simp: task_step_def on_world_def split: prod.splits)
  have "\<exists>n. over (pa_tasks (run_schedule en cfg cx am (replicate n i) ?ps1) ! i)"
    by (rule Act.IH [OF _ _ _ r, of "g (ru_world (pa_run ps))"]) (use Act.prems in \<open>auto simp: snds.simps\<close>)
  then obtain n where "over (pa_tasks (run_schedule en cfg cx am (replicate n i) ?ps1) ! i)" by blast
  then show ?case by (intro exI [of _ "Suc n"]) (simp add: run_schedule_Cons)
qed

lemma one_task_finishes:
  assumes "i < length (pa_tasks ps)"
  shows "\<exists>n. over (pa_tasks (run_schedule en cfg cx am (replicate n i) ps) ! i)"
proof (cases "pa_tasks ps ! i")
  case (Ending f)
  from ending_finishes [OF assms this] show ?thesis by (intro exI [of _ 1]) (simp add: run_schedule_Cons)
next
  case (Running p ex err)
  from running_finishes [OF assms this] show ?thesis .
qed (intro exI [of _ 0], simp add: over_def)+

lemma all_tasks_finish: "\<exists>sched. waited (run_schedule en cfg cx am sched ps)"
proof -
  have "\<exists>sched. (\<forall>i < k. over (pa_tasks (run_schedule en cfg cx am sched ps) ! i))" if "k \<le> length (pa_tasks ps)" for k
    using that
  proof (induction k)
    case (Suc k)
    then obtain sched where s: "\<forall>i < k. over (pa_tasks (run_schedule en cfg cx am sched ps) ! i)" by auto
    let ?ps1 = "run_schedule en cfg cx am sched ps"
    obtain n where n: "over (pa_tasks (run_schedule en cfg cx am (replicate n k) ?ps1) ! k)"
      using one_task_finishes [of k ?ps1 en cfg cx am] Suc.prems by auto
    have "over (pa_tasks (run_schedule en cfg cx am (sched @ replicate n k) ps) ! i)" if "i < Suc k" for i
    proof (cases "i = k")
      case False
      with that s run_schedule_other [of i "replicate n k" en cfg cx am ?ps1] show ?thesis
        by (auto simp: run_schedule_append less_Suc_eq)
    qed (use n in \<open>simp add: run_schedule_append\<close>)
    then show ?case by blast
  qed simp
  from this [of "length (pa_tasks ps)"] obtain sched where
    "\<forall>i < length (pa_tasks ps). over (pa_tasks (run_schedule en cfg cx am sched ps) ! i)" by auto
  then show ?thesis by (auto simp: waited_def list_all_length over_def)
qed


section \<open>The gate before a call\<close>


section \<open>A concrete batch\<close>

definition demo_tool :: "nat agent_tool" where
  "demo_tool = \<lparr>at_tool = \<lparr>to_name = ''t'', to_description = [], to_parameters = []\<rparr>, at_label = [], at_prepare = None,
     at_execution_mode = [],
     at_execute = (\<lambda>tid args. Act (\<lambda>w. (Suc w, Return (Inr \<lparr>ar_content = [NewText tid], ar_details = None, ar_terminate = False\<rparr>))))\<rparr>"

definition demo_context :: "nat agent_context" where
  "demo_context = \<lparr>ac_system_prompt = [], ac_messages = [], ac_tools = [demo_tool]\<rparr>"

definition demo_calls :: assistant_message where
  "demo_calls = (empty_assistant [] [] [])\<lparr>am_content := [NewToolCall ''1'' ''t'' [], NewToolCall ''2'' ''t'' [], NewToolCall ''3'' ''u'' []]\<rparr>"

definition demo_env :: "nat env" where
  "demo_env = \<lparr>en_emit = (\<lambda>ev w. (w, None)), en_ctx = (\<lambda>w. (w, False)), en_now = (\<lambda>w. (w, int w)),
     en_stream = (\<lambda>_ _ _ w. (w, \<lparr>sr_events = [], sr_result = Inr None, sr_result_ctx = Inr None\<rparr>)),
     en_validate = (\<lambda>t c. Inr (cb_arguments c))\<rparr>"

definition demo_config :: "nat config" where
  "demo_config = \<lparr>lc_model = \<lparr>mo_id = [], mo_name = [], mo_api = [], mo_provider = [], mo_input = [], mo_context_window = 0, mo_max_tokens = 0\<rparr>,
     lc_options = \<lparr>ro_api_key = [], ro_reasoning = []\<rparr>, lc_tool_execution = ExecParallel, lc_convert = (\<lambda>ms w. (w, ms)),
     lc_transform = None, lc_api_key = None, lc_should_stop = None, lc_prepare_next = None, lc_steering = None,
     lc_follow_up = None, lc_before = None, lc_after = None\<rparr>"

lemmas demo_defs = demo_tool_def demo_context_def demo_calls_def demo_env_def demo_config_def

lemmas executor_defs = prepareToolCall_def Let_def find_tool_def gate_call_def before_gate_def ready_call_def
  prepareToolCallArguments_def on_world_def emit_def emit2_def emitToolExecutionEnd_def answer_def
  emitToolResultMessage_def createToolResultMessage_def task_step_def spawn_def executed_outcome_def
  finalizeExecutedToolCall_def createErrorToolResult_def

theorem tool_batch_answers_in_order_witness:
  "\<exists>st' b. executeToolCalls demo_env demo_config demo_context demo_calls [1, 0, 1, 1, 0, 0] \<lparr>ru_world = 0, ru_log = []\<rparr>
      = Some (st', Inr b)
     \<and> map tr_tool_call_id (ba_messages b) = [''1'', ''2'', ''3''] \<and> map tr_is_error (ba_messages b) = [False, False, True]"
proof -
  let ?r = "executeToolCalls demo_env demo_config demo_context demo_calls [1, 0, 1, 1, 0, 0] \<lparr>ru_world = 0, ru_log = []\<rparr>"
  have calls: "tool_calls_of demo_calls = [NewToolCall ''1'' ''t'' [], NewToolCall ''2'' ''t'' [], NewToolCall ''3'' ''u'' []]"
    by (simp add: tool_calls_of_def demo_calls_def)
  let ?st = "\<lparr>ru_world = 0, ru_log = []\<rparr> :: nat run"
  obtain st1 ts where prep: "prepare_loop demo_env demo_config demo_context demo_calls (tool_calls_of demo_calls) [] [] ?st = (st1, Inr ts)"
    and ts: "ts = ([spawn \<lparr>pc_tool_call = NewToolCall ''1'' ''t'' [], pc_tool = demo_tool, pc_args = ''{}''\<rparr>,
        spawn \<lparr>pc_tool_call = NewToolCall ''2'' ''t'' [], pc_tool = demo_tool, pc_args = ''{}''\<rparr>, Settled],
      [zero_finalized, zero_finalized, \<lparr>fi_tool_call = NewToolCall ''3'' ''u'' [],
          fi_result = createErrorToolResult ''Tool u not found'', fi_is_error = True\<rparr>])"
    by (simp add: calls executor_defs demo_env_def demo_config_def demo_context_def demo_tool_def)
  let ?res = "\<lambda>c. \<lparr>ar_content = [NewText c], ar_details = None, ar_terminate = False\<rparr>"
  obtain st2 where run_all: "run_schedule demo_env demo_config demo_context demo_calls [1, 0, 1, 1, 0, 0]
      \<lparr>pa_run = st1, pa_tasks = fst ts, pa_slots = snd ts, pa_err = None\<rparr>
    = \<lparr>pa_run = st2, pa_tasks = [Finished, Finished, Settled],
       pa_slots = [\<lparr>fi_tool_call = NewToolCall ''1'' ''t'' [], fi_result = ?res ''1'', fi_is_error = False\<rparr>,
         \<lparr>fi_tool_call = NewToolCall ''2'' ''t'' [], fi_result = ?res ''2'', fi_is_error = False\<rparr>,
         \<lparr>fi_tool_call = NewToolCall ''3'' ''u'' [], fi_result = createErrorToolResult ''Tool u not found'', fi_is_error = True\<rparr>],
       pa_err = None\<rparr>"
    by (simp add: ts run_schedule_Cons task_step_def spawn_def demo_tool_def demo_config_def demo_env_def
        finalizeExecutedToolCall_def executed_outcome_def emitToolExecutionEnd_def emit_def on_world_def)
  have mode: "\<not> (lc_tool_execution demo_config = ExecSequential \<or> hasSequentialToolCall demo_context (tool_calls_of demo_calls))"
    unfolding calls by (simp add: hasSequentialToolCall_def demo_context_def demo_tool_def demo_config_def ExecParallel_def ExecSequential_def)
  have "\<exists>st' b. ?r = Some (st', Inr b) \<and> map tr_is_error (ba_messages b) = [False, False, True]"
    using mode prep run_all
    by (simp add: executeToolCalls_def executeToolCallsParallel_def case_prod_unfold Let_def waited_def)
       (simp add: answer_def createToolResultMessage_def emitToolResultMessage_def emit2_def emit_def on_world_def demo_env_def)
  then obtain st' b where run: "?r = Some (st', Inr b)" and err: "map tr_is_error (ba_messages b) = [False, False, True]"
    by (elim exE conjE) (rule that)
  have "\<forall>w. \<not> snd (en_ctx demo_env w)" by (simp add: demo_defs)
  moreover have "map cb_id (tool_calls_of demo_calls) = [''1'', ''2'', ''3'']" by code_simp
  ultimately have "map tr_tool_call_id (ba_messages b) = [''1'', ''2'', ''3'']"
    using tool_batch_answers_in_order [OF run] by (metis take_all_iff order_refl)
  with err show ?thesis by (intro exI conjI) (rule run)
qed


end
