(* ===== verification/Agent_Loop.thy ===== *)
theory Agent_Loop
  imports Agent_Executor Event_Stream
begin

text \<open>
  \<open>internal/agent/loop.go\<close>: the turn loop.  A step of a turn stops the run with the values the Go
  function returns, goes on, or waits for tool goroutines that the schedule leaves running.  The
  loop has no bound in the code, so its recursion counts turns down from a given fuel and is
  \<^const>\<open>None\<close> when that runs out.  \<open>sch k\<close> is the schedule of the tool batch of turn \<open>k\<close>.
\<close>

section \<open>Streaming one assistant response\<close>

definition assistantResult ::
  "'w config \<Rightarrow> (string \<times> bool) + assistant_message option \<Rightarrow> assistant_message" where
  "assistantResult cfg r =
    (let m = (empty_assistant (mo_api (lc_model cfg)) (mo_provider (lc_model cfg)) (mo_id (lc_model cfg)))
               \<lparr>am_stop_reason := StopError, am_error_message := ''assistant stream ended without a final message''\<rparr>
     in case r of
          Inr (Some final) \<Rightarrow> final
        | Inr None \<Rightarrow> m
        | Inl (err, cancelled) \<Rightarrow>
            m\<lparr>am_error_message := err, am_stop_reason := (if cancelled then StopAborted else StopError)\<rparr>)"

text \<open>\<open>cctx.Messages[len(cctx.Messages)-1] = m\<close>, and the append.\<close>

definition set_last :: "message \<Rightarrow> 'w agent_context \<Rightarrow> 'w agent_context" where
  "set_last m cx = cx\<lparr>ac_messages := butlast (ac_messages cx) @ [m]\<rparr>"

definition append_message :: "message \<Rightarrow> 'w agent_context \<Rightarrow> 'w agent_context" where
  "append_message m cx = cx\<lparr>ac_messages := ac_messages cx @ [m]\<rparr>"

definition finish_response ::
  "'w env \<Rightarrow> assistant_message \<Rightarrow> bool \<Rightarrow> 'w agent_context \<Rightarrow> 'w run
     \<Rightarrow> 'w run \<times> (string + 'w agent_context \<times> assistant_message)" where
  "finish_response en final addedPartial cx st =
    (let m = AssistantMessage final in
     if addedPartial then
       (case emit en (MessageEnd m) st of
          (st1, Some err) \<Rightarrow> (st1, Inl err)
        | (st1, None) \<Rightarrow> (st1, Inr (set_last m cx, final)))
     else
       (case emit2 en (MessageStart m) (MessageEnd m) st of
          (st1, Some err) \<Rightarrow> (st1, Inl err)
        | (st1, None) \<Rightarrow> (st1, Inr (append_message m cx, final))))"

fun fold_events ::
  "'w env \<Rightarrow> 'w config \<Rightarrow> stream_response \<Rightarrow> stream_event list \<Rightarrow> assistant_message \<Rightarrow> bool
     \<Rightarrow> 'w agent_context \<Rightarrow> 'w run \<Rightarrow> 'w run \<times> (string + 'w agent_context \<times> assistant_message)" where
  "fold_events en cfg resp [] builder addedPartial cx st =
     finish_response en (assistantResult cfg (sr_result_ctx resp)) addedPartial cx st"
| "fold_events en cfg resp (ev # evs) builder0 addedPartial cx st =
    (let builder = Fold builder0 ev; partial = AssistantMessage builder in
     case ev_type ev of
       EvStart \<Rightarrow>
         (case emit en (MessageStart partial) st of
            (st1, Some err) \<Rightarrow> (st1, Inl err)
          | (st1, None) \<Rightarrow> fold_events en cfg resp evs builder True (append_message partial cx) st1)
     | EvDone \<Rightarrow> finish_response en (assistantResult cfg (sr_result resp)) addedPartial cx st
     | EvError \<Rightarrow> finish_response en (assistantResult cfg (sr_result resp)) addedPartial cx st
     | _ \<Rightarrow>
         if addedPartial then
           (case emit en (MessageUpdate partial ev) st of
              (st1, Some err) \<Rightarrow> (st1, Inl err)
            | (st1, None) \<Rightarrow> fold_events en cfg resp evs builder True (set_last partial cx) st1)
         else fold_events en cfg resp evs builder False cx st)"

definition streamAssistantResponse ::
  "'w env \<Rightarrow> 'w config \<Rightarrow> 'w agent_context \<Rightarrow> 'w run \<Rightarrow> 'w run \<times> (string + 'w agent_context \<times> assistant_message)" where
  "streamAssistantResponse en cfg cx st =
    (let (st1, messages) = (case lc_transform cfg of None \<Rightarrow> (st, ac_messages cx)
                            | Some f \<Rightarrow> on_world (f (ac_messages cx)) st);
         (st2, llmMessages) = on_world (lc_convert cfg messages) st1;
         llm = \<lparr>lc_system_prompt = ac_system_prompt cx, lc_messages = llmMessages, lc_tools = map at_tool (ac_tools cx)\<rparr>;
         (st3, key) = (case lc_api_key cfg of None \<Rightarrow> (st2, [])
                       | Some f \<Rightarrow> on_world (f (mo_provider (lc_model cfg))) st2);
         options = (if key \<noteq> [] then (lc_options cfg)\<lparr>ro_api_key := key\<rparr> else lc_options cfg);
         (st4, resp) = on_world (en_stream en (lc_model cfg) llm options) st3
     in fold_events en cfg resp (sr_events resp)
          (NewAssistantBuilder (mo_api (lc_model cfg)) (mo_provider (lc_model cfg)) (mo_id (lc_model cfg))) False cx st4)"

section \<open>Turns\<close>

record 'w loop =
  lo_context :: "'w agent_context"
  lo_config :: "'w config"
  lo_new :: "message list"
  lo_pending :: "message list"
  lo_first :: bool
  lo_more :: bool
  lo_turn :: nat

datatype 'a progress = Stop "message list" "string option" | Wait | Go 'a

definition and_then :: "'w run \<times> 'a progress \<Rightarrow> ('w run \<Rightarrow> 'a \<Rightarrow> 'w run \<times> 'b progress) \<Rightarrow> 'w run \<times> 'b progress" where
  "and_then r f =
    (case r of
       (st, Stop ms err) \<Rightarrow> (st, Stop ms err)
     | (st, Wait) \<Rightarrow> (st, Wait)
     | (st, Go a) \<Rightarrow> f st a)"

text \<open>\<open>if err := emit(...); err != nil { return newMessages, err }\<close>.\<close>

definition check_emit :: "'w loop \<Rightarrow> 'w run \<times> string option \<Rightarrow> 'w run \<times> 'w loop progress" where
  "check_emit lo r = (case r of (st, Some err) \<Rightarrow> (st, Stop (lo_new lo) (Some err)) | (st, None) \<Rightarrow> (st, Go lo))"

definition add_message :: "message \<Rightarrow> 'w loop \<Rightarrow> 'w loop" where
  "add_message m lo = lo\<lparr>lo_context := append_message m (lo_context lo), lo_new := lo_new lo @ [m]\<rparr>"

definition begin_turn :: "'w env \<Rightarrow> 'w loop \<Rightarrow> 'w run \<Rightarrow> 'w run \<times> 'w loop progress" where
  "begin_turn en lo0 st =
    (let lo = lo0\<lparr>lo_turn := Suc (lo_turn lo0)\<rparr> in
     if lo_first lo then (st, Go (lo\<lparr>lo_first := False\<rparr>)) else check_emit lo (emit en TurnStart st))"

fun inject :: "'w env \<Rightarrow> message list \<Rightarrow> 'w loop \<Rightarrow> 'w run \<Rightarrow> 'w run \<times> 'w loop progress" where
  "inject en [] lo st = (st, Go (lo\<lparr>lo_pending := []\<rparr>))"
| "inject en (m # ms) lo st =
     and_then (check_emit lo (emit2 en (MessageStart m) (MessageEnd m) st))
       (\<lambda>st1 lo1. inject en ms (add_message m lo1) st1)"

definition respond ::
  "'w env \<Rightarrow> 'w loop \<Rightarrow> 'w run \<Rightarrow> 'w run \<times> ('w loop \<times> assistant_message) progress" where
  "respond en lo st =
    (case streamAssistantResponse en (lo_config lo) (lo_context lo) st of
       (st1, Inl err) \<Rightarrow> (st1, Stop (lo_new lo) (Some err))
     | (st1, Inr (cx, m)) \<Rightarrow>
         (st1, Go (lo\<lparr>lo_context := cx, lo_new := lo_new lo @ [AssistantMessage m]\<rparr>, m)))"

definition failed :: "assistant_message \<Rightarrow> bool" where
  "failed m \<longleftrightarrow> am_stop_reason m = StopError \<or> am_stop_reason m = StopAborted"

definition end_run :: "'w env \<Rightarrow> 'w loop \<Rightarrow> 'w run \<Rightarrow> 'w run \<times> 'a progress" where
  "end_run en lo st = (case emit en (AgentEnd (lo_new lo)) st of (st1, err) \<Rightarrow> (st1, Stop (lo_new lo) err))"

definition run_tools ::
  "'w env \<Rightarrow> (nat \<Rightarrow> nat list) \<Rightarrow> assistant_message \<Rightarrow> 'w loop \<Rightarrow> 'w run
     \<Rightarrow> 'w run \<times> ('w loop \<times> tool_result_message list) progress" where
  "run_tools en sch m lo st =
    (if tool_calls_of m = [] then (st, Go (lo\<lparr>lo_more := False\<rparr>, []))
     else case executeToolCalls en (lo_config lo) (lo_context lo) m (sch (lo_turn lo)) st of
       None \<Rightarrow> (st, Wait)
     | Some (st1, Inl err) \<Rightarrow> (st1, Stop (lo_new lo) (Some err))
     | Some (st1, Inr b) \<Rightarrow>
         (st1, Go (fold (\<lambda>r. add_message (ToolResultMessage r)) (ba_messages b)
                     (lo\<lparr>lo_more := \<not> ba_terminate b\<rparr>), ba_messages b)))"

definition turn_context :: "assistant_message \<Rightarrow> tool_result_message list \<Rightarrow> 'w loop \<Rightarrow> 'w turn_context" where
  "turn_context m results lo =
     \<lparr>tc_message = m, tc_tool_results = results, tc_context = lo_context lo, tc_new_messages = lo_new lo\<rparr>"

definition apply_update :: "'w turn_update \<Rightarrow> 'w loop \<Rightarrow> 'w loop" where
  "apply_update u lo =
    (let lo1 = (case tu_context u of Some c \<Rightarrow> lo\<lparr>lo_context := c\<rparr> | None \<Rightarrow> lo);
         cfg1 = (case tu_model u of Some m \<Rightarrow> (lo_config lo1)\<lparr>lc_model := m\<rparr> | None \<Rightarrow> lo_config lo1);
         cfg2 = (if tu_thinking u = ThinkingOff then cfg1\<lparr>lc_options := (lc_options cfg1)\<lparr>ro_reasoning := []\<rparr>\<rparr>
                 else if tu_thinking u \<noteq> [] then cfg1\<lparr>lc_options := (lc_options cfg1)\<lparr>ro_reasoning := tu_thinking u\<rparr>\<rparr>
                 else cfg1)
     in lo1\<lparr>lo_config := cfg2\<rparr>)"

definition prepare_next :: "assistant_message \<Rightarrow> tool_result_message list \<Rightarrow> 'w loop \<Rightarrow> 'w run \<Rightarrow> 'w run \<times> 'w loop" where
  "prepare_next m results lo st =
    (case lc_prepare_next (lo_config lo) of
       None \<Rightarrow> (st, lo)
     | Some hook \<Rightarrow>
        (case on_world (hook (turn_context m results lo)) st of
           (st1, None) \<Rightarrow> (st1, lo)
         | (st1, Some u) \<Rightarrow> (st1, apply_update u lo)))"

definition should_stop :: "assistant_message \<Rightarrow> tool_result_message list \<Rightarrow> 'w loop \<Rightarrow> 'w run \<Rightarrow> 'w run \<times> bool" where
  "should_stop m results lo st =
    (case lc_should_stop (lo_config lo) of
       None \<Rightarrow> (st, False)
     | Some hook \<Rightarrow> on_world (hook (turn_context m results lo)) st)"

definition poll :: "('w \<Rightarrow> 'w \<times> message list) option \<Rightarrow> 'w run \<Rightarrow> 'w run \<times> message list" where
  "poll f st = (case f of None \<Rightarrow> (st, []) | Some g \<Rightarrow> on_world g st)"

definition after_turn ::
  "'w env \<Rightarrow> assistant_message \<Rightarrow> tool_result_message list \<Rightarrow> 'w loop \<Rightarrow> 'w run \<Rightarrow> 'w run \<times> 'w loop progress" where
  "after_turn en m results lo st =
    (case prepare_next m results lo st of
       (st1, lo1) \<Rightarrow>
        (case should_stop m results lo1 st1 of
           (st2, True) \<Rightarrow> end_run en lo1 st2
         | (st2, False) \<Rightarrow>
            (case poll (lc_steering (lo_config lo1)) st2 of
               (st3, pending) \<Rightarrow> (st3, Go (lo1\<lparr>lo_pending := pending\<rparr>)))))"

definition failed_turn ::
  "'w env \<Rightarrow> assistant_message \<Rightarrow> 'w loop \<Rightarrow> 'w run \<Rightarrow> 'w run \<times> 'w loop progress" where
  "failed_turn en m lo st =
     and_then (check_emit lo (emit en (TurnEnd (AssistantMessage m) []) st)) (\<lambda>st1 lo1. end_run en lo1 st1)"

definition tool_turn ::
  "'w env \<Rightarrow> (nat \<Rightarrow> nat list) \<Rightarrow> assistant_message \<Rightarrow> 'w loop \<Rightarrow> 'w run \<Rightarrow> 'w run \<times> 'w loop progress" where
  "tool_turn en sch m lo st =
     and_then (run_tools en sch m lo st) (\<lambda>st1 (lo1, results).
       and_then (check_emit lo1 (emit en (TurnEnd (AssistantMessage m) results) st1)) (\<lambda>st2 lo2.
         after_turn en m results lo2 st2))"

text \<open>One iteration of the inner loop.\<close>

definition turn :: "'w env \<Rightarrow> (nat \<Rightarrow> nat list) \<Rightarrow> 'w loop \<Rightarrow> 'w run \<Rightarrow> 'w run \<times> 'w loop progress" where
  "turn en sch lo st =
     and_then (begin_turn en lo st) (\<lambda>st1 lo1.
       and_then (inject en (lo_pending lo1) lo1 st1) (\<lambda>st2 lo2.
         and_then (respond en lo2 st2) (\<lambda>st3 (lo3, m).
           if failed m then failed_turn en m lo3 st3 else tool_turn en sch m lo3 st3)))"

text \<open>The inner and the outer loop, one turn per unit of fuel.\<close>

fun run_turns ::
  "'w env \<Rightarrow> (nat \<Rightarrow> nat list) \<Rightarrow> nat \<Rightarrow> 'w loop \<Rightarrow> 'w run \<Rightarrow> ('w run \<times> message list \<times> string option) option" where
  "run_turns en sch 0 lo st = None"
| "run_turns en sch (Suc n) lo st =
    (case turn en sch lo st of
       (st1, Stop ms err) \<Rightarrow> Some (st1, ms, err)
     | (st1, Wait) \<Rightarrow> None
     | (st1, Go lo1) \<Rightarrow>
         if lo_more lo1 \<or> lo_pending lo1 \<noteq> [] then run_turns en sch n lo1 st1
         else
           (case poll (lc_follow_up (lo_config lo1)) st1 of
              (st2, followUp) \<Rightarrow>
                if followUp \<noteq> [] then run_turns en sch n (lo1\<lparr>lo_pending := followUp\<rparr>) st2
                else (case emit en (AgentEnd (lo_new lo1)) st2 of (st3, err) \<Rightarrow> Some (st3, lo_new lo1, err))))"

definition runLoop ::
  "'w env \<Rightarrow> (nat \<Rightarrow> nat list) \<Rightarrow> nat \<Rightarrow> 'w config \<Rightarrow> 'w agent_context \<Rightarrow> message list \<Rightarrow> 'w run
     \<Rightarrow> ('w run \<times> message list \<times> string option) option" where
  "runLoop en sch n cfg cx newMessages st =
    (case poll (lc_steering cfg) st of
       (st1, pending) \<Rightarrow>
         run_turns en sch n \<lparr>lo_context = cx, lo_config = cfg, lo_new = newMessages, lo_pending = pending,
            lo_first = True, lo_more = True, lo_turn = 0\<rparr> st1)"

fun emit_prompts :: "'w env \<Rightarrow> message list \<Rightarrow> 'w run \<Rightarrow> 'w run \<times> string option" where
  "emit_prompts en [] st = (st, None)"
| "emit_prompts en (m # ms) st =
    (case emit2 en (MessageStart m) (MessageEnd m) st of
       (st1, Some err) \<Rightarrow> (st1, Some err)
     | (st1, None) \<Rightarrow> emit_prompts en ms st1)"

definition runAgentLoop ::
  "'w env \<Rightarrow> (nat \<Rightarrow> nat list) \<Rightarrow> nat \<Rightarrow> 'w config \<Rightarrow> 'w agent_context \<Rightarrow> message list \<Rightarrow> 'w run
     \<Rightarrow> ('w run \<times> message list \<times> string option) option" where
  "runAgentLoop en sch n cfg cx prompts st =
    (let cx1 = cx\<lparr>ac_messages := ac_messages cx @ prompts\<rparr> in
     case emit2 en AgentStart TurnStart st of
       (st1, Some err) \<Rightarrow> Some (st1, prompts, Some err)
     | (st1, None) \<Rightarrow>
        (case emit_prompts en prompts st1 of
           (st2, Some err) \<Rightarrow> Some (st2, prompts, Some err)
         | (st2, None) \<Rightarrow> runLoop en sch n cfg cx1 prompts st2))"

text \<open>
  \<open>None\<close> of the inner option is the panic of \<open>Role()\<close> on a nil message; the two errors of the
  precondition are returned with no messages.
\<close>

definition continue_error :: "message list \<Rightarrow> string option option" where
  "continue_error ms =
    (if ms = [] then Some (Some ''Cannot continue: no messages in context'')
     else case Role (last ms) of
            None \<Rightarrow> None
          | Some r \<Rightarrow> Some (if r = ''assistant'' then Some ''Cannot continue from message role: assistant'' else None))"

definition runAgentLoopContinue ::
  "'w env \<Rightarrow> (nat \<Rightarrow> nat list) \<Rightarrow> nat \<Rightarrow> 'w config \<Rightarrow> 'w agent_context \<Rightarrow> 'w run
     \<Rightarrow> ('w run \<times> message list \<times> string option) option" where
  "runAgentLoopContinue en sch n cfg cx st =
    (case continue_error (ac_messages cx) of
       None \<Rightarrow> None
     | Some (Some err) \<Rightarrow> Some (st, [], Some err)
     | Some None \<Rightarrow>
        (case emit2 en AgentStart TurnStart st of
           (st1, Some err) \<Rightarrow> Some (st1, [], Some err)
         | (st1, None) \<Rightarrow> runLoop en sch n cfg cx [] st1))"

section \<open>The transcript and the events\<close>

text \<open>\<open>announces st st' ms\<close>: the step appended events that end exactly the messages \<open>ms\<close>, and no \<open>agent_end\<close>.\<close>

definition announces :: "'w run \<Rightarrow> 'w run \<Rightarrow> message list \<Rightarrow> bool" where
  "announces st st' ms \<longleftrightarrow> (\<exists>evs. ru_log st' = ru_log st @ evs \<and> ended evs = ms \<and> no_end evs)"

lemma announces_trans: "announces a b ms \<Longrightarrow> announces b c ns \<Longrightarrow> announces a c (ms @ ns)"
proof -
  assume "announces a b ms" "announces b c ns"
  then obtain e f where "ru_log b = ru_log a @ e" "ended e = ms" "no_end e"
    "ru_log c = ru_log b @ f" "ended f = ns" "no_end f" by (auto simp: announces_def)
  then show ?thesis by (auto simp: announces_def intro!: exI [of _ "e @ f"])
qed

lemma announces_refl [simp]: "announces st st []"
  by (simp add: announces_def)

lemma announces_world: "on_world f st = (st', a) \<Longrightarrow> announces st st' []"
  by (auto simp: announces_def dest: on_world_log)

lemma announces_emit:
  "emit en ev st = (st', err) \<Longrightarrow> \<not> is_agent_end ev \<Longrightarrow> announces st st' (case message_ended ev of None \<Rightarrow> [] | Some m \<Rightarrow> [m])"
  by (auto simp: announces_def dest!: emit_log intro!: exI [of _ "[ev]"])

lemma announces_pair:
  "emit2 en (MessageStart m) (MessageEnd m) st = (st', None) \<Longrightarrow> announces st st' [m]"
  by (auto simp: announces_def dest!: emit2_log intro!: exI [of _ "[MessageStart m, MessageEnd m]"])

lemma finish_response_facts:
  assumes "finish_response en final added cx st = (st', Inr (cx', m))"
  shows "m = final \<and> announces st st' [AssistantMessage m]"
proof (cases added)
  case True
  with assms obtain st1 where "emit en (MessageEnd (AssistantMessage final)) st = (st1, None)" "st' = st1" "m = final"
    by (auto simp: finish_response_def Let_def split: prod.splits option.splits)
  then show ?thesis using announces_emit [of en "MessageEnd (AssistantMessage final)" st st1 None] by simp
next
  case False
  with assms have "emit2 en (MessageStart (AssistantMessage final)) (MessageEnd (AssistantMessage final)) st = (st', None)" "m = final"
    by (auto simp: finish_response_def Let_def split: prod.splits option.splits)
  then show ?thesis using announces_pair by blast
qed

lemma fold_events_facts:
  "fold_events en cfg resp evs builder added cx st = (st', Inr (cx', m)) \<Longrightarrow> announces st st' [AssistantMessage m]"
proof (induction evs arbitrary: builder added cx st)
  case Nil
  then show ?case by (auto dest: finish_response_facts)
next
  case (Cons ev evs)
  let ?b = "Fold builder ev"
  consider "ev_type ev = EvStart" | "ev_type ev = EvDone \<or> ev_type ev = EvError"
    | "ev_type ev \<noteq> EvStart" "\<not> is_terminal ev" by (auto simp: is_terminal_def)
  then show ?case
  proof cases
    case 1
    obtain st1 err where e: "emit en (MessageStart (AssistantMessage ?b)) st = (st1, err)" by fastforce
    with 1 Cons.prems have "err = None" by (cases err) (auto simp: Let_def)
    with 1 Cons.prems e have "fold_events en cfg resp evs ?b True (append_message (AssistantMessage ?b) cx) st1 = (st', Inr (cx', m))"
      by (simp add: Let_def)
    from announces_trans [OF announces_emit [OF e] Cons.IH [OF this]] show ?thesis by simp
  next
    case 2
    with Cons.prems show ?thesis by (auto simp: Let_def dest: finish_response_facts)
  next
    case 3
    show ?thesis
    proof (cases added)
      case True
      obtain st1 err where e: "emit en (MessageUpdate (AssistantMessage ?b) ev) st = (st1, err)" by fastforce
      with 3 True Cons.prems have "err = None" by (cases err; cases "ev_type ev") (auto simp: Let_def is_terminal_def)
      with 3 True Cons.prems e have "fold_events en cfg resp evs ?b True (set_last (AssistantMessage ?b) cx) st1 = (st', Inr (cx', m))"
        by (cases "ev_type ev") (auto simp: Let_def is_terminal_def)
      from announces_trans [OF announces_emit [OF e] Cons.IH [OF this]] show ?thesis by simp
    next
      case False
      with 3 Cons.prems have "fold_events en cfg resp evs ?b False cx st = (st', Inr (cx', m))"
        by (cases "ev_type ev") (auto simp: Let_def is_terminal_def)
      from Cons.IH [OF this] show ?thesis .
    qed
  qed
qed

lemma streamAssistantResponse_facts:
  assumes "streamAssistantResponse en cfg cx st = (st', Inr (cx', m))"
  shows "announces st st' [AssistantMessage m]"
proof -
  obtain st1 messages where 1: "(case lc_transform cfg of None \<Rightarrow> (st, ac_messages cx)
      | Some f \<Rightarrow> on_world (f (ac_messages cx)) st) = (st1, messages)" by fastforce
  obtain st2 llm where 2: "on_world (lc_convert cfg messages) st1 = (st2, llm)" by fastforce
  obtain st3 key where 3: "(case lc_api_key cfg of None \<Rightarrow> (st2, [])
      | Some f \<Rightarrow> on_world (f (mo_provider (lc_model cfg))) st2) = (st3, key)" by fastforce
  have "announces st st1 []" using 1 by (auto split: option.splits dest: announces_world)
  moreover have "announces st2 st3 []" using 3 by (auto split: option.splits dest: announces_world)
  ultimately have pre: "announces st st3 []"
    using announces_trans [OF announces_trans [OF _ announces_world [OF 2]]] by fastforce
  obtain st4 resp b where 4: "announces st3 st4 []" "fold_events en cfg resp (sr_events resp) b False cx st4 = (st', Inr (cx', m))"
    using assms 1 2 3 by (auto simp: streamAssistantResponse_def Let_def split: prod.splits dest: announces_world)
  from announces_trans [OF announces_trans [OF pre 4(1)] fold_events_facts [OF 4(2)]] show ?thesis by simp
qed

section \<open>One turn\<close>

text \<open>A turn of the transcript: the injected messages, the assistant message and its tool results.\<close>

type_synonym turn_rec = "message list \<times> assistant_message \<times> tool_result_message list"

fun turn_messages :: "turn_rec \<Rightarrow> message list" where
  "turn_messages (pend, m, rs) = pend @ AssistantMessage m # map ToolResultMessage rs"

fun turn_answered :: "bool \<Rightarrow> turn_rec \<Rightarrow> bool" where
  "turn_answered full (pend, m, rs) \<longleftrightarrow>
     (if failed m then rs = []
      else length rs \<le> length (tool_calls_of m) \<and> list_all2 answers (take (length rs) (tool_calls_of m)) rs
         \<and> (full \<longrightarrow> length rs = length (tool_calls_of m)))"

declare turn_answered.simps [simp del]

definition never_cancelled :: "'w env \<Rightarrow> bool" where
  "never_cancelled en \<longleftrightarrow> (\<forall>w. \<not> snd (en_ctx en w))"

lemma check_emit_Go: "check_emit lo r = (st, Go lo') \<Longrightarrow> r = (st, None) \<and> lo' = lo"
  by (auto simp: check_emit_def split: prod.splits option.splits)

lemma check_emit_not_done: "check_emit lo r \<noteq> (st, Stop ms None)"
  by (auto simp: check_emit_def split: prod.splits option.splits)

lemma and_then_Go: "and_then r f = (st, Go b) \<Longrightarrow> \<exists>st1 a. r = (st1, Go a) \<and> f st1 a = (st, Go b)"
  by (auto simp: and_then_def split: prod.splits progress.splits)

lemma and_then_Stop:
  "and_then r f = (st, Stop ms err) \<Longrightarrow> r = (st, Stop ms err) \<or> (\<exists>st1 a. r = (st1, Go a) \<and> f st1 a = (st, Stop ms err))"
  by (auto simp: and_then_def split: prod.splits progress.splits)

lemma and_then_step:
  assumes "and_then r f = (st', x)" and "x = Go y \<or> x = Stop ms None" and "\<And>st. r \<noteq> (st, Stop ms None)"
  obtains st1 a where "r = (st1, Go a)" "f st1 a = (st', x)"
proof (cases r)
  case (Pair st1 p)
  show ?thesis
  proof (cases p)
    case (Go a)
    with assms(1) Pair that show ?thesis by (simp add: and_then_def)
  qed (use assms Pair in \<open>auto simp: and_then_def\<close>)
qed

lemma begin_turn_facts:
  "begin_turn en lo st = (st', Go lo') \<Longrightarrow> lo_new lo' = lo_new lo \<and> lo_pending lo' = lo_pending lo \<and> announces st st' []"
  by (auto simp: begin_turn_def Let_def split: if_splits dest!: check_emit_Go dest: announces_emit)

lemma begin_turn_not_done: "begin_turn en lo st \<noteq> (st', Stop ms None)"
  by (auto simp: begin_turn_def Let_def check_emit_not_done)

lemma inject_facts:
  "inject en ms lo st = (st', Go lo') \<Longrightarrow> lo_new lo' = lo_new lo @ ms \<and> announces st st' ms"
proof (induction ms arbitrary: lo st)
  case Nil
  then show ?case by auto
next
  case (Cons m ms)
  then obtain st1 where e: "emit2 en (MessageStart m) (MessageEnd m) st = (st1, None)"
    and "inject en ms (add_message m lo) st1 = (st', Go lo')"
    by (auto dest!: and_then_Go check_emit_Go)
  from Cons.IH [OF this(2)] announces_trans [OF announces_pair [OF e]] show ?case
    by (fastforce simp: add_message_def)
qed

lemma inject_not_done: "inject en ms lo st \<noteq> (st', Stop r None)"
  by (induction ms arbitrary: lo st) (auto dest!: and_then_Stop simp: check_emit_not_done)

lemma respond_facts:
  "respond en lo st = (st', Go (lo', m)) \<Longrightarrow> lo_new lo' = lo_new lo @ [AssistantMessage m] \<and> announces st st' [AssistantMessage m]"
  by (auto simp: respond_def split: prod.splits sum.splits dest: streamAssistantResponse_facts)

lemma respond_not_done: "respond en lo st \<noteq> (st', Stop r None)"
  by (auto simp: respond_def split: prod.splits sum.splits)

lemma fold_add_message [simp]:
  "lo_new (fold (\<lambda>r. add_message (ToolResultMessage r)) rs lo) = lo_new lo @ map ToolResultMessage rs"
  by (induction rs arbitrary: lo) (auto simp: add_message_def)

lemma run_tools_facts:
  assumes "run_tools en sch m lo st = (st', Go (lo', rs))" and "\<not> failed m"
  shows "lo_new lo' = lo_new lo @ map ToolResultMessage rs \<and> announces st st' (map ToolResultMessage rs)
    \<and> turn_answered (never_cancelled en) (pend, m, rs)"
proof (cases "tool_calls_of m = []")
  case True
  with assms show ?thesis by (auto simp: run_tools_def turn_answered.simps)
next
  case False
  with assms(1) obtain b where b: "executeToolCalls en (lo_config lo) (lo_context lo) m (sch (lo_turn lo)) st = Some (st', Inr b)"
    "rs = ba_messages b" "lo_new lo' = lo_new lo @ map ToolResultMessage rs"
    by (auto simp: run_tools_def split: option.splits prod.splits sum.splits)
  from executeToolCalls_answered [OF b(1)] b assms(2) show ?thesis
    by (auto simp: announces_def answered_def never_cancelled_def turn_answered.simps)
qed

lemma run_tools_not_done: "run_tools en sch m lo st \<noteq> (st', Stop r None)"
  by (auto simp: run_tools_def split: option.splits prod.splits sum.splits if_splits)

lemma prepare_next_facts:
  "prepare_next m rs lo st = (st', lo') \<Longrightarrow> lo_new lo' = lo_new lo \<and> announces st st' []"
  by (auto simp: prepare_next_def apply_update_def Let_def split: option.splits prod.splits dest: announces_world)

lemma should_stop_facts: "should_stop m rs lo st = (st', b) \<Longrightarrow> announces st st' []"
  by (auto simp: should_stop_def split: option.splits dest: announces_world)

lemma poll_facts: "poll f st = (st', ms) \<Longrightarrow> announces st st' []"
  by (auto simp: poll_def split: option.splits dest: announces_world)

text \<open>How a run that returns no error ends.\<close>

definition ends_with :: "'w run \<Rightarrow> 'w run \<Rightarrow> message list \<Rightarrow> message list \<Rightarrow> bool" where
  "ends_with st st' ms all \<longleftrightarrow>
     (\<exists>evs. ru_log st' = ru_log st @ evs @ [AgentEnd all] \<and> ended evs = ms \<and> no_end evs)"

lemma ends_trans: "announces a b ms \<Longrightarrow> ends_with b c ns all \<Longrightarrow> ends_with a c (ms @ ns) all"
proof -
  assume "announces a b ms" "ends_with b c ns all"
  then obtain e f where "ru_log b = ru_log a @ e" "ended e = ms" "no_end e"
    "ru_log c = ru_log b @ f @ [AgentEnd all]" "ended f = ns" "no_end f" by (auto simp: announces_def ends_with_def)
  then show ?thesis by (auto simp: ends_with_def intro!: exI [of _ "e @ f"])
qed

lemma ends_emit: "emit en (AgentEnd all) st = (st', err) \<Longrightarrow> ends_with st st' [] all"
  by (auto simp: ends_with_def dest: emit_log intro!: exI [of _ "[]"])

lemma end_run_facts: "end_run en lo st = (st', Stop ms None) \<Longrightarrow> ms = lo_new lo \<and> ends_with st st' [] ms"
  by (auto simp: end_run_def split: prod.splits dest: ends_emit)

lemma end_run_stops: "end_run en lo st \<noteq> (st', Go x)"
  by (auto simp: end_run_def split: prod.splits)

lemma after_turn_Go:
  assumes "after_turn en m rs lo st = (st', Go lo')"
  shows "lo_new lo' = lo_new lo \<and> announces st st' []"
proof -
  obtain st1 lo1 where 1: "prepare_next m rs lo st = (st1, lo1)" by fastforce
  obtain st2 b where 2: "should_stop m rs lo1 st1 = (st2, b)" by fastforce
  with assms 1 have "b = False" by (cases b) (auto simp: after_turn_def end_run_stops)
  with assms 1 2 obtain p where 3: "poll (lc_steering (lo_config lo1)) st2 = (st', p)" "lo_new lo' = lo_new lo1"
    by (auto simp: after_turn_def split: prod.splits)
  from announces_trans [OF announces_trans [OF _ should_stop_facts [OF 2]] poll_facts [OF 3(1)]] prepare_next_facts [OF 1] 3(2)
  show ?thesis by fastforce
qed

lemma after_turn_Stop:
  fixes st :: "'w run"
  assumes "after_turn en m rs lo st = (st', Stop ms None)"
  shows "ms = lo_new lo \<and> ends_with st st' [] ms"
proof -
  obtain st1 lo1 where 1: "prepare_next m rs lo st = (st1, lo1)" by fastforce
  obtain st2 b where 2: "should_stop m rs lo1 st1 = (st2, b)" by fastforce
  with assms 1 have "b = True" by (cases b) (auto simp: after_turn_def split: prod.splits)
  with assms 1 2 have "end_run en lo1 st2 = (st', Stop ms None :: 'w loop progress)"
    by (simp add: after_turn_def)
  from end_run_facts [OF this] prepare_next_facts [OF 1] ends_trans [OF announces_trans [OF _ should_stop_facts [OF 2]]]
  show ?thesis by fastforce
qed

section \<open>The run\<close>

lemma tool_turn_Go:
  assumes "tool_turn en sch m lo st = (st', Go lo')" and "\<not> failed m"
  shows "\<exists>rs. lo_new lo' = lo_new lo @ map ToolResultMessage rs \<and> announces st st' (map ToolResultMessage rs)
    \<and> turn_answered (never_cancelled en) (pend, m, rs)"
proof -
  from and_then_Go [OF assms(1) [unfolded tool_turn_def]] obtain st1 lo1 rs where
    1: "run_tools en sch m lo st = (st1, Go (lo1, rs))"
    and 2: "and_then (check_emit lo1 (emit en (TurnEnd (AssistantMessage m) rs) st1))
      (\<lambda>st2 lo2. after_turn en m rs lo2 st2) = (st', Go lo')" by auto
  from and_then_Go [OF 2] obtain st2 where
    3: "emit en (TurnEnd (AssistantMessage m) rs) st1 = (st2, None)" and 4: "after_turn en m rs lo1 st2 = (st', Go lo')"
    by (auto dest!: check_emit_Go)
  note r = run_tools_facts [OF 1 assms(2), of pend]
  have "announces st st' (map ToolResultMessage rs)"
    using announces_trans [OF announces_trans [OF conjunct1 [OF conjunct2 [OF r]] announces_emit [OF 3]]
      conjunct2 [OF after_turn_Go [OF 4]]] by simp
  with r after_turn_Go [OF 4] show ?thesis by (intro exI [of _ rs]) simp
qed

lemma tool_turn_Stop:
  assumes "tool_turn en sch m lo st = (st', Stop ms None)" and "\<not> failed m"
  shows "\<exists>rs. ms = lo_new lo @ map ToolResultMessage rs \<and> ends_with st st' (map ToolResultMessage rs) ms
    \<and> turn_answered (never_cancelled en) (pend, m, rs)"
proof -
  from and_then_Stop [OF assms(1) [unfolded tool_turn_def]] run_tools_not_done obtain st1 lo1 rs where
    1: "run_tools en sch m lo st = (st1, Go (lo1, rs))"
    and 2: "and_then (check_emit lo1 (emit en (TurnEnd (AssistantMessage m) rs) st1))
      (\<lambda>st2 lo2. after_turn en m rs lo2 st2) = (st', Stop ms None)" by fastforce
  from and_then_Stop [OF 2] check_emit_not_done obtain st2 where
    3: "emit en (TurnEnd (AssistantMessage m) rs) st1 = (st2, None)" and 4: "after_turn en m rs lo1 st2 = (st', Stop ms None)"
    by (fastforce dest!: check_emit_Go)
  note r = run_tools_facts [OF 1 assms(2), of pend]
  have "ends_with st st' (map ToolResultMessage rs) ms"
    using ends_trans [OF announces_trans [OF conjunct1 [OF conjunct2 [OF r]] announces_emit [OF 3]]
      conjunct2 [OF after_turn_Stop [OF 4]]] by simp
  with r after_turn_Stop [OF 4] show ?thesis by (intro exI [of _ rs]) simp
qed

lemma failed_turn_Stop:
  assumes "failed_turn en m lo st = (st', Stop ms None)"
  shows "ms = lo_new lo \<and> ends_with st st' [] ms"
proof -
  from and_then_Stop [OF assms [unfolded failed_turn_def]] check_emit_not_done obtain st1 where
    1: "emit en (TurnEnd (AssistantMessage m) []) st = (st1, None)" and 2: "end_run en lo st1 = (st', Stop ms None :: 'a loop progress)"
    by (fastforce dest!: check_emit_Go)
  from ends_trans [OF announces_emit [OF 1] conjunct2 [OF end_run_facts [OF 2]]] end_run_facts [OF 2] show ?thesis by simp
qed

lemma failed_turn_stops: "failed_turn en m lo st \<noteq> (st', Go lo')"
  by (auto simp: failed_turn_def end_run_stops dest!: and_then_Go)

text \<open>The part of a turn up to the assistant message.\<close>

lemma turn_split:
  assumes "turn en sch lo st = (st', r)" and "r = Go lo' \<or> r = Stop ms None"
  shows "\<exists>st3 lo3 m. lo_new lo3 = lo_new lo @ lo_pending lo @ [AssistantMessage m]
     \<and> announces st st3 (lo_pending lo @ [AssistantMessage m])
     \<and> (if failed m then failed_turn en m lo3 st3 else tool_turn en sch m lo3 st3) = (st', r)"
proof -
  let ?rest3 = "\<lambda>st3 (lo3, m). if failed m then failed_turn en m lo3 st3 else tool_turn en sch m lo3 st3"
  let ?rest2 = "\<lambda>st2 lo2. and_then (respond en lo2 st2) ?rest3"
  let ?rest1 = "\<lambda>st1 lo1. and_then (inject en (lo_pending lo1) lo1 st1) ?rest2"
  obtain st1 lo1 where 1: "begin_turn en lo st = (st1, Go lo1)" "?rest1 st1 lo1 = (st', r)"
    using and_then_step [OF assms(1) [unfolded turn_def] assms(2) begin_turn_not_done] .
  obtain st2 lo2 where 2: "inject en (lo_pending lo1) lo1 st1 = (st2, Go lo2)" "?rest2 st2 lo2 = (st', r)"
    using and_then_step [OF 1(2) assms(2) inject_not_done] .
  obtain st3 p where 3: "respond en lo2 st2 = (st3, Go p)" "?rest3 st3 p = (st', r)"
    using and_then_step [OF 2(2) assms(2) respond_not_done] .
  obtain lo3 m where p: "p = (lo3, m)" by fastforce
  note 3 = 3 [unfolded p prod.case]
  note f = begin_turn_facts [OF 1(1)] inject_facts [OF 2(1)] respond_facts [OF 3(1)]
  from f have "announces st st3 ([] @ lo_pending lo1 @ [AssistantMessage m])" by (blast intro: announces_trans)
  with f 3(2) show ?thesis by (intro exI [of _ st3] exI [of _ lo3] exI [of _ m]) simp
qed

lemma turn_Go:
  assumes "turn en sch lo st = (st', Go lo')"
  shows "\<exists>t. lo_new lo' = lo_new lo @ turn_messages t \<and> announces st st' (turn_messages t)
    \<and> turn_answered (never_cancelled en) t \<and> \<not> failed (fst (snd t))"
proof -
  from turn_split [OF assms, of lo'] obtain st3 lo3 m where
    s: "lo_new lo3 = lo_new lo @ lo_pending lo @ [AssistantMessage m]" "announces st st3 (lo_pending lo @ [AssistantMessage m])"
    "(if failed m then failed_turn en m lo3 st3 else tool_turn en sch m lo3 st3) = (st', Go lo')" by auto
  then have nf: "\<not> failed m" by (auto simp: failed_turn_stops)
  with s(3) have tt: "tool_turn en sch m lo3 st3 = (st', Go lo')" by simp
  from tool_turn_Go [OF tt nf, of "lo_pending lo"] obtain rs where
    "lo_new lo' = lo_new lo3 @ map ToolResultMessage rs" "announces st3 st' (map ToolResultMessage rs)"
    "turn_answered (never_cancelled en) (lo_pending lo, m, rs)" by blast
  with s(1) announces_trans [OF s(2)] nf show ?thesis
    by (intro exI [of _ "(lo_pending lo, m, rs)"]) fastforce
qed

lemma turn_Stop:
  assumes "turn en sch lo st = (st', Stop ms None)"
  shows "\<exists>t. ms = lo_new lo @ turn_messages t \<and> ends_with st st' (turn_messages t) ms
    \<and> turn_answered (never_cancelled en) t"
proof -
  from turn_split [OF assms, of _ ms] obtain st3 lo3 m where
    s: "lo_new lo3 = lo_new lo @ lo_pending lo @ [AssistantMessage m]" "announces st st3 (lo_pending lo @ [AssistantMessage m])"
    "(if failed m then failed_turn en m lo3 st3 else tool_turn en sch m lo3 st3) = (st', Stop ms None)" by auto
  show ?thesis
  proof (cases "failed m")
    case True
    with s(3) failed_turn_Stop [of en m lo3 st3 st' ms] have "ms = lo_new lo3" "ends_with st3 st' [] ms" by auto
    with s(1) ends_trans [OF s(2), of st' "[]" ms] True show ?thesis
      by (intro exI [of _ "(lo_pending lo, m, [])"]) (simp add: turn_answered.simps)
  next
    case False
    with s(3) have tt: "tool_turn en sch m lo3 st3 = (st', Stop ms None)" by simp
    from tool_turn_Stop [OF tt False, of "lo_pending lo"] obtain rs where
      "ms = lo_new lo3 @ map ToolResultMessage rs" "ends_with st3 st' (map ToolResultMessage rs) ms"
      "turn_answered (never_cancelled en) (lo_pending lo, m, rs)" by blast
    with s(1) ends_trans [OF s(2)] show ?thesis by (intro exI [of _ "(lo_pending lo, m, rs)"]) fastforce
  qed
qed

definition good_turns :: "bool \<Rightarrow> turn_rec list \<Rightarrow> bool" where
  "good_turns full ts \<longleftrightarrow> ts \<noteq> [] \<and> list_all (turn_answered full) ts \<and> list_all (\<lambda>t. \<not> failed (fst (snd t))) (butlast ts)"

lemma run_turns_facts:
  "run_turns en sch n lo st = Some (st', ms, None) \<Longrightarrow>
   \<exists>ts. good_turns (never_cancelled en) ts \<and> ms = lo_new lo @ concat (map turn_messages ts)
      \<and> ends_with st st' (concat (map turn_messages ts)) ms"
proof (induction n arbitrary: lo st)
  case 0
  then show ?case by simp
next
  case (Suc n)
  obtain st1 r where t: "turn en sch lo st = (st1, r)" by fastforce
  show ?case
  proof (cases r)
    case (Stop ms1 err)
    with Suc.prems t have "turn en sch lo st = (st', Stop ms None)" by simp
    from turn_Stop [OF this] obtain tr where "ms = lo_new lo @ turn_messages tr"
      "ends_with st st' (turn_messages tr) ms" "turn_answered (never_cancelled en) tr" by blast
    then show ?thesis by (intro exI [of _ "[tr]"]) (simp add: good_turns_def)
  next
    case Wait
    with Suc.prems t show ?thesis by simp
  next
    case (Go lo1)
    from turn_Go [OF t [unfolded Go]] obtain tr where tr: "lo_new lo1 = lo_new lo @ turn_messages tr"
      "announces st st1 (turn_messages tr)" "turn_answered (never_cancelled en) tr" "\<not> failed (fst (snd tr))" by blast
    have continue: ?thesis if run: "run_turns en sch n lo2 st2 = Some (st', ms, None)" and new: "lo_new lo2 = lo_new lo1"
      and log: "announces st1 st2 []" for lo2 st2
    proof -
      from Suc.IH [OF run] obtain ts where ts: "good_turns (never_cancelled en) ts"
        "ms = lo_new lo2 @ concat (map turn_messages ts)" "ends_with st2 st' (concat (map turn_messages ts)) ms" by blast
      from ends_trans [OF announces_trans [OF tr(2) log] ts(3)] ts tr new show ?thesis
        by (intro exI [of _ "tr # ts"]) (auto simp: good_turns_def)
    qed
    show ?thesis
    proof (cases "lo_more lo1 \<or> lo_pending lo1 \<noteq> []")
      case True
      with Suc.prems t Go have "run_turns en sch n lo1 st1 = Some (st', ms, None)" by simp
      from continue [OF this] show ?thesis by simp
    next
      case False
      obtain st2 fu where p: "poll (lc_follow_up (lo_config lo1)) st1 = (st2, fu)" by fastforce
      show ?thesis
      proof (cases "fu = []")
        case True
        with Suc.prems t Go False p have e: "emit en (AgentEnd (lo_new lo1)) st2 = (st', None)" "ms = lo_new lo1"
          by (auto split: prod.splits)
        from ends_trans [OF announces_trans [OF tr(2) poll_facts [OF p]] ends_emit [OF e(1)]] e(2) tr show ?thesis
          by (intro exI [of _ "[tr]"]) (simp add: good_turns_def)
      next
        case fu: False
        with Suc.prems t Go False p have "run_turns en sch n (lo1\<lparr>lo_pending := fu\<rparr>) st2 = Some (st', ms, None)" by simp
        from continue [OF this _ poll_facts [OF p]] show ?thesis by simp
      qed
    qed
  qed
qed

lemma runLoop_facts:
  assumes "runLoop en sch n cfg cx ns st = Some (st', ms, None)"
  shows "\<exists>ts. good_turns (never_cancelled en) ts \<and> ms = ns @ concat (map turn_messages ts)
      \<and> ends_with st st' (concat (map turn_messages ts)) ms"
proof -
  obtain st1 p where p: "poll (lc_steering cfg) st = (st1, p)" by fastforce
  with assms run_turns_facts obtain ts where "good_turns (never_cancelled en) ts" "ms = ns @ concat (map turn_messages ts)"
    "ends_with st1 st' (concat (map turn_messages ts)) ms" by (fastforce simp: runLoop_def)
  with ends_trans [OF poll_facts [OF p]] show ?thesis by fastforce
qed

lemma emit_prompts_facts: "emit_prompts en ms st = (st', None) \<Longrightarrow> announces st st' ms"
proof (induction ms arbitrary: st)
  case (Cons m ms)
  obtain st1 e where e: "emit2 en (MessageStart m) (MessageEnd m) st = (st1, e)" by fastforce
  with Cons.prems have "e = None" "emit_prompts en ms st1 = (st', None)" by (cases e; simp)+
  with announces_trans [OF announces_pair Cons.IH] e show ?case by fastforce
qed simp

lemma runAgentLoop_facts:
  assumes "runAgentLoop en sch n cfg cx prompts st = Some (st', ms, None)"
  shows "\<exists>ts evs. good_turns (never_cancelled en) ts \<and> ms = prompts @ concat (map turn_messages ts)
      \<and> ru_log st' = ru_log st @ AgentStart # TurnStart # evs @ [AgentEnd ms] \<and> ended evs = ms \<and> no_end evs"
proof -
  obtain st1 e1 where 1: "emit2 en AgentStart TurnStart st = (st1, e1)" by fastforce
  with assms have [simp]: "e1 = None" by (cases e1) (auto simp: runAgentLoop_def Let_def)
  obtain st2 e2 where 2: "emit_prompts en prompts st1 = (st2, e2)" by fastforce
  with assms 1 have [simp]: "e2 = None" by (cases e2) (auto simp: runAgentLoop_def Let_def)
  from assms 1 2 have "runLoop en sch n cfg (cx\<lparr>ac_messages := ac_messages cx @ prompts\<rparr>) prompts st2 = Some (st', ms, None)"
    by (simp add: runAgentLoop_def Let_def)
  from runLoop_facts [OF this] obtain ts where ts: "good_turns (never_cancelled en) ts"
    "ms = prompts @ concat (map turn_messages ts)" "ends_with st2 st' (concat (map turn_messages ts)) ms" by blast
  from ends_trans [OF emit_prompts_facts ts(3)] 2 ts(2) have "ends_with st1 st' ms ms" by simp
  with emit2_log [of en AgentStart TurnStart st st1] 1 ts show ?thesis by (auto simp: ends_with_def)
qed

text \<open>C24: what a run returns, what it announces and what it did agree: when the loop returns without an
  error, the events are \<open>agent_start\<close>, \<open>turn_start\<close>, then messages and tool events, then one
  \<open>agent_end\<close>, the last event, that carries the returned messages; these are the prompts and all
  later messages, and exactly the messages ended in the events, in order.\<close>

theorem run_events_match_transcript:
  assumes "runAgentLoop en sch n cfg cx prompts st = Some (st', ms, None)"
  shows "\<exists>evs rest. ru_log st' = ru_log st @ AgentStart # TurnStart # evs @ [AgentEnd ms]
     \<and> \<not> list_ex is_agent_end evs \<and> List.map_filter message_ended evs = ms \<and> ms = prompts @ rest"
  using runAgentLoop_facts [OF assms] by (auto simp: no_end_def ended_def)


section \<open>The run behind a stream\<close>

text \<open>
  \<open>createAgentStream\<close> and the goroutine of \<open>AgentLoop\<close>: every emit is a \<open>Push\<close>, which never fails, and
  \<open>EndWith\<close> follows the run.  So the pushed events are the log of a run whose sink does nothing else.
\<close>

definition agent_end_result :: "agent_event \<Rightarrow> message list" where
  "agent_end_result ev = (case ev of AgentEnd ms \<Rightarrow> ms | _ \<Rightarrow> [])"

definition createAgentStream :: "(agent_event, message list) stream_state" where
  "createAgentStream = New []"

definition AgentLoop ::
  "'w env \<Rightarrow> (nat \<Rightarrow> nat list) \<Rightarrow> nat \<Rightarrow> 'w config \<Rightarrow> 'w agent_context \<Rightarrow> message list \<Rightarrow> 'w
     \<Rightarrow> ((agent_event, message list) stream_state \<times> message list \<times> string option) option" where
  "AgentLoop en sch n cfg cx prompts w =
    (case runAgentLoop (en\<lparr>en_emit := (\<lambda>ev w. (w, None))\<rparr>) sch n cfg cx prompts \<lparr>ru_world = w, ru_log = []\<rparr> of
       None \<Rightarrow> None
     | Some (st, ms, err) \<Rightarrow>
         Some (EndWith ms (foldl (\<lambda>s ev. Push is_agent_end agent_end_result ev s) createAgentStream (ru_log st)), ms, err))"

lemma push_open_events:
  "no_end evs \<Longrightarrow> \<not> sm_closed s \<Longrightarrow>
   foldl (\<lambda>s ev. Push is_agent_end agent_end_result ev s) s evs = s\<lparr>sm_queue := sm_queue s @ evs\<rparr>"
  by (induction evs arbitrary: s) (auto simp: Push_def Let_def)

text \<open>The stream of a run that succeeds resolves with the messages the run returns, hands the
  listeners every event of the run in order and nothing else, and the events end with the
  \<open>agent_end\<close> that closes it; the later \<open>EndWith\<close> changes nothing.\<close>

lemma AgentLoop_stream_result:
  assumes "AgentLoop en sch n cfg cx prompts w = Some (s, ms, None)"
  shows "Result s = Some (Inr ms) \<and> (\<exists>evs. sm_queue s = AgentStart # TurnStart # evs @ [AgentEnd ms])"
proof -
  obtain st where run: "runAgentLoop (en\<lparr>en_emit := (\<lambda>ev w. (w, None))\<rparr>) sch n cfg cx prompts \<lparr>ru_world = w, ru_log = []\<rparr>
      = Some (st, ms, None)"
    and s: "s = EndWith ms (foldl (\<lambda>s ev. Push is_agent_end agent_end_result ev s) createAgentStream (ru_log st))"
    using assms by (auto simp: AgentLoop_def split: option.splits)
  from runAgentLoop_facts [OF run] obtain evs where
    l: "ru_log st = (AgentStart # TurnStart # evs) @ [AgentEnd ms]" "no_end (AgentStart # TurnStart # evs)" by auto
  have fresh: "\<not> sm_closed createAgentStream" by (simp add: createAgentStream_def New_def)
  have "s = EndWith ms (Push is_agent_end agent_end_result (AgentEnd ms)
      (createAgentStream\<lparr>sm_queue := sm_queue createAgentStream @ AgentStart # TurnStart # evs\<rparr>))"
    unfolding s l(1) foldl_append push_open_events [OF l(2) fresh] by simp
  then show ?thesis
    by (auto simp: createAgentStream_def New_def stream_op_defs Let_def agent_end_result_def)
qed

section \<open>A concrete run\<close>

definition demo_reply :: "nat \<Rightarrow> assistant_message" where
  "demo_reply w = (if w = 0 then (empty_assistant [] [] [])\<lparr>am_content := [NewToolCall ''1'' ''t'' []], am_stop_reason := StopToolUse\<rparr>
     else (empty_assistant [] [] [])\<lparr>am_stop_reason := StopStop\<rparr>)"

definition demo_run_env :: "nat env" where
  "demo_run_env = demo_env\<lparr>en_stream := (\<lambda>_ _ _ w. (w, \<lparr>sr_events = [event EvDone],
     sr_result = Inr (Some (demo_reply w)), sr_result_ctx = Inr None\<rparr>))\<rparr>"

definition demo_prompt :: message where
  "demo_prompt = UserMessage \<lparr>um_content = StringContent ''go'', um_timestamp = 0\<rparr>"

definition demo_run :: "(nat run \<times> message list \<times> string option) option" where
  "demo_run = runAgentLoop demo_run_env (\<lambda>_. []) 2 (demo_config\<lparr>lc_tool_execution := ExecSequential\<rparr>)
     demo_context [demo_prompt] \<lparr>ru_world = 0, ru_log = []\<rparr>"

lemma demo_run_result:
  "case demo_run of Some (st, ms, err) \<Rightarrow> err = None \<and> length ms = 4 | None \<Rightarrow> False"
  by code_simp

theorem run_events_match_transcript_witness:
  "\<exists>st ms evs. demo_run = Some (st, ms, None) \<and> ru_log st = AgentStart # TurnStart # evs @ [AgentEnd ms]
     \<and> List.map_filter message_ended evs = ms \<and> length ms = 4"
proof -
  from demo_run_result obtain st ms where r: "demo_run = Some (st, ms, None)" "length ms = 4"
    by (auto split: option.splits)
  from run_events_match_transcript [OF r(1) [unfolded demo_run_def]] r show ?thesis by auto
qed


lemma AgentLoop_stream_result_witness:
  "\<exists>s ms. AgentLoop demo_run_env (\<lambda>_. []) 2 (demo_config\<lparr>lc_tool_execution := ExecSequential\<rparr>) demo_context [demo_prompt] 0
      = Some (s, ms, None) \<and> Result s = Some (Inr ms) \<and> length ms = 4"
proof -
  have same: "demo_run_env\<lparr>en_emit := (\<lambda>ev w. (w, None))\<rparr> = demo_run_env" by (simp add: demo_run_env_def demo_env_def)
  from demo_run_result obtain st ms where r: "demo_run = Some (st, ms, None)" "length ms = 4"
    by (auto split: option.splits)
  then obtain s where a: "AgentLoop demo_run_env (\<lambda>_. []) 2 (demo_config\<lparr>lc_tool_execution := ExecSequential\<rparr>) demo_context [demo_prompt] 0
      = Some (s, ms, None)"
    unfolding AgentLoop_def same demo_run_def [symmetric] r(1) option.case prod.case by blast
  from AgentLoop_stream_result [OF a] a r(2) show ?thesis by blast
qed

end
