(* ===== verification/Agent_Runtime.thy ===== *)
theory Agent_Runtime
  imports Agent_Loop
begin

text \<open>
  \<open>internal/agent/runtime.go\<close>: the stateful agent around the loop: its message queues, the state the
  event sink maintains, and the life cycle of a run.  Every method body between \<open>Lock\<close> and
  \<open>Unlock\<close> is a function on the state.  A listener is an identifier whose effect is given by \<open>lf\<close>,
  and the tools are values of a type \<open>'t\<close>, because functions on a world cannot be stored in it.
\<close>

section \<open>Queues of pending messages\<close>

definition QueueAll :: string where "QueueAll = ''all''"
definition QueueOneAtATime :: string where "QueueOneAtATime = ''one-at-a-time''"

record message_queue =
  pq_messages :: "message list"
  pq_mode :: string

definition Enqueue :: "message \<Rightarrow> message_queue \<Rightarrow> message_queue" where
  "Enqueue m q = q\<lparr>pq_messages := pq_messages q @ [m]\<rparr>"

definition HasItems :: "message_queue \<Rightarrow> bool" where
  "HasItems q \<longleftrightarrow> pq_messages q \<noteq> []"

definition Drain :: "message_queue \<Rightarrow> message list \<times> message_queue" where
  "Drain q =
    (if pq_mode q = QueueAll then (pq_messages q, q\<lparr>pq_messages := []\<rparr>)
     else case pq_messages q of
            [] \<Rightarrow> ([], q)
          | NilMessage # rest \<Rightarrow> ([], q)
          | first # rest \<Rightarrow> ([first], q\<lparr>pq_messages := rest\<rparr>))"

definition Clear :: "message_queue \<Rightarrow> message_queue" where
  "Clear q = q\<lparr>pq_messages := []\<rparr>"

text \<open>What the agent relies on: the queue is first in, first out, and draining takes from its head.\<close>

locale fifo =
  fixes items :: "'q \<Rightarrow> 'm list"
    and enq :: "'m \<Rightarrow> 'q \<Rightarrow> 'q"
    and drain :: "'q \<Rightarrow> 'm list \<times> 'q"
  assumes items_enq: "items (enq m q) = items q @ [m]"
    and items_drain: "fst (drain q) @ items (snd (drain q)) = items q"
begin

text \<open>Any sequence of the two operations: \<^const>\<open>Some\<close> message is put in, \<^const>\<open>None\<close> drains.\<close>

fun ops :: "'m option list \<Rightarrow> 'q \<Rightarrow> 'm list \<times> 'q" where
  "ops [] q = ([], q)"
| "ops (Some m # os) q = ops os (enq m q)"
| "ops (None # os) q = (case drain q of (ms, q') \<Rightarrow> case ops os q' of (rest, q'') \<Rightarrow> (ms @ rest, q''))"

lemma ops_fifo: "fst (ops os q) @ items (snd (ops os q)) = items q @ List.map_filter id os"
proof (induction os q rule: ops.induct)
  case (3 os q)
  then show ?case using items_drain [of q]
    by (auto simp: map_filter_simps split: prod.splits)
qed (simp_all add: map_filter_simps items_enq)

lemma drained_prefix: "prefix (fst (ops os q)) (items q @ List.map_filter id os)"
  using ops_fifo [of os q] by (metis prefixI)

end

interpretation pending: fifo pq_messages Enqueue Drain
  by unfold_locales (auto simp: Enqueue_def Drain_def split: list.splits message.splits)

text \<open>A nil message at the head of a one-at-a-time queue is never removed and hides the rest.\<close>

lemma Drain_stuck_on_nil:
  "pq_mode q \<noteq> QueueAll \<Longrightarrow> pq_messages q = NilMessage # rest \<Longrightarrow> Drain (Enqueue m q) = ([], Enqueue m q)"
  by (simp add: Drain_def Enqueue_def)

section \<open>The agent\<close>

record 't agent =
  ag_system_prompt :: string
  ag_model :: model
  ag_thinking :: string
  ag_tools :: "'t list"
  ag_messages :: "message list"
  ag_is_streaming :: bool
  ag_streaming :: message
  ag_pending :: "string list"
  ag_error :: string
  ag_listeners :: "nat list"
  ag_next_listener :: nat
  ag_steering :: message_queue
  ag_follow_up :: message_queue
  ag_active :: bool
  ag_event_err :: "string option"
  ag_skip_poll :: bool

definition defaultModel :: model where
  "defaultModel = \<lparr>mo_id = ''unknown'', mo_name = ''unknown'', mo_api = ''unknown'', mo_provider = ''unknown'',
     mo_input = [], mo_context_window = 0, mo_max_tokens = 0\<rparr>"

definition isZeroModel :: "model \<Rightarrow> bool" where
  "isZeroModel m \<longleftrightarrow> mo_id m = [] \<and> mo_name m = [] \<and> mo_api m = [] \<and> mo_provider m = [] \<and> mo_input m = []
     \<and> mo_context_window m = 0 \<and> mo_max_tokens m = 0"

text \<open>The seed of \<open>NewAgent\<close>: system prompt, model, thinking level, tools and messages, or nothing.\<close>

definition NewAgent ::
  "(string \<times> model \<times> string \<times> 't list \<times> message list) option \<Rightarrow> string \<Rightarrow> string \<Rightarrow> 't agent" where
  "NewAgent initial steeringMode followUpMode =
    (let base = \<lparr>ag_system_prompt = [], ag_model = defaultModel, ag_thinking = ThinkingOff, ag_tools = [],
           ag_messages = [], ag_is_streaming = False, ag_streaming = NilMessage, ag_pending = [], ag_error = [],
           ag_listeners = [], ag_next_listener = 0,
           ag_steering = \<lparr>pq_messages = [], pq_mode = (if steeringMode = [] then QueueOneAtATime else steeringMode)\<rparr>,
           ag_follow_up = \<lparr>pq_messages = [], pq_mode = (if followUpMode = [] then QueueOneAtATime else followUpMode)\<rparr>,
           ag_active = False, ag_event_err = None, ag_skip_poll = False\<rparr>
     in case initial of
          None \<Rightarrow> base
        | Some (prompt, m, thinking, tools, messages) \<Rightarrow>
            base\<lparr>ag_system_prompt := prompt, ag_model := (if isZeroModel m then defaultModel else m),
                 ag_thinking := (if thinking \<noteq> [] then thinking else ThinkingOff),
                 ag_tools := tools, ag_messages := messages\<rparr>)"

definition Subscribe :: "'t agent \<Rightarrow> 't agent \<times> nat" where
  "Subscribe a =
    (let lid = Suc (ag_next_listener a)
     in (a\<lparr>ag_next_listener := lid, ag_listeners := ag_listeners a @ [lid]\<rparr>, lid))"

definition removeListener :: "nat \<Rightarrow> 't agent \<Rightarrow> 't agent" where
  "removeListener lid a = a\<lparr>ag_listeners := remove1 lid (ag_listeners a)\<rparr>"

definition Steer :: "message \<Rightarrow> 't agent \<Rightarrow> 't agent" where
  "Steer m a = a\<lparr>ag_steering := Enqueue m (ag_steering a)\<rparr>"

definition FollowUp :: "message \<Rightarrow> 't agent \<Rightarrow> 't agent" where
  "FollowUp m a = a\<lparr>ag_follow_up := Enqueue m (ag_follow_up a)\<rparr>"

definition ClearAllQueues :: "'t agent \<Rightarrow> 't agent" where
  "ClearAllQueues a = a\<lparr>ag_steering := Clear (ag_steering a), ag_follow_up := Clear (ag_follow_up a)\<rparr>"

definition HasQueuedMessages :: "'t agent \<Rightarrow> bool" where
  "HasQueuedMessages a \<longleftrightarrow> HasItems (ag_steering a) \<or> HasItems (ag_follow_up a)"

definition ClearSteeringQueue :: "'t agent \<Rightarrow> 't agent" where
  "ClearSteeringQueue a = a\<lparr>ag_steering := Clear (ag_steering a)\<rparr>"

definition ClearFollowUpQueue :: "'t agent \<Rightarrow> 't agent" where
  "ClearFollowUpQueue a = a\<lparr>ag_follow_up := Clear (ag_follow_up a)\<rparr>"

definition SetSteeringMode :: "string \<Rightarrow> 't agent \<Rightarrow> 't agent" where
  "SetSteeringMode mode a = a\<lparr>ag_steering := (ag_steering a)\<lparr>pq_mode := mode\<rparr>\<rparr>"

definition SetFollowUpMode :: "string \<Rightarrow> 't agent \<Rightarrow> 't agent" where
  "SetFollowUpMode mode a = a\<lparr>ag_follow_up := (ag_follow_up a)\<lparr>pq_mode := mode\<rparr>\<rparr>"

definition SetModel :: "model \<Rightarrow> 't agent \<Rightarrow> 't agent" where
  "SetModel m a = a\<lparr>ag_model := m\<rparr>"

definition SetTools :: "'t list \<Rightarrow> 't agent \<Rightarrow> 't agent" where
  "SetTools ts a = a\<lparr>ag_tools := ts\<rparr>"

definition SetMessages :: "message list \<Rightarrow> 't agent \<Rightarrow> 't agent" where
  "SetMessages ms a = a\<lparr>ag_messages := ms\<rparr>"

definition SetSystemPrompt :: "string \<Rightarrow> 't agent \<Rightarrow> 't agent" where
  "SetSystemPrompt p a = a\<lparr>ag_system_prompt := p\<rparr>"

definition SetThinkingLevel :: "string \<Rightarrow> 't agent \<Rightarrow> 't agent" where
  "SetThinkingLevel l a = a\<lparr>ag_thinking := l\<rparr>"

definition Reset :: "'t agent \<Rightarrow> 't agent" where
  "Reset a =
     ClearAllQueues (a\<lparr>ag_messages := [], ag_is_streaming := False, ag_streaming := NilMessage,
       ag_pending := [], ag_error := []\<rparr>)"

section \<open>The event sink\<close>

text \<open>
  The world of a run: the agent and everything else.  \<open>PendingToolCalls\<close> is a set; the list that
  stands for it has no duplicates.
\<close>

record ('t, 'x) world =
  wo_agent :: "'t agent"
  wo_rest :: 'x

definition assistantErrorMessage :: "message \<Rightarrow> string option" where
  "assistantErrorMessage m =
    (case asAssistant m of
       None \<Rightarrow> None
     | Some am \<Rightarrow> if am_error_message am \<noteq> [] then Some (am_error_message am) else None)"

fun absorb :: "agent_event \<Rightarrow> 't agent \<Rightarrow> 't agent" where
  "absorb (MessageStart m) a = a\<lparr>ag_streaming := m\<rparr>"
| "absorb (MessageUpdate m ev) a = a\<lparr>ag_streaming := m\<rparr>"
| "absorb (MessageEnd m) a = a\<lparr>ag_streaming := NilMessage, ag_messages := ag_messages a @ [m]\<rparr>"
| "absorb (ToolExecutionStart tid name args) a = a\<lparr>ag_pending := List.insert tid (ag_pending a)\<rparr>"
| "absorb (ToolExecutionEnd tid name r err) a = a\<lparr>ag_pending := removeAll tid (ag_pending a)\<rparr>"
| "absorb (TurnEnd m rs) a =
     (case assistantErrorMessage m of Some e \<Rightarrow> a\<lparr>ag_error := e\<rparr> | None \<Rightarrow> a)"
| "absorb (AgentEnd ms) a = a\<lparr>ag_streaming := NilMessage\<rparr>"
| "absorb _ a = a"

definition on_agent :: "('t agent \<Rightarrow> 't agent) \<Rightarrow> ('t, 'x) world \<Rightarrow> ('t, 'x) world" where
  "on_agent f w = w\<lparr>wo_agent := f (wo_agent w)\<rparr>"

definition setEventErr :: "string \<Rightarrow> 't agent \<Rightarrow> 't agent" where
  "setEventErr err a = (if ag_event_err a = None then a\<lparr>ag_event_err := Some err\<rparr> else a)"

definition takeEventErr :: "('t, 'x) world \<Rightarrow> ('t, 'x) world \<times> string option" where
  "takeEventErr w = (on_agent (\<lambda>a. a\<lparr>ag_event_err := None\<rparr>) w, ag_event_err (wo_agent w))"

type_synonym ('t, 'x) listener = "agent_event \<Rightarrow> ('t, 'x) world \<Rightarrow> ('t, 'x) world \<times> string option"

fun notify :: "(nat \<Rightarrow> ('t, 'x) listener) \<Rightarrow> nat list \<Rightarrow> ('t, 'x) listener" where
  "notify lf [] ev w = (w, None)"
| "notify lf (l # ls) ev w =
    (case lf l ev w of
       (w1, Some err) \<Rightarrow> (on_agent (setEventErr err) w1, Some err)
     | (w1, None) \<Rightarrow> notify lf ls ev w1)"

text \<open>The state is changed first, then the copied listeners are called, and only in an active run.\<close>

definition processEvents :: "(nat \<Rightarrow> ('t, 'x) listener) \<Rightarrow> ('t, 'x) listener" where
  "processEvents lf ev w0 =
    (let w = on_agent (absorb ev) w0; listeners = ag_listeners (wo_agent w) in
     if \<not> ag_active (wo_agent w) then (w, Some ''Agent listener invoked outside active run'')
     else notify lf listeners ev w)"

section \<open>The life cycle of a run\<close>

definition startRunLocked :: "'t agent \<Rightarrow> 't agent" where
  "startRunLocked a =
     a\<lparr>ag_active := True, ag_event_err := None, ag_is_streaming := True, ag_streaming := NilMessage, ag_error := []\<rparr>"

definition finishRun :: "'t agent \<Rightarrow> 't agent" where
  "finishRun a = a\<lparr>ag_is_streaming := False, ag_streaming := NilMessage, ag_pending := [], ag_active := False\<rparr>"

text \<open>The events of \<open>handleRunFailure\<close>, in order until one fails.\<close>

fun process_all :: "(nat \<Rightarrow> ('t, 'x) listener) \<Rightarrow> agent_event list \<Rightarrow> ('t, 'x) world \<Rightarrow> ('t, 'x) world \<times> string option" where
  "process_all lf [] w = (w, None)"
| "process_all lf (ev # evs) w =
    (case processEvents lf ev w of (w1, Some err) \<Rightarrow> (w1, Some err) | (w1, None) \<Rightarrow> process_all lf evs w1)"

definition failure_message :: "model \<Rightarrow> bool \<Rightarrow> string \<Rightarrow> time_ms \<Rightarrow> assistant_message" where
  "failure_message m aborted err now =
     (empty_assistant (mo_api m) (mo_provider m) (mo_id m))
       \<lparr>am_content := [NewText []], am_stop_reason := (if aborted then StopAborted else StopError),
        am_error_message := err, am_timestamp := now\<rparr>"

definition handleRunFailure ::
  "(nat \<Rightarrow> ('t, 'x) listener) \<Rightarrow> string \<Rightarrow> bool \<Rightarrow> time_ms \<Rightarrow> ('t, 'x) world \<Rightarrow> ('t, 'x) world \<times> string option" where
  "handleRunFailure lf err aborted now w =
    (let m = AssistantMessage (failure_message (ag_model (wo_agent w)) aborted err now)
     in process_all lf [MessageStart m, MessageEnd m, TurnEnd m [], AgentEnd [m]] w)"

text \<open>
  \<open>runStarted\<close>: the executor returns, with an error or not, or panics; the recovered panic is an error
  too.  \<open>ctx\<close> reads \<open>runCtx.Err() != nil\<close> and \<open>now\<close> the clock.  The deferred \<open>finishRun\<close> always runs.
\<close>

datatype outcome = Returned "string option" | Panicked string

definition runStarted ::
  "(nat \<Rightarrow> ('t, 'x) listener) \<Rightarrow> (('t, 'x) world \<Rightarrow> bool) \<Rightarrow> (('t, 'x) world \<Rightarrow> time_ms)
     \<Rightarrow> (('t, 'x) world \<Rightarrow> ('t, 'x) world \<times> outcome) \<Rightarrow> ('t, 'x) world \<Rightarrow> ('t, 'x) world \<times> string option" where
  "runStarted lf ctx now body w =
    (case body w of
       (w1, out) \<Rightarrow>
        (let execErr = (case out of Returned e \<Rightarrow> e | Panicked p \<Rightarrow> Some p);
             (w2, ret) = (case execErr of None \<Rightarrow> (w1, None)
                          | Some err \<Rightarrow> handleRunFailure lf err (ctx w1) (now w1) w1)
         in (on_agent finishRun w2, ret)))"

section \<open>Prompt and Continue\<close>

record ('t, 'x) hooks =
  hk_convert :: "(message list \<Rightarrow> ('t, 'x) world \<Rightarrow> ('t, 'x) world \<times> message list) option"
  hk_transform :: "(message list \<Rightarrow> ('t, 'x) world \<Rightarrow> ('t, 'x) world \<times> message list) option"
  hk_api_key :: "(string \<Rightarrow> ('t, 'x) world \<Rightarrow> ('t, 'x) world \<times> string) option"
  hk_before :: "(('t, 'x) world before_context \<Rightarrow> ('t, 'x) world \<Rightarrow> ('t, 'x) world \<times> (string + before_result option)) option"
  hk_after :: "(('t, 'x) world after_context \<Rightarrow> ('t, 'x) world \<Rightarrow> ('t, 'x) world \<times> (string + after_result option)) option"
  hk_prepare_next :: "(('t, 'x) world \<Rightarrow> ('t, 'x) world \<times> ('t, 'x) world turn_update option) option"
  hk_prepare_next_ctx ::
    "(('t, 'x) world turn_context \<Rightarrow> ('t, 'x) world \<Rightarrow> ('t, 'x) world \<times> ('t, 'x) world turn_update option) option"
  hk_tool_execution :: string
  hk_tool :: "'t \<Rightarrow> ('t, 'x) world agent_tool"
  hk_listener :: "nat \<Rightarrow> ('t, 'x) listener"
  hk_stream_fn :: bool

definition is_transcript_role :: "message \<Rightarrow> bool" where
  "is_transcript_role m \<longleftrightarrow> (case Role m of None \<Rightarrow> False | Some r \<Rightarrow> r \<in> {''user'', ''assistant'', ''toolResult''})"

text \<open>A typed nil pointer panics in \<open>Role()\<close>; the loop's hooks are total here, so it is dropped instead.\<close>

definition defaultConvertToLlm :: "message list \<Rightarrow> message list" where
  "defaultConvertToLlm ms = filter is_transcript_role ms"

definition createContextSnapshot :: "('t, 'x) hooks \<Rightarrow> 't agent \<Rightarrow> ('t, 'x) world agent_context" where
  "createContextSnapshot hk a =
     \<lparr>ac_system_prompt = ag_system_prompt a, ac_messages = ag_messages a, ac_tools = map (hk_tool hk) (ag_tools a)\<rparr>"

definition poll_steering :: "('t, 'x) world \<Rightarrow> ('t, 'x) world \<times> message list" where
  "poll_steering w =
    (let a = wo_agent w in
     if ag_skip_poll a then (w\<lparr>wo_agent := a\<lparr>ag_skip_poll := False\<rparr>\<rparr>, [])
     else case Drain (ag_steering a) of (ms, q) \<Rightarrow> (w\<lparr>wo_agent := a\<lparr>ag_steering := q\<rparr>\<rparr>, ms))"

definition poll_follow_up :: "('t, 'x) world \<Rightarrow> ('t, 'x) world \<times> message list" where
  "poll_follow_up w =
    (let a = wo_agent w in case Drain (ag_follow_up a) of (ms, q) \<Rightarrow> (w\<lparr>wo_agent := a\<lparr>ag_follow_up := q\<rparr>\<rparr>, ms))"

definition createLoopConfig :: "('t, 'x) hooks \<Rightarrow> 't agent \<Rightarrow> ('t, 'x) world config" where
  "createLoopConfig hk a =
     \<lparr>lc_model = ag_model a,
      lc_options = \<lparr>ro_api_key = [],
        ro_reasoning = (if ag_thinking a \<noteq> [] \<and> ag_thinking a \<noteq> ThinkingOff then ag_thinking a else [])\<rparr>,
      lc_tool_execution = (if hk_tool_execution hk = [] then ExecParallel else hk_tool_execution hk),
      lc_convert = (case hk_convert hk of Some f \<Rightarrow> f | None \<Rightarrow> \<lambda>ms w. (w, defaultConvertToLlm ms)),
      lc_transform = hk_transform hk, lc_api_key = hk_api_key hk, lc_should_stop = None,
      lc_prepare_next = (case hk_prepare_next_ctx hk of Some f \<Rightarrow> Some f
                         | None \<Rightarrow> map_option (\<lambda>f c. f) (hk_prepare_next hk)),
      lc_steering = Some poll_steering, lc_follow_up = Some poll_follow_up,
      lc_before = hk_before hk, lc_after = hk_after hk\<rparr>"

definition run_env :: "('t, 'x) hooks \<Rightarrow> ('t, 'x) world env \<Rightarrow> ('t, 'x) world env" where
  "run_env hk en = en\<lparr>en_emit := processEvents (hk_listener hk)\<rparr>"

text \<open>What the executor closures do with the result of the loop.\<close>

definition loop_outcome ::
  "('t, 'x) world run \<times> message list \<times> string option \<Rightarrow> ('t, 'x) world \<times> outcome" where
  "loop_outcome r =
    (case r of
       (st, ms, Some err) \<Rightarrow> (ru_world st, Returned (Some err))
     | (st, ms, None) \<Rightarrow> (case takeEventErr (ru_world st) of (w, e) \<Rightarrow> (w, Returned e)))"

definition prompt_body ::
  "('t, 'x) hooks \<Rightarrow> ('t, 'x) world env \<Rightarrow> (nat \<Rightarrow> nat list) \<Rightarrow> nat \<Rightarrow> bool \<Rightarrow> message list
     \<Rightarrow> ('t, 'x) world \<Rightarrow> (('t, 'x) world \<times> outcome) option" where
  "prompt_body hk en sch n skip prompts w0 =
    (if \<not> hk_stream_fn hk then Some (w0, Returned (Some ''Agent streamFn is nil''))
     else let w = on_agent (\<lambda>a. a\<lparr>ag_skip_poll := skip\<rparr>) w0; a = wo_agent w in
       map_option loop_outcome
         (runAgentLoop (run_env hk en) sch n (createLoopConfig hk a) (createContextSnapshot hk a) prompts
            \<lparr>ru_world = w, ru_log = []\<rparr>))"

definition continue_body ::
  "('t, 'x) hooks \<Rightarrow> ('t, 'x) world env \<Rightarrow> (nat \<Rightarrow> nat list) \<Rightarrow> nat
     \<Rightarrow> ('t, 'x) world \<Rightarrow> (('t, 'x) world \<times> outcome) option" where
  "continue_body hk en sch n w0 =
    (if \<not> hk_stream_fn hk then Some (w0, Returned (Some ''Agent streamFn is nil''))
     else let w = on_agent (\<lambda>a. a\<lparr>ag_skip_poll := False\<rparr>) w0; a = wo_agent w in
       map_option loop_outcome
         (runAgentLoopContinue (run_env hk en) sch n (createLoopConfig hk a) (createContextSnapshot hk a)
            \<lparr>ru_world = w, ru_log = []\<rparr>))"

text \<open>A body that returns, run by \<open>runStarted\<close>.\<close>

definition run_body ::
  "('t, 'x) hooks \<Rightarrow> (('t, 'x) world \<Rightarrow> bool) \<Rightarrow> (('t, 'x) world \<Rightarrow> time_ms)
     \<Rightarrow> (('t, 'x) world \<Rightarrow> (('t, 'x) world \<times> outcome) option) \<Rightarrow> ('t, 'x) world \<Rightarrow> (('t, 'x) world \<times> string option) option" where
  "run_body hk ctx now body w =
     (case body w of None \<Rightarrow> None | Some r \<Rightarrow> Some (runStarted (hk_listener hk) ctx now (\<lambda>_. r) w))"

definition Prompt ::
  "('t, 'x) hooks \<Rightarrow> ('t, 'x) world env \<Rightarrow> (('t, 'x) world \<Rightarrow> bool) \<Rightarrow> (('t, 'x) world \<Rightarrow> time_ms)
     \<Rightarrow> (nat \<Rightarrow> nat list) \<Rightarrow> nat \<Rightarrow> message list \<Rightarrow> ('t, 'x) world \<Rightarrow> (('t, 'x) world \<times> string option) option" where
  "Prompt hk en ctx now sch n messages w =
    (if ag_active (wo_agent w) then
       Some (w, Some ''Agent is already processing a prompt. Use steer() or followUp() to queue messages, or wait for completion.'')
     else run_body hk ctx now (prompt_body hk en sch n False messages) (on_agent startRunLocked w))"

text \<open>\<open>Role()\<close> of a nil last message panics while the mutex is held: the outer \<^const>\<open>None\<close> too.\<close>

definition Continue ::
  "('t, 'x) hooks \<Rightarrow> ('t, 'x) world env \<Rightarrow> (('t, 'x) world \<Rightarrow> bool) \<Rightarrow> (('t, 'x) world \<Rightarrow> time_ms)
     \<Rightarrow> (nat \<Rightarrow> nat list) \<Rightarrow> nat \<Rightarrow> ('t, 'x) world \<Rightarrow> (('t, 'x) world \<times> string option) option" where
  "Continue hk en ctx now sch n w =
    (let a = wo_agent w in
     if ag_active a then Some (w, Some ''Agent is already processing. Wait for completion before continuing.'')
     else if ag_messages a = [] then Some (w, Some ''No messages to continue from'')
     else case Role (last (ag_messages a)) of
       None \<Rightarrow> None
     | Some r \<Rightarrow>
        if r = ''assistant'' then
          (case Drain (ag_steering a) of
             (queuedSteering, q) \<Rightarrow>
               if queuedSteering \<noteq> [] then
                 run_body hk ctx now (prompt_body hk en sch n True queuedSteering)
                   (on_agent (\<lambda>a. startRunLocked (a\<lparr>ag_steering := q\<rparr>)) w)
               else
                 (case Drain (ag_follow_up a) of
                    (queuedFollowUps, q') \<Rightarrow>
                      if queuedFollowUps \<noteq> [] then
                        run_body hk ctx now (prompt_body hk en sch n False queuedFollowUps)
                          (on_agent (\<lambda>a. startRunLocked (a\<lparr>ag_steering := q, ag_follow_up := q'\<rparr>)) w)
                      else Some (on_agent (\<lambda>a. a\<lparr>ag_steering := q, ag_follow_up := q'\<rparr>) w,
                                 Some ''Cannot continue from message role: assistant'')))
        else run_body hk ctx now (continue_body hk en sch n) (on_agent startRunLocked w))"

section \<open>The state follows the events\<close>

text \<open>A listener that leaves the agent alone; it may change the rest of the world and fail.\<close>

definition bystander :: "('t, 'x) listener \<Rightarrow> bool" where
  "bystander l \<longleftrightarrow> (\<forall>ev w. wo_agent (fst (l ev w)) = wo_agent w)"

lemma notify_agent:
  "(\<forall>l. bystander (lf l)) \<Longrightarrow> notify lf ls ev w = (w', e) \<Longrightarrow>
   wo_agent w' = (case e of None \<Rightarrow> wo_agent w | Some err \<Rightarrow> setEventErr err (wo_agent w))"
proof (induction ls arbitrary: w)
  case (Cons l ls)
  obtain w1 e1 where l: "lf l ev w = (w1, e1)" by fastforce
  have "wo_agent w1 = wo_agent w" using Cons.prems(1) l by (metis bystander_def fst_conv)
  with Cons l show ?case by (cases e1) (auto simp: on_agent_def split: option.splits)
qed auto

lemma processEvents_agent:
  assumes "\<forall>l. bystander (lf l)" and "processEvents lf ev w = (w', None)"
  shows "wo_agent w' = absorb ev (wo_agent w) \<and> ag_active (wo_agent w)"
proof -
  have act: "ag_active (absorb ev a) = ag_active a" for a :: "'a agent"
    by (cases ev) (auto split: option.splits)
  with assms notify_agent [of lf "ag_listeners (wo_agent (on_agent (absorb ev) w))" ev "on_agent (absorb ev) w" w' None]
  show ?thesis by (auto simp: processEvents_def Let_def on_agent_def split: if_splits)
qed

lemma process_all_agent:
  assumes "\<forall>l. bystander (lf l)"
  shows "process_all lf evs w = (w', None) \<Longrightarrow> wo_agent w' = fold absorb evs (wo_agent w)"
proof (induction evs arbitrary: w)
  case (Cons ev evs)
  obtain w1 e where p: "processEvents lf ev w = (w1, e)" by fastforce
  with Cons.prems have "e = None" "process_all lf evs w1 = (w', None)" by (cases e; simp)+
  with Cons.IH processEvents_agent [of lf ev w w1] assms p show ?case by simp
qed simp

lemma absorb_messages: "ag_messages (fold absorb evs a) = ag_messages a @ ended evs"
  by (induction evs arbitrary: a; simp) (rename_tac ev evs a, case_tac ev; simp split: option.splits)

text \<open>The identifiers of the tool calls started and not yet ended.\<close>

fun running_tools :: "agent_event list \<Rightarrow> string list \<Rightarrow> string list" where
  "running_tools [] ids = ids"
| "running_tools (ToolExecutionStart tid n a # evs) ids = running_tools evs (List.insert tid ids)"
| "running_tools (ToolExecutionEnd tid n r e # evs) ids = running_tools evs (removeAll tid ids)"
| "running_tools (_ # evs) ids = running_tools evs ids"

lemma absorb_pending: "ag_pending (fold absorb evs a) = running_tools evs (ag_pending a)"
  by (induction evs "ag_pending a" arbitrary: a rule: running_tools.induct) (auto split: option.splits)

lemma absorb_streaming:
  "ag_streaming (fold absorb evs a) =
     foldl (\<lambda>s ev. case ev of MessageStart m \<Rightarrow> m | MessageUpdate m _ \<Rightarrow> m | MessageEnd _ \<Rightarrow> NilMessage
       | AgentEnd _ \<Rightarrow> NilMessage | _ \<Rightarrow> s) (ag_streaming a) evs"
  by (induction evs arbitrary: a; simp) (rename_tac ev evs a, case_tac ev; simp split: option.splits)


section \<open>One run at a time, and always back to idle\<close>

definition idle :: "'t agent \<Rightarrow> bool" where
  "idle a \<longleftrightarrow> \<not> ag_active a \<and> \<not> ag_is_streaming a \<and> ag_streaming a = NilMessage \<and> ag_pending a = []"

lemma finishRun_idle [simp]: "idle (finishRun a)"
  by (simp add: idle_def finishRun_def)

lemma runStarted_idle: "runStarted lf ctx now body w = (w', r) \<Longrightarrow> idle (wo_agent w')"
  by (auto simp: runStarted_def on_agent_def Let_def split: prod.splits)

lemma run_body_idle: "run_body hk ctx now body w = Some (w', r) \<Longrightarrow> idle (wo_agent w')"
  by (auto simp: run_body_def split: option.splits dest: runStarted_idle)

text \<open>C20: at most one run is in flight and every run leaves the agent idle: \<open>Prompt\<close> and \<open>Continue\<close> on
  an active agent return the busy error and change nothing, and otherwise, however the loop, the
  tools or the listeners failed, the agent ends inactive, not streaming and without pending tool
  calls, ready for the next run.\<close>

theorem agent_single_run:
  "(ag_active (wo_agent w) \<longrightarrow>
      (\<exists>e. Prompt hk en ctx now sch n ms w = Some (w, Some e)) \<and> (\<exists>e. Continue hk en ctx now sch n w = Some (w, Some e)))
   \<and> (\<not> ag_active (wo_agent w) \<and> idle (wo_agent w) \<longrightarrow>
      (\<forall>w' r. Prompt hk en ctx now sch n ms w = Some (w', r) \<longrightarrow> idle (wo_agent w'))
    \<and> (\<forall>w' r. Continue hk en ctx now sch n w = Some (w', r) \<longrightarrow> idle (wo_agent w')))"
proof -
  have "idle (wo_agent w')" if "Continue hk en ctx now sch n w = Some (w', r)" "\<not> ag_active (wo_agent w)" "idle (wo_agent w)" for w' r
    using that
    by (auto simp: Continue_def Let_def on_agent_def idle_def [of "a\<lparr>ag_steering := q, ag_follow_up := q'\<rparr>" for a q q']
        split: if_splits option.splits prod.splits dest: run_body_idle)
       (auto simp: idle_def)
  then show ?thesis by (auto simp: Prompt_def Continue_def Let_def dest: run_body_idle)
qed

text \<open>C37: a run that fails leaves a trace: when the loop returned an error or panicked, and the listeners
  accept the report, the transcript ends with an assistant message that carries the error text and
  says whether the run was aborted, and the agent's error message is set to it.\<close>

theorem run_failure_reported:
  assumes "\<forall>l. bystander (lf l)" and "body w = (w1, out)" and "out = Returned (Some err) \<or> out = Panicked err"
    and "runStarted lf ctx now body w = (w', None)"
  shows "\<exists>m. ag_messages (wo_agent w') = ag_messages (wo_agent w1) @ [AssistantMessage m]
     \<and> am_error_message m = err \<and> am_stop_reason m = (if ctx w1 then StopAborted else StopError)
     \<and> ag_error (wo_agent w') = (if err = [] then ag_error (wo_agent w1) else err)"
proof -
  let ?m = "failure_message (ag_model (wo_agent w1)) (ctx w1) err (now w1)"
  let ?evs = "[MessageStart (AssistantMessage ?m), MessageEnd (AssistantMessage ?m), TurnEnd (AssistantMessage ?m) [],
      AgentEnd [AssistantMessage ?m]]"
  obtain w2 where p: "process_all lf ?evs w1 = (w2, None)" and w': "w' = on_agent finishRun w2"
    using assms(2-4) by (auto simp: runStarted_def handleRunFailure_def Let_def split: prod.splits)
  from process_all_agent [OF assms(1) p] have "wo_agent w2 = fold absorb ?evs (wo_agent w1)" .
  then show ?thesis
    by (intro exI [of _ ?m])
       (auto simp: w' on_agent_def finishRun_def assistantErrorMessage_def failure_message_def)
qed

text \<open>\<open>Continue\<close> on a transcript that ends with an assistant message starts a run only from what was
  queued: from the steering messages taken from the head of their queue when there are some, else
  from the follow-ups, else it is an error that starts nothing; messages are never dropped: what
  was taken are the prompts and the rest stays queued in order.\<close>

lemma Continue_from_queues:
  assumes "\<not> ag_active (wo_agent w)" and "ag_messages (wo_agent w) \<noteq> []"
    and "Role (last (ag_messages (wo_agent w))) = Some ''assistant''"
  shows "let a = wo_agent w; st = Drain (ag_steering a); fu = Drain (ag_follow_up a) in
     fst st @ pq_messages (snd st) = pq_messages (ag_steering a)
     \<and> fst fu @ pq_messages (snd fu) = pq_messages (ag_follow_up a)
     \<and> Continue hk en ctx now sch n w =
        (if fst st \<noteq> [] then run_body hk ctx now (prompt_body hk en sch n True (fst st))
             (on_agent (\<lambda>a. startRunLocked (a\<lparr>ag_steering := snd st\<rparr>)) w)
         else if fst fu \<noteq> [] then run_body hk ctx now (prompt_body hk en sch n False (fst fu))
             (on_agent (\<lambda>a. startRunLocked (a\<lparr>ag_follow_up := snd fu\<rparr>)) w)
         else Some (w, Some ''Cannot continue from message role: assistant''))"
proof -
  have keep: "snd (Drain q) = q" if "fst (Drain q) = []" for q
    using that by (auto simp: Drain_def split: if_splits list.splits message.splits)
  have same: "on_agent (\<lambda>a. startRunLocked (a\<lparr>ag_steering := ag_steering (wo_agent w), ag_follow_up := q\<rparr>)) w
      = on_agent (\<lambda>a. startRunLocked (a\<lparr>ag_follow_up := q\<rparr>)) w" for q
    by (simp add: on_agent_def startRunLocked_def)
  have none: "on_agent (\<lambda>a. a\<lparr>ag_steering := ag_steering (wo_agent w), ag_follow_up := ag_follow_up (wo_agent w)\<rparr>) w = w"
    by (simp add: on_agent_def)
  show ?thesis
    using assms pending.items_drain [of "ag_steering (wo_agent w)"] pending.items_drain [of "ag_follow_up (wo_agent w)"]
      keep [of "ag_steering (wo_agent w)"] keep [of "ag_follow_up (wo_agent w)"]
    by (simp only: Continue_def Let_def case_prod_unfold if_False if_True option.case refl same none cong: if_cong)
       (auto simp: same none)
qed

section \<open>Concrete agents\<close>

definition demo_agent :: "unit agent" where
  "demo_agent = (NewAgent None [] [] :: unit agent)\<lparr>ag_active := True\<rparr>"

definition demo_world :: "(unit, unit) world" where
  "demo_world = \<lparr>wo_agent = demo_agent, wo_rest = ()\<rparr>"

definition quiet_listener :: "nat \<Rightarrow> (unit, unit) listener" where
  "quiet_listener l ev w = (w, None)"

lemma quiet_bystander: "\<forall>l. bystander (quiet_listener l)"
  by (simp add: bystander_def quiet_listener_def)

lemmas demo_agent_defs = demo_world_def demo_agent_def NewAgent_def Let_def


theorem run_failure_reported_witness:
  "\<exists>w' m. runStarted quiet_listener (\<lambda>_. False) (\<lambda>_. 7) (\<lambda>w. (w, Panicked ''boom'')) demo_world = (w', None)
     \<and> ag_messages (wo_agent w') = [AssistantMessage m] \<and> am_error_message m = ''boom'' \<and> am_stop_reason m = StopError"
proof -
  obtain w' where run: "runStarted quiet_listener (\<lambda>_. False) (\<lambda>_. 7) (\<lambda>w. (w, Panicked ''boom'')) demo_world = (w', None)"
    by (simp add: runStarted_def handleRunFailure_def processEvents_def Let_def on_agent_def assistantErrorMessage_def
        failure_message_def demo_agent_defs)
  from run_failure_reported [OF quiet_bystander refl disjI2 [OF refl] run] run show ?thesis
    by (auto simp: demo_agent_defs)
qed

definition demo_hooks :: "(unit, unit) hooks" where
  "demo_hooks = \<lparr>hk_convert = None, hk_transform = None, hk_api_key = None, hk_before = None, hk_after = None,
     hk_prepare_next = None, hk_prepare_next_ctx = None, hk_tool_execution = [],
     hk_tool = (\<lambda>_. \<lparr>at_tool = \<lparr>to_name = ''t'', to_description = [], to_parameters = []\<rparr>, at_label = [], at_prepare = None,
        at_execution_mode = [], at_execute = (\<lambda>_ _. Return (Inl ''no''))\<rparr>),
     hk_listener = quiet_listener, hk_stream_fn = False\<rparr>"

definition demo_runtime_env :: "(unit, unit) world env" where
  "demo_runtime_env = \<lparr>en_emit = (\<lambda>ev w. (w, None)), en_ctx = (\<lambda>w. (w, False)), en_now = (\<lambda>w. (w, 0)),
     en_stream = (\<lambda>_ _ _ w. (w, \<lparr>sr_events = [], sr_result = Inr None, sr_result_ctx = Inr None\<rparr>)),
     en_validate = (\<lambda>t c. Inr (cb_arguments c))\<rparr>"

theorem agent_single_run_witness:
  "\<exists>e. Prompt demo_hooks demo_runtime_env (\<lambda>_. False) (\<lambda>_. 0) (\<lambda>_. []) 1 [demo_prompt] demo_world = Some (demo_world, Some e)"
proof -
  have "ag_active (wo_agent demo_world)" by (simp add: demo_agent_defs)
  with agent_single_run [of demo_world demo_hooks demo_runtime_env "\<lambda>_. False" "\<lambda>_. 0" "\<lambda>_. []" 1 "[demo_prompt]"]
  show ?thesis by blast
qed

lemma Continue_from_queues_witness:
  "Continue demo_hooks demo_runtime_env (\<lambda>_. False) (\<lambda>_. 0) (\<lambda>_. []) 1
     (demo_world\<lparr>wo_agent := demo_agent\<lparr>ag_active := False, ag_messages := [AssistantMessage (demo_reply 1)]\<rparr>\<rparr>)
   = Some (demo_world\<lparr>wo_agent := demo_agent\<lparr>ag_active := False, ag_messages := [AssistantMessage (demo_reply 1)]\<rparr>\<rparr>,
           Some ''Cannot continue from message role: assistant'')"
proof -
  let ?w = "demo_world\<lparr>wo_agent := demo_agent\<lparr>ag_active := False, ag_messages := [AssistantMessage (demo_reply 1)]\<rparr>\<rparr>"
  have "\<not> ag_active (wo_agent ?w)" "ag_messages (wo_agent ?w) \<noteq> []"
    "Role (last (ag_messages (wo_agent ?w))) = Some ''assistant''" by simp_all
  from Continue_from_queues [OF this, of demo_hooks demo_runtime_env "\<lambda>_. False" "\<lambda>_. 0" "\<lambda>_. []" 1]
  show ?thesis by (simp add: Drain_def demo_agent_defs)
qed

end
