(* ===== verification/Regex.thy ===== *)
theory Regex
  imports Prelude
begin

text \<open>
  Go's package \<open>regexp\<close>, as far as the program uses it: the syntax of its patterns, and a
  backtracking matcher that returns the match states in order of preference, so that its
  first answer is the leftmost-first match \<open>regexp\<close> specifies.  A text is the list of its runes
  (an invalid byte is U+FFFD); positions are rune positions.  \<open>\b\<close> is the ASCII word boundary,
  \<open>^\<close> and \<open>$\<close> are the ends of the text (\<open>(?m)^\<close> also follows a newline), and a submatch is
  recorded by its number.  The matcher is proved equivalent to a declarative match relation.
\<close>

section \<open>Syntax\<close>

datatype re =
    REps
  | RCls "rune \<Rightarrow> bool"
  | RSeq re re
  | RAlt re re
  | RStar re
  | RBegin
  | REnd
  | RLineBegin
  | RWordB
  | RGroup nat re

type_synonym mstate = "nat \<times> (nat \<times> nat \<times> nat) list"

definition word_rune :: "rune \<Rightarrow> bool" where
  "word_rune r \<longleftrightarrow> (48 \<le> r \<and> r \<le> 57) \<or> (65 \<le> r \<and> r \<le> 90) \<or> (97 \<le> r \<and> r \<le> 122) \<or> r = 95"

definition word_at :: "rune list \<Rightarrow> nat \<Rightarrow> bool" where
  "word_at t i \<longleftrightarrow> i < length t \<and> word_rune (t ! i)"

definition word_boundary :: "rune list \<Rightarrow> nat \<Rightarrow> bool" where
  "word_boundary t i \<longleftrightarrow> (0 < i \<and> word_at t (i - 1)) \<noteq> word_at t i"

section \<open>The matcher\<close>

fun star_from :: "(mstate \<Rightarrow> mstate list) \<Rightarrow> nat \<Rightarrow> mstate \<Rightarrow> mstate list" where
  "star_from f 0 st = [st]"
| "star_from f (Suc n) st =
     concat (map (star_from f n) (filter (\<lambda>st'. fst st < fst st') (f st))) @ [st]"

fun run_re :: "re \<Rightarrow> rune list \<Rightarrow> mstate \<Rightarrow> mstate list" where
  "run_re REps t st = [st]"
| "run_re (RCls P) t st =
     (if fst st < length t \<and> P (t ! fst st) then [(Suc (fst st), snd st)] else [])"
| "run_re (RSeq a b) t st = concat (map (run_re b t) (run_re a t st))"
| "run_re (RAlt a b) t st = run_re a t st @ run_re b t st"
| "run_re (RStar a) t st = star_from (run_re a t) (length t - fst st) st"
| "run_re RBegin t st = (if fst st = 0 then [st] else [])"
| "run_re REnd t st = (if fst st = length t then [st] else [])"
| "run_re RLineBegin t st = (if fst st = 0 \<or> t ! (fst st - 1) = 10 then [st] else [])"
| "run_re RWordB t st = (if word_boundary t (fst st) then [st] else [])"
| "run_re (RGroup n a) t st = map (\<lambda>st'. (fst st', (n, fst st, fst st') # snd st')) (run_re a t st)"

text \<open>
  \<open>re_find r t i\<close> is the leftmost match at or after position \<open>i\<close>: its start, its end and the
  submatches, the last one recorded first.  \<open>MatchString\<close> asks whether there is one.
\<close>

definition match_at :: "re \<Rightarrow> rune list \<Rightarrow> nat \<Rightarrow> mstate option" where
  "match_at r t i = (case run_re r t (i, []) of [] \<Rightarrow> None | st # _ \<Rightarrow> Some st)"

fun find_from :: "re \<Rightarrow> rune list \<Rightarrow> nat \<Rightarrow> nat \<Rightarrow> (nat \<times> mstate) option" where
  "find_from r t i 0 = map_option (Pair i) (match_at r t i)"
| "find_from r t i (Suc n) =
     (case match_at r t i of Some st \<Rightarrow> Some (i, st) | None \<Rightarrow> find_from r t (Suc i) n)"

definition re_find :: "re \<Rightarrow> rune list \<Rightarrow> nat \<Rightarrow> (nat \<times> mstate) option" where
  "re_find r t i = (if length t < i then None else find_from r t i (length t - i))"

definition MatchString :: "re \<Rightarrow> string \<Rightarrow> bool" where
  "MatchString r s \<longleftrightarrow> re_find r (runes s) 0 \<noteq> None"

text \<open>
  \<open>FindAllStringSubmatch(s, -1)\<close>: the matches from left to right, an empty match right after a
  match dropped.  The search position grows at every step, so the text length bounds the steps.
\<close>

fun find_all :: "re \<Rightarrow> rune list \<Rightarrow> nat \<Rightarrow> nat option \<Rightarrow> nat \<Rightarrow> (nat \<times> mstate) list" where
  "find_all r t i prev 0 = []"
| "find_all r t i prev (Suc n) =
     (case re_find r t i of
        None \<Rightarrow> []
      | Some (a, st) \<Rightarrow>
          (if fst st = i then
             (if Some a = prev then [] else [(a, st)]) @ find_all r t (Suc i) (Some (fst st)) n
           else (a, st) # find_all r t (fst st) (Some (fst st)) n))"

definition re_find_all :: "re \<Rightarrow> rune list \<Rightarrow> (nat \<times> mstate) list" where
  "re_find_all r t = find_all r t 0 None (Suc (length t))"

text \<open>The bytes of a text between two rune positions, and the bytes of submatch \<open>n\<close>.\<close>

type_synonym segs = "(rune \<times> string) list"

definition seg_bytes :: "segs \<Rightarrow> string" where
  "seg_bytes gs = concat (map snd gs)"

definition seg_slice :: "segs \<Rightarrow> nat \<Rightarrow> nat \<Rightarrow> string" where
  "seg_slice gs a b = seg_bytes (take (b - a) (drop a gs))"

definition submatch :: "segs \<Rightarrow> nat \<Rightarrow> mstate \<Rightarrow> string" where
  "submatch gs n st =
     (case map_of (snd st) n of None \<Rightarrow> [] | Some (a, b) \<Rightarrow> seg_slice gs a b)"

text \<open>\<open>ReplaceAllString\<close> with a replacement computed from the match.\<close>

fun replace_from :: "re \<Rightarrow> (segs \<Rightarrow> mstate \<Rightarrow> string) \<Rightarrow> segs \<Rightarrow> nat \<Rightarrow> nat \<Rightarrow> nat \<Rightarrow> string" where
  "replace_from r rep gs lme i 0 = seg_slice gs lme (length gs)"
| "replace_from r rep gs lme i (Suc n) =
     (case re_find r (map fst gs) i of
        None \<Rightarrow> seg_slice gs lme (length gs)
      | Some (a, st) \<Rightarrow>
          seg_slice gs lme a @ (if lme < fst st \<or> a = 0 then rep gs st else []) @
          replace_from r rep gs (fst st) (if i < fst st then fst st else Suc i) n)"

definition ReplaceAllString :: "re \<Rightarrow> (segs \<Rightarrow> mstate \<Rightarrow> string) \<Rightarrow> string \<Rightarrow> string" where
  "ReplaceAllString r rep s =
     (let gs = rune_segments s in replace_from r rep gs 0 0 (Suc (length gs)))"

section \<open>Derived patterns\<close>

definition ropt :: "re \<Rightarrow> re" where "ropt a = RAlt a REps"
definition rplus :: "re \<Rightarrow> re" where "rplus a = RSeq a (RStar a)"

fun rseq :: "re list \<Rightarrow> re" where
  "rseq [] = REps"
| "rseq [a] = a"
| "rseq (a # as) = RSeq a (rseq as)"

fun ralt :: "re list \<Rightarrow> re" where
  "ralt [] = RCls (\<lambda>_. False)"
| "ralt [a] = a"
| "ralt (a # as) = RAlt a (ralt as)"

definition rchar :: "char \<Rightarrow> re" where "rchar c = RCls (\<lambda>r. r = byte c)"
definition rlit :: "string \<Rightarrow> re" where "rlit s = rseq (map rchar s)"

text \<open>
  Under \<open>(?i)\<close> a rune is matched with the runes of its simple-folding orbit: an ASCII letter
  with its other case, \<open>k\<close> also with the Kelvin sign and \<open>s\<close> also with the long s.
\<close>

definition fold_class :: "(rune \<Rightarrow> bool) \<Rightarrow> rune \<Rightarrow> bool" where
  "fold_class P r \<longleftrightarrow>
     P r \<or>
     (97 \<le> r \<and> r \<le> 122 \<and> P (r - 32)) \<or> (65 \<le> r \<and> r \<le> 90 \<and> P (r + 32)) \<or>
     (r = 0x212A \<and> (P 75 \<or> P 107)) \<or> (r = 0x17F \<and> (P 83 \<or> P 115))"

definition rchar_i :: "char \<Rightarrow> re" where "rchar_i c = RCls (fold_class (\<lambda>r. r = byte c))"
definition rlit_i :: "string \<Rightarrow> re" where "rlit_i s = rseq (map rchar_i s)"

definition perl_space :: "rune \<Rightarrow> bool" where
  "perl_space r \<longleftrightarrow> r = 9 \<or> r = 10 \<or> r = 12 \<or> r = 13 \<or> r = 32"

definition posix_space :: "rune \<Rightarrow> bool" where
  "posix_space r \<longleftrightarrow> (9 \<le> r \<and> r \<le> 13) \<or> r = 32"

definition ascii_digit :: "rune \<Rightarrow> bool" where "ascii_digit r \<longleftrightarrow> 48 \<le> r \<and> r \<le> 57"

definition ascii_alnum :: "rune \<Rightarrow> bool" where
  "ascii_alnum r \<longleftrightarrow> ascii_digit r \<or> (65 \<le> r \<and> r \<le> 90) \<or> (97 \<le> r \<and> r \<le> 122)"

definition one_of :: "string \<Rightarrow> rune \<Rightarrow> bool" where "one_of s r \<longleftrightarrow> r \<in> byte ` set s"

definition rspaces :: re where "rspaces = RStar (RCls perl_space)"
definition rspaces1 :: re where "rspaces1 = rplus (RCls perl_space)"

text \<open>\<open>x{1,2}\<close> and \<open>x{0,2}\<close>.\<close>

definition rep12 :: "re \<Rightarrow> re" where "rep12 a = RSeq a (ropt a)"
definition rep02 :: "re \<Rightarrow> re" where "rep02 a = ropt (rep12 a)"

section \<open>The matcher against the match relation\<close>

inductive matches :: "rune list \<Rightarrow> re \<Rightarrow> nat \<Rightarrow> nat \<Rightarrow> bool" for t where
  eps: "matches t REps i i"
| cls: "i < length t \<Longrightarrow> P (t ! i) \<Longrightarrow> matches t (RCls P) i (Suc i)"
| seq: "matches t a i j \<Longrightarrow> matches t b j k \<Longrightarrow> matches t (RSeq a b) i k"
| altl: "matches t a i j \<Longrightarrow> matches t (RAlt a b) i j"
| altr: "matches t b i j \<Longrightarrow> matches t (RAlt a b) i j"
| star0: "matches t (RStar a) i i"
| star1: "matches t a i j \<Longrightarrow> matches t (RStar a) j k \<Longrightarrow> matches t (RStar a) i k"
| begin0: "matches t RBegin 0 0"
| end0: "matches t REnd (length t) (length t)"
| lbegin: "i = 0 \<or> t ! (i - 1) = 10 \<Longrightarrow> matches t RLineBegin i i"
| wordb: "word_boundary t i \<Longrightarrow> matches t RWordB i i"
| group: "matches t a i j \<Longrightarrow> matches t (RGroup n a) i j"

inductive_cases matchesE:
  "matches t REps i j" "matches t (RCls P) i j" "matches t (RSeq a b) i j"
  "matches t (RAlt a b) i j" "matches t RBegin i j" "matches t REnd i j"
  "matches t RLineBegin i j" "matches t RWordB i j" "matches t (RGroup n a) i j"

lemma matches_bounds: "matches t r i j \<Longrightarrow> i \<le> length t \<Longrightarrow> i \<le> j \<and> j \<le> length t"
  by (induction r i j rule: matches.induct) auto

lemma star_from_sound:
  assumes "\<And>st st'. st' \<in> set (f st) \<Longrightarrow> matches t a (fst st) (fst st')"
  shows "st' \<in> set (star_from f n st) \<Longrightarrow> matches t (RStar a) (fst st) (fst st')"
proof (induction n arbitrary: st)
  case 0
  then show ?case by (simp add: matches.star0)
next
  case (Suc n)
  then consider "st' = st" | u where "u \<in> set (f st)" "st' \<in> set (star_from f n u)"
    by auto
  then show ?case
    by cases (auto intro: matches.star0 matches.star1 Suc.IH assms)
qed

lemma run_re_sound: "st' \<in> set (run_re r t st) \<Longrightarrow> matches t r (fst st) (fst st')"
proof (induction r arbitrary: st st')
  case (RSeq a b)
  from RSeq.prems obtain u where "u \<in> set (run_re a t st)" "st' \<in> set (run_re b t u)" by auto
  with RSeq.IH show ?case by (blast intro: matches.seq)
next
  case (RStar a)
  from RStar.prems have m: "st' \<in> set (star_from (run_re a t) (length t - fst st) st)" by simp
  show ?case by (rule star_from_sound [OF _ m]) (rule RStar.IH)
next
  case (RAlt a b)
  from RAlt.prems have "st' \<in> set (run_re a t st) \<or> st' \<in> set (run_re b t st)" by simp
  with RAlt.IH [of st' st] show ?case by (blast intro: matches.altl matches.altr)
next
  case RBegin
  then show ?case by (auto intro: matches.begin0 split: if_splits)
next
  case REnd
  then show ?case using matches.end0 [of t] by (auto split: if_splits)
next
  case (RGroup n a)
  then obtain u where "u \<in> set (run_re a t st)" "fst st' = fst u" by auto
  with RGroup.IH [of u st] show ?case by (simp add: matches.group)
qed (auto intro: matches.intros split: if_splits)

lemma star_from_complete:
  assumes step: "\<And>st j. matches t a (fst st) j \<Longrightarrow> fst st \<le> length t \<Longrightarrow> \<exists>st'. st' \<in> set (f st) \<and> fst st' = j"
  shows "matches t r i k \<Longrightarrow> r = RStar a \<Longrightarrow> fst st = i \<Longrightarrow> i \<le> length t \<Longrightarrow> length t - i \<le> n
    \<Longrightarrow> \<exists>st'. st' \<in> set (star_from f n st) \<and> fst st' = k"
proof (induction r i k arbitrary: st n rule: matches.induct)
  case (star0 b i)
  then have "st \<in> set (star_from f n st)" by (cases n) simp_all
  with star0 show ?case by blast
next
  case (star1 b i j k)
  from star1.hyps(1) star1.prems have m: "matches t a (fst st) j" by simp
  from matches_bounds [OF m] star1.prems have bounds: "i \<le> j" "j \<le> length t" by auto
  show ?case
  proof (cases "j = i")
    case True
    with star1.IH(2) [of st n] star1.prems show ?thesis by simp
  next
    case False
    with bounds star1.prems obtain n' where n: "n = Suc n'" by (cases n) auto
    from step [OF m] star1.prems obtain u where u: "u \<in> set (f st)" "fst u = j" by auto
    have "length t - j \<le> n'" using star1.prems bounds False n by linarith
    with star1.IH(2) [of u n'] u star1.prems bounds
    obtain st' where "st' \<in> set (star_from f n' u)" "fst st' = k" by auto
    moreover have "fst st < fst u" using u False bounds star1.prems by simp
    with u(1) calculation(1) have "st' \<in> set (star_from f n st)"
      unfolding n star_from.simps set_append set_concat set_map set_filter by blast
    ultimately show ?thesis by blast
  qed
qed auto

lemma run_re_complete:
  "matches t r (fst st) j \<Longrightarrow> fst st \<le> length t \<Longrightarrow> \<exists>st'. st' \<in> set (run_re r t st) \<and> fst st' = j"
proof (induction r arbitrary: st j)
  case (RSeq a b)
  from RSeq.prems(1) obtain m where m: "matches t a (fst st) m" "matches t b m j"
    by (auto elim: matchesE)
  from RSeq.IH(1) [OF m(1) RSeq.prems(2)] obtain u where u: "u \<in> set (run_re a t st)" "fst u = m" by auto
  from matches_bounds [OF m(1) RSeq.prems(2)] u have "fst u \<le> length t" by simp
  with RSeq.IH(2) [of u j] m u obtain st' where "st' \<in> set (run_re b t u)" "fst st' = j" by auto
  with u have "st' \<in> set (run_re (RSeq a b) t st)" by (simp add: bexI [of _ u])
  with \<open>fst st' = j\<close> show ?case by blast
next
  case (RAlt a b)
  then have "matches t a (fst st) j \<or> matches t b (fst st) j" by (auto elim: matchesE)
  with RAlt show ?case by fastforce
next
  case (RStar a)
  show ?case
    using star_from_complete [of t a "run_re a t" "RStar a" "fst st" j st "length t - fst st"]
      RStar by simp
next
  case (RGroup n a)
  then have "matches t a (fst st) j" by (auto elim: matchesE)
  from RGroup.IH [OF this RGroup.prems(2)] show ?case by force
qed (auto elim: matchesE intro: exI)

lemma match_at_iff: "i \<le> length t \<Longrightarrow> match_at r t i \<noteq> None \<longleftrightarrow> (\<exists>j. matches t r i j)"
proof
  assume "match_at r t i \<noteq> None"
  then obtain st where "st \<in> set (run_re r t (i, []))"
    by (cases "run_re r t (i, [])") (auto simp: match_at_def)
  from run_re_sound [OF this] show "\<exists>j. matches t r i j" by auto
next
  assume i: "i \<le> length t" and "\<exists>j. matches t r i j"
  then obtain j where "matches t r (fst (i, [] :: (nat \<times> nat \<times> nat) list)) j" by auto
  from run_re_complete [OF this] i have "run_re r t (i, []) \<noteq> []" by auto
  then show "match_at r t i \<noteq> None" by (auto simp: match_at_def split: list.splits)
qed

lemma find_from_None:
  "find_from r t i n = None \<longleftrightarrow> (\<forall>k. i \<le> k \<longrightarrow> k \<le> i + n \<longrightarrow> match_at r t k = None)"
proof (induction n arbitrary: i)
  case 0
  then show ?case by (auto dest: le_antisym)
next
  case (Suc n)
  have "(\<forall>k. i \<le> k \<longrightarrow> k \<le> i + Suc n \<longrightarrow> match_at r t k = None) \<longleftrightarrow>
    match_at r t i = None \<and> (\<forall>k. Suc i \<le> k \<longrightarrow> k \<le> Suc i + n \<longrightarrow> match_at r t k = None)"
    by (auto simp: Suc_le_eq dest: le_neq_implies_less)
  with Suc show ?case by (simp split: option.splits)
qed

lemma find_from_Some:
  "find_from r t i n = Some (a, st) \<Longrightarrow>
     i \<le> a \<and> a \<le> i + n \<and> match_at r t a = Some st \<and> (\<forall>k. i \<le> k \<longrightarrow> k < a \<longrightarrow> match_at r t k = None)"
proof (induction n arbitrary: i)
  case 0
  then show ?case by auto
next
  case (Suc n)
  show ?case
  proof (cases "match_at r t i")
    case None
    with Suc.prems have "find_from r t (Suc i) n = Some (a, st)" by simp
    from Suc.IH [OF this] None show ?thesis
      by (auto simp: Suc_le_eq) (metis le_neq_implies_less)
  next
    case (Some u)
    with Suc.prems show ?thesis by auto
  qed
qed

lemma re_find_Some:
  assumes "re_find r t i = Some (a, st)"
  shows "i \<le> a" "a \<le> fst st" "fst st \<le> length t" "matches t r a (fst st)"
    "\<And>k j. i \<le> k \<Longrightarrow> k < a \<Longrightarrow> \<not> matches t r k j"
proof -
  from assms have le: "i \<le> length t" and f: "find_from r t i (length t - i) = Some (a, st)"
    by (auto simp: re_find_def split: if_splits)
  from find_from_Some [OF f] le have a: "i \<le> a" "a \<le> length t" "match_at r t a = Some st"
    and least: "\<And>k. i \<le> k \<Longrightarrow> k < a \<Longrightarrow> match_at r t k = None" by auto
  from a(3) have "st \<in> set (run_re r t (a, []))"
    by (auto simp: match_at_def split: list.splits)
  from run_re_sound [OF this] have m: "matches t r a (fst st)" by simp
  show "i \<le> a" "matches t r a (fst st)" using a m by auto
  show "a \<le> fst st" "fst st \<le> length t" using matches_bounds [OF m a(2)] by auto
  fix k j assume "i \<le> k" "k < a"
  with least [of k] a(2) match_at_iff [of k t r] show "\<not> matches t r k j" by auto
qed

lemma re_find_None_iff:
  "re_find r t i = None \<longleftrightarrow> (\<forall>k j. i \<le> k \<longrightarrow> k \<le> length t \<longrightarrow> \<not> matches t r k j)"
proof -
  have at: "k \<le> length t \<Longrightarrow> match_at r t k = None \<longleftrightarrow> (\<forall>j. \<not> matches t r k j)" for k
    using match_at_iff [of k t r] by auto
  show ?thesis
  proof (cases "length t < i")
    case True
    then show ?thesis by (auto simp: re_find_def)
  next
    case False
    then have "re_find r t i = None \<longleftrightarrow> (\<forall>k. i \<le> k \<longrightarrow> k \<le> length t \<longrightarrow> match_at r t k = None)"
      by (simp add: re_find_def find_from_None)
    then show ?thesis by (simp add: at)
  qed
qed

lemma MatchString_iff:
  "MatchString r s \<longleftrightarrow> (\<exists>i j. i \<le> length (runes s) \<and> matches (runes s) r i j)"
  by (auto simp: MatchString_def re_find_None_iff)

lemma MatchStringI: "i \<le> length (runes s) \<Longrightarrow> matches (runes s) r i j \<Longrightarrow> MatchString r s"
  by (auto simp: MatchString_iff)

lemma matches_rseq_Cons: "matches t (rseq (a # as)) i k \<longleftrightarrow> (\<exists>j. matches t a i j \<and> matches t (rseq as) j k)"
  by (cases as) (auto elim: matchesE intro: matches.intros)

lemma matches_ropt: "matches t (ropt a) i j \<longleftrightarrow> matches t a i j \<or> i = j"
  by (auto simp: ropt_def elim: matchesE intro: matches.intros)

lemma matches_ralt: "matches t (ralt as) i j \<longleftrightarrow> (\<exists>a \<in> set as. matches t a i j)"
  by (induction as rule: ralt.induct) (auto elim: matchesE intro: matches.intros)

end
