(* ===== verification/Json.thy ===== *)
theory Json
  imports Prelude "HOL-Library.Monad_Syntax"
begin

text \<open>
  The part of Go's package \<open>encoding/json\<close> the program uses: the decoder of a whole text into
  a value (\<open>json.Unmarshal\<close> into \<open>any\<close> and into maps), the compact encoder \<open>json.Marshal\<close> with
  its HTML escapes, and the assignment of object members to the fields of a struct, which
  ignores case.  A number is kept as its literal; decoding it as a \<open>float64\<close> fails when it is
  out of range.  The encoder's output decodes to the value it was given.
\<close>

section \<open>Values\<close>

datatype json =
    JNull
  | JBool bool
  | JNum string
  | JStr string
  | JArr "json list"
  | JObj "(string \<times> json) list"

fun json_depth :: "json \<Rightarrow> nat" where
  "json_depth (JArr vs) = Suc (foldr (\<lambda>v n. max (json_depth v) n) vs 0)"
| "json_depth (JObj ms) = Suc (foldr (\<lambda>kv n. max (json_depth (snd kv)) n) ms 0)"
| "json_depth _ = 0"

definition max_nesting_depth :: nat where "max_nesting_depth = 10000"

section \<open>Lexical level\<close>

definition json_space :: "char \<Rightarrow> bool" where
  "json_space c \<longleftrightarrow> byte c = 32 \<or> byte c = 9 \<or> byte c = 10 \<or> byte c = 13"

definition skip_ws :: "string \<Rightarrow> string" where "skip_ws s = dropWhile json_space s"

definition is_hex :: "char \<Rightarrow> bool" where
  "is_hex c \<longleftrightarrow> (48 \<le> byte c \<and> byte c \<le> 57) \<or> (97 \<le> byte c \<and> byte c \<le> 102) \<or> (65 \<le> byte c \<and> byte c \<le> 70)"

definition hex_value :: "char \<Rightarrow> nat" where
  "hex_value c = (if byte c \<le> 57 then byte c - 48 else if byte c \<le> 70 then byte c - 55 else byte c - 87)"

definition hex_number :: "string \<Rightarrow> nat" where
  "hex_number s = foldl (\<lambda>n c. n * 16 + hex_value c) 0 s"

text \<open>\<open>scan_str s\<close> reads a string literal after its opening quote: its raw body and the rest.\<close>

definition push1 :: "char \<Rightarrow> (string \<times> string) option \<Rightarrow> (string \<times> string) option" where
  "push1 c = map_option (\<lambda>(raw, r). (c # raw, r))"

fun scan_str :: "string \<Rightarrow> (string \<times> string) option" where
  "scan_str [] = None"
| "scan_str (c # t) =
     (if c = DQUOTE then Some ([], t)
      else if byte c < 32 then None
      else if c = BACKSLASH then
        (case t of
           [] \<Rightarrow> None
         | e # u \<Rightarrow>
             (if e = CHR ''u'' then
                (if 4 \<le> length u \<and> list_all is_hex (take 4 u) then push1 c (push1 e (scan_str u)) else None)
              else if e \<in> set ''\"/bfnrt'' \<or> e = BACKSLASH then push1 c (push1 e (scan_str u))
              else None))
      else push1 c (scan_str t))"

text \<open>
  \<open>unquote raw\<close> decodes the escapes of a scanned body: a surrogate pair is one rune, a lone
  surrogate and an invalid byte become U+FFFD.
\<close>

definition simple_escape :: "char \<Rightarrow> char" where
  "simple_escape e =
     (if e = CHR ''b'' then CHR 0x08 else if e = CHR ''f'' then CHR 0x0C
      else if e = CHR ''n'' then NL else if e = CHR ''r'' then CR
      else if e = CHR ''t'' then TAB else e)"

definition is_surrogate :: "nat \<Rightarrow> bool" where "is_surrogate r \<longleftrightarrow> 0xD800 \<le> r \<and> r < 0xE000"

definition getu4 :: "string \<Rightarrow> nat option" where
  "getu4 s =
     (if 6 \<le> length s \<and> s ! 0 = BACKSLASH \<and> s ! 1 = CHR ''u'' \<and> list_all is_hex (take 4 (drop 2 s))
      then Some (hex_number (take 4 (drop 2 s))) else None)"

definition utf16_decode :: "nat \<Rightarrow> nat option \<Rightarrow> nat option" where
  "utf16_decode r1 r2 =
     (case r2 of None \<Rightarrow> None
      | Some r2 \<Rightarrow>
        (if 0xD800 \<le> r1 \<and> r1 < 0xDC00 \<and> 0xDC00 \<le> r2 \<and> r2 < 0xE000
         then Some ((r1 - 0xD800) * 1024 + (r2 - 0xDC00) + 0x10000) else None))"

function unquote :: "string \<Rightarrow> string" where
  "unquote s =
     (case s of
        [] \<Rightarrow> []
      | c # t \<Rightarrow>
          (if c = BACKSLASH then
             (case getu4 s of
                Some r \<Rightarrow>
                  (let w = drop 6 s in
                   if is_surrogate r then
                     (case utf16_decode r (getu4 w) of
                        Some d \<Rightarrow> encode_rune d @ unquote (drop 6 w)
                      | None \<Rightarrow> encode_rune rune_error @ unquote w)
                   else encode_rune r @ unquote w)
              | None \<Rightarrow>
                  (case t of [] \<Rightarrow> [] | e # u \<Rightarrow> simple_escape e # unquote u))
           else if byte c < 128 then c # unquote t
           else encode_rune (fst (decode_rune s)) @ unquote (drop (snd (decode_rune s)) s)))"
  by pat_completeness auto
termination
proof (relation "measure length", goal_cases)
  case (7 s c t)
  with decode_rune_width [of s] show ?case by simp
qed (auto simp: length_pos_drop_less)

declare unquote.simps [simp del]

lemma unquote_code [code]:
  "unquote [] = []"
  "unquote (c # t) =
     (if c = BACKSLASH then
        (case getu4 (c # t) of
           Some r \<Rightarrow>
             (let w = drop 6 (c # t) in
              if is_surrogate r then
                (case utf16_decode r (getu4 w) of
                   Some d \<Rightarrow> encode_rune d @ unquote (drop 6 w)
                 | None \<Rightarrow> encode_rune rune_error @ unquote w)
              else encode_rune r @ unquote w)
         | None \<Rightarrow> (case t of [] \<Rightarrow> [] | e # u \<Rightarrow> simple_escape e # unquote u))
      else if byte c < 128 then c # unquote t
      else encode_rune (fst (decode_rune (c # t))) @ unquote (drop (snd (decode_rune (c # t))) (c # t)))"
  by (subst unquote.simps, simp)+

text \<open>A number literal at the front of a text, and the rest.\<close>

definition json_digit :: "char \<Rightarrow> bool" where "json_digit c \<longleftrightarrow> 48 \<le> byte c \<and> byte c \<le> 57"

definition scan_int :: "string \<Rightarrow> (string \<times> string) option" where
  "scan_int s =
     (case s of [] \<Rightarrow> None
      | c # t \<Rightarrow> if c = CHR ''0'' then Some ([c], t)
                 else if json_digit c then Some (c # takeWhile json_digit t, dropWhile json_digit t)
                 else None)"

definition scan_frac :: "string \<Rightarrow> (string \<times> string) option" where
  "scan_frac s =
     (case s of [] \<Rightarrow> Some ([], [])
      | c # t \<Rightarrow> if c = CHR ''.'' then
                   (if takeWhile json_digit t = [] then None
                    else Some (c # takeWhile json_digit t, dropWhile json_digit t))
                 else Some ([], s))"

definition scan_exp :: "string \<Rightarrow> (string \<times> string) option" where
  "scan_exp s =
     (case s of [] \<Rightarrow> Some ([], [])
      | c # t \<Rightarrow> if c = CHR ''e'' \<or> c = CHR ''E'' then
                   (let sign = takeWhile (\<lambda>d. d = CHR ''+'' \<or> d = CHR ''-'') (take 1 t);
                        u = drop (length sign) t
                    in if takeWhile json_digit u = [] then None
                       else Some (c # sign @ takeWhile json_digit u, dropWhile json_digit u))
                 else Some ([], s))"

definition scan_num :: "string \<Rightarrow> (string \<times> string) option" where
  "scan_num s =
     (let sign = takeWhile (\<lambda>d. d = CHR ''-'') (take 1 s) in do {
        (i, r1) \<leftarrow> scan_int (drop (length sign) s);
        (f, r2) \<leftarrow> scan_frac r1;
        (e, r3) \<leftarrow> scan_exp r2;
        Some (sign @ i @ f @ e, r3)
      })"

section \<open>The decoder\<close>

text \<open>
  Recursive descent; the fuel of every caller is more than twice the length of the text, and
  every two nested calls read at least one byte.
\<close>

definition expect_char :: "char \<Rightarrow> string \<Rightarrow> string option" where
  "expect_char c s = (case s of [] \<Rightarrow> None | d # t \<Rightarrow> if d = c then Some t else None)"

definition strip_word :: "string \<Rightarrow> json \<Rightarrow> string \<Rightarrow> (json \<times> string) option" where
  "strip_word w v s = (if prefix w s then Some (v, drop (length w) s) else None)"

fun parse_value :: "nat \<Rightarrow> string \<Rightarrow> (json \<times> string) option"
  and parse_elems :: "nat \<Rightarrow> string \<Rightarrow> (json list \<times> string) option"
  and parse_members :: "nat \<Rightarrow> string \<Rightarrow> ((string \<times> json) list \<times> string) option" where
  "parse_value 0 s = None"
| "parse_value (Suc n) s =
     (case skip_ws s of
        [] \<Rightarrow> None
      | c # t \<Rightarrow>
          (if c = CHR ''{'' then
             (case expect_char (CHR ''}'') (skip_ws t) of
                Some r \<Rightarrow> Some (JObj [], r)
              | None \<Rightarrow> map_option (apfst JObj) (parse_members n t))
           else if c = CHR ''['' then
             (case expect_char (CHR '']'') (skip_ws t) of
                Some r \<Rightarrow> Some (JArr [], r)
              | None \<Rightarrow> map_option (apfst JArr) (parse_elems n t))
           else if c = DQUOTE then map_option (apfst (\<lambda>raw. JStr (unquote raw))) (scan_str t)
           else if c = CHR ''t'' then strip_word ''true'' (JBool True) (c # t)
           else if c = CHR ''f'' then strip_word ''false'' (JBool False) (c # t)
           else if c = CHR ''n'' then strip_word ''null'' JNull (c # t)
           else map_option (apfst JNum) (scan_num (c # t))))"
| "parse_elems 0 s = None"
| "parse_elems (Suc n) s = do {
     (v, r) \<leftarrow> parse_value n s;
     (case skip_ws r of
        [] \<Rightarrow> None
      | c # t \<Rightarrow> (if c = CHR '','' then map_option (apfst ((#) v)) (parse_elems n t)
                  else if c = CHR '']'' then Some ([v], t) else None))
   }"
| "parse_members 0 s = None"
| "parse_members (Suc n) s = do {
     t1 \<leftarrow> expect_char DQUOTE (skip_ws s);
     (raw, t2) \<leftarrow> scan_str t1;
     t3 \<leftarrow> expect_char (CHR '':'') (skip_ws t2);
     (v, r) \<leftarrow> parse_value n t3;
     (case skip_ws r of
        [] \<Rightarrow> None
      | c # t \<Rightarrow> (if c = CHR '','' then map_option (apfst ((#) (unquote raw, v))) (parse_members n t)
                  else if c = CHR ''}'' then Some ([(unquote raw, v)], t) else None))
   }"

definition parse_json :: "string \<Rightarrow> json option" where
  "parse_json s = do {
     (v, r) \<leftarrow> parse_value (2 * length s + 2) s;
     (if skip_ws r = [] \<and> json_depth v \<le> max_nesting_depth then Some v else None)
   }"

text \<open>
  \<open>strconv.ParseFloat\<close> fails with a range error exactly on the literals whose magnitude is at
  least the midpoint after the largest finite \<open>float64\<close>.
\<close>

definition digits_value :: "string \<Rightarrow> nat" where
  "digits_value s = foldl (\<lambda>n c. n * 10 + (byte c - 48)) 0 s"

definition literal_parts :: "string \<Rightarrow> string \<times> string \<times> string" where
  "literal_parts lit =
     (let body = filter (\<lambda>c. c \<noteq> CHR ''-'') (takeWhile (\<lambda>c. c \<noteq> CHR ''e'' \<and> c \<noteq> CHR ''E'') lit) in
      (takeWhile (\<lambda>c. c \<noteq> CHR ''.'') body, drop 1 (dropWhile (\<lambda>c. c \<noteq> CHR ''.'') body),
       drop 1 (dropWhile (\<lambda>c. c \<noteq> CHR ''e'' \<and> c \<noteq> CHR ''E'') lit)))"

definition exponent_value :: "string \<Rightarrow> int" where
  "exponent_value s =
     (case s of [] \<Rightarrow> 0
      | c # t \<Rightarrow> if c = CHR ''-'' then - int (digits_value t)
                 else if c = CHR ''+'' then int (digits_value t) else int (digits_value s))"

definition float_overflow :: "string \<Rightarrow> bool" where
  "float_overflow lit =
     (let (i, f, e) = literal_parts lit; m = int (digits_value (i @ f));
          x = exponent_value e - int (length f) in
      m \<noteq> 0 \<and>
      (if 0 \<le> x then 2 ^ 1024 - 2 ^ 970 \<le> m * 10 ^ nat x
       else (2 ^ 1024 - 2 ^ 970) * 10 ^ nat (- x) \<le> m))"

fun json_floats_ok :: "json \<Rightarrow> bool" where
  "json_floats_ok (JNum lit) \<longleftrightarrow> \<not> float_overflow lit"
| "json_floats_ok (JArr vs) \<longleftrightarrow> list_all json_floats_ok vs"
| "json_floats_ok (JObj ms) \<longleftrightarrow> list_all (\<lambda>kv. json_floats_ok (snd kv)) ms"
| "json_floats_ok _ \<longleftrightarrow> True"

text \<open>
  \<open>json.Unmarshal\<close> into a variable of type \<open>map[string]any\<close>, its error or the members; \<open>null\<close>
  gives the nil map, and a repeated key keeps its last value.
\<close>

definition unmarshal_map :: "string \<Rightarrow> (string \<times> json) list option" where
  "unmarshal_map s =
     (case parse_json s of
        Some (JObj ms) \<Rightarrow> if list_all (\<lambda>kv. json_floats_ok (snd kv)) ms then Some ms else None
      | Some JNull \<Rightarrow> Some []
      | _ \<Rightarrow> None)"

definition map_key :: "(string \<times> json) list \<Rightarrow> string \<Rightarrow> json option" where
  "map_key ms k = map_of (rev ms) k"

text \<open>
  Members of an object are assigned to struct fields one after the other: the field with that
  name, else the field whose name is equal up to ASCII case and the folds of \<open>k\<close> and \<open>s\<close>.
\<close>

definition fold_rune :: "rune \<Rightarrow> rune" where
  "fold_rune r = (if 97 \<le> r \<and> r \<le> 122 then r - 32 else if r = 0x212A then 75 else if r = 0x17F then 83 else r)"

definition fold_name :: "string \<Rightarrow> rune list" where
  "fold_name s = map fold_rune (runes s)"

definition field_for :: "string list \<Rightarrow> string \<Rightarrow> string option" where
  "field_for fields k =
     (if k \<in> set fields then Some k else find (\<lambda>f. fold_name f = fold_name k) fields)"

definition field_values :: "string list \<Rightarrow> (string \<times> json) list \<Rightarrow> string \<Rightarrow> json list" where
  "field_values fields ms f = map snd (filter (\<lambda>kv. field_for fields (fst kv) = Some f) ms)"

section \<open>The encoder\<close>

definition hex_digit :: "nat \<Rightarrow> char" where
  "hex_digit n = char_of (if n < 10 then 48 + n else 87 + n)"

definition unicode_escape :: "nat \<Rightarrow> string" where
  "unicode_escape r =
     [BACKSLASH, CHR ''u'', hex_digit (r div 4096 mod 16), hex_digit (r div 256 mod 16),
      hex_digit (r div 16 mod 16), hex_digit (r mod 16)]"

definition escape_ascii :: "char \<Rightarrow> string" where
  "escape_ascii c =
     (if c = DQUOTE \<or> c = BACKSLASH then [BACKSLASH, c]
      else if byte c = 8 then [BACKSLASH, CHR ''b'']
      else if byte c = 12 then [BACKSLASH, CHR ''f'']
      else if c = NL then [BACKSLASH, CHR ''n'']
      else if c = CR then [BACKSLASH, CHR ''r'']
      else if c = TAB then [BACKSLASH, CHR ''t'']
      else if byte c < 32 \<or> c = CHR ''<'' \<or> c = CHR ''>'' \<or> c = CHR ''&'' then unicode_escape (byte c)
      else [c])"

definition escape_segment :: "rune \<times> string \<Rightarrow> string" where
  "escape_segment g =
     (if fst g < 128 then concat (map escape_ascii (snd g))
      else if length (snd g) = 1 then unicode_escape rune_error
      else if fst g = 0x2028 \<or> fst g = 0x2029 then unicode_escape (fst g)
      else snd g)"

definition escape_body :: "string \<Rightarrow> string" where
  "escape_body s = concat (map escape_segment (rune_segments s))"

definition print_string :: "string \<Rightarrow> string" where
  "print_string s = [DQUOTE] @ escape_body s @ [DQUOTE]"

fun print_json :: "json \<Rightarrow> string" where
  "print_json JNull = ''null''"
| "print_json (JBool b) = (if b then ''true'' else ''false'')"
| "print_json (JNum lit) = lit"
| "print_json (JStr s) = print_string s"
| "print_json (JArr vs) = ''['' @ join '','' (map print_json vs) @ '']''"
| "print_json (JObj ms) =
     ''{'' @ join '','' (map (\<lambda>kv. print_string (fst kv) @ '':'' @ print_json (snd kv)) ms) @ ''}''"


section \<open>Round trip of the string encoder\<close>

definition seg_ascii :: "rune \<times> string \<Rightarrow> bool" where
  "seg_ascii g \<longleftrightarrow> fst g < 128 \<and> snd g = [char_of (fst g)]"

definition seg_multi :: "rune \<times> string \<Rightarrow> bool" where
  "seg_multi g \<longleftrightarrow> 128 \<le> fst g \<and> 1 < length (snd g) \<and> (\<forall>c \<in> set (snd g). 128 \<le> byte c) \<and>
     (\<forall>rest. decode_rune (snd g @ rest) = (fst g, length (snd g))) \<and> encode_rune (fst g) = snd g"

definition seg_bad :: "rune \<times> string \<Rightarrow> bool" where
  "seg_bad g \<longleftrightarrow> fst g = rune_error \<and> (\<exists>c. snd g = [c] \<and> 128 \<le> byte c)"

lemma digit64: "z < 64 \<Longrightarrow> (a * 64 + z) mod 64 = z" "z < 64 \<Longrightarrow> (a * 64 + z) div 64 = a" for z a :: nat
  by simp_all

lemma mod_offset:
  fixes b k m :: nat
  assumes "k \<le> b" "b < k + m" "k mod m = 0"
  shows "b = k + b mod m" "b mod m < m"
proof -
  obtain d where d: "b = k + d" using assms(1) le_Suc_ex by blast
  then have "d < m" using assms(2) by simp
  moreover have "b mod m = d mod m" unfolding d using assms(3) by (metis mod_add_left_eq add_0)
  ultimately show "b = k + b mod m" "b mod m < m" using d by simp_all
qed

lemma char_of_byte_eq: "byte c = n \<Longrightarrow> char_of n = c"
  by auto

lemma encode_dec2:
  assumes "194 \<le> byte c0" "byte c0 \<le> 223" "cont_byte c1"
  shows "encode_rune (dec2 (byte c0) c1) = [c0, c1]" "128 \<le> dec2 (byte c0) c1"
proof -
  define x y where "x = byte c0 mod 32" and "y = byte c1 mod 64"
  have x: "byte c0 = 192 + x" "2 \<le> x" "x < 32"
  proof -
    show "byte c0 = 192 + x" "x < 32" using mod_offset [of 192 "byte c0" 32] assms unfolding x_def by simp_all
    with assms show "2 \<le> x" by linarith
  qed
  have y: "byte c1 = 128 + y" "y < 64"
    using mod_offset [of 128 "byte c1" 64] assms unfolding y_def cont_byte_def by simp_all
  have r: "dec2 (byte c0) c1 = x * 64 + y" by (simp add: dec2_def x_def y_def)
  have "(x * 64 + y) div 64 = x" "(x * 64 + y) mod 64 = y" using y by simp_all
  then show "encode_rune (dec2 (byte c0) c1) = [c0, c1]"
    unfolding r using x y by (simp add: encode_rune_def Let_def char_of_byte_eq)
  show "128 \<le> dec2 (byte c0) c1" unfolding r using x by simp
qed

lemma encode_dec3:
  assumes "224 \<le> byte c0" "byte c0 \<le> 239" "second_ok (byte c0) (byte c1)" "cont_byte c2"
  shows "encode_rune (dec3 (byte c0) c1 c2) = [c0, c1, c2]" "128 \<le> dec3 (byte c0) c1 c2"
proof -
  define x y z where "x = byte c0 mod 16" and "y = byte c1 mod 64" and "z = byte c2 mod 64"
  have x: "byte c0 = 224 + x" "x < 16"
    using mod_offset [of 224 "byte c0" 16] assms unfolding x_def by simp_all
  have b1: "128 \<le> byte c1" "byte c1 \<le> 191" using assms(3) by (auto simp: second_ok_def split: if_splits)
  have y: "byte c1 = 128 + y" "y < 64" 
    using mod_offset [of 128 "byte c1" 64] b1 unfolding y_def by simp_all
  have z: "byte c2 = 128 + z" "z < 64" 
    using mod_offset [of 128 "byte c2" 64] assms(4) unfolding z_def cont_byte_def by simp_all
  have lo: "x = 0 \<Longrightarrow> 32 \<le> y" "x = 13 \<Longrightarrow> y < 32"
    using assms(3) x y by (auto simp: second_ok_def split: if_splits)
  define r where "r = x * 4096 + y * 64 + z"
  have r: "dec3 (byte c0) c1 c2 = r" by (simp add: dec3_def x_def y_def z_def r_def)
  have rr: "r = (x * 64 + y) * 64 + z" by (simp add: r_def)
  have ge: "2048 \<le> r" unfolding r_def using lo x by (cases "x = 0") auto
  have "\<not> (55296 \<le> r \<and> r \<le> 57343)"
  proof
    assume s: "55296 \<le> r \<and> r \<le> 57343"
    then have "x = 13" unfolding r_def using y z by linarith
    with lo s y z show False unfolding r_def by simp
  qed
  then have sur: "(55296 \<le> r \<and> r \<le> 57343) = False" by blast
  have hi: "r < 65536" unfolding r_def using x y z by linarith
  have m: "r mod 64 = z" "r div 64 = x * 64 + y" unfolding rr by (rule digit64 [OF z(2)])+
  have d: "r div 4096 = x" using m(2) y by (simp add: div_mult2_eq [of r 64 64, simplified])
  show "encode_rune (dec3 (byte c0) c1 c2) = [c0, c1, c2]"
    unfolding r encode_rune_def Let_def using ge hi m d x y z
    by (simp add: char_of_byte_eq sur)
  show "128 \<le> dec3 (byte c0) c1 c2" unfolding r using ge by simp
qed

lemma encode_dec4:
  assumes "240 \<le> byte c0" "byte c0 \<le> 244" "second_ok (byte c0) (byte c1)" "cont_byte c2" "cont_byte c3"
  shows "encode_rune (dec4 (byte c0) c1 c2 c3) = [c0, c1, c2, c3]" "128 \<le> dec4 (byte c0) c1 c2 c3"
proof -
  define x y z w where "x = byte c0 mod 8" and "y = byte c1 mod 64" and "z = byte c2 mod 64"
    and "w = byte c3 mod 64"
  have x: "byte c0 = 240 + x" "x < 5"
  proof -
    show "byte c0 = 240 + x" using mod_offset [of 240 "byte c0" 8] assms unfolding x_def by simp
    with assms show "x < 5" by linarith
  qed
  have b1: "128 \<le> byte c1" "byte c1 \<le> 191" using assms(3) by (auto simp: second_ok_def split: if_splits)
  have y: "byte c1 = 128 + y" "y < 64" 
    using mod_offset [of 128 "byte c1" 64] b1 unfolding y_def by simp_all
  have z: "byte c2 = 128 + z" "z < 64" 
    using mod_offset [of 128 "byte c2" 64] assms(4) unfolding z_def cont_byte_def by simp_all
  have w: "byte c3 = 128 + w" "w < 64" 
    using mod_offset [of 128 "byte c3" 64] assms(5) unfolding w_def cont_byte_def by simp_all
  have lo: "x = 0 \<Longrightarrow> 16 \<le> y" "x = 4 \<Longrightarrow> y < 16"
    using assms(3) x y by (auto simp: second_ok_def split: if_splits)
  define r where "r = x * 262144 + y * 4096 + z * 64 + w"
  have r: "dec4 (byte c0) c1 c2 c3 = r" by (simp add: dec4_def x_def y_def z_def w_def r_def)
  have rr: "r = ((x * 64 + y) * 64 + z) * 64 + w" by (simp add: r_def)
  have ge: "65536 \<le> r" unfolding r_def using lo x by (cases "x = 0") auto
  have hi: "r \<le> 1114111"
  proof (cases "x = 4")
    case True
    with lo y z w show ?thesis unfolding r_def by simp
  next
    case False
    with x have "x \<le> 3" by simp
    with y z w show ?thesis unfolding r_def by linarith
  qed
  have m: "r mod 64 = w" "r div 64 = (x * 64 + y) * 64 + z" unfolding rr by (rule digit64 [OF w(2)])+
  have d: "r div 4096 = x * 64 + y" using m(2) z by (simp add: div_mult2_eq [of r 64 64, simplified])
  have e: "r div 262144 = x" using d y by (simp add: div_mult2_eq [of r 4096 64, simplified])
  have mz: "r div 64 mod 64 = z" "r div 4096 mod 64 = y" unfolding m(2) d by (rule digit64 [OF z(2)], rule digit64 [OF y(2)])
  show "encode_rune (dec4 (byte c0) c1 c2 c3) = [c0, c1, c2, c3]"
    unfolding r using ge hi m d e mz x y z w by (simp add: encode_rune_def Let_def char_of_byte_eq)
  show "128 \<le> dec4 (byte c0) c1 c2 c3" unfolding r using ge by simp
qed

lemma second_ok_high: "second_ok b0 b1 \<Longrightarrow> 128 \<le> b1"
  by (auto simp: second_ok_def split: if_splits)

lemma decode_rune_segment:
  assumes "s \<noteq> []" "decode_rune s = (r, w)"
  shows "seg_ascii (r, take w s) \<or> seg_multi (r, take w s) \<or> seg_bad (r, take w s)"
proof -
  obtain c0 s1 where s: "s = c0 # s1" using assms(1) by (cases s) auto
  consider (ascii) "byte c0 < 128" | (bad) "128 \<le> byte c0" "r = rune_error" "w = 1"
    | (two) c1 t where "194 \<le> byte c0" "byte c0 \<le> 223" "cont_byte c1" "s1 = c1 # t"
        "r = dec2 (byte c0) c1" "w = 2"
    | (three) c1 c2 t where "224 \<le> byte c0" "byte c0 \<le> 239" "second_ok (byte c0) (byte c1)" "cont_byte c2"
        "s1 = c1 # c2 # t" "r = dec3 (byte c0) c1 c2" "w = 3"
    | (four) c1 c2 c3 t where "240 \<le> byte c0" "byte c0 \<le> 244" "second_ok (byte c0) (byte c1)"
        "cont_byte c2" "cont_byte c3" "s1 = c1 # c2 # c3 # t" "r = dec4 (byte c0) c1 c2 c3" "w = 4"
    using assms(2) unfolding s decode_rune_def
    by (fastforce simp: Let_def split: if_splits list.splits)
  then show ?thesis
  proof cases
    case ascii
    with assms(2) have "r = byte c0" "w = 1" by (simp_all add: s decode_rune_def)
    with ascii show ?thesis by (simp add: seg_ascii_def s)
  next
    case bad
    then show ?thesis by (simp add: seg_bad_def s)
  next
    case two
    with encode_dec2 [OF two(1-3)] show ?thesis
      by (simp add: seg_multi_def s decode_rune_def cont_byte_def)
  next
    case three
    with encode_dec3 [OF three(1-4)] second_ok_high [OF three(3)] show ?thesis
      by (simp add: seg_multi_def s decode_rune_def cont_byte_def)
  next
    case four
    with encode_dec4 [OF four(1-5)] second_ok_high [OF four(3)] show ?thesis
      by (simp add: seg_multi_def s decode_rune_def cont_byte_def)
  qed
qed

lemma rune_segments_kinds:
  "g \<in> set (rune_segments s) \<Longrightarrow> seg_ascii g \<or> seg_multi g \<or> seg_bad g"
proof (induction s rule: rune_segments.induct)
  case (1 s)
  show ?case
  proof (cases "s = []")
    case True
    with "1.prems" show ?thesis by (simp add: rune_segments.simps)
  next
    case False
    obtain r w where d: "decode_rune s = (r, w)" by (cases "decode_rune s")
    from "1.prems" False d have "g = (r, take w s) \<or> g \<in> set (rune_segments (drop w s))"
      by (simp add: rune_segments.simps [of s])
    with "1.IH" [OF False d [symmetric] refl] decode_rune_segment [OF False d] show ?thesis by blast
  qed
qed

text \<open>A string is valid UTF-8 when no byte of it decodes to the error rune of width one.\<close>

definition valid_utf8 :: "string \<Rightarrow> bool" where
  "valid_utf8 s \<longleftrightarrow> (\<forall>g \<in> set (rune_segments s). 128 \<le> fst g \<longrightarrow> 1 < length (snd g))"

lemma valid_segments:
  assumes "valid_utf8 s" "g \<in> set (rune_segments s)"
  shows "seg_ascii g \<or> seg_multi g"
  using rune_segments_kinds [OF assms(2)] assms
  by (auto simp: valid_utf8_def seg_bad_def rune_error_def)

lemma hex_digit_facts:
  assumes "n < 16"
  shows "is_hex (hex_digit n)" "hex_value (hex_digit n) = n"
  using assms by (auto simp: is_hex_def hex_digit_def hex_value_def)

lemma is_hex_plain: "is_hex c \<Longrightarrow> c \<noteq> DQUOTE" "is_hex c \<Longrightarrow> c \<noteq> BACKSLASH" "is_hex c \<Longrightarrow> \<not> byte c < 32"
  by (auto simp: is_hex_def)

definition scan_ok :: "string \<Rightarrow> bool" where
  "scan_ok e \<longleftrightarrow> (\<forall>rest. scan_str (e @ rest) = foldr push1 e (scan_str rest))"

lemma foldr_push1: "foldr push1 e (Some (raw, r)) = Some (e @ raw, r)"
  by (induction e) (simp_all add: push1_def)

definition unq_ok :: "string \<Rightarrow> string \<Rightarrow> bool" where
  "unq_ok e d \<longleftrightarrow> (\<forall>rest. unquote (e @ rest) = d @ unquote rest)"

lemma scan_ok_append: "scan_ok a \<Longrightarrow> scan_ok b \<Longrightarrow> scan_ok (a @ b)"
  by (simp add: scan_ok_def)

lemma scan_ok_concat: "\<forall>e \<in> set es. scan_ok e \<Longrightarrow> scan_ok (concat es)"
  by (induction es) (auto simp: scan_ok_def [of "[]"] scan_ok_append)

lemma unq_ok_append: "unq_ok a d \<Longrightarrow> unq_ok b e \<Longrightarrow> unq_ok (a @ b) (d @ e)"
  by (simp add: unq_ok_def)

lemma unq_ok_concat: "(\<And>g. g \<in> set gs \<Longrightarrow> unq_ok (e g) (d g)) \<Longrightarrow> unq_ok (concat (map e gs)) (concat (map d gs))"
  by (induction gs) (auto simp: unq_ok_def)

lemma scan_str_plain: "c \<noteq> DQUOTE \<Longrightarrow> c \<noteq> BACKSLASH \<Longrightarrow> \<not> byte c < 32 \<Longrightarrow> scan_str (c # t) = push1 c (scan_str t)"
  by simp

lemma scan_str_simple:
  "e \<noteq> CHR ''u'' \<Longrightarrow> e \<in> set ''\"/bfnrt'' \<or> e = BACKSLASH \<Longrightarrow>
     scan_str (BACKSLASH # e # t) = push1 BACKSLASH (push1 e (scan_str t))"
  by simp

lemma scan_str_hex: "is_hex c \<Longrightarrow> scan_str (c # t) = push1 c (scan_str t)"
  by (rule scan_str_plain) (simp_all add: is_hex_plain)

lemma scan_str_unicode:
  assumes "is_hex a" "is_hex b" "is_hex c" "is_hex d"
  shows "scan_str (BACKSLASH # CHR ''u'' # a # b # c # d # t) =
    foldr push1 [BACKSLASH, CHR ''u'', a, b, c, d] (scan_str t)"
proof -
  have "scan_str (BACKSLASH # CHR ''u'' # a # b # c # d # t) =
    push1 BACKSLASH (push1 (CHR ''u'') (scan_str (a # b # c # d # t)))"
    using assms by (simp del: scan_str.simps add: scan_str.simps(2) [of BACKSLASH])
  then show ?thesis using assms by (simp add: scan_str_hex del: scan_str.simps)
qed

lemma scan_ok_unicode: "scan_ok (unicode_escape r)"
  by (simp add: scan_ok_def unicode_escape_def scan_str_unicode hex_digit_facts del: scan_str.simps)

lemma hex_number_digits:
  assumes "r < 65536"
  shows "hex_number [hex_digit (r div 4096 mod 16), hex_digit (r div 256 mod 16),
      hex_digit (r div 16 mod 16), hex_digit (r mod 16)] = r"
proof -
  have "r div 16 div 16 = r div 256" "r div 256 div 16 = r div 4096"
    by (simp_all add: div_mult2_eq [symmetric])
  moreover have "r div 4096 mod 16 = r div 4096" using assms by (simp add: less_mult_imp_div_less)
  ultimately have "((r div 4096 mod 16 * 16 + r div 256 mod 16) * 16 + r div 16 mod 16) * 16 + r mod 16 = r"
    by (metis div_mult_mod_eq)
  moreover have "hex_value (hex_digit (x mod 16)) = x mod 16" for x by (simp add: hex_digit_facts)
  ultimately show ?thesis by (simp only: hex_number_def foldl_Cons foldl_Nil mult_0 add_0)
qed

lemma getu4_unicode:
  assumes "r < 65536"
  shows "getu4 (unicode_escape r @ rest) = Some r"
proof -
  have "take 4 (drop 2 (unicode_escape r @ rest)) =
    [hex_digit (r div 4096 mod 16), hex_digit (r div 256 mod 16),
      hex_digit (r div 16 mod 16), hex_digit (r mod 16)]"
    by (simp add: unicode_escape_def)
  moreover have "6 \<le> length (unicode_escape r @ rest)" by (simp add: unicode_escape_def)
  moreover have "(unicode_escape r @ rest) ! 0 = BACKSLASH" "(unicode_escape r @ rest) ! 1 = CHR ''u''"
    by (simp_all add: unicode_escape_def)
  ultimately show ?thesis
    unfolding getu4_def by (simp only: hex_number_digits [OF assms] if_True) (simp add: hex_digit_facts)
qed

lemma unquote_u4:
  "getu4 (BACKSLASH # t) = Some r \<Longrightarrow> \<not> is_surrogate r \<Longrightarrow>
     unquote (BACKSLASH # t) = encode_rune r @ unquote (drop 6 (BACKSLASH # t))"
  by (subst unquote.simps) simp

lemma unq_ok_unicode:
  assumes "r < 65536" "\<not> is_surrogate r"
  shows "unq_ok (unicode_escape r) (encode_rune r)"
  unfolding unq_ok_def
proof
  fix rest
  have c: "unicode_escape r @ rest = BACKSLASH # tl (unicode_escape r @ rest)"
    by (simp add: unicode_escape_def)
  have d: "drop 6 (unicode_escape r @ rest) = rest" by (simp add: unicode_escape_def)
  show "unquote (unicode_escape r @ rest) = encode_rune r @ unquote rest"
    using unquote_u4 [of "tl (unicode_escape r @ rest)" r] getu4_unicode [OF assms(1), of rest] assms(2)
    by (simp only: c [symmetric] d simp_thms)
qed

lemma escape_ascii_ok:
  assumes "byte c < 128"
  shows "scan_ok (escape_ascii c)" "unq_ok (escape_ascii c) [c]"
proof -
  have c: "c = char_of (byte c)" by simp
  have u: "byte c < 65536" "\<not> is_surrogate (byte c)" "encode_rune (byte c) = [c]"
    using assms by (simp_all add: is_surrogate_def encode_rune_def)
  have plain: "scan_ok [c]" "unq_ok [c] [c]"
    if "c \<noteq> DQUOTE" "c \<noteq> BACKSLASH" "\<not> byte c < 32"
    using that assms by (simp_all add: scan_ok_def unq_ok_def push1_def unquote.simps [of "c # _"])
  have esc: "scan_ok [BACKSLASH, e]" "unq_ok [BACKSLASH, e] [simple_escape e]"
    if e: "e \<noteq> CHR ''u''" "e \<in> set ''\"/bfnrt'' \<or> e = BACKSLASH" for e
  proof -
    show "scan_ok [BACKSLASH, e]"
      using scan_str_simple [OF e] by (simp add: scan_ok_def del: scan_str.simps)
    have "getu4 (BACKSLASH # e # rest) = None" for rest
      using e(1) by (simp add: getu4_def)
    then show "unq_ok [BACKSLASH, e] [simple_escape e]"
      by (simp add: unq_ok_def unquote.simps [of "BACKSLASH # _"])
  qed
  show "scan_ok (escape_ascii c)"
    unfolding escape_ascii_def using plain(1) scan_ok_unicode
    by (simp add: esc(1) split: if_split)
  have b: "byte c = 8 \<Longrightarrow> c = CHR 0x08" "byte c = 12 \<Longrightarrow> c = CHR 0x0C"
    using of_char_eq_iff [where 'a = nat, of c "CHR 0x08"] of_char_eq_iff [where 'a = nat, of c "CHR 0x0C"]
    by (simp_all del: of_char_eq_iff)
  have u': "unq_ok (unicode_escape (byte c)) [c]" using unq_ok_unicode [OF u(1,2)] u(3) by simp
  have e: "unq_ok [BACKSLASH, BACKSLASH] [BACKSLASH]" "unq_ok [BACKSLASH, DQUOTE] [DQUOTE]"
    "unq_ok [BACKSLASH, CHR ''b''] [CHR 0x08]" "unq_ok [BACKSLASH, CHR ''f''] [CHR 0x0C]"
    "unq_ok [BACKSLASH, CHR ''n''] [NL]" "unq_ok [BACKSLASH, CHR ''r''] [CR]"
    "unq_ok [BACKSLASH, CHR ''t''] [TAB]"
    using esc(2) [of BACKSLASH] esc(2) [of DQUOTE] esc(2) [of "CHR ''b''"] esc(2) [of "CHR ''f''"]
      esc(2) [of "CHR ''n''"] esc(2) [of "CHR ''r''"] esc(2) [of "CHR ''t''"]
    by (simp_all add: simple_escape_def)
  show "unq_ok (escape_ascii c) [c]"
    unfolding escape_ascii_def using plain(2) u' e b by (simp split: if_split) blast
qed

lemma scan_ok_high: "\<forall>c \<in> set b. 128 \<le> byte c \<Longrightarrow> scan_ok b"
proof (induction b)
  case Nil
  then show ?case by (simp add: scan_ok_def)
next
  case (Cons c b)
  then have "c \<noteq> DQUOTE" "c \<noteq> BACKSLASH" "\<not> byte c < 32" by auto
  with Cons show ?case by (simp add: scan_ok_def scan_str_plain del: scan_str.simps)
qed

lemma escape_segment_scan:
  assumes "seg_ascii g \<or> seg_multi g \<or> seg_bad g"
  shows "scan_ok (escape_segment g)"
  using assms
proof (elim disjE)
  assume a: "seg_ascii g"
  then have "escape_segment g = escape_ascii (char_of (fst g))" by (simp add: seg_ascii_def escape_segment_def)
  moreover have "byte (char_of (fst g)) < 128" using a by (simp add: seg_ascii_def of_char_of)
  ultimately show ?thesis using escape_ascii_ok(1) by simp
next
  assume "seg_multi g"
  then show ?thesis
    unfolding escape_segment_def by (auto simp: seg_multi_def intro: scan_ok_unicode scan_ok_high)
next
  assume "seg_bad g"
  then have "escape_segment g = unicode_escape rune_error"
    by (auto simp: seg_bad_def escape_segment_def rune_error_def)
  then show ?thesis by (simp add: scan_ok_unicode)
qed

lemma escape_segment_unq:
  assumes "seg_ascii g \<or> seg_multi g"
  shows "unq_ok (escape_segment g) (snd g)"
  using assms
proof
  assume a: "seg_ascii g"
  then have "escape_segment g = escape_ascii (char_of (fst g))" "snd g = [char_of (fst g)]"
    by (simp_all add: seg_ascii_def escape_segment_def)
  moreover have "byte (char_of (fst g)) < 128" using a by (simp add: seg_ascii_def of_char_of)
  ultimately show ?thesis using escape_ascii_ok(2) by simp
next
  assume m: "seg_multi g"
  then obtain c b where b: "snd g = c # b" "128 \<le> byte c" by (cases "snd g") (auto simp: seg_multi_def)
  show ?thesis
  proof (cases "fst g = 0x2028 \<or> fst g = 0x2029")
    case True
    then have "unq_ok (unicode_escape (fst g)) (encode_rune (fst g))"
      by (intro unq_ok_unicode) (auto simp: is_surrogate_def)
    with True m show ?thesis by (auto simp: escape_segment_def seg_multi_def)
  next
    case False
    with m have e: "escape_segment g = snd g" by (auto simp: escape_segment_def seg_multi_def)
    have "unquote (snd g @ rest) = snd g @ unquote rest" for rest
    proof -
      have "c \<noteq> BACKSLASH" "\<not> byte c < 128" using b by auto
      then have "unquote (snd g @ rest) = encode_rune (fst (decode_rune (snd g @ rest))) @
        unquote (drop (snd (decode_rune (snd g @ rest))) (snd g @ rest))"
        by (subst unquote.simps) (simp add: b)
      with m show ?thesis by (simp add: seg_multi_def)
    qed
    then show ?thesis by (simp add: e unq_ok_def)
  qed
qed

lemma scan_escape_body: "scan_str (escape_body s @ DQUOTE # rest) = Some (escape_body s, rest)"
proof -
  have "scan_ok (escape_body s)"
    unfolding escape_body_def using rune_segments_kinds escape_segment_scan
    by (intro scan_ok_concat) auto
  then show ?thesis by (simp add: scan_ok_def foldr_push1)
qed

lemma unquote_escape_body: "valid_utf8 s \<Longrightarrow> unquote (escape_body s) = s"
proof -
  assume v: "valid_utf8 s"
  have "unq_ok (concat (map escape_segment (rune_segments s))) (concat (map snd (rune_segments s)))"
    using valid_segments [OF v] by (intro unq_ok_concat escape_segment_unq)
  then have "unquote (escape_body s @ []) = s @ unquote []"
    unfolding unq_ok_def escape_body_def concat_rune_segments by blast
  then show ?thesis by (simp add: unquote.simps [of "[]"])
qed

section \<open>Round trip of values\<close>

definition stops :: "string \<Rightarrow> bool" where
  "stops rest \<longleftrightarrow> rest = [] \<or> hd rest \<in> set '',]}''"

definition num_ok :: "string \<Rightarrow> bool" where
  "num_ok lit \<longleftrightarrow> scan_num lit = Some (lit, [])"

lemma stops_digit:
  assumes "stops rest"
  shows "takeWhile json_digit (t @ rest) = takeWhile json_digit t"
    "dropWhile json_digit (t @ rest) = dropWhile json_digit t @ rest"
proof -
  have "rest = [] \<or> \<not> json_digit (hd rest)" using assms by (auto simp: stops_def json_digit_def)
  then show "takeWhile json_digit (t @ rest) = takeWhile json_digit t"
    "dropWhile json_digit (t @ rest) = dropWhile json_digit t @ rest"
    by (induction t) (cases rest; auto)+
qed

lemma stops_not:
  assumes "stops (c # t)"
  shows "c \<noteq> CHR ''.''" "c \<noteq> CHR ''e''" "c \<noteq> CHR ''E''" "c \<noteq> CHR ''+''" "c \<noteq> CHR ''-''"
  using assms by (auto simp: stops_def)

lemma scan_int_rest: "scan_int s = Some (i, r) \<Longrightarrow> stops rest \<Longrightarrow> scan_int (s @ rest) = Some (i, r @ rest)"
  by (cases s) (auto simp: scan_int_def stops_digit split: if_splits)

lemma scan_frac_rest: "scan_frac s = Some (f, r) \<Longrightarrow> stops rest \<Longrightarrow> scan_frac (s @ rest) = Some (f, r @ rest)"
  by (cases s; cases rest) (auto simp: scan_frac_def stops_digit stops_not split: if_splits)

lemma scan_exp_rest:
  assumes "scan_exp s = Some (e, r)" "stops rest"
  shows "scan_exp (s @ rest) = Some (e, r @ rest)"
proof (cases s)
  case Nil
  with assms show ?thesis by (cases rest) (auto simp: scan_exp_def stops_not)
next
  case (Cons c t)
  show ?thesis
  proof (cases t)
    case Nil
    with assms Cons show ?thesis by (auto simp: scan_exp_def split: if_splits)
  next
    case (Cons d t')
    then have "take 1 (t @ rest) = take 1 t" by simp
    moreover have "drop (length (takeWhile P (take 1 t))) (t @ rest) =
      drop (length (takeWhile P (take 1 t))) t @ rest" for P :: "char \<Rightarrow> bool"
      by (simp add: Cons)
    ultimately show ?thesis using assms \<open>s = c # t\<close>
      by (auto simp: scan_exp_def Let_def stops_digit split: if_splits)
  qed
qed

lemma scan_num_rest:
  assumes "num_ok lit" "stops rest"
  shows "scan_num (lit @ rest) = Some (lit, rest)"
proof -
  define sign where "sign = takeWhile (\<lambda>d. d = CHR ''-'') (take 1 lit)"
  have "lit \<noteq> []" using assms(1) by (auto simp: num_ok_def scan_num_def scan_int_def)
  then have sg: "takeWhile (\<lambda>d. d = CHR ''-'') (take 1 (lit @ rest)) = sign"
    "drop (length sign) (lit @ rest) = drop (length sign) lit @ rest"
    by (cases lit; simp add: sign_def)+
  from assms(1) obtain i f e r1 r2 where
    "scan_int (drop (length sign) lit) = Some (i, r1)" "scan_frac r1 = Some (f, r2)"
    "scan_exp r2 = Some (e, [])" "lit = sign @ i @ f @ e"
    unfolding num_ok_def scan_num_def sign_def [symmetric] Let_def
    by (auto simp: bind_eq_Some_conv split: prod.splits)
  with scan_int_rest [OF _ assms(2)] scan_frac_rest [OF _ assms(2)] scan_exp_rest [OF _ assms(2)]
  show ?thesis unfolding scan_num_def sg Let_def by fastforce
qed

fun json_wf :: "json \<Rightarrow> bool" where
  "json_wf (JNum lit) \<longleftrightarrow> num_ok lit"
| "json_wf (JStr s) \<longleftrightarrow> valid_utf8 s"
| "json_wf (JArr vs) \<longleftrightarrow> list_all json_wf vs"
| "json_wf (JObj ms) \<longleftrightarrow> list_all (\<lambda>kv. valid_utf8 (fst kv) \<and> json_wf (snd kv)) ms"
| "json_wf _ \<longleftrightarrow> True"

lemma num_ok_first:
  assumes "num_ok lit"
  obtains c t where "lit = c # t" "c = CHR ''-'' \<or> json_digit c"
proof -
  obtain c t where l: "lit = c # t"
    using assms by (cases lit) (auto simp: num_ok_def scan_num_def scan_int_def)
  have "c = CHR ''-'' \<or> json_digit c"
    using assms unfolding l num_ok_def scan_num_def scan_int_def
    by (auto simp: json_digit_def bind_eq_Some_conv split: if_splits)
  with l that show thesis by blast
qed

lemma skip_ws_Cons [simp]: "\<not> json_space c \<Longrightarrow> skip_ws (c # t) = c # t"
  by (simp add: skip_ws_def)

lemma skip_ws_Nil [simp]: "skip_ws [] = []" by (simp add: skip_ws_def)

lemma json_space_chars [simp]:
  "\<not> json_space (CHR ''{'')" "\<not> json_space (CHR ''}'')" "\<not> json_space (CHR ''['')"
  "\<not> json_space (CHR '']'')" "\<not> json_space (CHR '','')" "\<not> json_space (CHR '':'')"
  "\<not> json_space DQUOTE" "\<not> json_space (CHR ''t'')" "\<not> json_space (CHR ''f'')" "\<not> json_space (CHR ''n'')"
  by (simp_all add: json_space_def)

lemma parse_number:
  assumes "num_ok lit" "stops rest"
  shows "parse_value (Suc n) (lit @ rest) = Some (JNum lit, rest)"
proof -
  from assms(1) obtain c t where l: "lit = c # t" "c = CHR ''-'' \<or> json_digit c" by (rule num_ok_first)
  then have c: "\<not> json_space c" "c \<noteq> CHR ''{''" "c \<noteq> CHR ''[''" "c \<noteq> DQUOTE" "c \<noteq> CHR ''t''"
    "c \<noteq> CHR ''f''" "c \<noteq> CHR ''n''"
    by (auto simp: json_digit_def json_space_def)
  from scan_num_rest [OF assms] have "scan_num (c # t @ rest) = Some (lit, rest)" by (simp add: l)
  with c show ?thesis by (simp add: l(1))
qed

lemma parse_string:
  assumes "valid_utf8 s"
  shows "parse_value (Suc n) (print_string s @ rest) = Some (JStr s, rest)"
  using scan_escape_body [of s rest] unquote_escape_body [OF assms] by (simp add: print_string_def)

lemma parse_word:
  "parse_value (Suc n) (''null'' @ rest) = Some (JNull, rest)"
  "parse_value (Suc n) (''true'' @ rest) = Some (JBool True, rest)"
  "parse_value (Suc n) (''false'' @ rest) = Some (JBool False, rest)"
  by (simp_all add: strip_word_def)

lemma print_json_nonempty: "json_wf v \<Longrightarrow> print_json v \<noteq> []"
  by (cases v) (auto simp: print_string_def elim: num_ok_first)

definition parses :: "json \<Rightarrow> bool" where
  "parses v \<longleftrightarrow> (\<forall>n rest. 2 * length (print_json v) \<le> n \<longrightarrow> stops rest \<longrightarrow>
     parse_value n (print_json v @ rest) = Some (v, rest))"

lemma stops_chars [simp]:
  "stops (CHR '','' # r)" "stops (CHR '']'' # r)" "stops (CHR ''}'' # r)" "stops []"
  by (simp_all add: stops_def)

lemma parse_elems_join:
  assumes "vs \<noteq> []" "\<forall>v \<in> set vs. parses v \<and> json_wf v"
    "2 * length (join '','' (map print_json vs)) < n"
  shows "parse_elems n (join '','' (map print_json vs) @ CHR '']'' # rest) = Some (vs, rest)"
  using assms
proof (induction vs arbitrary: n)
  case Nil
  then show ?case by simp
next
  case (Cons v vs)
  obtain m where n: "n = Suc m" using Cons.prems(3) by (cases n) auto
  have v: "parses v" using Cons.prems by simp
  show ?case
  proof (cases "vs = []")
    case True
    with Cons.prems n have "parse_value m (print_json v @ CHR '']'' # rest) = Some (v, CHR '']'' # rest)"
      using v by (simp add: parses_def)
    with True n show ?thesis by simp
  next
    case False
    let ?t = "join '','' (map print_json vs) @ CHR '']'' # rest"
    have j: "join '','' (map print_json (v # vs)) @ CHR '']'' # rest = print_json v @ CHR '','' # ?t"
      using False by (simp add: join_Cons)
    have l: "length (join '','' (map print_json (v # vs))) =
      length (print_json v) + 1 + length (join '','' (map print_json vs))"
      using False by (simp add: join_Cons)
    have "parse_value m (print_json v @ CHR '','' # ?t) = Some (v, CHR '','' # ?t)"
      using v Cons.prems(3) l n by (simp add: parses_def)
    moreover have "parse_elems m ?t = Some (vs, rest)"
      using Cons.IH [OF False, of m] Cons.prems l n by simp
    ultimately show ?thesis unfolding j n by simp
  qed
qed

lemma parse_members_join:
  assumes "ms \<noteq> []" "\<forall>kv \<in> set ms. parses (snd kv) \<and> json_wf (snd kv) \<and> valid_utf8 (fst kv)"
    "2 * length (join '','' (map (\<lambda>kv. print_string (fst kv) @ '':'' @ print_json (snd kv)) ms)) < n"
  shows "parse_members n (join '','' (map (\<lambda>kv. print_string (fst kv) @ '':'' @ print_json (snd kv)) ms)
    @ CHR ''}'' # rest) = Some (ms, rest)"
  using assms
proof (induction ms arbitrary: n)
  case Nil
  then show ?case by simp
next
  case (Cons kv ms)
  let ?p = "\<lambda>kv. print_string (fst kv) @ '':'' @ print_json (snd kv)"
  obtain k v where kv: "kv = (k, v)" by (cases kv)
  obtain m where n: "n = Suc m" using Cons.prems(3) by (cases n) auto
  have v: "parses v" and u: "unquote (escape_body k) = k"
    using Cons.prems kv unquote_escape_body by simp_all
  have key: "scan_str (escape_body k @ DQUOTE # r) = Some (escape_body k, r)" for r
    by (rule scan_escape_body)
  show ?case
  proof (cases "ms = []")
    case True
    have "2 * length (print_json v) \<le> m" using Cons.prems(3) True n kv by simp
    then have "parse_value m (print_json v @ CHR ''}'' # rest) = Some (v, CHR ''}'' # rest)"
      using v by (simp add: parses_def)
    with True n kv u show ?thesis by (simp add: print_string_def expect_char_def key)
  next
    case False
    let ?t = "join '','' (map ?p ms) @ CHR ''}'' # rest"
    have j: "join '','' (map ?p (kv # ms)) @ CHR ''}'' # rest =
      DQUOTE # escape_body k @ DQUOTE # CHR '':'' # print_json v @ CHR '','' # ?t"
      using False by (simp add: join_Cons kv print_string_def)
    have l: "length (join '','' (map ?p (kv # ms))) =
      length (?p kv) + 1 + length (join '','' (map ?p ms))"
      using False by (simp add: join_Cons)
    have "parse_value m (print_json v @ CHR '','' # ?t) = Some (v, CHR '','' # ?t)"
      using v Cons.prems(3) l n kv by (simp add: parses_def)
    moreover have "parse_members m ?t = Some (ms, rest)"
      using Cons.IH [OF False, of m] Cons.prems l n by simp
    ultimately show ?thesis unfolding j n
      by (simp add: expect_char_def key u kv)
  qed
qed

lemma first_not_bracket:
  assumes "json_wf v"
  shows "\<exists>c t. print_json v = c # t \<and> \<not> json_space c \<and> c \<noteq> CHR '']'' \<and> c \<noteq> CHR ''}''"
proof (cases v)
  case (JNum lit)
  with assms have "num_ok lit" by simp
  then obtain c t where "lit = c # t" "c = CHR ''-'' \<or> json_digit c" by (rule num_ok_first)
  with JNum show ?thesis by (auto simp: json_digit_def json_space_def)
qed (auto simp: print_string_def)

lemma join_first: "vs \<noteq> [] \<Longrightarrow> \<exists>r. join sep (map f vs) = f (hd vs) @ r"
  by (cases vs; cases "tl vs") (auto simp: join_Cons)

lemma parses_all: "json_wf v \<Longrightarrow> parses v"
proof (induction v)
  case (JNum lit)
  show ?case unfolding parses_def
  proof (intro allI impI)
    fix n rest assume "2 * length (print_json (JNum lit)) \<le> n" and s: "stops rest"
    moreover have "lit \<noteq> []" using JNum by (auto elim: num_ok_first)
    ultimately obtain m where "n = Suc m" by (cases n) auto
    with parse_number [OF _ s, of lit] JNum show "parse_value n (print_json (JNum lit) @ rest) = Some (JNum lit, rest)"
      by simp
  qed
next
  case (JStr s)
  show ?case unfolding parses_def
  proof (intro allI impI)
    fix n rest assume "2 * length (print_json (JStr s)) \<le> n"
    then obtain m where "n = Suc m" by (cases n) (auto simp: print_string_def)
    with parse_string [of s] JStr show "parse_value n (print_json (JStr s) @ rest) = Some (JStr s, rest)" by simp
  qed
next
  case (JArr vs)
  have all: "\<forall>v \<in> set vs. parses v \<and> json_wf v" using JArr by (auto simp: list_all_iff)
  show ?case unfolding parses_def
  proof (intro allI impI)
    fix n rest assume n: "2 * length (print_json (JArr vs)) \<le> n"
    then obtain m where m: "n = Suc m" by (cases n) auto
    show "parse_value n (print_json (JArr vs) @ rest) = Some (JArr vs, rest)"
    proof (cases "vs = []")
      case True
      then show ?thesis by (simp add: m expect_char_def)
    next
      case False
      let ?j = "join '','' (map print_json vs)"
      obtain r where r: "?j = print_json (hd vs) @ r" using join_first [OF False] by blast
      obtain c t where c: "print_json (hd vs) = c # t" "\<not> json_space c" "c \<noteq> CHR '']''"
        using first_not_bracket [of "hd vs"] all False by auto
      have "expect_char (CHR '']'') (skip_ws (?j @ CHR '']'' # rest)) = None"
        using c by (simp add: r expect_char_def)
      moreover have "parse_elems m (?j @ CHR '']'' # rest) = Some (vs, rest)"
        using parse_elems_join [OF False all] n m by simp
      ultimately show ?thesis by (simp add: m)
    qed
  qed
next
  case (JObj ms)
  have all: "\<forall>kv \<in> set ms. parses (snd kv) \<and> json_wf (snd kv) \<and> valid_utf8 (fst kv)"
    using JObj by (fastforce simp: list_all_iff)
  let ?p = "\<lambda>kv. print_string (fst kv) @ '':'' @ print_json (snd kv)"
  show ?case unfolding parses_def
  proof (intro allI impI)
    fix n rest assume n: "2 * length (print_json (JObj ms)) \<le> n"
    then obtain m where m: "n = Suc m" by (cases n) auto
    show "parse_value n (print_json (JObj ms) @ rest) = Some (JObj ms, rest)"
    proof (cases "ms = []")
      case True
      then show ?thesis by (simp add: m expect_char_def)
    next
      case False
      let ?j = "join '','' (map ?p ms)"
      obtain r where r: "?j = ?p (hd ms) @ r" using join_first [OF False, of _ ?p] by blast
      have "expect_char (CHR ''}'') (skip_ws (?j @ CHR ''}'' # rest)) = None"
        unfolding r by (simp add: expect_char_def print_string_def)
      moreover have "parse_members m (?j @ CHR ''}'' # rest) = Some (ms, rest)"
        using parse_members_join [OF False all] n m by simp
      ultimately show ?thesis by (simp add: m)
    qed
  qed
next
  case JNull
  show ?case unfolding parses_def
  proof (intro allI impI)
    fix n rest assume "2 * length (print_json JNull) \<le> n"
    then obtain m where "n = Suc m" by (cases n) auto
    with parse_word show "parse_value n (print_json JNull @ rest) = Some (JNull, rest)" by simp
  qed
next
  case (JBool b)
  show ?case unfolding parses_def
  proof (intro allI impI)
    fix n rest assume "2 * length (print_json (JBool b)) \<le> n"
    then obtain m where "n = Suc m" by (cases n) (auto split: if_splits)
    with parse_word show "parse_value n (print_json (JBool b) @ rest) = Some (JBool b, rest)" by simp
  qed
qed

theorem parse_print_json:
  assumes "json_wf v" "json_depth v \<le> max_nesting_depth"
  shows "parse_json (print_json v) = Some v"
proof -
  have "parse_value (2 * length (print_json v) + 2) (print_json v @ []) = Some (v, [])"
    using parses_all [OF assms(1)] unfolding parses_def by (simp del: parse_value.simps append_Nil2)
  then have "parse_value (2 * length (print_json v) + 2) (print_json v) = Some (v, [])"
    by (simp only: append_Nil2)
  then show ?thesis unfolding parse_json_def using assms(2)
    by (simp del: parse_value.simps)
qed

section \<open>The encoder writes one line\<close>

lemma escape_ascii_no_control: "byte c < 128 \<Longrightarrow> x \<in> set (escape_ascii c) \<Longrightarrow> \<not> byte x < 32"
proof -
  assume c: "byte c < 128" and x: "x \<in> set (escape_ascii c)"
  have h: "n < 16 \<Longrightarrow> \<not> byte (hex_digit n) < 32" for n
    using hex_digit_facts(1) [of n] is_hex_plain(3) by blast
  show ?thesis using x h
    by (simp add: escape_ascii_def unicode_escape_def split: if_splits) (elim disjE; simp)+
qed

lemma escape_body_no_control: "x \<in> set (escape_body s) \<Longrightarrow> \<not> byte x < 32"
proof -
  assume "x \<in> set (escape_body s)"
  then obtain g where g: "g \<in> set (rune_segments s)" "x \<in> set (escape_segment g)"
    by (auto simp: escape_body_def)
  have u: "x \<in> set (unicode_escape r) \<Longrightarrow> \<not> byte x < 32" for r
    using hex_digit_facts(1) is_hex_plain(3) by (auto simp: unicode_escape_def)
  from rune_segments_kinds [OF g(1)] show ?thesis
  proof (elim disjE)
    assume a: "seg_ascii g"
    then have "escape_segment g = escape_ascii (char_of (fst g))" "byte (char_of (fst g)) < 128"
      by (simp_all add: seg_ascii_def escape_segment_def of_char_of)
    with g(2) escape_ascii_no_control show ?thesis by metis
  next
    assume "seg_multi g"
    then have "\<forall>c \<in> set (snd g). 128 \<le> byte c" "\<not> fst g < 128" by (simp_all add: seg_multi_def)
    with g(2) u show ?thesis by (auto simp: escape_segment_def split: if_splits)
  next
    assume "seg_bad g"
    with g(2) u show ?thesis by (auto simp: escape_segment_def seg_bad_def rune_error_def)
  qed
qed

lemma num_ok_chars: "num_ok lit \<Longrightarrow> x \<in> set lit \<Longrightarrow> \<not> byte x < 32"
proof -
  assume n: "num_ok lit" and x: "x \<in> set lit"
  define sg where "sg = takeWhile (\<lambda>d. d = CHR ''-'') (take 1 lit)"
  from n obtain i f e r1 r2 where l: "lit = sg @ i @ f @ e"
    "scan_int (drop (length sg) lit) = Some (i, r1)" "scan_frac r1 = Some (f, r2)"
    "scan_exp r2 = Some (e, [])"
    unfolding num_ok_def scan_num_def sg_def [symmetric] Let_def
    by (auto simp: bind_eq_Some_conv split: prod.splits)
  have d: "x \<in> set (takeWhile json_digit t) \<Longrightarrow> \<not> byte x < 32" for t
    by (auto dest: set_takeWhileD simp: json_digit_def)
  have s: "x \<in> set (takeWhile P t) \<Longrightarrow> P x" for P and t :: string
    by (auto dest: set_takeWhileD)
  have pm: "x \<in> set (takeWhile (\<lambda>d. d = CHR ''+'' \<or> d = CHR ''-'') t) \<Longrightarrow> \<not> byte x < 32" for t
    using s [of "\<lambda>d. d = CHR ''+'' \<or> d = CHR ''-''" t] by auto
  have "x \<in> set i \<Longrightarrow> \<not> byte x < 32" using l(2) d
    by (auto simp: scan_int_def json_digit_def split: list.splits if_splits)
  moreover have "x \<in> set f \<Longrightarrow> \<not> byte x < 32" using l(3) d
    by (auto simp: scan_frac_def split: list.splits if_splits)
  moreover have "x \<in> set e \<Longrightarrow> \<not> byte x < 32" using l(4) d pm
    by (auto simp: scan_exp_def Let_def split: list.splits if_splits)
  moreover have "x \<in> set sg \<Longrightarrow> \<not> byte x < 32" using s unfolding sg_def by fastforce
  ultimately show ?thesis using x l(1) by auto
qed

lemma join_set: "x \<in> set (join sep ls) \<Longrightarrow> x \<in> set sep \<or> (\<exists>l \<in> set ls. x \<in> set l)"
proof (induction ls)
  case Nil
  then show ?case by simp
next
  case (Cons l ls)
  then show ?case by (cases "ls = []") (auto simp: join_Cons)
qed

lemma print_json_no_control: "json_wf v \<Longrightarrow> x \<in> set (print_json v) \<Longrightarrow> \<not> byte x < 32"
proof (induction v)
  case (JNum lit)
  then show ?case using num_ok_chars by simp
next
  case (JStr s)
  then show ?case using escape_body_no_control by (auto simp: print_string_def)
next
  case (JArr vs)
  from JArr.prems(2) consider "x = CHR ''[''" | "x = CHR '']''" | "x \<in> set (join '','' (map print_json vs))"
    by auto
  then show ?case
  proof cases
    case 3
    from join_set [OF this] JArr show ?thesis by (auto simp: list_all_iff)
  qed auto
next
  case (JObj ms)
  let ?p = "\<lambda>kv. print_string (fst kv) @ '':'' @ print_json (snd kv)"
  from JObj.prems(2) consider "x = CHR ''{''" | "x = CHR ''}''" | "x \<in> set (join '','' (map ?p ms))"
    by auto
  then show ?case
  proof cases
    case 3
    from join_set [OF this] consider "x = CHR '',''" | kv where "kv \<in> set ms" "x \<in> set (?p kv)" by auto
    then show ?thesis
    proof cases
      case (2 kv)
      then consider "x \<in> set (print_string (fst kv))" | "x = CHR '':''" | "x \<in> set (print_json (snd kv))" by auto
      then show ?thesis
      proof cases
        case 1
        then show ?thesis using escape_body_no_control by (auto simp: print_string_def)
      next
        case 3
        moreover have "json_wf (snd kv)" using JObj.prems(1) 2(1) by (auto simp: list_all_iff)
        moreover have "snd kv \<in> Basic_BNFs.snds kv" by (cases kv) simp
        ultimately show ?thesis using JObj.IH [OF 2(1)] by blast
      qed simp
    qed simp
  qed auto
qed (auto split: if_splits)

lemma print_json_no_newline: "json_wf v \<Longrightarrow> NL \<notin> set (print_json v)"
  using print_json_no_control [of v NL] by auto

end
