(* ===== verification/Permission.thy ===== *)
theory Permission
  imports Regex Json
begin

text \<open>
  \<open>internal/permission\<close>: the permission modes and per-tool policy (\<open>policy.go\<close>), the gate that
  decides whether a tool call may run, the destructive-command guard and the read-only
  allowlist with their regular expressions (\<open>permission.go\<close>).  A cancelled context is a flag,
  the prompter is a function that may also fail, and the arguments are the bytes the caller
  marshalled.
\<close>

section \<open>Policy\<close>

datatype tier = TierRead | TierWrite | TierExec

datatype decision = DecideAllow | DecideDeny | DecidePrompt | DecideOther int

datatype mode = ModeDefault | ModePlan | ModeAcceptEdits | ModeBypass | ModeOther string

record prompt_request =
  pr_tool :: string
  pr_tier :: tier
  pr_reason :: string

record policy =
  po_overrides :: "string \<Rightarrow> decision option"
  po_prompter :: "(prompt_request \<Rightarrow> string + bool) option"

definition ClassifyTool :: "string \<Rightarrow> tier" where
  "ClassifyTool name =
     (if name \<in> set [''read'', ''grep'', ''find'', ''ls'', ''web_search'', ''web_fetch'', ''attachment'', ''skill'']
      then TierRead
      else if name \<in> set [''write'', ''edit'', ''todo_write''] then TierWrite
      else TierExec)"

datatype parse_error = UnknownMode string | UnknownDecision string

text \<open>\<open>ParseDecision\<close> returns \<open>DecideDeny\<close> beside its error.\<close>

definition ParseDecision :: "string \<Rightarrow> decision \<times> parse_error option" where
  "ParseDecision value =
     (let v = trim_space value in
      if v = ''allow'' then (DecideAllow, None)
      else if v = ''deny'' then (DecideDeny, None)
      else if v = ''prompt'' then (DecidePrompt, None)
      else (DecideDeny, Some (UnknownDecision value)))"

definition ParseMode :: "string \<Rightarrow> mode \<times> parse_error option" where
  "ParseMode value =
     (let v = trim_space value in
      if v = '''' \<or> v = ''default'' then (ModeDefault, None)
      else if v = ''plan'' then (ModePlan, None)
      else if v = ''acceptEdits'' then (ModeAcceptEdits, None)
      else if v = ''bypass'' then (ModeBypass, None)
      else (ModeOther '''', Some (UnknownMode value)))"

section \<open>The destructive-command guard\<close>

definition word_pattern :: "string \<Rightarrow> re" where
  "word_pattern w = rseq [RWordB, rlit_i w, RWordB]"

definition sub_pattern :: "string \<Rightarrow> string list \<Rightarrow> re" where
  "sub_pattern w subs = rseq [RWordB, rlit_i w, rspaces1, ralt (map rlit_i subs)]"

definition destructive_words :: "string list" where
  "destructive_words =
     [''rm'', ''rmdir'', ''mv'', ''cp'', ''mkdir'', ''touch'', ''chmod'', ''chown'', ''chgrp'', ''ln'',
      ''tee'', ''truncate'', ''dd'', ''shred'']"

definition system_words :: "string list" where
  "system_words =
     [''sudo'', ''su'', ''kill'', ''pkill'', ''killall'', ''reboot'', ''shutdown'']"

definition git_pattern :: re where
  "git_pattern =
     rseq [RWordB, rlit_i ''git'', rspaces1,
       ralt [rlit_i ''add'', rlit_i ''commit'', rlit_i ''push'', rlit_i ''pull'', rlit_i ''merge'',
         rlit_i ''rebase'', rlit_i ''reset'', rlit_i ''checkout'',
         rseq [rlit_i ''branch'', rspaces1, rchar (CHR ''-''), RCls (fold_class (one_of ''dD''))],
         rlit_i ''stash'', rlit_i ''cherry-pick'', rlit_i ''revert'', rlit_i ''tag'', rlit_i ''init'',
         rlit_i ''clone'', rseq [rlit_i ''clean'', RWordB]]]"

definition fork_bomb_pattern :: re where
  "fork_bomb_pattern =
     rseq [RAlt RBegin (RCls (\<lambda>r. r = byte (CHR '';'') \<or> posix_space r)),
       RStar (RCls (fold_class (\<lambda>r. ascii_alnum r \<or> one_of ''_:.-'' r))), rspaces,
       rlit ''()'', rspaces, rchar (CHR ''{''),
       RStar (RCls (\<lambda>r. r \<noteq> byte (CHR ''}''))), rchar (CHR ''|''),
       RStar (RCls (\<lambda>r. r \<noteq> byte (CHR ''}''))), rchar (CHR ''&''),
       RStar (RCls (\<lambda>r. r \<noteq> byte (CHR ''}''))), rchar (CHR ''}''), rspaces, rchar (CHR '';'')]"

definition destructivePatterns :: "re list" where
  "destructivePatterns =
     map word_pattern destructive_words @
     [rlit ''>>'',
      sub_pattern ''npm'' [''install'', ''uninstall'', ''update'', ''ci'', ''link'', ''publish''],
      sub_pattern ''yarn'' [''add'', ''remove'', ''install'', ''publish''],
      sub_pattern ''pnpm'' [''add'', ''remove'', ''install'', ''publish''],
      sub_pattern ''pip'' [''install'', ''uninstall''],
      rseq [RWordB, rlit_i ''apt'', ropt (rlit_i ''-get''), rspaces1,
        ralt (map rlit_i [''install'', ''remove'', ''purge'', ''update'', ''upgrade''])],
      sub_pattern ''brew'' [''install'', ''uninstall'', ''upgrade''],
      git_pattern] @
     map word_pattern system_words @
     [sub_pattern ''systemctl'' [''start'', ''stop'', ''restart'', ''enable'', ''disable''],
      rseq [RWordB, rlit_i ''service'', rspaces1, rplus (RCls (\<lambda>r. \<not> perl_space r)), rspaces1,
        ralt (map rlit_i [''start'', ''stop'', ''restart''])],
      rseq [RWordB, ralt [RSeq (rlit_i ''vi'') (ropt (rchar_i (CHR ''m''))), rlit_i ''nano'',
        rlit_i ''emacs'', rlit_i ''code'', rlit_i ''subl''], RWordB],
      fork_bomb_pattern]"

definition mkfsCommandPattern :: re where
  "mkfsCommandPattern =
     rseq [RAlt RBegin (RSeq (RCls (one_of '';|&'')) rspaces), rspaces, rlit_i ''mkfs'',
       ropt (RSeq (rchar (CHR ''.''))
         (rplus (RCls (fold_class (\<lambda>r. (97 \<le> r \<and> r \<le> 122) \<or> ascii_digit r \<or> one_of ''_-'' r))))),
       RAlt (RCls perl_space) REnd]"

text \<open>\<open>redirectTarget\<close>: the word after the \<open>>\<close> at \<open>from\<close>, unquoted; bytes are read as runes.\<close>

definition redirectTarget :: "string \<Rightarrow> nat \<Rightarrow> string" where
  "redirectTarget command from =
     (let s0 = drop (Suc from) command;
          s1 = (if s0 \<noteq> [] \<and> hd s0 = CHR ''&'' then tl s0 else s0);
          s2 = dropWhile (\<lambda>c. is_space (byte c)) s1;
          target = takeWhile (\<lambda>c. \<not> is_space (byte c) \<and> c \<notin> set ''|;&><'') s2
      in if 2 \<le> length target \<and>
            ((hd target = DQUOTE \<and> last target = DQUOTE) \<or> (hd target = SQUOTE \<and> last target = SQUOTE))
         then butlast (tl target) else target)"

definition isSafeRedirectSink :: "string \<Rightarrow> bool" where
  "isSafeRedirectSink target \<longleftrightarrow>
     target \<in> set [''/dev/null'', ''/dev/stdin'', ''/dev/stdout'', ''/dev/stderr'', ''/dev/zero'', ''/dev/tty'']"

definition is_output_redirect :: "string \<Rightarrow> nat \<Rightarrow> bool" where
  "is_output_redirect command i \<longleftrightarrow>
     command ! i = CHR ''>'' \<and>
     \<not> (0 < i \<and> command ! (i - 1) = CHR ''<'') \<and>
     \<not> (i + 1 < length command \<and> command ! (i + 1) = CHR ''>'') \<and>
     \<not> (i + 1 < length command \<and> command ! (i + 1) = CHR ''&'') \<and>
     \<not> isSafeRedirectSink (redirectTarget command i)"

definition hasSingleOutputRedirect :: "string \<Rightarrow> bool" where
  "hasSingleOutputRedirect command \<longleftrightarrow> list_ex (is_output_redirect command) [0..<length command]"

definition IsDestructiveCommand :: "string \<Rightarrow> bool" where
  "IsDestructiveCommand command \<longleftrightarrow>
     hasSingleOutputRedirect command \<or> MatchString mkfsCommandPattern command \<or>
     list_ex (\<lambda>p. MatchString p command) destructivePatterns"

section \<open>The read-only allowlist\<close>

definition start_word :: "string \<Rightarrow> re" where
  "start_word w = rseq [RBegin, rspaces, rlit w, RWordB]"

definition start_sub :: "string \<Rightarrow> string list \<Rightarrow> re" where
  "start_sub w subs = rseq [RBegin, rspaces, rlit_i w, rspaces1, ralt (map rlit_i subs)]"

definition safePatterns :: "re list" where
  "safePatterns =
     map start_word
       [''cat'', ''head'', ''tail'', ''less'', ''more'', ''grep'', ''find'', ''ls'', ''pwd'', ''echo'',
        ''printf'', ''wc'', ''sort'', ''uniq'', ''diff'', ''file'', ''stat'', ''du'', ''df'', ''tree'',
        ''which'', ''whereis'', ''type'', ''env'', ''printenv'', ''uname'', ''whoami'', ''id'', ''date'',
        ''cal'', ''uptime'', ''ps'', ''top'', ''htop'', ''free''] @
     [rseq [RBegin, rspaces, rlit_i ''git'', rspaces1,
        ralt [rlit_i ''status'', rlit_i ''log'', rlit_i ''diff'', rlit_i ''show'', rlit_i ''branch'',
          rlit_i ''remote'', rseq [rlit_i ''config'', rspaces1, rlit_i ''--get'']]],
      start_sub ''git'' [''ls-''],
      start_sub ''npm'' [''list'', ''ls'', ''view'', ''info'', ''search'', ''outdated'', ''audit''],
      start_sub ''yarn'' [''list'', ''info'', ''why'', ''audit''],
      start_sub ''node'' [''--version''],
      start_sub ''python'' [''--version''],
      rseq [RBegin, rspaces, rlit_i ''curl'', RCls perl_space],
      rseq [RBegin, rspaces, rlit_i ''wget'', rspaces1, rlit_i ''-O'', rspaces, rchar (CHR ''-'')],
      start_word ''jq'',
      start_sub ''sed'' [''-n''],
      start_word ''awk'', start_word ''rg'', start_word ''fd'', start_word ''bat'', start_word ''eza'']"

definition IsSafeCommand :: "string \<Rightarrow> bool" where
  "IsSafeCommand command \<longleftrightarrow>
     \<not> IsDestructiveCommand command \<and> list_ex (\<lambda>p. MatchString p command) safePatterns"

section \<open>The gate\<close>

definition commandFromArgs :: "bytes \<Rightarrow> string" where
  "commandFromArgs args =
     (case unmarshal_map args of
        None \<Rightarrow> []
      | Some decoded \<Rightarrow> (case map_key decoded ''command'' of Some (JStr s) \<Rightarrow> s | _ \<Rightarrow> []))"

definition resolvePrompt :: "policy \<Rightarrow> prompt_request \<Rightarrow> bool \<times> string" where
  "resolvePrompt pol req =
     (case po_prompter pol of
        None \<Rightarrow> (False, ''Tool '' @ pr_tool req @ '' requires approval but no interactive prompt is available'')
      | Some approve \<Rightarrow>
          (case approve req of
             Inr True \<Rightarrow> (True, [])
           | _ \<Rightarrow> (False, ''Tool '' @ pr_tool req @ '' was not approved'')))"

definition guard_reason :: string where
  "guard_reason = ''Command blocked by destructive-command guard (removals, moves, and file-clobbering redirects are blocked; read-only inspection such as cat/ls/grep and fd-dup redirects like 2>&1 or 2>/dev/null are fine): ''"

definition plan_gate :: "string \<Rightarrow> string \<Rightarrow> bool \<times> string" where
  "plan_gate toolName command =
     (case ClassifyTool toolName of
        TierRead \<Rightarrow> (True, [])
      | TierWrite \<Rightarrow> (False, ''Plan mode: '' @ toolName @ '' is disabled because it can mutate the workspace'')
      | TierExec \<Rightarrow>
          (if toolName = ''bash'' \<and> IsSafeCommand command then (True, [])
           else if toolName = ''bash'' then
             (False, ''Plan mode: command blocked (not allowlisted). Disable plan mode or use a read-only command. Command: '' @ command)
           else (False, ''Plan mode: '' @ toolName @ '' is disabled because it can mutate the workspace'')))"

definition Gate :: "bool \<Rightarrow> mode \<Rightarrow> string \<Rightarrow> bytes \<Rightarrow> policy \<Rightarrow> bool \<times> string" where
  "Gate cancelled mode toolName args pol =
     (if cancelled then (False, ''Operation aborted'')
      else
        let tier = ClassifyTool toolName;
            command = (if toolName = ''bash'' then commandFromArgs args else []);
            destructive = (toolName = ''bash'' \<and> IsDestructiveCommand command);
            denied = (False, ''Tool '' @ toolName @ '' denied by policy'');
            by_mode = (if mode = ModePlan then plan_gate toolName command else (True, []))
        in
        if mode = ModeBypass then
          (if po_overrides pol toolName = Some DecideDeny then denied else (True, []))
        else if destructive then (False, guard_reason @ command)
        else
          (case po_overrides pol toolName of
             Some DecideAllow \<Rightarrow> (True, [])
           | Some DecideDeny \<Rightarrow> denied
           | Some DecidePrompt \<Rightarrow> resolvePrompt pol \<lparr>pr_tool = toolName, pr_tier = tier, pr_reason = []\<rparr>
           | _ \<Rightarrow> by_mode))"

section \<open>What the gate allows\<close>

definition gate_command :: "string \<Rightarrow> bytes \<Rightarrow> string" where
  "gate_command toolName args = (if toolName = ''bash'' then commandFromArgs args else [])"

definition prompt_approves :: "policy \<Rightarrow> prompt_request \<Rightarrow> bool" where
  "prompt_approves pol req \<longleftrightarrow>
     (case po_prompter pol of None \<Rightarrow> False | Some approve \<Rightarrow> approve req = Inr True)"

lemma resolvePrompt_result:
  "fst (resolvePrompt pol req) \<longleftrightarrow> prompt_approves pol req"
  "snd (resolvePrompt pol req) = [] \<longleftrightarrow> prompt_approves pol req"
  by (auto simp: resolvePrompt_def prompt_approves_def split: option.splits sum.splits bool.splits)

lemma fst_plan_gate:
  "fst (plan_gate t c) \<longleftrightarrow> ClassifyTool t = TierRead \<or> (t = ''bash'' \<and> IsSafeCommand c)"
  by (auto simp: plan_gate_def ClassifyTool_def split: tier.splits)

text \<open>C25: The gate allows a call exactly when the run is not cancelled and either the mode is
  bypass and the policy does not deny the tool, or the mode is another one, the call is not a
  bash command the destructive-command guard recognises (whatever the policy says), and the
  tool's own policy entry allows it, an approving prompter confirms it, or, without a usable
  entry, the mode is not plan, or the tool only reads, or it is bash with an allowlisted
  command.  A refusal always has a reason, an approval never has one.
\<close>

theorem Gate_allows_iff:
  "fst (Gate cancelled mode toolName args pol) =
     (\<not> cancelled \<and>
      (if mode = ModeBypass then po_overrides pol toolName \<noteq> Some DecideDeny
       else \<not> (toolName = ''bash'' \<and> IsDestructiveCommand (gate_command toolName args)) \<and>
         (case po_overrides pol toolName of
            Some DecideAllow \<Rightarrow> True
          | Some DecideDeny \<Rightarrow> False
          | Some DecidePrompt \<Rightarrow>
              prompt_approves pol \<lparr>pr_tool = toolName, pr_tier = ClassifyTool toolName, pr_reason = []\<rparr>
          | _ \<Rightarrow> if mode = ModePlan
                then ClassifyTool toolName = TierRead \<or>
                  (toolName = ''bash'' \<and> IsSafeCommand (gate_command toolName args))
                else True))) \<and>
   (fst (Gate cancelled mode toolName args pol) = (snd (Gate cancelled mode toolName args pol) = []))"
proof -
  have p: "snd (plan_gate t c) = [] \<longleftrightarrow> fst (plan_gate t c)" for t c
    by (auto simp: plan_gate_def split: tier.splits)
  have g: "guard_reason \<noteq> []" by (simp add: guard_reason_def)
  show ?thesis
    unfolding Gate_def gate_command_def Let_def
    by (cases "po_overrides pol toolName"; (cases "the (po_overrides pol toolName)")?)
      (simp_all add: resolvePrompt_result fst_plan_gate p g)
qed

section \<open>Guarded words\<close>

lemma ascii_not_cont: "byte c < 128 \<Longrightarrow> \<not> cont_byte c" "byte c < 128 \<Longrightarrow> \<not> second_ok b (byte c)"
  by (auto simp: cont_byte_def second_ok_def split: if_splits)

lemma decode_rune_ascii_after:
  assumes "s \<noteq> []" "byte c < 128"
  shows "decode_rune (s @ c # t) = decode_rune s"
proof -
  obtain c0 s1 where s: "s = c0 # s1" using assms(1) by (cases s) auto
  note n = ascii_not_cont [OF assms(2)]
  show ?thesis
  proof (cases s1)
    case Nil
    with n show ?thesis by (simp add: s decode_rune_def Let_def split: list.split)
  next
    case c1: (Cons c1 s2)
    show ?thesis
    proof (cases s2)
      case Nil
      with n c1 show ?thesis by (simp add: s decode_rune_def Let_def split: list.split)
    next
      case (Cons c2 s3)
      with n c1 show ?thesis by (cases s3) (simp_all add: s decode_rune_def Let_def)
    qed
  qed
qed

lemma runes_ascii_Cons: "byte c < 128 \<Longrightarrow> runes (c # t) = byte c # runes t"
  by (simp add: runes_def rune_segments.simps [of "c # t"] decode_rune_def)

lemma runes_append_ascii: "byte c < 128 \<Longrightarrow> runes (a @ c # t) = runes a @ byte c # runes t"
proof (induction a rule: rune_segments.induct)
  case (1 a)
  show ?case
  proof (cases "a = []")
    case True
    with "1.prems" show ?thesis by (simp add: runes_ascii_Cons runes_def [of "[]"] rune_segments.simps [of "[]"])
  next
    case False
    obtain r w where d: "decode_rune a = (r, w)" by (cases "decode_rune a")
    then have d': "decode_rune (a @ c # t) = (r, w)"
      using decode_rune_ascii_after [OF False "1.prems"] by simp
    have w: "w \<le> length a" using decode_rune_width [OF False] d by simp
    have "runes (a @ c # t) = r # runes (drop w a @ c # t)"
      using d' w by (simp add: runes_def rune_segments.simps [of "a @ c # t"])
    moreover have "runes a = r # runes (drop w a)"
      using d False by (simp add: runes_def rune_segments.simps [of a])
    ultimately show ?thesis using "1.IH" [OF False d [symmetric] refl "1.prems"] by simp
  qed
qed

lemma runes_append_ascii_string:
  "\<forall>c \<in> set k. byte c < 128 \<Longrightarrow> k \<noteq> [] \<Longrightarrow> runes (a @ k @ t) = runes a @ map byte k @ runes t"
proof (induction k arbitrary: a)
  case Nil
  then show ?case by simp
next
  case (Cons c k)
  show ?case
  proof (cases "k = []")
    case True
    with Cons show ?thesis by (simp add: runes_append_ascii)
  next
    case False
    from Cons have c: "byte c < 128" by simp
    have "runes (k @ t) = map byte k @ runes t"
      using Cons.IH [of "[]"] Cons.prems False by (simp add: runes_def [of "[]"] rune_segments.simps [of "[]"])
    then show ?thesis using runes_append_ascii [OF c, of a "k @ t"] by simp
  qed
qed

lemma matches_rlit_i:
  assumes "list_all2 (\<lambda>r d. fold_class (\<lambda>x. x = byte d) r) k w"
  shows "matches (a @ k @ b) (rlit_i w) (length a) (length a + length k)"
  using assms
proof (induction k w arbitrary: a rule: list_all2_induct)
  case Nil
  then show ?case by (simp add: rlit_i_def matches.eps)
next
  case (Cons r k d w)
  have "matches (a @ (r # k) @ b) (rchar_i d) (length a) (Suc (length a))"
    unfolding rchar_i_def by (rule matches.cls) (use Cons.hyps in auto)
  moreover have "matches ((a @ [r]) @ k @ b) (rlit_i w) (length (a @ [r])) (length (a @ [r]) + length k)"
    by (rule Cons.IH)
  then have "matches (a @ (r # k) @ b) (rseq (map rchar_i w)) (Suc (length a)) (length a + length (r # k))"
    by (simp add: rlit_i_def)
  ultimately show ?case unfolding rlit_i_def list.map matches_rseq_Cons by blast
qed

definition lower_ascii :: "char \<Rightarrow> nat" where "lower_ascii c = lower_rune (\<lambda>r. r) (byte c)"

lemma matches_word_pattern:
  assumes k: "map lower_ascii k = map byte w" and w: "w \<noteq> []" "\<forall>c \<in> set w. 97 \<le> byte c \<and> byte c \<le> 122"
    and before: "a = [] \<or> \<not> word_rune (last a)" and after: "b = [] \<or> \<not> word_rune (hd b)"
  shows "matches (a @ map byte k @ b) (word_pattern w) (length a) (length a + length k)"
proof -
  have len: "length k = length w" using k by (rule map_eq_imp_length_eq)
  have letter: "fold_class (\<lambda>x. x = byte (w ! i)) (byte (k ! i)) \<and> word_rune (byte (k ! i))"
    if "i < length k" for i
  proof -
    have "map lower_ascii k ! i = map byte w ! i" by (simp only: k)
    then have "lower_ascii (k ! i) = byte (w ! i)" using that len by simp
    moreover have "97 \<le> byte (w ! i)" "byte (w ! i) \<le> 122" using w(2) that len by auto
    ultimately show ?thesis
      by (auto simp: lower_ascii_def lower_rune_def fold_class_def word_rune_def split: if_splits)
  qed
  let ?t = "a @ map byte k @ b"
  have lit: "matches ?t (rlit_i w) (length a) (length a + length k)"
    using matches_rlit_i [of "map byte k" w a b] letter len by (simp add: list_all2_conv_all_nth)
  have kpos: "k \<noteq> []" using len w(1) by auto
  have at: "word_at ?t (length a)" "word_at ?t (length a + length k - 1)"
  proof -
    obtain m where m: "length k = Suc m" using kpos by (cases k) auto
    show "word_at ?t (length a)" using letter [of 0] m by (simp add: word_at_def nth_append)
    show "word_at ?t (length a + length k - 1)" using letter [of m] m by (simp add: word_at_def nth_append)
  qed
  have "matches ?t RWordB (length a) (length a)"
  proof (rule matches.wordb)
    have "\<not> (0 < length a \<and> word_at ?t (length a - 1))"
      using before by (auto simp: word_at_def nth_append last_conv_nth)
    with at show "word_boundary ?t (length a)" by (simp add: word_boundary_def)
  qed
  moreover have "matches ?t RWordB (length a + length k) (length a + length k)"
  proof (rule matches.wordb)
    have "\<not> word_at ?t (length a + length k)"
      using after by (cases b) (auto simp: word_at_def nth_append)
    with at kpos show "word_boundary ?t (length a + length k)" by (simp add: word_boundary_def)
  qed
  ultimately show ?thesis using lit
    by (simp add: word_pattern_def) (blast intro: matches.seq)
qed

lemma guarded_words_ok:
  "\<forall>w \<in> set (destructive_words @ system_words). w \<noteq> [] \<and> (\<forall>c \<in> set w. 97 \<le> byte c \<and> byte c \<le> 122)"
  by (simp add: destructive_words_def system_words_def)

lemma word_is_destructive:
  assumes "w \<in> set (destructive_words @ system_words)" "map lower_ascii k = map byte w"
    "a = [] \<or> \<not> word_rune (last (runes a))" "b = [] \<or> \<not> word_rune (hd (runes b))"
  shows "IsDestructiveCommand (a @ k @ b)"
proof -
  from guarded_words_ok assms(1) have w: "w \<noteq> []" "\<forall>c \<in> set w. 97 \<le> byte c \<and> byte c \<le> 122" by blast+
  have len: "length k = length w" using assms(2) by (rule map_eq_imp_length_eq)
  have ascii: "\<forall>c \<in> set k. byte c < 128"
  proof
    fix c assume "c \<in> set k"
    then have "lower_ascii c \<in> set (map byte w)" using assms(2) by (metis image_eqI list.set_map)
    then show "byte c < 128" using w(2) by (auto simp: lower_ascii_def lower_rune_def split: if_splits)
  qed
  have t: "runes (a @ k @ b) = runes a @ map byte k @ runes b"
    by (rule runes_append_ascii_string [OF ascii]) (use w(1) len in auto)
  have e: "runes [] = []" by (simp add: runes_def rune_segments.simps)
  have "matches (runes (a @ k @ b)) (word_pattern w) (length (runes a)) (length (runes a) + length k)"
    unfolding t by (rule matches_word_pattern [OF assms(2) w]) (use assms(3,4) e in auto)
  moreover have "length (runes a) \<le> length (runes (a @ k @ b))" by (simp add: t)
  ultimately have "MatchString (word_pattern w) (a @ k @ b)" by (intro MatchStringI)
  moreover have "word_pattern w \<in> set destructivePatterns"
    using assms(1) by (auto simp: destructivePatterns_def)
  ultimately show ?thesis by (auto simp: IsDestructiveCommand_def list_ex_iff)
qed

text \<open>C15: A bash command that contains one of the guarded program names (\<open>rm\<close>, \<open>mv\<close>, \<open>cp\<close>,
  \<open>chmod\<close>, \<open>dd\<close>, \<open>sudo\<close>, \<open>kill\<close> and the others) as a whole word, in any mixture of upper and
  lower case and anywhere in the text, is refused in every mode except bypass, whatever the
  tool's policy entry says and whatever surrounds the word, also bytes that are not UTF-8.
\<close>

theorem guard_blocks_words:
  assumes "w \<in> set (destructive_words @ system_words)" "map lower_ascii k = map byte w"
    and "a = [] \<or> \<not> word_rune (last (runes a))" "b = [] \<or> \<not> word_rune (hd (runes b))"
    and "commandFromArgs args = a @ k @ b" "mode \<noteq> ModeBypass"
  shows "\<not> fst (Gate cancelled mode ''bash'' args pol)"
  using word_is_destructive [OF assms(1-4)] assms(5,6) by (simp add: Gate_def Let_def)

theorem guard_blocks_words_witness:
  "\<not> fst (Gate False ModeAcceptEdits ''bash'' ''{\"command\":\"ls; Rm -rf x\"}''
      \<lparr>po_overrides = (\<lambda>_. Some DecideAllow), po_prompter = None\<rparr>)"
  by (rule guard_blocks_words [of "''rm''" "''Rm''" "''ls; ''" "'' -rf x''"]; code_simp)

section \<open>Commands the guard lets through\<close>

text \<open>
  The bash form \<open>>&file\<close> overwrites a file, but the scanner skips every \<open>>\<close> that is followed by
  \<open>&\<close>, so the branch of \<open>redirectTarget\<close> for it is never reached; and the allowlist looks only at
  the first word of a command line.
\<close>

lemma guard_misses_ampersand_redirect:
  "fst (Gate False ModePlan ''bash'' ''{\"command\":\"ls >&f\"}''
      \<lparr>po_overrides = Map.empty, po_prompter = None\<rparr>)"
  by code_simp

lemma plan_mode_allows_mutation:
  "fst (Gate False ModePlan ''bash'' ''{\"command\":\"find . -delete\"}''
      \<lparr>po_overrides = Map.empty, po_prompter = None\<rparr>)"
  by code_simp

end
