(* ===== verification/Plan_Steps.thy ===== *)
theory Plan_Steps
  imports Permission
begin

text \<open>
  The plan collector of \<open>internal/permission/permission.go\<close>: the numbered steps of a streamed
  plan, their cleaned text, and the \<open>[DONE:N]\<close> markers that complete them.  The Unicode
  upper-case table is the parameter \<open>uup\<close>.
\<close>

section \<open>Patterns\<close>

definition star_char :: re where "star_char = rchar (CHR ''*'')"

definition boldOrItalicPattern :: re where
  "boldOrItalicPattern =
     rseq [rep12 star_char, RGroup 1 (rplus (RCls (\<lambda>r. r \<noteq> byte (CHR ''*'')))), rep12 star_char]"

definition codePattern :: re where
  "codePattern =
     rseq [rchar (CHR 0x60), RGroup 1 (rplus (RCls (\<lambda>r. r \<noteq> 96))), rchar (CHR 0x60)]"

definition leadingVerbPattern :: re where
  "leadingVerbPattern =
     rseq [RBegin,
       ralt (map rlit_i [''Use'', ''Run'', ''Execute'', ''Create'', ''Write'', ''Read'', ''Check'', ''Verify'',
         ''Update'', ''Modify'', ''Add'', ''Remove'', ''Delete'', ''Install'']),
       rspaces1, ropt (RSeq (rlit_i ''the'') rspaces1)]"

definition planHeaderPattern :: re where
  "planHeaderPattern = rseq [rep02 star_char, rlit_i ''Plan:'', rep02 star_char, rspaces, rchar NL]"

definition numberedPlanPattern :: re where
  "numberedPlanPattern =
     rseq [RLineBegin, rspaces, RGroup 1 (rplus (RCls ascii_digit)), RCls (one_of ''.)''), rspaces1,
       rep02 star_char, RGroup 2 (rplus (RCls (\<lambda>r. r \<noteq> byte (CHR ''*'') \<and> r \<noteq> 10)))]"

definition trailingStars :: re where
  "trailingStars = RSeq (rep12 star_char) REnd"

definition doneStepPattern :: re where
  "doneStepPattern =
     rseq [rlit_i ''[DONE:'', RGroup 1 (rplus (RCls ascii_digit)), rchar (CHR '']'')]"

section \<open>Steps\<close>

record todo_item =
  ti_step :: int
  ti_text :: string
  ti_completed :: bool

definition upper_rune :: "(rune \<Rightarrow> rune) \<Rightarrow> rune \<Rightarrow> rune" where
  "upper_rune uup r = (if r < 0x80 then (if 0x61 \<le> r \<and> r \<le> 0x7A then r - 0x20 else r) else uup r)"

definition keep_group :: "segs \<Rightarrow> mstate \<Rightarrow> string" where
  "keep_group gs st = submatch gs 1 st"

definition strip_markup :: "string \<Rightarrow> string" where
  "strip_markup text =
     (let c1 = ReplaceAllString boldOrItalicPattern keep_group text;
          c2 = ReplaceAllString codePattern keep_group c1;
          c3 = ReplaceAllString leadingVerbPattern (\<lambda>_ _. []) c2;
          c4 = ReplaceAllString rspaces1 (\<lambda>_ _. '' '') c3
      in trim_space c4)"

definition capitalise :: "(rune \<Rightarrow> rune) \<Rightarrow> string \<Rightarrow> string" where
  "capitalise uup s =
     (case runes s of [] \<Rightarrow> s | r # rs \<Rightarrow> string_of_runes (upper_rune uup r # rs))"

definition CleanStepText :: "(rune \<Rightarrow> rune) \<Rightarrow> string \<Rightarrow> string" where
  "CleanStepText uup text =
     (let cleaned = capitalise uup (strip_markup text) in
      if 50 < length (runes cleaned) then string_of_runes (take 47 (runes cleaned)) @ ''...''
      else cleaned)"

definition step_text :: "string \<Rightarrow> string" where
  "step_text m2 = trim_space (ReplaceAllString trailingStars (\<lambda>_ _. []) (trim_space m2))"

definition skipped_step :: "string \<Rightarrow> bool" where
  "skipped_step text \<longleftrightarrow>
     length text \<le> 5 \<or> prefix [CHR 0x60] text \<or> prefix ''/'' text \<or> prefix ''-'' text"

definition add_step :: "(rune \<Rightarrow> rune) \<Rightarrow> string \<Rightarrow> todo_item list \<Rightarrow> todo_item list" where
  "add_step uup m2 items =
     (let text = step_text m2; cleaned = CleanStepText uup text in
      if skipped_step text then items
      else if 3 < length cleaned
        then items @ [\<lparr>ti_step = int (length items) + 1, ti_text = cleaned, ti_completed = False\<rparr>]
      else items)"

definition ExtractTodoItems :: "(rune \<Rightarrow> rune) \<Rightarrow> string \<Rightarrow> todo_item list" where
  "ExtractTodoItems uup message =
     (case re_find planHeaderPattern (runes message) 0 of
        None \<Rightarrow> []
      | Some (_, st) \<Rightarrow>
          (let plan = rune_segments (seg_bytes (drop (fst st) (rune_segments message)));
               found = re_find_all numberedPlanPattern (map fst plan)
           in fold (\<lambda>m. add_step uup (submatch plan 2 (snd m))) found []))"

text \<open>\<open>strconv.Atoi\<close> on a run of digits fails when the value does not fit.\<close>

definition atoi_digits :: "string \<Rightarrow> int option" where
  "atoi_digits s = (if int (digits_value s) < 2 ^ 63 then Some (int (digits_value s)) else None)"

definition ExtractDoneSteps :: "string \<Rightarrow> int list" where
  "ExtractDoneSteps message =
     (let gs = rune_segments message in
      List.map_filter (\<lambda>m. atoi_digits (submatch gs 1 (snd m))) (re_find_all doneStepPattern (map fst gs)))"

definition mark_step :: "int \<Rightarrow> todo_item list \<Rightarrow> todo_item list" where
  "mark_step n items =
     (case first_index (\<lambda>it. ti_step it = n) items of
        None \<Rightarrow> items
      | Some i \<Rightarrow> items[i := (items ! i)\<lparr>ti_completed := True\<rparr>])"

definition MarkCompletedSteps :: "string \<Rightarrow> todo_item list \<Rightarrow> int \<times> todo_item list" where
  "MarkCompletedSteps text items =
     (let steps = ExtractDoneSteps text in (int (length steps), fold mark_step steps items))"

definition FormatPlan :: "todo_item list \<Rightarrow> string" where
  "FormatPlan items =
     (let out = concat (map (\<lambda>it. (if ti_completed it then ''[x]'' else ''[ ]'') @ '' '' @
            show_int (ti_step it) @ ''. '' @ ti_text it @ [NL]) items)
      in rev (dropWhile (\<lambda>c. c = NL) (rev out)))"

text \<open>
  The collector's state is its items; a nil collector observes nothing and has no items.
\<close>

type_synonym collector = "todo_item list option"

definition NewPlanCollector :: collector where "NewPlanCollector = Some []"

definition Observe :: "(rune \<Rightarrow> rune) \<Rightarrow> string \<Rightarrow> collector \<Rightarrow> int \<times> collector" where
  "Observe uup text c =
     (case c of
        None \<Rightarrow> (0, None)
      | Some items \<Rightarrow>
          (let found = ExtractTodoItems uup text;
               items1 = (if found \<noteq> [] then found else items);
               (n, items2) = MarkCompletedSteps text items1
           in (n, Some items2)))"

definition Items :: "collector \<Rightarrow> todo_item list" where
  "Items c = (case c of None \<Rightarrow> [] | Some items \<Rightarrow> items)"

section \<open>The collector's invariant\<close>

definition plan_inv :: "todo_item list \<Rightarrow> bool" where
  "plan_inv items \<longleftrightarrow>
     map ti_step items = map int [1..<Suc (length items)] \<and> (\<forall>it \<in> set items. 3 < length (ti_text it))"

lemma plan_inv_Nil [simp]: "plan_inv []" by (simp add: plan_inv_def)

lemma add_step_inv:
  assumes "plan_inv items" "\<forall>it \<in> set items. \<not> ti_completed it"
  shows "plan_inv (add_step uup m items) \<and> (\<forall>it \<in> set (add_step uup m items). \<not> ti_completed it)"
  using assms by (auto simp: add_step_def Let_def plan_inv_def)

lemma ExtractTodoItems_inv:
  "plan_inv (ExtractTodoItems uup s) \<and> (\<forall>it \<in> set (ExtractTodoItems uup s). \<not> ti_completed it)"
proof -
  have step: "plan_inv items \<and> (\<forall>it \<in> set items. \<not> ti_completed it) \<Longrightarrow>
      plan_inv (fold (\<lambda>m. add_step uup (submatch p 2 (snd m))) ms items) \<and>
      (\<forall>it \<in> set (fold (\<lambda>m. add_step uup (submatch p 2 (snd m))) ms items). \<not> ti_completed it)"
    for p and ms :: "(nat \<times> mstate) list" and items
  proof (induction ms arbitrary: items)
    case Nil
    then show ?case by simp
  next
    case (Cons m ms)
    from Cons.prems have "plan_inv (add_step uup (submatch p 2 (snd m)) items) \<and>
        (\<forall>it \<in> set (add_step uup (submatch p 2 (snd m)) items). \<not> ti_completed it)"
      by (intro add_step_inv) blast+
    from Cons.IH [OF this] show ?case by simp
  qed
  show ?thesis
  proof (cases "re_find planHeaderPattern (runes s) 0")
    case None
    then show ?thesis by (simp add: ExtractTodoItems_def)
  next
    case (Some m)
    then show ?thesis using step [of "[]"] by (simp add: ExtractTodoItems_def Let_def case_prod_beta)
  qed
qed

definition frozen :: "todo_item \<Rightarrow> int \<times> string" where
  "frozen it = (ti_step it, ti_text it)"

lemma mark_step_frozen: "map frozen (mark_step n items) = map frozen items"
proof (cases "first_index (\<lambda>it. ti_step it = n) items")
  case (Some i)
  from first_index_Some [OF this] have "i < length items" by simp
  then show ?thesis
    by (simp add: mark_step_def Some map_update frozen_def list_update_same_conv)
qed (simp add: mark_step_def)

lemma mark_steps_frozen: "map frozen (fold mark_step ns items) = map frozen items"
  by (induction ns arbitrary: items) (simp_all add: mark_step_frozen)

lemma plan_inv_frozen:
  assumes "map frozen xs = map frozen ys" "plan_inv ys"
  shows "plan_inv xs"
proof -
  have "map fst (map frozen xs) = map fst (map frozen ys)" "map snd (map frozen xs) = map snd (map frozen ys)"
    by (simp_all only: assms(1))
  then have s: "map ti_step xs = map ti_step ys" and t: "map ti_text xs = map ti_text ys"
    by (simp_all add: comp_def frozen_def)
  from t have "ti_text ` set xs = ti_text ` set ys" by (metis set_map)
  with assms(2) s map_eq_imp_length_eq [OF s] show ?thesis
    unfolding plan_inv_def by (metis (no_types, lifting) imageE imageI)
qed

lemma plan_inv_nth: "plan_inv items \<Longrightarrow> i < length items \<Longrightarrow> ti_step (items ! i) = int i + 1"
proof -
  assume p: "plan_inv items" and i: "i < length items"
  have "map ti_step items ! i = map int [1..<Suc (length items)] ! i"
    using p by (simp add: plan_inv_def)
  with i show ?thesis by (simp del: upt_Suc)
qed

lemma mark_step_nth:
  assumes "plan_inv items" "i < length items"
  shows "ti_completed (mark_step n items ! i) \<longleftrightarrow> ti_completed (items ! i) \<or> n = int i + 1"
proof (cases "first_index (\<lambda>it. ti_step it = n) items")
  case None
  then have "ti_step (items ! i) \<noteq> n" using assms(2) by (auto simp: first_index_None_iff)
  with None plan_inv_nth [OF assms] show ?thesis by (simp add: mark_step_def)
next
  case (Some k)
  from first_index_Some [OF Some] have k: "k < length items" "ti_step (items ! k) = n" by auto
  with plan_inv_nth [OF assms(1) k(1)] have "n = int k + 1" by simp
  with Some k(1) assms(2) show ?thesis by (simp add: mark_step_def nth_list_update)
qed

lemma mark_steps_nth:
  assumes "plan_inv items" "i < length items"
  shows "ti_completed (fold mark_step ns items ! i) \<longleftrightarrow> ti_completed (items ! i) \<or> int i + 1 \<in> set ns"
  using assms
proof (induction ns arbitrary: items)
  case Nil
  then show ?case by simp
next
  case (Cons n ns)
  have f: "map frozen (mark_step n items) = map frozen items" by (rule mark_step_frozen)
  have l: "length (mark_step n items) = length items" using map_eq_imp_length_eq [OF f] .
  have "ti_completed (fold mark_step ns (mark_step n items) ! i) \<longleftrightarrow>
      ti_completed (mark_step n items ! i) \<or> int i + 1 \<in> set ns"
    by (rule Cons.IH) (use Cons.prems l plan_inv_frozen [OF f] in auto)
  with mark_step_nth [OF Cons.prems] show ?case by auto
qed

text \<open>C39: After any observation the collected steps are numbered 1, 2, 3 and so on and every step
  has a text of more than three bytes.  A text with a plan replaces the steps by the steps it
  lists; a text without one keeps the steps.  A step is completed afterwards exactly when it
  was completed before (and the plan was not replaced) or the text marks its number, and no
  observation changes a number or a text.  The result counts the markers, also those that
  name no step.
\<close>

theorem Observe_tracks_plan:
  assumes "plan_inv items"
  shows "\<exists>items'. Observe uup text (Some items) = (int (length (ExtractDoneSteps text)), Some items') \<and>
    plan_inv items' \<and>
    (let base = (if ExtractTodoItems uup text = [] then items else ExtractTodoItems uup text) in
     map frozen items' = map frozen base \<and>
     (\<forall>i < length base. ti_completed (items' ! i) \<longleftrightarrow>
        ti_completed (base ! i) \<or> int i + 1 \<in> set (ExtractDoneSteps text)) \<and>
     (ExtractTodoItems uup text \<noteq> [] \<longrightarrow> (\<forall>it \<in> set base. \<not> ti_completed it)))"
proof -
  define base where "base = (if ExtractTodoItems uup text = [] then items else ExtractTodoItems uup text)"
  have inv: "plan_inv base" using assms ExtractTodoItems_inv [of uup "text"] by (simp add: base_def)
  have obs: "Observe uup text (Some items) =
      (int (length (ExtractDoneSteps text)), Some (fold mark_step (ExtractDoneSteps text) base))"
    by (simp add: Observe_def MarkCompletedSteps_def Let_def base_def)
  have f: "map frozen (fold mark_step (ExtractDoneSteps text) base) = map frozen base"
    by (rule mark_steps_frozen)
  show ?thesis unfolding base_def [symmetric] Let_def
    using obs f plan_inv_frozen [OF f inv] mark_steps_nth [OF inv] ExtractTodoItems_inv [of uup "text"]
    by (intro exI [of _ "fold mark_step (ExtractDoneSteps text) base"]) (auto simp: base_def)
qed

definition demo_items :: "todo_item list" where
  "demo_items = [\<lparr>ti_step = 1, ti_text = ''Look'', ti_completed = False\<rparr>,
     \<lparr>ti_step = 2, ti_text = ''Edit'', ti_completed = False\<rparr>]"

lemma plan_inv_demo: "plan_inv demo_items"
  by (simp add: demo_items_def plan_inv_def upt_rec)

theorem Observe_tracks_plan_witness:
  "(\<exists>items'. Observe id ''ok [DONE:2]'' (Some demo_items) =
      (int (length (ExtractDoneSteps ''ok [DONE:2]'')), Some items') \<and> plan_inv items') \<and>
   Observe id ''ok [DONE:2]'' (Some demo_items) =
     (1, Some [\<lparr>ti_step = 1, ti_text = ''Look'', ti_completed = False\<rparr>,
               \<lparr>ti_step = 2, ti_text = ''Edit'', ti_completed = True\<rparr>])"
proof (rule conjI)
  show "\<exists>items'. Observe id ''ok [DONE:2]'' (Some demo_items) =
      (int (length (ExtractDoneSteps ''ok [DONE:2]'')), Some items') \<and> plan_inv items'"
    using Observe_tracks_plan [OF plan_inv_demo, of id "''ok [DONE:2]''"] by blast
qed code_simp

end
