(* ===== verification/Json_Raw.thy ===== *)
theory Json_Raw
  imports Json
begin

text \<open>
  Decoding of JSON objects member by member with the raw text of every value, as
  \<open>encoding/json\<close> fills a struct with a \<open>json.RawMessage\<close> field; what the decoder does on a
  longer text, so that a proper prefix of an object and two objects in a row are both
  rejected; and the object encoder over already encoded members.
\<close>

section \<open>Longer inputs\<close>

lemma scan_str_extend: "scan_str s = Some (raw, r) \<Longrightarrow> scan_str (s @ x) = Some (raw, r @ x)"
proof (induction s arbitrary: raw r rule: scan_str.induct)
  case 1
  then show ?case by simp
next
  case (2 c t)
  show ?case
  proof (cases "c = BACKSLASH")
    case bs: True
    then obtain e u where t: "t = e # u" using "2.prems" by (cases t) auto
    show ?thesis
    proof (cases "e = CHR ''u''")
      case True
      from "2.prems" bs t True have g: "4 \<le> length u" "list_all is_hex (take 4 u)"
        by (auto split: if_splits)
      with "2.prems" bs t True obtain q where "scan_str u = Some (q, r)" "raw = c # e # q"
        by (auto simp: push1_def)
      with "2.IH"(1) [OF _ _ bs t True] g bs t True show ?thesis by (simp add: push1_def)
    next
      case False
      from "2.prems" bs t False have g: "e \<in> set ''\"/bfnrt'' \<or> e = BACKSLASH"
        by (auto split: if_splits)
      from g "2.prems" bs t False have "\<exists>q. scan_str u = Some (q, r) \<and> raw = c # e # q"
        by (simp add: push1_def) (auto split: if_splits)
      then obtain q where "scan_str u = Some (q, r)" "raw = c # e # q" by blast
      with "2.IH"(2) [OF _ _ bs t False g] g bs t False show ?thesis
        by (simp add: push1_def)
    qed
  next
    case False
    with "2.prems" "2.IH"(3) show ?thesis by (auto simp: push1_def split: if_splits)
  qed
qed

lemma takeWhile_extend:
  assumes "dropWhile P t \<noteq> []"
  shows "takeWhile P (t @ x) = takeWhile P t" "dropWhile P (t @ x) = dropWhile P t @ x"
  using assms by (induction t) auto

lemma scan_int_extend: "scan_int s = Some (i, r) \<Longrightarrow> r \<noteq> [] \<Longrightarrow> scan_int (s @ x) = Some (i, r @ x)"
  by (cases s) (auto simp: scan_int_def takeWhile_extend split: if_splits)

lemma scan_frac_extend: "scan_frac s = Some (f, r) \<Longrightarrow> r \<noteq> [] \<Longrightarrow> scan_frac (s @ x) = Some (f, r @ x)"
  by (cases s) (auto simp: scan_frac_def takeWhile_extend split: if_splits)

lemma scan_exp_extend:
  assumes "scan_exp s = Some (e, r)" "r \<noteq> []"
  shows "scan_exp (s @ x) = Some (e, r @ x)"
proof (cases s)
  case Nil
  with assms show ?thesis by (simp add: scan_exp_def)
next
  case s: (Cons c t)
  show ?thesis
  proof (cases t)
    case Nil
    with assms s show ?thesis by (auto simp: scan_exp_def split: if_splits)
  next
    case (Cons d t')
    then have "take 1 (t @ x) = take 1 t" by simp
    moreover have "drop (length (takeWhile P (take 1 t))) (t @ x) =
      drop (length (takeWhile P (take 1 t))) t @ x" for P :: "char \<Rightarrow> bool"
      by (simp add: Cons)
    ultimately show ?thesis using assms s
      by (auto simp: scan_exp_def Let_def takeWhile_extend split: if_splits)
  qed
qed

lemma scan_num_extend:
  assumes "scan_num s = Some (lit, r)" "r \<noteq> []"
  shows "scan_num (s @ x) = Some (lit, r @ x)"
proof -
  define sign where "sign = takeWhile (\<lambda>d. d = CHR ''-'') (take 1 s)"
  from assms(1) obtain i f e r1 r2 where n:
    "scan_int (drop (length sign) s) = Some (i, r1)" "scan_frac r1 = Some (f, r2)"
    "scan_exp r2 = Some (e, r)" "lit = sign @ i @ f @ e"
    unfolding scan_num_def sign_def [symmetric] Let_def
    by (auto simp: bind_eq_Some_conv split: prod.splits)
  have "s \<noteq> []" using n(1) by (auto simp: scan_int_def sign_def)
  then have sg: "takeWhile (\<lambda>d. d = CHR ''-'') (take 1 (s @ x)) = sign"
    "drop (length sign) (s @ x) = drop (length sign) s @ x"
    by (cases s; simp add: sign_def)+
  have r2: "r2 \<noteq> []" using n(3) assms(2) by (auto simp: scan_exp_def)
  have r1: "r1 \<noteq> []" using n(2) r2 by (auto simp: scan_frac_def)
  from scan_int_extend [OF n(1) r1] scan_frac_extend [OF n(2) r2] scan_exp_extend [OF n(3) assms(2)] n(4)
  show ?thesis unfolding scan_num_def sg Let_def by simp
qed

lemma skip_ws_extend: "skip_ws s = c # t \<Longrightarrow> skip_ws (s @ x) = c # t @ x"
  by (induction s) (auto simp: skip_ws_def split: if_splits)

lemma expect_char_extend: "expect_char c s = Some t \<Longrightarrow> expect_char c (s @ x) = Some (t @ x)"
  by (cases s) (auto simp: expect_char_def split: if_splits)

lemma strip_word_extend: "strip_word w v s = Some (v', r) \<Longrightarrow> strip_word w v (s @ x) = Some (v', r @ x)"
  by (auto simp: strip_word_def prefix_def split: if_splits)

definition is_num :: "json \<Rightarrow> bool" where
  "is_num v \<longleftrightarrow> (case v of JNum _ \<Rightarrow> True | _ \<Rightarrow> False)"

lemma parse_value_skip: "parse_value n s = Some (v, r) \<Longrightarrow> \<exists>c t. skip_ws s = c # t"
  by (cases n; cases "skip_ws s") auto

lemma parse_extend:
  "parse_value n s = Some (v, r) \<Longrightarrow> r \<noteq> [] \<or> \<not> is_num v \<Longrightarrow> parse_value n (s @ x) = Some (v, r @ x)"
  "parse_elems n s = Some (vs, r) \<Longrightarrow> parse_elems n (s @ x) = Some (vs, r @ x)"
  "parse_members n s = Some (ms, r) \<Longrightarrow> parse_members n (s @ x) = Some (ms, r @ x)"
proof (induction n arbitrary: s v r vs ms)
  case 0
  { case 1 then show ?case by simp next case 2 then show ?case by simp next case 3 then show ?case by simp }
next
  case (Suc n)
  {
    case 1
    obtain c t where st: "skip_ws s = c # t" using parse_value_skip [OF 1(1)] by blast
    note sx = skip_ws_extend [OF st, of x]
    consider (obj) "c = CHR ''{''" | (arr) "c = CHR ''[''" | (str) "c = DQUOTE"
      | (t) "c = CHR ''t''" | (f) "c = CHR ''f''" | (n) "c = CHR ''n''"
      | (num) "c \<notin> {CHR ''{'', CHR ''['', DQUOTE, CHR ''t'', CHR ''f'', CHR ''n''}" by blast
    then show ?case
    proof cases
      case obj
      show ?thesis
      proof (cases "expect_char (CHR ''}'') (skip_ws t)")
        case None
        with obj st 1(1) obtain ms where m: "parse_members n t = Some (ms, r)" "v = JObj ms" by auto
        from m(1) obtain m' where "n = Suc m'" by (cases n) auto
        with m(1) have "\<exists>u. expect_char DQUOTE (skip_ws t) = Some u"
          by (auto simp: bind_eq_Some_conv)
        then obtain u where tq: "skip_ws t = DQUOTE # u"
          by (cases "skip_ws t") (auto simp: expect_char_def split: if_splits)
        have "expect_char (CHR ''}'') (skip_ws (t @ x)) = None"
          using skip_ws_extend [OF tq, of x] by (simp add: expect_char_def)
        with Suc.IH(3) [OF m(1)] obj sx m(2) show ?thesis by simp
      next
        case (Some r')
        then obtain u where "skip_ws t = CHR ''}'' # u"
          by (cases "skip_ws t") (auto simp: expect_char_def split: if_splits)
        from skip_ws_extend [OF this, of x] Some obj st sx 1(1) \<open>skip_ws t = CHR ''}'' # u\<close> show ?thesis
          by (simp add: expect_char_def)
      qed
    next
      case arr
      show ?thesis
      proof (cases "expect_char (CHR '']'') (skip_ws t)")
        case None
        with arr st 1(1) obtain vs where m: "parse_elems n t = Some (vs, r)" "v = JArr vs" by auto
        from m(1) obtain m' where "n = Suc m'" by (cases n) auto
        with m(1) obtain y where "parse_value m' t = Some y" by (auto simp: bind_eq_Some_conv)
        then obtain d u where tq: "skip_ws t = d # u" using parse_value_skip [of m' t "fst y" "snd y"] by auto
        have "expect_char (CHR '']'') (skip_ws (t @ x)) = None"
          using skip_ws_extend [OF tq, of x] None tq by (simp add: expect_char_def split: if_splits)
        with Suc.IH(2) [OF m(1)] arr sx m(2) show ?thesis by simp
      next
        case (Some r')
        then obtain u where "skip_ws t = CHR '']'' # u"
          by (cases "skip_ws t") (auto simp: expect_char_def split: if_splits)
        from skip_ws_extend [OF this, of x] Some arr st sx 1(1) \<open>skip_ws t = CHR '']'' # u\<close> show ?thesis
          by (simp add: expect_char_def)
      qed
    next
      case str
      with st 1(1) obtain raw where "scan_str t = Some (raw, r)" "v = JStr (unquote raw)"
        by auto
      with scan_str_extend [of t raw r x] str sx show ?thesis by simp
    next
      case t
      with st 1(1) sx strip_word_extend [of "''true''" _ "c # _" _ _ x] show ?thesis by (simp add: t)
    next
      case f
      with st 1(1) sx strip_word_extend [of "''false''" _ "c # _" _ _ x] show ?thesis by (simp add: f)
    next
      case n
      with st 1(1) sx strip_word_extend [of "''null''" _ "c # _" _ _ x] show ?thesis by (simp add: n)
    next
      case num
      with st 1(1) obtain lit where l: "scan_num (c # t) = Some (lit, r)" "v = JNum lit" by auto
      with 1(2) have "r \<noteq> []" by (simp add: is_num_def)
      from scan_num_extend [OF l(1) this, of x] num sx l(2) show ?thesis by simp
    qed
  next
    case 2
    from 2(1) obtain w r1 where w: "parse_value n s = Some (w, r1)" by (auto simp: bind_eq_Some_conv)
    with 2(1) obtain c t where ct: "skip_ws r1 = c # t" by (cases "skip_ws r1") auto
    have r1: "r1 \<noteq> []" using ct by (auto simp: skip_ws_def)
    note vx = Suc.IH(1) [OF w disjI1 [OF r1]] and cx = skip_ws_extend [OF ct, of x]
    consider "c = CHR '',''" "\<exists>us. parse_elems n t = Some (us, r) \<and> vs = w # us"
      | "c = CHR '']''" "vs = [w]" "r = t"
      using 2(1) w ct by (auto split: if_splits)
    then show ?case
    proof cases
      case 1
      then obtain us where "parse_elems n t = Some (us, r)" "vs = w # us" by blast
      with Suc.IH(2) [of t us r] 1 vx cx show ?thesis by simp
    next
      case 2
      with vx cx show ?thesis by simp
    qed
  next
    case 3
    from 3(1) obtain t1 raw t2 t3 w r1 where
      k: "expect_char DQUOTE (skip_ws s) = Some t1" "scan_str t1 = Some (raw, t2)"
      "expect_char (CHR '':'') (skip_ws t2) = Some t3" and w: "parse_value n t3 = Some (w, r1)"
      by (auto simp: bind_eq_Some_conv)
    have s1: "skip_ws s = DQUOTE # t1" using k(1)
      by (cases "skip_ws s") (auto simp: expect_char_def split: if_splits)
    have s2: "skip_ws t2 = CHR '':'' # t3" using k(3)
      by (cases "skip_ws t2") (auto simp: expect_char_def split: if_splits)
    from 3(1) k w obtain c t where ct: "skip_ws r1 = c # t" by (cases "skip_ws r1") auto
    have r1: "r1 \<noteq> []" using ct by (auto simp: skip_ws_def)
    note vx = Suc.IH(1) [OF w disjI1 [OF r1]] and cx = skip_ws_extend [OF ct, of x]
      and kx = skip_ws_extend [OF s1, of x] skip_ws_extend [OF s2, of x] scan_str_extend [OF k(2), of x]
    consider "c = CHR '',''" "\<exists>us. parse_members n t = Some (us, r) \<and> ms = (unquote raw, w) # us"
      | "c = CHR ''}''" "ms = [(unquote raw, w)]" "r = t"
      using 3(1) k w ct by (auto split: if_splits)
    then show ?case
    proof cases
      case 1
      then obtain us where "parse_members n t = Some (us, r)" "ms = (unquote raw, w) # us" by blast
      with Suc.IH(3) [of t us r] 1 vx cx kx show ?thesis by (simp add: expect_char_def)
    next
      case 2
      with vx cx kx show ?thesis by (simp add: expect_char_def)
    qed
  }
qed

lemma parse_fuel_Suc:
  "parse_value n s = Some y \<Longrightarrow> parse_value (Suc n) s = Some y"
  "parse_elems n s = Some ys \<Longrightarrow> parse_elems (Suc n) s = Some ys"
  "parse_members n s = Some ms \<Longrightarrow> parse_members (Suc n) s = Some ms"
proof (induction n arbitrary: s y ys ms)
  case 0
  { case 1 then show ?case by simp next case 2 then show ?case by simp next case 3 then show ?case by simp }
next
  case (Suc n)
  {
    case 1
    obtain v r where y: "y = (v, r)" by (cases y)
    obtain c t where st: "skip_ws s = c # t" using parse_value_skip 1 [unfolded y] by blast
    have m: "map_option f (parse_members (Suc n) t) = Some y" if "map_option f (parse_members n t) = Some y"
      for f :: "(string \<times> json) list \<times> string \<Rightarrow> json \<times> string"
      using that Suc.IH(3) by (auto simp del: parse_members.simps)
    have e: "map_option f (parse_elems (Suc n) t) = Some y" if "map_option f (parse_elems n t) = Some y"
      for f :: "json list \<times> string \<Rightarrow> json \<times> string"
      using that Suc.IH(2) by (auto simp del: parse_elems.simps)
    show ?case using 1 m [of "apfst JObj"] e [of "apfst JArr"] unfolding parse_value.simps(2) [of "Suc n"] parse_value.simps(2) [of n] st
      by (simp split: option.splits if_splits del: parse_members.simps parse_elems.simps)
  next
    case 2
    from 2 obtain w r1 where w: "parse_value n s = Some (w, r1)" by (auto simp: bind_eq_Some_conv)
    with 2 obtain c t where ct: "skip_ws r1 = c # t" by (cases "skip_ws r1") auto
    have m: "map_option f (parse_elems (Suc n) t) = Some ys" if "map_option f (parse_elems n t) = Some ys"
      for f :: "json list \<times> string \<Rightarrow> json list \<times> string"
      using that Suc.IH(2) by (auto simp del: parse_elems.simps)
    show ?case using 2 m [of "apfst ((#) w)"] w Suc.IH(1) [OF w] ct
      unfolding parse_elems.simps(2) [of "Suc n"] parse_elems.simps(2) [of n]
      by (simp split: if_splits del: parse_elems.simps parse_value.simps)
  next
    case 3
    from 3 obtain t1 raw t2 t3 w r1 where
      k: "expect_char DQUOTE (skip_ws s) = Some t1" "scan_str t1 = Some (raw, t2)"
      "expect_char (CHR '':'') (skip_ws t2) = Some t3" and w: "parse_value n t3 = Some (w, r1)"
      by (auto simp: bind_eq_Some_conv)
    from 3 k w obtain c t where ct: "skip_ws r1 = c # t" by (cases "skip_ws r1") auto
    have m: "map_option f (parse_members (Suc n) t) = Some ms" if "map_option f (parse_members n t) = Some ms"
      for f :: "(string \<times> json) list \<times> string \<Rightarrow> (string \<times> json) list \<times> string"
      using that Suc.IH(3) by (auto simp del: parse_members.simps)
    show ?case using 3 m [of "apfst ((#) (unquote raw, w))"] k w Suc.IH(1) [OF w] ct
      unfolding parse_members.simps(2) [of "Suc n"] parse_members.simps(2) [of n]
      by (simp split: if_splits del: parse_members.simps parse_value.simps)
  }
qed

lemma parse_fuel_mono: "n \<le> m \<Longrightarrow> parse_value n s = Some y \<Longrightarrow> parse_value m s = Some y"
  by (induction rule: dec_induct) (auto intro: parse_fuel_Suc(1) simp del: parse_value.simps)

lemma parse_fuel_eq: "parse_value n s = Some y \<Longrightarrow> parse_value m s = Some z \<Longrightarrow> y = z"
  using parse_fuel_mono [of n m s y] parse_fuel_mono [of m n s z] by (cases "n \<le> m") auto

text \<open>
  A text that decodes to an object, an array, a string or a word is not a proper prefix of a
  text that decodes, unless the rest is white space.
\<close>

lemma parse_json_prefix:
  assumes "parse_json (p @ x) = Some w" "skip_ws x \<noteq> []" "parse_json p = Some v"
  shows "is_num v"
proof (rule ccontr)
  assume nn: "\<not> is_num v"
  from assms(3) obtain r where r: "parse_value (2 * length p + 2) p = Some (v, r)" "skip_ws r = []"
    by (auto simp: parse_json_def bind_eq_Some_conv simp del: parse_value.simps split: if_splits)
  from assms(1) obtain r' where
    w: "parse_value (2 * length (p @ x) + 2) (p @ x) = Some (w, r')" "skip_ws r' = []"
    by (auto simp: parse_json_def bind_eq_Some_conv simp del: parse_value.simps split: if_splits)
  from parse_extend(1) [OF r(1) disjI2 [OF nn]]
  have "parse_value (2 * length p + 2) (p @ x) = Some (v, r @ x)" .
  from parse_fuel_eq [OF this w(1)] have "r' = r @ x" by simp
  with w(2) r(2) assms(2) show False by (simp add: skip_ws_def dropWhile_eq_Nil_conv dropWhile_append)
qed

section \<open>Objects with raw member texts\<close>

fun raw_members :: "nat \<Rightarrow> string \<Rightarrow> (string \<times> string) list option" where
  "raw_members 0 s = None"
| "raw_members (Suc n) s = do {
     t1 \<leftarrow> expect_char DQUOTE (skip_ws s);
     (raw, t2) \<leftarrow> scan_str t1;
     t3 \<leftarrow> expect_char (CHR '':'') (skip_ws t2);
     (v, r) \<leftarrow> parse_value n t3;
     (let m = (unquote raw, take (length (skip_ws t3) - length r) (skip_ws t3)) in
      case skip_ws r of
        [] \<Rightarrow> None
      | c # t \<Rightarrow> (if c = CHR '','' then map_option ((#) m) (raw_members n t)
                  else if c = CHR ''}'' then Some [m] else None))
   }"

text \<open>
  \<open>raw_object s\<close>: the whole text must be valid; an object gives its members, \<open>null\<close> gives none
  (it leaves a struct as it is), any other value is a type error.
\<close>

definition raw_object :: "string \<Rightarrow> (string \<times> string) list option" where
  "raw_object s =
     (case parse_json s of
        Some (JObj []) \<Rightarrow> Some []
      | Some (JObj _) \<Rightarrow> raw_members (2 * length s + 2) (tl (skip_ws s))
      | Some JNull \<Rightarrow> Some []
      | _ \<Rightarrow> None)"

text \<open>The encoder over members whose values are encoded already, with \<open>omitempty\<close>.\<close>

definition print_member :: "string \<times> string \<Rightarrow> string" where
  "print_member kr = print_string (fst kr) @ '':'' @ snd kr"

definition print_members :: "(string \<times> string) list \<Rightarrow> string" where
  "print_members ms = ''{'' @ join '','' (map print_member ms) @ ''}''"

definition raw_value :: "string \<Rightarrow> json \<Rightarrow> bool" where
  "raw_value r v \<longleftrightarrow> json_wf v \<and> r = print_json v"

lemma print_members_json:
  assumes "list_all2 (\<lambda>m kv. fst m = fst kv \<and> raw_value (snd m) (snd kv)) ms kvs"
  shows "print_members ms = print_json (JObj kvs)"
proof -
  have "map print_member ms = map (\<lambda>kv. print_string (fst kv) @ '':'' @ print_json (snd kv)) kvs"
    using assms by (induction ms kvs rule: list_all2_induct) (auto simp: print_member_def raw_value_def)
  then show ?thesis by (simp add: print_members_def)
qed

lemma raw_members_join:
  assumes "ms \<noteq> []" "\<forall>kr \<in> set ms. valid_utf8 (fst kr) \<and> (\<exists>v. raw_value (snd kr) v)"
    "2 * length (join '','' (map print_member ms)) < n"
  shows "raw_members n (join '','' (map print_member ms) @ CHR ''}'' # rest) = Some ms"
  using assms
proof (induction ms arbitrary: n)
  case Nil
  then show ?case by simp
next
  case (Cons kr ms)
  obtain k raw where kr: "kr = (k, raw)" by (cases kr)
  from Cons.prems(2) kr obtain v where v: "json_wf v" "raw = print_json v" and k: "valid_utf8 k"
    by (auto simp: raw_value_def)
  obtain m where n: "n = Suc m" using Cons.prems(3) by (cases n) auto
  have u: "unquote (escape_body k) = k" by (rule unquote_escape_body [OF k])
  have sw: "skip_ws (raw @ r) = raw @ r" for r
    using first_not_bracket [OF v(1)] v(2) by auto
  have pv: "parses v" by (rule parses_all [OF v(1)])
  show ?case
  proof (cases "ms = []")
    case True
    have "2 * length (print_json v) \<le> m" using Cons.prems(3) True n kr v(2) by (simp add: print_member_def)
    then have "parse_value m (raw @ CHR ''}'' # rest) = Some (v, CHR ''}'' # rest)"
      using pv v(2) by (simp add: parses_def)
    with True n kr u show ?thesis
      by (simp add: print_member_def print_string_def expect_char_def scan_escape_body sw)
  next
    case False
    let ?t = "join '','' (map print_member ms) @ CHR ''}'' # rest"
    have j: "join '','' (map print_member (kr # ms)) @ CHR ''}'' # rest =
      DQUOTE # escape_body k @ DQUOTE # CHR '':'' # raw @ CHR '','' # ?t"
      using False by (simp add: join_Cons kr print_member_def print_string_def)
    have l: "length (join '','' (map print_member (kr # ms))) =
      length (print_member kr) + 1 + length (join '','' (map print_member ms))"
      using False by (simp add: join_Cons)
    have "length (print_member kr) = length (print_string k) + 1 + length raw"
      by (simp add: kr print_member_def)
    then have "2 * length raw \<le> m" using Cons.prems(3) l n by linarith
    then have "parse_value m (raw @ CHR '','' # ?t) = Some (v, CHR '','' # ?t)"
      using pv v(2) by (simp add: parses_def)
    moreover have "raw_members m ?t = Some ms"
      using Cons.IH [OF False, of m] Cons.prems l n by simp
    ultimately show ?thesis unfolding j n
      by (simp add: expect_char_def scan_escape_body u kr sw)
  qed
qed

text \<open>What the object encoder writes, the member decoder reads back.\<close>

lemma raw_object_print_members:
  assumes "list_all2 (\<lambda>m kv. fst m = fst kv \<and> raw_value (snd m) (snd kv)) ms kvs"
    "\<forall>kv \<in> set kvs. valid_utf8 (fst kv) \<and> json_depth (snd kv) < max_nesting_depth"
  shows "raw_object (print_members ms) = Some ms" "parse_json (print_members ms) = Some (JObj kvs)"
proof -
  have p: "print_members ms = print_json (JObj kvs)" by (rule print_members_json [OF assms(1)])
  have wf: "list_all (\<lambda>kv. json_wf (snd kv)) kvs"
    using assms(1) by (induction ms kvs rule: list_all2_induct) (auto simp: raw_value_def)
  have "foldr (\<lambda>kv n. max (json_depth (snd kv)) n) kvs 0 < max_nesting_depth"
    using assms(2) by (induction kvs) (auto simp: max_nesting_depth_def)
  with wf assms(2) have pj: "parse_json (print_json (JObj kvs)) = Some (JObj kvs)"
    by (intro parse_print_json) (auto simp: list_all_iff)
  then show "parse_json (print_members ms) = Some (JObj kvs)" by (simp only: p)
  show "raw_object (print_members ms) = Some ms"
  proof (cases "ms = []")
    case True
    with assms(1) pj p show ?thesis by (simp add: raw_object_def)
  next
    case False
    have m: "\<forall>kr \<in> set ms. valid_utf8 (fst kr) \<and> (\<exists>v. raw_value (snd kr) v)"
      using assms by (induction ms kvs rule: list_all2_induct) auto
    have "raw_members (2 * length (print_members ms) + 2) (tl (skip_ws (print_members ms))) = Some ms"
      using raw_members_join [OF False m, of "2 * length (print_members ms) + 2" "[]"]
      by (simp add: print_members_def del: raw_members.simps)
    moreover have "kvs \<noteq> []" using assms(1) False by auto
    ultimately show ?thesis using pj p
      by (cases kvs) (simp_all add: raw_object_def del: raw_members.simps)
  qed
qed

section \<open>Struct fields\<close>

text \<open>A JSON text assigned to a string field and to an \<open>int\<close> field.\<close>

definition set_str :: "string \<Rightarrow> string \<Rightarrow> string option" where
  "set_str raw old =
     (case parse_json raw of Some (JStr s) \<Rightarrow> Some s | Some JNull \<Rightarrow> Some old | _ \<Rightarrow> None)"

definition int_literal :: "string \<Rightarrow> int option" where
  "int_literal lit =
     (let neg = (lit \<noteq> [] \<and> hd lit = CHR ''-''); ds = (if neg then tl lit else lit);
          v = (if neg then - int (digits_value ds) else int (digits_value ds)) in
      if ds \<noteq> [] \<and> list_all json_digit ds \<and> in64 v then Some v else None)"

definition set_int :: "string \<Rightarrow> int \<Rightarrow> int option" where
  "set_int raw old =
     (case parse_json raw of Some (JNum lit) \<Rightarrow> int_literal lit | Some JNull \<Rightarrow> Some old | _ \<Rightarrow> None)"

text \<open>Members are assigned one after the other; one failing assignment fails the decoding.\<close>

definition fold_option :: "('a \<Rightarrow> 's \<Rightarrow> 's option) \<Rightarrow> 'a list \<Rightarrow> 's \<Rightarrow> 's option" where
  "fold_option f xs s = fold (\<lambda>x acc. Option.bind acc (f x)) xs (Some s)"

end
