(* ===== verification/Journal_Entry.thy ===== *)
theory Journal_Entry
  imports Msg_Types Json_Raw
begin

text \<open>
  The records of a session journal, \<open>internal/session/journal/entry.go\<close>: the typed entries, the
  JSON line each is written as, and the decoder that validates the shared envelope first.

  A \<open>time.Time\<close> is the number of nanoseconds since the Unix epoch.  Its JSON text is not code
  of the program: \<open>fmt_time\<close> (\<open>None\<close> when the year cannot be written) and \<open>parse_time\<close> stand for
  it, and so do \<open>enc_msg\<close> and \<open>dec_msg\<close> for the message codec of \<open>engine/types/message.go\<close>, whose
  output is compact JSON.
\<close>

section \<open>Entries\<close>

type_synonym time_ns = int

definition zero_time :: time_ns where "zero_time = - 62135596800 * 10 ^ 9"

definition UnixMilli :: "time_ns \<Rightarrow> int" where "UnixMilli t = t div 10 ^ 6"

definition JournalVersion :: int where "JournalVersion = 1"

record header =
  hd_type :: string
  hd_version :: int
  hd_id :: string
  hd_timestamp :: time_ns
  hd_cwd :: string
  hd_title :: string

record meta =
  me_id :: string
  me_parent_id :: string
  me_timestamp :: time_ns

datatype entry =
    MessageEntry meta message
  | ModelChangeEntry meta string string
  | CompactionEntry meta string string int

definition KindMessage :: string where "KindMessage = ''message''"
definition KindModelChange :: string where "KindModelChange = ''model_change''"
definition KindCompaction :: string where "KindCompaction = ''compaction''"

fun entry_kind :: "entry \<Rightarrow> string" where
  "entry_kind (MessageEntry _ _) = KindMessage"
| "entry_kind (ModelChangeEntry _ _ _) = KindModelChange"
| "entry_kind (CompactionEntry _ _ _ _) = KindCompaction"

fun entry_meta :: "entry \<Rightarrow> meta" where
  "entry_meta (MessageEntry m _) = m"
| "entry_meta (ModelChangeEntry m _ _) = m"
| "entry_meta (CompactionEntry m _ _ _) = m"

text \<open>A value of the interface \<open>Entry\<close>: a struct, a pointer to one, or the nil interface.\<close>

datatype any_entry =
    EntryValue entry
  | EntryPointer entry
  | NilEntryPointer string
  | NilEntry

record wire_entry =
  we_type :: string
  we_id :: string
  we_parent_id :: string
  we_timestamp :: time_ns
  we_message :: bytes
  we_model :: string
  we_role :: string
  we_summary :: string
  we_first_kept_id :: string
  we_tokens_before :: int

definition empty_wire :: wire_entry where
  "empty_wire = \<lparr>we_type = [], we_id = [], we_parent_id = [], we_timestamp = zero_time,
     we_message = [], we_model = [], we_role = [], we_summary = [], we_first_kept_id = [],
     we_tokens_before = 0\<rparr>"

section \<open>Encoding\<close>

definition quoted :: "string \<Rightarrow> string" where "quoted s = [DQUOTE] @ s @ [DQUOTE]"

definition omit_str :: "string \<Rightarrow> string \<Rightarrow> (string \<times> string) list" where
  "omit_str k s = (if s = [] then [] else [(k, print_string s)])"

definition omit_raw :: "string \<Rightarrow> string \<Rightarrow> (string \<times> string) list" where
  "omit_raw k s = (if s = [] then [] else [(k, s)])"

definition omit_int :: "string \<Rightarrow> int \<Rightarrow> (string \<times> string) list" where
  "omit_int k i = (if i = 0 then [] else [(k, show_int i)])"

definition wire_members :: "string \<Rightarrow> wire_entry \<Rightarrow> (string \<times> string) list" where
  "wire_members ts w =
     [(''type'', print_string (we_type w)), (''id'', print_string (we_id w))] @
     omit_str ''parent_id'' (we_parent_id w) @ [(''timestamp'', quoted ts)] @
     omit_raw ''message'' (we_message w) @ omit_str ''model'' (we_model w) @
     omit_str ''role'' (we_role w) @ omit_str ''summary'' (we_summary w) @
     omit_str ''first_kept_id'' (we_first_kept_id w) @ omit_int ''tokens_before'' (we_tokens_before w)"

definition marshal_wire :: "(time_ns \<Rightarrow> string option) \<Rightarrow> wire_entry \<Rightarrow> string option" where
  "marshal_wire fmt_time w =
     map_option (\<lambda>ts. print_members (wire_members ts w)) (fmt_time (we_timestamp w))"

datatype marshal_error = NilEntryError string | NilMessageError | MarshalFailed | UnsupportedEntry

definition wire_of_meta :: "string \<Rightarrow> meta \<Rightarrow> wire_entry" where
  "wire_of_meta k m =
     empty_wire\<lparr>we_type := k, we_id := me_id m, we_parent_id := me_parent_id m,
       we_timestamp := me_timestamp m\<rparr>"

definition as_marshal :: "string option \<Rightarrow> marshal_error + string" where
  "as_marshal r = (case r of None \<Rightarrow> Inl MarshalFailed | Some s \<Rightarrow> Inr s)"

definition marshalMessageEntry ::
  "(message \<Rightarrow> string option) \<Rightarrow> (time_ns \<Rightarrow> string option) \<Rightarrow> meta \<Rightarrow> message \<Rightarrow> marshal_error + string" where
  "marshalMessageEntry enc_msg fmt_time m msg =
     (if msg = NilMessage then Inl NilMessageError
      else case enc_msg msg of
        None \<Rightarrow> Inl MarshalFailed
      | Some raw \<Rightarrow> as_marshal (marshal_wire fmt_time ((wire_of_meta KindMessage m)\<lparr>we_message := raw\<rparr>)))"

fun marshal_value ::
  "(message \<Rightarrow> string option) \<Rightarrow> (time_ns \<Rightarrow> string option) \<Rightarrow> entry \<Rightarrow> marshal_error + string" where
  "marshal_value enc_msg fmt_time (MessageEntry m msg) = marshalMessageEntry enc_msg fmt_time m msg"
| "marshal_value enc_msg fmt_time (ModelChangeEntry m model role) =
     as_marshal (marshal_wire fmt_time ((wire_of_meta KindModelChange m)\<lparr>we_model := model, we_role := role\<rparr>))"
| "marshal_value enc_msg fmt_time (CompactionEntry m summary kept tokens) =
     as_marshal (marshal_wire fmt_time ((wire_of_meta KindCompaction m)
       \<lparr>we_summary := summary, we_first_kept_id := kept, we_tokens_before := tokens\<rparr>))"

fun MarshalEntry ::
  "(message \<Rightarrow> string option) \<Rightarrow> (time_ns \<Rightarrow> string option) \<Rightarrow> any_entry \<Rightarrow> marshal_error + string" where
  "MarshalEntry enc_msg fmt_time (EntryValue e) = marshal_value enc_msg fmt_time e"
| "MarshalEntry enc_msg fmt_time (EntryPointer e) = marshal_value enc_msg fmt_time e"
| "MarshalEntry enc_msg fmt_time (NilEntryPointer k) =
     (if k \<in> {KindMessage, KindModelChange, KindCompaction} then Inl (NilEntryError k) else Inl UnsupportedEntry)"
| "MarshalEntry enc_msg fmt_time NilEntry = Inl UnsupportedEntry"

section \<open>Decoding\<close>

definition wire_fields :: "string list" where
  "wire_fields = [''type'', ''id'', ''parent_id'', ''timestamp'', ''message'', ''model'', ''role'',
     ''summary'', ''first_kept_id'', ''tokens_before'']"

text \<open>A JSON text assigned to a \<open>time.Time\<close> field.\<close>

definition set_time :: "(string \<Rightarrow> time_ns option) \<Rightarrow> string \<Rightarrow> time_ns \<Rightarrow> time_ns option" where
  "set_time parse_time raw old =
     (if raw = ''null'' then Some old
      else if 2 \<le> length raw \<and> hd raw = DQUOTE \<and> last raw = DQUOTE then parse_time (butlast (tl raw))
      else None)"

definition set_wire ::
  "(string \<Rightarrow> time_ns option) \<Rightarrow> string \<times> string \<Rightarrow> wire_entry \<Rightarrow> wire_entry option" where
  "set_wire parse_time kr w =
     (case field_for wire_fields (fst kr) of
        None \<Rightarrow> Some w
      | Some f \<Rightarrow>
        (if f = ''type'' then map_option (\<lambda>s. w\<lparr>we_type := s\<rparr>) (set_str (snd kr) (we_type w))
         else if f = ''id'' then map_option (\<lambda>s. w\<lparr>we_id := s\<rparr>) (set_str (snd kr) (we_id w))
         else if f = ''parent_id'' then map_option (\<lambda>s. w\<lparr>we_parent_id := s\<rparr>) (set_str (snd kr) (we_parent_id w))
         else if f = ''timestamp'' then map_option (\<lambda>t. w\<lparr>we_timestamp := t\<rparr>) (set_time parse_time (snd kr) (we_timestamp w))
         else if f = ''message'' then Some (w\<lparr>we_message := snd kr\<rparr>)
         else if f = ''model'' then map_option (\<lambda>s. w\<lparr>we_model := s\<rparr>) (set_str (snd kr) (we_model w))
         else if f = ''role'' then map_option (\<lambda>s. w\<lparr>we_role := s\<rparr>) (set_str (snd kr) (we_role w))
         else if f = ''summary'' then map_option (\<lambda>s. w\<lparr>we_summary := s\<rparr>) (set_str (snd kr) (we_summary w))
         else if f = ''first_kept_id'' then map_option (\<lambda>s. w\<lparr>we_first_kept_id := s\<rparr>) (set_str (snd kr) (we_first_kept_id w))
         else map_option (\<lambda>i. w\<lparr>we_tokens_before := i\<rparr>) (set_int (snd kr) (we_tokens_before w))))"

definition unmarshal_wire :: "(string \<Rightarrow> time_ns option) \<Rightarrow> string \<Rightarrow> wire_entry option" where
  "unmarshal_wire parse_time raw =
     (case raw_object raw of None \<Rightarrow> None | Some ms \<Rightarrow> fold_option (set_wire parse_time) ms empty_wire)"

datatype decode_error =
    BadJson
  | MissingType
  | MissingId
  | MissingTimestamp
  | BadMessage string
  | UnknownEntry string string

definition decodeEntry ::
  "(string \<Rightarrow> string + message) \<Rightarrow> (string \<Rightarrow> time_ns option) \<Rightarrow> string \<Rightarrow> decode_error + entry" where
  "decodeEntry dec_msg parse_time raw =
     (case unmarshal_wire parse_time raw of
        None \<Rightarrow> Inl BadJson
      | Some w \<Rightarrow>
          (if we_type w = [] then Inl MissingType
           else if we_id w = [] then Inl MissingId
           else if we_timestamp w = zero_time then Inl MissingTimestamp
           else
             let m = \<lparr>me_id = we_id w, me_parent_id = we_parent_id w, me_timestamp = we_timestamp w\<rparr> in
             if we_type w = KindMessage then
               (case dec_msg (we_message w) of
                  Inl err \<Rightarrow> Inl (BadMessage err)
                | Inr msg \<Rightarrow> Inr (MessageEntry m msg))
             else if we_type w = KindModelChange then Inr (ModelChangeEntry m (we_model w) (we_role w))
             else if we_type w = KindCompaction then
               Inr (CompactionEntry m (we_summary w) (we_first_kept_id w) (we_tokens_before w))
             else Inl (UnknownEntry (we_type w) (we_id w))))"

section \<open>Round trip\<close>

text \<open>What the codecs the journal relies on promise for the values it writes.\<close>

definition time_codec :: "(time_ns \<Rightarrow> string option) \<Rightarrow> (string \<Rightarrow> time_ns option) \<Rightarrow> bool" where
  "time_codec fmt_time parse_time \<longleftrightarrow>
     (\<forall>t s. fmt_time t = Some s \<longrightarrow> parse_time s = Some t \<and> set s \<subseteq> set ''0123456789-:TZ.+'')"

definition msg_codec :: "(message \<Rightarrow> string option) \<Rightarrow> (string \<Rightarrow> string + message) \<Rightarrow> message \<Rightarrow> bool" where
  "msg_codec enc_msg dec_msg msg \<longleftrightarrow>
     (\<exists>v. enc_msg msg = Some (print_json v) \<and> json_wf v \<and> json_depth v < max_nesting_depth \<and>
          dec_msg (print_json v) = Inr msg)"

definition entry_ok ::
  "(message \<Rightarrow> string option) \<Rightarrow> (string \<Rightarrow> string + message) \<Rightarrow> (time_ns \<Rightarrow> string option) \<Rightarrow> entry \<Rightarrow> bool" where
  "entry_ok enc_msg dec_msg fmt_time e \<longleftrightarrow>
     me_id (entry_meta e) \<noteq> [] \<and> valid_utf8 (me_id (entry_meta e)) \<and> valid_utf8 (me_parent_id (entry_meta e)) \<and>
     me_timestamp (entry_meta e) \<noteq> zero_time \<and> fmt_time (me_timestamp (entry_meta e)) \<noteq> None \<and>
     (case e of
        MessageEntry m msg \<Rightarrow> msg \<noteq> NilMessage \<and> msg_codec enc_msg dec_msg msg
      | ModelChangeEntry m model role \<Rightarrow> valid_utf8 model \<and> valid_utf8 role
      | CompactionEntry m summary kept tokens \<Rightarrow> valid_utf8 summary \<and> valid_utf8 kept \<and> in64 tokens)"

subsection \<open>Decimal literals\<close>

lemma nat_digits_json:
  "list_all json_digit (nat_digits n) \<and> (0 < n \<longrightarrow> hd (nat_digits n) \<noteq> CHR ''0'') \<and>
     digits_value (nat_digits n) = n \<and> (n = 0 \<longrightarrow> nat_digits n = ''0'')"
proof (induction n rule: less_induct)
  case (less n)
  show ?case
  proof (cases "n < 10")
    case True
    define d :: char where "d = char_of (48 + n)"
    have nd: "nat_digits n = [d]" using True by (subst nat_digits.simps) (simp add: d_def)
    have b: "byte d = 48 + n" using True by (simp add: d_def of_char_of)
    have "byte (CHR ''0'') = (48 :: nat)" by simp
    then have "d = CHR ''0'' \<longleftrightarrow> n = 0"
      using of_char_eq_iff [where 'a = nat, of d "CHR ''0''"] b by (simp del: of_char_eq_iff)
    with nd b True show ?thesis by (cases "n = 0") (simp_all add: json_digit_def digits_value_def)
  next
    case False
    then have d: "nat_digits n = nat_digits (n div 10) @ [char_of (48 + n mod 10)]"
      by (subst nat_digits.simps) simp
    have b: "byte (char_of (48 + n mod 10)) = 48 + n mod 10" by (simp add: of_char_of)
    have "n div 10 < n" "0 < n div 10" using False by auto
    moreover have "n mod 10 \<le> 9" "0 < n" using False by auto
    ultimately show ?thesis using less [of "n div 10"] unfolding d
      by (simp add: b json_digit_def digits_value_def)
  qed
qed

lemma show_int_literal:
  assumes "in64 i"
  shows "num_ok (show_int i)" "int_literal (show_int i) = Some i"
proof -
  define n where "n = nat \<bar>i\<bar>"
  note d = nat_digits_json [of n]
  obtain c t where ct: "nat_digits n = c # t" by (cases "nat_digits n") auto
  from d ct have c: "json_digit c" "\<forall>x \<in> set t. json_digit x" by (auto simp: list_all_iff)
  then have minus: "c \<noteq> CHR ''-''" by (auto simp: json_digit_def)
  have "n = 0 \<Longrightarrow> t = []" "n \<noteq> 0 \<Longrightarrow> c \<noteq> CHR ''0''" using d ct by auto
  then have si: "scan_int (nat_digits n) = Some (nat_digits n, [])"
    using c unfolding ct scan_int_def
    by (cases "n = 0") (use ct d in \<open>auto simp: takeWhile_eq_all_conv dropWhile_eq_Nil_conv\<close>)
  have neg: "show_int i = (if i < 0 then CHR ''-'' # nat_digits n else nat_digits n)"
    by (auto simp: show_int_def n_def)
  show "num_ok (show_int i)"
    using si minus ct by (auto simp: neg num_ok_def scan_num_def scan_frac_def scan_exp_def)
  have dv: "digits_value (nat_digits n) = n" using d by simp
  have sg: "(if i < 0 then - int n else int n) = i" by (simp add: n_def)
  show "int_literal (show_int i) = Some i"
    using assms sg dv minus d ct unfolding neg int_literal_def Let_def
    by (cases "i < 0") auto
qed

lemma plain_escape_body:
  assumes "set s \<subseteq> set ''0123456789-:TZ.+''"
  shows "escape_body s = s" "valid_utf8 s"
proof -
  have a: "byte c < 128 \<and> escape_ascii c = [c]" if "c \<in> set s" for c
  proof -
    have "\<forall>c \<in> set ''0123456789-:TZ.+''. byte c < 128 \<and> escape_ascii c = [c]"
      by (simp add: escape_ascii_def)
    moreover have "c \<in> set ''0123456789-:TZ.+''" using assms that by (rule subsetD)
    ultimately show ?thesis by (rule bspec)
  qed
  have g: "rune_segments s = map (\<lambda>c. (byte c, [c])) s" using a
  proof (induction s)
    case Nil
    then show ?case by (simp add: rune_segments.simps)
  next
    case (Cons c s)
    then show ?case by (simp add: rune_segments.simps [of "c # s"] decode_rune_def)
  qed
  have "\<forall>c \<in> set s. escape_segment (byte c, [c]) = [c]" using a by (simp add: escape_segment_def)
  then have "concat (map escape_segment (map (\<lambda>c. (byte c, [c])) s)) = s" by (induction s) auto
  then show "escape_body s = s" unfolding escape_body_def g .
  show "valid_utf8 s" unfolding valid_utf8_def g using a by (force dest: leD)
qed

lemma quoted_plain:
  "set s \<subseteq> set ''0123456789-:TZ.+'' \<Longrightarrow> raw_value (quoted s) (JStr s)"
  by (simp add: raw_value_def quoted_def print_string_def plain_escape_body)

lemma raw_value_string: "valid_utf8 s \<Longrightarrow> raw_value (print_string s) (JStr s)"
  by (simp add: raw_value_def)

lemma parse_raw_value: "raw_value r v \<Longrightarrow> json_depth v \<le> max_nesting_depth \<Longrightarrow> parse_json r = Some v"
  by (simp add: raw_value_def parse_print_json)

lemma set_str_print: "valid_utf8 s \<Longrightarrow> set_str (print_string s) old = Some s"
  using parse_raw_value [OF raw_value_string] by (simp add: set_str_def)

lemma set_int_show: "in64 i \<Longrightarrow> set_int (show_int i) old = Some i"
  using parse_print_json [of "JNum (show_int i)"] show_int_literal [of i] by (simp add: set_int_def)

lemma set_time_quoted: "parse_time s = Some t \<Longrightarrow> set_time parse_time (quoted s) old = Some t"
  by (simp add: set_time_def quoted_def)

subsection \<open>The wire record\<close>

lemma fold_option_append:
  "fold_option f (xs @ ys) s = Option.bind (fold_option f xs s) (fold_option f ys)"
proof -
  have none: "fold (\<lambda>x acc. Option.bind acc (f x)) ys None = None" for ys
    by (induction ys) auto
  show ?thesis
    by (cases "fold_option f xs s") (simp_all add: fold_option_def none)
qed

lemma fold_option_simps [simp]:
  "fold_option f [] s = Some s"
  "fold_option f [x] s = f x s"
  by (simp_all add: fold_option_def)

lemma field_for_wire:
  "k \<in> set wire_fields \<Longrightarrow> field_for wire_fields k = Some k"
  by (simp add: field_for_def)

lemma wire_fields_members:
  "''type'' \<in> set wire_fields" "''id'' \<in> set wire_fields" "''parent_id'' \<in> set wire_fields"
  "''timestamp'' \<in> set wire_fields" "''message'' \<in> set wire_fields" "''model'' \<in> set wire_fields"
  "''role'' \<in> set wire_fields" "''summary'' \<in> set wire_fields" "''first_kept_id'' \<in> set wire_fields"
  "''tokens_before'' \<in> set wire_fields"
  by (simp_all add: wire_fields_def)

lemma set_wire_str:
  assumes "valid_utf8 s"
  shows "set_wire p (''type'', print_string s) w = Some (w\<lparr>we_type := s\<rparr>)"
    "set_wire p (''id'', print_string s) w = Some (w\<lparr>we_id := s\<rparr>)"
    "we_parent_id w = [] \<Longrightarrow> fold_option (set_wire p) (omit_str ''parent_id'' s) w = Some (w\<lparr>we_parent_id := s\<rparr>)"
    "we_model w = [] \<Longrightarrow> fold_option (set_wire p) (omit_str ''model'' s) w = Some (w\<lparr>we_model := s\<rparr>)"
    "we_role w = [] \<Longrightarrow> fold_option (set_wire p) (omit_str ''role'' s) w = Some (w\<lparr>we_role := s\<rparr>)"
    "we_summary w = [] \<Longrightarrow> fold_option (set_wire p) (omit_str ''summary'' s) w = Some (w\<lparr>we_summary := s\<rparr>)"
    "we_first_kept_id w = [] \<Longrightarrow> fold_option (set_wire p) (omit_str ''first_kept_id'' s) w = Some (w\<lparr>we_first_kept_id := s\<rparr>)"
  using assms
  by (auto simp: set_wire_def field_for_wire wire_fields_members set_str_print omit_str_def)

lemma set_wire_others:
  "p ts = Some t \<Longrightarrow> set_wire p (''timestamp'', quoted ts) w = Some (w\<lparr>we_timestamp := t\<rparr>)"
  "we_message w = [] \<Longrightarrow> fold_option (set_wire p) (omit_raw ''message'' raw) w = Some (w\<lparr>we_message := raw\<rparr>)"
  "we_tokens_before w = 0 \<Longrightarrow> in64 i \<Longrightarrow>
     fold_option (set_wire p) (omit_int ''tokens_before'' i) w = Some (w\<lparr>we_tokens_before := i\<rparr>)"
  by (auto simp: set_wire_def field_for_wire wire_fields_members set_time_quoted set_int_show
      omit_raw_def omit_int_def)

definition wire_ok :: "(time_ns \<Rightarrow> string option) \<Rightarrow> wire_entry \<Rightarrow> bool" where
  "wire_ok fmt_time w \<longleftrightarrow>
     valid_utf8 (we_type w) \<and> valid_utf8 (we_id w) \<and> valid_utf8 (we_parent_id w) \<and>
     valid_utf8 (we_model w) \<and> valid_utf8 (we_role w) \<and> valid_utf8 (we_summary w) \<and>
     valid_utf8 (we_first_kept_id w) \<and> in64 (we_tokens_before w) \<and> fmt_time (we_timestamp w) \<noteq> None \<and>
     (we_message w = [] \<or> (\<exists>v. raw_value (we_message w) v \<and> json_depth v < max_nesting_depth))"

lemma fold_wire_members:
  assumes "wire_ok fmt_time w" "parse_time ts = Some (we_timestamp w)"
  shows "fold_option (set_wire parse_time) (wire_members ts w) empty_wire = Some w"
  using assms unfolding wire_members_def wire_ok_def fold_option_append
  by (simp add: set_wire_str set_wire_others fold_option_append [of _ "[_]" "[_]", simplified]
      empty_wire_def)

definition member_ok :: "string \<times> string \<Rightarrow> bool" where
  "member_ok m \<longleftrightarrow> valid_utf8 (fst m) \<and> (\<exists>v. raw_value (snd m) v \<and> json_depth v < max_nesting_depth)"

lemma members_json:
  assumes "\<forall>m \<in> set ms. member_ok m"
  shows "\<exists>kvs. list_all2 (\<lambda>m kv. fst m = fst kv \<and> raw_value (snd m) (snd kv)) ms kvs \<and>
    (\<forall>kv \<in> set kvs. valid_utf8 (fst kv) \<and> json_depth (snd kv) < max_nesting_depth)"
  using assms
proof (induction ms)
  case Nil
  show ?case by (intro exI [of _ "[]"]) simp
next
  case (Cons m ms)
  from Cons.prems obtain v where v: "raw_value (snd m) v" "json_depth v < max_nesting_depth" "valid_utf8 (fst m)"
    by (auto simp: member_ok_def)
  from Cons obtain kvs where "list_all2 (\<lambda>m kv. fst m = fst kv \<and> raw_value (snd m) (snd kv)) ms kvs"
    "\<forall>kv \<in> set kvs. valid_utf8 (fst kv) \<and> json_depth (snd kv) < max_nesting_depth" by auto
  with v show ?case by (intro exI [of _ "(fst m, v) # kvs"]) simp
qed

lemma ascii_valid_utf8: "\<forall>c \<in> set s. byte c < 128 \<Longrightarrow> valid_utf8 s"
proof -
  assume a: "\<forall>c \<in> set s. byte c < 128"
  with ascii_rune_segments [OF a] show ?thesis by (force simp: valid_utf8_def dest: leD)
qed

lemma member_ok_string:
  "\<forall>c \<in> set k. byte c < 128 \<Longrightarrow> valid_utf8 s \<Longrightarrow> member_ok (k, print_string s)"
  using raw_value_string [of s] by (auto simp: member_ok_def ascii_valid_utf8 max_nesting_depth_def)

lemma member_ok_omit:
  assumes "\<forall>c \<in> set k. byte c < 128"
  shows "valid_utf8 s \<Longrightarrow> list_all member_ok (omit_str k s)"
    "s = [] \<or> (\<exists>v. raw_value s v \<and> json_depth v < max_nesting_depth) \<Longrightarrow> list_all member_ok (omit_raw k s)"
    "in64 i \<Longrightarrow> list_all member_ok (omit_int k i)"
proof -
  show "valid_utf8 s \<Longrightarrow> list_all member_ok (omit_str k s)"
    using member_ok_string [OF assms] by (simp add: omit_str_def)
  show "s = [] \<or> (\<exists>v. raw_value s v \<and> json_depth v < max_nesting_depth) \<Longrightarrow> list_all member_ok (omit_raw k s)"
    using ascii_valid_utf8 [OF assms] by (auto simp: omit_raw_def member_ok_def)
  show "in64 i \<Longrightarrow> list_all member_ok (omit_int k i)"
  proof -
    assume "in64 i"
    then have "raw_value (show_int i) (JNum (show_int i))"
      using show_int_literal(1) by (simp add: raw_value_def)
    moreover have "json_depth (JNum (show_int i)) < max_nesting_depth" by (simp add: max_nesting_depth_def)
    ultimately have "member_ok (k, show_int i)"
      using ascii_valid_utf8 [OF assms] unfolding member_ok_def fst_conv snd_conv by blast
    then show ?thesis by (simp add: omit_int_def)
  qed
qed

lemma wire_members_ok:
  assumes "wire_ok fmt_time w" "set ts \<subseteq> set ''0123456789-:TZ.+''"
  shows "\<forall>m \<in> set (wire_members ts w). member_ok m"
proof -
  have t: "member_ok (''timestamp'', quoted ts)"
    using quoted_plain [OF assms(2)] ascii_valid_utf8 [of "''timestamp''"]
    unfolding member_ok_def fst_conv snd_conv
    by (intro conjI exI [of _ "JStr ts"]) (simp_all add: max_nesting_depth_def)
  note w = assms(1) [unfolded wire_ok_def]
  have "list_all member_ok (wire_members ts w)"
    unfolding wire_members_def list_all_append list.pred_inject
    using w by (intro conjI t member_ok_omit member_ok_string TrueI) simp_all
  then show ?thesis by (simp add: list_all_iff)
qed

lemma unmarshal_marshal_wire:
  assumes "time_codec fmt_time parse_time" "wire_ok fmt_time w" "marshal_wire fmt_time w = Some line"
  shows "unmarshal_wire parse_time line = Some w" "\<exists>kvs. line = print_json (JObj kvs) \<and> json_wf (JObj kvs) \<and>
    parse_json line = Some (JObj kvs)"
proof -
  from assms(3) obtain ts where ts: "fmt_time (we_timestamp w) = Some ts" "line = print_members (wire_members ts w)"
    by (auto simp: marshal_wire_def)
  with assms(1) have p: "parse_time ts = Some (we_timestamp w)" and c: "set ts \<subseteq> set ''0123456789-:TZ.+''"
    unfolding time_codec_def by blast+
  from members_json [OF wire_members_ok [OF assms(2) c]] obtain kvs where
    k: "list_all2 (\<lambda>m kv. fst m = fst kv \<and> raw_value (snd m) (snd kv)) (wire_members ts w) kvs"
      "\<forall>kv \<in> set kvs. valid_utf8 (fst kv) \<and> json_depth (snd kv) < max_nesting_depth" by blast
  from raw_object_print_members [OF k] fold_wire_members [OF assms(2), of parse_time ts] p ts(2)
  show "unmarshal_wire parse_time line = Some w" by (simp add: unmarshal_wire_def)
  have "list_all (\<lambda>kv. json_wf (snd kv)) kvs"
    using k(1) by (induction rule: list_all2_induct) (auto simp: raw_value_def)
  then have "json_wf (JObj kvs)" using k(2) by (simp add: list_all_iff)
  with raw_object_print_members(2) [OF k] print_members_json [OF k(1)] ts(2)
  show "\<exists>kvs. line = print_json (JObj kvs) \<and> json_wf (JObj kvs) \<and> parse_json line = Some (JObj kvs)" by auto
qed

subsection \<open>Entries\<close>

definition entry_wire :: "(message \<Rightarrow> string option) \<Rightarrow> entry \<Rightarrow> wire_entry" where
  "entry_wire enc_msg e =
     (case e of
        MessageEntry m msg \<Rightarrow> (wire_of_meta KindMessage m)\<lparr>we_message := the (enc_msg msg)\<rparr>
      | ModelChangeEntry m model role \<Rightarrow> (wire_of_meta KindModelChange m)\<lparr>we_model := model, we_role := role\<rparr>
      | CompactionEntry m summary kept tokens \<Rightarrow> (wire_of_meta KindCompaction m)
          \<lparr>we_summary := summary, we_first_kept_id := kept, we_tokens_before := tokens\<rparr>)"

lemma kinds_utf8: "valid_utf8 KindMessage" "valid_utf8 KindModelChange" "valid_utf8 KindCompaction" "valid_utf8 []"
  by (rule ascii_valid_utf8, simp add: KindMessage_def KindModelChange_def KindCompaction_def)+

lemma kinds_distinct:
  "KindMessage \<noteq> []" "KindModelChange \<noteq> []" "KindCompaction \<noteq> []"
  "KindModelChange \<noteq> KindMessage" "KindCompaction \<noteq> KindMessage" "KindCompaction \<noteq> KindModelChange"
  by (simp_all add: KindMessage_def KindModelChange_def KindCompaction_def)

lemma entry_wire_ok:
  assumes "entry_ok enc_msg dec_msg fmt_time e"
  shows "wire_ok fmt_time (entry_wire enc_msg e)"
    "MarshalEntry enc_msg fmt_time (EntryValue e) = as_marshal (marshal_wire fmt_time (entry_wire enc_msg e))"
  using assms
  by (cases e; auto simp: entry_ok_def entry_wire_def wire_ok_def wire_of_meta_def empty_wire_def
      kinds_utf8 in64_def msg_codec_def raw_value_def marshalMessageEntry_def)+

lemma decode_entry_wire:
  assumes "entry_ok enc_msg dec_msg fmt_time e" "unmarshal_wire parse_time line = Some (entry_wire enc_msg e)"
  shows "decodeEntry dec_msg parse_time line = Inr e"
proof (cases e)
  case (MessageEntry m msg)
  with assms(1) obtain v where "enc_msg msg = Some (print_json v)" "dec_msg (print_json v) = Inr msg"
    by (auto simp: entry_ok_def msg_codec_def)
  with MessageEntry assms show ?thesis
    by (simp add: decodeEntry_def entry_wire_def wire_of_meta_def empty_wire_def entry_ok_def
        kinds_distinct Let_def)
qed (use assms in \<open>simp_all add: decodeEntry_def entry_wire_def wire_of_meta_def empty_wire_def
    entry_ok_def kinds_distinct Let_def\<close>)

definition is_unknown :: "decode_error \<Rightarrow> bool" where
  "is_unknown err \<longleftrightarrow> (case err of UnknownEntry _ _ \<Rightarrow> True | _ \<Rightarrow> False)"

lemma entry_roundtrip_lines:
  assumes "time_codec fmt_time parse_time" "entry_ok enc_msg dec_msg fmt_time e"
  shows "\<exists>line. MarshalEntry enc_msg fmt_time (EntryValue e) = Inr line \<and> NL \<notin> set line \<and> line \<noteq> [] \<and>
    decodeEntry dec_msg parse_time line = Inr e \<and> (\<exists>kvs. parse_json line = Some (JObj kvs)) \<and>
    (\<forall>p x. line = p @ x \<longrightarrow> x \<noteq> [] \<longrightarrow> decodeEntry dec_msg parse_time p = Inl BadJson)"
proof -
  note w = entry_wire_ok [OF assms(2)]
  obtain line where line: "marshal_wire fmt_time (entry_wire enc_msg e) = Some line"
    using w(1) by (auto simp: wire_ok_def marshal_wire_def)
  note um = unmarshal_marshal_wire [OF assms(1) w(1) line]
  from um(2) obtain kvs where k: "line = print_json (JObj kvs)" "json_wf (JObj kvs)" "parse_json line = Some (JObj kvs)"
    by blast
  have "decodeEntry dec_msg parse_time p = Inl BadJson" if px: "line = p @ x" "x \<noteq> []" for p x
  proof -
    have "last line = CHR ''}''" by (simp add: k(1))
    then have "last x = CHR ''}''" using px by simp
    then have "CHR ''}'' \<in> set x" using px(2) by (metis last_in_set)
    then have "skip_ws x \<noteq> []"
      by (auto simp: skip_ws_def dropWhile_eq_Nil_conv intro!: bexI [of _ "CHR ''}''"])
    with k(3) px(1) parse_json_prefix [of p x "JObj kvs"]
    have "parse_json p = None \<or> (\<exists>lit. parse_json p = Some (JNum lit))"
      by (cases "parse_json p") (auto simp: is_num_def split: json.splits)
    then have "raw_object p = None" by (auto simp: raw_object_def)
    then show ?thesis by (simp add: decodeEntry_def unmarshal_wire_def)
  qed
  moreover have "NL \<notin> set line" using print_json_no_newline [OF k(2)] k(1) by simp
  moreover have "line \<noteq> []" by (simp add: k(1))
  ultimately show ?thesis using w(2) line um(1) decode_entry_wire [OF assms(2)]
    by (intro exI [of _ line]) (auto simp: as_marshal_def k(3))
qed

text \<open>C27: For a record the journal can write (its identifiers and texts valid UTF-8, a time with
  a text, a message its codec can write), \<open>MarshalEntry\<close> writes one line of JSON without a
  newline byte, \<open>decodeEntry\<close> of that line gives the record back, and \<open>decodeEntry\<close> of any proper
  prefix of it, which is what a torn write leaves, is an error and never an entry of an
  unknown kind, so that a torn line cannot be taken for a record.\<close>

theorem entry_roundtrip:
  assumes "time_codec fmt_time parse_time" "entry_ok enc_msg dec_msg fmt_time e"
  shows "\<exists>line. MarshalEntry enc_msg fmt_time (EntryValue e) = Inr line \<and> NL \<notin> set line \<and> line \<noteq> [] \<and>
    decodeEntry dec_msg parse_time line = Inr e \<and>
    (\<forall>p x. line = p @ x \<longrightarrow> x \<noteq> [] \<longrightarrow> decodeEntry dec_msg parse_time p = Inl BadJson)"
  using entry_roundtrip_lines [OF assms] by blast

text \<open>A codec for one time and for text messages of the user, to apply the theorems to.\<close>

definition demo_time :: string where "demo_time = ''1970-01-01T00:00:00Z''"

definition demo_fmt :: "time_ns \<Rightarrow> string option" where
  "demo_fmt t = (if t = 0 then Some demo_time else None)"

definition demo_parse :: "string \<Rightarrow> time_ns option" where
  "demo_parse s = (if s = demo_time then Some 0 else None)"

definition demo_msg :: "string \<Rightarrow> message" where
  "demo_msg s = UserMessage \<lparr>um_content = StringContent s, um_timestamp = 0\<rparr>"

definition demo_enc :: "message \<Rightarrow> string option" where
  "demo_enc m = (case m of UserMessage u \<Rightarrow> Some (print_json (JStr (uc_text (um_content u)))) | _ \<Rightarrow> None)"

definition demo_dec :: "string \<Rightarrow> string + message" where
  "demo_dec raw = (case parse_json raw of Some (JStr s) \<Rightarrow> Inr (demo_msg s) | _ \<Rightarrow> Inl ''bad message'')"

lemma demo_time_codec: "time_codec demo_fmt demo_parse"
proof -
  have "set demo_time \<subseteq> set ''0123456789-:TZ.+''" by (simp add: demo_time_def)
  then show ?thesis by (simp add: time_codec_def demo_fmt_def demo_parse_def)
qed

lemma demo_msg_codec: "valid_utf8 s \<Longrightarrow> msg_codec demo_enc demo_dec (demo_msg s)"
  unfolding msg_codec_def
  by (intro exI [of _ "JStr s"])
    (simp add: demo_enc_def demo_dec_def demo_msg_def StringContent_def max_nesting_depth_def
      parse_print_json [of "JStr s", simplified])

definition demo_entry :: "string \<Rightarrow> string \<Rightarrow> string \<Rightarrow> entry" where
  "demo_entry i p s = MessageEntry \<lparr>me_id = i, me_parent_id = p, me_timestamp = 0\<rparr> (demo_msg s)"

lemma demo_entry_ok:
  "i \<noteq> [] \<Longrightarrow> valid_utf8 i \<Longrightarrow> valid_utf8 p \<Longrightarrow> valid_utf8 s \<Longrightarrow>
     entry_ok demo_enc demo_dec demo_fmt (demo_entry i p s)"
  by (simp add: entry_ok_def demo_entry_def demo_msg_codec zero_time_def demo_fmt_def)
    (simp add: demo_msg_def)

theorem entry_roundtrip_witness:
  "\<exists>line. MarshalEntry demo_enc demo_fmt (EntryValue (demo_entry ''e1'' [] ''hi'')) = Inr line \<and>
    NL \<notin> set line \<and> line \<noteq> [] \<and> decodeEntry demo_dec demo_parse line = Inr (demo_entry ''e1'' [] ''hi'')"
  using entry_roundtrip [OF demo_time_codec demo_entry_ok, of "''e1''" "[]" "''hi''"]
  by (auto simp: ascii_valid_utf8)

end
