(* ===== verification/Journal_Store.thy ===== *)
theory Journal_Store
  imports Journal_Entry
begin

text \<open>
  The session journal as an append-only file: \<open>store.go\<close> (create, append, close) and
  \<open>resume.go\<close> (load, resume, trim, resolve, recent) of \<open>internal/session/journal\<close>.

  A file is its bytes.  One write either stores the whole line or fails after some bytes
  (\<open>write_outcome\<close>); whether the context is cancelled when it is asked, the new identifier and
  the time are arguments of an operation.
\<close>

section \<open>Writing\<close>

record store =
  st_path :: string
  st_id :: string
  st_open :: bool
  st_last_id :: string

type_synonym file_system = "string \<Rightarrow> string option"

datatype write_outcome = WroteAll | WroteSome nat

definition writeLine :: "write_outcome \<Rightarrow> string \<Rightarrow> string \<Rightarrow> string \<times> bool" where
  "writeLine out line contents =
     (let buffer = line @ [NL] in
      case out of
        WroteAll \<Rightarrow> (contents @ buffer, True)
      | WroteSome n \<Rightarrow> (contents @ take n buffer, False))"

definition with_meta :: "meta \<Rightarrow> entry \<Rightarrow> entry" where
  "with_meta m e =
     (case e of
        MessageEntry _ msg \<Rightarrow> MessageEntry m msg
      | ModelChangeEntry _ model role \<Rightarrow> ModelChangeEntry m model role
      | CompactionEntry _ summary kept tokens \<Rightarrow> CompactionEntry m summary kept tokens)"

datatype append_error = AppendCancelled | StoreClosed | MarshalError marshal_error | WriteError

text \<open>\<open>append\<close> returns the file, the store and its error.\<close>

definition append_entry ::
  "(message \<Rightarrow> string option) \<Rightarrow> (time_ns \<Rightarrow> string option) \<Rightarrow> bool \<Rightarrow> string \<Rightarrow> time_ns \<Rightarrow> write_outcome \<Rightarrow>
   entry \<Rightarrow> file_system \<times> store \<Rightarrow> (file_system \<times> store) \<times> append_error option" where
  "append_entry enc_msg fmt_time cancelled newid now out e fst_st =
     (let (fs, st) = fst_st in
      if cancelled then ((fs, st), Some AppendCancelled)
      else if \<not> st_open st then ((fs, st), Some StoreClosed)
      else
        let m = \<lparr>me_id = newid, me_parent_id = st_last_id st, me_timestamp = now\<rparr> in
        case MarshalEntry enc_msg fmt_time (EntryValue (with_meta m e)) of
          Inl err \<Rightarrow> ((fs, st), Some (MarshalError err))
        | Inr line \<Rightarrow>
            (let (contents, ok) = writeLine out line (the (fs (st_path st)));
                 fs' = fs(st_path st \<mapsto> contents)
             in if ok then ((fs', st\<lparr>st_last_id := newid\<rparr>), None) else ((fs', st), Some WriteError)))"

definition no_meta :: meta where
  "no_meta = \<lparr>me_id = [], me_parent_id = [], me_timestamp = zero_time\<rparr>"

definition AppendMessage where
  "AppendMessage enc_msg fmt_time cancelled newid now out msg =
     append_entry enc_msg fmt_time cancelled newid now out (MessageEntry no_meta msg)"

definition AppendModelChange where
  "AppendModelChange enc_msg fmt_time cancelled newid now out model role =
     append_entry enc_msg fmt_time cancelled newid now out (ModelChangeEntry no_meta model role)"

definition AppendCompaction where
  "AppendCompaction enc_msg fmt_time cancelled newid now out summary kept tokens =
     append_entry enc_msg fmt_time cancelled newid now out (CompactionEntry no_meta summary kept tokens)"

text \<open>\<open>Close\<close>, whose sync and close errors are arguments.\<close>

datatype close_error = SyncError | CloseError

definition Close :: "bool \<Rightarrow> bool \<Rightarrow> store \<Rightarrow> store \<times> close_error option" where
  "Close sync_ok close_ok st =
     (if \<not> st_open st then (st, None)
      else (st\<lparr>st_open := False\<rparr>,
        if \<not> sync_ok then Some SyncError else if \<not> close_ok then Some CloseError else None))"

definition encodeCwd :: "string \<Rightarrow> string" where
  "encodeCwd cwd =
     (let encoded = replacer [(''/'', ''-''), ([BACKSLASH], ''-''), ('':'', ''-'')] cwd;
          trimmed = dropWhile (\<lambda>c. c = CHR ''-'') encoded
      in if trimmed = [] then ''root'' else trimmed)"

section \<open>The header\<close>

definition header_members :: "string \<Rightarrow> header \<Rightarrow> (string \<times> string) list" where
  "header_members ts h =
     [(''type'', print_string (hd_type h)), (''version'', show_int (hd_version h)),
      (''id'', print_string (hd_id h)), (''timestamp'', quoted ts), (''cwd'', print_string (hd_cwd h))] @
     omit_str ''title'' (hd_title h)"

definition marshal_header :: "(time_ns \<Rightarrow> string option) \<Rightarrow> header \<Rightarrow> string option" where
  "marshal_header fmt_time h = map_option (\<lambda>ts. print_members (header_members ts h)) (fmt_time (hd_timestamp h))"

definition empty_header :: header where
  "empty_header = \<lparr>hd_type = [], hd_version = 0, hd_id = [], hd_timestamp = zero_time, hd_cwd = [], hd_title = []\<rparr>"

definition header_fields :: "string list" where
  "header_fields = [''type'', ''version'', ''id'', ''timestamp'', ''cwd'', ''title'']"

definition set_header ::
  "(string \<Rightarrow> time_ns option) \<Rightarrow> string \<times> string \<Rightarrow> header \<Rightarrow> header option" where
  "set_header parse_time kr h =
     (case field_for header_fields (fst kr) of
        None \<Rightarrow> Some h
      | Some f \<Rightarrow>
        (if f = ''type'' then map_option (\<lambda>s. h\<lparr>hd_type := s\<rparr>) (set_str (snd kr) (hd_type h))
         else if f = ''version'' then map_option (\<lambda>i. h\<lparr>hd_version := i\<rparr>) (set_int (snd kr) (hd_version h))
         else if f = ''id'' then map_option (\<lambda>s. h\<lparr>hd_id := s\<rparr>) (set_str (snd kr) (hd_id h))
         else if f = ''timestamp'' then map_option (\<lambda>t. h\<lparr>hd_timestamp := t\<rparr>) (set_time parse_time (snd kr) (hd_timestamp h))
         else if f = ''cwd'' then map_option (\<lambda>s. h\<lparr>hd_cwd := s\<rparr>) (set_str (snd kr) (hd_cwd h))
         else map_option (\<lambda>s. h\<lparr>hd_title := s\<rparr>) (set_str (snd kr) (hd_title h))))"

definition unmarshal_header :: "(string \<Rightarrow> time_ns option) \<Rightarrow> string \<Rightarrow> header option" where
  "unmarshal_header parse_time raw =
     (case raw_object raw of None \<Rightarrow> None | Some ms \<Rightarrow> fold_option (set_header parse_time) ms empty_header)"

datatype header_error = BadHeaderType | BadVersion int | BadId | NoTimestamp | RelativeCwd

definition validateHeader :: "header \<Rightarrow> header_error option" where
  "validateHeader h =
     (if hd_type h \<noteq> ''session'' then Some BadHeaderType
      else if hd_version h \<noteq> JournalVersion then Some (BadVersion (hd_version h))
      else if length (hd_id h) \<noteq> 16 then Some BadId
      else if \<not> list_all is_hex (hd_id h) then Some BadId
      else if hd_timestamp h = zero_time then Some NoTimestamp
      else if hd_cwd h = [] \<or> \<not> prefix ''/'' (hd_cwd h) then Some RelativeCwd
      else None)"

text \<open>
  \<open>Create\<close>: the context is asked before the directory is made (\<open>c 0\<close>, \<open>c 1\<close>), before the file
  is opened (\<open>c 2\<close>) and before the header is written (\<open>c 3\<close>); a failure after the file exists
  removes it.  The path is computed by \<open>journal_path\<close> from the two directories, the time and
  the identifier with the library's \<open>filepath.Join\<close> and time format.
\<close>

datatype create_error = CreateCancelled | MkdirError | OpenError | HeaderMarshalError | HeaderWriteError

definition Create ::
  "(time_ns \<Rightarrow> string option) \<Rightarrow> (string \<Rightarrow> string \<Rightarrow> time_ns \<Rightarrow> string \<Rightarrow> string) \<Rightarrow> (nat \<Rightarrow> bool) \<Rightarrow> bool \<Rightarrow>
   write_outcome \<Rightarrow> string \<Rightarrow> string \<Rightarrow> string \<Rightarrow> time_ns \<Rightarrow> string \<Rightarrow> file_system \<Rightarrow>
   file_system \<times> (create_error + store)" where
  "Create fmt_time journal_path c mkdir_ok out dir cwd newid now title fs =
     (let path = journal_path dir (encodeCwd cwd) now newid;
          h = \<lparr>hd_type = ''session'', hd_version = JournalVersion, hd_id = newid, hd_timestamp = now,
                hd_cwd = cwd, hd_title = title\<rparr>
      in
      if c 0 \<or> c 1 then (fs, Inl CreateCancelled)
      else if \<not> mkdir_ok then (fs, Inl MkdirError)
      else if c 2 then (fs, Inl CreateCancelled)
      else if fs path \<noteq> None then (fs, Inl OpenError)
      else case marshal_header fmt_time h of
        None \<Rightarrow> (fs, Inl HeaderMarshalError)
      | Some line \<Rightarrow>
          if c 3 then (fs, Inl CreateCancelled)
          else let (contents, ok) = writeLine out line [] in
               if ok then (fs(path \<mapsto> contents),
                           Inr \<lparr>st_path = path, st_id = newid, st_open = True, st_last_id = []\<rparr>)
               else (fs, Inl HeaderWriteError))"

section \<open>Loading\<close>

record replay_state =
  rs_messages :: "(string \<times> message) list"
  rs_model :: string
  rs_role :: string
  rs_last_id :: string
  rs_diagnostics :: "(string \<times> string) list"

definition empty_replay :: replay_state where
  "empty_replay = \<lparr>rs_messages = [], rs_model = [], rs_role = [], rs_last_id = [], rs_diagnostics = []\<rparr>"

definition compactionPrefix :: string where
  "compactionPrefix = ''The conversation history before this point was compacted into the following summary:'' @
     [NL, NL] @ ''<summary>'' @ [NL]"

definition compactionSuffix :: string where "compactionSuffix = [NL] @ ''</summary>''"

definition mergeSummaryIntoUser :: "string \<Rightarrow> user_message \<Rightarrow> time_ns \<Rightarrow> user_message" where
  "mergeSummaryIntoUser summary u t =
     (let blocks = NewText summary #
            (case uc_blocks (um_content u) of
               Some bs \<Rightarrow> bs
             | None \<Rightarrow> if trim_space (uc_text (um_content u)) \<noteq> []
                       then [NewText (uc_text (um_content u))] else [])
      in \<lparr>um_content = BlockContent (Some blocks),
          um_timestamp = (if um_timestamp u = 0 then UnixMilli t else um_timestamp u)\<rparr>)"

definition applyCompaction ::
  "(string \<times> message) list \<Rightarrow> time_ns \<Rightarrow> string \<Rightarrow> string \<Rightarrow> (string \<times> message) list" where
  "applyCompaction messages t summary0 first_kept =
     (let kept = (case first_index (\<lambda>im. fst im = first_kept) messages of
                    None \<Rightarrow> messages | Some i \<Rightarrow> drop i messages);
          summary = compactionPrefix @ summary0 @ compactionSuffix;
          prepended = ([], UserMessage \<lparr>um_content = StringContent summary, um_timestamp = UnixMilli t\<rparr>) # kept
      in case kept of
           [] \<Rightarrow> prepended
         | (i, msg) # rest \<Rightarrow>
             (case asUser msg of
                Some u \<Rightarrow> (i, UserMessage (mergeSummaryIntoUser summary u t)) # rest
              | None \<Rightarrow> prepended))"

definition apply_entry :: "entry \<Rightarrow> replay_state \<Rightarrow> replay_state" where
  "apply_entry e rs =
     (let rs1 = rs\<lparr>rs_last_id := me_id (entry_meta e)\<rparr> in
      case e of
        MessageEntry m msg \<Rightarrow> rs1\<lparr>rs_messages := rs_messages rs @ [(me_id m, msg)]\<rparr>
      | ModelChangeEntry m model role \<Rightarrow>
          rs1\<lparr>rs_model := model, rs_role := (if role = [] then ''default'' else role)\<rparr>
      | CompactionEntry m summary kept _ \<Rightarrow>
          rs1\<lparr>rs_messages := applyCompaction (rs_messages rs) (me_timestamp m) summary kept\<rparr>)"

datatype load_error =
    LoadCancelled
  | ReadError
  | MissingHeader
  | BadHeaderJson
  | InvalidHeader header_error
  | BadLine nat decode_error

fun replay_lines ::
  "(string \<Rightarrow> decode_error + entry) \<Rightarrow> (nat \<Rightarrow> bool) \<Rightarrow> nat \<Rightarrow> string list \<Rightarrow> replay_state \<Rightarrow>
   load_error + replay_state" where
  "replay_lines dec c i [] rs = Inr rs"
| "replay_lines dec c i (l # ls) rs =
     (if c i then Inl LoadCancelled
      else case dec l of
        Inr e \<Rightarrow> replay_lines dec c (Suc i) ls (apply_entry e rs)
      | Inl (UnknownEntry t eid) \<Rightarrow>
          replay_lines dec c (Suc i) ls
            (rs\<lparr>rs_diagnostics := rs_diagnostics rs @ [(t, eid)], rs_last_id := eid\<rparr>)
      | Inl err \<Rightarrow> if ls = [] then Inr rs else Inl (BadLine (Suc i) err))"

record loaded =
  ld_header :: header
  ld_messages :: "message list"
  ld_model :: string
  ld_role :: string
  ld_last_id :: string
  ld_diagnostics :: "(string \<times> string) list"

definition loaded_of :: "header \<Rightarrow> replay_state \<Rightarrow> loaded" where
  "loaded_of h rs = \<lparr>ld_header = h, ld_messages = map snd (rs_messages rs), ld_model = rs_model rs,
     ld_role = rs_role rs, ld_last_id = rs_last_id rs, ld_diagnostics = rs_diagnostics rs\<rparr>"

text \<open>
  The context is asked before (\<open>c 0\<close>) and after (\<open>c_read\<close>) the file is read and before each line.
\<close>

definition Load ::
  "(string \<Rightarrow> decode_error + entry) \<Rightarrow> (string \<Rightarrow> time_ns option) \<Rightarrow> bool \<Rightarrow> (nat \<Rightarrow> bool) \<Rightarrow> string option \<Rightarrow>
   load_error + loaded" where
  "Load dec parse_time c_read c file =
     (if c 0 then Inl LoadCancelled
      else case file of None \<Rightarrow> Inl ReadError
      | Some contents \<Rightarrow>
        (if c_read then Inl LoadCancelled
         else
           let lines = split_on NL contents; body = tl lines;
               body = (if body \<noteq> [] \<and> last body = [] then butlast body else body)
           in
           if hd lines = [] then Inl MissingHeader
           else case unmarshal_header parse_time (hd lines) of
             None \<Rightarrow> Inl BadHeaderJson
           | Some h \<Rightarrow>
               (case validateHeader h of
                  Some err \<Rightarrow> Inl (InvalidHeader err)
                | None \<Rightarrow>
                    (case replay_lines dec c 1 body empty_replay of
                       Inl err \<Rightarrow> Inl err
                     | Inr rs \<Rightarrow> Inr (loaded_of h rs)))))"

text \<open>\<open>trimMalformedFinalLine\<close>: the file after it, unless a step of it fails.\<close>

definition trimMalformedFinalLine :: "(string \<Rightarrow> decode_error + entry) \<Rightarrow> string \<Rightarrow> string" where
  "trimMalformedFinalLine dec contents =
     (if contents = [] then contents
      else
        let body = (if last contents = NL then butlast contents else contents) in
        if body = [] then contents
        else
          let start = length body - length (takeWhile (\<lambda>c. c \<noteq> NL) (rev body)) in
          case dec (drop start body) of
            Inr _ \<Rightarrow> contents
          | Inl (UnknownEntry _ _) \<Rightarrow> contents
          | Inl _ \<Rightarrow> take start contents)"


text \<open>
  \<open>OpenForResume\<close>: the context is asked at the start and before the file is opened, the flags
  \<open>trim_ok\<close> and \<open>open_ok\<close> say whether trimming and opening succeed.
\<close>

datatype resume_error = ResumeCancelled | ResumeLoad load_error | ResumeTrim | ResumeOpen

definition OpenForResume ::
  "(string \<Rightarrow> decode_error + entry) \<Rightarrow> (string \<Rightarrow> time_ns option) \<Rightarrow> bool \<Rightarrow> bool \<Rightarrow> (nat \<Rightarrow> bool) \<Rightarrow> bool \<Rightarrow> bool \<Rightarrow>
   bool \<Rightarrow> string \<Rightarrow> file_system \<Rightarrow> file_system \<times> (resume_error + store \<times> loaded)" where
  "OpenForResume dec parse_time c_start c_read c c_open trim_ok open_ok path fs =
     (if c_start then (fs, Inl ResumeCancelled)
      else case Load dec parse_time c_read c (fs path) of
        Inl err \<Rightarrow> (fs, Inl (ResumeLoad err))
      | Inr ld \<Rightarrow>
          (if \<not> trim_ok then (fs, Inl ResumeTrim)
           else
             let fs' = fs(path := map_option (trimMalformedFinalLine dec) (fs path)) in
             if c_open then (fs', Inl ResumeCancelled)
             else if \<not> open_ok then (fs', Inl ResumeOpen)
             else (fs', Inr (\<lparr>st_path = path, st_id = hd_id (ld_header ld), st_open = True,
                              st_last_id = ld_last_id ld\<rparr>, ld))))"

section \<open>Finding a journal\<close>

text \<open>
  A directory entry with what reading it gives and its modification time (\<^const>\<open>None\<close>: the call
  fails).  For the entry at position \<open>i\<close> the context is asked before it (\<open>c i\<close>), while its header
  is read (\<open>c_load i\<close>) and after a failure (\<open>c_after i\<close>).
\<close>

record dir_entry =
  de_name :: string
  de_is_dir :: bool
  de_contents :: "string option"
  de_mod_time :: "int option"

datatype dir_result = DirMissing | DirUnreadable | DirEntries "dir_entry list"

datatype find_error = FindCancelled | SessionNotFound | ReadDirError | Corrupt string

datatype header_load_error = HeaderCancelled | HeaderRead | HeaderJson | HeaderInvalid header_error

definition loadHeader ::
  "(string \<Rightarrow> time_ns option) \<Rightarrow> bool \<Rightarrow> string option \<Rightarrow> header_load_error + header" where
  "loadHeader parse_time c_load file =
     (if c_load then Inl HeaderCancelled
      else case file of None \<Rightarrow> Inl HeaderRead
      | Some contents \<Rightarrow>
        (case unmarshal_header parse_time (takeWhile (\<lambda>c. c \<noteq> NL) contents) of
           None \<Rightarrow> Inl HeaderJson
         | Some h \<Rightarrow> (case validateHeader h of None \<Rightarrow> Inr h | Some err \<Rightarrow> Inl (HeaderInvalid err))))"

record ctx_checks =
  cx_before :: "nat \<Rightarrow> bool"
  cx_load :: "nat \<Rightarrow> bool"
  cx_after :: "nat \<Rightarrow> bool"

fun resolve_loop ::
  "(string \<Rightarrow> time_ns option) \<Rightarrow> (string \<Rightarrow> string) \<Rightarrow> ctx_checks \<Rightarrow> string \<Rightarrow> string \<Rightarrow> nat \<Rightarrow> dir_entry list \<Rightarrow>
   string option \<Rightarrow> find_error + string" where
  "resolve_loop pt path_of cx cwd sfx i [] corrupt =
     (case corrupt of Some n \<Rightarrow> Inl (Corrupt n) | None \<Rightarrow> Inl SessionNotFound)"
| "resolve_loop pt path_of cx cwd sfx i (d # ds) corrupt =
     (if cx_before cx i then Inl FindCancelled
      else if de_is_dir d \<or> \<not> suffix sfx (de_name d) then resolve_loop pt path_of cx cwd sfx (Suc i) ds corrupt
      else case loadHeader pt (cx_load cx i) (de_contents d) of
        Inl _ \<Rightarrow> (if cx_after cx i then Inl FindCancelled
                  else resolve_loop pt path_of cx cwd sfx (Suc i) ds (Some (de_name d)))
      | Inr h \<Rightarrow> (if hd_cwd h \<noteq> cwd then resolve_loop pt path_of cx cwd sfx (Suc i) ds corrupt
                  else Inr (path_of (de_name d))))"

definition Resolve where
  "Resolve pt path_of cancelled cx cwd sid dir =
     (if cancelled then Inl FindCancelled
      else case dir of
        DirMissing \<Rightarrow> Inl SessionNotFound
      | DirUnreadable \<Rightarrow> Inl ReadDirError
      | DirEntries ds \<Rightarrow> resolve_loop pt path_of cx cwd (''_'' @ sid @ ''.jsonl'') 0 ds None)"

text \<open>Go compares strings byte by byte.\<close>

fun bytes_less :: "string \<Rightarrow> string \<Rightarrow> bool" where
  "bytes_less a [] \<longleftrightarrow> False"
| "bytes_less [] (d # b) \<longleftrightarrow> True"
| "bytes_less (c # a) (d # b) \<longleftrightarrow> byte c < byte d \<or> (c = d \<and> bytes_less a b)"

definition newer :: "string \<times> int \<Rightarrow> (string \<times> int) option \<Rightarrow> bool" where
  "newer pm best \<longleftrightarrow>
     (case best of None \<Rightarrow> True
      | Some (path, t) \<Rightarrow> t < snd pm \<or> (snd pm = t \<and> bytes_less path (fst pm)))"

fun recent_loop ::
  "(string \<Rightarrow> time_ns option) \<Rightarrow> (string \<Rightarrow> string) \<Rightarrow> ctx_checks \<Rightarrow> string \<Rightarrow> nat \<Rightarrow> dir_entry list \<Rightarrow>
   (string \<times> int) option \<Rightarrow> string option \<Rightarrow> find_error + string" where
  "recent_loop pt path_of cx cwd i [] best corrupt =
     (case best of
        Some (path, _) \<Rightarrow> Inr path
      | None \<Rightarrow> (case corrupt of Some n \<Rightarrow> Inl (Corrupt n) | None \<Rightarrow> Inl SessionNotFound))"
| "recent_loop pt path_of cx cwd i (d # ds) best corrupt =
     (if cx_before cx i then Inl FindCancelled
      else if de_is_dir d \<or> \<not> suffix ''.jsonl'' (de_name d) then recent_loop pt path_of cx cwd (Suc i) ds best corrupt
      else case loadHeader pt (cx_load cx i) (de_contents d) of
        Inl _ \<Rightarrow> (if cx_after cx i then Inl FindCancelled
                  else recent_loop pt path_of cx cwd (Suc i) ds best (Some (de_name d)))
      | Inr h \<Rightarrow>
          (if hd_cwd h \<noteq> cwd then recent_loop pt path_of cx cwd (Suc i) ds best corrupt
           else case de_mod_time d of
             None \<Rightarrow> recent_loop pt path_of cx cwd (Suc i) ds best (Some (de_name d))
           | Some t \<Rightarrow>
               recent_loop pt path_of cx cwd (Suc i) ds
                 (if newer (path_of (de_name d), t) best then Some (path_of (de_name d), t) else best) corrupt))"

definition Recent where
  "Recent pt path_of cancelled cx cwd dir =
     (if cancelled then Inl FindCancelled
      else case dir of
        DirMissing \<Rightarrow> Inl SessionNotFound
      | DirUnreadable \<Rightarrow> Inl ReadDirError
      | DirEntries ds \<Rightarrow> recent_loop pt path_of cx cwd 0 ds None None)"

end
