(* ===== verification/Journal_Replay.thy ===== *)
theory Journal_Replay
  imports Journal_Store
begin

text \<open>
  What the session journal promises: an invariant that ties the file to the entries appended so
  far, kept by every successful append; loading gives back the replay of those entries; after a
  torn write, resuming restores the invariant.  The last sections show which failed writes are
  not recovered and which journal \<open>Recent\<close> picks.
\<close>

section \<open>Lines\<close>

definition lines_text :: "string list \<Rightarrow> string" where
  "lines_text ls = concat (map (\<lambda>l. l @ [NL]) ls)"

lemma lines_text_simps [simp]:
  "lines_text [] = []" "lines_text (l # ls) = l @ NL # lines_text ls"
  "lines_text (ls @ ms) = lines_text ls @ lines_text ms"
  by (simp_all add: lines_text_def)

lemma split_lines_text:
  "\<forall>l \<in> set ls. NL \<notin> set l \<Longrightarrow> NL \<notin> set p \<Longrightarrow> split_on NL (lines_text ls @ p) = ls @ [p]"
  by (induction ls) (simp_all add: split_on_append_sep split_on_no_occurrence)

lemma takeWhile_rev_line: "NL \<notin> set p \<Longrightarrow> takeWhile (\<lambda>c. c \<noteq> NL) (rev p @ NL # r) = rev p"
  by (subst takeWhile_append2) auto

lemma takeWhile_rev_all: "NL \<notin> set p \<Longrightarrow> takeWhile (\<lambda>c. c \<noteq> NL) (rev p) = rev p"
  by (subst takeWhile_eq_all_conv) auto

lemma lines_text_last: "ls \<noteq> [] \<Longrightarrow> last (lines_text ls) = NL"
  by (induction ls rule: rev_induct) auto

section \<open>The header round trip\<close>

definition header_ok :: "(time_ns \<Rightarrow> string option) \<Rightarrow> header \<Rightarrow> bool" where
  "header_ok fmt_time h \<longleftrightarrow>
     validateHeader h = None \<and> valid_utf8 (hd_cwd h) \<and> valid_utf8 (hd_title h) \<and>
     fmt_time (hd_timestamp h) \<noteq> None"

lemma is_hex_ascii: "is_hex c \<Longrightarrow> byte c < 128"
  by (auto simp: is_hex_def)

lemma header_okD:
  assumes "header_ok fmt_time h"
  shows "hd_type h = ''session''" "hd_version h = 1" "valid_utf8 (hd_id h)" "valid_utf8 (hd_cwd h)"
    "valid_utf8 (hd_title h)" "validateHeader h = None"
  using assms
  by (auto simp: header_ok_def validateHeader_def JournalVersion_def list_all_iff is_hex_ascii
      intro!: ascii_valid_utf8 split: if_splits)

lemma set_header_str:
  assumes "valid_utf8 s"
  shows "set_header p (''type'', print_string s) h = Some (h\<lparr>hd_type := s\<rparr>)"
    "set_header p (''id'', print_string s) h = Some (h\<lparr>hd_id := s\<rparr>)"
    "set_header p (''cwd'', print_string s) h = Some (h\<lparr>hd_cwd := s\<rparr>)"
    "hd_title h = [] \<Longrightarrow> fold_option (set_header p) (omit_str ''title'' s) h = Some (h\<lparr>hd_title := s\<rparr>)"
  using assms
  by (auto simp: set_header_def field_for_def header_fields_def set_str_print omit_str_def)

lemma set_header_others:
  "p ts = Some t \<Longrightarrow> set_header p (''timestamp'', quoted ts) h = Some (h\<lparr>hd_timestamp := t\<rparr>)"
  "in64 i \<Longrightarrow> set_header p (''version'', show_int i) h = Some (h\<lparr>hd_version := i\<rparr>)"
  by (auto simp: set_header_def field_for_def header_fields_def set_time_quoted set_int_show)

lemma fold_header_members:
  assumes "header_ok fmt_time h" "p ts = Some (hd_timestamp h)"
  shows "fold_option (set_header p) (header_members ts h) empty_header = Some h"
proof -
  note h = header_okD [OF assms(1)]
  have s: "valid_utf8 ''session''" using h(1,3) by (intro ascii_valid_utf8) simp
  have v: "in64 1" by (simp add: in64_def)
  have c: "fold_option f (x # xs) a = Option.bind (f x a) (fold_option f xs)" for f x xs and a :: header
    using fold_option_append [of f "[x]" xs a] by simp
  show ?thesis
    unfolding header_members_def append_Cons append_Nil c h(1,2)
    using h assms(2) set_header_str(1) [OF s] set_header_others(2) [OF v]
    by (simp add: set_header_str set_header_others(1) empty_header_def)
qed

lemma int_member_ok:
  assumes "\<forall>c \<in> set k. byte c < 128" "in64 i" shows "member_ok (k, show_int i)"
  using member_ok_omit(3) [OF assms(1), of i] assms
  by (cases "i = 0") (auto simp: omit_int_def member_ok_def ascii_valid_utf8 raw_value_def show_int_literal(1)
      max_nesting_depth_def intro!: exI [of _ "JNum (show_int i)"])

lemma header_members_ok:
  assumes "header_ok fmt_time h" "set ts \<subseteq> set ''0123456789-:TZ.+''"
  shows "\<forall>m \<in> set (header_members ts h). member_ok m"
proof -
  have t: "member_ok (''timestamp'', quoted ts)"
    using quoted_plain [OF assms(2)] ascii_valid_utf8 [of "''timestamp''"]
    unfolding member_ok_def fst_conv snd_conv
    by (intro conjI exI [of _ "JStr ts"]) (simp_all add: max_nesting_depth_def)
  note h = header_okD [OF assms(1)]
  have s: "valid_utf8 ''session''" by (intro ascii_valid_utf8) simp
  have v: "member_ok (''version'', show_int 1)" by (rule int_member_ok) (simp_all add: in64_def)
  have "list_all member_ok (header_members ts h)"
    unfolding header_members_def list_all_append list.pred_inject h(1,2)
    using h s by (intro conjI t v member_ok_omit member_ok_string TrueI) simp_all
  then show ?thesis by (simp add: list_all_iff)
qed

lemma header_roundtrip:
  assumes "time_codec fmt_time parse_time" "header_ok fmt_time h"
  shows "\<exists>line. marshal_header fmt_time h = Some line \<and> unmarshal_header parse_time line = Some h \<and>
    NL \<notin> set line \<and> line \<noteq> []"
proof -
  from assms(2) obtain ts where ts: "fmt_time (hd_timestamp h) = Some ts" by (auto simp: header_ok_def)
  with assms(1) have p: "parse_time ts = Some (hd_timestamp h)" and c: "set ts \<subseteq> set ''0123456789-:TZ.+''"
    unfolding time_codec_def by blast+
  from members_json [OF header_members_ok [OF assms(2) c]] obtain kvs where
    k: "list_all2 (\<lambda>m kv. fst m = fst kv \<and> raw_value (snd m) (snd kv)) (header_members ts h) kvs"
      "\<forall>kv \<in> set kvs. valid_utf8 (fst kv) \<and> json_depth (snd kv) < max_nesting_depth" by blast
  have "list_all (\<lambda>kv. json_wf (snd kv)) kvs"
    using k(1) by (induction rule: list_all2_induct) (auto simp: raw_value_def)
  then have wf: "json_wf (JObj kvs)" using k(2) by (simp add: list_all_iff)
  let ?line = "print_members (header_members ts h)"
  have "?line = print_json (JObj kvs)" by (rule print_members_json [OF k(1)])
  with print_json_no_newline [OF wf] have "NL \<notin> set ?line" by simp
  moreover have "?line \<noteq> []" by (simp add: print_members_def)
  moreover have "unmarshal_header parse_time ?line = Some h"
    using raw_object_print_members(1) [OF k] fold_header_members [OF assms(2), of parse_time ts] p
    by (simp add: unmarshal_header_def)
  ultimately show ?thesis by (simp add: marshal_header_def ts)
qed

section \<open>The invariant of a journal file\<close>

definition entry_line ::
  "(message \<Rightarrow> string option) \<Rightarrow> (time_ns \<Rightarrow> string option) \<Rightarrow> entry \<Rightarrow> string" where
  "entry_line enc_msg fmt_time e =
     (case MarshalEntry enc_msg fmt_time (EntryValue e) of Inr l \<Rightarrow> l | Inl _ \<Rightarrow> [])"

definition header_line :: "(time_ns \<Rightarrow> string option) \<Rightarrow> header \<Rightarrow> string" where
  "header_line fmt_time h = (case marshal_header fmt_time h of Some l \<Rightarrow> l | None \<Rightarrow> [])"

definition journal_text ::
  "(message \<Rightarrow> string option) \<Rightarrow> (time_ns \<Rightarrow> string option) \<Rightarrow> header \<Rightarrow> entry list \<Rightarrow> string" where
  "journal_text enc_msg fmt_time h es =
     lines_text (header_line fmt_time h # map (entry_line enc_msg fmt_time) es)"

fun chained :: "string \<Rightarrow> entry list \<Rightarrow> bool" where
  "chained prev [] \<longleftrightarrow> True"
| "chained prev (e # es) \<longleftrightarrow> me_parent_id (entry_meta e) = prev \<and> chained (me_id (entry_meta e)) es"

definition last_entry_id :: "entry list \<Rightarrow> string" where
  "last_entry_id es = (if es = [] then [] else me_id (entry_meta (last es)))"

record codecs =
  co_enc :: "message \<Rightarrow> string option"
  co_dec :: "string \<Rightarrow> string + message"
  co_fmt :: "time_ns \<Rightarrow> string option"
  co_parse :: "string \<Rightarrow> time_ns option"

definition co_decode :: "codecs \<Rightarrow> string \<Rightarrow> decode_error + entry" where
  "co_decode co = decodeEntry (co_dec co) (co_parse co)"

definition journal_inv :: "codecs \<Rightarrow> header \<Rightarrow> entry list \<Rightarrow> file_system \<times> store \<Rightarrow> bool" where
  "journal_inv co h es fst_st \<longleftrightarrow>
     (let (fs, st) = fst_st in
      header_ok (co_fmt co) h \<and> st_open st \<and> st_id st = hd_id h \<and>
      (\<forall>e \<in> set es. entry_ok (co_enc co) (co_dec co) (co_fmt co) e) \<and> chained [] es \<and>
      st_last_id st = last_entry_id es \<and>
      fs (st_path st) = Some (journal_text (co_enc co) (co_fmt co) h es))"

definition replayed :: "header \<Rightarrow> entry list \<Rightarrow> loaded" where
  "replayed h es = loaded_of h (fold apply_entry es empty_replay)"

lemma chained_snoc: "chained prev (es @ [e]) \<longleftrightarrow> chained prev es \<and>
    me_parent_id (entry_meta e) = (if es = [] then prev else me_id (entry_meta (last es)))"
  by (induction es arbitrary: prev) auto

lemma entry_meta_with_meta [simp]: "entry_meta (with_meta m e) = m"
  by (cases e) (simp_all add: with_meta_def)

lemma entry_line_facts:
  assumes "time_codec (co_fmt co) (co_parse co)" "entry_ok (co_enc co) (co_dec co) (co_fmt co) e"
  shows "MarshalEntry (co_enc co) (co_fmt co) (EntryValue e) = Inr (entry_line (co_enc co) (co_fmt co) e)"
    "NL \<notin> set (entry_line (co_enc co) (co_fmt co) e)" "entry_line (co_enc co) (co_fmt co) e \<noteq> []"
    "co_decode co (entry_line (co_enc co) (co_fmt co) e) = Inr e"
    "\<And>p x. entry_line (co_enc co) (co_fmt co) e = p @ x \<Longrightarrow> x \<noteq> [] \<Longrightarrow> co_decode co p = Inl BadJson"
proof -
  from entry_roundtrip_lines [OF assms] obtain line where
    l: "MarshalEntry (co_enc co) (co_fmt co) (EntryValue e) = Inr line" "NL \<notin> set line" "line \<noteq> []"
      "decodeEntry (co_dec co) (co_parse co) line = Inr e"
      "\<forall>p x. line = p @ x \<longrightarrow> x \<noteq> [] \<longrightarrow> decodeEntry (co_dec co) (co_parse co) p = Inl BadJson" by blast
  from l(1) have "entry_line (co_enc co) (co_fmt co) e = line" by (simp add: entry_line_def)
  with l show "MarshalEntry (co_enc co) (co_fmt co) (EntryValue e) = Inr (entry_line (co_enc co) (co_fmt co) e)"
    "NL \<notin> set (entry_line (co_enc co) (co_fmt co) e)" "entry_line (co_enc co) (co_fmt co) e \<noteq> []"
    "co_decode co (entry_line (co_enc co) (co_fmt co) e) = Inr e"
    "\<And>p x. entry_line (co_enc co) (co_fmt co) e = p @ x \<Longrightarrow> x \<noteq> [] \<Longrightarrow> co_decode co p = Inl BadJson"
    by (simp_all add: co_decode_def)
qed

lemma header_line_facts:
  assumes "time_codec (co_fmt co) (co_parse co)" "header_ok (co_fmt co) h"
  shows "unmarshal_header (co_parse co) (header_line (co_fmt co) h) = Some h"
    "NL \<notin> set (header_line (co_fmt co) h)" "header_line (co_fmt co) h \<noteq> []"
  using header_roundtrip [OF assms] by (auto simp: header_line_def)

lemma replay_lines_ok:
  assumes "\<And>e. e \<in> set es \<Longrightarrow> dec (line e) = Inr e" "\<And>k. \<not> c k"
  shows "replay_lines dec c i (map line es @ ls) rs = replay_lines dec c (i + length es) ls (fold apply_entry es rs)"
  using assms by (induction es arbitrary: i rs) auto

lemma Load_journal_text:
  assumes co: "time_codec (co_fmt co) (co_parse co)" and h: "header_ok (co_fmt co) h"
    and es: "\<forall>e \<in> set es. entry_ok (co_enc co) (co_dec co) (co_fmt co) e"
    and p: "NL \<notin> set p" "p = [] \<or> co_decode co p = Inl BadJson"
    and c: "\<not> c_read" "\<And>k. \<not> c k"
  shows "Load (co_decode co) (co_parse co) c_read c
    (Some (journal_text (co_enc co) (co_fmt co) h es @ p)) = Inr (replayed h es)"
proof -
  let ?line = "entry_line (co_enc co) (co_fmt co)"
  note hl = header_line_facts [OF co h]
  note el = entry_line_facts [OF co]
  have "\<forall>l \<in> set (header_line (co_fmt co) h # map ?line es). NL \<notin> set l" using hl(2) el(2) es by auto
  from split_lines_text [OF this p(1)]
  have s: "split_on NL (journal_text (co_enc co) (co_fmt co) h es @ p) =
      header_line (co_fmt co) h # map ?line es @ [p]" by (simp add: journal_text_def)
  have r: "replay_lines (co_decode co) c 1 (map ?line es @ ls) empty_replay =
      replay_lines (co_decode co) c (Suc (length es)) ls (fold apply_entry es empty_replay)" for ls
    using replay_lines_ok [of es "co_decode co" ?line c 1 ls empty_replay] el(4) es c(2) by simp
  have v: "validateHeader h = None" using h by (simp add: header_ok_def)
  have body: "(if (map ?line es @ [p]) \<noteq> [] \<and> last (map ?line es @ [p]) = [] then butlast (map ?line es @ [p])
      else map ?line es @ [p]) = (if p = [] then map ?line es else map ?line es @ [p])" by simp
  have "replay_lines (co_decode co) c 1 (if p = [] then map ?line es else map ?line es @ [p]) empty_replay =
      Inr (fold apply_entry es empty_replay)"
    using r [of "[]"] r [of "[p]"] p(2) c(2) by (cases "p = []") auto
  with s body hl v c show ?thesis
    by (cases "p = []") (simp_all add: Load_def Let_def replayed_def)
qed

lemma trim_torn:
  assumes "ls \<noteq> []" "NL \<notin> set p" "p \<noteq> []" "dec p = Inl BadJson"
  shows "trimMalformedFinalLine dec (lines_text ls @ p) = lines_text ls"
proof -
  obtain a where a: "lines_text ls = a @ [NL]"
    using lines_text_last [OF assms(1)] assms(1) by (metis append_butlast_last_id lines_text_simps(2) list.exhaust
      append_is_Nil_conv list.distinct(1))
  have "last p \<noteq> NL" using assms(2,3) by (metis last_in_set)
  then have b: "last (lines_text ls @ p) \<noteq> NL" using assms(3) by simp
  have "takeWhile (\<lambda>c. c \<noteq> NL) (rev (lines_text ls @ p)) = rev p"
    using assms(2) by (simp add: a takeWhile_rev_line)
  with assms b show ?thesis by (simp add: trimMalformedFinalLine_def Let_def)
qed

lemma trim_complete:
  assumes "lines_text (ls @ [l]) = contents" "NL \<notin> set l" "\<forall>a. dec l \<noteq> Inl a \<or> (\<exists>t i. a = UnknownEntry t i)"
  shows "trimMalformedFinalLine dec contents = contents"
proof -
  have c: "contents = (lines_text ls @ l) @ [NL]" using assms(1) by simp
  have ls: "ls = [] \<or> (\<exists>a. lines_text ls = a @ [NL])"
    using lines_text_last [of ls] by (metis append_butlast_last_id lines_text_simps(2) list.exhaust
      append_is_Nil_conv list.distinct(1))
  then have "takeWhile (\<lambda>c. c \<noteq> NL) (rev (lines_text ls @ l)) = rev l"
    using assms(2) by (auto simp: takeWhile_rev_line takeWhile_rev_all)
  then have d: "drop (length (lines_text ls @ l) - length (takeWhile (\<lambda>c. c \<noteq> NL) (rev (lines_text ls @ l))))
      (lines_text ls @ l) = l" by simp
  define body where "body = lines_text ls @ l"
  have b: "contents \<noteq> []" "last contents = NL" "butlast contents = body"
    by (simp_all add: c body_def butlast_append)
  have "drop (length body - length (takeWhile (\<lambda>c. c \<noteq> NL) (rev body))) body = l"
    using d by (simp only: body_def)
  then show ?thesis using assms(3) b
    by (cases "dec l") (auto simp: trimMalformedFinalLine_def Let_def split: decode_error.split)
qed

section \<open>Appending, crashing and resuming\<close>

definition appended :: "store \<Rightarrow> string \<Rightarrow> time_ns \<Rightarrow> entry \<Rightarrow> entry" where
  "appended st newid now e = with_meta \<lparr>me_id = newid, me_parent_id = st_last_id st, me_timestamp = now\<rparr> e"

lemma append_entry_ok:
  assumes co: "time_codec (co_fmt co) (co_parse co)" and inv: "journal_inv co h es (fs, st)"
    and e: "entry_ok (co_enc co) (co_dec co) (co_fmt co) (appended st newid now e)"
  shows "append_entry (co_enc co) (co_fmt co) False newid now out e (fs, st) =
    (case out of
       WroteAll \<Rightarrow> ((fs(st_path st \<mapsto> journal_text (co_enc co) (co_fmt co) h (es @ [appended st newid now e])),
                    st\<lparr>st_last_id := newid\<rparr>), None)
     | WroteSome n \<Rightarrow>
         ((fs(st_path st \<mapsto> journal_text (co_enc co) (co_fmt co) h es @
            take n (entry_line (co_enc co) (co_fmt co) (appended st newid now e) @ [NL])), st), Some WriteError))"
  using inv entry_line_facts(1) [OF co e]
  by (simp add: append_entry_def journal_inv_def Let_def appended_def writeLine_def journal_text_def
      split: write_outcome.split)

text \<open>C21: A journal keeps its invariant: the file is the header line and one line per entry, each
  entry names its predecessor as parent, and the store's last identifier is that of the last
  entry.  Appending a record with a complete write extends the entries by that record, and
  loading the file then gives exactly the header and the replay of all the entries.\<close>

theorem append_extends_journal:
  assumes "time_codec (co_fmt co) (co_parse co)" "journal_inv co h es (fs, st)"
    and "entry_ok (co_enc co) (co_dec co) (co_fmt co) (appended st newid now e)"
    and "\<And>k. \<not> c k"
  shows "\<exists>fs' st'. append_entry (co_enc co) (co_fmt co) False newid now WroteAll e (fs, st) = ((fs', st'), None) \<and>
    journal_inv co h (es @ [appended st newid now e]) (fs', st') \<and>
    Load (co_decode co) (co_parse co) False c (fs' (st_path st')) =
      Inr (replayed h (es @ [appended st newid now e]))"
proof -
  let ?e = "appended st newid now e"
  let ?fs = "fs(st_path st \<mapsto> journal_text (co_enc co) (co_fmt co) h (es @ [?e]))"
  let ?st = "st\<lparr>st_last_id := newid\<rparr>"
  have inv: "journal_inv co h (es @ [?e]) (?fs, ?st)"
    using assms(2,3) by (auto simp: journal_inv_def Let_def chained_snoc last_entry_id_def appended_def)
  have "Load (co_decode co) (co_parse co) False c (Some (journal_text (co_enc co) (co_fmt co) h (es @ [?e]) @ [])) =
      Inr (replayed h (es @ [?e]))"
    using inv assms(4) by (intro Load_journal_text [OF assms(1)]) (auto simp: journal_inv_def Let_def)
  with append_entry_ok [OF assms(1-3), of WroteAll] inv show ?thesis by auto
qed

lemma replayed_last_id: "es \<noteq> [] \<Longrightarrow> ld_last_id (replayed h es) = me_id (entry_meta (last es))"
proof (induction es rule: rev_induct)
  case (snoc e es)
  then show ?case by (cases e) (simp_all add: replayed_def loaded_of_def apply_entry_def Let_def)
qed simp

lemma replayed_simps [simp]: "ld_header (replayed h es) = h" "ld_last_id (replayed h []) = []"
  by (simp_all add: replayed_def loaded_of_def empty_replay_def)

lemma last_line:
  "\<exists>ls l. journal_text enc fmt h es = lines_text (ls @ [l]) \<and>
     (l = header_line fmt h \<or> (\<exists>e \<in> set es. l = entry_line enc fmt e))"
proof (cases es rule: rev_exhaust)
  case Nil
  then show ?thesis by (intro exI [of _ "[]"] exI [of _ "header_line fmt h"]) (simp add: journal_text_def)
next
  case (snoc es' e)
  then show ?thesis
    by (intro exI [of _ "header_line fmt h # map (entry_line enc fmt) es'"] exI [of _ "entry_line enc fmt e"])
      (simp add: journal_text_def)
qed

text \<open>C16: A torn write is recovered.  When the write of a record fails after some, but not all, of
  the bytes of its line, the append reports the error and the store keeps its last identifier;
  resuming from the file then returns the replay of the entries before it, cuts the file back
  to them, and the new store continues the chain: the journal's invariant holds again.\<close>

theorem torn_write_recovered:
  assumes co: "time_codec (co_fmt co) (co_parse co)" and inv: "journal_inv co h es (fs, st)"
    and e: "entry_ok (co_enc co) (co_dec co) (co_fmt co) (appended st newid now e)"
    and n: "0 < n" "n < length (entry_line (co_enc co) (co_fmt co) (appended st newid now e))"
    and c: "\<And>k. \<not> c k"
  shows "\<exists>fs'. append_entry (co_enc co) (co_fmt co) False newid now (WroteSome n) e (fs, st) =
      ((fs', st), Some WriteError) \<and>
    (\<exists>fs'' st''. OpenForResume (co_decode co) (co_parse co) False False c False True True (st_path st) fs' =
       (fs'', Inr (st'', replayed h es)) \<and> journal_inv co h es (fs'', st''))"
proof -
  let ?line = "entry_line (co_enc co) (co_fmt co) (appended st newid now e)"
  let ?text = "journal_text (co_enc co) (co_fmt co) h es"
  let ?fs = "fs(st_path st \<mapsto> ?text @ take n ?line)"
  note el = entry_line_facts [OF co e]
  have p: "co_decode co (take n ?line) = Inl BadJson"
    using el(5) [of "take n ?line" "drop n ?line"] n by simp
  have nl: "NL \<notin> set (take n ?line)" using el(2) by (meson in_set_takeD)
  have ne: "take n ?line \<noteq> []" using n by auto
  have app: "append_entry (co_enc co) (co_fmt co) False newid now (WroteSome n) e (fs, st) =
      ((?fs, st), Some WriteError)"
    using append_entry_ok [OF co inv e, of "WroteSome n"] n(2) by simp
  note i = inv [unfolded journal_inv_def Let_def prod.case]
  have ld: "Load (co_decode co) (co_parse co) False c (Some (?text @ take n ?line)) = Inr (replayed h es)"
    using i p nl c by (intro Load_journal_text [OF co]) auto
  have tr: "trimMalformedFinalLine (co_decode co) (?text @ take n ?line) = ?text"
    unfolding journal_text_def by (rule trim_torn) (use nl ne p in auto)
  let ?st = "\<lparr>st_path = st_path st, st_id = hd_id h, st_open = True, st_last_id = ld_last_id (replayed h es)\<rparr>"
  have res: "OpenForResume (co_decode co) (co_parse co) False False c False True True (st_path st) ?fs =
      (?fs(st_path st \<mapsto> ?text), Inr (?st, replayed h es))"
    using ld tr by (simp add: OpenForResume_def Let_def)
  have "ld_last_id (replayed h es) = last_entry_id es"
    using replayed_last_id [of es h] by (cases "es = []") (simp_all add: last_entry_id_def)
  then have "journal_inv co h es (?fs(st_path st \<mapsto> ?text), ?st)"
    using i by (simp add: journal_inv_def)
  with app res show ?thesis by blast
qed

section \<open>A concrete journal\<close>

definition demo_codecs :: codecs where
  "demo_codecs = \<lparr>co_enc = demo_enc, co_dec = demo_dec, co_fmt = demo_fmt, co_parse = demo_parse\<rparr>"

definition demo_header :: header where
  "demo_header = \<lparr>hd_type = ''session'', hd_version = 1, hd_id = ''0123456789abcdef'', hd_timestamp = 0,
     hd_cwd = ''/w'', hd_title = []\<rparr>"

definition demo_store :: store where
  "demo_store = \<lparr>st_path = ''j'', st_id = ''0123456789abcdef'', st_open = True, st_last_id = []\<rparr>"

definition demo_fs :: file_system where
  "demo_fs = [''j'' \<mapsto> journal_text demo_enc demo_fmt demo_header []]"

lemma demo_codecs_ok: "time_codec (co_fmt demo_codecs) (co_parse demo_codecs)"
  by (simp add: demo_codecs_def demo_time_codec)

lemma demo_journal_inv: "journal_inv demo_codecs demo_header [] (demo_fs, demo_store)"
proof -
  have "validateHeader demo_header = None" by code_simp
  then show ?thesis
    by (simp add: journal_inv_def Let_def header_ok_def demo_codecs_def demo_store_def demo_fs_def
        last_entry_id_def ascii_valid_utf8)
      (simp add: demo_header_def ascii_valid_utf8 demo_fmt_def)
qed

lemma demo_appended_ok:
  "entry_ok (co_enc demo_codecs) (co_dec demo_codecs) (co_fmt demo_codecs)
     (appended demo_store ''e1'' 0 (demo_entry [] [] ''hi''))"
proof -
  have "appended demo_store ''e1'' 0 (demo_entry [] [] ''hi'') = demo_entry ''e1'' [] ''hi''"
    by (simp add: appended_def demo_entry_def with_meta_def demo_store_def)
  then show ?thesis
    using demo_entry_ok [of "''e1''" "[]" "''hi''"] by (simp add: demo_codecs_def ascii_valid_utf8)
qed

theorem append_extends_journal_witness:
  "\<exists>fs' st'. append_entry (co_enc demo_codecs) (co_fmt demo_codecs) False ''e1'' 0 WroteAll
      (demo_entry [] [] ''hi'') (demo_fs, demo_store) = ((fs', st'), None) \<and>
    Load (co_decode demo_codecs) (co_parse demo_codecs) False (\<lambda>_. False) (fs' (st_path st')) =
      Inr (replayed demo_header [appended demo_store ''e1'' 0 (demo_entry [] [] ''hi'')])"
  using append_extends_journal [OF demo_codecs_ok demo_journal_inv demo_appended_ok, of "\<lambda>_. False"] by auto

lemma demo_line_long:
  "2 < length (entry_line (co_enc demo_codecs) (co_fmt demo_codecs)
     (appended demo_store ''e1'' 0 (demo_entry [] [] ''hi'')))"
  by code_simp

theorem torn_write_recovered_witness:
  "\<exists>fs'. append_entry (co_enc demo_codecs) (co_fmt demo_codecs) False ''e1'' 0 (WroteSome 2)
      (demo_entry [] [] ''hi'') (demo_fs, demo_store) = ((fs', demo_store), Some WriteError) \<and>
    (\<exists>fs'' st''. OpenForResume (co_decode demo_codecs) (co_parse demo_codecs) False False (\<lambda>_. False) False
       True True ''j'' fs' = (fs'', Inr (st'', replayed demo_header [])))"
  using torn_write_recovered [OF demo_codecs_ok demo_journal_inv demo_appended_ok _ demo_line_long, of "\<lambda>_. False"]
  by (auto simp: demo_store_def)

section \<open>Failed writes that are not recovered\<close>

text \<open>
  When only the newline of a line is lost, loading accepts the line and \<open>trimMalformedFinalLine\<close>
  leaves it without its newline, so the next record is written onto the same line: after it
  neither of the two records can be loaded.
\<close>

lemma two_lines_bad:
  assumes "time_codec (co_fmt co) (co_parse co)" "entry_ok (co_enc co) (co_dec co) (co_fmt co) e"
    and "entry_ok (co_enc co) (co_dec co) (co_fmt co) e2"
  shows "co_decode co (entry_line (co_enc co) (co_fmt co) e @ entry_line (co_enc co) (co_fmt co) e2) = Inl BadJson"
proof -
  let ?l1 = "entry_line (co_enc co) (co_fmt co) e" and ?l2 = "entry_line (co_enc co) (co_fmt co) e2"
  obtain kvs where p1: "parse_json ?l1 = Some (JObj kvs)"
    using entry_roundtrip_lines [OF assms(1,2)] by (auto simp: entry_line_def)
  obtain kvs2 where p2: "parse_json ?l2 = Some (JObj kvs2)"
    using entry_roundtrip_lines [OF assms(1,3)] by (auto simp: entry_line_def)
  have "skip_ws ?l2 \<noteq> []"
  proof
    assume "skip_ws ?l2 = []"
    with p2 show False by (simp add: parse_json_def)
  qed
  then have "parse_json (?l1 @ ?l2) = None"
    using parse_json_prefix [of ?l1 ?l2 _ "JObj kvs", OF _ _ p1]
    by (cases "parse_json (?l1 @ ?l2)") (auto simp: is_num_def)
  then show ?thesis by (simp add: co_decode_def decodeEntry_def unmarshal_wire_def raw_object_def)
qed

lemma lost_newline_loses_two:
  assumes co: "time_codec (co_fmt co) (co_parse co)" and h: "header_ok (co_fmt co) h"
    and es: "\<forall>e \<in> set (es @ [e, e2]). entry_ok (co_enc co) (co_dec co) (co_fmt co) e"
  shows "let line = entry_line (co_enc co) (co_fmt co); text = journal_text (co_enc co) (co_fmt co) h es in
    trimMalformedFinalLine (co_decode co) (text @ line e) = text @ line e \<and>
    Load (co_decode co) (co_parse co) False (\<lambda>_. False) (Some (text @ line e @ line e2 @ [NL])) = Inr (replayed h es)"
proof -
  let ?line = "entry_line (co_enc co) (co_fmt co)"
  let ?text = "journal_text (co_enc co) (co_fmt co) h es"
  from es have e: "entry_ok (co_enc co) (co_dec co) (co_fmt co) e"
    "entry_ok (co_enc co) (co_dec co) (co_fmt co) e2" by auto
  note f1 = entry_line_facts [OF co e(1)] and f2 = entry_line_facts [OF co e(2)]
  define ls where "ls = header_line (co_fmt co) h # map ?line es"
  have ls: "?text = lines_text ls" "ls \<noteq> []" by (simp_all add: journal_text_def ls_def)
  then obtain a where a: "?text = a @ [NL]"
    using lines_text_last [OF ls(2)]
    by (metis append_butlast_last_id append_is_Nil_conv lines_text_simps(2) list.distinct(1) list.exhaust)
  have tk: "takeWhile (\<lambda>c. c \<noteq> NL) (rev (?text @ ?line e)) = rev (?line e)"
    using f1(2) by (simp add: a takeWhile_rev_line)
  have "last (?text @ ?line e) \<noteq> NL" using f1(2,3) by (metis last_appendR last_in_set)
  then have t: "trimMalformedFinalLine (co_decode co) (?text @ ?line e) = ?text @ ?line e"
    using tk f1(3,4) by (simp add: trimMalformedFinalLine_def Let_def)
  let ?p = "?line e @ ?line e2"
  have bad: "co_decode co ?p = Inl BadJson" by (rule two_lines_bad [OF co e])
  have hl: "NL \<notin> set (header_line (co_fmt co) h)" using header_line_facts(2) [OF co h] .
  have nl: "\<forall>l \<in> set (header_line (co_fmt co) h # map ?line es @ [?p]). NL \<notin> set l"
    using hl f1(2) f2(2) entry_line_facts(2) [OF co] es by auto
  have s: "split_on NL (?text @ ?p @ [NL]) = header_line (co_fmt co) h # map ?line es @ [?p, []]"
    using split_lines_text [OF nl, of "[]"] by (simp add: journal_text_def)
  have "replay_lines (co_decode co) (\<lambda>_. False) 1 (map ?line es @ [?p]) empty_replay =
      Inr (fold apply_entry es empty_replay)"
    using replay_lines_ok [of es "co_decode co" ?line "\<lambda>_. False" 1 "[?p]" empty_replay]
      entry_line_facts(4) [OF co] es bad by simp
  moreover have "validateHeader h = None" using h by (simp add: header_ok_def)
  ultimately have "Load (co_decode co) (co_parse co) False (\<lambda>_. False) (Some (?text @ ?p @ [NL])) = Inr (replayed h es)"
    using s header_line_facts [OF co h]
    by (simp add: Load_def Let_def replayed_def butlast_append)
  with t show ?thesis by simp
qed

section \<open>The most recent journal\<close>

lemma bytes_less_total: "bytes_less a b \<or> a = b \<or> bytes_less b a"
proof (induction a b rule: bytes_less.induct)
  case (3 c a d b)
  have "byte c < (byte d :: nat) \<or> byte d < (byte c :: nat) \<or> c = d"
    using of_char_eq_iff [where 'a = nat, of c d] by (auto simp del: of_char_eq_iff)
  with 3 show ?case by auto
next
  case (1 a)
  then show ?case by (cases a) auto
qed simp_all

lemma bytes_less_trans: "bytes_less a b \<Longrightarrow> bytes_less b c \<Longrightarrow> bytes_less a c"
proof (induction a b arbitrary: c rule: bytes_less.induct)
  case (3 x a y b)
  then show ?case by (cases c) auto
next
  case (2 d b)
  then show ?case by (cases c) auto
qed simp

lemma bytes_less_irrefl: "\<not> bytes_less a a"
  by (induction a) auto

lemma newer_trans:
  "newer c (Some b) \<Longrightarrow> newer x (Some c) \<Longrightarrow> newer x (Some b)"
  using bytes_less_trans by (auto simp: newer_def split: prod.splits)

lemma bytes_less_asym: "bytes_less a b \<Longrightarrow> \<not> bytes_less b a"
  using bytes_less_trans [of a b a] bytes_less_irrefl by blast

lemma newer_total: "newer c (Some b) \<or> c = b \<or> newer b (Some c)"
  using bytes_less_total [of "fst c" "fst b"] by (auto simp: newer_def split: prod.splits)

definition candidate ::
  "(string \<Rightarrow> time_ns option) \<Rightarrow> (string \<Rightarrow> string) \<Rightarrow> string \<Rightarrow> dir_entry \<Rightarrow> (string \<times> int) option" where
  "candidate pt path_of cwd d =
     (if de_is_dir d \<or> \<not> suffix ''.jsonl'' (de_name d) then None
      else case loadHeader pt False (de_contents d) of
        Inl _ \<Rightarrow> None
      | Inr h \<Rightarrow> if hd_cwd h \<noteq> cwd then None else map_option (Pair (path_of (de_name d))) (de_mod_time d))"

definition no_cancel :: ctx_checks where
  "no_cancel = \<lparr>cx_before = (\<lambda>_. False), cx_load = (\<lambda>_. False), cx_after = (\<lambda>_. False)\<rparr>"

definition newest :: "(string \<times> int) list \<Rightarrow> (string \<times> int) option \<Rightarrow> (string \<times> int) option" where
  "newest cs best = fold (\<lambda>c b. if newer c b then Some c else b) cs best"

lemma recent_loop_newest:
  "(case newest (List.map_filter (candidate pt path_of cwd) ds) best of
      Some (path, t) \<Rightarrow> recent_loop pt path_of no_cancel cwd i ds best corrupt = Inr path
    | None \<Rightarrow> \<exists>err. recent_loop pt path_of no_cancel cwd i ds best corrupt = Inl err)"
proof (induction ds arbitrary: i best corrupt)
  case Nil
  then show ?case by (auto simp: newest_def map_filter_def split: option.splits)
next
  case (Cons d ds)
  have m: "List.map_filter (candidate pt path_of cwd) (d # ds) =
      (case candidate pt path_of cwd d of None \<Rightarrow> [] | Some c \<Rightarrow> [c]) @ List.map_filter (candidate pt path_of cwd) ds"
    by (simp add: map_filter_def split: option.split)
  let ?best = "case candidate pt path_of cwd d of None \<Rightarrow> best | Some c \<Rightarrow> if newer c best then Some c else best"
  have "\<exists>corrupt'. recent_loop pt path_of no_cancel cwd i (d # ds) best corrupt =
      recent_loop pt path_of no_cancel cwd (Suc i) ds ?best corrupt'"
    by (auto simp: candidate_def no_cancel_def split: sum.split option.split)
  then obtain corrupt' where step: "recent_loop pt path_of no_cancel cwd i (d # ds) best corrupt =
      recent_loop pt path_of no_cancel cwd (Suc i) ds ?best corrupt'" by blast
  have "newest (List.map_filter (candidate pt path_of cwd) (d # ds)) best =
      newest (List.map_filter (candidate pt path_of cwd) ds) ?best"
    by (simp add: m newest_def split: option.split)
  with Cons.IH [of "Suc i" ?best corrupt'] step show ?case by (simp only:)
qed

lemma newest_max:
  "newest cs (Some b) = Some m \<Longrightarrow> (m = b \<or> m \<in> set cs) \<and> \<not> newer b (Some m) \<and> (\<forall>c \<in> set cs. \<not> newer c (Some m))"
proof (induction cs arbitrary: b)
  case Nil
  then show ?case using bytes_less_irrefl by (auto simp: newest_def newer_def)
next
  case (Cons c cs)
  show ?case
  proof (cases "newer c (Some b)")
    case True
    with Cons.prems have "newest cs (Some c) = Some m" by (simp add: newest_def)
    from Cons.IH [OF this] have
      m: "m = c \<or> m \<in> set cs" "\<not> newer c (Some m)" "\<forall>c \<in> set cs. \<not> newer c (Some m)" by auto
    have "\<not> newer b (Some m)" using newer_trans [of b m c] True m(2) by blast
    with m show ?thesis by auto
  next
    case False
    with Cons.prems have "newest cs (Some b) = Some m" by (simp add: newest_def)
    from Cons.IH [OF this] False have
      m: "m = b \<or> m \<in> set cs" "\<not> newer b (Some m)" "\<forall>c \<in> set cs. \<not> newer c (Some m)" by auto
    have "\<not> newer c (Some m)"
    proof
      assume n: "newer c (Some m)"
      from newer_total [of m b] m(2) have "m = b \<or> newer m (Some b)" by auto
      with n False newer_trans show False by blast
    qed
    with m show ?thesis by auto
  qed
qed

lemma newest_None: "newest cs None = (case cs of [] \<Rightarrow> None | c # cs' \<Rightarrow> newest cs' (Some c))"
  by (cases cs) (simp_all add: newest_def newer_def)

lemma newest_Some: "newest cs (Some b) \<noteq> None"
  by (induction cs arbitrary: b) (simp_all add: newest_def)

text \<open>Without cancellation, \<open>Recent\<close> returns a path exactly when some regular \<open>.jsonl\<close> file of
  the directory has a readable, valid header of this workspace and a modification time; the
  path is that of such a journal, and none of the others is more recent (a later modification
  time, or the same one and a later path).  A corrupt or unreadable neighbour never hides a
  usable journal.\<close>

lemma Recent_newest:
  "let cs = List.map_filter (candidate pt path_of cwd) ds in
   (case Recent pt path_of False no_cancel cwd (DirEntries ds) of
      Inr path \<Rightarrow> \<exists>t. (path, t) \<in> set cs \<and> \<not> list_ex (\<lambda>c. newer c (Some (path, t))) cs
    | Inl err \<Rightarrow> cs = [])"
proof -
  define cs where "cs = List.map_filter (candidate pt path_of cwd) ds"
  note r = recent_loop_newest [where pt = pt and path_of = path_of and cwd = cwd and ds = ds and best = None
      and i = 0 and corrupt = None, folded cs_def]
  show ?thesis
  proof (cases cs)
    case Nil
    with r show ?thesis by (auto simp: cs_def [symmetric] Recent_def newest_def Let_def)
  next
    case (Cons c cs')
    then obtain m where m: "newest cs None = Some m" using newest_Some [of cs' c] by (auto simp: newest_None)
    obtain path t where pt: "m = (path, t)" by (cases m)
    from newest_max [of cs' c m] m Cons have "m \<in> set cs" "\<forall>c \<in> set cs. \<not> newer c (Some m)"
      by (auto simp: newest_None)
    with r m pt show ?thesis
      by (auto simp: cs_def [symmetric] Recent_def Let_def list_ex_iff)
  qed
qed

end
