(* ===== verification/Transform_Messages.thy ===== *)
theory Transform_Messages
  imports Msg_Types
begin

text \<open>
  \<open>internal/engine/transform/transform.go\<close>: the rewriting of a transcript for a target model.
  The first pass replaces images a model cannot see, drops or downgrades thinking of another
  model and renames tool-call identifiers; the second drops failed turns and inserts a result
  for every tool call without one.  The clock is the argument \<open>now\<close>, the provider's identifier
  normalisation the optional function \<open>norm\<close>.
\<close>

section \<open>Images\<close>

definition nonVisionUserImagePlaceholder :: string where
  "nonVisionUserImagePlaceholder = ''(image omitted: model does not support images)''"

definition nonVisionToolImagePlaceholder :: string where
  "nonVisionToolImagePlaceholder = ''(tool image omitted: model does not support images)''"

fun replace_images :: "string \<Rightarrow> bool \<Rightarrow> content_block list \<Rightarrow> content_block list" where
  "replace_images ph prev [] = []"
| "replace_images ph prev (b # bs) =
     (if cb_type b = BlockImage
      then (if prev then [] else [NewText ph]) @ replace_images ph True bs
      else b # replace_images ph (cb_text b = ph) bs)"

definition replaceImagesWithPlaceholder :: "content_block list \<Rightarrow> string \<Rightarrow> content_block list" where
  "replaceImagesWithPlaceholder content ph = replace_images ph False content"

definition downgrade_user :: "user_message \<Rightarrow> user_message" where
  "downgrade_user m =
     (case uc_blocks (um_content m) of
        None \<Rightarrow> m
      | Some bs \<Rightarrow> m\<lparr>um_content := BlockContent (Some (replaceImagesWithPlaceholder bs nonVisionUserImagePlaceholder))\<rparr>)"

definition downgrade_result :: "tool_result_message \<Rightarrow> tool_result_message" where
  "downgrade_result m = m\<lparr>tr_content := replaceImagesWithPlaceholder (tr_content m) nonVisionToolImagePlaceholder\<rparr>"

fun downgrade_message :: "message \<Rightarrow> message" where
  "downgrade_message (UserMessage m) = UserMessage (downgrade_user m)"
| "downgrade_message (PUserMessage (Some m)) = UserMessage (downgrade_user m)"
| "downgrade_message (ToolResultMessage m) = ToolResultMessage (downgrade_result m)"
| "downgrade_message (PToolResultMessage (Some m)) = ToolResultMessage (downgrade_result m)"
| "downgrade_message m = m"

definition downgradeUnsupportedImages :: "message list \<Rightarrow> model \<Rightarrow> message list" where
  "downgradeUnsupportedImages messages model =
     (if SupportsVision model then messages else map downgrade_message messages)"

section \<open>Assistant messages\<close>

type_synonym id_map = "string \<Rightarrow> string option"
type_synonym normaliser = "(string \<Rightarrow> model \<Rightarrow> assistant_message \<Rightarrow> string) option"

definition is_same_model :: "assistant_message \<Rightarrow> model \<Rightarrow> bool" where
  "is_same_model m model \<longleftrightarrow>
     am_provider m = mo_provider model \<and> am_api m = mo_api model \<and> am_model m = mo_id model"

definition transform_thinking :: "bool \<Rightarrow> content_block \<Rightarrow> content_block list" where
  "transform_thinking same b =
     (if cb_redacted b then (if same then [b] else [])
      else if same \<and> cb_thinking_signature b \<noteq> [] then [b]
      else if trim_space (cb_thinking b) = [] then []
      else if same then [b]
      else [NewText (cb_thinking b)])"

definition transform_call ::
  "normaliser \<Rightarrow> model \<Rightarrow> assistant_message \<Rightarrow> content_block \<Rightarrow> id_map \<Rightarrow> content_block \<times> id_map" where
  "transform_call norm model m b ids =
     (let same = is_same_model m model;
          b1 = (if \<not> same \<and> cb_thought_signature b \<noteq> [] then b\<lparr>cb_thought_signature := []\<rparr> else b)
      in case norm of
           Some f \<Rightarrow>
             (if \<not> same \<and> f (cb_id b) model m \<noteq> cb_id b
              then (b1\<lparr>cb_id := f (cb_id b) model m\<rparr>, ids(cb_id b \<mapsto> f (cb_id b) model m))
              else (b1, ids))
         | None \<Rightarrow> (b1, ids))"

fun transform_blocks ::
  "normaliser \<Rightarrow> model \<Rightarrow> assistant_message \<Rightarrow> content_block list \<Rightarrow> id_map \<Rightarrow> content_block list \<times> id_map" where
  "transform_blocks norm model m [] ids = ([], ids)"
| "transform_blocks norm model m (b # bs) ids =
     (let same = is_same_model m model;
          (out, ids1) =
            (case cb_type b of
               BlockThinking \<Rightarrow> (transform_thinking same b, ids)
             | BlockText \<Rightarrow> ([if same then b else NewText (cb_text b)], ids)
             | BlockToolCall \<Rightarrow> apfst (\<lambda>c. [c]) (transform_call norm model m b ids)
             | _ \<Rightarrow> ([b], ids));
          (rest, ids2) = transform_blocks norm model m bs ids1
      in (out @ rest, ids2))"

definition transformAssistantMessage ::
  "assistant_message \<Rightarrow> model \<Rightarrow> normaliser \<Rightarrow> id_map \<Rightarrow> assistant_message \<times> id_map" where
  "transformAssistantMessage m model norm ids =
     (let (content, ids') = transform_blocks norm model m (am_content m) ids in (m\<lparr>am_content := content\<rparr>, ids'))"

definition rename_result :: "id_map \<Rightarrow> tool_result_message \<Rightarrow> tool_result_message" where
  "rename_result ids m =
     (case ids (tr_tool_call_id m) of
        None \<Rightarrow> m | Some i \<Rightarrow> (if i \<noteq> tr_tool_call_id m then m\<lparr>tr_tool_call_id := i\<rparr> else m))"

text \<open>The first pass, the loop over \<open>imageAwareMessages\<close>.\<close>

fun first_pass :: "model \<Rightarrow> normaliser \<Rightarrow> id_map \<Rightarrow> message list \<Rightarrow> message list" where
  "first_pass model norm ids [] = []"
| "first_pass model norm ids (msg # ms) =
     (case msg of
        PUserMessage (Some m) \<Rightarrow> UserMessage m # first_pass model norm ids ms
      | ToolResultMessage m \<Rightarrow> ToolResultMessage (rename_result ids m) # first_pass model norm ids ms
      | PToolResultMessage (Some m) \<Rightarrow> ToolResultMessage (rename_result ids m) # first_pass model norm ids ms
      | AssistantMessage m \<Rightarrow>
          (let (m', ids') = transformAssistantMessage m model norm ids
           in AssistantMessage m' # first_pass model norm ids' ms)
      | PAssistantMessage (Some m) \<Rightarrow>
          (let (m', ids') = transformAssistantMessage m model norm ids
           in AssistantMessage m' # first_pass model norm ids' ms)
      | _ \<Rightarrow> msg # first_pass model norm ids ms)"

section \<open>Results for orphaned calls\<close>

definition synthetic_result :: "time_ms \<Rightarrow> content_block \<Rightarrow> message" where
  "synthetic_result now tc =
     ToolResultMessage \<lparr>tr_tool_call_id = cb_id tc, tr_tool_name = cb_name tc,
       tr_content = [NewText ''No result provided''], tr_details = None, tr_is_error = True,
       tr_timestamp = now\<rparr>"

definition insertSyntheticToolResults ::
  "time_ms \<Rightarrow> content_block list \<Rightarrow> string list \<Rightarrow> message list" where
  "insertSyntheticToolResults now pending seen =
     map (synthetic_result now) (filter (\<lambda>tc. cb_id tc \<notin> set seen) pending)"

definition failed_stop :: "assistant_message \<Rightarrow> bool" where
  "failed_stop m \<longleftrightarrow> am_stop_reason m = StopError \<or> am_stop_reason m = StopAborted"

text \<open>
  The second pass.  Its state is the calls still open and the identifiers answered since;
  \<open>insertSyntheticToolResults\<close> also empties both.
\<close>

fun second_pass :: "time_ms \<Rightarrow> content_block list \<Rightarrow> string list \<Rightarrow> message list \<Rightarrow> message list" where
  "second_pass now pending seen [] = insertSyntheticToolResults now pending seen"
| "second_pass now pending seen (msg # ms) =
     (case msg of
        AssistantMessage m \<Rightarrow>
          insertSyntheticToolResults now pending seen @
          (if failed_stop m then second_pass now [] [] ms
           else AssistantMessage m # second_pass now (tool_calls_of m) [] ms)
      | PAssistantMessage (Some m) \<Rightarrow>
          insertSyntheticToolResults now pending seen @
          (if failed_stop m then second_pass now [] [] ms
           else AssistantMessage m # second_pass now (tool_calls_of m) [] ms)
      | ToolResultMessage m \<Rightarrow> ToolResultMessage m # second_pass now pending (tr_tool_call_id m # seen) ms
      | PToolResultMessage (Some m) \<Rightarrow>
          ToolResultMessage m # second_pass now pending (tr_tool_call_id m # seen) ms
      | UserMessage m \<Rightarrow>
          insertSyntheticToolResults now pending seen @ UserMessage m # second_pass now [] [] ms
      | PUserMessage (Some m) \<Rightarrow>
          insertSyntheticToolResults now pending seen @ UserMessage m # second_pass now [] [] ms
      | PUserMessage None \<Rightarrow>
          insertSyntheticToolResults now pending seen @ msg # second_pass now [] [] ms
      | _ \<Rightarrow> msg # second_pass now pending seen ms)"

definition TransformMessages :: "time_ms \<Rightarrow> message list \<Rightarrow> model \<Rightarrow> normaliser \<Rightarrow> message list" where
  "TransformMessages now messages model norm =
     second_pass now [] [] (first_pass model norm Map.empty (downgradeUnsupportedImages messages model))"

section \<open>Every tool call is answered\<close>

text \<open>
  \<open>answered pend seen ms\<close>: reading the transcript on with the calls \<open>pend\<close> open and \<open>seen\<close>
  answered, every open call is answered by a tool result before the next user or assistant
  message or the end, which is what the providers demand.
\<close>

fun answered :: "string list \<Rightarrow> string list \<Rightarrow> message list \<Rightarrow> bool" where
  "answered pend seen [] \<longleftrightarrow> set pend \<subseteq> set seen"
| "answered pend seen (msg # ms) \<longleftrightarrow>
     (case msg of
        AssistantMessage m \<Rightarrow> set pend \<subseteq> set seen \<and> answered (map cb_id (tool_calls_of m)) [] ms
      | PAssistantMessage (Some m) \<Rightarrow> set pend \<subseteq> set seen \<and> answered (map cb_id (tool_calls_of m)) [] ms
      | ToolResultMessage m \<Rightarrow> answered pend (tr_tool_call_id m # seen) ms
      | PToolResultMessage (Some m) \<Rightarrow> answered pend (tr_tool_call_id m # seen) ms
      | UserMessage m \<Rightarrow> set pend \<subseteq> set seen \<and> answered [] [] ms
      | PUserMessage m \<Rightarrow> set pend \<subseteq> set seen \<and> answered [] [] ms
      | _ \<Rightarrow> answered pend seen ms)"

fun deref :: "message \<Rightarrow> message" where
  "deref (PUserMessage (Some m)) = UserMessage m"
| "deref (PAssistantMessage (Some m)) = AssistantMessage m"
| "deref (PToolResultMessage (Some m)) = ToolResultMessage m"
| "deref m = m"

definition failed_message :: "message \<Rightarrow> bool" where
  "failed_message msg \<longleftrightarrow> (case asAssistant msg of Some m \<Rightarrow> failed_stop m | None \<Rightarrow> False)"

lemma answered_weaken:
  "answered p s ms \<Longrightarrow> set p' \<subseteq> set p \<union> set s' \<Longrightarrow> set s \<subseteq> set s' \<Longrightarrow> answered p' s' ms"
proof (induction ms arbitrary: p s p' s')
  case Nil
  then show ?case by auto
next
  case (Cons msg ms)
  have now: "set p \<subseteq> set s \<Longrightarrow> set p' \<subseteq> set s'" using Cons.prems(2,3) by auto
  show ?case
  proof (cases msg)
    case (ToolResultMessage m)
    with Cons.IH [of p "tr_tool_call_id m # s" p' "tr_tool_call_id m # s'"] Cons.prems show ?thesis by auto
  next
    case (PToolResultMessage x)
    show ?thesis
    proof (cases x)
      case (Some m)
      with PToolResultMessage Cons.IH [of p "tr_tool_call_id m # s" p' "tr_tool_call_id m # s'"] Cons.prems
      show ?thesis by auto
    qed (use PToolResultMessage Cons in auto)
  next
    case (PAssistantMessage x)
    then show ?thesis using Cons now by (cases x) auto
  qed (use Cons now in auto)
qed

lemma answered_synthetic:
  "answered pend seen (map (synthetic_result now) tcs @ ms) \<longleftrightarrow> answered pend (rev (map cb_id tcs) @ seen) ms"
  by (induction tcs arbitrary: seen) (simp_all add: synthetic_result_def)

lemma answered_inserted:
  "\<exists>seen'. set pending_ids \<subseteq> set seen' \<and>
     (answered pending_ids seen (insertSyntheticToolResults now pending seen @ ms) \<longleftrightarrow>
      answered pending_ids seen' ms)" if "pending_ids = map cb_id pending"
  unfolding insertSyntheticToolResults_def answered_synthetic using that
  by (intro exI [of _ "rev (map cb_id (filter (\<lambda>tc. cb_id tc \<notin> set seen) pending)) @ seen"]) auto

lemma second_pass_answered: "answered (map cb_id pending) seen (second_pass now pending seen ms)"
proof (induction ms arbitrary: pending seen)
  case Nil
  from answered_inserted [OF refl, of pending seen now "[]"] show ?case by auto
next
  case (Cons msg ms)
  note ins = answered_inserted [OF refl, of pending seen now]
  have assistant: "answered (map cb_id pending) seen (insertSyntheticToolResults now pending seen @
      (if failed_stop m then second_pass now [] [] ms
       else AssistantMessage m # second_pass now (tool_calls_of m) [] ms))" for m
  proof (cases "failed_stop m")
    case True
    from ins [of "second_pass now [] [] ms"] Cons.IH [of "[]" "[]"] True answered_weaken [of "[]" "[]"]
    show ?thesis by auto
  next
    case False
    from ins [of "AssistantMessage m # second_pass now (tool_calls_of m) [] ms"] Cons.IH [of "tool_calls_of m" "[]"] False
    show ?thesis by auto
  qed
  have user: "answered (map cb_id pending) seen (insertSyntheticToolResults now pending seen @
      u # second_pass now [] [] ms)" if "asUser u \<noteq> None \<or> u = PUserMessage None" for u
    using ins [of "u # second_pass now [] [] ms"] Cons.IH [of "[]" "[]"] that
    by (cases u) auto
  have result: "answered (map cb_id pending) seen (ToolResultMessage m # second_pass now pending (tr_tool_call_id m # seen) ms)" for m
    using Cons.IH by simp
  show ?case
  proof (cases msg)
    case (AssistantMessage m)
    then show ?thesis using assistant [of m] by (simp only: second_pass.simps message.case)
  next
    case (PAssistantMessage x)
    then show ?thesis using assistant Cons.IH by (cases x) simp_all
  next
    case (UserMessage m)
    then show ?thesis using user [of msg] by simp
  next
    case (PUserMessage x)
    then show ?thesis using user [of "deref msg"] by (cases x) simp_all
  next
    case (PToolResultMessage x)
    then show ?thesis using result Cons.IH by (cases x) simp_all
  qed (use result Cons.IH in simp_all)
qed

lemma failed_message_simps [simp]:
  "\<not> failed_message NilMessage" "\<not> failed_message (UserMessage u)" "\<not> failed_message (PUserMessage pu)"
  "failed_message (AssistantMessage m) \<longleftrightarrow> failed_stop m" "\<not> failed_message (PAssistantMessage None)"
  "failed_message (PAssistantMessage (Some m)) \<longleftrightarrow> failed_stop m"
  "\<not> failed_message (ToolResultMessage t)" "\<not> failed_message (PToolResultMessage pt)"
  by (cases pu; simp add: failed_message_def) (cases pt; simp add: failed_message_def)+

lemma inserted_not_failed: "m \<in> set (insertSyntheticToolResults now pending seen) \<Longrightarrow> \<not> failed_message m"
  by (auto simp: insertSyntheticToolResults_def synthetic_result_def)

lemma second_pass_not_failed: "m \<in> set (second_pass now pending seen ms) \<Longrightarrow> \<not> failed_message m"
proof (induction ms arbitrary: pending seen)
  case Nil
  then show ?case by (simp add: inserted_not_failed)
next
  case (Cons msg ms)
  then show ?case
    by (cases msg rule: deref.cases)
      (auto dest: inserted_not_failed split: if_splits)
qed

lemma subseq_inserted:
  "subseq xs ys \<Longrightarrow> subseq xs (insertSyntheticToolResults now pending seen @ ys)"
  by (rule list_emb_append2)

lemma second_pass_keeps:
  "subseq (map deref (filter (\<lambda>m. \<not> failed_message m) ms)) (second_pass now pending seen ms)"
proof (induction ms arbitrary: pending seen)
  case Nil
  then show ?case by simp
next
  case (Cons msg ms)
  show ?case
    by (cases msg rule: deref.cases) (auto intro!: subseq_inserted Cons.IH)
qed

lemma second_pass_healthy:
  "answered (map cb_id pending) seen ms \<Longrightarrow> list_all (\<lambda>m. \<not> failed_message m) ms \<Longrightarrow>
     second_pass now pending seen ms = map deref ms"
proof (induction ms arbitrary: pending seen)
  case Nil
  then show ?case by (auto simp: insertSyntheticToolResults_def filter_empty_conv)
next
  case (Cons msg ms)
  have no: "set (map cb_id pending) \<subseteq> set seen \<Longrightarrow> insertSyntheticToolResults now pending seen = []"
    by (auto simp: insertSyntheticToolResults_def filter_empty_conv)
  show ?case
    using Cons.prems Cons.IH [of "[]" "[]"] Cons.IH [of "tool_calls_of (the (asAssistant msg))" "[]"]
      Cons.IH [of pending seen] Cons.IH [of pending "tr_tool_call_id (the (asToolResult msg)) # seen"] no
    by (cases msg rule: deref.cases) simp_all
qed

section \<open>Images\<close>

fun input_blocks :: "message \<Rightarrow> content_block list" where
  "input_blocks (UserMessage m) = (case uc_blocks (um_content m) of None \<Rightarrow> [] | Some bs \<Rightarrow> bs)"
| "input_blocks (PUserMessage (Some m)) = (case uc_blocks (um_content m) of None \<Rightarrow> [] | Some bs \<Rightarrow> bs)"
| "input_blocks (ToolResultMessage m) = tr_content m"
| "input_blocks (PToolResultMessage (Some m)) = tr_content m"
| "input_blocks _ = []"

definition image_free :: "message \<Rightarrow> bool" where
  "image_free m \<longleftrightarrow> list_all (\<lambda>b. cb_type b \<noteq> BlockImage) (input_blocks m)"

lemma replace_images_free: "list_all (\<lambda>b. cb_type b \<noteq> BlockImage) (replace_images ph prev bs)"
  by (induction ph prev bs rule: replace_images.induct) auto

lemma downgrade_image_free: "image_free (downgrade_message m)"
  by (cases m rule: downgrade_message.cases)
    (auto simp: image_free_def downgrade_user_def downgrade_result_def BlockContent_def
      replaceImagesWithPlaceholder_def replace_images_free split: option.split)

lemma image_free_assistant [simp]: "image_free (AssistantMessage m)"
  by (simp add: image_free_def)

lemma image_free_rename [simp]: "image_free (ToolResultMessage (rename_result ids m)) \<longleftrightarrow> image_free (ToolResultMessage m)"
  by (simp add: image_free_def rename_result_def split: option.split)

lemma image_free_deref [simp]: "image_free (deref m) \<longleftrightarrow> image_free m"
  by (cases m rule: deref.cases) (simp_all add: image_free_def)

lemma first_pass_image_free: "list_all image_free ms \<Longrightarrow> list_all image_free (first_pass model norm ids ms)"
proof (induction ms arbitrary: ids)
  case (Cons msg ms)
  have p: "image_free (PUserMessage (Some u)) \<longleftrightarrow> image_free (UserMessage u)"
    "image_free (PToolResultMessage (Some t)) \<longleftrightarrow> image_free (ToolResultMessage t)" for u t
    by (simp_all add: image_free_def)
  from Cons show ?case
    by (cases msg rule: deref.cases) (auto simp: p split: prod.split)
qed simp

lemma inserted_image_free: "list_all image_free (insertSyntheticToolResults now pending seen)"
  by (auto simp: insertSyntheticToolResults_def synthetic_result_def image_free_def list_all_iff)

lemma second_pass_image_free: "list_all image_free ms \<Longrightarrow> list_all image_free (second_pass now pending seen ms)"
proof (induction ms arbitrary: pending seen)
  case Nil
  then show ?case by (simp add: inserted_image_free)
next
  case (Cons msg ms)
  have p: "image_free (PUserMessage (Some u)) \<longleftrightarrow> image_free (UserMessage u)"
    "image_free (PToolResultMessage (Some t)) \<longleftrightarrow> image_free (ToolResultMessage t)" for u t
    by (simp_all add: image_free_def)
  from Cons show ?case
    by (cases msg rule: deref.cases) (auto simp: p inserted_image_free)
qed


section \<open>Healthy transcripts\<close>

definition keeps_thinking :: "content_block \<Rightarrow> bool" where
  "keeps_thinking b \<longleftrightarrow>
     (cb_type b \<noteq> BlockThinking \<or> cb_redacted b \<or> cb_thinking_signature b \<noteq> [] \<or> trim_space (cb_thinking b) \<noteq> [])"

definition native_message :: "model \<Rightarrow> message \<Rightarrow> bool" where
  "native_message model msg \<longleftrightarrow> deref msg = msg \<and> \<not> failed_message msg \<and>
     (case msg of
        AssistantMessage m \<Rightarrow> is_same_model m model \<and> list_all keeps_thinking (am_content m)
      | _ \<Rightarrow> True)"

lemma transform_blocks_native:
  "is_same_model m model \<Longrightarrow> list_all keeps_thinking bs \<Longrightarrow> transform_blocks norm model m bs ids = (bs, ids)"
  by (induction bs)
    (auto simp: transform_thinking_def transform_call_def keeps_thinking_def Let_def
      split: block_type.split option.split)

lemma rename_empty [simp]: "rename_result Map.empty m = m"
  by (simp add: rename_result_def)

lemma first_pass_native:
  "list_all (native_message model) ms \<Longrightarrow> first_pass model norm Map.empty ms = ms"
proof (induction ms)
  case (Cons msg ms)
  then show ?case
    by (cases msg rule: deref.cases)
      (auto simp: native_message_def transformAssistantMessage_def transform_blocks_native)
qed simp

text \<open>A healthy transcript is not touched: when the model sees images, every message was
  produced for this very model, no turn failed, no thinking block is blank and every tool call
  has its answer, the provider receives exactly the transcript, whatever identifiers the
  provider's normalisation would choose.\<close>

lemma TransformMessages_identity:
  assumes "SupportsVision model" "list_all (native_message model) messages" "answered [] [] messages"
  shows "TransformMessages now messages model norm = messages"
proof -
  have "list_all (\<lambda>m. \<not> failed_message m) messages" "map deref messages = messages"
    using assms(2) by (induction messages) (auto simp: native_message_def)
  with second_pass_healthy [of "[]" "[]" messages now] assms first_pass_native [OF assms(2)]
  show ?thesis by (simp add: TransformMessages_def downgradeUnsupportedImages_def)
qed

definition vision_model :: model where
  "vision_model = \<lparr>mo_id = ''m'', mo_name = ''M'', mo_api = ''a'', mo_provider = ''p'', mo_input = [''image''],
     mo_context_window = 1000, mo_max_tokens = 100\<rparr>"

definition demo_turns :: "message list" where
  "demo_turns =
     [UserMessage \<lparr>um_content = StringContent ''hi'', um_timestamp = 1\<rparr>,
      AssistantMessage ((empty_assistant ''a'' ''p'' ''m'')\<lparr>am_content := [NewToolCall ''c1'' ''read'' ''{}'']\<rparr>),
      ToolResultMessage \<lparr>tr_tool_call_id = ''c1'', tr_tool_name = ''read'', tr_content = [NewText ''x''],
        tr_details = None, tr_is_error = False, tr_timestamp = 2\<rparr>]"

lemma TransformMessages_identity_witness:
  "TransformMessages 0 demo_turns vision_model (Some (\<lambda>i _ _. ''x'' @ i)) = demo_turns"
  by (rule TransformMessages_identity; code_simp)

end
