(* ===== verification/Float64.thy ===== *)
theory Float64
  imports Json
begin

text \<open>
  Finite \<open>float64\<close> values and the conversions of package \<open>strconv\<close> the program uses: rounding a
  quotient to the nearest value, reading decimal and hexadecimal literals, and the shortest decimal
  text that reads back to the value.
\<close>

section \<open>Integers in floating point\<close>

fun bit_length :: "nat \<Rightarrow> nat" where
  "bit_length n = (if n = 0 then 0 else Suc (bit_length (n div 2)))"

declare bit_length.simps [simp del]

definition round_even_div :: "nat \<Rightarrow> nat \<Rightarrow> nat" where
  "round_even_div a d =
     (let q = a div d; r = a mod d in
      if d < 2 * r \<or> (2 * r = d \<and> odd q) then Suc q else q)"

text \<open>The \<open>float64\<close> nearest to an integer, itself an integer: 53 significant bits, ties to even.\<close>

definition round53 :: "int \<Rightarrow> int" where
  "round53 n =
     (let a = nat \<bar>n\<bar>; k = bit_length a - 53 in
      if bit_length a \<le> 53 then n else sgn n * int (round_even_div a (2 ^ k) * 2 ^ k))"

definition ceil_div :: "int \<Rightarrow> int \<Rightarrow> int" where "ceil_div n d = - ((- n) div d)"

lemma bit_length_le: "n < 2 ^ k \<Longrightarrow> bit_length n \<le> k"
proof (induction k arbitrary: n)
  case 0
  then show ?case by (simp add: bit_length.simps)
next
  case (Suc k)
  then have "n div 2 < 2 ^ k" by (simp add: less_mult_imp_div_less)
  from Suc.IH [OF this] show ?case by (subst bit_length.simps) simp
qed

lemma round53_exact: "\<bar>n\<bar> < 2 ^ 53 \<Longrightarrow> round53 n = n"
  using bit_length_le [of "nat \<bar>n\<bar>" 53] by (simp add: round53_def Let_def nat_less_iff)

section \<open>Values\<close>

text \<open>
  \<open>Flt neg m e\<close> is the value \<open>m * 2^e\<close>, negated when \<open>neg\<close>; \<open>m\<close> is odd, or 0 with \<open>e\<close> 0, so
  that every value but zero has one representation and zero has two.
\<close>

datatype float64 = Flt (flt_neg: bool) (flt_mant: nat) (flt_exp: int)

fun strip_twos :: "nat \<Rightarrow> int \<Rightarrow> nat \<times> int" where
  "strip_twos m e = (if m = 0 then (0, 0) else if even m then strip_twos (m div 2) (e + 1) else (m, e))"

declare strip_twos.simps [simp del]

definition make_float :: "bool \<Rightarrow> nat \<Rightarrow> int \<Rightarrow> float64" where
  "make_float neg m e = (let (m', e') = strip_twos m e in Flt neg m' e')"

definition pow_num :: "nat \<Rightarrow> int \<Rightarrow> nat" where "pow_num b e = (if 0 \<le> e then b ^ nat e else 1)"
definition pow_den :: "nat \<Rightarrow> int \<Rightarrow> nat" where "pow_den b e = (if 0 \<le> e then 1 else b ^ nat (- e))"

text \<open>The \<open>float64\<close> nearest to \<open>n / d\<close>, ties to even, \<^const>\<open>None\<close> on overflow.\<close>

definition nearest_float :: "bool \<Rightarrow> nat \<Rightarrow> nat \<Rightarrow> float64 option" where
  "nearest_float neg n d =
     (if n = 0 then Some (Flt neg 0 0)
      else
        let k0 = int (bit_length n) - int (bit_length d) - 53;
            q0 = (n * pow_den 2 k0) div (d * pow_num 2 k0);
            k1 = (if 2 ^ 53 \<le> q0 then k0 + 1 else k0);
            k = max k1 (-1074);
            q = round_even_div (n * pow_den 2 k) (d * pow_num 2 k)
        in if 1024 < int (bit_length q) + k then None else Some (make_float neg q k))"

definition float_num :: "float64 \<Rightarrow> nat" where "float_num v = flt_mant v * pow_num 2 (flt_exp v)"
definition float_den :: "float64 \<Rightarrow> nat" where "float_den v = pow_den 2 (flt_exp v)"

definition is_integral :: "float64 \<Rightarrow> bool" where "is_integral v \<longleftrightarrow> 0 \<le> flt_exp v"
definition is_zero :: "float64 \<Rightarrow> bool" where "is_zero v \<longleftrightarrow> flt_mant v = 0"

text \<open>Go's \<open>==\<close>: the two zeros are equal.\<close>

definition float_eq :: "float64 \<Rightarrow> float64 \<Rightarrow> bool" where
  "float_eq v w \<longleftrightarrow> v = w \<or> (is_zero v \<and> is_zero w)"

definition float_of_nat :: "nat \<Rightarrow> float64 option" where "float_of_nat n = nearest_float False n 1"

text \<open>\<open>m * b^x\<close>, scaled further by \<open>2^y\<close>.\<close>

definition scaled_float :: "bool \<Rightarrow> nat \<Rightarrow> nat \<Rightarrow> int \<Rightarrow> float64 option" where
  "scaled_float neg m b x = nearest_float neg (m * pow_num b x) (pow_den b x)"

section \<open>Reading\<close>

text \<open>The exponent loop of \<open>readFloat\<close> stops accumulating at 10000.\<close>

definition exponent_digits :: "string \<Rightarrow> int" where
  "exponent_digits s = int (foldl (\<lambda>e c. if e < 10000 then e * 10 + (byte c - 48) else e) 0 s)"

definition read_sign :: "string \<Rightarrow> bool \<times> string" where
  "read_sign s =
     (case s of c # t \<Rightarrow> if c = CHR ''-'' then (True, t) else if c = CHR ''+'' then (False, t) else (False, s)
      | [] \<Rightarrow> (False, s))"

definition read_exponent :: "string \<Rightarrow> int option" where
  "read_exponent s =
     (let (neg, ds) = read_sign s in
      if ds = [] \<or> \<not> list_all json_digit ds then None
      else Some (if neg then - exponent_digits ds else exponent_digits ds))"

text \<open>The mantissa: integer and fraction digits, at least one, and what follows.\<close>

definition read_mantissa :: "(char \<Rightarrow> bool) \<Rightarrow> string \<Rightarrow> (string \<times> string \<times> string) option" where
  "read_mantissa digit s =
     (let i = takeWhile digit s; r = dropWhile digit s;
          (f, r') = (case r of c # t \<Rightarrow> if c = CHR ''.'' then (takeWhile digit t, dropWhile digit t) else ([], r)
                     | [] \<Rightarrow> ([], r))
      in if i = [] \<and> f = [] then None else Some (i, f, r'))"

definition read_decimal :: "bool \<Rightarrow> string \<Rightarrow> float64 option" where
  "read_decimal neg s =
     (case read_mantissa json_digit s of
        None \<Rightarrow> None
      | Some (i, f, r) \<Rightarrow>
          (case (case r of [] \<Rightarrow> Some 0
                 | c # t \<Rightarrow> if c = CHR ''e'' \<or> c = CHR ''E'' then read_exponent t else None) of
             None \<Rightarrow> None
           | Some x \<Rightarrow> scaled_float neg (digits_value (i @ f)) 10 (x - int (length f))))"

definition read_hexadecimal :: "bool \<Rightarrow> string \<Rightarrow> float64 option" where
  "read_hexadecimal neg s =
     (case read_mantissa is_hex s of
        Some (i, f, c # t) \<Rightarrow>
          (if c = CHR ''p'' \<or> c = CHR ''P'' then
             (case read_exponent t of
                None \<Rightarrow> None
              | Some x \<Rightarrow> scaled_float neg (hex_number (i @ f)) 2 (x - 4 * int (length f)))
           else None)
      | _ \<Rightarrow> None)"

text \<open>\<open>strconv.ParseFloat(s, 64)\<close> where it returns a finite value and no error.\<close>

definition parse_float :: "string \<Rightarrow> float64 option" where
  "parse_float s =
     (let (neg, t) = read_sign s in
      case t of
        z # x # u \<Rightarrow> if z = CHR ''0'' \<and> (x = CHR ''x'' \<or> x = CHR ''X'') \<and> u \<noteq> [] then read_hexadecimal neg u
                     else read_decimal neg t
      | _ \<Rightarrow> read_decimal neg t)"

text \<open>\<open>strconv.ParseUint(s, base, 64)\<close>.\<close>

definition digit_value :: "char \<Rightarrow> nat option" where
  "digit_value c =
     (if json_digit c then Some (byte c - 48)
      else if 97 \<le> byte c \<and> byte c \<le> 122 then Some (byte c - 87)
      else if 65 \<le> byte c \<and> byte c \<le> 90 then Some (byte c - 55) else None)"

definition parse_uint :: "nat \<Rightarrow> string \<Rightarrow> nat option" where
  "parse_uint base s =
     (if s = [] \<or> \<not> list_all (\<lambda>c. case digit_value c of Some d \<Rightarrow> d < base | None \<Rightarrow> False) s then None
      else
        let v = foldl (\<lambda>n c. n * base + the (digit_value c)) 0 s in if v < 2 ^ 64 then Some v else None)"

section \<open>Writing\<close>

text \<open>
  The shortest decimal that reads back: its digits and the position of the decimal point, the
  value being 0.d1d2... * 10^dp.  Of two decimals of the least length the nearer is taken, of two
  equally near ones the even.
\<close>

definition point_of :: "nat \<Rightarrow> nat \<Rightarrow> int" where
  "point_of n d =
     (if d \<le> n then int (length (nat_digits (n div d)))
      else int (length (nat_digits (n * 10 ^ 400 div d))) - 400)"

definition reads_back :: "float64 \<Rightarrow> nat \<Rightarrow> int \<Rightarrow> bool" where
  "reads_back v c x \<longleftrightarrow> scaled_float (flt_neg v) c 10 x = Some v"

definition candidate :: "float64 \<Rightarrow> int \<Rightarrow> nat \<Rightarrow> nat option" where
  "candidate v dp k =
     (let x = dp - int k; n = float_num v * pow_den 10 x; d = float_den v * pow_num 10 x;
          lo = n div d; up = (if n mod d = 0 then lo else lo + 1); r = round_even_div n d
      in case (reads_back v lo x, reads_back v up x) of
           (True, True) \<Rightarrow> Some r | (True, False) \<Rightarrow> Some lo | (False, True) \<Rightarrow> Some up | (False, False) \<Rightarrow> None)"

fun first_candidate :: "float64 \<Rightarrow> int \<Rightarrow> nat list \<Rightarrow> (nat \<times> nat) option" where
  "first_candidate v dp [] = None"
| "first_candidate v dp (k # ks) =
     (case candidate v dp k of None \<Rightarrow> first_candidate v dp ks | Some c \<Rightarrow> Some (k, c))"

definition rstrip_zeros :: "string \<Rightarrow> string" where
  "rstrip_zeros s = rev (dropWhile (\<lambda>c. c = CHR ''0'') (rev s))"

definition shortest_digits :: "float64 \<Rightarrow> string \<times> int" where
  "shortest_digits v =
     (if is_zero v then ([], 0)
      else
        let dp = point_of (float_num v) (float_den v) in
        case first_candidate v dp [1 ..< 18] of
          None \<Rightarrow> ([], 0)
        | Some (k, c) \<Rightarrow>
            (let ds = nat_digits c in (rstrip_zeros ds, dp + int (length ds) - int k)))"

definition format_e :: "string \<Rightarrow> int \<Rightarrow> string" where
  "format_e ds dp =
     (let ds = (if ds = [] then ''0'' else ds); x = (if ds = ''0'' then 0 else dp - 1);
          e = nat_digits (nat \<bar>x\<bar>)
      in take 1 ds @ (if 1 < length ds then ''.'' @ drop 1 ds else []) @ ''e'' @ (if x < 0 then ''-'' else ''+'') @
         (if length e < 2 then ''0'' @ e else e))"

definition format_f :: "string \<Rightarrow> int \<Rightarrow> string" where
  "format_f ds dp =
     (if 0 < dp then
        take (nat dp) ds @ replicate (nat dp - length ds) CHR ''0'' @
        (if nat dp < length ds then ''.'' @ drop (nat dp) ds else [])
      else ''0'' @ (if ds = [] then [] else ''.'' @ replicate (nat (- dp)) CHR ''0'' @ ds))"

definition signed_text :: "float64 \<Rightarrow> string \<Rightarrow> string" where
  "signed_text v s = (if flt_neg v then ''-'' @ s else s)"

text \<open>\<open>strconv.FormatFloat(v, 'g', -1, 64)\<close>: the exponent form outside [10^-4, 10^6) digits.\<close>

definition format_g :: "float64 \<Rightarrow> string" where
  "format_g v =
     (let (ds, dp) = shortest_digits v; x = dp - 1;
          eprec = 6 :: int
      in signed_text v (if x < -4 \<or> (eprec \<le> x \<and> ds \<noteq> []) then format_e ds dp else format_f ds dp))"

text \<open>
  The \<open>float64\<close> of \<open>json.Marshal\<close>: the exponent form below \<open>1e-6\<close> and from \<open>1e21\<close> on, without the
  zero of a two-digit negative exponent.
\<close>

definition float_less :: "float64 \<Rightarrow> float64 \<Rightarrow> bool" where
  "float_less v w \<longleftrightarrow> float_num v * float_den w < float_num w * float_den v"

definition marshal_float :: "float64 \<Rightarrow> string" where
  "marshal_float v =
     (let (ds, dp) = shortest_digits v;
          small = float_less v (the (nearest_float False 1 1000000));
          large = \<not> float_less v (the (float_of_nat (10 ^ 21)))
      in if \<not> is_zero v \<and> (small \<or> large) then
           (let s = format_e ds dp; n = length s in
            signed_text v (if 4 \<le> n \<and> s ! (n - 4) = CHR ''e'' \<and> s ! (n - 3) = CHR ''-'' \<and> s ! (n - 2) = CHR ''0''
              then take (n - 2) s @ [s ! (n - 1)] else s))
         else signed_text v (format_f ds dp))"

end
