(* ===== verification/Estimate.thy ===== *)
theory Estimate
  imports Msg_Types Json_Raw Float64
begin

text \<open>
  \<open>internal/engine/estimate/estimate.go\<close>: the approximate token count of a transcript.  Counts
  are Go \<open>int\<close>s: sums and products wrap at 64 bits.  The division by four goes through
  \<open>float64\<close>, whose rounding of large integers is \<open>round53\<close>; a division of such a value by four
  is exact.
\<close>

section \<open>Weights\<close>

definition CharsPerToken :: int where "CharsPerToken = 4"
definition EstimatedImageChars :: int where "EstimatedImageChars = 4800"
definition EstimatedDocumentPageChars :: int where "EstimatedDocumentPageChars = 3000 * CharsPerToken"

record context_usage_estimate =
  cu_tokens :: int
  cu_usage_tokens :: int
  cu_trailing_tokens :: int
  cu_last_usage_index :: "nat option"

definition CalculateContextTokens :: "usage \<Rightarrow> int" where
  "CalculateContextTokens u =
     (if u_total_tokens u \<noteq> 0 then u_total_tokens u
      else wrap64 (u_input u + u_output u + u_cache_read u + u_cache_write u))"

definition add64 :: "int \<Rightarrow> int \<Rightarrow> int" where "add64 a b = wrap64 (a + b)"

definition sum64 :: "('a \<Rightarrow> int) \<Rightarrow> 'a list \<Rightarrow> int" where
  "sum64 f xs = fold (\<lambda>x acc. add64 acc (f x)) xs 0"

text \<open>\<open>jsStringLength\<close>: the number of UTF-16 code units.\<close>

definition jsStringLength :: "string \<Rightarrow> int" where
  "jsStringLength text = sum_list (map (\<lambda>r. if 0xffff < r then 2 else 1) (runes text))"

definition isTextRefMediaType :: "string \<Rightarrow> bool" where
  "isTextRefMediaType mt \<longleftrightarrow> mt \<in> set [''text/plain'', ''text/markdown'', ''text/csv'']"

definition documentRefEstimatedChars :: "content_block \<Rightarrow> int" where
  "documentRefEstimatedChars b =
     (if isTextRefMediaType (cb_ref_media_type b) then
        (if cb_ref_size_bytes b \<le> 0 then 0 else cb_ref_size_bytes b)
      else
        let pages = (if cb_ref_page_count b < 1 then 1 else cb_ref_page_count b)
        in wrap64 (pages * EstimatedDocumentPageChars))"

definition blockEstimatedChars :: "content_block \<Rightarrow> int" where
  "blockEstimatedChars b =
     (case cb_type b of
        BlockText \<Rightarrow> jsStringLength (cb_text b)
      | BlockDocumentRef \<Rightarrow> documentRefEstimatedChars b
      | _ \<Rightarrow> EstimatedImageChars)"

definition estimateTextAndImageBlocksChars :: "content_block list \<Rightarrow> int" where
  "estimateTextAndImageBlocksChars blocks = sum64 blockEstimatedChars blocks"

definition estimateTextAndImageContentChars :: "user_content \<Rightarrow> int" where
  "estimateTextAndImageContentChars c =
     (case uc_blocks c of
        None \<Rightarrow> jsStringLength (uc_text c) | Some bs \<Rightarrow> estimateTextAndImageBlocksChars bs)"

definition tokensFromChars :: "int \<Rightarrow> int" where
  "tokensFromChars chars = ceil_div (round53 chars) CharsPerToken"

definition EstimateTextTokens :: "string \<Rightarrow> int" where
  "EstimateTextTokens text = tokensFromChars (jsStringLength text)"

definition rawArgumentsString :: "bytes \<Rightarrow> string" where
  "rawArgumentsString args = (if args = [] then ''{}'' else args)"

definition assistant_block_chars :: "content_block \<Rightarrow> int" where
  "assistant_block_chars b =
     (case cb_type b of
        BlockText \<Rightarrow> jsStringLength (cb_text b)
      | BlockThinking \<Rightarrow> jsStringLength (cb_thinking b)
      | _ \<Rightarrow> jsStringLength (cb_name b) + jsStringLength (rawArgumentsString (cb_arguments b)))"

definition estimateAssistantMessageTokens :: "assistant_message \<Rightarrow> int" where
  "estimateAssistantMessageTokens m = tokensFromChars (sum64 assistant_block_chars (am_content m))"

fun EstimateMessageTokens :: "message \<Rightarrow> int" where
  "EstimateMessageTokens (UserMessage m) = tokensFromChars (estimateTextAndImageContentChars (um_content m))"
| "EstimateMessageTokens (PUserMessage (Some m)) = tokensFromChars (estimateTextAndImageContentChars (um_content m))"
| "EstimateMessageTokens (ToolResultMessage m) = tokensFromChars (estimateTextAndImageBlocksChars (tr_content m))"
| "EstimateMessageTokens (PToolResultMessage (Some m)) =
     tokensFromChars (estimateTextAndImageBlocksChars (tr_content m))"
| "EstimateMessageTokens (AssistantMessage m) = estimateAssistantMessageTokens m"
| "EstimateMessageTokens (PAssistantMessage (Some m)) = estimateAssistantMessageTokens m"
| "EstimateMessageTokens _ = 0"

section \<open>Transcripts\<close>

definition usable_usage :: "message \<Rightarrow> bool" where
  "usable_usage msg \<longleftrightarrow>
     (case asAssistant msg of
        None \<Rightarrow> False
      | Some m \<Rightarrow> am_stop_reason m \<noteq> StopAborted \<and> am_stop_reason m \<noteq> StopError \<and>
          0 < CalculateContextTokens (am_usage m))"

definition getLastAssistantUsageInfo :: "message list \<Rightarrow> (usage \<times> nat) option" where
  "getLastAssistantUsageInfo messages =
     (case last_index usable_usage messages of
        None \<Rightarrow> None
      | Some i \<Rightarrow> map_option (\<lambda>m. (am_usage m, i)) (asAssistant (messages ! i)))"

definition EstimateMessages :: "message list \<Rightarrow> context_usage_estimate" where
  "EstimateMessages messages =
     (case getLastAssistantUsageInfo messages of
        Some (u, index) \<Rightarrow>
          (let usageTokens = CalculateContextTokens u;
               trailing = sum64 EstimateMessageTokens (drop (Suc index) messages)
           in \<lparr>cu_tokens = add64 usageTokens trailing, cu_usage_tokens = usageTokens,
               cu_trailing_tokens = trailing, cu_last_usage_index = Some index\<rparr>)
      | None \<Rightarrow>
          (let tokens = sum64 EstimateMessageTokens messages
           in \<lparr>cu_tokens = tokens, cu_usage_tokens = 0, cu_trailing_tokens = tokens, cu_last_usage_index = None\<rparr>))"

text \<open>
  \<open>json.Marshal\<close> of the tool definitions: the raw schemas are validated and compacted, with the
  HTML escapes.
\<close>

fun compact_json :: "bool \<Rightarrow> string \<Rightarrow> string" where
  "compact_json quoted [] = []"
| "compact_json quoted (c # s) =
     (if c = CHR ''<'' \<or> c = CHR ''>'' \<or> c = CHR ''&'' then unicode_escape (byte c) @ compact_json quoted s
      else if byte c = 0xE2 \<and> 2 \<le> length s \<and> byte (s ! 0) = 0x80 \<and> (byte (s ! 1) = 0xA8 \<or> byte (s ! 1) = 0xA9)
      then unicode_escape (0x2000 + byte (s ! 1) - 0x80) @ compact_json quoted (drop 2 s)
      else if quoted then
        (if c = BACKSLASH then (case s of [] \<Rightarrow> [c] | d # t \<Rightarrow> c # d # compact_json quoted t)
         else c # compact_json (c \<noteq> DQUOTE) s)
      else if json_space c then compact_json quoted s
      else c # compact_json (c = DQUOTE) s)"

definition marshal_raw :: "bytes \<Rightarrow> string option" where
  "marshal_raw raw =
     (if raw = [] then Some ''null''
      else if parse_json raw = None then None else Some (compact_json False raw))"

definition marshal_tool :: "tool \<Rightarrow> string option" where
  "marshal_tool t =
     map_option (\<lambda>p. print_members [(''name'', print_string (to_name t)),
         (''description'', print_string (to_description t)), (''parameters'', p)])
       (marshal_raw (to_parameters t))"

definition safeJSONStringify :: "tool list \<Rightarrow> string" where
  "safeJSONStringify tools =
     (let outs = map marshal_tool tools in
      if list_ex (\<lambda>x. x = None) outs then ''[unserializable]''
      else ''['' @ join '','' (map the outs) @ '']'')"

definition EstimateContextTokens :: "llm_context \<Rightarrow> context_usage_estimate" where
  "EstimateContextTokens ctx =
     (let est = EstimateMessages (lc_messages ctx) in
      if cu_last_usage_index est \<noteq> None then est
      else
        let prefix1 = (if lc_system_prompt ctx \<noteq> [] then EstimateTextTokens (lc_system_prompt ctx) else 0);
            prefix2 = (if lc_tools ctx \<noteq> [] then EstimateTextTokens (safeJSONStringify (lc_tools ctx)) else 0);
            prefix = add64 prefix1 prefix2
        in est\<lparr>cu_tokens := add64 (cu_tokens est) prefix,
               cu_trailing_tokens := add64 (cu_trailing_tokens est) prefix\<rparr>)"

end
