(* ===== verification/Compaction.thy ===== *)
theory Compaction
  imports Estimate "HOL-Library.Word" "HOL-Library.List_Lexorder"
begin

text \<open>
  \<open>internal/compaction/compaction.go\<close>: file operations of a conversation, the text form sent to
  the summariser, the token estimate, the choice of the cut point, the preparation of a
  compaction, the summarisation requests, the rebuilt conversation, and the projection that
  clears old tool results.

  The messages of an entry are interface values; a nil pointer, on which the code's call of
  \<open>Role\<close> would panic, has the role of no message here.  The text of a \<open>float64\<close>
  (\<open>num_text\<close>), the Unicode classes (\<open>uletter\<close>), the clock (\<open>now\<close>), the file system calls and the
  summarisation model are arguments.
\<close>

section \<open>Constants\<close>

definition ToolResultMaxChars :: nat where "ToolResultMaxChars = 2000"
definition EstimatedImageChars :: int where "EstimatedImageChars = 4800"
definition EstimatedDocumentPageChars :: int where "EstimatedDocumentPageChars = 3000 * 4"
definition DefaultToolWindow :: int where "DefaultToolWindow = 16"

definition compactionSummaryPrefix :: string where
  "compactionSummaryPrefix = ''The conversation history before this point was compacted into the following summary:'' @
     [NL, NL] @ ''<summary>'' @ [NL]"

definition compactionSummarySuffix :: string where "compactionSummarySuffix = [NL] @ ''</summary>''"

definition branchSummaryPrefix :: string where
  "branchSummaryPrefix = ''The following is a summary of a branch that this conversation came back from:'' @
     [NL, NL] @ ''<summary>'' @ [NL]"

definition branchSummarySuffix :: string where "branchSummarySuffix = ''</summary>''"

section \<open>Types\<close>

record file_operations =
  fo_read :: "string set"
  fo_written :: "string set"
  fo_edited :: "string set"

record compaction_details =
  cd_read_files :: "string list"
  cd_modified_files :: "string list"

record compaction_settings =
  cs_enabled :: bool
  cs_reserve_tokens :: int
  cs_keep_recent_tokens :: int

definition DefaultCompactionSettings :: compaction_settings where
  "DefaultCompactionSettings =
     \<lparr>cs_enabled = True, cs_reserve_tokens = 16384, cs_keep_recent_tokens = 20000\<rparr>"

record usage_estimate =
  ue_tokens :: int
  ue_usage_tokens :: int
  ue_trailing_tokens :: int
  ue_last_usage_index :: "nat option"

record session_entry =
  se_id :: string
  se_type :: string
  se_message :: message
  se_summary :: string
  se_tokens_before :: int
  se_first_kept_entry_id :: string
  se_details :: "compaction_details option"
  se_from_hook :: bool
  se_content :: "content_block list option"
  se_timestamp :: time_ms

record cut_point_result =
  cp_first_kept :: nat
  cp_turn_start :: "nat option"
  cp_split :: bool

record compaction_preparation =
  pp_first_kept_id :: string
  pp_to_summarize :: "message list"
  pp_turn_prefix :: "message list"
  pp_split :: bool
  pp_tokens_before :: int
  pp_previous_summary :: string
  pp_file_ops :: file_operations
  pp_settings :: compaction_settings

section \<open>File operations\<close>

definition CreateFileOps :: file_operations where
  "CreateFileOps = \<lparr>fo_read = {}, fo_written = {}, fo_edited = {}\<rparr>"

definition record_file_op :: "content_block \<Rightarrow> file_operations \<Rightarrow> file_operations" where
  "record_file_op b ops =
     (if cb_type b \<noteq> BlockToolCall \<or> cb_name b = [] \<or> cb_arguments b = [] then ops
      else case unmarshal_map (cb_arguments b) of
        None \<Rightarrow> ops
      | Some args \<Rightarrow>
          (case map_key args ''path'' of
             Some (JStr path) \<Rightarrow>
               (if path = [] then ops
                else if cb_name b = ''read'' then ops\<lparr>fo_read := insert path (fo_read ops)\<rparr>
                else if cb_name b = ''write'' then ops\<lparr>fo_written := insert path (fo_written ops)\<rparr>
                else if cb_name b = ''edit'' then ops\<lparr>fo_edited := insert path (fo_edited ops)\<rparr>
                else ops)
           | _ \<Rightarrow> ops))"

definition ExtractFileOpsFromMessage :: "message \<Rightarrow> file_operations \<Rightarrow> file_operations" where
  "ExtractFileOpsFromMessage msg ops =
     (case asAssistant msg of None \<Rightarrow> ops | Some m \<Rightarrow> fold record_file_op (am_content m) ops)"

definition ComputeFileLists :: "file_operations \<Rightarrow> string list \<times> string list" where
  "ComputeFileLists ops =
     (let modified = fo_edited ops \<union> fo_written ops
      in (sorted_list_of_set (fo_read ops - modified), sorted_list_of_set modified))"

definition FormatFileOperations :: "string list \<Rightarrow> string list \<Rightarrow> string" where
  "FormatFileOperations readFiles modifiedFiles =
     (let sections =
        (if readFiles \<noteq> [] then [''<read-files>'' @ [NL] @ join [NL] readFiles @ [NL] @ ''</read-files>''] else []) @
        (if modifiedFiles \<noteq> [] then [''<modified-files>'' @ [NL] @ join [NL] modifiedFiles @ [NL] @ ''</modified-files>'']
         else [])
      in if sections = [] then [] else [NL, NL] @ join [NL, NL] sections)"

section \<open>The text form of a conversation\<close>

definition text_blocks :: "content_block list \<Rightarrow> string list" where
  "text_blocks bs = map cb_text (filter (\<lambda>b. cb_type b = BlockText) bs)"

definition userContentText :: "user_content \<Rightarrow> string" where
  "userContentText c = (case uc_blocks c of None \<Rightarrow> uc_text c | Some bs \<Rightarrow> concat (text_blocks bs))"

definition toolResultText :: "tool_result_message \<Rightarrow> string" where
  "toolResultText m = concat (text_blocks (tr_content m))"

definition truncateForSummary :: "string \<Rightarrow> nat \<Rightarrow> string" where
  "truncateForSummary text maxChars =
     (if length text \<le> maxChars then text
      else take maxChars text @ [NL, NL] @ ''[... '' @ show_nat (length text - maxChars) @ '' more characters truncated]'')"

text \<open>
  \<open>json.Marshal\<close> of a value decoded into \<open>any\<close>: the keys of an object are sorted, a repeated key
  has its last value.  \<open>orderedJSONObject\<close> keeps the order of the outermost object.
\<close>

fun marshal_any :: "(string \<Rightarrow> string) \<Rightarrow> json \<Rightarrow> string" where
  "marshal_any num_text JNull = ''null''"
| "marshal_any num_text (JBool b) = (if b then ''true'' else ''false'')"
| "marshal_any num_text (JNum lit) = num_text lit"
| "marshal_any num_text (JStr s) = print_string s"
| "marshal_any num_text (JArr vs) = ''['' @ join '','' (map (marshal_any num_text) vs) @ '']''"
| "marshal_any num_text (JObj ms) =
     (let texts = map (\<lambda>kv. (fst kv, marshal_any num_text (snd kv))) ms;
          keys = sort (remdups (map fst texts))
      in ''{'' @ join '','' (map (\<lambda>k. print_string k @ '':'' @ the (map_of (rev texts) k)) keys) @ ''}'')"

definition orderedJSONObject :: "bytes \<Rightarrow> (string \<times> json) list option" where
  "orderedJSONObject raw =
     (case parse_value (2 * length raw + 2) raw of
        Some (JObj ms, _) \<Rightarrow>
          (if list_all (\<lambda>kv. json_floats_ok (snd kv) \<and> json_depth (snd kv) \<le> max_nesting_depth) ms
           then Some ms else None)
      | _ \<Rightarrow> None)"

definition formatToolArgs :: "(string \<Rightarrow> string) \<Rightarrow> bytes \<Rightarrow> string" where
  "formatToolArgs num_text raw =
     (if raw = [] then []
      else case orderedJSONObject raw of
        None \<Rightarrow> raw
      | Some ms \<Rightarrow> join '', '' (map (\<lambda>kv. fst kv @ ''='' @ marshal_any num_text (snd kv)) ms))"

definition assistant_parts :: "(string \<Rightarrow> string) \<Rightarrow> assistant_message \<Rightarrow> string list" where
  "assistant_parts num_text m =
     (let texts = text_blocks (am_content m);
          thinking = map cb_thinking (filter (\<lambda>b. cb_type b = BlockThinking) (am_content m));
          calls = map (\<lambda>b. cb_name b @ ''('' @ formatToolArgs num_text (cb_arguments b) @ '')'') (tool_calls_of m)
      in (if thinking \<noteq> [] then [''[Assistant thinking]: '' @ join [NL] thinking] else []) @
         (if texts \<noteq> [] then [''[Assistant]: '' @ join [NL] texts] else []) @
         (if calls \<noteq> [] then [''[Assistant tool calls]: '' @ join ''; '' calls] else []))"

definition message_parts :: "(string \<Rightarrow> string) \<Rightarrow> message \<Rightarrow> string list" where
  "message_parts num_text msg =
     (case asUser msg of
        Some u \<Rightarrow> (let c = userContentText (um_content u) in if c \<noteq> [] then [''[User]: '' @ c] else [])
      | None \<Rightarrow>
        (case asAssistant msg of
           Some a \<Rightarrow> assistant_parts num_text a
         | None \<Rightarrow>
           (case asToolResult msg of
              Some t \<Rightarrow> (let c = toolResultText t in
                         if c \<noteq> [] then [''[Tool result]: '' @ truncateForSummary c ToolResultMaxChars] else [])
            | None \<Rightarrow> [])))"

definition SerializeConversation :: "(string \<Rightarrow> string) \<Rightarrow> message list \<Rightarrow> string" where
  "SerializeConversation num_text messages = join [NL, NL] (concat (map (message_parts num_text) messages))"

section \<open>Token estimates\<close>

definition CalculateContextTokens :: "usage \<Rightarrow> int" where
  "CalculateContextTokens u =
     (if u_total_tokens u \<noteq> 0 then u_total_tokens u
      else wrap64 (u_input u + u_output u + u_cache_read u + u_cache_write u))"

definition getAssistantUsage :: "message \<Rightarrow> usage option" where
  "getAssistantUsage msg =
     (case asAssistant msg of
        None \<Rightarrow> None
      | Some m \<Rightarrow>
          (if am_stop_reason m = StopAborted \<or> am_stop_reason m = StopError \<or>
              CalculateContextTokens (am_usage m) \<le> 0 then None
           else Some (am_usage m)))"

definition GetLastAssistantUsage :: "session_entry list \<Rightarrow> usage option" where
  "GetLastAssistantUsage entries =
     (case last_index (\<lambda>e. se_type e = ''message'' \<and> getAssistantUsage (se_message e) \<noteq> None) entries of
        None \<Rightarrow> None | Some i \<Rightarrow> getAssistantUsage (se_message (entries ! i)))"

definition lastAssistantUsageInfo :: "message list \<Rightarrow> (usage \<times> nat) option" where
  "lastAssistantUsageInfo messages =
     (case last_index (\<lambda>m. getAssistantUsage m \<noteq> None) messages of
        None \<Rightarrow> None
      | Some i \<Rightarrow> map_option (\<lambda>u. (u, i)) (getAssistantUsage (messages ! i)))"

definition slen :: "string \<Rightarrow> int" where "slen s = int (length s)"

definition ceilDiv :: "int \<Rightarrow> int \<Rightarrow> int" where "ceilDiv n d = ceil_div (round53 n) d"

definition jsonString :: "bytes \<Rightarrow> string" where
  "jsonString raw = (if raw = [] then ''{}'' else raw)"

definition assistant_chars :: "content_block \<Rightarrow> int" where
  "assistant_chars b =
     (case cb_type b of
        BlockText \<Rightarrow> slen (cb_text b)
      | BlockThinking \<Rightarrow> slen (cb_thinking b)
      | BlockToolCall \<Rightarrow> slen (cb_name b) + slen (jsonString (cb_arguments b))
      | _ \<Rightarrow> 0)"

definition estimateAssistantTokens :: "assistant_message \<Rightarrow> int" where
  "estimateAssistantTokens m = ceilDiv (sum64 assistant_chars (am_content m)) 4"

definition documentRefChars :: "content_block \<Rightarrow> int" where
  "documentRefChars b =
     (if cb_ref_media_type b \<in> set [''text/plain'', ''text/markdown'', ''text/csv''] then
        (if cb_ref_size_bytes b \<le> 0 then 0 else cb_ref_size_bytes b)
      else
        let pages = (if cb_ref_page_count b < 1 then 1 else cb_ref_page_count b)
        in wrap64 (pages * EstimatedDocumentPageChars))"

definition block_chars :: "content_block \<Rightarrow> int" where
  "block_chars b =
     (case cb_type b of
        BlockText \<Rightarrow> slen (cb_text b)
      | BlockImage \<Rightarrow> EstimatedImageChars
      | BlockImageRef \<Rightarrow> EstimatedImageChars
      | BlockDocumentRef \<Rightarrow> documentRefChars b
      | _ \<Rightarrow> 0)"

definition estimateBlocksChars :: "content_block list \<Rightarrow> int" where
  "estimateBlocksChars blocks = sum64 block_chars blocks"

definition estimateUserContentChars :: "user_content \<Rightarrow> int" where
  "estimateUserContentChars c =
     (case uc_blocks c of Some bs \<Rightarrow> estimateBlocksChars bs | None \<Rightarrow> slen (uc_text c))"

fun EstimateTokens :: "message \<Rightarrow> int" where
  "EstimateTokens (UserMessage m) = ceilDiv (estimateUserContentChars (um_content m)) 4"
| "EstimateTokens (PUserMessage (Some m)) = ceilDiv (estimateUserContentChars (um_content m)) 4"
| "EstimateTokens (AssistantMessage m) = estimateAssistantTokens m"
| "EstimateTokens (PAssistantMessage (Some m)) = estimateAssistantTokens m"
| "EstimateTokens (ToolResultMessage m) = ceilDiv (estimateBlocksChars (tr_content m)) 4"
| "EstimateTokens (PToolResultMessage (Some m)) = ceilDiv (estimateBlocksChars (tr_content m)) 4"
| "EstimateTokens _ = 0"

definition EstimateContextTokens :: "message list \<Rightarrow> usage_estimate" where
  "EstimateContextTokens messages =
     (case lastAssistantUsageInfo messages of
        None \<Rightarrow>
          (let estimated = sum64 EstimateTokens messages
           in \<lparr>ue_tokens = estimated, ue_usage_tokens = 0, ue_trailing_tokens = estimated,
               ue_last_usage_index = None\<rparr>)
      | Some (u, index) \<Rightarrow>
          (let usageTokens = CalculateContextTokens u;
               trailing = sum64 EstimateTokens (drop (Suc index) messages)
           in \<lparr>ue_tokens = add64 usageTokens trailing, ue_usage_tokens = usageTokens,
               ue_trailing_tokens = trailing, ue_last_usage_index = Some index\<rparr>))"

definition ShouldCompact :: "int \<Rightarrow> int \<Rightarrow> compaction_settings \<Rightarrow> bool" where
  "ShouldCompact contextTokens contextWindow settings \<longleftrightarrow>
     cs_enabled settings \<and> wrap64 (contextWindow - cs_reserve_tokens settings) < contextTokens"

section \<open>The cut point\<close>

definition role_of :: "message \<Rightarrow> string" where
  "role_of m = (case Role m of Some r \<Rightarrow> r | None \<Rightarrow> [])"

definition starts_turn :: "session_entry \<Rightarrow> bool" where
  "starts_turn e \<longleftrightarrow>
     se_type e = ''branch_summary'' \<or> se_type e = ''custom_message'' \<or>
     (se_type e = ''message'' \<and> se_message e \<noteq> NilMessage \<and>
      (role_of (se_message e) = ''user'' \<or> role_of (se_message e) = ''bashExecution''))"

text \<open>\<open>FindTurnStartIndex\<close>: the last turn start in \<open>[startIndex, entryIndex]\<close>, \<^const>\<open>None\<close> for -1.\<close>

definition FindTurnStartIndex :: "session_entry list \<Rightarrow> nat \<Rightarrow> nat \<Rightarrow> nat option" where
  "FindTurnStartIndex entries entryIndex startIndex =
     find (\<lambda>i. starts_turn (entries ! i)) (rev [startIndex ..< Suc entryIndex])"

definition is_cut_point :: "session_entry \<Rightarrow> bool" where
  "is_cut_point e \<longleftrightarrow>
     (se_type e = ''message'' \<and> se_message e \<noteq> NilMessage \<and>
      role_of (se_message e) \<in> set [''bashExecution'', ''custom'', ''branchSummary'', ''compactionSummary'',
        ''user'', ''assistant'']) \<or>
     se_type e = ''branch_summary'' \<or> se_type e = ''custom_message''"

definition findValidCutPoints :: "session_entry list \<Rightarrow> nat \<Rightarrow> nat \<Rightarrow> nat list" where
  "findValidCutPoints entries startIndex endIndex =
     filter (\<lambda>i. is_cut_point (entries ! i)) [startIndex ..< endIndex]"

text \<open>The backward walk that accumulates tokens, over the indices still to visit.\<close>

fun budget_index :: "session_entry list \<Rightarrow> int \<Rightarrow> int \<Rightarrow> nat list \<Rightarrow> nat option" where
  "budget_index entries keep acc [] = None"
| "budget_index entries keep acc (i # is) =
     (if se_type (entries ! i) \<noteq> ''message'' then budget_index entries keep acc is
      else
        let acc' = add64 acc (EstimateTokens (se_message (entries ! i))) in
        if keep \<le> acc' then Some i else budget_index entries keep acc' is)"

text \<open>The walk back over entries that are neither messages nor compactions.\<close>

fun retreat_cut :: "session_entry list \<Rightarrow> nat \<Rightarrow> nat \<Rightarrow> nat" where
  "retreat_cut entries startIndex 0 = 0"
| "retreat_cut entries startIndex (Suc c) =
     (if Suc c \<le> startIndex then Suc c
      else if se_type (entries ! c) = ''compaction'' \<or> se_type (entries ! c) = ''message'' then Suc c
      else retreat_cut entries startIndex c)"

definition FindCutPoint :: "session_entry list \<Rightarrow> nat \<Rightarrow> nat \<Rightarrow> int \<Rightarrow> cut_point_result" where
  "FindCutPoint entries startIndex endIndex keepRecentTokens =
     (case findValidCutPoints entries startIndex endIndex of
        [] \<Rightarrow> \<lparr>cp_first_kept = startIndex, cp_turn_start = None, cp_split = False\<rparr>
      | first # rest \<Rightarrow>
          (let cut0 = (case budget_index entries keepRecentTokens 0 (rev [startIndex ..< endIndex]) of
                         None \<Rightarrow> first
                       | Some i \<Rightarrow> (case find (\<lambda>c. i \<le> c) (first # rest) of None \<Rightarrow> first | Some c \<Rightarrow> c));
               cut = retreat_cut entries startIndex cut0;
               e = entries ! cut;
               isUser = (se_type e = ''message'' \<and> se_message e \<noteq> NilMessage \<and> role_of (se_message e) = ''user'');
               turn = (if isUser then None else FindTurnStartIndex entries cut startIndex)
           in \<lparr>cp_first_kept = cut, cp_turn_start = turn, cp_split = (\<not> isUser \<and> turn \<noteq> None)\<rparr>))"

end
