(* ===== verification/Compaction_Run.thy ===== *)
theory Compaction_Run
  imports Compaction
begin

text \<open>
  The rest of \<open>internal/compaction/compaction.go\<close>: preparing a compaction from the session
  entries, running the summarisation requests, rebuilding the conversation and projecting old
  tool results; and \<open>internal/session/compact.go\<close>, which runs it between the turns of the agent
  loop.
\<close>

section \<open>Session entries\<close>

definition getMessageFromEntry :: "session_entry \<Rightarrow> message" where
  "getMessageFromEntry e =
     (if se_type e = ''message'' then se_message e
      else if se_type e = ''custom_message'' then
        UserMessage \<lparr>um_content = BlockContent (se_content e), um_timestamp = se_timestamp e\<rparr>
      else if se_type e = ''branch_summary'' then
        UserMessage \<lparr>um_content = StringContent (branchSummaryPrefix @ se_summary e @ branchSummarySuffix),
          um_timestamp = se_timestamp e\<rparr>
      else if se_type e = ''compaction'' then
        UserMessage \<lparr>um_content = StringContent (compactionSummaryPrefix @ se_summary e @ compactionSummarySuffix),
          um_timestamp = se_timestamp e\<rparr>
      else NilMessage)"

definition getMessageFromEntryForCompaction :: "session_entry \<Rightarrow> message" where
  "getMessageFromEntryForCompaction e =
     (if se_type e = ''compaction'' then NilMessage else getMessageFromEntry e)"

definition not_nil :: "message list \<Rightarrow> message list" where
  "not_nil ms = filter (\<lambda>m. m \<noteq> NilMessage) ms"

definition is_compaction :: "session_entry \<Rightarrow> bool" where
  "is_compaction e \<longleftrightarrow> se_type e = ''compaction''"

definition buildContextEntries :: "session_entry list \<Rightarrow> session_entry list" where
  "buildContextEntries entries =
     (case last_index is_compaction entries of
        None \<Rightarrow> entries
      | Some ci \<Rightarrow>
          (let c = entries ! ci
           in c # dropWhile (\<lambda>e. se_id e \<noteq> se_first_kept_entry_id c) (take ci entries) @ drop (Suc ci) entries))"

definition buildSessionContext :: "session_entry list \<Rightarrow> message list" where
  "buildSessionContext entries = not_nil (map getMessageFromEntry (buildContextEntries entries))"

definition extractFileOperations :: "message list \<Rightarrow> session_entry list \<Rightarrow> nat option \<Rightarrow> file_operations" where
  "extractFileOperations messages entries prev =
     (let ops0 = (case prev of
            None \<Rightarrow> CreateFileOps
          | Some ci \<Rightarrow>
              (case se_details (entries ! ci) of
                 Some d \<Rightarrow> (if \<not> se_from_hook (entries ! ci)
                            then CreateFileOps\<lparr>fo_read := set (cd_read_files d), fo_edited := set (cd_modified_files d)\<rparr>
                            else CreateFileOps)
               | None \<Rightarrow> CreateFileOps))
      in fold ExtractFileOpsFromMessage messages ops0)"

definition boundary_start :: "session_entry list \<Rightarrow> nat option \<Rightarrow> nat" where
  "boundary_start entries prev =
     (case prev of
        None \<Rightarrow> 0
      | Some ci \<Rightarrow>
          (case first_index (\<lambda>e. se_id e = se_first_kept_entry_id (entries ! ci)) entries of
             Some i \<Rightarrow> i | None \<Rightarrow> Suc ci))"

definition entry_slice :: "session_entry list \<Rightarrow> nat \<Rightarrow> nat \<Rightarrow> message list" where
  "entry_slice entries a b =
     not_nil (map (\<lambda>i. getMessageFromEntryForCompaction (entries ! i)) [a ..< b])"

definition PrepareCompaction :: "session_entry list \<Rightarrow> compaction_settings \<Rightarrow> compaction_preparation option" where
  "PrepareCompaction entries settings =
     (if entries \<noteq> [] \<and> is_compaction (last entries) then None
      else
        let prev = last_index is_compaction entries;
            previousSummary = (case prev of None \<Rightarrow> [] | Some ci \<Rightarrow> se_summary (entries ! ci));
            start = boundary_start entries prev;
            tokensBefore = ue_tokens (Compaction.EstimateContextTokens (buildSessionContext entries));
            cut = FindCutPoint entries start (length entries) (cs_keep_recent_tokens settings)
        in
        if length entries \<le> cp_first_kept cut \<or> se_id (entries ! cp_first_kept cut) = [] then None
        else
          let historyEnd = (if cp_split cut then the (cp_turn_start cut) else cp_first_kept cut);
              toSummarize = entry_slice entries start historyEnd;
              turnPrefix = (if cp_split cut then entry_slice entries (the (cp_turn_start cut)) (cp_first_kept cut) else [])
          in
          if toSummarize = [] \<and> turnPrefix = [] then None
          else
            let ops = extractFileOperations toSummarize entries prev;
                ops = (if cp_split cut then fold ExtractFileOpsFromMessage turnPrefix ops else ops)
            in Some \<lparr>pp_first_kept_id = se_id (entries ! cp_first_kept cut), pp_to_summarize = toSummarize,
                 pp_turn_prefix = turnPrefix, pp_split = cp_split cut, pp_tokens_before = tokensBefore,
                 pp_previous_summary = previousSummary, pp_file_ops = ops, pp_settings = settings\<rparr>)"

section \<open>Summarisation\<close>

definition SummarizationSystemPrompt :: string where
  "SummarizationSystemPrompt =
     ''You are a context summarization assistant. Your task is to read a conversation between a user and an AI assistant, then produce a structured summary following the exact format specified.'' @ [NL] @
     [NL] @ ''Do NOT continue the conversation. Do NOT respond to any questions in the conversation. ONLY output the structured summary.''"

definition summarizationPrompt :: string where
  "summarizationPrompt =
     ''The messages above are a conversation to summarize. Create a structured context checkpoint summary that another LLM will use to continue the work.'' @ [NL] @
     [NL] @ ''Use this EXACT format:'' @ [NL] @
     [NL] @ ''## Goal'' @ [NL] @
     ''[What is the user trying to accomplish? Can be multiple items if the session covers different tasks.]'' @ [NL] @
     [NL] @ ''## Constraints & Preferences'' @ [NL] @
     ''- [Any constraints, preferences, or requirements mentioned by user]'' @ [NL] @
     ''- [Or \"(none)\" if none were mentioned]'' @ [NL] @
     [NL] @ ''## Progress'' @ [NL] @
     ''### Done'' @ [NL] @
     ''- [x] [Completed tasks/changes]'' @ [NL] @
     [NL] @ ''### In Progress'' @ [NL] @
     ''- [ ] [Current work]'' @ [NL] @
     [NL] @ ''### Blocked'' @ [NL] @
     ''- [Issues preventing progress, if any]'' @ [NL] @
     [NL] @ ''## Key Decisions'' @ [NL] @
     ''- **[Decision]**: [Brief rationale]'' @ [NL] @
     [NL] @ ''## Next Steps'' @ [NL] @
     ''1. [Ordered list of what should happen next]'' @ [NL] @
     [NL] @ ''## Critical Context'' @ [NL] @
     ''- [Any data, examples, or references needed to continue]'' @ [NL] @
     ''- [Or \"(none)\" if not applicable]'' @ [NL] @
     [NL] @ ''Keep each section concise. Preserve exact file paths, function names, and error messages.''"

definition updateSummarizationPrompt :: string where
  "updateSummarizationPrompt =
     ''The messages above are NEW conversation messages to incorporate into the existing summary provided in <previous-summary> tags.'' @ [NL] @
     [NL] @ ''Update the existing structured summary with new information. RULES:'' @ [NL] @
     ''- PRESERVE all existing information from the previous summary'' @ [NL] @
     ''- ADD new progress, decisions, and context from the new messages'' @ [NL] @
     ''- UPDATE the Progress section: move items from \"In Progress\" to \"Done\" when completed'' @ [NL] @
     ''- UPDATE \"Next Steps\" based on what was accomplished'' @ [NL] @
     ''- PRESERVE exact file paths, function names, and error messages'' @ [NL] @
     ''- If something is no longer relevant, you may remove it'' @ [NL] @
     [NL] @ ''Use this EXACT format:'' @ [NL] @
     [NL] @ ''## Goal'' @ [NL] @
     ''[Preserve existing goals, add new ones if the task expanded]'' @ [NL] @
     [NL] @ ''## Constraints & Preferences'' @ [NL] @
     ''- [Preserve existing, add new ones discovered]'' @ [NL] @
     [NL] @ ''## Progress'' @ [NL] @
     ''### Done'' @ [NL] @
     ''- [x] [Include previously done items AND newly completed items]'' @ [NL] @
     [NL] @ ''### In Progress'' @ [NL] @
     ''- [ ] [Current work - update based on progress]'' @ [NL] @
     [NL] @ ''### Blocked'' @ [NL] @
     ''- [Current blockers - remove if resolved]'' @ [NL] @
     [NL] @ ''## Key Decisions'' @ [NL] @
     ''- **[Decision]**: [Brief rationale] (preserve all previous, add new)'' @ [NL] @
     [NL] @ ''## Next Steps'' @ [NL] @
     ''1. [Update based on current state]'' @ [NL] @
     [NL] @ ''## Critical Context'' @ [NL] @
     ''- [Preserve important context, add new if needed]'' @ [NL] @
     [NL] @ ''Keep each section concise. Preserve exact file paths, function names, and error messages.''"

definition turnPrefixSummarizationPrompt :: string where
  "turnPrefixSummarizationPrompt =
     ''This is the PREFIX of a turn that was too large to keep. The SUFFIX (recent work) is retained.'' @ [NL] @
     [NL] @ ''Summarize the prefix to provide context for the retained suffix:'' @ [NL] @
     [NL] @ ''## Original Request'' @ [NL] @
     ''[What did the user ask for in this turn?]'' @ [NL] @
     [NL] @ ''## Early Progress'' @ [NL] @
     ''- [Key decisions and work done in the prefix]'' @ [NL] @
     [NL] @ ''## Context for Suffix'' @ [NL] @
     ''- [Information needed to understand the retained recent work]'' @ [NL] @
     [NL] @ ''Be concise. Focus on what's needed to understand the kept suffix.''"

text \<open>
  \<open>int(0.8 * float64(n))\<close>: the factor is the \<open>float64\<close> nearest to 0.8, which is
  3602879701896397 / 2^52, and the product is rounded to 53 bits.
\<close>

definition four_fifths :: "int \<Rightarrow> int" where
  "four_fifths n = go_quot (round53 (round53 n * 3602879701896397)) (2 ^ 52)"

definition summaryMaxTokens :: "model \<Rightarrow> compaction_settings \<Rightarrow> int" where
  "summaryMaxTokens model settings =
     (let maxTokens = four_fifths (cs_reserve_tokens settings) in
      if 0 < mo_max_tokens model \<and> mo_max_tokens model < maxTokens then mo_max_tokens model else maxTokens)"

datatype summary_error =
    NilStreamFn
  | StreamFailed string
  | NilResult
  | SummarizationFailed string
  | EmptySummary
  | NilPreparation

text \<open>
  The summarisation model: the request context and its token limit give an error or the final
  message, \<^const>\<open>None\<close> for a nil one.  A nil stream function is \<^const>\<open>None\<close>.
\<close>

type_synonym summariser = "(llm_context \<Rightarrow> int \<Rightarrow> string + assistant_message option) option"

definition stop_reason_text :: "stop_reason \<Rightarrow> string" where
  "stop_reason_text r =
     (case r of StopStop \<Rightarrow> ''stop'' | StopLength \<Rightarrow> ''length'' | StopToolUse \<Rightarrow> ''toolUse''
      | StopError \<Rightarrow> ''error'' | StopAborted \<Rightarrow> ''aborted'' | StopOther s \<Rightarrow> s)"

text \<open>The loop over the text blocks writes a newline only after output that is not empty.\<close>

fun join_texts :: "string \<Rightarrow> string list \<Rightarrow> string" where
  "join_texts acc [] = acc"
| "join_texts acc (t # ts) = join_texts (acc @ (if acc \<noteq> [] then [NL] else []) @ t) ts"

definition runSummarization ::
  "summariser \<Rightarrow> time_ms \<Rightarrow> int \<Rightarrow> string \<Rightarrow> summary_error + string" where
  "runSummarization fn now maxTokens promptText =
     (case fn of
        None \<Rightarrow> Inl NilStreamFn
      | Some call \<Rightarrow>
          (case call \<lparr>lc_system_prompt = SummarizationSystemPrompt,
               lc_messages = [UserMessage \<lparr>um_content = StringContent promptText, um_timestamp = now\<rparr>],
               lc_tools = []\<rparr> maxTokens of
             Inl err \<Rightarrow> Inl (StreamFailed err)
           | Inr None \<Rightarrow> Inl NilResult
           | Inr (Some final) \<Rightarrow>
               (if am_stop_reason final = StopError \<or> am_stop_reason final = StopAborted then
                  Inl (SummarizationFailed
                    (if am_error_message final = [] then stop_reason_text (am_stop_reason final)
                     else am_error_message final))
                else
                  let out = join_texts [] (text_blocks (am_content final)) in
                  if trim_space out = [] then Inl EmptySummary else Inr out)))"

definition GenerateSummary ::
  "(string \<Rightarrow> string) \<Rightarrow> summariser \<Rightarrow> time_ms \<Rightarrow> model \<Rightarrow> compaction_settings \<Rightarrow> message list \<Rightarrow> string \<Rightarrow>
   summary_error + string" where
  "GenerateSummary num_text fn now model settings messages previousSummary =
     (let updating = trim_space previousSummary \<noteq> [];
          promptText =
            ''<conversation>'' @ [NL] @ SerializeConversation num_text messages @ [NL] @ ''</conversation>'' @ [NL, NL] @
            (if updating then ''<previous-summary>'' @ [NL] @ previousSummary @ [NL] @ ''</previous-summary>'' @ [NL, NL]
             else []) @
            (if updating then updateSummarizationPrompt else summarizationPrompt)
      in runSummarization fn now (summaryMaxTokens model settings) promptText)"

definition GenerateTurnPrefixSummary ::
  "(string \<Rightarrow> string) \<Rightarrow> summariser \<Rightarrow> time_ms \<Rightarrow> model \<Rightarrow> compaction_settings \<Rightarrow> message list \<Rightarrow>
   summary_error + string" where
  "GenerateTurnPrefixSummary num_text fn now model settings messages =
     runSummarization fn now (summaryMaxTokens model settings)
       (''<conversation>'' @ [NL] @ SerializeConversation num_text messages @ [NL] @ ''</conversation>'' @ [NL, NL] @
        turnPrefixSummarizationPrompt)"

definition split_summary :: "string \<Rightarrow> string \<Rightarrow> string" where
  "split_summary history pfx =
     history @ [NL, NL] @ ''---'' @ [NL, NL] @ ''**Turn Context (split turn):**'' @ [NL, NL] @ pfx"

definition Compact ::
  "(string \<Rightarrow> string) \<Rightarrow> summariser \<Rightarrow> time_ms \<Rightarrow> model \<Rightarrow> compaction_preparation option \<Rightarrow> summary_error + string" where
  "Compact num_text fn now model prep =
     (case prep of
        None \<Rightarrow> Inl NilPreparation
      | Some p \<Rightarrow>
          (let gen = GenerateSummary num_text fn now model (pp_settings p) (pp_to_summarize p) (pp_previous_summary p);
               summary =
                 (if pp_split p \<and> pp_turn_prefix p \<noteq> [] then
                    (case (if pp_to_summarize p \<noteq> [] then gen else Inr ''No prior history.'') of
                       Inl err \<Rightarrow> Inl err
                     | Inr history \<Rightarrow>
                         (case GenerateTurnPrefixSummary num_text fn now model (pp_settings p) (pp_turn_prefix p) of
                            Inl err \<Rightarrow> Inl err
                          | Inr pfx \<Rightarrow> Inr (split_summary history pfx)))
                  else gen);
               (readFiles, modifiedFiles) = ComputeFileLists (pp_file_ops p)
           in case summary of
                Inl err \<Rightarrow> Inl err
              | Inr s \<Rightarrow> Inr (s @ FormatFileOperations readFiles modifiedFiles)))"

section \<open>The rebuilt conversation\<close>

definition keptMessages :: "session_entry list \<Rightarrow> string \<Rightarrow> message list" where
  "keptMessages entries firstKept =
     (case first_index (\<lambda>e. se_id e = firstKept) entries of
        None \<Rightarrow> [] | Some i \<Rightarrow> not_nil (map getMessageFromEntry (drop i entries)))"

definition mergeSummaryIntoUser :: "time_ms \<Rightarrow> string \<Rightarrow> user_message \<Rightarrow> user_message" where
  "mergeSummaryIntoUser now summaryText u =
     \<lparr>um_content = BlockContent (Some (NewText summaryText #
        (case uc_blocks (um_content u) of
           Some bs \<Rightarrow> bs
         | None \<Rightarrow> if trim_space (uc_text (um_content u)) \<noteq> [] then [NewText (uc_text (um_content u))] else []))),
      um_timestamp = (if um_timestamp u = 0 then now else um_timestamp u)\<rparr>"

definition ApplyCompaction ::
  "time_ms \<Rightarrow> session_entry list \<Rightarrow> compaction_preparation option \<Rightarrow> string \<Rightarrow> message list" where
  "ApplyCompaction now entries prep summary =
     (case prep of
        None \<Rightarrow> buildSessionContext entries
      | Some p \<Rightarrow>
          (let kept = keptMessages entries (pp_first_kept_id p);
               summaryText = compactionSummaryPrefix @ summary @ compactionSummarySuffix;
               alone = UserMessage \<lparr>um_content = StringContent summaryText, um_timestamp = now\<rparr> # kept
           in case kept of
                [] \<Rightarrow> alone
              | m # rest \<Rightarrow>
                  (case asUser m of
                     Some u \<Rightarrow> UserMessage (mergeSummaryIntoUser now summaryText u) # rest
                   | None \<Rightarrow> alone)))"

section \<open>Between turns\<close>

record compaction_runner =
  cr_context_window :: int
  cr_model :: model
  cr_settings :: compaction_settings

definition newCompactionRunner :: "model \<Rightarrow> summariser \<Rightarrow> compaction_runner option" where
  "newCompactionRunner model fn =
     (if fn = None \<or> mo_context_window model \<le> 0 then None
      else Some \<lparr>cr_context_window = mo_context_window model, cr_model = model,
        cr_settings = DefaultCompactionSettings\<rparr>)"

definition message_entry :: "nat \<times> message \<Rightarrow> session_entry" where
  "message_entry im =
     \<lparr>se_id = show_nat (fst im + 1), se_type = ''message'', se_message = snd im, se_summary = [],
      se_tokens_before = 0, se_first_kept_entry_id = [], se_details = None, se_from_hook = False,
      se_content = None, se_timestamp = 0\<rparr>"

definition messagesToEntries :: "message list \<Rightarrow> session_entry list" where
  "messagesToEntries messages =
     map message_entry (filter (\<lambda>im. snd im \<noteq> NilMessage) (List.enumerate 0 messages))"

definition maybeCompact ::
  "(string \<Rightarrow> string) \<Rightarrow> summariser \<Rightarrow> time_ms \<Rightarrow> compaction_runner option \<Rightarrow> message list \<Rightarrow> message list \<times> bool" where
  "maybeCompact num_text fn now runner messages =
     (case runner of
        None \<Rightarrow> (messages, False)
      | Some r \<Rightarrow>
          (if messages = [] then (messages, False)
           else if \<not> ShouldCompact (ue_tokens (Compaction.EstimateContextTokens messages)) (cr_context_window r) (cr_settings r)
           then (messages, False)
           else
             let entries = messagesToEntries messages; prep = PrepareCompaction entries (cr_settings r) in
             case prep of
               None \<Rightarrow> (messages, False)
             | Some p \<Rightarrow>
                 (if pp_to_summarize p = [] \<and> pp_turn_prefix p = [] then (messages, False)
                  else case Compact num_text fn now (cr_model r) prep of
                    Inl _ \<Rightarrow> (messages, False)
                  | Inr summary \<Rightarrow> (ApplyCompaction now entries prep summary, True))))"

section \<open>Old tool results\<close>

record transform_options =
  to_window :: int
  to_spill :: bool
  to_spill_dir :: string

datatype project_error = SpillWithoutDir | ProjectCancelled | SpillFailed

definition shortHash :: "string \<Rightarrow> string" where
  "shortHash value =
     (let h = fold (\<lambda>c h. (xor h (of_nat (byte c))) * 16777619) value (2166136261 :: 32 word);
          n = unat h
      in map (\<lambda>i. hex_digit (n div 16 ^ i mod 16)) (rev [0..<8]))"

definition safeFileName :: "(rune \<Rightarrow> bool) \<Rightarrow> string \<Rightarrow> string" where
  "safeFileName uletter tid =
     (let keep = (\<lambda>r. if r < 128 then ((48 \<le> r \<and> r \<le> 57) \<or> (65 \<le> r \<and> r \<le> 90) \<or> (97 \<le> r \<and> r \<le> 122)) \<or> r = 45 \<or> r = 95 \<or> r = 46 else uletter r);
          out = concat (map (\<lambda>r. if keep r then encode_rune r else ''_'') (runes tid));
          dot = (\<lambda>c. c = CHR ''.'')
      in rev (dropWhile dot (rev (dropWhile dot out))))"

text \<open>
  \<open>spillToolResult\<close> against a directory that can be prepared or not, the clock in nanoseconds
  for a result without a usable identifier, the library's path join and the write of the file;
  it returns the files written and the path.
\<close>

record spill_env =
  sp_dir_ok :: bool
  sp_now_nanos :: int
  sp_join :: "string \<Rightarrow> string \<Rightarrow> string"
  sp_write_ok :: "string \<Rightarrow> bool"
  sp_letter :: "rune \<Rightarrow> bool"

definition spill_name :: "spill_env \<Rightarrow> tool_result_message \<Rightarrow> string" where
  "spill_name env r =
     (let name = safeFileName (sp_letter env) (tr_tool_call_id r) in
      if name = [] then ''tool-'' @ show_int (sp_now_nanos env)
      else name @ ''-'' @ shortHash (tr_tool_call_id r))"

definition spillToolResult ::
  "spill_env \<Rightarrow> string \<Rightarrow> tool_result_message \<Rightarrow> (string \<times> string) option" where
  "spillToolResult env dir r =
     (if \<not> sp_dir_ok env then None
      else
        let path = sp_join env dir (spill_name env r @ ''.txt'');
            content = ''Tool: '' @ tr_tool_name r @ [NL] @ ''Tool call ID: '' @ tr_tool_call_id r @ [NL, NL] @ toolResultText r
        in if sp_write_ok env path then Some (path, content) else None)"

definition cleared :: "tool_result_message \<Rightarrow> string option \<Rightarrow> tool_result_message" where
  "cleared r path =
     r\<lparr>tr_content := [NewText
        (case path of
           Some p \<Rightarrow> ''[Tool result cleared to save context. Tool: '' @ tr_tool_name r @ ''. Tool call ID: '' @
                     tr_tool_call_id r @ ''. Full output: '' @ p @ '']''
         | None \<Rightarrow> ''[Tool result cleared to save context. Tool: '' @ tr_tool_name r @ ''. Tool call ID: '' @
                     tr_tool_call_id r @ ''.]'')]\<rparr>"

text \<open>
  The backward loop, over the reversed messages; \<open>c\<close> says whether the context is cancelled at a
  message.  It returns the messages and the files written, in the order of the loop.
\<close>

fun project_loop ::
  "spill_env \<Rightarrow> transform_options \<Rightarrow> (message \<Rightarrow> bool) \<Rightarrow> int \<Rightarrow> message list \<Rightarrow>
   project_error + message list \<times> (string \<times> string) list" where
  "project_loop env opts c keep [] = Inr ([], [])"
| "project_loop env opts c keep (msg # ms) =
     (if c msg then Inl ProjectCancelled
      else case asToolResult msg of
        None \<Rightarrow> map_sum id (apfst ((#) msg)) (project_loop env opts c keep ms)
      | Some r \<Rightarrow>
          (if 0 < keep then map_sum id (apfst ((#) msg)) (project_loop env opts c (keep - 1) ms)
           else if to_spill opts then
             (case spillToolResult env (to_spill_dir opts) r of
                None \<Rightarrow> Inl SpillFailed
              | Some f \<Rightarrow>
                  map_sum id (\<lambda>(out, fs). (ToolResultMessage (cleared r (Some (fst f))) # out, f # fs))
                    (project_loop env opts c keep ms))
           else map_sum id (apfst ((#) (ToolResultMessage (cleared r None)))) (project_loop env opts c keep ms)))"

definition ProjectToolResults ::
  "spill_env \<Rightarrow> transform_options \<Rightarrow> (message \<Rightarrow> bool) \<Rightarrow> message list \<Rightarrow>
   project_error + message list \<times> (string \<times> string) list" where
  "ProjectToolResults env opts c messages =
     (let window = (if to_window opts \<le> 0 then DefaultToolWindow else to_window opts) in
      if to_spill opts \<and> to_spill_dir opts = [] then Inl SpillWithoutDir
      else map_sum id (apfst rev) (project_loop env opts c window (rev messages)))"

definition Transform ::
  "spill_env \<Rightarrow> transform_options \<Rightarrow> (message \<Rightarrow> bool) \<Rightarrow> message list \<Rightarrow> message list" where
  "Transform env opts c messages =
     (case ProjectToolResults env opts c messages of Inl _ \<Rightarrow> messages | Inr (out, _) \<Rightarrow> out)"

end
