(* ===== verification/Compaction_Facts.thy ===== *)
theory Compaction_Facts
  imports Compaction_Run Transform_Messages
begin

text \<open>
  What compaction keeps of a conversation: the rebuilt transcript of \<open>maybeCompact\<close> still answers
  every tool call, and the projection of old tool results changes nothing but the text of results
  outside the window.
\<close>

section \<open>Cutting at a user or assistant message\<close>

definition opens :: "message \<Rightarrow> bool" where
  "opens m \<longleftrightarrow> asUser m \<noteq> None \<or> asAssistant m \<noteq> None"

lemma answered_tail: "answered p s (x # xs) \<Longrightarrow> \<exists>p' s'. answered p' s' xs"
  by (cases x rule: deref.cases) (auto split: option.splits)

lemma answered_opens: "answered p s (m # ms) \<Longrightarrow> opens m \<Longrightarrow> answered [] [] (m # ms)"
  by (cases m rule: deref.cases) (auto simp: opens_def split: option.splits)

lemma answered_suffix: "answered p s (xs @ m # ms) \<Longrightarrow> opens m \<Longrightarrow> answered [] [] (m # ms)"
proof (induction xs arbitrary: p s)
  case Nil
  then show ?case using answered_opens by simp
next
  case (Cons x xs)
  from answered_tail [of p s x "xs @ m # ms"] Cons.prems(1) obtain p' s' where "answered p' s' (xs @ m # ms)" by auto
  from Cons.IH [OF this Cons.prems(2)] show ?case .
qed

lemma answered_not_nil: "answered p s (not_nil ms) \<longleftrightarrow> answered p s ms"
proof (induction ms arbitrary: p s)
  case Nil
  then show ?case by (simp add: not_nil_def)
next
  case (Cons m ms)
  then show ?case by (cases m rule: deref.cases) (auto simp: not_nil_def split: option.splits)
qed

lemma answered_user: "asUser m = Some u \<Longrightarrow> answered [] [] (m # ms) \<longleftrightarrow> answered [] [] ms"
  by (cases m rule: deref.cases) auto

section \<open>The entries of a transcript\<close>

lemma filter_enumerate: "map snd (filter (\<lambda>im. P (snd im)) (List.enumerate n xs)) = filter P xs"
  by (induction xs arbitrary: n) simp_all

lemma entries_messages: "map se_message (messagesToEntries messages) = not_nil messages"
  using filter_enumerate [of "\<lambda>m. m \<noteq> NilMessage" 0 messages]
  unfolding messagesToEntries_def message_entry_def not_nil_def by (simp add: comp_def)

lemma entries_type: "e \<in> set (messagesToEntries messages) \<Longrightarrow> se_type e = ''message''"
  by (auto simp: messagesToEntries_def message_entry_def)

lemma entries_ids: "distinct (map se_id (messagesToEntries messages))"
proof -
  have "map se_id (messagesToEntries messages) =
      map (\<lambda>i. show_nat (i + 1)) (map fst (filter (\<lambda>im. snd im \<noteq> NilMessage) (List.enumerate 0 messages)))"
    by (simp add: messagesToEntries_def message_entry_def comp_def)
  moreover have "distinct (map fst (filter (\<lambda>im. snd im \<noteq> NilMessage) (List.enumerate 0 messages)))"
    by (simp add: distinct_map_filter)
  ultimately show ?thesis by (simp add: distinct_map inj_on_def)
qed

section \<open>The cut\<close>

definition only_messages :: "session_entry list \<Rightarrow> bool" where
  "only_messages es \<longleftrightarrow> (\<forall>e \<in> set es. se_type e = ''message'')"

lemma cut_point_opens: "is_cut_point e \<Longrightarrow> se_type e = ''message'' \<Longrightarrow> opens (se_message e)"
  by (cases "se_message e" rule: Role.cases) (auto simp: is_cut_point_def role_of_def opens_def)

lemma retreat_message:
  assumes "only_messages es" "c \<le> length es" shows "retreat_cut es start c = c"
  using assms by (cases c) (auto simp: only_messages_def)

lemma find_in_set: "find P xs = Some x \<Longrightarrow> x \<in> set xs \<and> P x"
  by (induction xs) (auto split: if_splits)

lemma turn_start_range:
  "FindTurnStartIndex es c start = Some t \<Longrightarrow> start \<le> t \<and> t \<le> c"
  unfolding FindTurnStartIndex_def by (drule find_in_set) auto

lemma cut_point_index:
  assumes "only_messages es" "FindCutPoint es start (length es) keep = cp" "cp_first_kept cp \<noteq> start"
  shows "start < cp_first_kept cp \<and> cp_first_kept cp < length es \<and> opens (se_message (es ! cp_first_kept cp))"
proof -
  let ?cs = "findValidCutPoints es start (length es)"
  from assms(2,3) obtain first rest where cs: "?cs = first # rest"
    unfolding FindCutPoint_def by (cases ?cs) auto
  define cut0 where "cut0 = (case budget_index es keep 0 (rev [start ..< length es]) of
                         None \<Rightarrow> first
                       | Some i \<Rightarrow> (case find (\<lambda>c. i \<le> c) (first # rest) of None \<Rightarrow> first | Some c \<Rightarrow> c))"
  have "cut0 \<in> set ?cs"
    unfolding cut0_def cs
    by (auto split: option.splits if_splits dest: find_in_set)
  then have c: "start \<le> cut0" "cut0 < length es" "is_cut_point (es ! cut0)"
    by (auto simp: findValidCutPoints_def)
  have "se_type (es ! cut0) = ''message''" using assms(1) c(2) by (simp add: only_messages_def)
  then have o: "opens (se_message (es ! cut0))" using cut_point_opens c(3) by blast
  have "cp_first_kept cp = cut0"
    using assms(2) retreat_message [OF assms(1), of cut0 start] c(2)
    unfolding FindCutPoint_def cs cut0_def by (auto simp: Let_def)
  with c o assms(3) show ?thesis by simp
qed

lemma prepared_cut:
  assumes "only_messages es" "PrepareCompaction es settings = Some p"
  obtains k where "0 < k" "k < length es" "opens (se_message (es ! k))" "pp_first_kept_id p = se_id (es ! k)"
proof -
  define cp where "cp = FindCutPoint es 0 (length es) (cs_keep_recent_tokens settings)"
  have prev: "last_index is_compaction es = None"
    using assms(1) by (auto simp: last_index_None_iff is_compaction_def only_messages_def)
  have p: "pp_first_kept_id p = se_id (es ! cp_first_kept cp)"
    and some: "entry_slice es 0 (if cp_split cp then the (cp_turn_start cp) else cp_first_kept cp) \<noteq> [] \<or>
      (cp_split cp \<and> entry_slice es (the (cp_turn_start cp)) (cp_first_kept cp) \<noteq> [])"
    using assms(2) unfolding PrepareCompaction_def prev boundary_start_def option.case Let_def cp_def [symmetric]
    by (auto split: if_splits)
  have split: "cp_split cp \<Longrightarrow> the (cp_turn_start cp) \<le> cp_first_kept cp"
    unfolding cp_def FindCutPoint_def by (auto simp: Let_def split: list.splits if_splits dest: turn_start_range)
  have "cp_first_kept cp \<noteq> 0"
  proof
    assume z: "cp_first_kept cp = 0"
    with split have "cp_split cp \<Longrightarrow> the (cp_turn_start cp) = 0" by simp
    with z some show False by (auto simp: entry_slice_def not_nil_def split: if_splits)
  qed
  from cut_point_index [OF assms(1) cp_def [symmetric] this] show thesis
    by (intro that [of "cp_first_kept cp"]) (simp_all add: p)
qed

section \<open>The rebuilt conversation\<close>

lemma first_index_distinct:
  assumes "distinct (map f xs)" "k < length xs" shows "first_index (\<lambda>x. f x = f (xs ! k)) xs = Some k"
proof (cases "first_index (\<lambda>x. f x = f (xs ! k)) xs")
  case None
  with assms(2) show ?thesis by (auto simp: first_index_None_iff)
next
  case (Some i)
  from first_index_Some [OF this] assms show ?thesis using Some
    by (auto simp: distinct_conv_nth)
qed

lemma not_nil_idem [simp]: "not_nil (drop k (not_nil ms)) = drop k (not_nil ms)"
  by (auto simp: not_nil_def filter_id_conv dest: in_set_dropD)

lemma kept_drop:
  assumes "k < length (messagesToEntries messages)"
  shows "keptMessages (messagesToEntries messages) (se_id (messagesToEntries messages ! k)) = drop k (not_nil messages)"
proof -
  let ?es = "messagesToEntries messages"
  have "map getMessageFromEntry (drop k ?es) = map se_message (drop k ?es)"
    by (auto simp: getMessageFromEntry_def dest!: in_set_dropD entries_type)
  also have "\<dots> = drop k (not_nil messages)" by (simp add: drop_map [symmetric] entries_messages)
  finally show ?thesis
    using first_index_distinct [OF entries_ids assms] by (simp add: keptMessages_def)
qed

definition summary_message :: "string \<Rightarrow> string" where
  "summary_message s = compactionSummaryPrefix @ s @ compactionSummarySuffix"

text \<open>C18: Compaction between turns never breaks a conversation.  If every tool call of the transcript
  is answered, the same holds of the transcript \<open>maybeCompact\<close> returns, so no cut separates a call
  from its results; without a compaction the transcript is returned as it was (under budget,
  nothing to summarise, or a failed summarisation); with one, the result is the transcript without
  a non-empty prefix, opened by a user message that carries the summary, merged into the first
  kept message when that is a user message.
\<close>

theorem maybeCompact_keeps_answers:
  assumes "answered [] [] messages" "maybeCompact num_text fn now runner messages = (out, compacted)"
  shows "answered [] [] out \<and>
    (if compacted then
       \<exists>k s. 0 < k \<and> k < length (not_nil messages) \<and>
         (case asUser (not_nil messages ! k) of
            Some u \<Rightarrow> out = UserMessage (mergeSummaryIntoUser now (summary_message s) u) # drop (Suc k) (not_nil messages)
          | None \<Rightarrow> out = UserMessage \<lparr>um_content = StringContent (summary_message s), um_timestamp = now\<rparr>
                            # drop k (not_nil messages))
     else out = messages)"
proof (cases compacted)
  case False
  with assms show ?thesis
    by (auto simp: maybeCompact_def Let_def split: option.splits if_splits sum.splits)
next
  case True
  let ?es = "messagesToEntries messages"
  from assms(2) True obtain settings p s where p: "PrepareCompaction ?es settings = Some p"
    and out: "out = ApplyCompaction now ?es (Some p) s"
    by (auto simp: maybeCompact_def Let_def split: option.splits if_splits sum.splits)
  from prepared_cut [OF _ p] entries_type obtain k
    where k: "0 < k" "k < length ?es" "opens (se_message (?es ! k))" "pp_first_kept_id p = se_id (?es ! k)"
    by (auto simp: only_messages_def)
  define ms where "ms = not_nil messages"
  have len: "length ms = length ?es" and nth: "se_message (?es ! k) = ms ! k"
    using entries_messages [of messages] k(2) unfolding ms_def by (metis length_map, metis nth_map)
  have ms: "ms = take k ms @ ms ! k # drop (Suc k) ms" using k(2) len by (simp add: id_take_nth_drop)
  have d: "drop k ms = ms ! k # drop (Suc k) ms" using k(2) len by (simp add: Cons_nth_drop_Suc)
  have "answered [] [] ms" using assms(1) by (simp add: ms_def answered_not_nil)
  then have a: "answered [] [] (ms ! k # drop (Suc k) ms)" using answered_suffix ms k(3) nth by metis
  have kept: "keptMessages ?es (pp_first_kept_id p) = ms ! k # drop (Suc k) ms"
    using kept_drop [OF k(2)] d by (simp add: k(4) ms_def)
  have "answered [] [] out \<and> (case asUser (ms ! k) of
      Some u \<Rightarrow> out = UserMessage (mergeSummaryIntoUser now (summary_message s) u) # drop (Suc k) ms
    | None \<Rightarrow> out = UserMessage \<lparr>um_content = StringContent (summary_message s), um_timestamp = now\<rparr> # drop k ms)"
  proof (cases "asUser (ms ! k)")
    case None
    then have "out = UserMessage \<lparr>um_content = StringContent (summary_message s), um_timestamp = now\<rparr> # ms ! k # drop (Suc k) ms"
      by (simp add: out ApplyCompaction_def kept summary_message_def Let_def)
    with a None d show ?thesis by simp
  next
    case (Some u)
    then have "out = UserMessage (mergeSummaryIntoUser now (summary_message s) u) # drop (Suc k) ms"
      by (simp add: out ApplyCompaction_def kept summary_message_def Let_def)
    with answered_user [OF Some] a Some show ?thesis by simp
  qed
  with k(1,2) len True show ?thesis unfolding ms_def [symmetric] by (simp del: not_nil_idem) metis
qed

definition demo_runner :: compaction_runner where
  "demo_runner = \<lparr>cr_context_window = 110, cr_model = vision_model,
     cr_settings = \<lparr>cs_enabled = True, cs_reserve_tokens = 109, cs_keep_recent_tokens = 2\<rparr>\<rparr>"

definition demo_summariser :: summariser where
  "demo_summariser = Some (\<lambda>_ _. Inr (Some ((empty_assistant ''a'' ''p'' ''m'')\<lparr>am_content := [NewText ''done'']\<rparr>)))"

lemma demo_summary: "runSummarization demo_summariser now n t = Inr ''done''"
proof -
  have "join_texts [] (text_blocks [NewText ''done'']) = ''done''" "trim_space ''done'' \<noteq> []" by code_simp+
  then show ?thesis by (simp add: runSummarization_def demo_summariser_def empty_assistant_def)
qed

lemma demo_preparation:
  "map_option (\<lambda>p. pp_turn_prefix p \<noteq> [] \<and> pp_to_summarize p = [] \<and> pp_split p)
     (PrepareCompaction (messagesToEntries demo_turns) (cr_settings demo_runner)) = Some True"
  by code_simp

theorem maybeCompact_keeps_answers_witness:
  "answered [] [] (fst (maybeCompact (\<lambda>s. s) demo_summariser 7 (Some demo_runner) demo_turns)) \<and>
   snd (maybeCompact (\<lambda>s. s) demo_summariser 7 (Some demo_runner) demo_turns)"
proof
  have "answered [] [] demo_turns" by code_simp
  from maybeCompact_keeps_answers [OF this prod.collapse [symmetric]]
  show "answered [] [] (fst (maybeCompact (\<lambda>s. s) demo_summariser 7 (Some demo_runner) demo_turns))" by blast
  obtain p where p: "PrepareCompaction (messagesToEntries demo_turns) (cr_settings demo_runner) = Some p"
    and nonempty: "pp_turn_prefix p \<noteq> [] \<and> pp_to_summarize p = [] \<and> pp_split p"
    using demo_preparation by auto
  have over: "ShouldCompact (ue_tokens (Compaction.EstimateContextTokens demo_turns)) (cr_context_window demo_runner)
      (cr_settings demo_runner)" by code_simp
  have "demo_turns \<noteq> []" by (simp add: demo_turns_def)
  with p nonempty over show "snd (maybeCompact (\<lambda>s. s) demo_summariser 7 (Some demo_runner) demo_turns)"
    by (simp add: maybeCompact_def Let_def Compact_def GenerateTurnPrefixSummary_def demo_summary split_def)
qed

section \<open>Old tool results\<close>

definition result_count :: "message list \<Rightarrow> int" where
  "result_count ms = int (length (filter (\<lambda>m. asToolResult m \<noteq> None) ms))"

definition spill_path :: "spill_env \<Rightarrow> transform_options \<Rightarrow> tool_result_message \<Rightarrow> string option" where
  "spill_path env opts r =
     (if to_spill opts then Some (sp_join env (to_spill_dir opts) (spill_name env r @ ''.txt'')) else None)"

definition projected :: "spill_env \<Rightarrow> transform_options \<Rightarrow> message \<Rightarrow> message" where
  "projected env opts m =
     (case asToolResult m of None \<Rightarrow> m | Some r \<Rightarrow> ToolResultMessage (cleared r (spill_path env opts r)))"

lemma result_count_simps [simp]:
  "result_count [] = 0"
  "result_count (m # ms) = (if asToolResult m = None then 0 else 1) + result_count ms"
  "result_count (ms @ ns) = result_count ms + result_count ns"
  "result_count (rev ms) = result_count ms"
  by (auto simp: result_count_def rev_filter [symmetric])

lemma result_count_nonneg [simp]: "0 \<le> result_count ms"
  by (simp add: result_count_def)

lemma spillToolResult_path:
  "spillToolResult env (to_spill_dir opts) r = Some f \<Longrightarrow> to_spill opts \<Longrightarrow> spill_path env opts r = Some (fst f)"
  by (auto simp: spillToolResult_def spill_path_def Let_def split: if_splits)

lemma project_loop_shape:
  "project_loop env opts c keep ms = Inr (out, fs) \<Longrightarrow>
   length out = length ms \<and>
   (\<forall>i < length ms. out ! i = (if result_count (take i ms) < keep then ms ! i else projected env opts (ms ! i)))"
proof (induction ms arbitrary: keep out fs)
  case Nil
  then show ?case by simp
next
  case (Cons m ms)
  have rec: "length out' = length ms \<and> (\<forall>i < length ms. out' ! i =
      (if result_count (take i ms) < keep' then ms ! i else projected env opts (ms ! i)))"
    if "project_loop env opts c keep' ms = Inr (out', fs')" for keep' out' fs'
    by (rule Cons.IH [OF that])
  have small: "\<not> result_count (take i ms) < keep" if "\<not> 0 < keep" for i
    using that result_count_nonneg [of "take i ms"] by linarith
  show ?case
  proof (cases "asToolResult m")
    case None
    with Cons.prems obtain out' where "project_loop env opts c keep ms = Inr (out', fs)" "out = m # out'"
      by (auto split: if_splits sum.splits simp: map_sum_def apfst_def map_prod_def)
    with rec [OF this(1)] None show ?thesis by (auto simp: nth_Cons projected_def split: nat.splits)
  next
    case (Some r)
    show ?thesis
    proof (cases "0 < keep")
      case True
      with Some Cons.prems obtain out' where "project_loop env opts c (keep - 1) ms = Inr (out', fs)" "out = m # out'"
        by (auto split: if_splits sum.splits simp: map_sum_def apfst_def map_prod_def)
      with rec [OF this(1)] Some True show ?thesis by (auto simp: nth_Cons split: nat.splits)
    next
      case False
      have "\<exists>out' fs'. project_loop env opts c keep ms = Inr (out', fs') \<and> out = projected env opts m # out'"
      proof (cases "to_spill opts")
        case True
        with Some False Cons.prems obtain f where "spillToolResult env (to_spill_dir opts) r = Some f"
          by (auto split: if_splits option.splits)
        with True Some False Cons.prems spillToolResult_path [OF this True] show ?thesis
          by (auto split: if_splits sum.splits simp: map_sum_def projected_def)
      next
        case nospill: False
        with Some False Cons.prems show ?thesis
          by (auto split: if_splits sum.splits simp: map_sum_def apfst_def map_prod_def projected_def spill_path_def)
      qed
      then obtain out' fs' where "project_loop env opts c keep ms = Inr (out', fs')" "out = projected env opts m # out'"
        by blast
      moreover have "\<not> 1 + result_count (take i ms) < keep" for i
        using False result_count_nonneg [of "take i ms"] by linarith
      ultimately show ?thesis using rec Some False small [OF False]
        by (auto simp: nth_Cons split: nat.splits)
    qed
  qed
qed

lemma answered_projected:
  "list_all2 (\<lambda>m m'. m' = m \<or> (\<exists>r p. asToolResult m = Some r \<and> m' = ToolResultMessage (cleared r p))) ms out \<Longrightarrow>
   answered p s out \<longleftrightarrow> answered p s ms"
proof (induction ms out arbitrary: p s rule: list_all2_induct)
  case Nil
  then show ?case by simp
next
  case (Cons m ms m' out)
  have res: "answered p s (ToolResultMessage (cleared r x) # out) \<longleftrightarrow> answered p s (m # ms)" if "asToolResult m = Some r" for r x
    using that Cons.IH by (cases m rule: deref.cases) (auto simp: cleared_def)
  show ?case
  proof (cases "m' = m")
    case True
    then show ?thesis using Cons.IH by (cases m rule: deref.cases) (auto split: option.splits)
  next
    case False
    with Cons.hyps(1) res show ?thesis by blast
  qed
qed

text \<open>C23: The projection of old tool results keeps a transcript usable.  The result has a message for
  each message; everything but the tool results, and the last \<open>window\<close> tool results, is
  unchanged; an older tool result keeps its call identifier, tool name and error flag and has its
  content replaced by one text block that names the tool, the call and, when spilling, the file the
  text went to.  So every tool call that was answered still is, and the last window of results is
  the default of 16 when none is set.
\<close>

theorem ProjectToolResults_keeps_window:
  assumes "ProjectToolResults env opts c messages = Inr (out, files)"
  shows "length out = length messages \<and>
    out = map (\<lambda>i. if result_count (drop (Suc i) messages) < (if to_window opts \<le> 0 then 16 else to_window opts)
                   then messages ! i else projected env opts (messages ! i)) [0 ..< length messages] \<and>
    answered [] [] out = answered [] [] messages"
proof -
  define w where "w = (if to_window opts \<le> 0 then 16 else to_window opts)"
  obtain rout where r: "project_loop env opts c w (rev messages) = Inr (rout, files)" and out: "out = rev rout"
    using assms by (auto simp: ProjectToolResults_def Let_def w_def DefaultToolWindow_def map_sum_def apfst_def map_prod_def
        split: if_splits sum.splits)
  note shape = project_loop_shape [OF r]
  have nth: "out ! i = (if result_count (drop (Suc i) messages) < w then messages ! i else projected env opts (messages ! i))"
    if i: "i < length messages" for i
  proof -
    let ?j = "length messages - Suc i"
    have "take ?j (rev messages) = rev (drop (Suc i) messages)" using i by (simp add: take_rev)
    moreover have "rev messages ! ?j = messages ! i" "out ! i = rout ! ?j" "?j < length messages"
      using i shape by (simp_all add: out rev_nth)
    ultimately show ?thesis using shape by simp
  qed
  have len: "length out = length messages" using shape by (simp add: out)
  have map: "out = map (\<lambda>i. if result_count (drop (Suc i) messages) < w then messages ! i
      else projected env opts (messages ! i)) [0 ..< length messages]"
    using len nth by (auto intro: nth_equalityI)
  have "list_all2 (\<lambda>m m'. m' = m \<or> (\<exists>r p. asToolResult m = Some r \<and> m' = ToolResultMessage (cleared r p))) messages out"
    using len nth by (auto simp: list_all2_conv_all_nth projected_def split: option.splits)
  from answered_projected [OF this] len map show ?thesis by (simp add: w_def)
qed

definition demo_spill :: spill_env where
  "demo_spill = \<lparr>sp_dir_ok = True, sp_now_nanos = 5, sp_join = (\<lambda>d n. d @ ''/'' @ n), sp_write_ok = (\<lambda>_. True),
     sp_letter = (\<lambda>_. False)\<rparr>"

theorem ProjectToolResults_keeps_window_witness:
  "answered [] [] (case ProjectToolResults demo_spill \<lparr>to_window = 1, to_spill = True, to_spill_dir = ''d''\<rparr> (\<lambda>_. False)
      (demo_turns @ demo_turns) of Inr (out, files) \<Rightarrow> out | Inl _ \<Rightarrow> [NilMessage]) \<and>
   (case ProjectToolResults demo_spill \<lparr>to_window = 1, to_spill = True, to_spill_dir = ''d''\<rparr> (\<lambda>_. False)
      (demo_turns @ demo_turns) of Inr (out, files) \<Rightarrow> map fst files = [''d/c1-8829dfd9.txt''] | Inl _ \<Rightarrow> False)"
proof -
  have a: "answered [] [] (demo_turns @ demo_turns)" by code_simp
  have f: "case ProjectToolResults demo_spill \<lparr>to_window = 1, to_spill = True, to_spill_dir = ''d''\<rparr> (\<lambda>_. False)
      (demo_turns @ demo_turns) of Inr (out, files) \<Rightarrow> map fst files = [''d/c1-8829dfd9.txt''] | Inl _ \<Rightarrow> False"
    by code_simp
  then obtain out files where o: "ProjectToolResults demo_spill \<lparr>to_window = 1, to_spill = True, to_spill_dir = ''d''\<rparr>
      (\<lambda>_. False) (demo_turns @ demo_turns) = Inr (out, files)"
    by (auto split: sum.splits)
  from ProjectToolResults_keeps_window [OF o] a have "answered [] [] out" by blast
  with o f show ?thesis by simp
qed

text \<open>
  When the tool results after the last cut point alone reach the tokens to keep, no cut point is
  left at or after the budget index, the cut falls back to the first cut point and nothing is
  compacted, however much older history there is.
\<close>

lemma trailing_results_block_compaction:
  "PrepareCompaction (messagesToEntries (demo_turns @ demo_turns))
     \<lparr>cs_enabled = True, cs_reserve_tokens = 109, cs_keep_recent_tokens = 1\<rparr> = None"
  by code_simp

section \<open>The two token estimates\<close>

text \<open>
  \<open>engine/estimate\<close> and \<open>compaction\<close> estimate the tokens of a transcript independently: one counts
  UTF-16 code units, the other bytes, and they weigh blocks of unexpected types differently.
  On ASCII transcripts with the block types each role carries they agree.
\<close>

definition ascii :: "string \<Rightarrow> bool" where "ascii s \<longleftrightarrow> list_all (\<lambda>c. byte c < 128) s"

definition plain_input :: "content_block \<Rightarrow> bool" where
  "plain_input b \<longleftrightarrow>
     (cb_type b = BlockText \<and> ascii (cb_text b)) \<or>
     cb_type b = BlockImage \<or> cb_type b = BlockImageRef \<or> cb_type b = BlockDocumentRef"

definition plain_output :: "content_block \<Rightarrow> bool" where
  "plain_output b \<longleftrightarrow>
     (cb_type b = BlockText \<and> ascii (cb_text b)) \<or> (cb_type b = BlockThinking \<and> ascii (cb_thinking b)) \<or>
     (cb_type b = BlockToolCall \<and> ascii (cb_name b) \<and> ascii (cb_arguments b))"

definition plain_message :: "message \<Rightarrow> bool" where
  "plain_message msg \<longleftrightarrow>
     (case asUser msg of Some u \<Rightarrow> (case uc_blocks (um_content u) of None \<Rightarrow> ascii (uc_text (um_content u))
        | Some bs \<Rightarrow> list_all plain_input bs) | None \<Rightarrow> True) \<and>
     (case asAssistant msg of Some a \<Rightarrow> list_all plain_output (am_content a) | None \<Rightarrow> True) \<and>
     (case asToolResult msg of Some t \<Rightarrow> list_all plain_input (tr_content t) | None \<Rightarrow> True)"

lemma ascii_js_length: "ascii s \<Longrightarrow> jsStringLength s = slen s"
proof -
  assume a: "ascii s"
  then have r: "runes s = map byte s" by (intro ascii_runes) (simp add: ascii_def list_all_iff)
  have "sum_list (map (\<lambda>c. if 0xffff < byte c then 2 else 1 :: int) s) = int (length s)"
    using a by (induction s) (auto simp: ascii_def)
  with r show ?thesis by (simp add: jsStringLength_def slen_def comp_def)
qed

lemma sum64_cong: "list_all (\<lambda>x. f x = g x) xs \<Longrightarrow> sum64 f xs = sum64 g xs"
  unfolding sum64_def by (rule fold_cong) (auto simp: list_all_iff)

lemma ceilDiv_tokens: "ceilDiv n 4 = tokensFromChars n"
  by (simp add: ceilDiv_def tokensFromChars_def CharsPerToken_def)

lemma documentRefChars_eq: "documentRefChars b = documentRefEstimatedChars b"
  by (simp add: documentRefChars_def documentRefEstimatedChars_def isTextRefMediaType_def
      Compaction.EstimatedDocumentPageChars_def Estimate.EstimatedDocumentPageChars_def CharsPerToken_def)

lemma plain_input_chars: "list_all plain_input bs \<Longrightarrow> estimateBlocksChars bs = estimateTextAndImageBlocksChars bs"
  unfolding estimateBlocksChars_def estimateTextAndImageBlocksChars_def
  by (rule sum64_cong) (auto simp: list_all_iff plain_input_def block_chars_def blockEstimatedChars_def
      documentRefChars_eq ascii_js_length Compaction.EstimatedImageChars_def Estimate.EstimatedImageChars_def)

lemma plain_output_chars: "list_all plain_output bs \<Longrightarrow> sum64 assistant_chars bs = sum64 assistant_block_chars bs"
proof (rule sum64_cong)
  have args: "jsStringLength (rawArgumentsString s) = slen (jsonString s)" if "ascii s" for s
    using that ascii_js_length [of "''{}''"] ascii_js_length [of s]
    by (simp add: rawArgumentsString_def jsonString_def ascii_def)
  assume "list_all plain_output bs"
  then show "list_all (\<lambda>b. assistant_chars b = assistant_block_chars b) bs"
    by (auto simp: list_all_iff plain_output_def assistant_chars_def assistant_block_chars_def
        ascii_js_length args)
qed

lemma plain_message_tokens: "plain_message m \<Longrightarrow> EstimateTokens m = EstimateMessageTokens m"
  by (cases m rule: Role.cases)
    (auto simp: plain_message_def ceilDiv_tokens estimateUserContentChars_def estimateTextAndImageContentChars_def
      estimateAssistantTokens_def estimateAssistantMessageTokens_def plain_input_chars plain_output_chars
      ascii_js_length split: option.splits)

lemma usage_tokens_eq: "Compaction.CalculateContextTokens u = Estimate.CalculateContextTokens u"
  by (simp add: Compaction.CalculateContextTokens_def Estimate.CalculateContextTokens_def)

lemma usage_info_eq: "lastAssistantUsageInfo messages = getLastAssistantUsageInfo messages"
proof -
  have u: "(getAssistantUsage m \<noteq> None) = usable_usage m" for m
    by (auto simp: getAssistantUsage_def usable_usage_def usage_tokens_eq split: option.splits)
  have "getAssistantUsage m = map_option am_usage (asAssistant m)" if "usable_usage m" for m
    using that by (auto simp: getAssistantUsage_def usable_usage_def usage_tokens_eq split: option.splits)
  note this [simp]
  have "(\<lambda>m. getAssistantUsage m \<noteq> None) = usable_usage" by (rule ext) (rule u)
  then have "lastAssistantUsageInfo messages =
      (case last_index usable_usage messages of None \<Rightarrow> None
       | Some i \<Rightarrow> map_option (\<lambda>u. (u, i)) (getAssistantUsage (messages ! i)))"
    unfolding lastAssistantUsageInfo_def by (simp only:)
  also have "\<dots> = getLastAssistantUsageInfo messages"
    unfolding getLastAssistantUsageInfo_def
    using last_index_Some [of usable_usage messages]
    by (auto simp: option.map_comp comp_def split: option.splits)
  finally show ?thesis .
qed

text \<open>The two independent token estimates agree: on every transcript of ASCII text whose messages
  carry only the block types of their role, the estimate compaction decides by and the estimate of
  \<open>engine/estimate\<close> have the same total, the same usage anchor and the same trailing part.\<close>

lemma estimates_agree:
  assumes "list_all plain_message messages"
  shows "ue_tokens (Compaction.EstimateContextTokens messages) = cu_tokens (EstimateMessages messages) \<and>
    ue_usage_tokens (Compaction.EstimateContextTokens messages) = cu_usage_tokens (EstimateMessages messages) \<and>
    ue_trailing_tokens (Compaction.EstimateContextTokens messages) = cu_trailing_tokens (EstimateMessages messages) \<and>
    ue_last_usage_index (Compaction.EstimateContextTokens messages) = cu_last_usage_index (EstimateMessages messages)"
proof -
  have s: "sum64 EstimateTokens (drop n messages) = sum64 EstimateMessageTokens (drop n messages)" for n
    using assms by (intro sum64_cong) (auto simp: list_all_iff plain_message_tokens dest: in_set_dropD)
  show ?thesis
    using s [of 0] s by (auto simp: Compaction.EstimateContextTokens_def EstimateMessages_def usage_info_eq
        usage_tokens_eq Let_def split: option.splits)
qed

lemma estimates_agree_witness:
  "ue_tokens (Compaction.EstimateContextTokens demo_turns) = cu_tokens (EstimateMessages demo_turns) \<and>
   cu_tokens (EstimateMessages demo_turns) = 4"
  using estimates_agree [of demo_turns] by code_simp

end
