(* ===== verification/Validate.thy ===== *)
theory Validate
  imports Msg_Types Float64 "HOL-Library.List_Lexorder" "HOL-Library.Char_ord"
begin

text \<open>
  \<open>internal/engine/validate/validate.go\<close>: the coercion of decoded tool arguments toward a JSON
  Schema and their validation.  Values of Go's \<open>any\<close> are \<open>any\<close>; a map is an association list with
  distinct keys.  The schema compiler of package \<open>jsonschema\<close> is an argument: it gives the text of
  its error or the validator of a schema, which returns no error or the tree of its errors.  The
  cache of compiled schemas is not modelled: it returns what compiling the same schema returned.
\<close>

section \<open>Decoded values\<close>

datatype any =
    ANil
  | ABool bool
  | ANum float64
  | AStr string
  | AArr "any list"
  | AObj "(string \<times> any) list"

type_synonym schema = "(string \<times> any) list"

text \<open>Decoding an object into a map keeps the last value of a repeated key.\<close>

fun set_key :: "string \<Rightarrow> 'a \<Rightarrow> (string \<times> 'a) list \<Rightarrow> (string \<times> 'a) list" where
  "set_key k v [] = [(k, v)]"
| "set_key k v ((k', v') # ms) = (if k' = k then (k, v) # ms else (k', v') # set_key k v ms)"

fun any_of_json :: "json \<Rightarrow> any" where
  "any_of_json JNull = ANil"
| "any_of_json (JBool b) = ABool b"
| "any_of_json (JNum lit) = ANum (case parse_float lit of Some v \<Rightarrow> v | None \<Rightarrow> Flt False 0 0)"
| "any_of_json (JStr s) = AStr s"
| "any_of_json (JArr vs) = AArr (map any_of_json vs)"
| "any_of_json (JObj ms) = AObj (fold (\<lambda>kv acc. set_key (fst kv) (snd kv) acc) (map (\<lambda>kv. (fst kv, any_of_json (snd kv))) ms) [])"

text \<open>\<open>json.Unmarshal\<close> into \<open>any\<close>; \<^const>\<open>None\<close> is its error.\<close>

definition unmarshal_any :: "bytes \<Rightarrow> any option" where
  "unmarshal_any raw =
     (case parse_json raw of
        None \<Rightarrow> None
      | Some j \<Rightarrow> if json_floats_ok j then Some (any_of_json j) else None)"

fun marshal_value :: "any \<Rightarrow> string" where
  "marshal_value ANil = ''null''"
| "marshal_value (ABool b) = (if b then ''true'' else ''false'')"
| "marshal_value (ANum v) = marshal_float v"
| "marshal_value (AStr s) = print_string s"
| "marshal_value (AArr vs) = ''['' @ join '','' (map marshal_value vs) @ '']''"
| "marshal_value (AObj ms) =
     (let texts = map (\<lambda>kv. (fst kv, marshal_value (snd kv))) ms
      in ''{'' @ join '','' (map (\<lambda>k. print_string k @ '':'' @ the (map_of texts k)) (sort (map fst texts))) @ ''}'')"

section \<open>Schema access\<close>

definition lookup :: "schema \<Rightarrow> string \<Rightarrow> any" where
  "lookup ms k = (case map_of ms k of Some v \<Rightarrow> v | None \<Rightarrow> ANil)"

definition as_strings :: "any list \<Rightarrow> string list" where
  "as_strings vs = List.map_filter (\<lambda>v. case v of AStr s \<Rightarrow> Some s | _ \<Rightarrow> None) vs"

definition getSchemaTypes :: "schema \<Rightarrow> string list" where
  "getSchemaTypes sch = (case lookup sch ''type'' of AStr t \<Rightarrow> [t] | AArr vs \<Rightarrow> as_strings vs | _ \<Rightarrow> [])"

definition object_members :: "any \<Rightarrow> schema option" where
  "object_members v = (case v of AObj ms \<Rightarrow> Some ms | _ \<Rightarrow> None)"

definition schemaList :: "any \<Rightarrow> schema list option" where
  "schemaList v = (case v of AArr vs \<Rightarrow> Some (List.map_filter object_members vs) | _ \<Rightarrow> None)"

definition matchesJsonType :: "any \<Rightarrow> string \<Rightarrow> bool" where
  "matchesJsonType v typ \<longleftrightarrow>
     (case v of
        ANum x \<Rightarrow> typ = ''number'' \<or> (typ = ''integer'' \<and> is_integral x)
      | ABool _ \<Rightarrow> typ = ''boolean''
      | AStr _ \<Rightarrow> typ = ''string''
      | ANil \<Rightarrow> typ = ''null''
      | AArr _ \<Rightarrow> typ = ''array''
      | AObj _ \<Rightarrow> typ = ''object'')"

section \<open>Primitive coercion\<close>

text \<open>
  \<open>jsNumber\<close> where its value is finite: both of its callers ignore infinities, which it reads
  from \<open>Infinity\<close> and \<open>ParseFloat\<close> reads from further spellings.
\<close>

definition jsNumber :: "string \<Rightarrow> float64 option" where
  "jsNumber text =
     (let s = trim_space text in
      if s = [] then Some (Flt False 0 0)
      else
        let base = (if 2 < length s \<and> s ! 0 = CHR ''0'' then
                      (if s ! 1 = CHR ''x'' \<or> s ! 1 = CHR ''X'' then 16
                       else if s ! 1 = CHR ''o'' \<or> s ! 1 = CHR ''O'' then 8
                       else if s ! 1 = CHR ''b'' \<or> s ! 1 = CHR ''B'' then 2 else 0)
                    else 0 :: nat)
        in if base \<noteq> 0 then Option.bind (parse_uint base (drop 2 s)) float_of_nat
           else if CHR ''_'' \<in> set s then None
           else parse_float s)"

definition one_float :: float64 where "one_float = Flt False 1 0"
definition zero_float :: float64 where "zero_float = Flt False 0 0"

definition number_of_bool :: "bool \<Rightarrow> any" where
  "number_of_bool b = ANum (if b then one_float else zero_float)"

definition coercePrimitiveByType :: "any \<Rightarrow> string \<Rightarrow> any" where
  "coercePrimitiveByType v typ =
     (if typ = ''number'' then
        (case v of
           ANil \<Rightarrow> ANum zero_float
         | AStr s \<Rightarrow> (if trim_space s \<noteq> [] then (case jsNumber s of Some x \<Rightarrow> ANum x | None \<Rightarrow> v) else v)
         | ABool b \<Rightarrow> number_of_bool b
         | _ \<Rightarrow> v)
      else if typ = ''integer'' then
        (case v of
           ANil \<Rightarrow> ANum zero_float
         | AStr s \<Rightarrow> (if trim_space s \<noteq> [] then
                       (case jsNumber s of Some x \<Rightarrow> if is_integral x then ANum x else v | None \<Rightarrow> v) else v)
         | ABool b \<Rightarrow> number_of_bool b
         | _ \<Rightarrow> v)
      else if typ = ''boolean'' then
        (case v of
           ANil \<Rightarrow> ABool False
         | AStr s \<Rightarrow> (if s = ''true'' then ABool True else if s = ''false'' then ABool False else v)
         | ANum x \<Rightarrow> (if float_eq x one_float then ABool True else if is_zero x then ABool False else v)
         | _ \<Rightarrow> v)
      else if typ = ''string'' then
        (case v of
           ANil \<Rightarrow> AStr []
         | ANum x \<Rightarrow> AStr (format_g x)
         | ABool b \<Rightarrow> AStr (if b then ''true'' else ''false'')
         | _ \<Rightarrow> v)
      else if typ = ''null'' then
        (case v of
           AStr s \<Rightarrow> (if s = [] then ANil else v)
         | ANum x \<Rightarrow> (if is_zero x then ANil else v)
         | ABool b \<Rightarrow> (if \<not> b then ANil else v)
         | _ \<Rightarrow> v)
      else v)"

definition primitiveChanged :: "any \<Rightarrow> any \<Rightarrow> bool" where
  "primitiveChanged c v \<longleftrightarrow>
     (case c of
        ANil \<Rightarrow> v \<noteq> ANil
      | ANum x \<Rightarrow> (case v of ANum y \<Rightarrow> \<not> float_eq x y | _ \<Rightarrow> True)
      | ABool b \<Rightarrow> v \<noteq> ABool b
      | AStr s \<Rightarrow> v \<noteq> AStr s
      | _ \<Rightarrow> False)"

fun coerce_types :: "any \<Rightarrow> string list \<Rightarrow> any" where
  "coerce_types v [] = v"
| "coerce_types v (t # ts) =
     (let c = coercePrimitiveByType v t in if primitiveChanged c v then c else coerce_types v ts)"

section \<open>Coercion toward a schema\<close>

text \<open>The errors of package \<open>jsonschema\<close>: the location, the message and the causes.\<close>

datatype validation_error = VError (ve_location: "string list") (ve_message: string) (ve_causes: "validation_error list")

type_synonym validator = "any \<Rightarrow> validation_error option"
type_synonym compiler = "schema \<Rightarrow> string + validator"

definition getSubSchemaValidator :: "compiler \<Rightarrow> schema \<Rightarrow> validator option" where
  "getSubSchemaValidator compile sch = (case compile sch of Inl _ \<Rightarrow> None | Inr v \<Rightarrow> Some v)"

text \<open>Recursion is on the size of the schema: it weighs more than the schemas inside it.\<close>

definition weight :: "schema \<Rightarrow> nat" where "weight s = size (AObj s)"

lemma map_of_size: "map_of ms k = Some v \<Longrightarrow> size v < size (AObj ms)"
  by (induction ms) (auto split: if_splits)

lemma lookup_size: "size (lookup sch k) < weight sch"
  using map_of_size [of sch k] by (auto simp: weight_def lookup_def split: option.splits)

lemma array_member_size: "v \<in> set vs \<Longrightarrow> size v < size (AArr vs)"
  by (induction vs) auto

lemma lookup_weight: "lookup sch k = AObj s \<Longrightarrow> weight s < weight sch"
  using lookup_size [of sch k] by (simp add: weight_def)

lemma property_weight:
  "map_of (case lookup sch k of AObj ps \<Rightarrow> ps | _ \<Rightarrow> []) key = Some (AObj s) \<Longrightarrow> weight s < weight sch"
  using lookup_size [of sch k] map_of_size [of _ key "AObj s"]
  by (fastforce simp: weight_def split: any.splits dest: less_trans)

lemma item_weight: "lookup sch k = AArr items \<Longrightarrow> i < length items \<Longrightarrow> items ! i = AObj s \<Longrightarrow> weight s < weight sch"
  using lookup_size [of sch k] array_member_size [OF nth_mem, of i items] by (simp add: weight_def del: any.size)

lemma schemaList_weight: "schemaList (lookup sch k) = Some ss \<Longrightarrow> size_list weight ss < weight sch"
proof -
  assume "schemaList (lookup sch k) = Some ss"
  then obtain vs where vs: "lookup sch k = AArr vs" "ss = List.map_filter object_members vs"
    by (auto simp: schemaList_def split: any.splits)
  have "size_list weight (List.map_filter object_members vs) \<le> size (AArr vs)"
  proof (induction vs)
    case (Cons v vs)
    then show ?case by (cases v) (auto simp: List.map_filter_simps object_members_def weight_def)
  qed (simp add: List.map_filter_simps)
  with vs lookup_size [of sch k] show ?thesis by simp
qed

lemma schema_in_list: "s \<in> set ss \<Longrightarrow> weight s < size_list weight ss"
  by (induction ss) auto

lemmas weights = lookup_weight property_weight item_weight schemaList_weight schema_in_list

function (sequential)
  coerceWithJSONSchema :: "compiler \<Rightarrow> any \<Rightarrow> schema \<Rightarrow> any"
and coerceWithUnionSchema :: "compiler \<Rightarrow> any \<Rightarrow> schema list \<Rightarrow> any"
and applySchemaObjectCoercion :: "compiler \<Rightarrow> (string \<times> any) list \<Rightarrow> schema \<Rightarrow> (string \<times> any) list"
and applySchemaArrayCoercion :: "compiler \<Rightarrow> any list \<Rightarrow> schema \<Rightarrow> any list"
where
  "coerceWithJSONSchema compile value sch =
     (let v1 = (case schemaList (lookup sch ''allOf'') of
                  None \<Rightarrow> value | Some ss \<Rightarrow> fold (\<lambda>s v. coerceWithJSONSchema compile v s) ss value);
          v2 = (case schemaList (lookup sch ''anyOf'') of
                  None \<Rightarrow> v1 | Some ss \<Rightarrow> coerceWithUnionSchema compile v1 ss);
          v3 = (case schemaList (lookup sch ''oneOf'') of
                  None \<Rightarrow> v2 | Some ss \<Rightarrow> coerceWithUnionSchema compile v2 ss);
          types = getSchemaTypes sch;
          v4 = (if types \<noteq> [] \<and> \<not> (1 < length types \<and> list_ex (matchesJsonType v3) types)
                then coerce_types v3 types else v3);
          v5 = (case v4 of
                  AObj ms \<Rightarrow> if ''object'' \<in> set types then AObj (applySchemaObjectCoercion compile ms sch) else v4
                | _ \<Rightarrow> v4)
      in (case v5 of
            AArr vs \<Rightarrow> if ''array'' \<in> set types then AArr (applySchemaArrayCoercion compile vs sch) else v5
          | _ \<Rightarrow> v5))"
| "coerceWithUnionSchema compile v [] = v"
| "coerceWithUnionSchema compile v (s # ss) =
     (case getSubSchemaValidator compile s of
        Some ok \<Rightarrow>
          (let c = coerceWithJSONSchema compile v s in if ok c = None then c else coerceWithUnionSchema compile v ss)
      | None \<Rightarrow> coerceWithUnionSchema compile v ss)"
| "applySchemaObjectCoercion compile ms sch =
     map (\<lambda>kv. (fst kv,
       (case map_of (case lookup sch ''properties'' of AObj ps \<Rightarrow> ps | _ \<Rightarrow> []) (fst kv) of
          Some (AObj s) \<Rightarrow> coerceWithJSONSchema compile (snd kv) s
        | Some _ \<Rightarrow> snd kv
        | None \<Rightarrow>
            (case lookup sch ''additionalProperties'' of
               AObj s \<Rightarrow> coerceWithJSONSchema compile (snd kv) s | _ \<Rightarrow> snd kv)))) ms"
| "applySchemaArrayCoercion compile vs sch =
     (case lookup sch ''items'' of
        AArr items \<Rightarrow>
          map (\<lambda>(i, v). if i < length items
              then (case items ! i of AObj s \<Rightarrow> coerceWithJSONSchema compile v s | _ \<Rightarrow> v) else v)
            (List.enumerate 0 vs)
      | AObj s \<Rightarrow> map (\<lambda>v. coerceWithJSONSchema compile v s) vs
      | _ \<Rightarrow> vs)"
  by pat_completeness auto

termination
  by (relation "measure (\<lambda>x. case x of
      Inl (Inl (compile, v, sch)) \<Rightarrow> 2 * weight sch + 1 | Inl (Inr (compile, v, ss)) \<Rightarrow> 2 * size_list weight ss
    | Inr (Inl (compile, ms, sch)) \<Rightarrow> 2 * weight sch | Inr (Inr (compile, vs, sch)) \<Rightarrow> 2 * weight sch)")
    (auto dest!: weights)

declare coerceWithJSONSchema.simps [simp del]

section \<open>Validation\<close>

definition dotted_path :: "string list \<Rightarrow> string" where
  "dotted_path loc = (let path = join ''.'' loc in case path of c # t \<Rightarrow> if c = CHR ''.'' then t else path | [] \<Rightarrow> [])"

definition formatValidationPath :: "validation_error \<Rightarrow> string" where
  "formatValidationPath e = (let path = dotted_path (ve_location e) in if path = [] then ''root'' else path)"

fun collectValidationLeaves :: "validation_error \<Rightarrow> validation_error list" where
  "collectValidationLeaves (VError loc msg causes) =
     (if causes = [] then [VError loc msg causes] else concat (map collectValidationLeaves causes))"

definition validationErrorLines :: "validation_error \<Rightarrow> string" where
  "validationErrorLines e =
     join [NL] (map (\<lambda>l. ''  - '' @ formatValidationPath l @ '': '' @ ve_message l) (collectValidationLeaves e))"

text \<open>
  \<open>json.MarshalIndent\<close> with two spaces.
\<close>

fun marshal_indent :: "nat \<Rightarrow> any \<Rightarrow> string" where
  "marshal_indent n (AArr vs) =
     (if vs = [] then ''[]''
      else ''['' @ concat (map (\<lambda>(i, v). (if i = 0 then [] else '','') @ [NL] @ replicate (2 * n + 2) CHR '' '' @ v)
             (List.enumerate 0 (map (marshal_indent (Suc n)) vs))) @ [NL] @ replicate (2 * n) CHR '' '' @ '']'')"
| "marshal_indent n (AObj ms) =
     (if ms = [] then ''{}''
      else
        let texts = map (\<lambda>kv. (fst kv, marshal_indent (Suc n) (snd kv))) ms
        in ''{'' @ concat (map (\<lambda>(i, k). (if i = 0 then [] else '','') @ [NL] @ replicate (2 * n + 2) CHR '' '' @
                print_string k @ '': '' @ the (map_of texts k)) (List.enumerate 0 (sort (map fst texts)))) @
           [NL] @ replicate (2 * n) CHR '' '' @ ''}'')"
| "marshal_indent n v = marshal_value v"

datatype validate_error =
    BadArguments
  | BadSchema
  | SchemaRejected string
  | ValidationFailed string
  | ToolNotFound string

definition formatValidationError :: "content_block \<Rightarrow> validation_error \<Rightarrow> any \<Rightarrow> string" where
  "formatValidationError call e original =
     ''Validation failed for tool \"'' @ cb_name call @ ''\":'' @ [NL] @ validationErrorLines e @ [NL, NL] @
     ''Received arguments:'' @ [NL] @ marshal_indent 0 original"

text \<open>\<open>json.Unmarshal\<close> into \<open>map[string]any\<close>: \<open>null\<close> gives the nil map.\<close>

definition unmarshal_schema :: "bytes \<Rightarrow> schema option" where
  "unmarshal_schema raw =
     (case unmarshal_any raw of Some (AObj ms) \<Rightarrow> Some ms | Some ANil \<Rightarrow> Some [] | _ \<Rightarrow> None)"

definition ValidateToolArguments :: "compiler \<Rightarrow> tool \<Rightarrow> content_block \<Rightarrow> validate_error + bytes" where
  "ValidateToolArguments compile tool call =
     (case unmarshal_any (cb_arguments call) of
        None \<Rightarrow> Inl BadArguments
      | Some args \<Rightarrow>
          (case unmarshal_schema (to_parameters tool) of
             None \<Rightarrow> Inl BadSchema
           | Some sch \<Rightarrow>
               (let coerced = coerceWithJSONSchema compile args sch in
                case compile sch of
                  Inl err \<Rightarrow> Inl (SchemaRejected err)
                | Inr ok \<Rightarrow>
                    (case ok coerced of
                       Some e \<Rightarrow> Inl (ValidationFailed (formatValidationError call e args))
                     | None \<Rightarrow> Inr (marshal_value coerced)))))"

definition ValidateToolCall :: "compiler \<Rightarrow> tool list \<Rightarrow> content_block \<Rightarrow> validate_error + bytes" where
  "ValidateToolCall compile tools call =
     (case find (\<lambda>t. to_name t = cb_name call) tools of
        None \<Rightarrow> Inl (ToolNotFound (''Tool \"'' @ cb_name call @ ''\" not found''))
      | Some t \<Rightarrow> ValidateToolArguments compile t call)"

section \<open>Coercion and types\<close>

lemma primitiveChanged_self [simp]: "\<not> primitiveChanged v v"
  by (cases v) (auto simp: primitiveChanged_def float_eq_def)

lemma coerce_matching: "matchesJsonType v t \<Longrightarrow> coercePrimitiveByType v t = v"
  by (cases v) (auto simp: matchesJsonType_def coercePrimitiveByType_def)

lemma coerce_changed_matches:
  "primitiveChanged (coercePrimitiveByType v t) v \<Longrightarrow> matchesJsonType (coercePrimitiveByType v t) t"
  by (cases v)
    (auto simp: coercePrimitiveByType_def matchesJsonType_def number_of_bool_def one_float_def zero_float_def
      is_integral_def split: if_splits option.splits)

lemma coerce_types_cases:
  "(\<exists>t \<in> set ts. primitiveChanged (coercePrimitiveByType v t) v \<and> coerce_types v ts = coercePrimitiveByType v t) \<or>
   (coerce_types v ts = v \<and> (\<forall>t \<in> set ts. \<not> primitiveChanged (coercePrimitiveByType v t) v))"
  by (induction ts) (auto simp: Let_def)

lemma coerce_types_matches:
  "list_ex (matchesJsonType (coerce_types v ts)) ts \<or>
   (coerce_types v ts = v \<and> list_all (\<lambda>t. \<not> primitiveChanged (coercePrimitiveByType v t) v) ts)"
  using coerce_types_cases [of ts v] coerce_changed_matches [of v]
  unfolding list_ex_iff list_all_iff by metis

text \<open>The three steps of the coercion that follow the unions.\<close>

definition coerce_scalar :: "any \<Rightarrow> string list \<Rightarrow> any" where
  "coerce_scalar v types =
     (if types \<noteq> [] \<and> \<not> (1 < length types \<and> list_ex (matchesJsonType v) types) then coerce_types v types else v)"

definition coerce_members :: "compiler \<Rightarrow> any \<Rightarrow> schema \<Rightarrow> any" where
  "coerce_members compile v sch =
     (case v of
        AObj ms \<Rightarrow> if ''object'' \<in> set (getSchemaTypes sch) then AObj (applySchemaObjectCoercion compile ms sch) else v
      | AArr vs \<Rightarrow> if ''array'' \<in> set (getSchemaTypes sch) then AArr (applySchemaArrayCoercion compile vs sch) else v
      | _ \<Rightarrow> v)"

definition no_unions :: "schema \<Rightarrow> bool" where
  "no_unions sch \<longleftrightarrow> schemaList (lookup sch ''anyOf'') = None \<and> schemaList (lookup sch ''oneOf'') = None"

lemma coerce_no_unions:
  assumes "no_unions sch"
  shows "coerceWithJSONSchema compile v sch =
    coerce_members compile (coerce_scalar
      (case schemaList (lookup sch ''allOf'') of None \<Rightarrow> v | Some ss \<Rightarrow> fold (\<lambda>s v. coerceWithJSONSchema compile v s) ss v)
      (getSchemaTypes sch)) sch"
  using assms
  by (subst coerceWithJSONSchema.simps)
    (auto simp: no_unions_def Let_def coerce_scalar_def coerce_members_def split: any.splits)

lemma matches_members [simp]: "matchesJsonType (coerce_members compile v sch) t \<longleftrightarrow> matchesJsonType v t"
  by (auto simp: matchesJsonType_def coerce_members_def split: any.splits)


text \<open>
  \<open>conforms v sch\<close>: the value has the shape the schema asks for, as far as the coercion looks at
  it: one of the types, in every declared property, extra key and item; no unions.
\<close>

function (sequential) conforms :: "any \<Rightarrow> schema \<Rightarrow> bool" where
  "conforms (AObj ms) sch \<longleftrightarrow>
     no_unions sch \<and>
     (case schemaList (lookup sch ''allOf'') of None \<Rightarrow> True | Some ss \<Rightarrow> list_all (\<lambda>s. conforms (AObj ms) s) ss) \<and>
     (getSchemaTypes sch = [] \<or> ''object'' \<in> set (getSchemaTypes sch)) \<and>
     list_all (\<lambda>kv.
       (case map_of (case lookup sch ''properties'' of AObj ps \<Rightarrow> ps | _ \<Rightarrow> []) (fst kv) of
          Some (AObj s) \<Rightarrow> conforms (snd kv) s
        | Some _ \<Rightarrow> True
        | None \<Rightarrow> (case lookup sch ''additionalProperties'' of AObj s \<Rightarrow> conforms (snd kv) s | _ \<Rightarrow> True))) ms"
| "conforms (AArr vs) sch \<longleftrightarrow>
     no_unions sch \<and>
     (case schemaList (lookup sch ''allOf'') of None \<Rightarrow> True | Some ss \<Rightarrow> list_all (\<lambda>s. conforms (AArr vs) s) ss) \<and>
     (getSchemaTypes sch = [] \<or> ''array'' \<in> set (getSchemaTypes sch)) \<and>
     (case lookup sch ''items'' of
        AObj s \<Rightarrow> list_all (\<lambda>v. conforms v s) vs
      | AArr items \<Rightarrow>
          list_all (\<lambda>(i, v). if i < length items then (case items ! i of AObj s \<Rightarrow> conforms v s | _ \<Rightarrow> True) else True)
            (List.enumerate 0 vs)
      | _ \<Rightarrow> True)"
| "conforms v sch \<longleftrightarrow>
     no_unions sch \<and>
     (case schemaList (lookup sch ''allOf'') of None \<Rightarrow> True | Some ss \<Rightarrow> list_all (\<lambda>s. conforms v s) ss) \<and>
     (getSchemaTypes sch = [] \<or> list_ex (matchesJsonType v) (getSchemaTypes sch))"
  by pat_completeness auto

termination by (relation "measure (\<lambda>(v, sch). weight sch)") (auto dest!: weights)

lemma conforms_parts:
  "conforms v sch \<Longrightarrow> no_unions sch"
  "conforms v sch \<Longrightarrow> schemaList (lookup sch ''allOf'') = Some ss \<Longrightarrow> s \<in> set ss \<Longrightarrow> conforms v s"
  "conforms v sch \<Longrightarrow> getSchemaTypes sch = [] \<or> list_ex (matchesJsonType v) (getSchemaTypes sch)"
  by (cases v; force simp: list_all_iff list_ex_iff matchesJsonType_def)+

lemma coerce_scalar_matching:
  assumes "types = [] \<or> list_ex (matchesJsonType v) types" shows "coerce_scalar v types = v"
proof (cases types)
  case (Cons t ts)
  show ?thesis
  proof (cases ts)
    case Nil
    with Cons assms coerce_matching [of v t] show ?thesis by (simp add: coerce_scalar_def Let_def)
  qed (use Cons assms in \<open>simp add: coerce_scalar_def\<close>)
qed (simp add: coerce_scalar_def)

lemma fold_fixed: "(\<And>s. s \<in> set ss \<Longrightarrow> f s v = v) \<Longrightarrow> fold f ss v = v"
  by (induction ss) simp_all

lemma conforms_coerced: "conforms v sch \<Longrightarrow> coerceWithJSONSchema compile v sch = v"
proof (induction "weight sch" arbitrary: v sch rule: less_induct)
  case less
  note IH = less.hyps
  have all: "(case schemaList (lookup sch ''allOf'') of None \<Rightarrow> v
      | Some ss \<Rightarrow> fold (\<lambda>s v. coerceWithJSONSchema compile v s) ss v) = v"
  proof (cases "schemaList (lookup sch ''allOf'')")
    case (Some ss)
    have "coerceWithJSONSchema compile v s = v" if "s \<in> set ss" for s
      using IH [of s v] conforms_parts(2) [OF less.prems Some that] schemaList_weight [OF Some] schema_in_list [OF that]
      by simp
    then show ?thesis using Some by (simp add: fold_fixed)
  qed simp
  have members: "coerce_members compile v sch = v"
  proof (cases v)
    case (AObj ms)
    have "applySchemaObjectCoercion compile ms sch = ms"
      unfolding applySchemaObjectCoercion.simps
    proof (rule map_idI, rule prod_eqI, goal_cases)
      case (2 kv)
      note w = property_weight [of sch "''properties''" "fst kv"] lookup_weight [of sch "''additionalProperties''"]
      have "case map_of (case lookup sch ''properties'' of AObj ps \<Rightarrow> ps | _ \<Rightarrow> []) (fst kv) of
          Some (AObj s) \<Rightarrow> conforms (snd kv) s | Some _ \<Rightarrow> True
        | None \<Rightarrow> (case lookup sch ''additionalProperties'' of AObj s \<Rightarrow> conforms (snd kv) s | _ \<Rightarrow> True)"
        using less.prems AObj 2 by (simp add: list_all_iff)
      then show ?case using IH [OF w(1), of _ "snd kv"] IH [OF w(2), of _ "snd kv"]
        unfolding snd_conv by (auto split: option.splits any.splits)
    qed simp
    with AObj show ?thesis by (simp add: coerce_members_def)
  next
    case (AArr vs)
    have "applySchemaArrayCoercion compile vs sch = vs"
    proof (cases "lookup sch ''items''")
      case (AObj s)
      with less.prems AArr IH [OF lookup_weight [OF AObj]] show ?thesis by (simp add: list_all_iff map_idI)
    next
      case items: (AArr items)
      have "map (\<lambda>(i, v). if i < length items then (case items ! i of AObj s \<Rightarrow> coerceWithJSONSchema compile v s | _ \<Rightarrow> v)
          else v) (List.enumerate 0 vs) = map snd (List.enumerate 0 vs)"
        using less.prems AArr items IH item_weight [OF items]
        by (intro map_cong [OF refl]) (fastforce simp: list_all_iff split: any.splits)
      with items show ?thesis by simp
    qed simp_all
    with AArr show ?thesis by (simp add: coerce_members_def)
  qed (simp_all add: coerce_members_def)
  show ?case
    using coerce_no_unions [OF conforms_parts(1) [OF less.prems], of compile v] all members
      coerce_scalar_matching [OF conforms_parts(3) [OF less.prems]] by simp
qed

text \<open>C17: Every argument text that reaches a tool has been checked, and correct arguments are not
  changed.  When validation succeeds, the arguments and the schema decode, the schema compiles, its
  validator accepts the coerced arguments, and the result is their encoding; arguments that already
  have the shape the schema asks for are not altered by the coercion.\<close>

theorem ValidateToolArguments_checked:
  assumes "ValidateToolArguments compile tool call = Inr out"
  shows "\<exists>args sch ok. unmarshal_any (cb_arguments call) = Some args \<and> unmarshal_schema (to_parameters tool) = Some sch \<and>
    compile sch = Inr ok \<and> ok (coerceWithJSONSchema compile args sch) = None \<and>
    out = marshal_value (if conforms args sch then args else coerceWithJSONSchema compile args sch)"
  using assms conforms_coerced
  by (auto simp: ValidateToolArguments_def Let_def split: option.splits sum.splits)

text \<open>A compiler for the witnesses: its validators accept the values that conform.\<close>

definition demo_compiler :: compiler where
  "demo_compiler sch = Inr (\<lambda>v. if conforms v sch then None else Some (VError [] ''does not conform'' []))"

definition demo_schema :: schema where
  "demo_schema = [(''type'', AStr ''object''),
     (''properties'', AObj [(''n'', AObj [(''type'', AArr [AStr ''boolean'', AStr ''null''])])])]"

definition demo_tool :: tool where
  "demo_tool = \<lparr>to_name = ''t'', to_description = [], to_parameters = print_json (JObj [(''type'', JStr ''object''),
     (''properties'', JObj [(''n'', JObj [(''type'', JStr ''boolean'')])])])\<rparr>"


theorem ValidateToolArguments_checked_witness:
  "ValidateToolArguments demo_compiler demo_tool (NewToolCall ''c'' ''t'' (print_json (JObj [(''n'', JStr ''true'')])))
     = Inr (print_json (JObj [(''n'', JBool True)])) \<and>
   (\<exists>args sch ok. unmarshal_schema (to_parameters demo_tool) = Some sch \<and> demo_compiler sch = Inr ok \<and>
      ok (coerceWithJSONSchema demo_compiler args sch) = None)"
proof
  show v: "ValidateToolArguments demo_compiler demo_tool (NewToolCall ''c'' ''t'' (print_json (JObj [(''n'', JStr ''true'')])))
     = Inr (print_json (JObj [(''n'', JBool True)]))"
    by code_simp
  from ValidateToolArguments_checked [OF v]
  show "\<exists>args sch ok. unmarshal_schema (to_parameters demo_tool) = Some sch \<and> demo_compiler sch = Inr ok \<and>
      ok (coerceWithJSONSchema demo_compiler args sch) = None" by blast
qed

end
