(* ===== verification/Util.thy ===== *)
theory Util
  imports Prelude
begin

text \<open>
  \<open>internal/engine/util/util.go\<close> and the error type of \<open>internal/document/errors.go\<close>, with the parts of Go's standard library that the
  providers use: validity of UTF-8 text, base64, and maps as association lists.
\<close>

lemma map_sum_eq_Inr: "map_sum f g x = Inr y \<longleftrightarrow> (\<exists>z. x = Inr z \<and> g z = y)"
  by (cases x) auto

section \<open>Surrogates\<close>

definition encodedSurrogateAt :: "string \<Rightarrow> bool" where
  "encodedSurrogateAt s =
     (case s of
        c0 # c1 # c2 # _ \<Rightarrow> byte c0 = 0xED \<and> 0xA0 \<le> byte c1 \<and> byte c1 \<le> 0xBF \<and> 0x80 \<le> byte c2 \<and> byte c2 \<le> 0xBF
      | _ \<Rightarrow> False)"

text \<open>The loop of \<open>SanitizeSurrogates\<close> on the rest of the text; no decoded rune is a surrogate.\<close>

function SanitizeSurrogates :: "string \<Rightarrow> string" where
  "SanitizeSurrogates s =
     (if s = [] then []
      else if encodedSurrogateAt s then SanitizeSurrogates (drop 3 s)
      else let (r, w) = decode_rune s in
        if 0xD800 \<le> r \<and> r \<le> 0xDFFF then SanitizeSurrogates (drop w s)
        else if r = rune_error \<and> w = 1 then hd s # SanitizeSurrogates (tl s)
        else take w s @ SanitizeSurrogates (drop w s))"
  by auto
termination
proof (relation "measure length", goal_cases)
  case (2 s)
  then show ?case by (cases s) auto
next
  case (3 s x r w)
  with decode_rune_width [of s] have "0 < w" by (metis snd_conv)
  with 3 show ?case by simp
next
  case (5 s x r w)
  with decode_rune_width [of s] have "0 < w" by (metis snd_conv)
  with 5 show ?case by simp
qed simp_all

declare SanitizeSurrogates.simps [simp del]

text \<open>Text whose bytes are all ASCII is unchanged.\<close>

lemma SanitizeSurrogates_ascii:
  assumes "\<forall>c \<in> set s. byte c < 128"
  shows "SanitizeSurrogates s = s"
  using assms
proof (induction s)
  case (Cons c s)
  then show ?case
    by (simp add: SanitizeSurrogates.simps [of "c # s"] decode_rune_def encodedSurrogateAt_def rune_error_def
        split: list.splits)
qed (simp add: SanitizeSurrogates.simps)

text \<open>Removing an encoding can bring the halves of another together.\<close>

lemma SanitizeSurrogates_not_idempotent:
  "let half = [CHR 0xED]; sur = [CHR 0xED, CHR 0xA0, CHR 0x80]; s = half @ sur @ [CHR 0xA0, CHR 0x80]
   in encodedSurrogateAt (SanitizeSurrogates s)"
  by code_simp

section \<open>Headers\<close>

text \<open>A Go map is an association list with distinct keys; setting a key keeps its place.\<close>

fun assoc_set :: "'k \<Rightarrow> 'v \<Rightarrow> ('k \<times> 'v) list \<Rightarrow> ('k \<times> 'v) list" where
  "assoc_set k v [] = [(k, v)]"
| "assoc_set k v ((k', v') # ms) = (if k' = k then (k, v) # ms else (k', v') # assoc_set k v ms)"

lemma map_of_assoc_set [simp]: "map_of (assoc_set k v ms) = (map_of ms)(k \<mapsto> v)"
  by (induction k v ms rule: assoc_set.induct) auto

lemma fst_assoc_set: "set (map fst (assoc_set k v ms)) = insert k (set (map fst ms))"
  by (induction k v ms rule: assoc_set.induct) auto

lemma distinct_assoc_set: "distinct (map fst ms) \<Longrightarrow> distinct (map fst (assoc_set k v ms))"
proof (induction k v ms rule: assoc_set.induct)
  case (2 k v k' v' ms)
  then show ?case using fst_assoc_set [of k v ms] by (auto simp del: set_map)
qed simp

definition HeadersToRecord :: "(string \<Rightarrow> string) \<Rightarrow> (string \<times> string list) list \<Rightarrow> (string \<times> string) list" where
  "HeadersToRecord lower h = fold (\<lambda>(k, vs). assoc_set (lower k) (join '', '' vs)) h []"

definition ProviderHeadersToRecord :: "(string \<times> string option) list \<Rightarrow> (string \<times> string) list option" where
  "ProviderHeadersToRecord headers =
     (let result = List.map_filter (\<lambda>(k, v). map_option (\<lambda>x. (k, x)) v) headers
      in if result = [] then None else Some result)"

section \<open>Text and base64\<close>

text \<open>\<open>utf8.Valid\<close>.\<close>

definition utf8_valid :: "bytes \<Rightarrow> bool" where
  "utf8_valid s \<longleftrightarrow> list_all (\<lambda>(r, b). r \<noteq> rune_error \<or> length b \<noteq> 1) (rune_segments s)"

text \<open>\<open>base64.StdEncoding.EncodeToString\<close> and \<open>EncodedLen\<close>.\<close>

definition b64_digit :: "nat \<Rightarrow> char" where
  "b64_digit n = (''ABCDEFGHIJKLMNOPQRSTUVWXYZabcdefghijklmnopqrstuvwxyz0123456789+/'') ! (n mod 64)"

fun base64_encode :: "bytes \<Rightarrow> string" where
  "base64_encode [] = []"
| "base64_encode [a] =
     (let n = byte a * 16 in [b64_digit (n div 64), b64_digit n, CHR ''='', CHR ''=''])"
| "base64_encode [a, b] =
     (let n = (byte a * 256 + byte b) * 4
      in [b64_digit (n div 4096), b64_digit (n div 64), b64_digit n, CHR ''=''])"
| "base64_encode (a # b # c # rest) =
     (let n = (byte a * 256 + byte b) * 256 + byte c
      in [b64_digit (n div 262144), b64_digit (n div 4096), b64_digit (n div 64), b64_digit n]
         @ base64_encode rest)"

definition encoded_len :: "int \<Rightarrow> int" where
  "encoded_len n = (n + 2) div 3 * 4"

lemma length_base64_encode: "int (length (base64_encode s)) = encoded_len (int (length s))"
proof (induction s rule: base64_encode.induct)
  case (4 a b c rest)
  have "(5 + int (length rest)) div 3 = (int (length rest) + 2) div 3 + 1" by linarith
  with 4 show ?case by (simp add: encoded_len_def Let_def)
qed (simp_all add: encoded_len_def Let_def)

section \<open>Document errors\<close>

datatype error_code =
    CodePageLimitExceeded | CodeRequestSizeExceeded | CodeUnsupportedMediaType | CodeUnsupportedForRoute
  | CodeDownloadFailed | CodeIntegrityMismatch | CodeCorruptOrEncrypted | CodeSSRFBlocked
  | CodeOriginNotAllowed | CodeUnsupportedAttachmentSource | CodeTooManyAttachments

fun error_code_text :: "error_code \<Rightarrow> string" where
  "error_code_text CodePageLimitExceeded = ''document_page_limit_exceeded''"
| "error_code_text CodeRequestSizeExceeded = ''document_request_size_exceeded''"
| "error_code_text CodeUnsupportedMediaType = ''document_unsupported_media_type''"
| "error_code_text CodeUnsupportedForRoute = ''document_unsupported_for_route''"
| "error_code_text CodeDownloadFailed = ''document_download_failed''"
| "error_code_text CodeIntegrityMismatch = ''document_integrity_mismatch''"
| "error_code_text CodeCorruptOrEncrypted = ''document_corrupt_or_encrypted''"
| "error_code_text CodeSSRFBlocked = ''document_ssrf_blocked''"
| "error_code_text CodeOriginNotAllowed = ''document_origin_not_allowed''"
| "error_code_text CodeUnsupportedAttachmentSource = ''document_unsupported_attachment_source''"
| "error_code_text CodeTooManyAttachments = ''document_too_many_attachments''"

datatype detail = DStr string | DInt int

record document_error =
  de_code :: error_code
  de_message :: string
  de_details :: "(string \<times> detail) list"
  de_cause :: "string option"

definition document_error_text :: "document_error \<Rightarrow> string" where
  "document_error_text e = error_code_text (de_code e) @ '': '' @ de_message e"

definition NewDocumentError :: "error_code \<Rightarrow> string \<Rightarrow> (string \<times> detail) list \<Rightarrow> string option \<Rightarrow> document_error" where
  "NewDocumentError code msg details cause =
     \<lparr>de_code = code, de_message = msg, de_details = details, de_cause = cause\<rparr>"

end
