(* ===== verification/Provider_Types.thy ===== *)
theory Provider_Types
  imports Validate Util
begin

text \<open>
  What the provider packages share: the model with the fields a request is built from, the request
  options of \<open>internal/engine/types/options.go\<close>, the \<open>BlobReader\<close> of stored attachments, and the
  JSON values that make up a request body.  The callbacks \<open>OnPayload\<close> and \<open>OnResponse\<close> are
  arguments of the operations that call them.
\<close>

section \<open>Models and options\<close>

record AnthropicCompat =
  ac_eager_tools :: "bool option"
  ac_long_retention :: "bool option"
  ac_session_affinity :: "bool option"
  ac_cache_on_tools :: "bool option"
  ac_temperature :: "bool option"
  ac_adaptive_thinking :: "bool option"
  ac_empty_signature :: "bool option"

record full_model = model +
  fm_base_url :: string
  fm_reasoning :: bool
  fm_thinking_levels :: "(string \<times> string option) list option"
  fm_headers :: "(string \<times> string) list"
  fm_compat :: "AnthropicCompat option"

abbreviation core :: "full_model \<Rightarrow> model" where "core \<equiv> model.truncate"

record stream_options =
  so_temperature :: "float64 option"
  so_max_tokens :: int
  so_api_key :: string
  so_headers :: "(string \<times> string) list"
  so_session_id :: string
  so_cache_retention :: string
  so_metadata :: "(string \<times> any) list"
  so_env :: "(string \<times> string) list"

section \<open>Attachments\<close>

text \<open>
  An opened blob: the bytes and the error that reading at most so many bytes gives, and the error
  of closing it.  Stores and keys name blobs.
\<close>

record blob =
  bl_read :: "int \<Rightarrow> bytes \<times> string option"
  bl_close :: "string option"

record blob_reader =
  br_stat :: "string \<Rightarrow> string \<Rightarrow> string + int"
  br_open :: "string \<Rightarrow> string \<Rightarrow> string + blob"

record simple_options = stream_options +
  si_reasoning :: string
  si_budgets :: "(string \<times> int) list"
  si_blobs :: "blob_reader option"

section \<open>Request bodies\<close>

text \<open>A \<open>map[string]any\<close> is printed with its keys sorted, a struct in the order of its fields.\<close>

datatype wire =
    WStr string
  | WBool bool
  | WInt int
  | WNum float64
  | WAny any
  | WArr "wire list"
  | WMap "(string \<times> wire) list"
  | WStruct "(string \<times> wire) list"

type_synonym wire_map = "(string \<times> wire) list"

fun marshal_wire :: "wire \<Rightarrow> string" where
  "marshal_wire (WStr s) = print_string s"
| "marshal_wire (WBool b) = (if b then ''true'' else ''false'')"
| "marshal_wire (WInt n) = show_int n"
| "marshal_wire (WNum v) = marshal_float v"
| "marshal_wire (WAny v) = marshal_value v"
| "marshal_wire (WArr vs) = ''['' @ join '','' (map marshal_wire vs) @ '']''"
| "marshal_wire (WMap ms) =
     (let texts = map (\<lambda>kv. (fst kv, marshal_wire (snd kv))) ms
      in ''{'' @ join '','' (map (\<lambda>k. print_string k @ '':'' @ the (map_of texts k)) (sort (map fst texts))) @ ''}'')"
| "marshal_wire (WStruct ms) =
     ''{'' @ join '','' (map (\<lambda>kv. print_string (fst kv) @ '':'' @ marshal_wire (snd kv)) ms) @ ''}''"

section \<open>Raw JSON\<close>

text \<open>The helpers of the same name in each provider package.\<close>

definition rawJSONToAny :: "bytes \<Rightarrow> any" where
  "rawJSONToAny raw =
     (if raw = [] then AObj []
      else case unmarshal_any raw of None \<Rightarrow> AObj [] | Some ANil \<Rightarrow> AObj [] | Some v \<Rightarrow> v)"

definition rawJSONToObject :: "bytes \<Rightarrow> schema" where
  "rawJSONToObject raw = (case rawJSONToAny raw of AObj ms \<Rightarrow> ms | _ \<Rightarrow> [])"

end
