(* ===== verification/Anthropic_Convert.thy ===== *)
theory Anthropic_Convert
  imports Provider_Types Transform_Messages
begin

text \<open>
  The messages of an Anthropic request, \<open>internal/provider/anthropic/convert.go\<close>: the transcript
  is transformed, every message becomes blocks, consecutive tool results share one user message,
  and the last user block is marked for the prompt cache.  Attachments are read through a
  \<open>BlobReader\<close>, an argument, within one budget of encoded bytes.
\<close>

section \<open>Names and identifiers\<close>

definition claudeCodeTools :: "(string \<times> string) list" where
  "claudeCodeTools =
     [(''read'', ''Read''), (''write'', ''Write''), (''edit'', ''Edit''), (''bash'', ''Bash''), (''grep'', ''Grep''),
      (''glob'', ''Glob''), (''askuserquestion'', ''AskUserQuestion''), (''enterplanmode'', ''EnterPlanMode''),
      (''exitplanmode'', ''ExitPlanMode''), (''killshell'', ''KillShell''), (''notebookedit'', ''NotebookEdit''),
      (''skill'', ''Skill''), (''task'', ''Task''), (''taskoutput'', ''TaskOutput''), (''todowrite'', ''TodoWrite''),
      (''webfetch'', ''WebFetch''), (''websearch'', ''WebSearch'')]"

definition toClaudeCodeName :: "(string \<Rightarrow> string) \<Rightarrow> string \<Rightarrow> string" where
  "toClaudeCodeName lower name = (case map_of claudeCodeTools (lower name) of Some m \<Rightarrow> m | None \<Rightarrow> name)"

definition id_rune :: "rune \<Rightarrow> bool" where
  "id_rune r \<longleftrightarrow> (97 \<le> r \<and> r \<le> 122) \<or> (65 \<le> r \<and> r \<le> 90) \<or> (48 \<le> r \<and> r \<le> 57) \<or> r = 95 \<or> r = 45"

definition normalizeToolCallID :: "string \<Rightarrow> string" where
  "normalizeToolCallID i = take 64 (concat (map (\<lambda>(r, b). if id_rune r then b else ''_'') (rune_segments i)))"

section \<open>The attachment budget\<close>

definition maxAnthropicAttachmentPages :: int where "maxAnthropicAttachmentPages = 100"
definition maxAnthropicPayloadBytes :: int where "maxAnthropicPayloadBytes = 32 * 1024 * 1024"

definition safeAttachmentDetails :: "content_block \<Rightarrow> (string \<times> detail) list" where
  "safeAttachmentDetails b =
     (if cb_ref_filename b \<noteq> [] then [(''filename'', DStr (cb_ref_filename b))] else []) @
     (if cb_ref_media_type b \<noteq> [] then [(''media_type'', DStr (cb_ref_media_type b))] else [])"

definition unsupportedRefError :: "content_block \<Rightarrow> document_error" where
  "unsupportedRefError b = NewDocumentError CodeUnsupportedForRoute
     ''The attachment is not supported for this model route.'' (safeAttachmentDetails b) None"

definition attachmentReadError :: "content_block \<Rightarrow> string \<Rightarrow> document_error" where
  "attachmentReadError b err = NewDocumentError CodeDownloadFailed
     ''The attachment could not be read.'' (safeAttachmentDetails b) (Some err)"

definition requestSizeError :: "content_block \<Rightarrow> document_error" where
  "requestSizeError b = NewDocumentError CodeRequestSizeExceeded
     ''The attachments exceed the 32 MB request limit.''
     (safeAttachmentDetails b @ [(''max_encoded_bytes'', DInt maxAnthropicPayloadBytes)]) None"

text \<open>The budget is the number of encoded bytes reserved so far.\<close>

definition reserveEncoded :: "int \<Rightarrow> int \<Rightarrow> content_block \<Rightarrow> document_error + int" where
  "reserveEncoded used n b =
     (if n < 0 \<or> n > maxAnthropicPayloadBytes - used then Inl (requestSizeError b) else Inr (used + n))"

definition reserveRaw :: "int \<Rightarrow> int \<Rightarrow> content_block \<Rightarrow> document_error + int" where
  "reserveRaw used n b =
     (if n < 0 \<or> n > maxAnthropicPayloadBytes then Inl (requestSizeError b)
      else reserveEncoded used (encoded_len n) b)"

section \<open>Blocks\<close>

definition anthropicTextDocumentMediaType :: "string \<Rightarrow> bool" where
  "anthropicTextDocumentMediaType t \<longleftrightarrow> t \<in> set [''text/plain'', ''text/markdown'', ''text/csv'']"

definition anthropicImageMediaType :: "string \<Rightarrow> bool" where
  "anthropicImageMediaType t \<longleftrightarrow> t \<in> set [''image/jpeg'', ''image/png'', ''image/gif'', ''image/webp'']"

definition text_block :: "string \<Rightarrow> wire_map" where
  "text_block s = [(''type'', WStr ''text''), (''text'', WStr s)]"

definition source_block :: "string \<Rightarrow> string \<Rightarrow> string \<Rightarrow> string \<Rightarrow> wire_map" where
  "source_block kind form media data =
     [(''type'', WStr kind), (''source'', WMap [(''type'', WStr form), (''media_type'', WStr media), (''data'', WStr data)])]"

definition imageBlock :: "content_block \<Rightarrow> wire_map" where
  "imageBlock b = source_block ''image'' ''base64'' (cb_mime_type b) (cb_data b)"

text \<open>
  What \<open>referencedContentBlock\<close> decides before it reads: the error, or the wire type of the block
  (\<^const>\<open>None\<close> for a text document).
\<close>

definition reference_kind :: "content_block \<Rightarrow> document_error + string option" where
  "reference_kind b =
     (case cb_type b of
        BlockDocumentRef \<Rightarrow>
          if cb_ref_media_type b = ''application/pdf'' then
            (if cb_ref_page_count b > maxAnthropicAttachmentPages then
               Inl (NewDocumentError CodePageLimitExceeded ''The document exceeds the 100-page limit.''
                 [(''filename'', DStr (cb_ref_filename b)), (''actual_pages'', DInt (cb_ref_page_count b)),
                  (''max_pages'', DInt maxAnthropicAttachmentPages)] None)
             else Inr (Some ''document''))
          else if anthropicTextDocumentMediaType (cb_ref_media_type b) then Inr None
          else Inl (unsupportedRefError b)
      | BlockImageRef \<Rightarrow>
          if anthropicImageMediaType (cb_ref_media_type b) then Inr (Some ''image'') else Inl (unsupportedRefError b)
      | _ \<Rightarrow> Inl (unsupportedRefError b))"

text \<open>Reading the stored bytes, whose size was reserved.\<close>

definition read_attachment :: "blob_reader \<Rightarrow> content_block \<Rightarrow> int \<Rightarrow> document_error + bytes" where
  "read_attachment r b n =
     (case br_open r (cb_ref_store b) (cb_ref_key b) of
        Inl err \<Rightarrow> Inl (attachmentReadError b err)
      | Inr bl \<Rightarrow>
          (let (data, readErr) = bl_read bl (n + 1) in
           case readErr of
             Some err \<Rightarrow> Inl (attachmentReadError b err)
           | None \<Rightarrow>
               (case bl_close bl of
                  Some err \<Rightarrow> Inl (attachmentReadError b err)
                | None \<Rightarrow>
                    if int (length data) \<noteq> n then
                      Inl (NewDocumentError CodeIntegrityMismatch
                        ''The attachment size changed while it was being read.'' (safeAttachmentDetails b) None)
                    else Inr data)))"

definition encode_attachment :: "content_block \<Rightarrow> string option \<Rightarrow> bytes \<Rightarrow> document_error + wire_map" where
  "encode_attachment b kind data =
     (case kind of
        None \<Rightarrow>
          if utf8_valid data then Inr (source_block ''document'' ''text'' ''text/plain'' data)
          else Inl (NewDocumentError CodeCorruptOrEncrypted ''The document text is not valid UTF-8.''
            (safeAttachmentDetails b) None)
      | Some t \<Rightarrow> Inr (source_block t ''base64'' (cb_ref_media_type b) (base64_encode data)))"

definition referencedContentBlock ::
  "blob_reader option \<Rightarrow> content_block \<Rightarrow> int \<Rightarrow> document_error + wire_map \<times> int" where
  "referencedContentBlock reader b used =
     (case reference_kind b of
        Inl err \<Rightarrow> Inl err
      | Inr kind \<Rightarrow>
          (case reader of
             None \<Rightarrow> Inl (unsupportedRefError b)
           | Some r \<Rightarrow>
               (case br_stat r (cb_ref_store b) (cb_ref_key b) of
                  Inl err \<Rightarrow> Inl (attachmentReadError b err)
                | Inr n \<Rightarrow>
                    (case reserveRaw used n b of
                       Inl err \<Rightarrow> Inl err
                     | Inr used' \<Rightarrow>
                         (case read_attachment r b n of
                            Inl err \<Rightarrow> Inl err
                          | Inr data \<Rightarrow> map_sum id (\<lambda>block. (block, used')) (encode_attachment b kind data))))))"

definition image_within :: "content_block \<Rightarrow> int \<Rightarrow> document_error + wire_map \<times> int" where
  "image_within b used = map_sum id (\<lambda>used'. (imageBlock b, used')) (reserveEncoded used (int (length (cb_data b))) b)"


section \<open>Messages\<close>

text \<open>A loop over blocks that stops at the first error and threads the budget.\<close>

fun block_loop ::
  "(content_block \<Rightarrow> int \<Rightarrow> document_error + wire_map list \<times> int) \<Rightarrow> content_block list \<Rightarrow> int
     \<Rightarrow> document_error + wire_map list \<times> int" where
  "block_loop f [] used = Inr ([], used)"
| "block_loop f (b # bs) used =
     (case f b used of
        Inl err \<Rightarrow> Inl err
      | Inr (out, used') \<Rightarrow> map_sum id (apfst (\<lambda>rest. out @ rest)) (block_loop f bs used'))"

definition user_block :: "blob_reader option \<Rightarrow> content_block \<Rightarrow> int \<Rightarrow> document_error + wire_map list \<times> int" where
  "user_block reader b used =
     (case cb_type b of
        BlockText \<Rightarrow>
          (let text = SanitizeSurrogates (cb_text b)
           in Inr (if trim_space text \<noteq> [] then [text_block text] else [], used))
      | BlockImage \<Rightarrow> map_sum id (apfst (\<lambda>x. [x])) (image_within b used)
      | BlockDocumentRef \<Rightarrow> map_sum id (apfst (\<lambda>x. [x])) (referencedContentBlock reader b used)
      | BlockImageRef \<Rightarrow> map_sum id (apfst (\<lambda>x. [x])) (referencedContentBlock reader b used)
      | _ \<Rightarrow> Inr ([], used))"

definition thinking_block :: "bool \<Rightarrow> content_block \<Rightarrow> wire_map list" where
  "thinking_block allow_empty b =
     (let thought = SanitizeSurrogates (cb_thinking b);
          signed = (\<lambda>g. [(''type'', WStr ''thinking''), (''thinking'', WStr thought), (''signature'', WStr g)])
      in if cb_redacted b then [[(''type'', WStr ''redacted_thinking''), (''data'', WStr (cb_thinking_signature b))]]
         else if trim_space (cb_thinking b) = [] then []
         else if trim_space (cb_thinking_signature b) = [] then
           (if allow_empty then [signed []] else [text_block thought])
         else [signed (cb_thinking_signature b)])"

definition tool_use_block :: "(string \<Rightarrow> string) \<Rightarrow> bool \<Rightarrow> content_block \<Rightarrow> wire_map" where
  "tool_use_block lower oauth b =
     [(''type'', WStr ''tool_use''), (''id'', WStr (cb_id b)),
      (''name'', WStr (if oauth then toClaudeCodeName lower (cb_name b) else cb_name b)),
      (''input'', WAny (rawJSONToAny (cb_arguments b)))]"

definition assistant_block ::
  "(string \<Rightarrow> string) \<Rightarrow> bool \<Rightarrow> bool \<Rightarrow> content_block \<Rightarrow> int \<Rightarrow> document_error + wire_map list \<times> int" where
  "assistant_block lower oauth allow_empty b used =
     (case cb_type b of
        BlockText \<Rightarrow>
          Inr (if trim_space (cb_text b) \<noteq> [] then [text_block (SanitizeSurrogates (cb_text b))] else [], used)
      | BlockThinking \<Rightarrow> Inr (thinking_block allow_empty b, used)
      | BlockToolCall \<Rightarrow> Inr ([tool_use_block lower oauth b], used)
      | BlockDocumentRef \<Rightarrow> Inl (unsupportedRefError b)
      | BlockImageRef \<Rightarrow> Inl (unsupportedRefError b)
      | _ \<Rightarrow> Inr ([], used))"

definition content_part :: "blob_reader option \<Rightarrow> content_block \<Rightarrow> int \<Rightarrow> document_error + wire_map list \<times> int" where
  "content_part reader b used =
     (case cb_type b of
        BlockText \<Rightarrow> Inr ([text_block (SanitizeSurrogates (cb_text b))], used)
      | BlockImage \<Rightarrow> map_sum id (apfst (\<lambda>x. [x])) (image_within b used)
      | BlockDocumentRef \<Rightarrow> map_sum id (apfst (\<lambda>x. [x])) (referencedContentBlock reader b used)
      | BlockImageRef \<Rightarrow> map_sum id (apfst (\<lambda>x. [x])) (referencedContentBlock reader b used)
      | _ \<Rightarrow> Inr ([], used))"

definition convertContentBlocks ::
  "blob_reader option \<Rightarrow> content_block list \<Rightarrow> int \<Rightarrow> document_error + wire \<times> int" where
  "convertContentBlocks reader content used =
     (let hasDocument = list_ex (\<lambda>b. cb_type b = BlockDocumentRef) content;
          hasMultimodal = hasDocument \<or> list_ex (\<lambda>b. cb_type b = BlockImage \<or> cb_type b = BlockImageRef) content
      in if \<not> hasMultimodal then Inr (WStr (SanitizeSurrogates (join ''\<newline>'' (map cb_text content))), used)
         else
           map_sum id (\<lambda>(blocks, used').
             (WArr (map WMap
               (if list_ex (\<lambda>b. cb_type b = BlockText) content then blocks
                else text_block (if hasDocument then ''(see attached document)'' else ''(see attached image)'') # blocks)),
              used'))
             (block_loop (content_part reader) content used))"

definition toolResultBlock :: "blob_reader option \<Rightarrow> tool_result_message \<Rightarrow> int \<Rightarrow> document_error + wire_map \<times> int" where
  "toolResultBlock reader m used =
     map_sum id (\<lambda>(content, used').
       ([(''type'', WStr ''tool_result''), (''tool_use_id'', WStr (tr_tool_call_id m)), (''content'', content),
         (''is_error'', WBool (tr_is_error m))], used'))
       (convertContentBlocks reader (tr_content m) used)"

text \<open>The results that follow one another, up to the first other message, which is left.\<close>

fun result_group ::
  "blob_reader option \<Rightarrow> message list \<Rightarrow> int \<Rightarrow> document_error + wire_map list \<times> message list \<times> int" where
  "result_group reader [] used = Inr ([], [], used)"
| "result_group reader (msg # ms) used =
     (case asToolResult msg of
        None \<Rightarrow> Inr ([], msg # ms, used)
      | Some m \<Rightarrow>
          (case toolResultBlock reader m used of
             Inl err \<Rightarrow> Inl err
           | Inr (block, used') \<Rightarrow> map_sum id (apfst (\<lambda>rest. block # rest)) (result_group reader ms used')))"

lemma result_group_shorter: "result_group reader ms used = Inr (blocks, rest, used') \<Longrightarrow> length rest \<le> length ms"
  by (induction ms arbitrary: used blocks)
    (auto simp: map_sum_eq_Inr split: option.splits sum.splits, fastforce)

datatype wire_content = CText string | CBlocks "wire_map list"

record wire_message =
  wm_role :: string
  wm_content :: wire_content


text \<open>The loop over the transformed messages; the results that follow one another are one message.\<close>

function convert_loop ::
  "(string \<Rightarrow> string) \<Rightarrow> bool \<Rightarrow> bool \<Rightarrow> blob_reader option \<Rightarrow> message list \<Rightarrow> int \<Rightarrow> document_error + wire_message list" where
  "convert_loop lower oauth allow_empty reader [] used = Inr []"
| "convert_loop lower oauth allow_empty reader (msg # ms) used =
     (let blocks_message = (\<lambda>role (blocks, used').
            map_sum id (\<lambda>rest. (if blocks = [] then [] else [\<lparr>wm_role = role, wm_content = CBlocks blocks\<rparr>]) @ rest)
              (convert_loop lower oauth allow_empty reader ms used'))
      in case asUser msg of
           Some u \<Rightarrow>
             (case uc_blocks (um_content u) of
                None \<Rightarrow>
                  map_sum id (\<lambda>rest.
                      (if trim_space (uc_text (um_content u)) \<noteq> []
                       then [\<lparr>wm_role = ''user'', wm_content = CText (SanitizeSurrogates (uc_text (um_content u)))\<rparr>] else []) @ rest)
                    (convert_loop lower oauth allow_empty reader ms used)
              | Some blocks \<Rightarrow>
                  (case block_loop (user_block reader) blocks used of
                     Inl err \<Rightarrow> Inl err | Inr bu \<Rightarrow> blocks_message ''user'' bu))
         | None \<Rightarrow>
             (case asAssistant msg of
                Some a \<Rightarrow>
                  (case block_loop (assistant_block lower oauth allow_empty) (am_content a) used of
                     Inl err \<Rightarrow> Inl err | Inr bu \<Rightarrow> blocks_message ''assistant'' bu)
              | None \<Rightarrow>
                  (case asToolResult msg of
                     None \<Rightarrow> convert_loop lower oauth allow_empty reader ms used
                   | Some t \<Rightarrow>
                       (case toolResultBlock reader t used of
                          Inl err \<Rightarrow> Inl err
                        | Inr (first, used1) \<Rightarrow>
                            (case result_group reader ms used1 of
                               Inl err \<Rightarrow> Inl err
                             | Inr (others, rest, used2) \<Rightarrow>
                                 map_sum id (\<lambda>out. \<lparr>wm_role = ''user'', wm_content = CBlocks (first # others)\<rparr> # out)
                                   (convert_loop lower oauth allow_empty reader rest used2))))))"
  by pat_completeness auto
termination
  by (relation "measure (\<lambda>(_, _, _, _, ms, _). length ms)") (auto dest: result_group_shorter)

declare convert_loop.simps(2) [simp del]

section \<open>The request's messages\<close>

text \<open>The prompt-cache marker, a pointer to \<open>cacheControl\<close>.\<close>

record cacheControl =
  cc_type :: string
  cc_ttl :: string

definition cache_wire :: "cacheControl \<Rightarrow> wire" where
  "cache_wire cc = WStruct ((''type'', WStr (cc_type cc)) # (if cc_ttl cc \<noteq> [] then [(''ttl'', WStr (cc_ttl cc))] else []))"

definition withCacheControl :: "wire_map \<Rightarrow> cacheControl option \<Rightarrow> wire_map" where
  "withCacheControl block cc = (case cc of None \<Rightarrow> block | Some c \<Rightarrow> assoc_set ''cache_control'' (cache_wire c) block)"

definition cacheable :: "wire_map \<Rightarrow> bool" where
  "cacheable block \<longleftrightarrow>
     (case map_of block ''type'' of
        Some (WStr t) \<Rightarrow> t \<in> set [''text'', ''image'', ''document'', ''tool_result''] | _ \<Rightarrow> False)"

text \<open>The marker on the last user message.\<close>

definition mark_message :: "cacheControl \<Rightarrow> wire_message \<Rightarrow> wire_message" where
  "mark_message cc m =
     (if wm_role m \<noteq> ''user'' then m
      else case wm_content m of
        CText t \<Rightarrow> m\<lparr>wm_content := CBlocks [withCacheControl (text_block t) (Some cc)]\<rparr>
      | CBlocks bs \<Rightarrow>
          if bs \<noteq> [] \<and> cacheable (last bs)
          then m\<lparr>wm_content := CBlocks (butlast bs @ [withCacheControl (last bs) (Some cc)])\<rparr> else m)"

definition mark_last :: "cacheControl option \<Rightarrow> wire_message list \<Rightarrow> wire_message list" where
  "mark_last cc params =
     (case cc of None \<Rightarrow> params
      | Some c \<Rightarrow> if params = [] then params else butlast params @ [mark_message c (last params)])"

text \<open>\<open>now\<close> is the time the transcript transformation stamps on its synthetic results.\<close>

definition convertMessages ::
  "(string \<Rightarrow> string) \<Rightarrow> time_ms \<Rightarrow> message list \<Rightarrow> model \<Rightarrow> bool \<Rightarrow> cacheControl option \<Rightarrow> bool \<Rightarrow> blob_reader option
     \<Rightarrow> document_error + wire_message list" where
  "convertMessages lower now messages m oauth cc allow_empty reader =
     map_sum id (mark_last cc)
       (convert_loop lower oauth allow_empty reader
         (TransformMessages now messages m (Some (\<lambda>i _ _. normalizeToolCallID i))) 0)"


section \<open>Every tool use is answered in the next message\<close>

definition ids_of :: "string \<Rightarrow> string \<Rightarrow> wire_map \<Rightarrow> string list" where
  "ids_of kind key b =
     (case (map_of b ''type'', map_of b key) of
        (Some (WStr t), Some (WStr i)) \<Rightarrow> if t = kind then [i] else [] | _ \<Rightarrow> [])"

definition message_ids :: "string \<Rightarrow> string \<Rightarrow> wire_message \<Rightarrow> string list" where
  "message_ids kind key m = (case wm_content m of CText _ \<Rightarrow> [] | CBlocks bs \<Rightarrow> concat (map (ids_of kind key) bs))"

abbreviation use_ids :: "wire_message \<Rightarrow> string list" where
  "use_ids \<equiv> message_ids ''tool_use'' ''id''"

abbreviation result_ids :: "wire_message \<Rightarrow> string list" where
  "result_ids \<equiv> message_ids ''tool_result'' ''tool_use_id''"

definition answers :: "string list \<Rightarrow> wire_message list \<Rightarrow> bool" where
  "answers ids ms \<longleftrightarrow>
     ids = [] \<or> (case ms of [] \<Rightarrow> False | m # _ \<Rightarrow> wm_role m = ''user'' \<and> set ids \<subseteq> set (result_ids m))"

fun paired :: "wire_message list \<Rightarrow> bool" where
  "paired [] \<longleftrightarrow> True"
| "paired (m # ms) \<longleftrightarrow> answers (if wm_role m = ''assistant'' then use_ids m else []) ms \<and> paired ms"

definition real_message :: "message \<Rightarrow> bool" where
  "real_message msg \<longleftrightarrow> asUser msg \<noteq> None \<or> asAssistant msg \<noteq> None \<or> asToolResult msg \<noteq> None"

lemma ids_of_simps [simp]:
  "ids_of ''tool_use'' ''id'' (text_block s) = []"
  "ids_of ''tool_use'' ''id'' (tool_use_block lower oauth b) = [cb_id b]"
  "concat (map (ids_of ''tool_use'' ''id'') (thinking_block allow b)) = []"
  by (simp_all add: ids_of_def text_block_def tool_use_block_def thinking_block_def Let_def)

lemma assistant_block_ids:
  "block_loop (assistant_block lower oauth allow) bs used = Inr (out, used') \<Longrightarrow>
   concat (map (ids_of ''tool_use'' ''id'') out) = map cb_id (filter (\<lambda>b. cb_type b = BlockToolCall) bs)"
proof (induction bs arbitrary: used out)
  case (Cons b bs)
  then show ?case
    by (cases "cb_type b") (auto simp: assistant_block_def map_sum_eq_Inr split: if_splits)
qed simp

lemma toolResultBlock_ids:
  "toolResultBlock reader m used = Inr (block, used') \<Longrightarrow>
   ids_of ''tool_result'' ''tool_use_id'' block = [tr_tool_call_id m]"
  by (auto simp: toolResultBlock_def map_sum_eq_Inr ids_of_def)

lemma answered_after_result:
  "asToolResult msg = Some t \<Longrightarrow> answered pend seen (msg # ms) = answered pend (tr_tool_call_id t # seen) ms"
  by (cases msg rule: asToolResult.cases) auto

lemma answered_after_user: "asUser msg = Some u \<Longrightarrow> answered pend seen (msg # ms) \<longleftrightarrow> set pend \<subseteq> set seen \<and> answered [] [] ms"
  by (cases msg rule: asUser.cases) auto

lemma answered_after_assistant:
  "asAssistant msg = Some a \<Longrightarrow> answered pend seen (msg # ms) \<longleftrightarrow>
     set pend \<subseteq> set seen \<and> answered (map cb_id (tool_calls_of a)) [] ms"
  by (cases msg rule: asAssistant.cases) auto

lemma result_group_answers:
  assumes "answered pend seen ms" "list_all real_message ms" "result_group reader ms used = Inr (blocks, rest, used')"
  shows "set pend \<subseteq> set seen \<union> set (concat (map (ids_of ''tool_result'' ''tool_use_id'') blocks)) \<and>
    answered [] [] rest \<and> list_all real_message rest"
  using assms
proof (induction ms arbitrary: seen used blocks)
  case (Cons msg ms)
  show ?case
  proof (cases "asToolResult msg")
    case None
    from None Cons.prems(2) consider u where "asUser msg = Some u" | a where "asAssistant msg = Some a"
      by (auto simp: real_message_def)
    then show ?thesis
      using None Cons.prems by cases (auto simp: answered_after_user answered_after_assistant simp del: answered.simps(2))
  next
    case (Some t)
    with Cons.prems(3) obtain block used1 more where
        b: "toolResultBlock reader t used = Inr (block, used1)" "result_group reader ms used1 = Inr (more, rest, used')"
          "blocks = block # more"
      by (auto simp: map_sum_eq_Inr split: sum.splits)
    from Cons.IH [OF _ _ b(2), of "tr_tool_call_id t # seen"] Cons.prems(1,2) show ?thesis
      by (auto simp: answered_after_result [OF Some] b(3) toolResultBlock_ids [OF b(1)] simp del: answered.simps(2))
  qed
qed simp



lemma answers_Nil [simp]: "answers [] ms"
  by (simp add: answers_def)

text \<open>One round of the loop, as equations by the kind of the message.\<close>

lemma convert_loop_text:
  assumes "asUser msg = Some u" "uc_blocks (um_content u) = None" "convert_loop lower oauth allow reader (msg # ms) used = Inr out"
  obtains rest pre where "convert_loop lower oauth allow reader ms used = Inr rest" "out = pre @ rest"
    "pre = [] \<or> pre = [\<lparr>wm_role = ''user'', wm_content = CText (SanitizeSurrogates (uc_text (um_content u)))\<rparr>]"
proof -
  from assms obtain rest where r: "convert_loop lower oauth allow reader ms used = Inr rest"
    "out = (if trim_space (uc_text (um_content u)) \<noteq> [] then
       [\<lparr>wm_role = ''user'', wm_content = CText (SanitizeSurrogates (uc_text (um_content u)))\<rparr>] else []) @ rest"
    by (auto simp: convert_loop.simps(2) Let_def map_sum_eq_Inr)
  show ?thesis by (rule that [OF r]) simp
qed

lemma convert_loop_blocks:
  assumes "asUser msg = Some u" "uc_blocks (um_content u) = Some bs" "convert_loop lower oauth allow reader (msg # ms) used = Inr out"
  obtains rest blocks used' where "block_loop (user_block reader) bs used = Inr (blocks, used')"
    "convert_loop lower oauth allow reader ms used' = Inr rest"
    "out = (if blocks = [] then [] else [\<lparr>wm_role = ''user'', wm_content = CBlocks blocks\<rparr>]) @ rest"
  using assms by (auto simp: convert_loop.simps(2) Let_def map_sum_eq_Inr split: sum.splits prod.splits)

lemma convert_loop_assistant:
  assumes "asUser msg = None" "asAssistant msg = Some a" "convert_loop lower oauth allow reader (msg # ms) used = Inr out"
  obtains rest blocks used' where "block_loop (assistant_block lower oauth allow) (am_content a) used = Inr (blocks, used')"
    "convert_loop lower oauth allow reader ms used' = Inr rest"
    "out = (if blocks = [] then [] else [\<lparr>wm_role = ''assistant'', wm_content = CBlocks blocks\<rparr>]) @ rest"
  using assms by (auto simp: convert_loop.simps(2) Let_def map_sum_eq_Inr split: sum.splits prod.splits)

lemma convert_loop_result:
  assumes "asUser msg = None" "asAssistant msg = None" "asToolResult msg = Some t"
    "convert_loop lower oauth allow reader (msg # ms) used = Inr out"
  obtains first used1 others rest used2 out' where "toolResultBlock reader t used = Inr (first, used1)"
    "result_group reader ms used1 = Inr (others, rest, used2)"
    "convert_loop lower oauth allow reader rest used2 = Inr out'"
    "out = \<lparr>wm_role = ''user'', wm_content = CBlocks (first # others)\<rparr> # out'"
  using assms by (auto simp: convert_loop.simps(2) Let_def map_sum_eq_Inr split: sum.splits prod.splits)

lemma one_kind: "asUser msg = Some u \<Longrightarrow> asAssistant msg = None \<and> asToolResult msg = None"
  "asAssistant msg = Some a \<Longrightarrow> asUser msg = None \<and> asToolResult msg = None"
  "asToolResult msg = Some t \<Longrightarrow> asUser msg = None \<and> asAssistant msg = None"
  by (cases msg; auto)+

lemma convert_loop_paired:
  assumes "answered pend [] ms" "list_all real_message ms" "convert_loop lower oauth allow reader ms used = Inr out"
  shows "answers pend out \<and> paired out"
  using assms
proof (induction "length ms" arbitrary: ms pend used out rule: less_induct)
  case less
  show ?case
  proof (cases ms)
    case Nil
    with less.prems show ?thesis by simp
  next
    case (Cons msg ms')
    consider (user) u where "asUser msg = Some u" | (assistant) a where "asAssistant msg = Some a"
      | (result) t where "asToolResult msg = Some t"
      using less.prems(2) Cons by (auto simp: real_message_def)
    then show ?thesis
    proof cases
      case user
      with less.prems(1) Cons have p: "pend = []" "answered [] [] ms'" by (auto simp: answered_after_user simp del: answered.simps(2))
      have r: "list_all real_message ms'" using less.prems(2) Cons by simp
      show ?thesis
      proof (cases "uc_blocks (um_content u)")
        case None
        from convert_loop_text [OF user None less.prems(3) [unfolded Cons]] obtain rest pre where
          "convert_loop lower oauth allow reader ms' used = Inr rest" "out = pre @ rest"
          "pre = [] \<or> pre = [\<lparr>wm_role = ''user'', wm_content = CText (SanitizeSurrogates (uc_text (um_content u)))\<rparr>]"
          by metis
        with less.hyps [OF _ p(2) r] Cons p show ?thesis by auto
      next
        case (Some bs)
        from convert_loop_blocks [OF user Some less.prems(3) [unfolded Cons]] obtain rest blocks used' where
          "convert_loop lower oauth allow reader ms' used' = Inr rest"
          "out = (if blocks = [] then [] else [\<lparr>wm_role = ''user'', wm_content = CBlocks blocks\<rparr>]) @ rest"
          by metis
        with less.hyps [OF _ p(2) r] Cons p show ?thesis by auto
      qed
    next
      case assistant
      have p: "pend = []" "answered (map cb_id (tool_calls_of a)) [] ms'"
        using less.prems(1) Cons assistant by (auto simp: answered_after_assistant simp del: answered.simps(2))
      have r: "list_all real_message ms'" using less.prems(2) Cons by simp
      from convert_loop_assistant [OF _ assistant less.prems(3) [unfolded Cons]] one_kind(2) [OF assistant]
      obtain rest blocks used' where c: "block_loop (assistant_block lower oauth allow) (am_content a) used = Inr (blocks, used')"
        "convert_loop lower oauth allow reader ms' used' = Inr rest"
        "out = (if blocks = [] then [] else [\<lparr>wm_role = ''assistant'', wm_content = CBlocks blocks\<rparr>]) @ rest"
        by metis
      from less.hyps [OF _ p(2) r c(2)] Cons assistant_block_ids [OF c(1)] show ?thesis
        by (simp add: c(3) p(1) message_ids_def tool_calls_of_def)
    next
      case result
      note k = one_kind(3) [OF result]
      from convert_loop_result [OF _ _ result less.prems(3) [unfolded Cons]] k
      obtain first used1 others rest used2 out' where c: "toolResultBlock reader t used = Inr (first, used1)"
        "result_group reader ms' used1 = Inr (others, rest, used2)"
        "convert_loop lower oauth allow reader rest used2 = Inr out'"
        "out = \<lparr>wm_role = ''user'', wm_content = CBlocks (first # others)\<rparr> # out'"
        by metis
      have a: "answered pend [tr_tool_call_id t] ms'" "list_all real_message ms'"
        using less.prems(1,2) Cons by (auto simp: answered_after_result [OF result] simp del: answered.simps(2))
      from result_group_answers [OF a c(2)] have g: "set pend \<subseteq> insert (tr_tool_call_id t)
          (set (concat (map (ids_of ''tool_result'' ''tool_use_id'') others)))" "answered [] [] rest" "list_all real_message rest"
        by auto
      from result_group_shorter [OF c(2)] Cons have "length rest < length ms" by simp
      from less.hyps [OF this g(2,3) c(3)] g(1) show ?thesis
        by (auto simp: c(4) answers_def message_ids_def toolResultBlock_ids [OF c(1)])
    qed
  qed
qed


section \<open>The attachments stay within the budget\<close>

definition source_payload :: "wire_map \<Rightarrow> nat" where
  "source_payload b =
     (case map_of b ''source'' of
        Some (WMap s) \<Rightarrow> (case map_of s ''data'' of Some (WStr d) \<Rightarrow> length d | _ \<Rightarrow> 0)
      | _ \<Rightarrow> 0)"

definition wire_payload :: "wire \<Rightarrow> nat" where
  "wire_payload v =
     (case v of WArr vs \<Rightarrow> sum_list (map (\<lambda>x. case x of WMap m \<Rightarrow> source_payload m | _ \<Rightarrow> 0) vs) | _ \<Rightarrow> 0)"

text \<open>The bytes of data in a block, the attachments of a tool result included.\<close>

definition block_payload :: "wire_map \<Rightarrow> nat" where
  "block_payload b = source_payload b + (case map_of b ''content'' of Some v \<Rightarrow> wire_payload v | None \<Rightarrow> 0)"

definition message_payload :: "wire_message \<Rightarrow> nat" where
  "message_payload m = (case wm_content m of CText _ \<Rightarrow> 0 | CBlocks bs \<Rightarrow> sum_list (map block_payload bs))"

definition reserved :: "int \<Rightarrow> nat \<Rightarrow> int \<Rightarrow> bool" where
  "reserved used n used' \<longleftrightarrow> used + int n \<le> used' \<and> used' \<le> maxAnthropicPayloadBytes"

lemma reserved_trans: "reserved a m b \<Longrightarrow> reserved b n c \<Longrightarrow> reserved a (m + n) c"
  by (simp add: reserved_def)

lemma reserved_refl [simp]: "reserved used 0 used \<longleftrightarrow> used \<le> maxAnthropicPayloadBytes"
  by (simp add: reserved_def)

lemma payload_simps [simp]:
  "source_payload (text_block s) = 0" "block_payload (text_block s) = 0"
  "block_payload (tool_use_block lower oauth b) = 0"
  "sum_list (map block_payload (thinking_block allow b)) = 0"
  "source_payload (source_block k f m d) = length d" "block_payload (source_block k f m d) = length d"
  by (simp_all add: source_payload_def block_payload_def text_block_def tool_use_block_def thinking_block_def
      source_block_def Let_def)

lemma image_within_reserved: "image_within b used = Inr (block, used') \<Longrightarrow> reserved used (block_payload block) used' \<and> source_payload block = block_payload block"
  by (auto simp: image_within_def map_sum_eq_Inr reserveEncoded_def imageBlock_def reserved_def split: if_splits)

lemma encoded_len_ge: "0 \<le> n \<Longrightarrow> n \<le> encoded_len n"
  unfolding encoded_len_def by presburger

lemma encode_attachment_payload:
  "encode_attachment b kind data = Inr block \<Longrightarrow>
   int (block_payload block) \<le> encoded_len (int (length data)) \<and> source_payload block = block_payload block"
  using encoded_len_ge [of "int (length data)"]
  by (auto simp: encode_attachment_def length_base64_encode split: option.splits if_splits)

lemma read_attachment_length: "read_attachment r b n = Inr data \<Longrightarrow> int (length data) = n"
  by (auto simp: read_attachment_def Let_def split: sum.splits prod.splits option.splits if_splits)

lemma referencedContentBlock_reserved:
  "referencedContentBlock reader b used = Inr (block, used') \<Longrightarrow>
   reserved used (block_payload block) used' \<and> source_payload block = block_payload block"
  by (auto simp: referencedContentBlock_def map_sum_eq_Inr reserveRaw_def reserveEncoded_def reserved_def
      dest!: read_attachment_length encode_attachment_payload split: sum.splits option.splits if_splits)

lemma block_loop_reserved:
  assumes f: "\<And>b used out used'. used \<le> maxAnthropicPayloadBytes \<Longrightarrow> f b used = Inr (out, used') \<Longrightarrow>
      reserved used (sum_list (map g out)) used'"
  shows "used \<le> maxAnthropicPayloadBytes \<Longrightarrow> block_loop f bs used = Inr (out, used') \<Longrightarrow>
    reserved used (sum_list (map g out)) used'"
proof (induction bs arbitrary: used out)
  case (Cons b bs)
  from Cons.prems(2) obtain out1 used1 out2 where s: "f b used = Inr (out1, used1)" "block_loop f bs used1 = Inr (out2, used')"
      "out = out1 @ out2"
    by (auto simp: map_sum_eq_Inr split: sum.splits)
  note r = f [OF Cons.prems(1) s(1)]
  then have "used1 \<le> maxAnthropicPayloadBytes" by (simp add: reserved_def)
  from reserved_trans [OF r Cons.IH [OF this s(2)]] show ?case by (simp add: s(3))
qed simp

lemma user_block_reserved:
  "used \<le> maxAnthropicPayloadBytes \<Longrightarrow> user_block reader b used = Inr (out, used') \<Longrightarrow>
   reserved used (sum_list (map block_payload out)) used'"
  by (auto simp: user_block_def Let_def map_sum_eq_Inr
      dest!: image_within_reserved referencedContentBlock_reserved split: block_type.splits if_splits)

lemma assistant_block_reserved:
  "used \<le> maxAnthropicPayloadBytes \<Longrightarrow> assistant_block lower oauth allow b used = Inr (out, used') \<Longrightarrow>
   reserved used (sum_list (map block_payload out)) used'"
  by (auto simp: assistant_block_def split: block_type.splits if_splits)

lemma content_part_reserved:
  "used \<le> maxAnthropicPayloadBytes \<Longrightarrow> content_part reader b used = Inr (out, used') \<Longrightarrow>
   reserved used (sum_list (map source_payload out)) used'"
  by (auto simp: content_part_def map_sum_eq_Inr
      dest!: image_within_reserved referencedContentBlock_reserved split: block_type.splits)

lemma convertContentBlocks_cases:
  assumes "convertContentBlocks reader content used = Inr (v, used')"
  obtains s where "v = WStr s" "used' = used"
  | pre blocks where "block_loop (content_part reader) content used = Inr (blocks, used')" "v = WArr (map WMap (pre @ blocks))"
    "pre = [] \<or> (\<exists>s. pre = [text_block s])"
proof (cases "list_ex (\<lambda>b. cb_type b = BlockDocumentRef) content \<or>
    list_ex (\<lambda>b. cb_type b = BlockImage \<or> cb_type b = BlockImageRef) content")
  case False
  with assms show ?thesis by (intro that(1)) (auto simp: convertContentBlocks_def)
next
  case True
  define pre where "pre = (if list_ex (\<lambda>b. cb_type b = BlockText) content then []
     else [text_block (if list_ex (\<lambda>b. cb_type b = BlockDocumentRef) content
         then ''(see attached document)'' else ''(see attached image)'')])"
  have "convertContentBlocks reader content used =
      map_sum id (\<lambda>(blocks, used'). (WArr (map WMap (pre @ blocks)), used')) (block_loop (content_part reader) content used)"
    using True unfolding convertContentBlocks_def Let_def pre_def
    by (intro trans [OF if_not_P] arg_cong2 [where f = "map_sum id"] ext) auto
  with assms obtain blocks where "block_loop (content_part reader) content used = Inr (blocks, used')"
      "v = WArr (map WMap (pre @ blocks))"
    by (auto simp: map_sum_eq_Inr)
  then show ?thesis by (rule that(2)) (auto simp: pre_def)
qed

lemma wire_payload_blocks: "wire_payload (WArr (map WMap bs)) = sum_list (map source_payload bs)"
  by (simp add: wire_payload_def comp_def)

lemma toolResultBlock_reserved:
  assumes "used \<le> maxAnthropicPayloadBytes" "toolResultBlock reader m used = Inr (block, used')"
  shows "reserved used (block_payload block) used'"
proof -
  from assms(2) obtain content where c: "convertContentBlocks reader (tr_content m) used = Inr (content, used')"
      "block_payload block = wire_payload content"
    by (auto simp: toolResultBlock_def map_sum_eq_Inr block_payload_def source_payload_def)
  from c(1) have "reserved used (wire_payload content) used'"
  proof (cases rule: convertContentBlocks_cases)
    case 1
    with assms(1) show ?thesis by (simp add: wire_payload_def)
  next
    case (2 pre blocks)
    from block_loop_reserved [where f = "content_part reader" and g = source_payload,
        OF content_part_reserved assms(1) 2(1)] 2(3)
    show ?thesis by (auto simp: 2(2) wire_payload_blocks simp del: map_append)
  qed
  with c(2) show ?thesis by simp
qed


lemma result_group_reserved:
  assumes "used \<le> maxAnthropicPayloadBytes" "result_group reader ms used = Inr (blocks, rest, used')"
  shows "reserved used (sum_list (map block_payload blocks)) used'"
  using assms
proof (induction ms arbitrary: used blocks)
  case (Cons msg ms)
  show ?case
  proof (cases "asToolResult msg")
    case (Some t)
    with Cons.prems(2) obtain block used1 more where
        b: "toolResultBlock reader t used = Inr (block, used1)" "result_group reader ms used1 = Inr (more, rest, used')"
          "blocks = block # more"
      by (auto simp: map_sum_eq_Inr split: sum.splits)
    note r = toolResultBlock_reserved [OF Cons.prems(1) b(1)]
    then have "used1 \<le> maxAnthropicPayloadBytes" by (simp add: reserved_def)
    from reserved_trans [OF r Cons.IH [OF this b(2)]] show ?thesis by (simp add: b(3))
  qed (use Cons.prems in auto)
qed simp

lemma within_next:
  assumes "reserved used n used1" "used1 \<le> maxAnthropicPayloadBytes \<Longrightarrow> used1 + int k \<le> maxAnthropicPayloadBytes"
  shows "used + int (n + k) \<le> maxAnthropicPayloadBytes"
  using assms by (simp add: reserved_def)

lemma message_kinds:
  obtains (words) u where "asUser msg = Some u" "uc_blocks (um_content u) = None"
  | (user) u bs where "asUser msg = Some u" "uc_blocks (um_content u) = Some bs"
  | (assistant) a where "asUser msg = None" "asAssistant msg = Some a"
  | (result) t where "asUser msg = None" "asAssistant msg = None" "asToolResult msg = Some t"
  | (other) "asUser msg = None" "asAssistant msg = None" "asToolResult msg = None"
  by (cases "asUser msg"; cases "asAssistant msg"; cases "asToolResult msg") auto

lemma convert_loop_reserved:
  assumes "used \<le> maxAnthropicPayloadBytes" "convert_loop lower oauth allow reader ms used = Inr out"
  shows "used + int (sum_list (map message_payload out)) \<le> maxAnthropicPayloadBytes"
  using assms
proof (induction "length ms" arbitrary: ms used out rule: less_induct)
  case less
  show ?case
  proof (cases ms)
    case (Cons msg ms')
    note run = less.prems(2) [unfolded Cons]
    have IH: "used1 \<le> maxAnthropicPayloadBytes \<Longrightarrow> used1 + int (sum_list (map message_payload rest)) \<le> maxAnthropicPayloadBytes"
      if "convert_loop lower oauth allow reader ms'' used1 = Inr rest" "length ms'' \<le> length ms'" for ms'' used1 rest
      using less.hyps [of ms'' used1 rest] that Cons by simp
    show ?thesis
    proof (cases rule: message_kinds [of msg])
      case (words u)
      from convert_loop_text [OF words run] obtain rest pre where
        "convert_loop lower oauth allow reader ms' used = Inr rest" "out = pre @ rest"
        "pre = [] \<or> pre = [\<lparr>wm_role = ''user'', wm_content = CText (SanitizeSurrogates (uc_text (um_content u)))\<rparr>]"
        by metis
      with IH less.prems(1) show ?thesis by (fastforce simp: message_payload_def)
    next
      case (user u bs)
      from convert_loop_blocks [OF user run] obtain rest blocks used' where
        c: "block_loop (user_block reader) bs used = Inr (blocks, used')" "convert_loop lower oauth allow reader ms' used' = Inr rest"
        "out = (if blocks = [] then [] else [\<lparr>wm_role = ''user'', wm_content = CBlocks blocks\<rparr>]) @ rest"
        by metis
      from within_next [OF block_loop_reserved [where f = "user_block reader", OF user_block_reserved less.prems(1) c(1)] IH [OF c(2)]]
      show ?thesis by (cases "blocks = []") (simp_all add: c(3) message_payload_def)
    next
      case (assistant a)
      from convert_loop_assistant [OF assistant run] obtain rest blocks used' where
        c: "block_loop (assistant_block lower oauth allow) (am_content a) used = Inr (blocks, used')"
        "convert_loop lower oauth allow reader ms' used' = Inr rest"
        "out = (if blocks = [] then [] else [\<lparr>wm_role = ''assistant'', wm_content = CBlocks blocks\<rparr>]) @ rest"
        by metis
      from within_next [OF block_loop_reserved [where f = "assistant_block lower oauth allow", OF assistant_block_reserved less.prems(1) c(1)] IH [OF c(2)]]
      show ?thesis by (cases "blocks = []") (simp_all add: c(3) message_payload_def)
    next
      case (result t)
      from convert_loop_result [OF result run]
      obtain first used1 others rest used2 out' where c: "toolResultBlock reader t used = Inr (first, used1)"
        "result_group reader ms' used1 = Inr (others, rest, used2)"
        "convert_loop lower oauth allow reader rest used2 = Inr out'"
        "out = \<lparr>wm_role = ''user'', wm_content = CBlocks (first # others)\<rparr> # out'"
        by metis
      note r = toolResultBlock_reserved [OF less.prems(1) c(1)]
      then have "used1 \<le> maxAnthropicPayloadBytes" by (simp add: reserved_def)
      from within_next [OF reserved_trans [OF r result_group_reserved [OF this c(2)]] IH [OF c(3) result_group_shorter [OF c(2)]]]
      show ?thesis by (simp add: c(4) message_payload_def)
    next
      case other
      with run have "convert_loop lower oauth allow reader ms' used = Inr out" by (simp add: convert_loop.simps(2))
      with IH less.prems(1) show ?thesis by blast
    qed
  qed (use less.prems in simp)
qed



section \<open>An acceptable request\<close>

lemma real_downgraded: "list_all real_message ms \<Longrightarrow> list_all real_message (downgradeUnsupportedImages ms model)"
proof -
  have "real_message msg \<Longrightarrow> real_message (downgrade_message msg)" for msg
    by (cases msg rule: downgrade_message.cases) (simp_all add: real_message_def)
  then show "list_all real_message ms \<Longrightarrow> ?thesis"
    by (simp add: downgradeUnsupportedImages_def list_all_iff)
qed

lemma real_simps [simp]:
  "real_message (UserMessage u)" "real_message (AssistantMessage a)" "real_message (ToolResultMessage t)"
  by (simp_all add: real_message_def)

lemma real_first_pass: "list_all real_message ms \<Longrightarrow> list_all real_message (first_pass model norm ids ms)"
  by (induction model norm ids ms rule: first_pass.induct) (auto split: message.splits option.splits prod.splits)

lemma real_inserted: "list_all real_message (insertSyntheticToolResults now pending seen)"
  by (auto simp: insertSyntheticToolResults_def synthetic_result_def list_all_iff)

lemma real_second_pass: "list_all real_message ms \<Longrightarrow> list_all real_message (second_pass now pending seen ms)"
  by (induction now pending seen ms rule: second_pass.induct)
    (auto simp: real_inserted split: message.splits option.splits)

lemma real_transformed: "list_all real_message ms \<Longrightarrow> list_all real_message (TransformMessages now ms model norm)"
  by (simp add: TransformMessages_def real_second_pass real_first_pass real_downgraded)

text \<open>The cache marker changes no role, identifier or data.\<close>

lemma map_of_marked: "key \<noteq> ''cache_control'' \<Longrightarrow> map_of (withCacheControl b cc) key = map_of b key"
  by (cases cc) (simp_all add: withCacheControl_def)

lemma ids_of_marked: "key \<noteq> ''cache_control'' \<Longrightarrow> ids_of kind key (withCacheControl b cc) = ids_of kind key b"
  by (simp add: ids_of_def map_of_marked)

lemma payload_marked: "block_payload (withCacheControl b cc) = block_payload b"
  by (simp add: block_payload_def source_payload_def map_of_marked)

lemma mark_message_cases:
  "mark_message c m = m \<or>
   (\<exists>t. wm_content m = CText t \<and> mark_message c m = m\<lparr>wm_content := CBlocks [withCacheControl (text_block t) (Some c)]\<rparr>) \<or>
   (\<exists>bs b. wm_content m = CBlocks (bs @ [b]) \<and>
      mark_message c m = m\<lparr>wm_content := CBlocks (bs @ [withCacheControl b (Some c)])\<rparr>)"
proof (cases "wm_content m")
  case (CBlocks bs)
  then show ?thesis by (cases bs rule: rev_cases) (simp_all add: mark_message_def)
qed (simp add: mark_message_def)

lemma mark_message_keeps:
  shows "wm_role (mark_message c m) = wm_role m"
    and "message_payload (mark_message c m) = message_payload m"
    and "use_ids (mark_message c m) = use_ids m"
    and "result_ids (mark_message c m) = result_ids m"
    and "wm_content m \<noteq> CBlocks [] \<Longrightarrow> wm_content (mark_message c m) \<noteq> CBlocks []"
  using mark_message_cases [of c m]
  by (auto simp: message_payload_def payload_marked message_ids_def ids_of_marked)
    (simp_all add: ids_of_def text_block_def)

lemma answers_marked: "answers ids (ms @ [mark_message c m]) = answers ids (ms @ [m])"
  by (cases ms) (simp_all add: answers_def mark_message_keeps)

lemma paired_marked: "paired (ms @ [mark_message c m]) = paired (ms @ [m])"
  by (induction ms) (simp_all add: answers_marked mark_message_keeps(1,3))



lemma convert_loop_filled:
  "convert_loop lower oauth allow reader ms used = Inr out \<Longrightarrow> list_all (\<lambda>m. wm_content m \<noteq> CBlocks []) out"
proof (induction "length ms" arbitrary: ms used out rule: less_induct)
  case less
  show ?case
  proof (cases ms)
    case (Cons msg ms')
    note run = less.prems [unfolded Cons]
    have IH: "list_all (\<lambda>m. wm_content m \<noteq> CBlocks []) rest"
      if "convert_loop lower oauth allow reader ms'' used1 = Inr rest" "length ms'' \<le> length ms'" for ms'' used1 rest
      using less.hyps [of ms'' used1 rest] that Cons by simp
    show ?thesis
    proof (cases rule: message_kinds [of msg])
      case (words u)
      from convert_loop_text [OF words run] obtain rest pre where
        "convert_loop lower oauth allow reader ms' used = Inr rest" "out = pre @ rest"
        "pre = [] \<or> pre = [\<lparr>wm_role = ''user'', wm_content = CText (SanitizeSurrogates (uc_text (um_content u)))\<rparr>]"
        by metis
      with IH show ?thesis by auto
    next
      case (user u bs)
      from convert_loop_blocks [OF user run] obtain rest blocks used' where
        "convert_loop lower oauth allow reader ms' used' = Inr rest"
        "out = (if blocks = [] then [] else [\<lparr>wm_role = ''user'', wm_content = CBlocks blocks\<rparr>]) @ rest"
        by metis
      with IH show ?thesis by auto
    next
      case (assistant a)
      from convert_loop_assistant [OF assistant run] obtain rest blocks used' where
        "convert_loop lower oauth allow reader ms' used' = Inr rest"
        "out = (if blocks = [] then [] else [\<lparr>wm_role = ''assistant'', wm_content = CBlocks blocks\<rparr>]) @ rest"
        by metis
      with IH show ?thesis by auto
    next
      case (result t)
      from convert_loop_result [OF result run]
      obtain first used1 others rest used2 out' where "result_group reader ms' used1 = Inr (others, rest, used2)"
        "convert_loop lower oauth allow reader rest used2 = Inr out'"
        "out = \<lparr>wm_role = ''user'', wm_content = CBlocks (first # others)\<rparr> # out'"
        by metis
      with IH result_group_shorter show ?thesis by auto
    next
      case other
      with run IH show ?thesis by (simp add: convert_loop.simps(2))
    qed
  qed (use less.prems in simp)
qed

lemma convert_acceptable:
  assumes "list_all real_message messages"
    and "convertMessages lower now messages m oauth cc allow_empty reader = Inr params"
  shows "paired params \<and> list_all (\<lambda>p. wm_content p \<noteq> CBlocks []) params \<and>
    int (sum_list (map message_payload params)) \<le> maxAnthropicPayloadBytes"
proof -
  let ?ms = "TransformMessages now messages m (Some (\<lambda>i _ _. normalizeToolCallID i))"
  obtain out where loop: "convert_loop lower oauth allow_empty reader ?ms 0 = Inr out" and params: "params = mark_last cc out"
    using assms(2) by (auto simp: convertMessages_def map_sum_eq_Inr)
  have "answered [] [] ?ms"
    using second_pass_answered [of "[]" "[]"] by (simp add: TransformMessages_def)
  from convert_loop_paired [OF this real_transformed [OF assms(1)] loop] have p: "paired out" by simp
  note f = convert_loop_filled [OF loop]
  have b: "int (sum_list (map message_payload out)) \<le> maxAnthropicPayloadBytes"
    using convert_loop_reserved [OF _ loop] by (simp add: maxAnthropicPayloadBytes_def)
  show ?thesis
  proof (cases "cc = None \<or> out = []")
    case True
    then have "params = out" by (cases cc) (simp_all add: params mark_last_def)
    with p f b show ?thesis by simp
  next
    case False
    then obtain c ms x where c: "cc = Some c" "out = ms @ [x]" by (cases out rule: rev_cases) auto
    with p f b show ?thesis by (simp add: params mark_last_def paired_marked mark_message_keeps)
  qed
qed


definition example_calls :: "message list" where
  "example_calls =
     [UserMessage \<lparr>um_content = StringContent ''hi'', um_timestamp = 0\<rparr>,
      AssistantMessage ((empty_assistant ''a'' ''p'' ''m'')\<lparr>am_content := [NewToolCall ''c.1'' ''read'' ''{}'']\<rparr>)]"

definition example_request :: "document_error + wire_message list" where
  "example_request = convertMessages id 0 example_calls vision_model True (Some \<lparr>cc_type = ''ephemeral'', cc_ttl = []\<rparr>) False None"

lemma example_request_accepted: "(case example_request of Inl _ \<Rightarrow> False | Inr ps \<Rightarrow> length ps = 3)"
  by code_simp


end
