(* ===== verification/Json_Structs.thy ===== *)
theory Json_Structs
  imports Json_Raw Validate
begin

text \<open>
  \<open>encoding/json\<close> into structs, pointers, slices and maps, over the raw texts of members and
  elements: what the providers decode their response chunks with.
\<close>

text \<open>\<open>encoding/json\<close> into a struct: its members in order, \<open>null\<close> changes nothing.\<close>

definition set_struct :: "string list \<Rightarrow> (string \<Rightarrow> string \<Rightarrow> 's \<Rightarrow> 's option) \<Rightarrow> string \<Rightarrow> 's \<Rightarrow> 's option" where
  "set_struct names set_field raw s =
     (case raw_object raw of
        None \<Rightarrow> None
      | Some ms \<Rightarrow>
          fold_option (\<lambda>kr s. case field_for names (fst kr) of
            None \<Rightarrow> Some s | Some f \<Rightarrow> set_field f (snd kr) s) ms s)"

text \<open>A pointer: \<open>null\<close> makes it nil, any other value is decoded into what it points to.\<close>

definition set_pointer :: "(string \<Rightarrow> 's \<Rightarrow> 's option) \<Rightarrow> 's \<Rightarrow> string \<Rightarrow> 's option \<Rightarrow> 's option option" where
  "set_pointer set_value zero raw old =
     (if parse_json raw = Some JNull then Some None
      else map_option Some (set_value raw (case old of Some v \<Rightarrow> v | None \<Rightarrow> zero)))"

definition set_int_pointer :: "string \<Rightarrow> int option \<Rightarrow> int option option" where
  "set_int_pointer = set_pointer set_int 0"

text \<open>The raw texts of the elements of an array; \<open>null\<close> gives no array, any other value an error.\<close>

fun raw_elements :: "nat \<Rightarrow> string \<Rightarrow> string list option" where
  "raw_elements 0 s = None"
| "raw_elements (Suc n) s = do {
     (v, r) \<leftarrow> parse_value n s;
     (let e = take (length (skip_ws s) - length r) (skip_ws s) in
      case skip_ws r of
        [] \<Rightarrow> None
      | c # t \<Rightarrow> (if c = CHR '','' then map_option ((#) e) (raw_elements n t)
                  else if c = CHR '']'' then Some [e] else None))
   }"

definition raw_array :: "string \<Rightarrow> string list option option" where
  "raw_array s =
     (case parse_json s of
        Some (JArr []) \<Rightarrow> Some (Some [])
      | Some (JArr _) \<Rightarrow> map_option Some (raw_elements (2 * length s + 2) (tl (skip_ws s)))
      | Some JNull \<Rightarrow> Some None
      | _ \<Rightarrow> None)"

text \<open>
  A slice: \<open>null\<close> makes it nil.  An element is decoded into the old element at its place, if there
  is one (a repeated key), and else into the zero value.
\<close>

fun set_elements :: "(string \<Rightarrow> 's \<Rightarrow> 's option) \<Rightarrow> 's \<Rightarrow> string list \<Rightarrow> 's list \<Rightarrow> 's list option" where
  "set_elements set_value zero [] old = Some []"
| "set_elements set_value zero (raw # raws) old =
     (case set_value raw (case old of [] \<Rightarrow> zero | x # _ \<Rightarrow> x) of
        None \<Rightarrow> None
      | Some v \<Rightarrow> map_option ((#) v) (set_elements set_value zero raws (tl old)))"

definition set_slice :: "(string \<Rightarrow> 's \<Rightarrow> 's option) \<Rightarrow> 's \<Rightarrow> string \<Rightarrow> 's list \<Rightarrow> 's list option" where
  "set_slice set_value zero raw old =
     (case raw_array raw of
        None \<Rightarrow> None | Some None \<Rightarrow> Some [] | Some (Some raws) \<Rightarrow> set_elements set_value zero raws old)"

definition set_bool :: "string \<Rightarrow> bool \<Rightarrow> bool option" where
  "set_bool raw old =
     (case parse_json raw of Some (JBool b) \<Rightarrow> Some b | Some JNull \<Rightarrow> Some old | _ \<Rightarrow> None)"

text \<open>A \<open>map[string]any\<close>: \<open>null\<close> makes it nil, an object is added to the old map.\<close>

definition set_any_map :: "string \<Rightarrow> schema option \<Rightarrow> schema option option" where
  "set_any_map raw old =
     (case unmarshal_any raw of
        Some (AObj ms) \<Rightarrow>
          Some (Some (fold (\<lambda>(k, v). set_key k v) ms (case old of Some old_ms \<Rightarrow> old_ms | None \<Rightarrow> [])))
      | Some ANil \<Rightarrow> Some None
      | _ \<Rightarrow> None)"

text \<open>The conversion of a \<open>float64\<close> to \<open>int\<close>; out of range it gives what amd64 gives.\<close>

definition int_of_float :: "float64 \<Rightarrow> int" where
  "int_of_float v =
     (let q = int (float_num v div float_den v); n = (if flt_neg v then - q else q)
      in if in64 n then n else - (2 ^ 63))"

end
