(* ===== verification/Anthropic_Events.thy ===== *)
theory Anthropic_Events
  imports Sse Json_Repair Json_Structs Validate
begin

text \<open>
  \<open>internal/provider/anthropic/events.go\<close>: the frames of an Anthropic response stream, their
  decoding and their folding into one assistant message with the stream events sent on.  The
  price of the tokens is not modelled.  An event carries the message as it is when the event is
  made; in the code it is a pointer to the one message.  \<open>ulow\<close> is the Unicode lower-case mapping.
\<close>

section \<open>Frames\<close>

record stop_details = sd_explanation :: string

record anthropic_usage =
  au_input :: "int option"
  au_output :: "int option"
  au_cache_read :: "int option"
  au_cache_creation :: "int option"
  au_cache_creation_1h :: "int option option"
  au_thinking :: "int option option"

text \<open>
  The two pointers to structs with one pointer field are options of options: \<open>CacheCreation\<close>
  and \<open>OutputTokensDetails\<close>.
\<close>

definition no_usage :: anthropic_usage where
  "no_usage = \<lparr>au_input = None, au_output = None, au_cache_read = None, au_cache_creation = None,
     au_cache_creation_1h = None, au_thinking = None\<rparr>"

record anthropic_message =
  an_id :: string
  an_usage :: anthropic_usage

record anthropic_content_block =
  ab_type :: string
  ab_id :: string
  ab_name :: string
  ab_input :: bytes
  ab_data :: string

record anthropic_delta =
  ad_type :: string
  ad_text :: string
  ad_thinking :: string
  ad_partial_json :: string
  ad_signature :: string
  ad_stop_reason :: string
  ad_stop_details :: "stop_details option"

record raw_event =
  re_type :: string
  re_message :: anthropic_message
  re_index :: int
  re_block :: anthropic_content_block
  re_delta :: anthropic_delta
  re_usage :: anthropic_usage

definition empty_raw :: raw_event where
  "empty_raw =
     \<lparr>re_type = [], re_message = \<lparr>an_id = [], an_usage = no_usage\<rparr>, re_index = 0,
      re_block = \<lparr>ab_type = [], ab_id = [], ab_name = [], ab_input = [], ab_data = []\<rparr>,
      re_delta = \<lparr>ad_type = [], ad_text = [], ad_thinking = [], ad_partial_json = [], ad_signature = [],
        ad_stop_reason = [], ad_stop_details = None\<rparr>,
      re_usage = no_usage\<rparr>"

section \<open>Decoding a frame\<close>

definition set_stop_details :: "string \<Rightarrow> stop_details \<Rightarrow> stop_details option" where
  "set_stop_details = set_struct [''explanation'']
     (\<lambda>f raw d. map_option (\<lambda>v. d\<lparr>sd_explanation := v\<rparr>) (set_str raw (sd_explanation d)))"

definition set_usage :: "string \<Rightarrow> anthropic_usage \<Rightarrow> anthropic_usage option" where
  "set_usage = set_struct [''input_tokens'', ''output_tokens'', ''cache_read_input_tokens'',
       ''cache_creation_input_tokens'', ''cache_creation'', ''output_tokens_details'']
     (\<lambda>f raw u.
       if f = ''input_tokens'' then map_option (\<lambda>v. u\<lparr>au_input := v\<rparr>) (set_int_pointer raw (au_input u))
       else if f = ''output_tokens'' then map_option (\<lambda>v. u\<lparr>au_output := v\<rparr>) (set_int_pointer raw (au_output u))
       else if f = ''cache_read_input_tokens'' then map_option (\<lambda>v. u\<lparr>au_cache_read := v\<rparr>) (set_int_pointer raw (au_cache_read u))
       else if f = ''cache_creation_input_tokens'' then
         map_option (\<lambda>v. u\<lparr>au_cache_creation := v\<rparr>) (set_int_pointer raw (au_cache_creation u))
       else if f = ''cache_creation'' then
         map_option (\<lambda>v. u\<lparr>au_cache_creation_1h := v\<rparr>)
           (set_pointer (set_struct [''ephemeral_1h_input_tokens''] (\<lambda>f raw v. set_int_pointer raw v)) None raw
             (au_cache_creation_1h u))
       else
         map_option (\<lambda>v. u\<lparr>au_thinking := v\<rparr>)
           (set_pointer (set_struct [''thinking_tokens''] (\<lambda>f raw v. set_int_pointer raw v)) None raw (au_thinking u)))"

definition set_message :: "string \<Rightarrow> anthropic_message \<Rightarrow> anthropic_message option" where
  "set_message = set_struct [''id'', ''usage'']
     (\<lambda>f raw m.
       if f = ''id'' then map_option (\<lambda>v. m\<lparr>an_id := v\<rparr>) (set_str raw (an_id m))
       else map_option (\<lambda>v. m\<lparr>an_usage := v\<rparr>) (set_usage raw (an_usage m)))"

definition set_content_block :: "string \<Rightarrow> anthropic_content_block \<Rightarrow> anthropic_content_block option" where
  "set_content_block = set_struct [''type'', ''id'', ''name'', ''input'', ''data'']
     (\<lambda>f raw b.
       if f = ''type'' then map_option (\<lambda>v. b\<lparr>ab_type := v\<rparr>) (set_str raw (ab_type b))
       else if f = ''id'' then map_option (\<lambda>v. b\<lparr>ab_id := v\<rparr>) (set_str raw (ab_id b))
       else if f = ''name'' then map_option (\<lambda>v. b\<lparr>ab_name := v\<rparr>) (set_str raw (ab_name b))
       else if f = ''input'' then Some (b\<lparr>ab_input := raw\<rparr>)
       else map_option (\<lambda>v. b\<lparr>ab_data := v\<rparr>) (set_str raw (ab_data b)))"

definition set_delta :: "string \<Rightarrow> anthropic_delta \<Rightarrow> anthropic_delta option" where
  "set_delta = set_struct [''type'', ''text'', ''thinking'', ''partial_json'', ''signature'', ''stop_reason'', ''stop_details'']
     (\<lambda>f raw d.
       if f = ''type'' then map_option (\<lambda>v. d\<lparr>ad_type := v\<rparr>) (set_str raw (ad_type d))
       else if f = ''text'' then map_option (\<lambda>v. d\<lparr>ad_text := v\<rparr>) (set_str raw (ad_text d))
       else if f = ''thinking'' then map_option (\<lambda>v. d\<lparr>ad_thinking := v\<rparr>) (set_str raw (ad_thinking d))
       else if f = ''partial_json'' then map_option (\<lambda>v. d\<lparr>ad_partial_json := v\<rparr>) (set_str raw (ad_partial_json d))
       else if f = ''signature'' then map_option (\<lambda>v. d\<lparr>ad_signature := v\<rparr>) (set_str raw (ad_signature d))
       else if f = ''stop_reason'' then map_option (\<lambda>v. d\<lparr>ad_stop_reason := v\<rparr>) (set_str raw (ad_stop_reason d))
       else map_option (\<lambda>v. d\<lparr>ad_stop_details := v\<rparr>)
         (set_pointer set_stop_details \<lparr>sd_explanation = []\<rparr> raw (ad_stop_details d)))"

definition set_raw_event :: "string \<Rightarrow> raw_event \<Rightarrow> raw_event option" where
  "set_raw_event = set_struct [''type'', ''message'', ''index'', ''content_block'', ''delta'', ''usage'']
     (\<lambda>f raw e.
       if f = ''type'' then map_option (\<lambda>v. e\<lparr>re_type := v\<rparr>) (set_str raw (re_type e))
       else if f = ''message'' then map_option (\<lambda>v. e\<lparr>re_message := v\<rparr>) (set_message raw (re_message e))
       else if f = ''index'' then map_option (\<lambda>v. e\<lparr>re_index := v\<rparr>) (set_int raw (re_index e))
       else if f = ''content_block'' then map_option (\<lambda>v. e\<lparr>re_block := v\<rparr>) (set_content_block raw (re_block e))
       else if f = ''delta'' then map_option (\<lambda>v. e\<lparr>re_delta := v\<rparr>) (set_delta raw (re_delta e))
       else map_option (\<lambda>v. e\<lparr>re_usage := v\<rparr>) (set_usage raw (re_usage e)))"

definition unmarshal_raw :: "string \<Rightarrow> unit + raw_event" where
  "unmarshal_raw text = (case set_raw_event text empty_raw of None \<Rightarrow> Inl () | Some e \<Rightarrow> Inr e)"

section \<open>Folding\<close>

record fold_block =
  fb_anthropic_index :: int
  fb_content_index :: nat
  fb_partial_json :: string

record fold_state =
  fs_output :: assistant_message
  fs_is_oauth :: bool
  fs_tools :: "tool list"
  fs_blocks :: "fold_block list"

text \<open>\<open>find\<close>: the position of the first block of this index whose content exists.\<close>

definition find_block :: "fold_state \<Rightarrow> int \<Rightarrow> nat option" where
  "find_block st ai =
     first_index (\<lambda>b. fb_anthropic_index b = ai \<and> fb_content_index b < length (am_content (fs_output st))) (fs_blocks st)"

definition block_of :: "fold_state \<Rightarrow> nat \<Rightarrow> content_block" where
  "block_of st i = am_content (fs_output st) ! fb_content_index (fs_blocks st ! i)"

definition set_block :: "fold_state \<Rightarrow> nat \<Rightarrow> content_block \<Rightarrow> fold_state" where
  "set_block st i b =
     st\<lparr>fs_output := (fs_output st)\<lparr>am_content := (am_content (fs_output st))[fb_content_index (fs_blocks st ! i) := b]\<rparr>\<rparr>"

definition add_block :: "fold_state \<Rightarrow> int \<Rightarrow> content_block \<Rightarrow> fold_state" where
  "add_block st ai b =
     st\<lparr>fs_output := (fs_output st)\<lparr>am_content := am_content (fs_output st) @ [b]\<rparr>,
        fs_blocks := fs_blocks st @ [\<lparr>fb_anthropic_index = ai,
          fb_content_index = length (am_content (fs_output st)), fb_partial_json = []\<rparr>]\<rparr>"

definition ev_at :: "ev_type \<Rightarrow> nat \<Rightarrow> fold_state \<Rightarrow> stream_event" where
  "ev_at t i st = (event t)\<lparr>ev_index := i, ev_partial := Some (fs_output st)\<rparr>"

definition fromClaudeCodeName :: "(string \<Rightarrow> string) \<Rightarrow> string \<Rightarrow> tool list \<Rightarrow> string" where
  "fromClaudeCodeName lower name tools =
     (case find (\<lambda>t. lower (to_name t) = lower name) tools of Some t \<Rightarrow> to_name t | None \<Rightarrow> name)"

definition intValue :: "int option \<Rightarrow> int" where "intValue v = (case v of None \<Rightarrow> 0 | Some n \<Rightarrow> n)"

definition rawObjectOrEmpty :: "bytes \<Rightarrow> bytes" where
  "rawObjectOrEmpty raw = (if raw = [] \<or> raw = ''null'' then ''{}'' else raw)"

text \<open>A \<open>map[string]any\<close> that may be nil; encoding one never fails, its numbers being finite.\<close>

definition unmarshal_object :: "string \<Rightarrow> unit + schema option" where
  "unmarshal_object text =
     (case unmarshal_any text of Some (AObj ms) \<Rightarrow> Inr (Some ms) | Some ANil \<Rightarrow> Inr None | _ \<Rightarrow> Inl ())"

definition marshalObject :: "schema option \<Rightarrow> bytes" where
  "marshalObject v = (case v of None \<Rightarrow> ''{}'' | Some ms \<Rightarrow> marshal_value (AObj ms))"

definition finalJSONRaw :: "string \<Rightarrow> bytes" where
  "finalJSONRaw partial =
     (if trim_space partial = [] then ''{}''
      else case ParseJsonWithRepair unmarshal_object partial of
        Inr (Some ms) \<Rightarrow> marshalObject (Some ms) | _ \<Rightarrow> ''{}'')"

text \<open>\<open>ParseStreamingJSON\<close> gives the empty map where \<open>finalJSONRaw\<close> falls back to \<open>{}\<close>.\<close>

definition streamingJSONRaw :: "string \<Rightarrow> bytes" where
  "streamingJSONRaw partial =
     marshalObject (Some
       (if trim_space partial = [] then []
        else case ParseJsonWithRepair unmarshal_object partial of Inr (Some ms) \<Rightarrow> ms | _ \<Rightarrow> []))"

definition mapStopReason :: "string \<Rightarrow> stop_details option \<Rightarrow> (stop_reason \<times> string) option" where
  "mapStopReason reason details =
     (if reason = ''end_turn'' then Some (StopStop, [])
      else if reason = ''max_tokens'' then Some (StopLength, [])
      else if reason = ''tool_use'' then Some (StopToolUse, [])
      else if reason = ''refusal'' then
        Some (StopError, case details of
          Some d \<Rightarrow> if sd_explanation d \<noteq> [] then sd_explanation d else ''The model refused to complete the request''
        | None \<Rightarrow> ''The model refused to complete the request'')
      else if reason = ''pause_turn'' \<or> reason = ''stop_sequence'' then Some (StopStop, [])
      else if reason = ''sensitive'' then Some (StopError, [])
      else None)"

definition usage_total :: "usage \<Rightarrow> usage" where
  "usage_total u = u\<lparr>u_total_tokens := wrap64 (u_input u + u_output u + u_cache_read u + u_cache_write u)\<rparr>"

definition applyUsageStart :: "assistant_message \<Rightarrow> anthropic_usage \<Rightarrow> assistant_message" where
  "applyUsageStart out u =
     out\<lparr>am_usage := usage_total ((am_usage out)\<lparr>u_input := intValue (au_input u), u_output := intValue (au_output u),
        u_cache_read := intValue (au_cache_read u), u_cache_write := intValue (au_cache_creation u),
        u_cache_write_1h := Some (case au_cache_creation_1h u of None \<Rightarrow> 0 | Some v \<Rightarrow> intValue v)\<rparr>)\<rparr>"

definition applyUsageDelta :: "assistant_message \<Rightarrow> anthropic_usage \<Rightarrow> assistant_message" where
  "applyUsageDelta out u =
     (let keep = (\<lambda>v old. case v of None \<Rightarrow> old | Some n \<Rightarrow> n); o_u = am_usage out in
      out\<lparr>am_usage := usage_total (o_u\<lparr>u_input := keep (au_input u) (u_input o_u), u_output := keep (au_output u) (u_output o_u),
        u_cache_read := keep (au_cache_read u) (u_cache_read o_u), u_cache_write := keep (au_cache_creation u) (u_cache_write o_u),
        u_reasoning := (case au_thinking u of Some (Some n) \<Rightarrow> Some n | _ \<Rightarrow> u_reasoning o_u)\<rparr>)\<rparr>)"

definition foldContentBlockStart :: "(string \<Rightarrow> string) \<Rightarrow> raw_event \<Rightarrow> fold_state \<Rightarrow> fold_state \<times> stream_event list" where
  "foldContentBlockStart lower e st =
     (let i = length (am_content (fs_output st)); ab = re_block e;
          start = (\<lambda>t b. let st' = add_block st (re_index e) b in (st', [ev_at t i st']))
      in if ab_type ab = ''text'' then start EvTextStart (empty_block BlockText)
         else if ab_type ab = ''thinking'' then start EvThinkingStart (empty_block BlockThinking)
         else if ab_type ab = ''redacted_thinking'' then
           start EvThinkingStart ((empty_block BlockThinking)\<lparr>cb_thinking := ''[Reasoning redacted]'',
             cb_thinking_signature := ab_data ab, cb_redacted := True\<rparr>)
         else if ab_type ab = ''tool_use'' then
           (let b = (empty_block BlockToolCall)\<lparr>cb_id := ab_id ab,
                  cb_name := (if fs_is_oauth st then fromClaudeCodeName lower (ab_name ab) (fs_tools st) else ab_name ab),
                  cb_arguments := rawObjectOrEmpty (ab_input ab)\<rparr>;
                st' = add_block st (re_index e) b
            in (st', [(ev_at EvToolCallStart i st')\<lparr>ev_tool_call := Some b\<rparr>]))
         else (st, []))"

definition foldContentBlockDelta :: "raw_event \<Rightarrow> fold_state \<Rightarrow> fold_state \<times> stream_event list" where
  "foldContentBlockDelta e st =
     (case find_block st (re_index e) of
        None \<Rightarrow> (st, [])
      | Some i \<Rightarrow>
          (let b = block_of st i; d = re_delta e; ci = fb_content_index (fs_blocks st ! i) in
           if ad_type d = ''text_delta'' \<and> cb_type b = BlockText then
             (let st' = set_block st i (b\<lparr>cb_text := cb_text b @ ad_text d\<rparr>)
              in (st', [(ev_at EvTextDelta ci st')\<lparr>ev_delta := ad_text d\<rparr>]))
           else if ad_type d = ''thinking_delta'' \<and> cb_type b = BlockThinking then
             (let st' = set_block st i (b\<lparr>cb_thinking := cb_thinking b @ ad_thinking d\<rparr>)
              in (st', [(ev_at EvThinkingDelta ci st')\<lparr>ev_delta := ad_thinking d\<rparr>]))
           else if ad_type d = ''input_json_delta'' \<and> cb_type b = BlockToolCall then
             (let partial = fb_partial_json (fs_blocks st ! i) @ ad_partial_json d;
                  st1 = st\<lparr>fs_blocks := (fs_blocks st)[i := (fs_blocks st ! i)\<lparr>fb_partial_json := partial\<rparr>]\<rparr>;
                  st' = set_block st1 i (b\<lparr>cb_arguments := streamingJSONRaw partial\<rparr>)
              in (st', [(ev_at EvToolCallDelta ci st')\<lparr>ev_delta := ad_partial_json d\<rparr>]))
           else if ad_type d = ''signature_delta'' \<and> cb_type b = BlockThinking then
             (set_block st i (b\<lparr>cb_thinking_signature := cb_thinking_signature b @ ad_signature d\<rparr>), [])
           else (st, [])))"

definition foldContentBlockStop :: "raw_event \<Rightarrow> fold_state \<Rightarrow> fold_state \<times> stream_event list" where
  "foldContentBlockStop e st =
     (case find_block st (re_index e) of
        None \<Rightarrow> (st, [])
      | Some i \<Rightarrow>
          (let b = block_of st i; ci = fb_content_index (fs_blocks st ! i) in
           case cb_type b of
             BlockText \<Rightarrow> (st, [(ev_at EvTextEnd ci st)\<lparr>ev_content := cb_text b\<rparr>])
           | BlockThinking \<Rightarrow> (st, [(ev_at EvThinkingEnd ci st)\<lparr>ev_content := cb_thinking b\<rparr>])
           | BlockToolCall \<Rightarrow>
               (let b' = b\<lparr>cb_arguments := finalJSONRaw (fb_partial_json (fs_blocks st ! i))\<rparr>; st' = set_block st i b'
                in (st', [(ev_at EvToolCallEnd ci st')\<lparr>ev_tool_call := Some b'\<rparr>]))
           | _ \<Rightarrow> (st, [])))"

text \<open>The error of an unhandled stop reason carries its text.\<close>

definition foldAnthropicEvent ::
  "(string \<Rightarrow> string) \<Rightarrow> raw_event \<Rightarrow> fold_state \<Rightarrow> fold_state \<times> (string + stream_event list)" where
  "foldAnthropicEvent lower e st =
     (let out = fs_output st in
      if re_type e = ''message_start'' then
        (st\<lparr>fs_output := applyUsageStart (out\<lparr>am_response_id := an_id (re_message e)\<rparr>) (an_usage (re_message e))\<rparr>, Inr [])
      else if re_type e = ''content_block_start'' then apsnd Inr (foldContentBlockStart lower e st)
      else if re_type e = ''content_block_delta'' then apsnd Inr (foldContentBlockDelta e st)
      else if re_type e = ''content_block_stop'' then apsnd Inr (foldContentBlockStop e st)
      else if re_type e = ''message_delta'' then
        (if ad_stop_reason (re_delta e) \<noteq> [] then
           (case mapStopReason (ad_stop_reason (re_delta e)) (ad_stop_details (re_delta e)) of
              None \<Rightarrow> (st, Inl (''Unhandled stop reason: '' @ ad_stop_reason (re_delta e)))
            | Some (r, msg) \<Rightarrow>
                (let out' = out\<lparr>am_stop_reason := r,
                       am_error_message := (if msg \<noteq> [] then msg else am_error_message out)\<rparr>
                 in (st\<lparr>fs_output := applyUsageDelta out' (re_usage e)\<rparr>, Inr [])))
         else (st\<lparr>fs_output := applyUsageDelta out (re_usage e)\<rparr>, Inr []))
      else (st, Inr []))"

section \<open>The stream of frames\<close>

definition anthropicMessageEvents :: "string list" where
  "anthropicMessageEvents = [''message_start'', ''message_delta'', ''message_stop'', ''content_block_start'',
     ''content_block_delta'', ''content_block_stop'']"

text \<open>
  The callback of \<open>iterateAnthropicEvents\<close> over the flags \<open>sawMessageStart\<close>, \<open>sawMessageEnd\<close>, the
  number of calls of \<open>onActivity\<close> and the caller's state.  \<open>decode_error\<close> is the text of the error that
  \<open>encoding/json\<close> reports for a frame.
\<close>

record 'w anthropic_iter =
  ai_started :: bool
  ai_ended :: bool
  ai_activity :: nat
  ai_state :: 'w

definition anthropic_frame ::
  "(string \<Rightarrow> string) \<Rightarrow> ('w \<Rightarrow> raw_event \<Rightarrow> 'w \<times> string option) \<Rightarrow> 'w anthropic_iter \<Rightarrow> sse_event \<Rightarrow> 'w anthropic_iter \<times> string option" where
  "anthropic_frame decode_error fn it ev =
     (let it1 = it\<lparr>ai_activity := Suc (ai_activity it)\<rparr>; kind = sse_event_name ev in
      if kind = ''error'' then (it1, Some (sse_data ev))
      else if kind \<notin> set anthropicMessageEvents then (it1, None)
      else
        (case ParseJsonWithRepair unmarshal_raw (sse_data ev) of
           Inl _ \<Rightarrow> (it1, Some (''Could not parse Anthropic SSE event '' @ kind @ '': '' @ decode_error (sse_data ev) @
             ''; data='' @ sse_data ev @ ''; raw='' @ join ''\<newline>'' (sse_raw ev)))
         | Inr raw \<Rightarrow>
             (let it2 = (if re_type raw = ''message_start'' then it1\<lparr>ai_started := True\<rparr>
                         else if re_type raw = ''message_stop'' then it1\<lparr>ai_ended := True\<rparr> else it1);
                  (w, err) = fn (ai_state it2) raw
              in (it2\<lparr>ai_state := w\<rparr>, err))))"

text \<open>
  \<open>iterateAnthropicEvents\<close>: the reads of the body (\<^const>\<open>None\<close>: a nil body).  The outer
  \<^const>\<open>None\<close> of the result is a list of reads that ends before the body does.
\<close>

definition iterateAnthropicEvents ::
  "(string \<Rightarrow> string) \<Rightarrow> ('w \<Rightarrow> raw_event \<Rightarrow> 'w \<times> string option) \<Rightarrow> string read_step list option \<Rightarrow> 'w \<Rightarrow> ('w anthropic_iter \<times> string option) option" where
  "iterateAnthropicEvents decode_error fn body w =
     (let it0 = \<lparr>ai_started = False, ai_ended = False, ai_activity = 0, ai_state = w\<rparr> in
      case body of
        None \<Rightarrow> Some (it0, Some ''Attempted to iterate over an Anthropic response with no body'')
      | Some reads \<Rightarrow>
          map_option (\<lambda>(it, err).
            (it, case err of
               Some e \<Rightarrow> Some e
             | None \<Rightarrow> if ai_started it \<and> \<not> ai_ended it then Some ''Anthropic stream ended before message_stop'' else None))
            (IterateSSE (anthropic_frame decode_error fn) reads it0))"

end
