(* ===== verification/Stream_Description.thy ===== *)
theory Stream_Description
  imports Event_Stream Sse
begin

text \<open>
  What the events a provider pushes say of the message they carry, shared by the providers: the
  deltas of an index concatenate to the text of its block.  A provider folds the chunks of its
  response; the contract of such a fold is the locale \<open>stream_fold\<close>, interpreted by each provider.
\<close>

section \<open>The events describe the message\<close>

definition deltas :: "ev_type \<Rightarrow> nat \<Rightarrow> stream_event list \<Rightarrow> string" where
  "deltas t i evs = concat (map ev_delta (filter (\<lambda>e. ev_type e = t \<and> ev_index e = i) evs))"

definition redacted_text :: "content_block \<Rightarrow> string" where
  "redacted_text b = (if cb_redacted b then ''[Reasoning redacted]'' else [])"

text \<open>
  The text of a block is the text of its deltas; a tool call has the arguments that \<open>final\<close> gives
  for the text of the deltas, once a delta has been pushed.
\<close>

definition arguments_pushed :: "nat \<Rightarrow> stream_event list \<Rightarrow> bool" where
  "arguments_pushed i evs \<longleftrightarrow>
     list_ex (\<lambda>e. ev_index e = i \<and> ev_type e = EvToolCallDelta) evs"

definition described :: "(string \<Rightarrow> bytes) \<Rightarrow> stream_event list \<Rightarrow> nat \<Rightarrow> content_block \<Rightarrow> bool" where
  "described final evs i b \<longleftrightarrow>
     (case cb_type b of
        BlockText \<Rightarrow> cb_text b = deltas EvTextDelta i evs
      | BlockThinking \<Rightarrow> cb_thinking b = redacted_text b @ deltas EvThinkingDelta i evs
      | BlockToolCall \<Rightarrow>
          if arguments_pushed i evs then cb_arguments b = final (deltas EvToolCallDelta i evs) else True
      | _ \<Rightarrow> False)"

definition describes :: "(string \<Rightarrow> bytes) \<Rightarrow> content_block list \<Rightarrow> stream_event list \<Rightarrow> bool" where
  "describes final bs evs \<longleftrightarrow>
     (\<forall>e \<in> set evs. ev_type e = EvStart \<or> ev_index e < length bs) \<and>
     (\<forall>e \<in> set evs. \<not> is_terminal e) \<and>
     (\<forall>i < length bs. described final evs i (bs ! i))"

lemma deltas_append: "deltas t i (evs @ evs') = deltas t i evs @ deltas t i evs'"
  by (simp add: deltas_def)

lemma deltas_Nil [simp]: "deltas t i [] = []"
  by (simp add: deltas_def)

lemma deltas_Cons:
  "deltas t i (e # evs) = (if ev_type e = t \<and> ev_index e = i then ev_delta e else []) @ deltas t i evs"
  by (simp add: deltas_def)

lemma deltas_elsewhere: "\<forall>e \<in> set evs. ev_type e = EvStart \<or> ev_index e \<noteq> i \<Longrightarrow> t \<noteq> EvStart \<Longrightarrow> deltas t i evs = []"
  by (induction evs) (auto simp: deltas_Cons)

lemma deltas_quiet: "\<forall>e \<in> set evs. ev_type e \<noteq> t \<Longrightarrow> deltas t i evs = []"
  by (induction evs) (auto simp: deltas_Cons)

lemma arguments_pushed_append:
  "arguments_pushed i (evs @ evs') \<longleftrightarrow> arguments_pushed i evs \<or> arguments_pushed i evs'"
  by (simp add: arguments_pushed_def)

lemma arguments_pushed_Cons:
  "arguments_pushed i (e # evs) \<longleftrightarrow>
     ev_index e = i \<and> ev_type e = EvToolCallDelta \<or> arguments_pushed i evs"
  by (simp add: arguments_pushed_def)

lemma arguments_pushed_Nil [simp]: "\<not> arguments_pushed i []"
  by (simp add: arguments_pushed_def)

lemma arguments_elsewhere: "\<forall>e \<in> set evs. ev_type e = EvStart \<or> ev_index e \<noteq> i \<Longrightarrow> \<not> arguments_pushed i evs"
  by (auto simp: arguments_pushed_def list_ex_iff)

lemma described_elsewhere:
  assumes "\<forall>e \<in> set evs'. ev_type e = EvStart \<or> ev_index e \<noteq> i"
  shows "described final (evs @ evs') i b = described final evs i b"
  using assms by (simp add: described_def deltas_append arguments_pushed_append deltas_elsewhere arguments_elsewhere
      cong: block_type.case_cong)

lemma described_before:
  assumes "\<forall>e \<in> set evs. ev_type e = EvStart \<or> ev_index e \<noteq> i"
  shows "described final (evs @ evs') i b = described final evs' i b"
  using assms by (simp add: described_def deltas_append arguments_pushed_append deltas_elsewhere arguments_elsewhere
      cong: block_type.case_cong)

lemma described_kinds:
  "described final evs i b \<Longrightarrow> cb_type b = BlockText \<or> cb_type b = BlockThinking \<or> cb_type b = BlockToolCall"
  by (auto simp: described_def split: block_type.splits)

text \<open>Changing one block keeps the description of the others.\<close>

lemma describes_at:
  assumes "describes final bs evs" "i < length bs"
    and "\<forall>e \<in> set evs'. ev_index e = i \<and> \<not> is_terminal e"
    and "described final (evs @ evs') i b"
  shows "describes final (bs[i := b]) (evs @ evs')"
  using assms unfolding describes_def
  by (auto simp: nth_list_update described_elsewhere)

text \<open>Events that end a block at an index.\<close>

lemma describes_keep:
  assumes "describes final bs evs" "i < length bs"
    and "\<forall>e \<in> set evs'. ev_index e = i \<and> \<not> is_terminal e"
    and "described final (evs @ evs') i (bs ! i)"
  shows "describes final bs (evs @ evs')"
  using describes_at [OF assms] by simp

lemma describes_add:
  assumes "describes final bs evs" "described final evs' (length bs) b"
    and "\<forall>e \<in> set evs'. ev_index e = length bs \<and> \<not> is_terminal e"
  shows "describes final (bs @ [b]) (evs @ evs')"
proof -
  have "described final (evs @ evs') (length bs) b"
    using assms(1,2) by (subst described_before) (auto simp: describes_def)
  then show ?thesis
    using assms(1,3) by (auto simp: describes_def nth_append less_Suc_eq described_elsewhere)
qed

lemma describes_index: "describes final bs evs \<Longrightarrow> \<forall>e \<in> set evs. ev_type e \<noteq> EvStart \<longrightarrow> ev_index e < length bs"
  by (auto simp: describes_def)

lemma describes_start: "ev_type s = EvStart \<Longrightarrow> describes final [] [s]"
  by (simp add: describes_def is_terminal_def)

section \<open>Folding the chunks of a response\<close>

definition pushed_events :: "string + stream_event list \<Rightarrow> stream_event list" where
  "pushed_events r = (case r of Inl _ \<Rightarrow> [] | Inr evs \<Rightarrow> evs)"

text \<open>The callback of a provider: fold the chunk and push the events it gives.\<close>

definition push_folded ::
  "('c \<Rightarrow> 's \<Rightarrow> 's \<times> (string + stream_event list)) \<Rightarrow> 's \<times> stream_event list \<Rightarrow> 'c
     \<Rightarrow> ('s \<times> stream_event list) \<times> string option" where
  "push_folded fold_chunk w c =
     (case fold_chunk c (fst w) of
        (st, Inl err) \<Rightarrow> ((st, snd w), Some err)
      | (st, Inr evs) \<Rightarrow> ((st, snd w @ evs), None))"

definition started :: "('s \<Rightarrow> stream_event list \<Rightarrow> bool) \<Rightarrow> stream_event \<Rightarrow> 's \<times> stream_event list \<Rightarrow> bool" where
  "started good s w \<longleftrightarrow> (\<exists>pre. snd w = s # pre \<and> good (fst w) (s # pre) \<and> (\<forall>e \<in> set pre. ev_type e \<noteq> EvStart))"

text \<open>The message a terminal event carries.\<close>

definition final_message :: "stream_event \<Rightarrow> assistant_message option" where
  "final_message e = (if ev_type e = EvDone then ev_message e else ev_err e)"

text \<open>
  What consumers of a stream are promised: after the start event only events that are not terminal
  and point into the final content, then one terminal event, whose message the events describe.
\<close>

definition well_streamed :: "(string \<Rightarrow> bytes) \<Rightarrow> stream_event \<Rightarrow> stream_event list \<Rightarrow> bool" where
  "well_streamed final s evs \<longleftrightarrow>
     (case evs of
        [] \<Rightarrow> False
      | e # rest \<Rightarrow> e = s \<and> rest \<noteq> [] \<and> is_terminal (last rest) \<and>
          (case final_message (last rest) of
             None \<Rightarrow> False
           | Some out \<Rightarrow>
               list_all (\<lambda>x. \<not> is_terminal x \<and> ev_type x \<noteq> EvStart \<and> ev_index x < length (am_content out)) (butlast rest) \<and>
               list_all (\<lambda>i. described final (butlast rest) i (am_content out ! i)) [0 ..< length (am_content out)]))"

locale stream_fold =
  fixes fold_chunk :: "'c \<Rightarrow> 's \<Rightarrow> 's \<times> (string + stream_event list)"
    and content :: "'s \<Rightarrow> content_block list"
    and final :: "string \<Rightarrow> bytes"
    and good :: "'s \<Rightarrow> stream_event list \<Rightarrow> bool"
  assumes fold_good: "good st evs \<Longrightarrow> fold_chunk c st = (st', r) \<Longrightarrow> good st' (evs @ pushed_events r)"
    and fold_new: "fold_chunk c st = (st', r) \<Longrightarrow> \<forall>e \<in> set (pushed_events r). ev_type e \<noteq> EvStart"
    and good_describes: "good st evs \<Longrightarrow> describes final (content st) evs"
begin

lemma push_started: "started good s w \<Longrightarrow> started good s (fst (push_folded fold_chunk w c))"
proof -
  assume "started good s w"
  then obtain pre where pre: "snd w = s # pre" "good (fst w) (s # pre)" "\<forall>e \<in> set pre. ev_type e \<noteq> EvStart"
    by (auto simp: started_def)
  obtain st' r where f: "fold_chunk c (fst w) = (st', r)" by (cases "fold_chunk c (fst w)")
  from fold_good [OF pre(2) f] fold_new [OF f] pre show ?thesis
    by (cases r) (auto simp: started_def push_folded_def f pushed_events_def)
qed

lemma started_well_streamed:
  assumes "started good s w" "ev_type s = EvStart"
    and "is_terminal e" "final_message e = Some out" "am_content out = content (fst w)"
  shows "well_streamed final s (snd w @ [e])"
proof -
  from assms(1) obtain pre where pre: "snd w = s # pre" "good (fst w) (s # pre)" "\<forall>e \<in> set pre. ev_type e \<noteq> EvStart"
    by (auto simp: started_def)
  note d = good_describes [OF pre(2)]
  have "described final pre i b = described final (s # pre) i b" for i b
    using described_before [of "[s]" i final pre b] assms(2) by simp
  with d describes_index [OF d] pre assms show ?thesis
    by (auto simp: well_streamed_def describes_def list_all_iff)
qed

end

text \<open>The consequences a consumer uses.\<close>

lemma well_streamed_ends:
  assumes "well_streamed final s evs" "ev_type s = EvStart"
  shows "\<exists>pre e. evs = pre @ [e] \<and> is_terminal e \<and> list_all (\<lambda>x. \<not> is_terminal x) pre"
proof -
  from assms(1) obtain rest where r: "evs = s # rest" "rest \<noteq> []" "is_terminal (last rest)"
      "list_all (\<lambda>x. \<not> is_terminal x) (butlast rest)"
    by (auto simp: well_streamed_def list_all_iff split: list.splits option.splits)
  have "evs = (s # butlast rest) @ [last rest]" "\<not> is_terminal s"
    using r assms(2) by (simp_all add: is_terminal_def)
  with r show ?thesis by (intro exI [of _ "s # butlast rest"] exI [of _ "last rest"]) simp
qed

end
