(* ===== verification/Anthropic_Stream.thy ===== *)
theory Anthropic_Stream
  imports Anthropic_Events Stream_Description
begin

text \<open>
  \<open>internal/provider/anthropic/stream.go\<close> from the response on: the body is folded into the
  output message, every stream event is pushed as it is made, and one terminal event ends the
  stream.  What \<open>parent.Err()\<close> gives when it is asked the first and the second time after the body,
  and whether the idle watchdog fired, are arguments.  A pushed event carries the message as it is
  then; in the code it points to the one output message.
\<close>

definition newOutputMessage :: "model \<Rightarrow> time_ms \<Rightarrow> assistant_message" where
  "newOutputMessage m now =
     (empty_assistant (mo_api m) (mo_provider m) (mo_id m))\<lparr>am_stop_reason := StopStop, am_timestamp := now\<rparr>"

text \<open>\<open>pushError\<close> for an error without structured details.\<close>

definition pushError :: "assistant_message \<Rightarrow> string \<Rightarrow> bool \<Rightarrow> stream_event" where
  "pushError output err aborted =
     (let reason = (if aborted then StopAborted else StopError);
          out = output\<lparr>am_stop_reason := reason, am_error_message := err\<rparr>
      in (event EvError)\<lparr>ev_reason := reason, ev_err := Some out\<rparr>)"

definition streamError :: "string \<Rightarrow> string option \<Rightarrow> string \<Rightarrow> bool \<Rightarrow> string" where
  "streamError idle_timeout parent err idle =
     (case parent of
        Some e \<Rightarrow> e
      | None \<Rightarrow>
          if idle then ''stream idle for '' @ idle_timeout @ '' (no events); aborted to avoid a wedge: '' @ err else err)"

definition messagesURL :: "string \<Rightarrow> string" where
  "messagesURL base =
     (let url = (if trim_space base = [] then ''https://api.anthropic.com'' else base)
      in rev (dropWhile (\<lambda>c. c = CHR ''/'') (rev url)) @ ''/v1/messages'')"

text \<open>The callback: fold the event and push what it gives.\<close>

definition fold_and_push ::
  "(string \<Rightarrow> string) \<Rightarrow> fold_state \<times> stream_event list \<Rightarrow> raw_event \<Rightarrow> (fold_state \<times> stream_event list) \<times> string option" where
  "fold_and_push lower = push_folded (foldAnthropicEvent lower)"

definition final_event :: "string \<Rightarrow> string option \<Rightarrow> string option \<Rightarrow> bool \<Rightarrow> assistant_message \<Rightarrow> string option \<Rightarrow> stream_event" where
  "final_event idle_timeout parent1 parent2 idle output err =
     (case err of
        Some e \<Rightarrow> pushError output (streamError idle_timeout parent1 e idle) (parent2 \<noteq> None)
      | None \<Rightarrow>
          (case parent1 of
             Some _ \<Rightarrow> pushError output (case parent2 of Some e \<Rightarrow> e | None \<Rightarrow> []) True
           | None \<Rightarrow>
               if am_stop_reason output = StopAborted \<or> am_stop_reason output = StopError then
                 pushError output
                   (if am_error_message output = [] then ''An unknown error occurred'' else am_error_message output)
                   (am_stop_reason output = StopAborted)
               else (event EvDone)\<lparr>ev_reason := am_stop_reason output, ev_message := Some output\<rparr>))"

text \<open>Everything pushed from the response on; \<^const>\<open>None\<close> as for \<^const>\<open>iterateAnthropicEvents\<close>.\<close>

definition run_response ::
  "(string \<Rightarrow> string) \<Rightarrow> (string \<Rightarrow> string) \<Rightarrow> string \<Rightarrow> string option \<Rightarrow> string option \<Rightarrow> bool \<Rightarrow> bool \<Rightarrow> tool list \<Rightarrow> assistant_message \<Rightarrow>
   string read_step list option \<Rightarrow> stream_event list option" where
  "run_response lower decode_error idle_timeout parent1 parent2 idle oauth tools output body =
     (case iterateAnthropicEvents decode_error (fold_and_push lower) body
          (\<lparr>fs_output = output, fs_is_oauth = oauth, fs_tools = tools, fs_blocks = []\<rparr>,
           [(event EvStart)\<lparr>ev_partial := Some output\<rparr>]) of
        None \<Rightarrow> None
      | Some (it, err) \<Rightarrow>
          Some (snd (ai_state it) @
            [final_event idle_timeout parent1 parent2 idle (fs_output (fst (ai_state it))) err]))"

section \<open>The events describe the message\<close>

text \<open>The repeated parse of partial arguments gives what the parse of the complete ones gives.\<close>

lemma finalJSONRaw_streaming: "finalJSONRaw partial = streamingJSONRaw partial"
  by (auto simp: finalJSONRaw_def streamingJSONRaw_def marshalObject_def marshal_value.simps split: sum.splits option.splits)

text \<open>The fold state after the events pushed so far.\<close>

definition folded :: "fold_state \<Rightarrow> stream_event list \<Rightarrow> bool" where
  "folded st evs \<longleftrightarrow>
     map fb_content_index (fs_blocks st) = [0 ..< length (am_content (fs_output st))] \<and>
     describes finalJSONRaw (am_content (fs_output st)) evs \<and>
     (\<forall>i < length (am_content (fs_output st)). fb_partial_json (fs_blocks st ! i) = deltas EvToolCallDelta i evs)"

lemma ev_at_simps [simp]:
  "ev_type (ev_at t i st) = t" "ev_index (ev_at t i st) = i" "ev_delta (ev_at t i st) = []"
  by (simp_all add: ev_at_def event_def)

lemma folded_blocks: "folded st evs \<Longrightarrow> i < length (fs_blocks st) \<Longrightarrow> fb_content_index (fs_blocks st ! i) = i"
  unfolding folded_def by (metis add_0 length_map length_upt minus_nat.diff_0 nth_map nth_upt)

lemma folded_length: "folded st evs \<Longrightarrow> length (fs_blocks st) = length (am_content (fs_output st))"
  unfolding folded_def by (metis length_map length_upt minus_nat.diff_0)

lemma folded_find:
  assumes "folded st evs" "find_block st ai = Some i"
  shows "i < length (am_content (fs_output st))" "fb_content_index (fs_blocks st ! i) = i"
  using first_index_Some [OF assms(2) [unfolded find_block_def]] folded_blocks [OF assms(1)] folded_length [OF assms(1)]
  by auto

lemma folded_at:
  assumes "folded st evs" "i < length (am_content (fs_output st))"
    and st': "am_content (fs_output st') = (am_content (fs_output st))[i := b]"
      "fs_blocks st' = (fs_blocks st)[i := (fs_blocks st ! i)\<lparr>fb_partial_json := p\<rparr>]"
    and evs': "\<forall>e \<in> set evs'. ev_index e = i \<and> \<not> is_terminal e"
    and now: "described finalJSONRaw (evs @ evs') i b" "p = deltas EvToolCallDelta i (evs @ evs')"
  shows "folded st' (evs @ evs')"
proof -
  note len = folded_length [OF assms(1)]
  have idx: "map fb_content_index (fs_blocks st') = map fb_content_index (fs_blocks st)"
    using assms(2) len by (simp add: st' map_update list_update_same_conv)
  have other: "deltas EvToolCallDelta j (evs @ evs') = deltas EvToolCallDelta j evs" if "j \<noteq> i" for j
    using evs' that by (auto simp: deltas_append deltas_elsewhere)
  have "describes finalJSONRaw (am_content (fs_output st')) (evs @ evs')"
    unfolding st' using assms(1,2) evs' now(1) by (intro describes_at) (auto simp: folded_def)
  then show ?thesis
    using assms(1,2) other len idx now(2) unfolding folded_def st' by (auto simp: nth_list_update)
qed

lemma folded_block:
  assumes "folded st evs" "i < length (am_content (fs_output st))"
    and st': "am_content (fs_output st') = (am_content (fs_output st))[i := b]" "fs_blocks st' = fs_blocks st"
    and evs': "\<forall>e \<in> set evs'. ev_index e = i \<and> \<not> is_terminal e \<and> ev_type e \<noteq> EvToolCallDelta"
    and now: "described finalJSONRaw (evs @ evs') i b"
  shows "folded st' (evs @ evs')"
proof (rule folded_at [OF assms(1,2) st'(1) _ _ now])
  have p: "fb_partial_json (fs_blocks st ! i) = deltas EvToolCallDelta i evs"
    using assms(1,2) by (simp add: folded_def)
  have quiet: "deltas EvToolCallDelta i evs' = []" using evs' by (simp add: deltas_quiet)
  show "fs_blocks st' = (fs_blocks st)[i := (fs_blocks st ! i)\<lparr>fb_partial_json := deltas EvToolCallDelta i evs\<rparr>]"
    by (simp add: st' p [symmetric])
  show "deltas EvToolCallDelta i evs = deltas EvToolCallDelta i (evs @ evs')" by (simp add: deltas_append quiet)
qed (use evs' in auto)

lemma folded_keep:
  assumes "folded st evs" "am_content (fs_output st') = am_content (fs_output st)" "fs_blocks st' = fs_blocks st"
  shows "folded st' evs"
  using assms by (simp add: folded_def)

lemma folded_add:
  assumes "folded st evs" "described finalJSONRaw [] (length (am_content (fs_output st))) b"
    and evs': "\<forall>e \<in> set evs'. ev_index e = length (am_content (fs_output st)) \<and>
      (ev_type e = EvTextStart \<or> ev_type e = EvThinkingStart \<or> ev_type e = EvToolCallStart)"
  shows "folded (add_block st ai b) (evs @ evs')"
proof -
  let ?n = "length (am_content (fs_output st))"
  note d = assms(1) [unfolded folded_def, THEN conjunct2, THEN conjunct1]
  have "deltas t ?n evs' = []" if "t = EvTextDelta \<or> t = EvThinkingDelta \<or> t = EvToolCallDelta" for t
    using evs' that by (intro deltas_quiet) auto
  moreover have "\<not> arguments_pushed ?n evs'" using evs' by (auto simp: arguments_pushed_def list_ex_iff)
  ultimately have "described finalJSONRaw evs' ?n b"
    using assms(2) by (simp add: described_def split: block_type.splits)
  then have "describes finalJSONRaw (am_content (fs_output st) @ [b]) (evs @ evs')"
    using evs' by (intro describes_add [OF d]) (auto simp: is_terminal_def)
  moreover have "deltas EvToolCallDelta i (evs @ evs') = deltas EvToolCallDelta i evs" for i
  proof -
    have "\<forall>e \<in> set evs'. ev_type e \<noteq> EvToolCallDelta" using evs' by auto
    then show ?thesis by (simp add: deltas_append deltas_quiet)
  qed
  moreover have "deltas EvToolCallDelta ?n evs = []"
    using d by (intro deltas_elsewhere) (auto simp: describes_def)
  ultimately show ?thesis
    using assms(1) folded_length [OF assms(1)]
    by (auto simp: folded_def add_block_def nth_append less_Suc_eq)
qed

lemma described_unpushed: "described final [] i (empty_block BlockText)" "described final [] i (empty_block BlockThinking)"
  "cb_type b = BlockToolCall \<Longrightarrow> described final [] i b"
  "described final [] i ((empty_block BlockThinking)\<lparr>cb_thinking := ''[Reasoning redacted]'', cb_thinking_signature := g, cb_redacted := True\<rparr>)"
  by (simp_all add: described_def redacted_text_def empty_block_def)

lemma folded_start:
  assumes "folded st evs" "foldContentBlockStart lower e st = (st', evs')"
  shows "folded st' (evs @ evs')"
  using assms by (auto simp: foldContentBlockStart_def Let_def described_unpushed
      intro!: folded_add [OF assms(1)] split: if_splits)

lemma folded_delta:
  assumes "folded st evs" "foldContentBlockDelta e st = (st', evs')"
  shows "folded st' (evs @ evs')"
proof (cases "find_block st (re_index e)")
  case None
  with assms show ?thesis by (simp add: foldContentBlockDelta_def)
next
  case (Some i)
  note i = folded_find [OF assms(1) Some]
  note len = folded_length [OF assms(1)]
  let ?b = "am_content (fs_output st) ! i"
  have b: "block_of st i = ?b" by (simp add: block_of_def i)
  have now: "described finalJSONRaw evs i ?b" "fb_partial_json (fs_blocks st ! i) = deltas EvToolCallDelta i evs"
    using assms(1) i by (auto simp: folded_def describes_def)
  note upd = folded_at [OF assms(1) i(1)] and blk = folded_block [OF assms(1) i(1)]
  let ?d = "ad_type (re_delta e)"
  consider (words) "?d = ''text_delta''" "cb_type ?b = BlockText"
    | (thk) "?d = ''thinking_delta''" "cb_type ?b = BlockThinking"
    | (json) "?d = ''input_json_delta''" "cb_type ?b = BlockToolCall"
    | (sig) "?d = ''signature_delta''" "cb_type ?b = BlockThinking"
    | (no) "st' = st" "evs' = []"
    using assms(2) Some i b by (auto simp: foldContentBlockDelta_def Let_def split: if_splits)
  then show ?thesis
  proof cases
    case words
    with assms(2) Some i b now show ?thesis
      by (auto simp: foldContentBlockDelta_def Let_def set_block_def described_def deltas_append deltas_Cons arguments_pushed_append arguments_pushed_Cons is_terminal_def
          intro!: blk)
  next
    case thk
    with assms(2) Some i b now show ?thesis
      by (auto simp: foldContentBlockDelta_def Let_def set_block_def described_def deltas_append deltas_Cons arguments_pushed_append arguments_pushed_Cons
          redacted_text_def is_terminal_def intro!: blk)
  next
    case json
    with assms(2) Some i b now len show ?thesis
      by (auto simp: foldContentBlockDelta_def Let_def set_block_def described_def deltas_append deltas_Cons arguments_pushed_append arguments_pushed_Cons
          finalJSONRaw_streaming is_terminal_def intro!: upd)
  next
    case sig
    with assms(2) Some i b now show ?thesis
      by (auto simp: foldContentBlockDelta_def Let_def set_block_def described_def
          redacted_text_def is_terminal_def intro!: blk [of _ _ "[]", simplified])
  next
    case no
    with assms(1) show ?thesis by simp
  qed
qed


lemma folded_stop:
  assumes "folded st evs" "foldContentBlockStop e st = (st', evs')"
  shows "folded st' (evs @ evs')"
proof (cases "find_block st (re_index e)")
  case None
  with assms show ?thesis by (simp add: foldContentBlockStop_def)
next
  case (Some i)
  note i = folded_find [OF assms(1) Some]
  let ?b = "am_content (fs_output st) ! i"
  have b: "block_of st i = ?b" by (simp add: block_of_def i)
  have now: "described finalJSONRaw evs i ?b" "fb_partial_json (fs_blocks st ! i) = deltas EvToolCallDelta i evs"
    using assms(1) i by (auto simp: folded_def describes_def)
  note blk = folded_block [OF assms(1) i(1)]
  have "cb_type ?b = BlockText \<or> cb_type ?b = BlockThinking \<or> cb_type ?b = BlockToolCall"
    using now(1) by (auto simp: described_def split: block_type.splits)
  then consider (words) "cb_type ?b = BlockText" | (thk) "cb_type ?b = BlockThinking" | (call) "cb_type ?b = BlockToolCall"
    by blast
  then show ?thesis
  proof cases
    case words
    with assms(2) Some i b now show ?thesis
      by (auto simp: foldContentBlockStop_def Let_def described_def deltas_append deltas_Cons arguments_pushed_append arguments_pushed_Cons is_terminal_def
          intro!: blk [of _ ?b])
  next
    case thk
    with assms(2) Some i b now show ?thesis
      by (auto simp: foldContentBlockStop_def Let_def described_def deltas_append deltas_Cons arguments_pushed_append arguments_pushed_Cons is_terminal_def
          intro!: blk [of _ ?b])
  next
    case call
    with assms(2) Some i b now show ?thesis
      by (auto simp: foldContentBlockStop_def Let_def set_block_def described_def deltas_append deltas_Cons arguments_pushed_append arguments_pushed_Cons
          is_terminal_def intro!: blk)
  qed
qed

lemma usage_keeps_content [simp]:
  "am_content (applyUsageStart out u) = am_content out" "am_content (applyUsageDelta out u) = am_content out"
  by (simp_all add: applyUsageStart_def applyUsageDelta_def Let_def)

text \<open>An event that is not about a block changes no block and pushes nothing.\<close>

lemma fold_other_event:
  assumes "foldAnthropicEvent lower e st = (st', r)"
    "re_type e \<noteq> ''content_block_start''" "re_type e \<noteq> ''content_block_delta''" "re_type e \<noteq> ''content_block_stop''"
  shows "am_content (fs_output st') = am_content (fs_output st)" "fs_blocks st' = fs_blocks st"
    "r = Inr [] \<or> (\<exists>err. r = Inl err)"
  using assms by (auto simp: foldAnthropicEvent_def Let_def split: if_splits option.splits)

lemma folded_fold:
  assumes "folded st evs" "foldAnthropicEvent lower e st = (st', r)"
  shows "folded st' (evs @ pushed_events r)"
proof -
  consider "re_type e = ''content_block_start''" | "re_type e = ''content_block_delta''" | "re_type e = ''content_block_stop''"
    | (other) "re_type e \<noteq> ''content_block_start''" "re_type e \<noteq> ''content_block_delta''" "re_type e \<noteq> ''content_block_stop''"
    by blast
  then show ?thesis
  proof cases
    case other
    note o = fold_other_event [OF assms(2) other]
    from o(3) folded_keep [OF assms(1) o(1,2)] show ?thesis by (auto simp: pushed_events_def)
  qed (use assms in \<open>auto simp: foldAnthropicEvent_def pushed_events_def apsnd_def map_prod_def
        split: prod.splits dest: folded_start folded_delta folded_stop\<close>)
qed

lemma anthropic_frame_inv:
  assumes "\<And>w raw. P w \<Longrightarrow> P (fst (fn w raw))" "P (ai_state it)"
  shows "P (ai_state (fst (anthropic_frame decode_error fn it ev)))"
  using assms by (auto simp: anthropic_frame_def Let_def split: sum.splits prod.splits) (metis fst_conv)+

text \<open>Events made by the fold are never start events.\<close>

lemma fold_not_start:
  "foldAnthropicEvent lower e st = (st', r) \<Longrightarrow> \<forall>x \<in> set (pushed_events r). ev_type x \<noteq> EvStart"
  by (auto simp: foldAnthropicEvent_def foldContentBlockStart_def foldContentBlockDelta_def foldContentBlockStop_def
      Let_def apsnd_def map_prod_def pushed_events_def split: if_splits option.splits prod.splits block_type.splits)

interpretation anthropic: stream_fold "foldAnthropicEvent lower" "\<lambda>st. am_content (fs_output st)" finalJSONRaw folded
  for lower
  by unfold_locales (blast intro: folded_fold, blast dest: fold_not_start, simp add: folded_def)

lemma final_event_terminal:
  "is_terminal (final_event idle_timeout p1 p2 idle output err)"
  "\<exists>out. final_message (final_event idle_timeout p1 p2 idle output err) = Some out \<and> am_content out = am_content output"
  by (auto simp: final_event_def pushError_def is_terminal_def final_message_def event_def Let_def split: option.splits)

lemma run_response_described:
  assumes "list_ex read_ends reads"
  shows "\<exists>evs. run_response lower decode_error idle_timeout parent1 parent2 idle oauth tools (newOutputMessage m now) (Some reads)
      = Some evs \<and> well_streamed finalJSONRaw ((event EvStart)\<lparr>ev_partial := Some (newOutputMessage m now)\<rparr>) evs"
proof -
  let ?s = "(event EvStart)\<lparr>ev_partial := Some (newOutputMessage m now)\<rparr>"
  let ?fn = "anthropic_frame decode_error (fold_and_push lower)"
  let ?w = "(\<lparr>fs_output = newOutputMessage m now, fs_is_oauth = oauth, fs_tools = tools, fs_blocks = []\<rparr>, [?s])"
  let ?it = "\<lparr>ai_started = False, ai_ended = False, ai_activity = 0, ai_state = ?w\<rparr>"
  have s: "ev_type ?s = EvStart" by (simp add: event_def)
  obtain it err where run: "IterateSSE ?fn reads ?it = Some (it, err)"
    using IterateSSE_ends [OF assms, of ?fn ?it] by blast
  have start: "started folded ?s (ai_state ?it)"
    using describes_start [OF s] by (simp add: started_def folded_def newOutputMessage_def empty_assistant_def)
  have w: "started folded ?s (ai_state it)"
    by (rule IterateSSE_inv [where P = "\<lambda>it. started folded ?s (ai_state it)", OF _ start run])
      (rule anthropic_frame_inv, unfold fold_and_push_def, rule anthropic.push_started)
  let ?out = "fs_output (fst (ai_state it))"
  obtain e where e: "run_response lower decode_error idle_timeout parent1 parent2 idle oauth tools (newOutputMessage m now)
      (Some reads) = Some (snd (ai_state it) @ [e])" and fin: "\<exists>err. e = final_event idle_timeout parent1 parent2 idle ?out err"
    using run by (auto simp: run_response_def iterateAnthropicEvents_def Let_def)
  from fin final_event_terminal obtain out where "is_terminal e" "final_message e = Some out" "am_content out = am_content ?out"
    by metis
  from anthropic.started_well_streamed [OF w s this] e show ?thesis by blast
qed

text \<open>C3: A response stream that ends pushes the start event, then non-terminal events that point
  into the final message's content, and exactly one terminal event, the last.  The terminal event
  carries a message whose text and thinking blocks are the concatenated deltas pushed for their
  index and whose tool calls have the arguments their deltas parse to.  This holds also when the
  stream is cut, malformed, cancelled or idle.
\<close>

theorem run_response_describes_message:
  assumes "list_ex read_ends reads"
  shows "\<exists>evs. run_response lower decode_error idle_timeout parent1 parent2 idle oauth tools (newOutputMessage m now) (Some reads)
      = Some evs \<and> well_streamed finalJSONRaw ((event EvStart)\<lparr>ev_partial := Some (newOutputMessage m now)\<rparr>) evs"
  by (rule run_response_described [OF assms])

definition example_model :: model where
  "example_model = \<lparr>mo_id = ''m'', mo_name = ''m'', mo_api = ''anthropic-messages'', mo_provider = ''anthropic'',
     mo_input = [], mo_context_window = 200000, mo_max_tokens = 8192\<rparr>"

definition example_body :: string where
  "example_body = ''event: message_start\<newline>data: {\"type\": \"message_start\", \"message\": {\"id\": \"r\"}}\<newline>\<newline>''
     @ ''event: message_stop\<newline>data: {\"type\": \"message_stop\"}\<newline>\<newline>''"

theorem run_response_describes_message_witness:
  "\<exists>evs. run_response id id ''90s'' None None False False [] (newOutputMessage example_model 0) (Some [last_chunk example_body])
      = Some evs \<and> well_streamed finalJSONRaw ((event EvStart)\<lparr>ev_partial := Some (newOutputMessage example_model 0)\<rparr>) evs"
  by (rule run_response_describes_message) (simp add: read_ends_def last_chunk_def)

text \<open>The input given at the start of a call does not survive its end when no delta came.\<close>

lemma stop_discards_input:
  assumes "find_block st (re_index e) = Some i" "cb_type (block_of st i) = BlockToolCall" "fb_partial_json (fs_blocks st ! i) = []"
  shows "fst (foldContentBlockStop e st) = set_block st i ((block_of st i)\<lparr>cb_arguments := ''{}''\<rparr>)"
  using assms by (simp add: foldContentBlockStop_def finalJSONRaw_def trim_space_def rune_segments.simps [of "[]"] Let_def)

end
