(* ===== verification/Anthropic_Request.thy ===== *)
theory Anthropic_Request
  imports Anthropic_Convert Anthropic_Stream Estimate
begin

text \<open>
  The Anthropic request: \<open>options.go\<close>, the headers and the body of \<open>convert.go\<close>, and \<open>Stream\<close>,
  \<open>StreamSimple\<close> and the whole of \<open>runStream\<close>.  The environment, the two callbacks and the HTTP
  round trip are arguments.  Timeouts and the idle watchdog show as what the round trip and the
  body give.
\<close>

section \<open>Compatibility and cache control\<close>

record anthropicCompat =
  co_eager_tools :: bool
  co_long_retention :: bool
  co_session_affinity :: bool
  co_cache_on_tools :: bool
  co_temperature :: bool
  co_empty_signature :: bool

definition getAnthropicCompat :: "full_model \<Rightarrow> anthropicCompat" where
  "getAnthropicCompat m =
     (let or_else = (\<lambda>d v. case v of None \<Rightarrow> d | Some b \<Rightarrow> b) in
      case fm_compat m of
        None \<Rightarrow> \<lparr>co_eager_tools = True, co_long_retention = True, co_session_affinity = False,
          co_cache_on_tools = True, co_temperature = True, co_empty_signature = False\<rparr>
      | Some c \<Rightarrow> \<lparr>co_eager_tools = or_else True (ac_eager_tools c), co_long_retention = or_else True (ac_long_retention c),
          co_session_affinity = or_else False (ac_session_affinity c), co_cache_on_tools = or_else True (ac_cache_on_tools c),
          co_temperature = or_else True (ac_temperature c), co_empty_signature = or_else False (ac_empty_signature c)\<rparr>)"

definition adaptive_thinking :: "full_model \<Rightarrow> bool" where
  "adaptive_thinking m \<longleftrightarrow> (case fm_compat m of None \<Rightarrow> False | Some c \<Rightarrow> ac_adaptive_thinking c = Some True)"

definition getProviderEnvValue :: "(string \<Rightarrow> string) \<Rightarrow> string \<Rightarrow> (string \<times> string) list \<Rightarrow> string" where
  "getProviderEnvValue getenv name env =
     (case map_of env name of Some v \<Rightarrow> if v \<noteq> [] then v else getenv name | None \<Rightarrow> getenv name)"

definition resolveCacheRetention :: "(string \<Rightarrow> string) \<Rightarrow> string \<Rightarrow> (string \<times> string) list \<Rightarrow> string" where
  "resolveCacheRetention getenv retention env =
     (if retention \<noteq> [] then retention
      else if getProviderEnvValue getenv ''HARNESS_CACHE_RETENTION'' env = ''long'' then ''long'' else ''short'')"

definition getCacheControl ::
  "(string \<Rightarrow> string) \<Rightarrow> full_model \<Rightarrow> string \<Rightarrow> (string \<times> string) list \<Rightarrow> string \<times> cacheControl option" where
  "getCacheControl getenv m retention env =
     (let r = resolveCacheRetention getenv retention env in
      (r, if r = ''none'' then None
          else Some \<lparr>cc_type = ''ephemeral'',
            cc_ttl = (if r = ''long'' \<and> co_long_retention (getAnthropicCompat m) then ''1h'' else [])\<rparr>))"

section \<open>Headers\<close>

text \<open>Later sources override earlier ones.\<close>

definition mergeHeaders :: "(string \<times> string) list list \<Rightarrow> (string \<times> string) list" where
  "mergeHeaders sources = fold (\<lambda>(k, v). assoc_set k v) (concat sources) []"

definition hasHeader :: "(string \<Rightarrow> string) \<Rightarrow> (string \<times> string) list \<Rightarrow> string \<Rightarrow> bool" where
  "hasHeader lower headers name \<longleftrightarrow> list_ex (\<lambda>(k, v). lower k = lower name \<and> trim_space v \<noteq> []) headers"

definition assertRequestAuth :: "(string \<Rightarrow> string) \<Rightarrow> string \<Rightarrow> string \<Rightarrow> (string \<times> string) list \<Rightarrow> string option" where
  "assertRequestAuth lower provider key headers =
     (if key \<noteq> [] then None
      else if hasHeader lower headers ''authorization'' \<or> hasHeader lower headers ''x-api-key'' \<or>
        hasHeader lower headers ''cf-aig-authorization'' then None
      else Some (''No API key for provider: '' @ provider))"

definition isOAuthToken :: "string \<Rightarrow> bool" where
  "isOAuthToken key \<longleftrightarrow> str_contains key ''sk-ant-oat''"

definition shouldUseFineGrainedToolStreamingBeta :: "full_model \<Rightarrow> tool list \<Rightarrow> bool" where
  "shouldUseFineGrainedToolStreamingBeta m tools \<longleftrightarrow> tools \<noteq> [] \<and> \<not> co_eager_tools (getAnthropicCompat m)"

definition base_headers :: "(string \<times> string) list" where
  "base_headers = [(''accept'', ''application/json''), (''content-type'', ''application/json''),
     (''anthropic-version'', ''2023-06-01''), (''anthropic-dangerous-direct-browser-access'', ''true'')]"

definition buildRequestHeaders ::
  "full_model \<Rightarrow> string \<Rightarrow> bool \<Rightarrow> bool \<Rightarrow> (string \<times> string) list \<Rightarrow> string \<Rightarrow> (string \<times> string) list \<times> bool" where
  "buildRequestHeaders m key interleaved fine_grained headers session =
     (let betas = (if fine_grained then [''fine-grained-tool-streaming-2025-05-14''] else []) @
            (if interleaved \<and> \<not> adaptive_thinking m then [''interleaved-thinking-2025-05-14''] else []);
          beta = (\<lambda>fs. if fs \<noteq> [] then [(''anthropic-beta'', join '','' fs)] else []);
          bearer = (if key \<noteq> [] then [(''authorization'', ''Bearer '' @ key)] else [])
      in if mo_provider m = ''github-copilot'' then
           (mergeHeaders [base_headers @ bearer @ beta betas, fm_headers m, headers], False)
         else if key \<noteq> [] \<and> isOAuthToken key then
           (mergeHeaders [base_headers @ bearer @ beta ([''claude-code-20250219'', ''oauth-2025-04-20''] @ betas) @
              [(''user-agent'', ''claude-cli/2.1.75''), (''x-app'', ''cli'')], fm_headers m, headers], True)
         else
           (mergeHeaders [base_headers @ (if key \<noteq> [] then [(''x-api-key'', key)] else []) @ beta betas,
              if session \<noteq> [] \<and> co_session_affinity (getAnthropicCompat m) then [(''x-session-affinity'', session)] else [],
              fm_headers m, headers], False))"

section \<open>Options\<close>

record ToolChoice =
  tc_type :: string
  tc_name :: string

record anthropic_options = stream_options +
  op_blobs :: "blob_reader option"
  op_thinking :: "bool option"
  op_budget :: int
  op_effort :: string
  op_display :: string
  op_interleaved :: "bool option"
  op_tool_choice :: "ToolChoice option"

definition clampMaxTokensToContext :: "full_model \<Rightarrow> llm_context \<Rightarrow> int \<Rightarrow> int" where
  "clampMaxTokensToContext m c maxTokens =
     (if mo_context_window m \<le> 0 then max 1 maxTokens
      else min maxTokens
        (max 1 (wrap64 (wrap64 (mo_context_window m - cu_tokens (EstimateContextTokens c)) - 4096))))"

definition buildBaseOptions :: "full_model \<Rightarrow> llm_context \<Rightarrow> simple_options option \<Rightarrow> string \<Rightarrow> stream_options" where
  "buildBaseOptions m c opts key =
     (let base = (case opts of
            Some s \<Rightarrow> stream_options.truncate s
          | None \<Rightarrow> \<lparr>so_temperature = None, so_max_tokens = 0, so_api_key = [], so_headers = [], so_session_id = [],
              so_cache_retention = [], so_metadata = [], so_env = []\<rparr>);
          requested = (case opts of
            Some s \<Rightarrow> if so_max_tokens s \<noteq> 0 then so_max_tokens s else mo_max_tokens m | None \<Rightarrow> mo_max_tokens m);
          base1 = base\<lparr>so_max_tokens := clampMaxTokensToContext m c requested\<rparr>
      in if key \<noteq> [] then base1\<lparr>so_api_key := key\<rparr> else base1)"

definition clampReasoning :: "string \<Rightarrow> string" where
  "clampReasoning level = (if level = ''xhigh'' then ''high'' else level)"

text \<open>\<open>customBudgets\<close> has one value for a level.\<close>

definition adjustMaxTokensForThinking :: "int \<Rightarrow> int \<Rightarrow> string \<Rightarrow> (string \<times> int) list \<Rightarrow> int \<times> int" where
  "adjustMaxTokensForThinking baseMax modelMax level custom =
     (let budgets = map_of [(''minimal'', 1024), (''low'', 2048), (''medium'', 8192), (''high'', 16384)] ++ map_of custom;
          budget = (case budgets (clampReasoning level) of Some b \<Rightarrow> b | None \<Rightarrow> 0);
          maxTokens = (if baseMax = 0 then modelMax else min (wrap64 (baseMax + budget)) modelMax)
      in (maxTokens, if maxTokens \<le> budget then max 0 (wrap64 (maxTokens - 1024)) else budget))"

definition mapThinkingLevelToEffort :: "full_model \<Rightarrow> string \<Rightarrow> string" where
  "mapThinkingLevelToEffort m level =
     (let default = (if level = ''minimal'' \<or> level = ''low'' then ''low'' else if level = ''medium'' then ''medium'' else ''high'') in
      if level \<noteq> [] then
        (case fm_thinking_levels m of
           None \<Rightarrow> default
         | Some ls \<Rightarrow> (case map_of ls level of Some (Some e) \<Rightarrow> e | _ \<Rightarrow> default))
      else default)"

text \<open>What \<open>StreamSimple\<close> gives to \<open>Stream\<close>.\<close>

definition simple_to_options :: "full_model \<Rightarrow> llm_context \<Rightarrow> simple_options option \<Rightarrow> anthropic_options" where
  "simple_to_options m c opts =
     (let base = buildBaseOptions m c opts (case opts of Some s \<Rightarrow> so_api_key s | None \<Rightarrow> []);
          blobs = (case opts of Some s \<Rightarrow> si_blobs s | None \<Rightarrow> None);
          with_thinking = (\<lambda>b enabled budget effort. stream_options.extend b
            \<lparr>op_blobs = blobs, op_thinking = Some enabled, op_budget = budget, op_effort = effort, op_display = [],
             op_interleaved = None, op_tool_choice = None\<rparr>)
      in case opts of
           None \<Rightarrow> with_thinking base False 0 []
         | Some s \<Rightarrow>
             if si_reasoning s = [] then with_thinking base False 0 []
             else if adaptive_thinking m then with_thinking base True 0 (mapThinkingLevelToEffort m (si_reasoning s))
             else
               (let (maxTokens, budget) =
                      adjustMaxTokensForThinking (so_max_tokens base) (mo_max_tokens m) (si_reasoning s) (si_budgets s);
                    maxTokens' = clampMaxTokensToContext m c maxTokens
                in with_thinking (base\<lparr>so_max_tokens := maxTokens'\<rparr>) True
                     (min budget (max 0 (wrap64 (maxTokens' - 1024)))) []))"


section \<open>Tools and parameters\<close>

definition schemaProperties :: "bytes \<Rightarrow> any" where
  "schemaProperties raw = (case map_of (rawJSONToObject raw) ''properties'' of Some v \<Rightarrow> v | None \<Rightarrow> AObj [])"

definition schemaRequired :: "bytes \<Rightarrow> any" where
  "schemaRequired raw = (case map_of (rawJSONToObject raw) ''required'' of Some v \<Rightarrow> v | None \<Rightarrow> AArr [])"

definition convert_tool :: "(string \<Rightarrow> string) \<Rightarrow> bool \<Rightarrow> bool \<Rightarrow> tool \<Rightarrow> wire_map" where
  "convert_tool lower oauth eager t =
     [(''name'', WStr (if oauth then toClaudeCodeName lower (to_name t) else to_name t)),
      (''description'', WStr (to_description t)),
      (''input_schema'', WMap [(''type'', WStr ''object''), (''properties'', WAny (schemaProperties (to_parameters t))),
         (''required'', WAny (schemaRequired (to_parameters t)))])] @
     (if eager then [(''eager_input_streaming'', WBool True)] else [])"

definition convertTools :: "(string \<Rightarrow> string) \<Rightarrow> tool list \<Rightarrow> bool \<Rightarrow> bool \<Rightarrow> cacheControl option \<Rightarrow> wire_map list" where
  "convertTools lower tools oauth eager cc =
     map (\<lambda>(i, t). let block = convert_tool lower oauth eager t
          in if Suc i = length tools then withCacheControl block cc else block) (enumerate 0 tools)"

definition thinkingOffSupported :: "full_model \<Rightarrow> bool" where
  "thinkingOffSupported m \<longleftrightarrow>
     (case fm_thinking_levels m of None \<Rightarrow> True | Some ls \<Rightarrow> map_of ls ''off'' \<noteq> Some None)"

definition message_wire :: "wire_message \<Rightarrow> wire" where
  "message_wire m = WMap [(''role'', WStr (wm_role m)),
     (''content'', case wm_content m of CText t \<Rightarrow> WStr t | CBlocks bs \<Rightarrow> WArr (map WMap bs))]"

definition system_params :: "bool \<Rightarrow> string \<Rightarrow> cacheControl option \<Rightarrow> wire_map" where
  "system_params oauth prompt cc =
     (let block = (\<lambda>s. WMap (withCacheControl (text_block s) cc));
          own = (if prompt \<noteq> [] then [block (SanitizeSurrogates prompt)] else []);
          system = (if oauth then block (''You are Claude Code, Anthropic'' @ [SQUOTE] @ ''s official CLI for Claude.'') # own else own)
      in if system = [] then [] else [(''system'', WArr system)])"

definition thinking_params :: "full_model \<Rightarrow> anthropic_options \<Rightarrow> wire_map" where
  "thinking_params m opts =
     (let display = (if op_display opts = [] then ''summarized'' else op_display opts) in
      if \<not> fm_reasoning m then []
      else case op_thinking opts of
        None \<Rightarrow> []
      | Some True \<Rightarrow>
          if adaptive_thinking m then
            (''thinking'', WMap [(''type'', WStr ''adaptive''), (''display'', WStr display)]) #
            (if op_effort opts \<noteq> [] then [(''output_config'', WMap [(''effort'', WStr (op_effort opts))])] else [])
          else
            [(''thinking'', WMap [(''type'', WStr ''enabled''),
               (''budget_tokens'', WInt (if op_budget opts = 0 then 1024 else op_budget opts)), (''display'', WStr display)])]
      | Some False \<Rightarrow> if thinkingOffSupported m then [(''thinking'', WMap [(''type'', WStr ''disabled'')])] else [])"

definition default_options :: anthropic_options where
  "default_options = \<lparr>so_temperature = None, so_max_tokens = 0, so_api_key = [], so_headers = [], so_session_id = [],
     so_cache_retention = [], so_metadata = [], so_env = [], op_blobs = None, op_thinking = None, op_budget = 0,
     op_effort = [], op_display = [], op_interleaved = None, op_tool_choice = None\<rparr>"

text \<open>The result is the body as a map; without options it is the body for the zero options.\<close>

definition buildParams ::
  "(string \<Rightarrow> string) \<Rightarrow> (string \<Rightarrow> string) \<Rightarrow> time_ms \<Rightarrow> full_model \<Rightarrow> llm_context \<Rightarrow> bool \<Rightarrow> anthropic_options option
     \<Rightarrow> document_error + wire_map" where
  "buildParams lower getenv now m c oauth options =
     (let opts = (case options of Some x \<Rightarrow> x | None \<Rightarrow> default_options);
          cc = snd (getCacheControl getenv m (so_cache_retention opts) (so_env opts));
          compat = getAnthropicCompat m
      in map_sum id (\<lambda>messages.
           [(''model'', WStr (mo_id m)), (''messages'', WArr (map message_wire messages)),
            (''max_tokens'', WInt (if so_max_tokens opts \<noteq> 0 then so_max_tokens opts else mo_max_tokens m)),
            (''stream'', WBool True)] @
           system_params oauth (lc_system_prompt c) cc @
           (case so_temperature opts of
              Some t \<Rightarrow> if op_thinking opts \<noteq> Some True \<and> co_temperature compat then [(''temperature'', WNum t)] else []
            | None \<Rightarrow> []) @
           (if lc_tools c \<noteq> [] then
              [(''tools'', WArr (map WMap (convertTools lower (lc_tools c) oauth (co_eager_tools compat)
                 (if co_cache_on_tools compat then cc else None))))]
            else []) @
           thinking_params m opts @
           (case map_of (so_metadata opts) ''user_id'' of
              Some (AStr u) \<Rightarrow> [(''metadata'', WMap [(''user_id'', WStr u)])] | _ \<Rightarrow> []) @
           (case op_tool_choice opts of
              Some tc \<Rightarrow> [(''tool_choice'', WStruct ((''type'', WStr (tc_type tc)) #
                (if tc_name tc \<noteq> [] then [(''name'', WStr (tc_name tc))] else [])))]
            | None \<Rightarrow> []))
         (convertMessages lower now (lc_messages c) (core m) oauth cc (co_empty_signature compat) (op_blobs opts)))"


section \<open>The run\<close>

datatype run_error = Plain string | Structured document_error

definition details_json :: "(string \<times> detail) list \<Rightarrow> bytes" where
  "details_json ds = marshal_wire (WMap (map (\<lambda>(k, d). (k, case d of DStr s \<Rightarrow> WStr s | DInt n \<Rightarrow> WInt n)) ds))"

text \<open>\<open>pushError\<close>: a structured error also gives its code and details.\<close>

definition pushRunError :: "assistant_message \<Rightarrow> run_error \<Rightarrow> bool \<Rightarrow> stream_event" where
  "pushRunError output err aborted =
     (case err of
        Plain text \<Rightarrow> pushError output text aborted
      | Structured e \<Rightarrow> pushError (output\<lparr>am_error_code := error_code_text (de_code e),
          am_error_details := Some (details_json (de_details e))\<rparr>) (document_error_text e) aborted)"

record http_request =
  rq_url :: string
  rq_headers :: "(string \<times> string) list"
  rq_body :: bytes

text \<open>The body of a response: its reads on success, all its text for a failed status.\<close>

record http_response =
  hr_status :: int
  hr_headers :: "(string \<times> string list) list"
  hr_reads :: "string read_step list option"
  hr_text :: bytes

record run_env =
  re_lower :: "string \<Rightarrow> string"
  re_getenv :: "string \<Rightarrow> string"
  re_now :: time_ms
  re_on_payload :: "(wire \<Rightarrow> string + wire option) option"
  re_bad_request :: "string \<Rightarrow> string option"
  re_send :: "http_request \<Rightarrow> string + http_response"
  re_on_response :: "(int \<Rightarrow> (string \<times> string) list \<Rightarrow> string option) option"
  re_decode_error :: "string \<Rightarrow> string"
  re_idle_timeout :: string
  re_idle :: bool
  re_parent0 :: "string option"
  re_parent1 :: "string option"
  re_parent2 :: "string option"

definition maxAnthropicRequestBytes :: int where
  "maxAnthropicRequestBytes = maxAnthropicPayloadBytes - 512 * 1024"

definition wholeRequestSizeError :: "int \<Rightarrow> document_error" where
  "wholeRequestSizeError n = NewDocumentError CodeRequestSizeExceeded ''The request exceeds the 32 MB limit.''
     [(''request_bytes'', DInt n), (''max_request_bytes'', DInt maxAnthropicRequestBytes)] None"

text \<open>
  \<open>runStream\<close> up to the round trip, with the flag of an OAuth request.  \<open>opts\<close> is never nil here:
  \<open>runStream\<close> replaces nil by the zero options.
\<close>

definition request_payload :: "run_env \<Rightarrow> full_model \<Rightarrow> llm_context \<Rightarrow> bool \<Rightarrow> anthropic_options \<Rightarrow> run_error + wire" where
  "request_payload en m c oauth opts =
     (case buildParams (re_lower en) (re_getenv en) (re_now en) m c oauth (Some opts) of
        Inl err \<Rightarrow> Inl (Structured err)
      | Inr params \<Rightarrow>
          (case re_on_payload en of
             None \<Rightarrow> Inr (WMap params)
           | Some f \<Rightarrow>
               (case f (WMap params) of
                  Inl err \<Rightarrow> Inl (Plain err) | Inr None \<Rightarrow> Inr (WMap params) | Inr (Some next) \<Rightarrow> Inr next)))"

definition prepare_request ::
  "run_env \<Rightarrow> full_model \<Rightarrow> llm_context \<Rightarrow> anthropic_options \<Rightarrow> run_error + http_request \<times> bool" where
  "prepare_request en m c opts =
     (case assertRequestAuth (re_lower en) (mo_provider m) (so_api_key opts) (so_headers opts) of
        Some err \<Rightarrow> Inl (Plain err)
      | None \<Rightarrow>
          (let interleaved = (case op_interleaved opts of Some b \<Rightarrow> b | None \<Rightarrow> True);
               retention = resolveCacheRetention (re_getenv en) (so_cache_retention opts) (so_env opts);
               session = (if retention = ''none'' then [] else so_session_id opts);
               (headers, oauth) = buildRequestHeaders m (so_api_key opts) interleaved
                 (shouldUseFineGrainedToolStreamingBeta m (lc_tools c)) (so_headers opts) session
           in case request_payload en m c oauth opts of
                Inl err \<Rightarrow> Inl err
              | Inr payload \<Rightarrow>
                  (let body = marshal_wire payload in
                   if int (length body) > maxAnthropicRequestBytes then
                     Inl (Structured (wholeRequestSizeError (int (length body))))
                   else case re_bad_request en (messagesURL (fm_base_url m)) of
                     Some err \<Rightarrow> Inl (Plain err)
                   | None \<Rightarrow> Inr (\<lparr>rq_url = messagesURL (fm_base_url m), rq_headers = headers, rq_body = body\<rparr>, oauth))))"

definition runStream :: "run_env \<Rightarrow> full_model \<Rightarrow> llm_context \<Rightarrow> anthropic_options option \<Rightarrow> stream_event list option" where
  "runStream en m c options =
     (let output = newOutputMessage (core m) (re_now en);
          fail = (\<lambda>err. Some [pushRunError output err (re_parent0 en \<noteq> None)])
      in case prepare_request en m c (case options of Some x \<Rightarrow> x | None \<Rightarrow> default_options) of
           Inl err \<Rightarrow> fail err
         | Inr (req, oauth) \<Rightarrow>
             (case re_send en req of
                Inl err \<Rightarrow>
                  Some [pushError output (streamError (re_idle_timeout en) (re_parent1 en) err (re_idle en)) (re_parent2 en \<noteq> None)]
              | Inr resp \<Rightarrow>
                  (case (case re_on_response en of
                      None \<Rightarrow> None | Some f \<Rightarrow> f (hr_status resp) (HeadersToRecord (re_lower en) (hr_headers resp))) of
                     Some err \<Rightarrow> fail (Plain err)
                   | None \<Rightarrow>
                       if hr_status resp < 200 \<or> hr_status resp \<ge> 300 then
                         fail (Plain (''Anthropic API error: status='' @ show_int (hr_status resp) @ '' body='' @
                           trim_space (hr_text resp)))
                       else run_response (re_lower en) (re_decode_error en) (re_idle_timeout en) (re_parent1 en)
                         (re_parent2 en) (re_idle en) oauth (lc_tools c) output (hr_reads resp))))"

definition StreamSimple :: "run_env \<Rightarrow> full_model \<Rightarrow> llm_context \<Rightarrow> simple_options option \<Rightarrow> stream_event list option" where
  "StreamSimple en m c opts = runStream en m c (Some (simple_to_options m c opts))"


section \<open>What is sent\<close>

lemma buildParams_messages:
  assumes "buildParams lower getenv now m c oauth opts = Inr params"
  obtains messages cc allow reader where
    "convertMessages lower now (lc_messages c) (core m) oauth cc allow reader = Inr messages"
    "map_of params ''messages'' = Some (WArr (map message_wire messages))"
  using assms by (auto simp: buildParams_def Let_def map_sum_eq_Inr)


definition example_full_model :: full_model where
  "example_full_model = model.extend example_model
     \<lparr>fm_base_url = [], fm_reasoning = True, fm_thinking_levels = None, fm_headers = [], fm_compat = None\<rparr>"

definition example_env :: run_env where
  "example_env = \<lparr>re_lower = id, re_getenv = (\<lambda>_. []), re_now = 0, re_on_payload = None, re_bad_request = (\<lambda>_. None),
     re_send = (\<lambda>_. Inl ''offline''), re_on_response = None, re_decode_error = id, re_idle_timeout = ''90s'',
     re_idle = False, re_parent0 = None, re_parent1 = None, re_parent2 = None\<rparr>"

definition example_context :: llm_context where
  "example_context = \<lparr>lc_system_prompt = [], lc_messages = example_calls, lc_tools = []\<rparr>"

definition example_options :: anthropic_options where
  "example_options = default_options\<lparr>so_api_key := ''k''\<rparr>"

lemma example_prepared: "isl (prepare_request example_env example_full_model example_context example_options) = False"
  by code_simp



text \<open>Whatever happens, the events end with one terminal event, once the body ends.\<close>

lemma runStream_ends:
  assumes "\<And>req resp. re_send en req = Inr resp \<Longrightarrow> \<exists>reads. hr_reads resp = Some reads \<and> list_ex read_ends reads"
  shows "\<exists>pre e. runStream en m c opts = Some (pre @ [e]) \<and> is_terminal e \<and> list_all (\<lambda>x. \<not> is_terminal x) pre"
proof -
  have push: "is_terminal (pushError out err aborted)" for out err aborted
    by (simp add: pushError_def is_terminal_def event_def Let_def)
  have run_push: "is_terminal (pushRunError out err aborted)" for out err aborted
    by (cases err) (simp_all add: pushRunError_def push)
  have single: "\<exists>pre e'. Some [e] = Some (pre @ [e']) \<and> is_terminal e' \<and> list_all (\<lambda>x. \<not> is_terminal x) pre"
    if "is_terminal e" for e
    using that by (intro exI [of _ "[]"]) simp
  have start: "ev_type ((event EvStart)\<lparr>ev_partial := p\<rparr>) = EvStart" for p by (simp add: event_def)
  have body: "\<exists>pre e. run_response (re_lower en) (re_decode_error en) (re_idle_timeout en) (re_parent1 en) (re_parent2 en)
      (re_idle en) oauth (lc_tools c) (newOutputMessage (core m) (re_now en)) (hr_reads resp) = Some (pre @ [e]) \<and>
      is_terminal e \<and> list_all (\<lambda>x. \<not> is_terminal x) pre" if send: "re_send en req = Inr resp" for req resp oauth
  proof -
    from assms [OF send] obtain reads where r: "hr_reads resp = Some reads" "list_ex read_ends reads" by blast
    from run_response_described [OF r(2), of "re_lower en" "re_decode_error en" "re_idle_timeout en" "re_parent1 en"
        "re_parent2 en" "re_idle en" oauth "lc_tools c" "core m" "re_now en"]
    obtain evs where "run_response (re_lower en) (re_decode_error en) (re_idle_timeout en) (re_parent1 en) (re_parent2 en)
        (re_idle en) oauth (lc_tools c) (newOutputMessage (core m) (re_now en)) (hr_reads resp) = Some evs"
      "well_streamed finalJSONRaw ((event EvStart)\<lparr>ev_partial := Some (newOutputMessage (core m) (re_now en))\<rparr>) evs"
      using r(1) by auto
    with well_streamed_ends [OF _ start] show ?thesis by force
  qed
  show ?thesis
    unfolding runStream_def Let_def
    by (auto simp: push run_push intro: single body split: sum.splits prod.splits option.splits)
qed

text \<open>A thinking budget of zero, left by a small token limit, is sent as 1024, not below the limit.\<close>

definition small_model :: full_model where
  "small_model = example_full_model\<lparr>mo_max_tokens := 1024, mo_context_window := 0\<rparr>"

lemma zero_budget_becomes_limit:
  "let opts = simple_to_options small_model example_context
     (Some (stream_options.extend (stream_options.truncate default_options)
       \<lparr>si_reasoning = ''low'', si_budgets = [], si_blobs = None\<rparr>)) in
   so_max_tokens opts = 1024 \<and>
   map_of (thinking_params small_model opts) ''thinking'' =
     Some (WMap [(''type'', WStr ''enabled''), (''budget_tokens'', WInt 1024), (''display'', WStr ''summarized'')])"
  by code_simp

end
