(* ===== verification/OpenAI_Events.thy ===== *)
theory OpenAI_Events
  imports Json_Structs Anthropic_Request
begin

text \<open>
  \<open>internal/provider/openai/events.go\<close>: the chunks of a chat-completions stream, their decoding and
  their folding into one assistant message.  \<open>streamingJSONRaw\<close>, \<open>finalJSONRaw\<close> and
  the functions around the stream are textual copies of those of package \<open>anthropic\<close> and shared
  with its theories.  The pointers to open tool calls are positions in a list of fold blocks.
\<close>

section \<open>Chunks\<close>

record openai_func =
  of_name :: string
  of_arguments :: string

record openai_call =
  oc_index :: "int option"
  oc_id :: string
  oc_function :: "openai_func option"

record openai_delta =
  dl_content :: string
  dl_calls :: "openai_call list"
  dl_reasoning :: string
  dl_reasoning_content :: string

record openai_choice =
  ch_index :: int
  ch_delta :: openai_delta
  ch_finish :: "string option"

record openai_chunk =
  ck_id :: string
  ck_model :: string
  ck_choices :: "openai_choice list"
  ck_usage :: bytes

definition empty_call :: openai_call where
  "empty_call = \<lparr>oc_index = None, oc_id = [], oc_function = None\<rparr>"

definition empty_choice :: openai_choice where
  "empty_choice = \<lparr>ch_index = 0, ch_delta = \<lparr>dl_content = [], dl_calls = [], dl_reasoning = [], dl_reasoning_content = []\<rparr>,
     ch_finish = None\<rparr>"

definition empty_chunk :: openai_chunk where
  "empty_chunk = \<lparr>ck_id = [], ck_model = [], ck_choices = [], ck_usage = []\<rparr>"

definition set_func :: "string \<Rightarrow> openai_func \<Rightarrow> openai_func option" where
  "set_func = set_struct [''name'', ''arguments'']
     (\<lambda>f raw x.
       if f = ''name'' then map_option (\<lambda>v. x\<lparr>of_name := v\<rparr>) (set_str raw (of_name x))
       else map_option (\<lambda>v. x\<lparr>of_arguments := v\<rparr>) (set_str raw (of_arguments x)))"

definition set_call :: "string \<Rightarrow> openai_call \<Rightarrow> openai_call option" where
  "set_call = set_struct [''index'', ''id'', ''function'']
     (\<lambda>f raw x.
       if f = ''index'' then map_option (\<lambda>v. x\<lparr>oc_index := v\<rparr>) (set_int_pointer raw (oc_index x))
       else if f = ''id'' then map_option (\<lambda>v. x\<lparr>oc_id := v\<rparr>) (set_str raw (oc_id x))
       else map_option (\<lambda>v. x\<lparr>oc_function := v\<rparr>)
         (set_pointer set_func \<lparr>of_name = [], of_arguments = []\<rparr> raw (oc_function x)))"

definition set_openai_delta :: "string \<Rightarrow> openai_delta \<Rightarrow> openai_delta option" where
  "set_openai_delta = set_struct [''content'', ''tool_calls'', ''reasoning'', ''reasoning_content'']
     (\<lambda>f raw x.
       if f = ''content'' then map_option (\<lambda>v. x\<lparr>dl_content := v\<rparr>) (set_str raw (dl_content x))
       else if f = ''tool_calls'' then map_option (\<lambda>v. x\<lparr>dl_calls := v\<rparr>) (set_slice set_call empty_call raw (dl_calls x))
       else if f = ''reasoning'' then map_option (\<lambda>v. x\<lparr>dl_reasoning := v\<rparr>) (set_str raw (dl_reasoning x))
       else map_option (\<lambda>v. x\<lparr>dl_reasoning_content := v\<rparr>) (set_str raw (dl_reasoning_content x)))"

definition set_choice :: "string \<Rightarrow> openai_choice \<Rightarrow> openai_choice option" where
  "set_choice = set_struct [''index'', ''delta'', ''finish_reason'']
     (\<lambda>f raw x.
       if f = ''index'' then map_option (\<lambda>v. x\<lparr>ch_index := v\<rparr>) (set_int raw (ch_index x))
       else if f = ''delta'' then map_option (\<lambda>v. x\<lparr>ch_delta := v\<rparr>) (set_openai_delta raw (ch_delta x))
       else map_option (\<lambda>v. x\<lparr>ch_finish := v\<rparr>) (set_pointer set_str [] raw (ch_finish x)))"

definition set_chunk :: "string \<Rightarrow> openai_chunk \<Rightarrow> openai_chunk option" where
  "set_chunk = set_struct [''id'', ''model'', ''choices'', ''usage'']
     (\<lambda>f raw x.
       if f = ''id'' then map_option (\<lambda>v. x\<lparr>ck_id := v\<rparr>) (set_str raw (ck_id x))
       else if f = ''model'' then map_option (\<lambda>v. x\<lparr>ck_model := v\<rparr>) (set_str raw (ck_model x))
       else if f = ''choices'' then map_option (\<lambda>v. x\<lparr>ck_choices := v\<rparr>) (set_slice set_choice empty_choice raw (ck_choices x))
       else Some (x\<lparr>ck_usage := raw\<rparr>))"

definition unmarshal_chunk :: "string \<Rightarrow> unit + openai_chunk" where
  "unmarshal_chunk text = (case set_chunk text empty_chunk of None \<Rightarrow> Inl () | Some c \<Rightarrow> Inr c)"

section \<open>Fold state\<close>

record openai_fold_block =
  ob_stream_index :: int
  ob_content_index :: nat
  ob_partial :: string

text \<open>The two maps hold positions in \<open>os_calls\<close>.\<close>

record openai_fold_state =
  os_output :: assistant_message
  os_calls :: "openai_fold_block list"
  os_by_index :: "(int \<times> nat) list"
  os_by_id :: "(string \<times> nat) list"
  os_has_finish :: bool

definition os_content :: "openai_fold_state \<Rightarrow> content_block list" where
  "os_content st = am_content (os_output st)"

definition set_content :: "content_block list \<Rightarrow> openai_fold_state \<Rightarrow> openai_fold_state" where
  "set_content bs st = st\<lparr>os_output := (os_output st)\<lparr>am_content := bs\<rparr>\<rparr>"

definition oev :: "ev_type \<Rightarrow> nat \<Rightarrow> openai_fold_state \<Rightarrow> stream_event" where
  "oev t i st = (event t)\<lparr>ev_index := i, ev_partial := Some (os_output st)\<rparr>"

definition firstNonEmptyStr :: "string list \<Rightarrow> string" where
  "firstNonEmptyStr vs = (case find (\<lambda>v. trim_space v \<noteq> []) vs of Some v \<Rightarrow> v | None \<Rightarrow> [])"

section \<open>Usage and stop reasons\<close>

definition extractInt :: "schema \<Rightarrow> string \<Rightarrow> int option" where
  "extractInt raw key = (case map_of raw key of Some (ANum n) \<Rightarrow> Some (int_of_float n) | _ \<Rightarrow> None)"

definition parseChunkUsage :: "schema \<Rightarrow> usage" where
  "parseChunkUsage raw =
     (let part = (\<lambda>details key. case map_of raw details of Some (AObj ms) \<Rightarrow> intValue (extractInt ms key) | _ \<Rightarrow> 0);
          prompt = intValue (extractInt raw ''prompt_tokens'');
          completion = intValue (extractInt raw ''completion_tokens'');
          cacheRead = part ''prompt_tokens_details'' ''cached_tokens'';
          cacheWrite = part ''prompt_tokens_details'' ''cache_write_tokens'';
          input = max 0 (wrap64 (wrap64 (prompt - cacheRead) - cacheWrite))
      in \<lparr>u_input = input, u_output = completion, u_cache_read = cacheRead, u_cache_write = cacheWrite,
          u_cache_write_1h = None, u_reasoning = Some (part ''completion_tokens_details'' ''reasoning_tokens''),
          u_total_tokens = wrap64 (input + completion + cacheRead + cacheWrite)\<rparr>)"

definition mapOpenAIStopReason :: "string \<Rightarrow> (stop_reason \<times> string) option" where
  "mapOpenAIStopReason reason =
     (if reason = [] \<or> reason = ''stop'' \<or> reason = ''end'' then Some (StopStop, [])
      else if reason = ''length'' then Some (StopLength, [])
      else if reason = ''function_call'' \<or> reason = ''tool_calls'' then Some (StopToolUse, [])
      else if reason = ''content_filter'' then Some (StopError, ''Provider finish_reason: content_filter'')
      else if reason = ''network_error'' then Some (StopError, ''Provider finish_reason: network_error'')
      else None)"

section \<open>Folding\<close>

definition lastBlockIndex :: "block_type \<Rightarrow> openai_fold_state \<Rightarrow> nat option" where
  "lastBlockIndex t st = last_index (\<lambda>b. cb_type b = t) (os_content st)"

definition foldOpenAITextDelta :: "openai_fold_state \<Rightarrow> string \<Rightarrow> openai_fold_state \<times> stream_event list" where
  "foldOpenAITextDelta st txt_delta =
     (case lastBlockIndex BlockText st of
        None \<Rightarrow>
          (let i = length (os_content st);
               st' = set_content (os_content st @ [(empty_block BlockText)\<lparr>cb_text := txt_delta\<rparr>]) st
           in (st', [oev EvTextStart i st', (oev EvTextDelta i st')\<lparr>ev_delta := txt_delta\<rparr>]))
      | Some i \<Rightarrow>
          (let b = os_content st ! i;
               st' = set_content ((os_content st)[i := b\<lparr>cb_text := cb_text b @ txt_delta\<rparr>]) st
           in (st', [(oev EvTextDelta i st')\<lparr>ev_delta := txt_delta\<rparr>])))"

definition foldOpenAIThinkingDelta :: "openai_fold_state \<Rightarrow> string \<Rightarrow> openai_fold_state \<times> stream_event list" where
  "foldOpenAIThinkingDelta st delta =
     (case lastBlockIndex BlockThinking st of
        None \<Rightarrow>
          (let i = length (os_content st);
               st' = set_content (os_content st @ [(empty_block BlockThinking)\<lparr>cb_thinking := delta\<rparr>]) st
           in (st', [oev EvThinkingStart i st', (oev EvThinkingDelta i st')\<lparr>ev_delta := delta\<rparr>]))
      | Some i \<Rightarrow>
          (let b = os_content st ! i;
               st' = set_content ((os_content st)[i := b\<lparr>cb_thinking := cb_thinking b @ delta\<rparr>]) st
           in (st', [(oev EvThinkingDelta i st')\<lparr>ev_delta := delta\<rparr>])))"

definition reasonDeltaStr :: "openai_delta \<Rightarrow> string" where
  "reasonDeltaStr d = (if dl_reasoning_content d \<noteq> [] then dl_reasoning_content d else dl_reasoning d)"

text \<open>The open call a delta belongs to: by its index, else by its identifier.\<close>

definition call_index :: "openai_call \<Rightarrow> int" where
  "call_index tc = (case oc_index tc of None \<Rightarrow> -1 | Some i \<Rightarrow> i)"

definition find_call :: "openai_fold_state \<Rightarrow> openai_call \<Rightarrow> nat option" where
  "find_call st tc =
     (case (if 0 \<le> call_index tc then map_of (os_by_index st) (call_index tc) else None) of
        Some h \<Rightarrow> Some h
      | None \<Rightarrow> if oc_id tc \<noteq> [] then map_of (os_by_id st) (oc_id tc) else None)"

definition open_call :: "openai_fold_state \<Rightarrow> openai_call \<Rightarrow> openai_fold_state \<times> stream_event list" where
  "open_call st tc =
     (let i = length (os_content st); h = length (os_calls st);
          b = (empty_block BlockToolCall)\<lparr>cb_id := oc_id tc,
            cb_name := (case oc_function tc of None \<Rightarrow> [] | Some f \<Rightarrow> of_name f)\<rparr>;
          st' = (set_content (os_content st @ [b]) st)\<lparr>
            os_calls := os_calls st @ [\<lparr>ob_stream_index = call_index tc, ob_content_index = i, ob_partial = []\<rparr>],
            os_by_index := (if 0 \<le> call_index tc then assoc_set (call_index tc) h (os_by_index st) else os_by_index st),
            os_by_id := (if oc_id tc \<noteq> [] then assoc_set (oc_id tc) h (os_by_id st) else os_by_id st)\<rparr>
      in (st', [(oev EvToolCallStart i st')\<lparr>ev_tool_call := Some b\<rparr>]))"

text \<open>The identifier, name and arguments of a delta, given to the open call.\<close>

definition takes_id :: "openai_call \<Rightarrow> content_block \<Rightarrow> bool" where
  "takes_id tc b \<longleftrightarrow> oc_id tc \<noteq> [] \<and> cb_id b = []"

definition named_call :: "openai_call \<Rightarrow> content_block \<Rightarrow> content_block" where
  "named_call tc b =
     (let fname = (case oc_function tc of None \<Rightarrow> [] | Some f \<Rightarrow> of_name f);
          b1 = (if takes_id tc b then b\<lparr>cb_id := oc_id tc\<rparr> else b)
      in if cb_name b1 = [] \<and> fname \<noteq> [] then b1\<lparr>cb_name := fname\<rparr> else b1)"

definition call_args :: "openai_call \<Rightarrow> string" where
  "call_args tc = (case oc_function tc of None \<Rightarrow> [] | Some f \<Rightarrow> of_arguments f)"

definition extend_call :: "openai_fold_state \<Rightarrow> nat \<Rightarrow> openai_call \<Rightarrow> openai_fold_state \<times> stream_event list" where
  "extend_call st h tc =
     (let fb = os_calls st ! h; i = ob_content_index fb; b = os_content st ! i in
      if i < length (os_content st) \<and> cb_type b = BlockToolCall then
        (let st1 = (if takes_id tc b then st\<lparr>os_by_id := assoc_set (oc_id tc) h (os_by_id st)\<rparr> else st);
             partial = ob_partial fb @ call_args tc
         in if call_args tc = [] then (set_content ((os_content st)[i := named_call tc b]) st1, [])
            else
              (let st' = (set_content ((os_content st)[i := (named_call tc b)\<lparr>cb_arguments := streamingJSONRaw partial\<rparr>]) st1)\<lparr>
                     os_calls := (os_calls st)[h := fb\<lparr>ob_partial := partial\<rparr>]\<rparr>
               in (st', [(oev EvToolCallDelta i st')\<lparr>ev_delta := call_args tc\<rparr>])))
      else (st, []))"

definition foldOpenAIToolCallDelta :: "openai_fold_state \<Rightarrow> openai_call \<Rightarrow> openai_fold_state \<times> stream_event list" where
  "foldOpenAIToolCallDelta st tc =
     (case find_call st tc of
        Some h \<Rightarrow> extend_call st h tc
      | None \<Rightarrow>
          (let (st1, evs1) = open_call st tc; (st2, evs2) = extend_call st1 (length (os_calls st)) tc
           in (st2, evs1 @ evs2)))"

fun foldOpenAIToolCalls :: "openai_fold_state \<Rightarrow> openai_call list \<Rightarrow> openai_fold_state \<times> stream_event list" where
  "foldOpenAIToolCalls st [] = (st, [])"
| "foldOpenAIToolCalls st (tc # tcs) =
     (let (st1, evs1) = foldOpenAIToolCallDelta st tc; (st2, evs2) = foldOpenAIToolCalls st1 tcs in (st2, evs1 @ evs2))"

definition fold_delta :: "openai_fold_state \<Rightarrow> openai_delta \<Rightarrow> openai_fold_state \<times> stream_event list" where
  "fold_delta st d =
     (let (st1, evs1) = (if dl_content d \<noteq> [] then foldOpenAITextDelta st (dl_content d) else (st, []));
          (st2, evs2) = (if reasonDeltaStr d \<noteq> [] then foldOpenAIThinkingDelta st1 (reasonDeltaStr d) else (st1, []));
          (st3, evs3) = foldOpenAIToolCalls st2 (dl_calls d)
      in (st3, evs1 @ evs2 @ evs3))"

text \<open>What a chunk says of the response as a whole; a usage that does not decode is ignored.\<close>

definition fold_head :: "openai_chunk \<Rightarrow> model \<Rightarrow> assistant_message \<Rightarrow> assistant_message" where
  "fold_head c m out =
     (let out1 = out\<lparr>am_response_id := firstNonEmptyStr [am_response_id out, ck_id c]\<rparr>;
          out2 = (if ck_model c \<noteq> [] \<and> ck_model c \<noteq> mo_id m
                  then out1\<lparr>am_response_model := firstNonEmptyStr [am_response_model out1, ck_model c]\<rparr> else out1)
      in if ck_usage c = [] then out2
         else case unmarshal_object (ck_usage c) of
           Inl _ \<Rightarrow> out2
         | Inr ms \<Rightarrow> out2\<lparr>am_usage := parseChunkUsage (case ms of None \<Rightarrow> [] | Some kvs \<Rightarrow> kvs)\<rparr>)"

definition foldOpenAIChunk ::
  "model \<Rightarrow> openai_chunk \<Rightarrow> openai_fold_state \<Rightarrow> openai_fold_state \<times> (string + stream_event list)" where
  "foldOpenAIChunk m c st =
     (let st1 = st\<lparr>os_output := fold_head c m (os_output st)\<rparr> in
      case ck_choices c of
        [] \<Rightarrow> (st1, Inr [])
      | choice # _ \<Rightarrow>
          (case ch_finish choice of
             None \<Rightarrow> apsnd Inr (fold_delta st1 (ch_delta choice))
           | Some [] \<Rightarrow> apsnd Inr (fold_delta st1 (ch_delta choice))
           | Some reason \<Rightarrow>
               (case mapOpenAIStopReason reason of
                  None \<Rightarrow> (st1, Inl (''unhandled stop reason: '' @ reason))
                | Some (r, msg) \<Rightarrow>
                    apsnd Inr (fold_delta
                      (st1\<lparr>os_output := (os_output st1)\<lparr>am_stop_reason := r,
                           am_error_message := (if msg \<noteq> [] then msg else am_error_message (os_output st1))\<rparr>,
                         os_has_finish := True\<rparr>)
                      (ch_delta choice)))))"

section \<open>The end of the stream\<close>

definition toolCallBlockByContentIndex :: "openai_fold_state \<Rightarrow> nat \<Rightarrow> openai_fold_block option" where
  "toolCallBlockByContentIndex st i =
     find (\<lambda>b. ob_content_index b = i)
       (map (\<lambda>kh. os_calls st ! snd kh) (os_by_index st) @ map (\<lambda>kh. os_calls st ! snd kh) (os_by_id st))"

definition finalize_block :: "openai_fold_state \<Rightarrow> nat \<Rightarrow> openai_fold_state \<times> stream_event list" where
  "finalize_block st i =
     (let b = os_content st ! i in
      case cb_type b of
        BlockText \<Rightarrow> (st, [(oev EvTextEnd i st)\<lparr>ev_content := cb_text b\<rparr>])
      | BlockThinking \<Rightarrow> (st, [(oev EvThinkingEnd i st)\<lparr>ev_content := cb_thinking b\<rparr>])
      | BlockToolCall \<Rightarrow>
          (let b' = (case toolCallBlockByContentIndex st i of
                 None \<Rightarrow> b | Some fb \<Rightarrow> b\<lparr>cb_arguments := finalJSONRaw (ob_partial fb)\<rparr>);
               st' = set_content ((os_content st)[i := b']) st
           in (st', [(oev EvToolCallEnd i st')\<lparr>ev_tool_call := Some b'\<rparr>]))
      | _ \<Rightarrow> (st, []))"

fun finalize_from :: "nat list \<Rightarrow> openai_fold_state \<Rightarrow> openai_fold_state \<times> stream_event list" where
  "finalize_from [] st = (st, [])"
| "finalize_from (i # is) st =
     (let (st1, evs1) = finalize_block st i; (st2, evs2) = finalize_from is st1 in (st2, evs1 @ evs2))"

definition foldOpenAIFinalizeBlocks :: "openai_fold_state \<Rightarrow> openai_fold_state \<times> stream_event list" where
  "foldOpenAIFinalizeBlocks st = finalize_from [0 ..< length (os_content st)] st"

section \<open>The stream of chunks\<close>

text \<open>The callback over the number of events seen and the caller's state.\<close>

definition openai_frame ::
  "(string \<Rightarrow> string) \<Rightarrow> ('w \<Rightarrow> openai_chunk \<Rightarrow> 'w \<times> string option) \<Rightarrow> nat \<times> 'w \<Rightarrow> sse_event \<Rightarrow> (nat \<times> 'w) \<times> string option" where
  "openai_frame decode_error fn nw ev =
     (let n = Suc (fst nw); w = snd nw; data = trim_space (sse_data ev) in
      if data = [] \<or> data = ''[DONE]'' then ((n, w), None)
      else case ParseJsonWithRepair unmarshal_chunk data of
        Inl _ \<Rightarrow> ((n, w), Some (''could not parse OpenAI SSE chunk: '' @ decode_error data @ ''; data='' @ data))
      | Inr c \<Rightarrow> apfst (Pair n) (fn w c))"

end
