(* ===== verification/OpenAI_Stream.thy ===== *)
theory OpenAI_Stream
  imports OpenAI_Events
begin

text \<open>
  \<open>internal/provider/openai/stream.go\<close> from the response on, and the proof that its events describe
  its message.
\<close>

section \<open>The fold keeps the description\<close>

definition openai_good :: "openai_fold_state \<Rightarrow> stream_event list \<Rightarrow> bool" where
  "openai_good st evs \<longleftrightarrow>
     describes finalJSONRaw (os_content st) evs \<and>
     distinct (map ob_content_index (os_calls st)) \<and>
     (\<forall>fb \<in> set (os_calls st). ob_content_index fb < length (os_content st) \<and>
        cb_type (os_content st ! ob_content_index fb) = BlockToolCall \<and>
        ob_partial fb = deltas EvToolCallDelta (ob_content_index fb) evs) \<and>
     (\<forall>h \<in> snd ` set (os_by_index st) \<union> snd ` set (os_by_id st). h < length (os_calls st))"

lemma oev_simps [simp]:
  "ev_type (oev t i st) = t" "ev_index (oev t i st) = i" "ev_delta (oev t i st) = []"
  by (simp_all add: oev_def event_def)

lemma set_content_simps [simp]:
  "os_content (set_content bs st) = bs" "os_calls (set_content bs st) = os_calls st"
  "os_by_index (set_content bs st) = os_by_index st" "os_by_id (set_content bs st) = os_by_id st"
  by (simp_all add: set_content_def os_content_def)

lemma os_content_update [simp]:
  "os_content (st\<lparr>os_calls := c\<rparr>) = os_content st" "os_content (st\<lparr>os_by_id := d\<rparr>) = os_content st"
  "os_content (st\<lparr>os_by_index := x\<rparr>) = os_content st" "os_content (st\<lparr>os_has_finish := f\<rparr>) = os_content st"
  by (simp_all add: os_content_def)

text \<open>Changing or adding a block that is not about arguments.\<close>

lemma openai_good_at:
  assumes "openai_good st evs" "i < length (os_content st)" "cb_type b = cb_type (os_content st ! i)"
    and st': "os_content st' = (os_content st)[i := b]" "os_calls st' = os_calls st"
      "os_by_index st' = os_by_index st" "\<forall>h \<in> snd ` set (os_by_id st'). h < length (os_calls st)"
    and evs': "\<forall>e \<in> set evs'. ev_index e = i \<and> \<not> is_terminal e \<and> ev_type e \<noteq> EvToolCallDelta"
    and now: "described finalJSONRaw (evs @ evs') i b"
  shows "openai_good st' (evs @ evs')"
proof -
  have quiet: "deltas EvToolCallDelta j (evs @ evs') = deltas EvToolCallDelta j evs" for j
    using evs' by (simp add: deltas_append deltas_quiet)
  have "describes finalJSONRaw (os_content st') (evs @ evs')"
    unfolding st' using assms(1,2) evs' now by (intro describes_at) (auto simp: openai_good_def)
  then show ?thesis
    using assms(1-3) st' quiet by (auto simp: openai_good_def nth_list_update)
qed

lemma openai_good_add:
  assumes "openai_good st evs"
    and st': "os_content st' = os_content st @ [b]" "os_calls st' = os_calls st"
      "os_by_index st' = os_by_index st" "os_by_id st' = os_by_id st"
    and evs': "\<forall>e \<in> set evs'. ev_index e = length (os_content st) \<and> \<not> is_terminal e \<and> ev_type e \<noteq> EvToolCallDelta"
    and now: "described finalJSONRaw evs' (length (os_content st)) b"
  shows "openai_good st' (evs @ evs')"
proof -
  have quiet: "deltas EvToolCallDelta j (evs @ evs') = deltas EvToolCallDelta j evs" for j
    using evs' by (simp add: deltas_append deltas_quiet)
  have "describes finalJSONRaw (os_content st') (evs @ evs')"
    unfolding st' using assms(1) evs' now by (intro describes_add) (auto simp: openai_good_def)
  then show ?thesis
    using assms(1) st' quiet by (auto simp: openai_good_def nth_append)
qed

lemma openai_described:
  "openai_good st evs \<Longrightarrow> i < length (os_content st) \<Longrightarrow> described finalJSONRaw evs i (os_content st ! i)"
  by (simp add: openai_good_def describes_def)

lemma last_block:
  "lastBlockIndex t st = Some i \<Longrightarrow> i < length (os_content st) \<and> cb_type (os_content st ! i) = t"
  unfolding lastBlockIndex_def by (drule last_index_Some) simp

lemma openai_ids: "openai_good st evs \<Longrightarrow> \<forall>h \<in> snd ` set (os_by_id st). h < length (os_calls st)"
  by (simp add: openai_good_def)

lemma openai_good_words:
  assumes "openai_good st evs" "foldOpenAITextDelta st d = (st', evs')"
  shows "openai_good st' (evs @ evs')"
proof (cases "lastBlockIndex BlockText st")
  case None
  let ?st = "set_content (os_content st @ [(empty_block BlockText)\<lparr>cb_text := d\<rparr>]) st"
  let ?n = "length (os_content st)"
  have "st' = ?st" "evs' = [oev EvTextStart ?n ?st, (oev EvTextDelta ?n ?st)\<lparr>ev_delta := d\<rparr>]"
    using assms(2) None by (auto simp: foldOpenAITextDelta_def Let_def)
  then show ?thesis
    by (intro openai_good_add [OF assms(1), where b = "(empty_block BlockText)\<lparr>cb_text := d\<rparr>"]) (simp_all add: described_def empty_block_def deltas_Cons is_terminal_def)
next
  case (Some i)
  note i = last_block [OF Some]
  let ?b = "os_content st ! i"
  let ?st = "set_content ((os_content st)[i := ?b\<lparr>cb_text := cb_text ?b @ d\<rparr>]) st"
  have "st' = ?st" "evs' = [(oev EvTextDelta i ?st)\<lparr>ev_delta := d\<rparr>]"
    using assms(2) Some by (auto simp: foldOpenAITextDelta_def Let_def)
  with openai_described [OF assms(1) conjunct1 [OF i]] i show ?thesis
    by (intro openai_good_at [OF assms(1), where i = i and b = "?b\<lparr>cb_text := cb_text ?b @ d\<rparr>"])
      (simp_all add: described_def deltas_append deltas_Cons is_terminal_def openai_ids [OF assms(1)])
qed

lemma openai_good_thoughts:
  assumes "openai_good st evs" "foldOpenAIThinkingDelta st d = (st', evs')"
  shows "openai_good st' (evs @ evs')"
proof (cases "lastBlockIndex BlockThinking st")
  case None
  let ?st = "set_content (os_content st @ [(empty_block BlockThinking)\<lparr>cb_thinking := d\<rparr>]) st"
  let ?n = "length (os_content st)"
  have "st' = ?st" "evs' = [oev EvThinkingStart ?n ?st, (oev EvThinkingDelta ?n ?st)\<lparr>ev_delta := d\<rparr>]"
    using assms(2) None by (auto simp: foldOpenAIThinkingDelta_def Let_def)
  then show ?thesis
    by (intro openai_good_add [OF assms(1), where b = "(empty_block BlockThinking)\<lparr>cb_thinking := d\<rparr>"])
      (simp_all add: described_def redacted_text_def empty_block_def deltas_Cons is_terminal_def)
next
  case (Some i)
  note i = last_block [OF Some]
  let ?b = "os_content st ! i"
  let ?st = "set_content ((os_content st)[i := ?b\<lparr>cb_thinking := cb_thinking ?b @ d\<rparr>]) st"
  have "st' = ?st" "evs' = [(oev EvThinkingDelta i ?st)\<lparr>ev_delta := d\<rparr>]"
    using assms(2) Some by (auto simp: foldOpenAIThinkingDelta_def Let_def)
  with openai_described [OF assms(1) conjunct1 [OF i]] i show ?thesis
    by (intro openai_good_at [OF assms(1), where i = i and b = "?b\<lparr>cb_thinking := cb_thinking ?b @ d\<rparr>"])
      (simp_all add: described_def redacted_text_def deltas_append deltas_Cons is_terminal_def openai_ids [OF assms(1)])
qed

text \<open>Tool calls.\<close>

lemma assoc_set_values: "h \<in> snd ` set (assoc_set k v ms) \<Longrightarrow> h = v \<or> h \<in> snd ` set ms"
  by (induction k v ms rule: assoc_set.induct) (auto split: if_splits)

lemma assoc_set_bound:
  fixes m n :: nat
  assumes "\<forall>h \<in> snd ` set ms. h < n" "v < m" "n \<le> m"
  shows "\<forall>h \<in> snd ` set (assoc_set k v ms). h < m"
proof
  fix h
  assume "h \<in> snd ` set (assoc_set k v ms)"
  from assoc_set_values [OF this] assms show "h < m" by (auto dest: less_le_trans)
qed

lemma openai_good_open:
  assumes "openai_good st evs" "open_call st tc = (st', evs')"
  shows "openai_good st' (evs @ evs')" "length (os_calls st) < length (os_calls st')"
proof -
  let ?n = "length (os_content st)" and ?h = "length (os_calls st)"
  define b where "b = (empty_block BlockToolCall)\<lparr>cb_id := oc_id tc,
      cb_name := (case oc_function tc of None \<Rightarrow> [] | Some f \<Rightarrow> of_name f)\<rparr>"
  define st1 where "st1 = set_content (os_content st @ [b]) st"
  let ?fb = "\<lparr>ob_stream_index = call_index tc, ob_content_index = ?n, ob_partial = []\<rparr>"
  have st': "os_content st' = os_content st @ [b]" "os_calls st' = os_calls st @ [?fb]"
      "os_by_index st' = (if 0 \<le> call_index tc then assoc_set (call_index tc) ?h (os_by_index st) else os_by_index st)"
      "os_by_id st' = (if oc_id tc \<noteq> [] then assoc_set (oc_id tc) ?h (os_by_id st) else os_by_id st)"
    using assms(2) [symmetric] by (simp_all add: open_call_def Let_def b_def)
  have old: "\<forall>h \<in> snd ` set (os_by_index st). h < ?h" "\<forall>h \<in> snd ` set (os_by_id st). h < ?h"
    using assms(1) by (auto simp: openai_good_def)
  have ids: "\<forall>h \<in> snd ` set (os_by_index st'). h < Suc ?h" "\<forall>h \<in> snd ` set (os_by_id st'). h < Suc ?h"
    unfolding st'(3,4) using old assoc_set_bound [OF old(1), of ?h "Suc ?h"] assoc_set_bound [OF old(2), of ?h "Suc ?h"]
    by (auto simp: less_SucI)
  have evs': "\<forall>e \<in> set evs'. ev_index e = ?n \<and> \<not> is_terminal e \<and> ev_type e \<noteq> EvToolCallDelta"
    using assms(2) [symmetric] by (simp add: open_call_def Let_def is_terminal_def)
  have "openai_good st1 (evs @ evs')"
  proof (rule openai_good_add [OF assms(1), where b = b])
    show "described finalJSONRaw evs' ?n b"
      using evs' by (auto simp: described_def b_def arguments_pushed_def list_ex_iff)
  qed (use evs' in \<open>auto simp: st1_def\<close>)
  moreover have "deltas EvToolCallDelta ?n (evs @ evs') = []"
  proof -
    have "deltas EvToolCallDelta ?n evs = []" using assms(1) by (intro deltas_elsewhere) (auto simp: openai_good_def describes_def)
    moreover have "deltas EvToolCallDelta ?n evs' = []" using evs' by (intro deltas_quiet) auto
    ultimately show ?thesis by (simp add: deltas_append)
  qed
  ultimately show "openai_good st' (evs @ evs')"
    using assms(1) ids by (auto simp: openai_good_def st'(1,2) st1_def nth_append b_def dest: less_SucI)
  show "length (os_calls st) < length (os_calls st')" by (simp add: st')
qed


text \<open>A delta of an open call.\<close>

lemma openai_good_extend:
  assumes "openai_good st evs" "h < length (os_calls st)" "extend_call st h tc = (st', evs')"
  shows "openai_good st' (evs @ evs')"
proof -
  define fb where "fb = os_calls st ! h"
  define i where "i = ob_content_index fb"
  have fb: "fb \<in> set (os_calls st)" using assms(2) by (simp add: fb_def)
  have i: "i < length (os_content st)" "cb_type (os_content st ! i) = BlockToolCall" "ob_partial fb = deltas EvToolCallDelta i evs"
    using assms(1) fb by (auto simp: openai_good_def i_def)
  define b where "b = os_content st ! i"
  define b2 where "b2 = named_call tc b"
  define args where "args = call_args tc"
  define st1 where "st1 = (if takes_id tc b then st\<lparr>os_by_id := assoc_set (oc_id tc) h (os_by_id st)\<rparr> else st)"
  have b2: "cb_type b2 = BlockToolCall" "cb_arguments b2 = cb_arguments b"
    using i(2) by (simp_all add: b2_def named_call_def b_def Let_def)
  have st1: "os_content st1 = os_content st" "os_calls st1 = os_calls st" "os_by_index st1 = os_by_index st"
    by (simp_all add: st1_def)
  have ids1: "\<forall>h \<in> snd ` set (os_by_id st1). h < length (os_calls st)"
    using assoc_set_bound [OF openai_ids [OF assms(1)] assms(2) order_refl] openai_ids [OF assms(1)] by (simp add: st1_def)
  have run: "(st', evs') =
      (if args = [] then (set_content ((os_content st)[i := b2]) st1, [])
       else (let partial = ob_partial fb @ args;
                 st2 = (set_content ((os_content st)[i := b2\<lparr>cb_arguments := streamingJSONRaw partial\<rparr>]) st1)\<lparr>
                   os_calls := (os_calls st)[h := fb\<lparr>ob_partial := partial\<rparr>]\<rparr>
             in (st2, [(oev EvToolCallDelta i st2)\<lparr>ev_delta := args\<rparr>])))"
    unfolding assms(3) [symmetric] extend_call_def Let_def b2_def args_def st1_def b_def i_def fb_def
    using i(1,2) by (simp add: i_def fb_def)
  show ?thesis
  proof (cases "args = []")
    case True
    with run have st': "st' = set_content ((os_content st)[i := b2]) st1" "evs' = []" by simp_all
    have "described finalJSONRaw evs i b2"
      using openai_described [OF assms(1) i(1)] i(2) b2 by (simp add: described_def b_def)
    then show ?thesis
      using i b2(1) ids1 by (intro openai_good_at [OF assms(1), where i = i and b = b2]) (simp_all add: st' st1)
  next
    case False
    define partial where "partial = ob_partial fb @ args"
    define b3 where "b3 = b2\<lparr>cb_arguments := streamingJSONRaw partial\<rparr>"
    from run False have c: "os_content st' = (os_content st)[i := b3]" "os_calls st' = (os_calls st)[h := fb\<lparr>ob_partial := partial\<rparr>]"
        "os_by_index st' = os_by_index st" "os_by_id st' = os_by_id st1"
        "\<exists>e. evs' = [e] \<and> ev_type e = EvToolCallDelta \<and> ev_index e = i \<and> ev_delta e = args"
      by (auto simp: Let_def partial_def b3_def st1)
    from c(5) obtain e where e: "evs' = [e]" "ev_type e = EvToolCallDelta" "ev_index e = i" "ev_delta e = args" by blast
    have p: "partial = deltas EvToolCallDelta i (evs @ evs')" by (simp add: partial_def i(3) deltas_append deltas_Cons e)
    have d: "described finalJSONRaw (evs @ evs') i b3"
      using b2 by (simp add: described_def b3_def p finalJSONRaw_streaming arguments_pushed_append arguments_pushed_Cons e)
    have "describes finalJSONRaw (os_content st') (evs @ evs')"
      unfolding c using assms(1) i(1) d e by (intro describes_at) (auto simp: openai_good_def is_terminal_def)
    moreover have idx: "map ob_content_index (os_calls st') = map ob_content_index (os_calls st)"
      using assms(2) by (simp add: c map_update fb_def list_update_same_conv)
    moreover have "ob_partial g = deltas EvToolCallDelta (ob_content_index g) (evs @ evs')" if g: "g \<in> set (os_calls st')" for g
    proof -
      from g obtain k where k: "k < length (os_calls st)" "g = os_calls st' ! k" by (auto simp: in_set_conv_nth c)
      show ?thesis
      proof (cases "k = h")
        case True
        with k p assms(2) show ?thesis by (simp add: c i_def)
      next
        case False
        then have same: "g = os_calls st ! k" using k by (simp add: c)
        have "ob_content_index g \<noteq> i"
        proof -
          have "distinct (map ob_content_index (os_calls st))" using assms(1) by (simp add: openai_good_def)
          with False k(1) assms(2) show ?thesis
            unfolding same i_def fb_def by (metis length_map nth_eq_iff_index_eq nth_map)
        qed
        moreover have "ob_partial g = deltas EvToolCallDelta (ob_content_index g) evs"
          using assms(1) k(1) by (auto simp: same openai_good_def)
        ultimately show ?thesis by (simp add: deltas_append deltas_Cons e)
      qed
    qed
    moreover have "ob_content_index g < length (os_content st') \<and> cb_type (os_content st' ! ob_content_index g) = BlockToolCall"
      if g: "g \<in> set (os_calls st')" for g
    proof -
      from g have "ob_content_index g \<in> set (map ob_content_index (os_calls st))" unfolding idx [symmetric] by simp
      then obtain f where f: "f \<in> set (os_calls st)" "ob_content_index g = ob_content_index f" by auto
      with assms(1) have "ob_content_index g < length (os_content st)" "cb_type (os_content st ! ob_content_index g) = BlockToolCall"
        by (auto simp: openai_good_def)
      then show ?thesis using b2(1) by (cases "ob_content_index g = i") (simp_all add: c b3_def)
    qed
    ultimately show ?thesis
      using assms(1) ids1 by (auto simp: openai_good_def c(2-4))
  qed
qed


lemma openai_good_call:
  assumes "openai_good st evs" "foldOpenAIToolCallDelta st tc = (st', evs')"
  shows "openai_good st' (evs @ evs')"
proof (cases "find_call st tc")
  case (Some h)
  then have "h \<in> snd ` set (os_by_index st) \<or> h \<in> snd ` set (os_by_id st)"
    by (force simp: find_call_def dest: map_of_SomeD split: option.splits if_splits)
  then have "h < length (os_calls st)" using assms(1) by (auto simp: openai_good_def)
  from openai_good_extend [OF assms(1) this] assms(2) Some show ?thesis by (simp add: foldOpenAIToolCallDelta_def)
next
  case None
  obtain st1 evs1 where o: "open_call st tc = (st1, evs1)" by (cases "open_call st tc")
  obtain st2 evs2 where x: "extend_call st1 (length (os_calls st)) tc = (st2, evs2)"
    by (cases "extend_call st1 (length (os_calls st)) tc")
  from openai_good_extend [OF openai_good_open [OF assms(1) o] x] assms(2) None o x show ?thesis
    by (simp add: foldOpenAIToolCallDelta_def)
qed

lemma openai_good_calls:
  "openai_good st evs \<Longrightarrow> foldOpenAIToolCalls st tcs = (st', evs') \<Longrightarrow> openai_good st' (evs @ evs')"
proof (induction tcs arbitrary: st evs evs' st')
  case (Cons tc tcs)
  obtain st1 evs1 where a: "foldOpenAIToolCallDelta st tc = (st1, evs1)" by (cases "foldOpenAIToolCallDelta st tc")
  obtain st2 evs2 where b: "foldOpenAIToolCalls st1 tcs = (st2, evs2)" by (cases "foldOpenAIToolCalls st1 tcs")
  from Cons.IH [OF openai_good_call [OF Cons.prems(1) a] b] Cons.prems(2) a b show ?case by simp
qed simp

lemma openai_good_delta:
  assumes "openai_good st evs" "fold_delta st d = (st', evs')"
  shows "openai_good st' (evs @ evs')"
proof -
  obtain st1 evs1 where a: "(if dl_content d \<noteq> [] then foldOpenAITextDelta st (dl_content d) else (st, [])) = (st1, evs1)"
    by (cases "if dl_content d \<noteq> [] then foldOpenAITextDelta st (dl_content d) else (st, [])")
  obtain st2 evs2 where b: "(if reasonDeltaStr d \<noteq> [] then foldOpenAIThinkingDelta st1 (reasonDeltaStr d) else (st1, [])) = (st2, evs2)"
    by (cases "if reasonDeltaStr d \<noteq> [] then foldOpenAIThinkingDelta st1 (reasonDeltaStr d) else (st1, [])")
  obtain st3 evs3 where c: "foldOpenAIToolCalls st2 (dl_calls d) = (st3, evs3)" by (cases "foldOpenAIToolCalls st2 (dl_calls d)")
  have 1: "openai_good st1 (evs @ evs1)"
    using a openai_good_words [OF assms(1), of "dl_content d"] assms(1) by (auto split: if_splits)
  have 2: "openai_good st2 ((evs @ evs1) @ evs2)"
    using b openai_good_thoughts [OF 1, of "reasonDeltaStr d"] 1 by (auto split: if_splits)
  from openai_good_calls [OF 2 c] assms(2) a b c show ?thesis by (simp add: fold_delta_def)
qed

lemma openai_good_same:
  assumes "openai_good st evs" "os_content st' = os_content st" "os_calls st' = os_calls st"
    "os_by_index st' = os_by_index st" "os_by_id st' = os_by_id st"
  shows "openai_good st' evs"
  using assms by (simp add: openai_good_def)

lemma fold_head_content: "am_content (fold_head c m out) = am_content out"
  by (simp add: fold_head_def Let_def split: sum.splits)

lemma openai_good_fold:
  assumes "openai_good st evs" "foldOpenAIChunk m c st = (st', r)"
  shows "openai_good st' (evs @ pushed_events r)"
proof -
  define st1 where "st1 = st\<lparr>os_output := fold_head c m (os_output st)\<rparr>"
  have 1: "openai_good st1 evs"
    by (rule openai_good_same [OF assms(1)]) (simp_all add: st1_def os_content_def fold_head_content)
  have 2: "openai_good (st1\<lparr>os_output := (os_output st1)\<lparr>am_stop_reason := x, am_error_message := y\<rparr>, os_has_finish := True\<rparr>) evs" for x y
    by (rule openai_good_same [OF 1]) (simp_all add: os_content_def)
  have d: "openai_good st' (evs @ pushed_events r)" if "openai_good s evs" "apsnd Inr (fold_delta s d) = (st', r)" for s d
    using that openai_good_delta [OF that(1), of d] by (cases "fold_delta s d") (auto simp: pushed_events_def)
  have run: "(st', r) = (case ck_choices c of
        [] \<Rightarrow> (st1, Inr [])
      | choice # _ \<Rightarrow>
          (case ch_finish choice of
             None \<Rightarrow> apsnd Inr (fold_delta st1 (ch_delta choice))
           | Some [] \<Rightarrow> apsnd Inr (fold_delta st1 (ch_delta choice))
           | Some reason \<Rightarrow>
               (case mapOpenAIStopReason reason of
                  None \<Rightarrow> (st1, Inl (''unhandled stop reason: '' @ reason))
                | Some (r, msg) \<Rightarrow>
                    apsnd Inr (fold_delta
                      (st1\<lparr>os_output := (os_output st1)\<lparr>am_stop_reason := r,
                           am_error_message := (if msg \<noteq> [] then msg else am_error_message (os_output st1))\<rparr>,
                         os_has_finish := True\<rparr>)
                      (ch_delta choice)))))"
    using assms(2) unfolding foldOpenAIChunk_def Let_def st1_def by simp
  show ?thesis
  proof (cases "ck_choices c")
    case Nil
    with run 1 show ?thesis by (simp add: pushed_events_def)
  next
    case (Cons choice rest)
    show ?thesis
    proof (cases "ch_finish choice = None \<or> ch_finish choice = Some []")
      case True
      with run Cons d [OF 1] show ?thesis by auto
    next
      case False
      then obtain x xs where f: "ch_finish choice = Some (x # xs)" by (cases "ch_finish choice") (auto simp: neq_Nil_conv)
      show ?thesis
      proof (cases "mapOpenAIStopReason (x # xs)")
        case None
        with run Cons f 1 show ?thesis by (simp add: pushed_events_def)
      next
        case (Some rm)
        with run Cons f d [OF 2] show ?thesis by (cases rm) auto
      qed
    qed
  qed
qed



text \<open>The end events.\<close>

lemma found_call:
  assumes "openai_good st evs" "toolCallBlockByContentIndex st i = Some fb"
  shows "ob_content_index fb = i" "ob_partial fb = deltas EvToolCallDelta i evs"
proof -
  from assms(2) have f: "fb \<in> set (map (\<lambda>kh. os_calls st ! snd kh) (os_by_index st) @ map (\<lambda>kh. os_calls st ! snd kh) (os_by_id st))"
    and i: "ob_content_index fb = i"
    unfolding toolCallBlockByContentIndex_def find_Some_iff by (auto simp: in_set_conv_nth simp del: set_append)
  then obtain h where "h \<in> snd ` set (os_by_index st) \<union> snd ` set (os_by_id st)" "fb = os_calls st ! h" by auto
  with assms(1) have "fb \<in> set (os_calls st)" by (auto simp: openai_good_def)
  with assms(1) i show "ob_content_index fb = i" "ob_partial fb = deltas EvToolCallDelta i evs"
    by (auto simp: openai_good_def)
qed

lemma openai_good_end:
  assumes "openai_good st evs" "i < length (os_content st)" "finalize_block st i = (st', evs')"
  shows "openai_good st' (evs @ evs')" "length (os_content st') = length (os_content st)"
    "\<forall>e \<in> set evs'. ev_type e \<noteq> EvStart"
proof -
  let ?b = "os_content st ! i"
  note d = openai_described [OF assms(1,2)]
  have same: "openai_good st (evs @ [e])" if "ev_type e = EvTextEnd \<or> ev_type e = EvThinkingEnd" "ev_index e = i" for e
    using d that assms(2)
    by (intro openai_good_at [OF assms(1), where i = i and b = ?b])
      (auto simp: described_def deltas_append deltas_Cons arguments_pushed_append arguments_pushed_Cons is_terminal_def
        openai_ids [OF assms(1)] split: block_type.splits if_splits)
  consider (words) "cb_type ?b = BlockText" | (thk) "cb_type ?b = BlockThinking" | (call) "cb_type ?b = BlockToolCall"
    using described_kinds [OF d] by blast
  then have "openai_good st' (evs @ evs') \<and> length (os_content st') = length (os_content st) \<and> (\<forall>e \<in> set evs'. ev_type e \<noteq> EvStart)"
  proof cases
    case words
    with assms(3) same show ?thesis by (auto simp: finalize_block_def)
  next
    case thk
    with assms(3) same show ?thesis by (auto simp: finalize_block_def)
  next
    case call
    define b' where "b' = (case toolCallBlockByContentIndex st i of
        None \<Rightarrow> ?b | Some fb \<Rightarrow> ?b\<lparr>cb_arguments := finalJSONRaw (ob_partial fb)\<rparr>)"
    let ?st = "set_content ((os_content st)[i := b']) st"
    have s: "st' = ?st" "evs' = [(oev EvToolCallEnd i ?st)\<lparr>ev_tool_call := Some b'\<rparr>]"
      using assms(3) call by (auto simp: finalize_block_def b'_def Let_def)
    have b': "cb_type b' = BlockToolCall" using call by (simp add: b'_def split: option.splits)
    have "described finalJSONRaw (evs @ evs') i b'"
      using d call found_call(2) [OF assms(1)]
      by (auto simp: described_def b'_def s deltas_append deltas_Cons arguments_pushed_append arguments_pushed_Cons
          split: option.splits)
    then have "openai_good ?st (evs @ evs')"
      using assms(2) call b'
      by (intro openai_good_at [OF assms(1), where i = i and b = b']) (auto simp: s is_terminal_def openai_ids [OF assms(1)])
    then show ?thesis by (simp add: s)
  qed
  then show "openai_good st' (evs @ evs')" "length (os_content st') = length (os_content st)"
    "\<forall>e \<in> set evs'. ev_type e \<noteq> EvStart" by blast+
qed

lemma openai_good_ends:
  "openai_good st evs \<Longrightarrow> \<forall>i \<in> set is. i < length (os_content st) \<Longrightarrow> finalize_from is st = (st', evs') \<Longrightarrow>
   openai_good st' (evs @ evs') \<and> (\<forall>e \<in> set evs'. ev_type e \<noteq> EvStart)"
proof (induction "is" arbitrary: st evs evs' st')
  case (Cons i js)
  obtain st1 evs1 where a: "finalize_block st i = (st1, evs1)" by (cases "finalize_block st i")
  obtain st2 evs2 where b: "finalize_from js st1 = (st2, evs2)" by (cases "finalize_from js st1")
  have "i < length (os_content st)" using Cons.prems(2) by simp
  note e = openai_good_end [OF Cons.prems(1) this a]
  have "\<forall>i \<in> set js. i < length (os_content st1)" using Cons.prems(2) e(2) by simp
  from Cons.IH [OF e(1) this b] Cons.prems(3) a b e(3) show ?case by auto
qed simp

text \<open>Events made by the fold are never start events.\<close>

lemma call_not_start: "foldOpenAIToolCallDelta st tc = (st', evs') \<Longrightarrow> \<forall>e \<in> set evs'. ev_type e \<noteq> EvStart"
proof -
  have o: "\<forall>e \<in> set (snd (open_call s tc)). ev_type e \<noteq> EvStart" for s by (simp add: open_call_def Let_def)
  have x: "\<forall>e \<in> set (snd (extend_call s h tc)). ev_type e \<noteq> EvStart" for s h by (simp add: extend_call_def Let_def)
  assume "foldOpenAIToolCallDelta st tc = (st', evs')"
  then have "evs' = snd (foldOpenAIToolCallDelta st tc)" by simp
  with o x show ?thesis by (auto simp: foldOpenAIToolCallDelta_def Let_def case_prod_beta split: option.splits)
qed

lemma calls_not_start: "foldOpenAIToolCalls st tcs = (st', evs') \<Longrightarrow> \<forall>e \<in> set evs'. ev_type e \<noteq> EvStart"
proof (induction tcs arbitrary: st st' evs')
  case (Cons tc tcs)
  obtain st1 evs1 where a: "foldOpenAIToolCallDelta st tc = (st1, evs1)" by (cases "foldOpenAIToolCallDelta st tc")
  obtain st2 evs2 where b: "foldOpenAIToolCalls st1 tcs = (st2, evs2)" by (cases "foldOpenAIToolCalls st1 tcs")
  from Cons.IH [OF b] call_not_start [OF a] Cons.prems a b show ?case by auto
qed simp

lemma delta_not_start: "\<forall>e \<in> set (snd (fold_delta st d)). ev_type e \<noteq> EvStart"
proof -
  have t: "\<forall>e \<in> set (snd (foldOpenAITextDelta s x)). ev_type e \<noteq> EvStart" for s x
    by (simp add: foldOpenAITextDelta_def Let_def split: option.splits)
  have k: "\<forall>e \<in> set (snd (foldOpenAIThinkingDelta s x)). ev_type e \<noteq> EvStart" for s x
    by (simp add: foldOpenAIThinkingDelta_def Let_def split: option.splits)
  have c: "\<forall>e \<in> set (snd (foldOpenAIToolCalls s x)). ev_type e \<noteq> EvStart" for s x
    using calls_not_start [of s x] by (cases "foldOpenAIToolCalls s x") auto
  show ?thesis using t k c by (auto simp: fold_delta_def Let_def case_prod_beta)
qed

lemma chunk_not_start: "foldOpenAIChunk m c st = (st', r) \<Longrightarrow> \<forall>e \<in> set (pushed_events r). ev_type e \<noteq> EvStart"
proof -
  assume "foldOpenAIChunk m c st = (st', r)"
  then have "r = snd (foldOpenAIChunk m c st)" by simp
  with delta_not_start show ?thesis
    by (auto simp: foldOpenAIChunk_def Let_def pushed_events_def apsnd_def map_prod_def case_prod_beta
        split: list.splits option.splits)
qed

interpretation openai: stream_fold "foldOpenAIChunk m" os_content finalJSONRaw openai_good
  for m
  by unfold_locales (blast intro: openai_good_fold, blast dest: chunk_not_start, simp add: openai_good_def)


section \<open>The run from the response on\<close>

text \<open>
  What the response gives the consumer.  \<open>parent0\<close>, \<open>parent1\<close> and \<open>parent2\<close> are what \<open>parent.Err()\<close>
  gives in the order it is asked; \<^const>\<open>None\<close> as for \<^const>\<open>IterateSSE\<close>.
\<close>

definition openai_state :: "assistant_message \<Rightarrow> openai_fold_state" where
  "openai_state output = \<lparr>os_output = output, os_calls = [], os_by_index = [], os_by_id = [], os_has_finish = False\<rparr>"

definition openai_finish ::
  "string \<Rightarrow> string option \<Rightarrow> string option \<Rightarrow> string option \<Rightarrow> bool \<Rightarrow> openai_fold_state \<Rightarrow> string option \<Rightarrow> stream_event list" where
  "openai_finish idle_timeout parent0 parent1 parent2 idle st err =
     (if err \<noteq> None then [final_event idle_timeout parent1 parent2 idle (os_output st) err]
      else if \<not> os_has_finish st \<and> parent0 = None \<and> \<not> idle then
        [pushError (os_output st) ''stream ended without finish_reason'' False]
      else
        (let (st', evs) = foldOpenAIFinalizeBlocks st
         in evs @ [final_event idle_timeout parent1 parent2 idle (os_output st') None]))"

definition openai_response ::
  "model \<Rightarrow> (string \<Rightarrow> string) \<Rightarrow> string \<Rightarrow> string option \<Rightarrow> string option \<Rightarrow> string option \<Rightarrow> bool \<Rightarrow> assistant_message
     \<Rightarrow> string read_step list \<Rightarrow> stream_event list option" where
  "openai_response m decode_error idle_timeout parent0 parent1 parent2 idle output reads =
     (case IterateSSE (openai_frame decode_error (push_folded (foldOpenAIChunk m))) reads
          (0, openai_state output, [(event EvStart)\<lparr>ev_partial := Some output\<rparr>]) of
        None \<Rightarrow> None
      | Some ((_, st, evs), err) \<Rightarrow> Some (evs @ openai_finish idle_timeout parent0 parent1 parent2 idle st err))"

lemma openai_frame_inv:
  assumes "\<And>w c. P w \<Longrightarrow> P (fst (fn w c))" "P (snd nw)"
  shows "P (snd (fst (openai_frame decode_error fn nw ev)))"
  using assms by (auto simp: openai_frame_def Let_def apfst_def map_prod_def split: sum.splits prod.splits) (metis fst_conv)

lemma openai_start: "started openai_good ((event EvStart)\<lparr>ev_partial := Some output\<rparr>)
    (openai_state output, [(event EvStart)\<lparr>ev_partial := Some output\<rparr>])" if "am_content output = []"
  using that describes_start [of "(event EvStart)\<lparr>ev_partial := Some output\<rparr>" finalJSONRaw]
  by (simp add: started_def openai_good_def openai_state_def os_content_def event_def)

lemma openai_finished:
  assumes "started openai_good s (st, evs)" "ev_type s = EvStart"
  shows "well_streamed finalJSONRaw s (evs @ openai_finish idle_timeout parent0 parent1 parent2 idle st err)"
proof -
  have one: "well_streamed finalJSONRaw s (evs1 @ [e])"
    if "started openai_good s (st1, evs1)" "is_terminal e" "\<exists>out. final_message e = Some out \<and> am_content out = os_content st1" for st1 evs1 e
    using that openai.started_well_streamed [OF that(1) assms(2) that(2)] by auto
  have fin: "well_streamed finalJSONRaw s (evs1 @ [final_event idle_timeout parent1 parent2 idle (os_output st1) x])"
    if "started openai_good s (st1, evs1)" for st1 evs1 x
    by (rule one [OF that]) (simp_all add: os_content_def final_event_terminal)
  have cut_off: "well_streamed finalJSONRaw s (evs @ [pushError (os_output st) x False])" for x
    by (rule one [OF assms(1)])
      (simp_all add: pushError_def is_terminal_def final_message_def event_def os_content_def Let_def)
  obtain st' evs' where f: "finalize_from [0 ..< length (os_content st)] st = (st', evs')"
    by (cases "finalize_from [0 ..< length (os_content st)] st")
  from assms(1) obtain pre where pre: "evs = s # pre" "openai_good st (s # pre)" "\<forall>e \<in> set pre. ev_type e \<noteq> EvStart"
    by (auto simp: started_def)
  from openai_good_ends [OF pre(2) _ f] pre have "started openai_good s (st', evs @ evs')"
    by (auto simp: started_def)
  from fin [OF this] fin [OF assms(1)] cut_off show ?thesis
    unfolding openai_finish_def foldOpenAIFinalizeBlocks_def f by simp
qed

lemma openai_response_described:
  assumes "list_ex read_ends reads" "am_content output = []"
  shows "\<exists>evs. openai_response m decode_error idle_timeout parent0 parent1 parent2 idle output reads = Some evs \<and>
    well_streamed finalJSONRaw ((event EvStart)\<lparr>ev_partial := Some output\<rparr>) evs"
proof -
  let ?s = "(event EvStart)\<lparr>ev_partial := Some output\<rparr>"
  let ?fn = "openai_frame decode_error (push_folded (foldOpenAIChunk m))"
  obtain nw err where run: "IterateSSE ?fn reads (0, openai_state output, [?s]) = Some (nw, err)"
    using IterateSSE_ends [OF assms(1), of ?fn "(0, openai_state output, [?s])"] by blast
  obtain n st evs where nw: "nw = (n, st, evs)" by (cases nw)
  have "started openai_good ?s (snd nw)"
  proof (rule IterateSSE_inv [where P = "\<lambda>nw. started openai_good ?s (snd nw)", OF _ _ run])
    show "started openai_good ?s (snd (fst (?fn w ev)))" if "started openai_good ?s (snd w)" for w ev
      using openai.push_started that by (rule openai_frame_inv)
    show "started openai_good ?s (snd (0, openai_state output, [?s]))"
      using openai_start [OF assms(2)] by simp
  qed
  then have "started openai_good ?s (st, evs)" by (simp add: nw)
  from openai_finished [OF this] run show ?thesis by (simp add: openai_response_def nw event_def)
qed

text \<open>C4: A chat-completions response that ends pushes the start event, then non-terminal events that
  point into the final message's content, and exactly one terminal event, the last.  The terminal
  event carries a message whose text and thinking blocks are the concatenated deltas pushed for
  their index and whose tool calls have the arguments their deltas parse to, however the deltas of
  several calls are interleaved by index or identifier.  This holds also when the stream is cut,
  malformed, cancelled, idle or without a finish reason.
\<close>

theorem openai_response_describes_message:
  assumes "list_ex read_ends reads"
  shows "\<exists>evs. openai_response m decode_error idle_timeout parent0 parent1 parent2 idle (newOutputMessage m now) reads
      = Some evs \<and> well_streamed finalJSONRaw ((event EvStart)\<lparr>ev_partial := Some (newOutputMessage m now)\<rparr>) evs"
  by (rule openai_response_described [OF assms]) (simp add: newOutputMessage_def empty_assistant_def)

definition openai_example_body :: string where
  "openai_example_body =
     ''data: {\"id\": \"r\", \"choices\": [{\"delta\": {\"content\": \"hi\"}, \"finish_reason\": \"stop\"}]}\<newline>\<newline>data: [DONE]\<newline>\<newline>''"

theorem openai_response_describes_message_witness:
  "\<exists>evs. openai_response example_model id ''90s'' None None None False (newOutputMessage example_model 0)
      [last_chunk openai_example_body] = Some evs \<and>
    well_streamed finalJSONRaw ((event EvStart)\<lparr>ev_partial := Some (newOutputMessage example_model 0)\<rparr>) evs"
  by (rule openai_response_describes_message) (simp add: read_ends_def last_chunk_def)

text \<open>A chunk whose usage is null resets the usage to zero.\<close>

lemma unmarshal_null: "unmarshal_object ''null'' = Inr None"
  by code_simp

lemma null_usage_resets: "am_usage (fold_head (empty_chunk\<lparr>ck_usage := ''null''\<rparr>) m out) = parseChunkUsage []"
  by (simp add: fold_head_def empty_chunk_def unmarshal_null Let_def)

end
