(* ===== verification/Provider_Base.thy ===== *)
theory Provider_Base
  imports Provider_Types
begin

text \<open>
  \<open>internal/provider/base/provider.go\<close>: the registry of providers by the API of a model, and the API
  keys taken from the environment.  The environment is an argument; a provider is any value.
\<close>

section \<open>The registry\<close>

type_synonym 'p registry = "(string \<times> 'p) list"

definition NewRegistry :: "'p registry" where
  "NewRegistry = []"

definition Register :: "'p registry \<Rightarrow> string \<Rightarrow> 'p \<Rightarrow> 'p registry" where
  "Register r api p = assoc_set api p r"

definition Resolve :: "'p registry \<Rightarrow> string \<Rightarrow> 'p option" where
  "Resolve r api = map_of r api"

lemma Resolve_Register [simp]: "Resolve (Register r api p) api' = (if api' = api then Some p else Resolve r api')"
  by (simp add: Resolve_def Register_def)

section \<open>Keys from the environment\<close>

definition envKeysByProvider :: "(string \<times> string list) list" where
  "envKeysByProvider =
     [(''anthropic'', [''ANTHROPIC_OAUTH_TOKEN'', ''ANTHROPIC_API_KEY'']), (''google'', [''GEMINI_API_KEY''])]"

definition derived_char :: "rune \<times> bytes \<Rightarrow> bytes" where
  "derived_char rb =
     (let r = fst rb in
      if 97 \<le> r \<and> r \<le> 122 then [char_of (r - 32)]
      else if (65 \<le> r \<and> r \<le> 90) \<or> (48 \<le> r \<and> r \<le> 57) then snd rb
      else ''_'')"

definition deriveEnvVar :: "string \<Rightarrow> string" where
  "deriveEnvVar provider = concat (map derived_char (rune_segments provider)) @ ''_API_KEY''"

definition getEnvAPIKey :: "(string \<Rightarrow> string) \<Rightarrow> string \<Rightarrow> string" where
  "getEnvAPIKey getenv provider =
     (case map_of envKeysByProvider provider of
        Some vars \<Rightarrow> (case find (\<lambda>v. getenv v \<noteq> []) vars of Some v \<Rightarrow> getenv v | None \<Rightarrow> [])
      | None \<Rightarrow> getenv (deriveEnvVar provider))"

definition WithEnvAPIKey ::
  "(string \<Rightarrow> string) \<Rightarrow> 'a stream_options_scheme \<Rightarrow> string \<Rightarrow> 'a stream_options_scheme" where
  "WithEnvAPIKey getenv opts provider =
     (if trim_space (so_api_key opts) \<noteq> [] then opts
      else let key = getEnvAPIKey getenv provider in if key = [] then opts else opts\<lparr>so_api_key := key\<rparr>)"

text \<open>A key given by the caller is never replaced, and a key of blanks counts as none.\<close>

lemma WithEnvAPIKey_key:
  "so_api_key (WithEnvAPIKey getenv opts provider) =
     (if trim_space (so_api_key opts) \<noteq> [] \<or> getEnvAPIKey getenv provider = [] then so_api_key opts
      else getEnvAPIKey getenv provider)"
  by (simp add: WithEnvAPIKey_def Let_def)

lemma derived_example: "deriveEnvVar ''open-ai2'' = ''OPEN_AI2_API_KEY''"
  by code_simp

end
