(* ===== verification/OpenAI_Request.thy ===== *)
theory OpenAI_Request
  imports OpenAI_Stream Provider_Base
begin

text \<open>
  The OpenAI request, \<open>internal/provider/openai/convert.go\<close> and \<open>stream.go\<close>: the messages, the
  parameters and the whole of \<open>runStream\<close>.  \<open>clampMaxTokensToContext\<close>, \<open>buildBaseOptions\<close>,
  \<open>mergeHeaders\<close>, \<open>hasHeader\<close>, \<open>newOutputMessage\<close>, \<open>pushError\<close> and \<open>streamError\<close> are textual
  copies of the functions of package \<open>anthropic\<close> and shared with its theories, and so is the record
  of what a run takes from the world.
\<close>

section \<open>Messages\<close>

definition openai_user_part :: "content_block \<Rightarrow> wire list" where
  "openai_user_part b =
     (case cb_type b of
        BlockText \<Rightarrow>
          (let words = SanitizeSurrogates (cb_text b)
           in if trim_space words \<noteq> [] then [WMap (text_block words)] else [])
      | BlockImage \<Rightarrow>
          [WMap [(''type'', WStr ''image_url''),
             (''image_url'', WMap [(''url'', WStr (''data:'' @ cb_mime_type b @ '';base64,'' @ cb_data b))])]]
      | _ \<Rightarrow> [])"

definition openai_user :: "user_message \<Rightarrow> wire_map list" where
  "openai_user u =
     (case uc_blocks (um_content u) of
        None \<Rightarrow>
          if trim_space (uc_text (um_content u)) \<noteq> []
          then [[(''role'', WStr ''user''), (''content'', WStr (SanitizeSurrogates (uc_text (um_content u))))]] else []
      | Some blocks \<Rightarrow>
          (let parts = concat (map openai_user_part blocks)
           in if parts \<noteq> [] then [[(''role'', WStr ''user''), (''content'', WArr parts)]] else []))"

definition rawJSONOrEmpty :: "bytes \<Rightarrow> bytes" where
  "rawJSONOrEmpty raw = (if raw = [] \<or> raw = ''null'' then ''{}'' else raw)"

definition openai_wire_call :: "content_block \<Rightarrow> wire" where
  "openai_wire_call b = WMap [(''id'', WStr (cb_id b)), (''type'', WStr ''function''),
     (''function'', WMap [(''name'', WStr (cb_name b)), (''arguments'', WStr (rawJSONOrEmpty (cb_arguments b)))])]"

definition openai_assistant :: "assistant_message \<Rightarrow> wire_map list" where
  "openai_assistant a =
     (let words = concat (map (\<lambda>b. SanitizeSurrogates (cb_text b))
            (filter (\<lambda>b. cb_type b = BlockText \<and> trim_space (cb_text b) \<noteq> []) (am_content a)));
          calls = map openai_wire_call (filter (\<lambda>b. cb_type b = BlockToolCall) (am_content a))
      in if words \<noteq> [] \<or> calls \<noteq> [] then
           [[(''role'', WStr ''assistant''), (''content'', WStr words)] @
            (if calls \<noteq> [] then [(''tool_calls'', WArr calls)] else [])]
         else [])"

definition openai_toolResultBlock :: "tool_result_message \<Rightarrow> wire_map" where
  "openai_toolResultBlock t =
     [(''role'', WStr ''tool''),
      (''content'', WStr (SanitizeSurrogates
         (join ''\<newline>'' (map cb_text (filter (\<lambda>b. cb_type b = BlockText) (tr_content t)))))),
      (''tool_call_id'', WStr (tr_tool_call_id t))]"

text \<open>The results that follow one another, and what is left.\<close>

fun openai_results :: "message list \<Rightarrow> wire_map list \<times> message list" where
  "openai_results [] = ([], [])"
| "openai_results (msg # ms) =
     (case asToolResult msg of
        None \<Rightarrow> ([], msg # ms)
      | Some t \<Rightarrow> apfst (\<lambda>rest. openai_toolResultBlock t # rest) (openai_results ms))"

lemma openai_results_shorter: "length (snd (openai_results ms)) \<le> length ms"
  by (induction ms) (auto split: option.splits)

function openai_convert_loop :: "message list \<Rightarrow> wire_map list" where
  "openai_convert_loop [] = []"
| "openai_convert_loop (msg # ms) =
     (case asUser msg of
        Some u \<Rightarrow> openai_user u @ openai_convert_loop ms
      | None \<Rightarrow>
          (case asAssistant msg of
             Some a \<Rightarrow> openai_assistant a @ openai_convert_loop ms
           | None \<Rightarrow>
               (case asToolResult msg of
                  None \<Rightarrow> openai_convert_loop ms
                | Some t \<Rightarrow>
                    openai_toolResultBlock t # fst (openai_results ms) @ openai_convert_loop (snd (openai_results ms)))))"
  by pat_completeness auto
termination
  by (relation "measure length") (use openai_results_shorter in \<open>auto simp: less_Suc_eq_le\<close>)

declare openai_convert_loop.simps(2) [simp del]

definition openai_convertMessages :: "time_ms \<Rightarrow> model \<Rightarrow> llm_context \<Rightarrow> wire_map list" where
  "openai_convertMessages now m c =
     (if lc_system_prompt c \<noteq> []
      then [[(''role'', WStr ''system''), (''content'', WStr (SanitizeSurrogates (lc_system_prompt c)))]] else []) @
     openai_convert_loop (TransformMessages now (lc_messages c) m (Some (\<lambda>i _ _. i)))"

section \<open>Parameters\<close>

record openai_options = stream_options +
  oo_tool_choice :: "wire option"
  oo_effort :: string

definition default_openai_options :: openai_options where
  "default_openai_options = stream_options.extend (stream_options.truncate default_options)
     \<lparr>oo_tool_choice = None, oo_effort = []\<rparr>"

definition hasToolHistory :: "message list \<Rightarrow> bool" where
  "hasToolHistory ms \<longleftrightarrow>
     list_ex (\<lambda>msg. asToolResult msg \<noteq> None \<or>
       (case asAssistant msg of Some a \<Rightarrow> list_ex (\<lambda>b. cb_type b = BlockToolCall) (am_content a) | None \<Rightarrow> False)) ms"

definition openai_tool :: "tool \<Rightarrow> wire" where
  "openai_tool t = WMap [(''type'', WStr ''function''),
     (''function'', WMap [(''name'', WStr (to_name t)), (''description'', WStr (to_description t)),
        (''parameters'', WAny (rawJSONToAny (to_parameters t)))])]"

definition openai_buildParams :: "time_ms \<Rightarrow> full_model \<Rightarrow> llm_context \<Rightarrow> openai_options option \<Rightarrow> wire_map" where
  "openai_buildParams now m c options =
     (let maxTokens = (case options of
            Some opts \<Rightarrow> if so_max_tokens opts \<noteq> 0 then so_max_tokens opts else mo_max_tokens m
          | None \<Rightarrow> mo_max_tokens m)
      in [(''model'', WStr (mo_id m)),
          (''messages'', WArr (map WMap (openai_convertMessages now (core m) c))),
          (''stream'', WBool True), (''stream_options'', WMap [(''include_usage'', WBool True)])] @
         (if maxTokens > 0 then [(''max_completion_tokens'', WInt maxTokens)] else []) @
         (case options of Some opts \<Rightarrow> (case so_temperature opts of Some t \<Rightarrow> [(''temperature'', WNum t)] | None \<Rightarrow> []) | None \<Rightarrow> []) @
         (if lc_tools c \<noteq> [] then [(''tools'', WArr (map openai_tool (lc_tools c)))]
          else if hasToolHistory (lc_messages c) then [(''tools'', WArr [])] else []) @
         (case options of Some opts \<Rightarrow> (case oo_tool_choice opts of Some v \<Rightarrow> [(''tool_choice'', v)] | None \<Rightarrow> []) | None \<Rightarrow> []) @
         (case options of Some opts \<Rightarrow> if oo_effort opts \<noteq> [] then [(''reasoning_effort'', WStr (oo_effort opts))] else []
          | None \<Rightarrow> []))"

section \<open>The run\<close>

definition chatCompletionsURL :: "string \<Rightarrow> string" where
  "chatCompletionsURL base =
     (let url = (if trim_space base = [] then ''https://api.openai.com/v1'' else base)
      in rev (dropWhile (\<lambda>c. c = CHR ''/'') (rev url)) @ ''/chat/completions'')"

definition openai_assertRequestAuth :: "(string \<Rightarrow> string) \<Rightarrow> string \<Rightarrow> string \<Rightarrow> (string \<times> string) list \<Rightarrow> string option" where
  "openai_assertRequestAuth lower provider key headers =
     (if key \<noteq> [] then None
      else if hasHeader lower headers ''authorization'' then None
      else Some (''no API key for provider: '' @ provider))"

definition with_env_key :: "run_env \<Rightarrow> full_model \<Rightarrow> 'a stream_options_scheme \<Rightarrow> 'a stream_options_scheme" where
  "with_env_key en m opts =
     (if trim_space (so_api_key opts) = [] then
        opts\<lparr>so_api_key := so_api_key (WithEnvAPIKey (re_getenv en) opts (mo_provider m))\<rparr>
      else opts)"

definition payload_of :: "run_env \<Rightarrow> wire \<Rightarrow> string + wire" where
  "payload_of en payload =
     (case re_on_payload en of
        None \<Rightarrow> Inr payload
      | Some f \<Rightarrow> map_sum id (\<lambda>next. case next of None \<Rightarrow> payload | Some p \<Rightarrow> p) (f payload))"

definition openai_prepare :: "run_env \<Rightarrow> full_model \<Rightarrow> llm_context \<Rightarrow> openai_options \<Rightarrow> string + http_request" where
  "openai_prepare en m c options =
     (let opts = with_env_key en m options; url = chatCompletionsURL (fm_base_url m) in
      case openai_assertRequestAuth (re_lower en) (mo_provider m) (so_api_key opts) (so_headers opts) of
        Some err \<Rightarrow> Inl err
      | None \<Rightarrow>
          (case payload_of en (WMap (openai_buildParams (re_now en) m c (Some opts))) of
             Inl err \<Rightarrow> Inl err
           | Inr payload \<Rightarrow>
               (case re_bad_request en url of
                  Some err \<Rightarrow> Inl err
                | None \<Rightarrow> Inr \<lparr>rq_url = url,
                    rq_headers = mergeHeaders [[(''accept'', ''application/json''), (''content-type'', ''application/json''),
                      (''authorization'', ''Bearer '' @ so_api_key opts)], fm_headers m, so_headers opts],
                    rq_body = marshal_wire payload\<rparr>)))"

text \<open>What follows a response or its failure, for the providers without structured errors.\<close>

definition handle_response ::
  "run_env \<Rightarrow> assistant_message \<Rightarrow> string \<Rightarrow> (string read_step list option \<Rightarrow> stream_event list option)
     \<Rightarrow> string + http_response \<Rightarrow> stream_event list option" where
  "handle_response en output service body r =
     (let fail = (\<lambda>err. Some [pushError output err (re_parent0 en \<noteq> None)]) in
      case r of
        Inl err \<Rightarrow>
          Some [pushError output (streamError (re_idle_timeout en) (re_parent1 en) err (re_idle en)) (re_parent2 en \<noteq> None)]
      | Inr resp \<Rightarrow>
          (case (case re_on_response en of
              None \<Rightarrow> None | Some f \<Rightarrow> f (hr_status resp) (HeadersToRecord (re_lower en) (hr_headers resp))) of
             Some err \<Rightarrow> fail err
           | None \<Rightarrow>
               if hr_status resp < 200 \<or> hr_status resp \<ge> 300 then
                 fail (service @ '' API error: status='' @ show_int (hr_status resp) @ '' body='' @ trim_space (hr_text resp))
               else body (hr_reads resp)))"

definition openai_runStream :: "run_env \<Rightarrow> full_model \<Rightarrow> llm_context \<Rightarrow> openai_options option \<Rightarrow> stream_event list option" where
  "openai_runStream en m c options =
     (let output = newOutputMessage (core m) (re_now en) in
      case openai_prepare en m c (case options of Some x \<Rightarrow> x | None \<Rightarrow> default_openai_options) of
        Inl err \<Rightarrow> Some [pushError output err (re_parent0 en \<noteq> None)]
      | Inr req \<Rightarrow>
          handle_response en output ''OpenAI''
            (\<lambda>reads. openai_response (core m) (re_decode_error en) (re_idle_timeout en) (re_parent0 en) (re_parent1 en)
               (re_parent2 en) (re_idle en) output (case reads of None \<Rightarrow> [] | Some rs \<Rightarrow> rs))
            (re_send en req))"

definition openai_simple_options :: "full_model \<Rightarrow> llm_context \<Rightarrow> simple_options option \<Rightarrow> openai_options" where
  "openai_simple_options m c opts =
     stream_options.extend (buildBaseOptions m c opts (case opts of Some s \<Rightarrow> so_api_key s | None \<Rightarrow> []))
       \<lparr>oo_tool_choice = None, oo_effort = (case opts of Some s \<Rightarrow> si_reasoning s | None \<Rightarrow> [])\<rparr>"

definition openai_StreamSimple :: "run_env \<Rightarrow> full_model \<Rightarrow> llm_context \<Rightarrow> simple_options option \<Rightarrow> stream_event list option" where
  "openai_StreamSimple en m c opts = openai_runStream en m c (Some (openai_simple_options m c opts))"

section \<open>Every call is answered\<close>

text \<open>Grouping the results makes no difference: every message is converted on its own.\<close>

definition openai_message :: "message \<Rightarrow> wire_map list" where
  "openai_message msg =
     (case asUser msg of
        Some u \<Rightarrow> openai_user u
      | None \<Rightarrow>
          (case asAssistant msg of
             Some a \<Rightarrow> openai_assistant a
           | None \<Rightarrow> (case asToolResult msg of None \<Rightarrow> [] | Some t \<Rightarrow> [openai_toolResultBlock t])))"

lemma openai_results_concat:
  "fst (openai_results ms) @ concat (map openai_message (snd (openai_results ms))) = concat (map openai_message ms)"
proof (induction ms)
  case (Cons msg ms)
  then show ?case by (cases "asToolResult msg") (auto simp: openai_message_def one_kind(3))
qed simp

lemma openai_convert_loop_concat: "openai_convert_loop ms = concat (map openai_message ms)"
proof (induction "length ms" arbitrary: ms rule: less_induct)
  case less
  show ?case
  proof (cases ms)
    case (Cons msg ms')
    have tail: "openai_convert_loop ms' = concat (map openai_message ms')" using less Cons by simp
    have rest: "openai_convert_loop (snd (openai_results ms')) = concat (map openai_message (snd (openai_results ms')))"
      using less [of "snd (openai_results ms')"] openai_results_shorter [of ms'] Cons by simp
    show ?thesis
      using tail rest openai_results_concat [of ms']
      by (auto simp: Cons openai_convert_loop.simps(2) openai_message_def split: option.splits)
  qed simp
qed

definition wire_role :: "wire_map \<Rightarrow> string" where
  "wire_role m = (case map_of m ''role'' of Some (WStr r) \<Rightarrow> r | _ \<Rightarrow> [])"

definition wire_id :: "string \<Rightarrow> wire_map \<Rightarrow> string list" where
  "wire_id key m = (case map_of m key of Some (WStr i) \<Rightarrow> [i] | _ \<Rightarrow> [])"

definition call_ids :: "wire_map \<Rightarrow> string list" where
  "call_ids m =
     (case map_of m ''tool_calls'' of
        Some (WArr vs) \<Rightarrow> concat (map (\<lambda>v. case v of WMap b \<Rightarrow> wire_id ''id'' b | _ \<Rightarrow> []) vs)
      | _ \<Rightarrow> [])"

text \<open>
  What the API demands: the calls of an assistant message are answered by the tool messages that
  follow it, before any other message.
\<close>

fun calls_answered :: "string list \<Rightarrow> string list \<Rightarrow> wire_map list \<Rightarrow> bool" where
  "calls_answered pend got [] \<longleftrightarrow> set pend \<subseteq> set got"
| "calls_answered pend got (m # ms) \<longleftrightarrow>
     (if wire_role m = ''tool'' then calls_answered pend (wire_id ''tool_call_id'' m @ got) ms
      else set pend \<subseteq> set got \<and> calls_answered (call_ids m) [] ms)"

lemma calls_answered_weaken:
  "calls_answered p s ms \<Longrightarrow> set p' \<subseteq> set p \<union> set s' \<Longrightarrow> set s \<subseteq> set s' \<Longrightarrow> calls_answered p' s' ms"
proof (induction p s ms arbitrary: p' s' rule: calls_answered.induct)
  case (2 pend got m ms)
  show ?case
  proof (cases "wire_role m = ''tool''")
    case True
    with 2(3) have "calls_answered pend (wire_id ''tool_call_id'' m @ got) ms" by simp
    from 2(1) [OF True this, of p' "wire_id ''tool_call_id'' m @ s'"] 2(4,5) True show ?thesis by auto
  next
    case False
    with 2(3-5) show ?thesis by auto
  qed
qed auto

lemma openai_wire_ids [simp]:
  "wire_role (openai_toolResultBlock t) = ''tool''" "wire_id ''tool_call_id'' (openai_toolResultBlock t) = [tr_tool_call_id t]"
  by (simp_all add: openai_toolResultBlock_def wire_role_def wire_id_def)

lemma openai_user_messages: "openai_user u = [] \<or> (\<exists>v. openai_user u = [[(''role'', WStr ''user''), (''content'', v)]] \<and> v \<noteq> WArr [])"
  by (auto simp: openai_user_def Let_def split: option.splits)

lemma openai_assistant_messages:
  "openai_assistant a = [] \<and> map cb_id (tool_calls_of a) = [] \<or>
   (\<exists>m. openai_assistant a = [m] \<and> wire_role m = ''assistant'' \<and> call_ids m = map cb_id (tool_calls_of a) \<and>
      (call_ids m \<noteq> [] \<or> (\<exists>s. map_of m ''content'' = Some (WStr s) \<and> s \<noteq> [])))"
proof -
  let ?calls = "map openai_wire_call (tool_calls_of a)"
  have ids: "concat (map (\<lambda>v. case v of WMap b \<Rightarrow> wire_id ''id'' b | _ \<Rightarrow> []) (map openai_wire_call bs)) = map cb_id bs" for bs
    by (induction bs) (simp_all add: openai_wire_call_def wire_id_def)
  show ?thesis
    using ids [of "tool_calls_of a"]
    by (auto simp: openai_assistant_def wire_role_def call_ids_def Let_def tool_calls_of_def [symmetric])
qed

lemma openai_convert_answered:
  "answered pend got ms \<Longrightarrow> calls_answered pend got (concat (map openai_message ms))"
proof (induction ms arbitrary: pend got)
  case (Cons msg ms)
  let ?rest = "concat (map openai_message ms)"
  have quiet: "calls_answered pend got ?rest" if "set pend \<subseteq> set got" "answered [] [] ms"
    using calls_answered_weaken [OF Cons.IH [OF that(2)], of pend got] that(1) by auto
  consider (user) u where "asUser msg = Some u" | (assistant) a where "asUser msg = None" "asAssistant msg = Some a"
    | (result) t where "asUser msg = None" "asAssistant msg = None" "asToolResult msg = Some t"
    | (other) "asUser msg = None" "asAssistant msg = None" "asToolResult msg = None"
    by (cases "asUser msg"; cases "asAssistant msg"; cases "asToolResult msg") auto
  then show ?case
  proof cases
    case user
    with Cons.prems have p: "set pend \<subseteq> set got" "answered [] [] ms" by (auto simp: answered_after_user simp del: answered.simps(2))
    have m: "openai_message msg = openai_user u" using user by (simp add: openai_message_def)
    from openai_user_messages [of u] quiet [OF p] p(1) Cons.IH [OF p(2)] show ?thesis
      by (auto simp: m wire_role_def call_ids_def)
  next
    case assistant
    with Cons.prems have p: "set pend \<subseteq> set got" "answered (map cb_id (tool_calls_of a)) [] ms"
      by (auto simp: answered_after_assistant simp del: answered.simps(2))
    have m: "openai_message msg = openai_assistant a" using assistant by (simp add: openai_message_def)
    consider (none) "openai_assistant a = []" "map cb_id (tool_calls_of a) = []"
      | (one) x where "openai_assistant a = [x]" "wire_role x = ''assistant''" "call_ids x = map cb_id (tool_calls_of a)"
      using openai_assistant_messages [of a] by blast
    then show ?thesis
    proof cases
      case none
      with p(2) have "answered [] [] ms" by simp
      from quiet [OF p(1) this] none show ?thesis by (simp add: m)
    next
      case one
      with p Cons.IH [OF p(2)] show ?thesis by (simp add: m)
    qed
  next
    case result
    with Cons.prems have "answered pend (tr_tool_call_id t # got) ms" by (simp add: answered_after_result del: answered.simps(2))
    moreover have "openai_message msg = [openai_toolResultBlock t]" using result by (simp add: openai_message_def)
    ultimately show ?thesis using Cons.IH [of pend "tr_tool_call_id t # got"] by simp
  next
    case other
    then have "answered pend got (msg # ms) \<Longrightarrow> answered pend got ms \<or> set pend \<subseteq> set got \<and> answered [] [] ms"
      by (cases msg) (auto split: option.splits)
    moreover have "openai_message msg = []" using other by (simp add: openai_message_def)
    ultimately show ?thesis using Cons.prems Cons.IH quiet by (auto simp del: answered.simps(2))
  qed
qed simp

definition openai_filled :: "wire_map \<Rightarrow> bool" where
  "openai_filled m \<longleftrightarrow>
     (wire_role m = ''user'' \<longrightarrow> map_of m ''content'' \<noteq> Some (WArr [])) \<and>
     (wire_role m = ''assistant'' \<longrightarrow> call_ids m \<noteq> [] \<or> map_of m ''content'' \<noteq> Some (WStr []))"

lemma openai_message_filled: "\<forall>m \<in> set (openai_message msg). openai_filled m"
proof -
  have u: "\<forall>m \<in> set (openai_user u). openai_filled m" for u
    using openai_user_messages [of u] by (auto simp: openai_filled_def wire_role_def)
  have a: "\<forall>m \<in> set (openai_assistant a). openai_filled m" for a
    using openai_assistant_messages [of a] by (auto simp: openai_filled_def)
  show ?thesis
    using u a by (auto simp: openai_message_def openai_filled_def split: option.splits)
qed

lemma openai_messages_ok:
  "calls_answered [] [] (openai_convertMessages now m c) \<and> list_all openai_filled (openai_convertMessages now m c)"
proof -
  let ?ms = "TransformMessages now (lc_messages c) m (Some (\<lambda>i _ _. i))"
  have "answered [] [] ?ms"
    using second_pass_answered [of "[]" "[]"] by (simp add: TransformMessages_def)
  from openai_convert_answered [OF this] openai_message_filled show ?thesis
    by (auto simp: openai_convertMessages_def openai_convert_loop_concat wire_role_def call_ids_def openai_filled_def list_all_iff)
qed


section \<open>What is sent\<close>

text \<open>An OpenAI request is sent only with a key, given or from the environment, or an authorization
  header; a key given by the caller is not replaced; and without a payload callback its body is the
  parameters, whose messages have every call answered.
\<close>

lemma openai_request_safe:
  assumes "openai_prepare en m c opts = Inr req" and "re_on_payload en = None"
  shows "(so_api_key opts \<noteq> [] \<or> getEnvAPIKey (re_getenv en) (mo_provider m) \<noteq> [] \<or>
      hasHeader (re_lower en) (so_headers opts) ''authorization'') \<and>
    (trim_space (so_api_key opts) \<noteq> [] \<longrightarrow> so_api_key (with_env_key en m opts) = so_api_key opts) \<and>
    (\<exists>params messages. rq_body req = marshal_wire (WMap params) \<and>
       map_of params ''messages'' = Some (WArr (map WMap messages)) \<and> calls_answered [] [] messages)"
proof -
  let ?opts = "with_env_key en m opts"
  let ?params = "openai_buildParams (re_now en) m c (Some ?opts)"
  from assms have auth: "openai_assertRequestAuth (re_lower en) (mo_provider m) (so_api_key ?opts) (so_headers ?opts) = None"
    and body: "rq_body req = marshal_wire (WMap ?params)"
    by (auto simp: openai_prepare_def payload_of_def Let_def simp del: marshal_wire.simps split: option.splits sum.splits)
  have "so_headers ?opts = so_headers opts" by (simp add: with_env_key_def)
  with auth have "so_api_key opts \<noteq> [] \<or> getEnvAPIKey (re_getenv en) (mo_provider m) \<noteq> [] \<or>
      hasHeader (re_lower en) (so_headers opts) ''authorization''"
    by (auto simp: openai_assertRequestAuth_def with_env_key_def WithEnvAPIKey_key split: if_splits)
  moreover have "trim_space (so_api_key opts) \<noteq> [] \<longrightarrow> so_api_key ?opts = so_api_key opts"
    by (simp add: with_env_key_def)
  moreover have "map_of ?params ''messages'' = Some (WArr (map WMap (openai_convertMessages (re_now en) (core m) c)))"
    by (simp add: openai_buildParams_def Let_def)
  ultimately show ?thesis using body openai_messages_ok by blast
qed

definition example_openai_options :: openai_options where
  "example_openai_options = default_openai_options\<lparr>so_api_key := ''k''\<rparr>"

lemma example_openai_prepared:
  "isl (openai_prepare example_env example_full_model example_context example_openai_options) = False"
  by code_simp

lemma openai_request_safe_witness:
  "\<exists>req. openai_prepare example_env example_full_model example_context example_openai_options = Inr req \<and>
    (so_api_key example_openai_options \<noteq> [] \<or> getEnvAPIKey (re_getenv example_env) (mo_provider example_full_model) \<noteq> [] \<or>
      hasHeader (re_lower example_env) (so_headers example_openai_options) ''authorization'') \<and>
    (\<exists>params messages. rq_body req = marshal_wire (WMap params) \<and>
       map_of params ''messages'' = Some (WArr (map WMap messages)) \<and> calls_answered [] [] messages)"
proof -
  obtain req where r: "openai_prepare example_env example_full_model example_context example_openai_options = Inr req"
    using example_openai_prepared
    by (cases "openai_prepare example_env example_full_model example_context example_openai_options") auto
  from openai_request_safe [OF r] r show ?thesis by (simp add: example_env_def)
qed

text \<open>Whatever happens, the events end with one terminal event, once the body ends.\<close>

definition ends_once :: "stream_event list option \<Rightarrow> bool" where
  "ends_once r \<longleftrightarrow> (\<exists>pre e. r = Some (pre @ [e]) \<and> is_terminal e \<and> list_all (\<lambda>x. \<not> is_terminal x) pre)"

lemma ends_once_error: "ends_once (Some [pushError out err aborted])"
  unfolding ends_once_def
  by (intro exI [of _ "[]"] exI [of _ "pushError out err aborted"]) (simp add: pushError_def is_terminal_def event_def Let_def)

lemma ends_once_streamed: "well_streamed final s evs \<Longrightarrow> ev_type s = EvStart \<Longrightarrow> ends_once (Some evs)"
  unfolding ends_once_def by (drule (1) well_streamed_ends) auto

lemma handle_response_ends:
  assumes "\<And>resp. r = Inr resp \<Longrightarrow> ends_once (body (hr_reads resp))"
  shows "ends_once (handle_response en output service body r)"
  using assms by (auto simp: handle_response_def Let_def ends_once_error split: sum.splits option.splits)

lemma openai_runStream_ends:
  assumes "\<And>req resp. re_send en req = Inr resp \<Longrightarrow> \<exists>reads. hr_reads resp = Some reads \<and> list_ex read_ends reads"
  shows "ends_once (openai_runStream en m c options)"
proof -
  let ?output = "newOutputMessage (core m) (re_now en)"
  have body: "ends_once (openai_response (core m) (re_decode_error en) (re_idle_timeout en) (re_parent0 en) (re_parent1 en)
      (re_parent2 en) (re_idle en) ?output (case hr_reads resp of None \<Rightarrow> [] | Some rs \<Rightarrow> rs))"
    if "re_send en req = Inr resp" for req resp
  proof -
    from assms [OF that] obtain reads where r: "hr_reads resp = Some reads" "list_ex read_ends reads" by blast
    have "am_content ?output = []" by (simp add: newOutputMessage_def empty_assistant_def)
    from openai_response_described [OF r(2) this] obtain evs where
      "openai_response (core m) (re_decode_error en) (re_idle_timeout en) (re_parent0 en) (re_parent1 en)
        (re_parent2 en) (re_idle en) ?output reads = Some evs"
      "well_streamed finalJSONRaw ((event EvStart)\<lparr>ev_partial := Some ?output\<rparr>) evs" by blast
    with ends_once_streamed r(1) show ?thesis by (simp add: event_def)
  qed
  show ?thesis
    by (auto simp: openai_runStream_def Let_def ends_once_error intro!: handle_response_ends body split: sum.splits)
qed

section \<open>Limits of the code\<close>

text \<open>A key of blanks, which counts as none when a key is looked up, passes as authentication.\<close>

lemma blank_key_sent:
  "\<not> isl (openai_prepare example_env example_full_model example_context (example_openai_options\<lparr>so_api_key := '' ''\<rparr>))"
  by code_simp

text \<open>
  With another spelling of the header both spellings are kept, and a client that canonicalises
  names keeps the one set last, in the order of a map.
\<close>

lemma two_authorizations:
  "map fst (mergeHeaders [[(''authorization'', ''Bearer '')], [(''Authorization'', ''Bearer t'')]])
     = [''authorization'', ''Authorization'']"
  by code_simp

text \<open>A message with nothing but a stored document is left out without an error.\<close>

lemma document_dropped:
  "cb_type b = BlockDocumentRef \<or> cb_type b = BlockImageRef \<Longrightarrow>
   openai_user \<lparr>um_content = \<lparr>uc_text = [], uc_blocks = Some [b]\<rparr>, um_timestamp = t\<rparr> = []"
  by (auto simp: openai_user_def openai_user_part_def)

end
