(* ===== verification/Google_Events.thy ===== *)
theory Google_Events
  imports OpenAI_Request
begin

text \<open>
  \<open>internal/provider/google/events.go\<close>: the chunks of a Gemini stream, their decoding and their
  folding into one assistant message, and the proof that its events describe its message.
  \<open>firstNonEmptyStr\<close> is a textual copy of the function of package \<open>openai\<close>.  The process-wide counter
  of tool call identifiers is an argument, \<open>counter\<close>: the number its \<open>n\<close>-th use by this response gives.
\<close>

section \<open>Chunks\<close>

record google_call =
  gf_id :: string
  gf_name :: string
  gf_args :: "schema option"

record google_part =
  gp_text :: string
  gp_thought :: bool
  gp_signature :: string
  gp_call :: "google_call option"

record google_content =
  gn_parts :: "google_part list"

record google_candidate =
  gc_content :: "google_content option"
  gc_finish :: string

record google_usage =
  gu_prompt :: int
  gu_candidates :: int
  gu_thoughts :: int
  gu_cached :: int
  gu_total :: int

record google_chunk =
  gk_response_id :: string
  gk_candidates :: "google_candidate list"
  gk_usage :: "google_usage option"

definition set_google_call :: "string \<Rightarrow> google_call \<Rightarrow> google_call option" where
  "set_google_call = set_struct [''id'', ''name'', ''args'']
     (\<lambda>f raw x.
       if f = ''id'' then map_option (\<lambda>v. x\<lparr>gf_id := v\<rparr>) (set_str raw (gf_id x))
       else if f = ''name'' then map_option (\<lambda>v. x\<lparr>gf_name := v\<rparr>) (set_str raw (gf_name x))
       else map_option (\<lambda>v. x\<lparr>gf_args := v\<rparr>) (set_any_map raw (gf_args x)))"

definition set_google_part :: "string \<Rightarrow> google_part \<Rightarrow> google_part option" where
  "set_google_part = set_struct [''text'', ''thought'', ''thoughtSignature'', ''functionCall'']
     (\<lambda>f raw x.
       if f = ''text'' then map_option (\<lambda>v. x\<lparr>gp_text := v\<rparr>) (set_str raw (gp_text x))
       else if f = ''thought'' then map_option (\<lambda>v. x\<lparr>gp_thought := v\<rparr>) (set_bool raw (gp_thought x))
       else if f = ''thoughtSignature'' then map_option (\<lambda>v. x\<lparr>gp_signature := v\<rparr>) (set_str raw (gp_signature x))
       else map_option (\<lambda>v. x\<lparr>gp_call := v\<rparr>)
         (set_pointer set_google_call \<lparr>gf_id = [], gf_name = [], gf_args = None\<rparr> raw (gp_call x)))"

definition empty_part :: google_part where
  "empty_part = \<lparr>gp_text = [], gp_thought = False, gp_signature = [], gp_call = None\<rparr>"

definition set_google_content :: "string \<Rightarrow> google_content \<Rightarrow> google_content option" where
  "set_google_content = set_struct [''parts'']
     (\<lambda>f raw x. map_option (\<lambda>v. x\<lparr>gn_parts := v\<rparr>) (set_slice set_google_part empty_part raw (gn_parts x)))"

definition set_google_candidate :: "string \<Rightarrow> google_candidate \<Rightarrow> google_candidate option" where
  "set_google_candidate = set_struct [''content'', ''finishReason'']
     (\<lambda>f raw x.
       if f = ''content'' then map_option (\<lambda>v. x\<lparr>gc_content := v\<rparr>)
         (set_pointer set_google_content \<lparr>gn_parts = []\<rparr> raw (gc_content x))
       else map_option (\<lambda>v. x\<lparr>gc_finish := v\<rparr>) (set_str raw (gc_finish x)))"

definition set_google_usage :: "string \<Rightarrow> google_usage \<Rightarrow> google_usage option" where
  "set_google_usage = set_struct [''promptTokenCount'', ''candidatesTokenCount'', ''thoughtsTokenCount'',
       ''cachedContentTokenCount'', ''totalTokenCount'']
     (\<lambda>f raw x.
       if f = ''promptTokenCount'' then map_option (\<lambda>v. x\<lparr>gu_prompt := v\<rparr>) (set_int raw (gu_prompt x))
       else if f = ''candidatesTokenCount'' then map_option (\<lambda>v. x\<lparr>gu_candidates := v\<rparr>) (set_int raw (gu_candidates x))
       else if f = ''thoughtsTokenCount'' then map_option (\<lambda>v. x\<lparr>gu_thoughts := v\<rparr>) (set_int raw (gu_thoughts x))
       else if f = ''cachedContentTokenCount'' then map_option (\<lambda>v. x\<lparr>gu_cached := v\<rparr>) (set_int raw (gu_cached x))
       else map_option (\<lambda>v. x\<lparr>gu_total := v\<rparr>) (set_int raw (gu_total x)))"

definition set_google_chunk :: "string \<Rightarrow> google_chunk \<Rightarrow> google_chunk option" where
  "set_google_chunk = set_struct [''responseId'', ''candidates'', ''usageMetadata'']
     (\<lambda>f raw x.
       if f = ''responseId'' then map_option (\<lambda>v. x\<lparr>gk_response_id := v\<rparr>) (set_str raw (gk_response_id x))
       else if f = ''candidates'' then map_option (\<lambda>v. x\<lparr>gk_candidates := v\<rparr>)
         (set_slice set_google_candidate \<lparr>gc_content = None, gc_finish = []\<rparr> raw (gk_candidates x))
       else map_option (\<lambda>v. x\<lparr>gk_usage := v\<rparr>)
         (set_pointer set_google_usage \<lparr>gu_prompt = 0, gu_candidates = 0, gu_thoughts = 0, gu_cached = 0, gu_total = 0\<rparr>
           raw (gk_usage x)))"

definition unmarshal_google_chunk :: "string \<Rightarrow> unit + google_chunk" where
  "unmarshal_google_chunk text =
     (case set_google_chunk text \<lparr>gk_response_id = [], gk_candidates = [], gk_usage = None\<rparr> of
        None \<Rightarrow> Inl () | Some c \<Rightarrow> Inr c)"

section \<open>Folding\<close>

text \<open>
  The current block is its kind and its position; \<open>gs_drawn\<close> is how often the counter was used.
  The fields \<open>Blocks\<close> and \<open>ToolCallName\<close> of the code are never used.
\<close>

record google_fold_state =
  gs_output :: assistant_message
  gs_current :: "(block_type \<times> nat) option"
  gs_ids :: "string list"
  gs_drawn :: nat

abbreviation gs_content :: "google_fold_state \<Rightarrow> content_block list" where
  "gs_content st \<equiv> am_content (gs_output st)"

definition put_content :: "content_block list \<Rightarrow> google_fold_state \<Rightarrow> google_fold_state" where
  "put_content bs st = st\<lparr>gs_output := (gs_output st)\<lparr>am_content := bs\<rparr>\<rparr>"

definition gev :: "ev_type \<Rightarrow> nat \<Rightarrow> google_fold_state \<Rightarrow> stream_event" where
  "gev t i st = (event t)\<lparr>ev_index := i, ev_partial := Some (gs_output st)\<rparr>"

definition foldGoogleThinkingText :: "google_part \<Rightarrow> google_fold_state \<Rightarrow> google_fold_state \<times> stream_event list" where
  "foldGoogleThinkingText part st =
     (case gs_current st of
        Some (BlockThinking, i) \<Rightarrow>
          (let b = gs_content st ! i;
               st' = put_content ((gs_content st)[i := b\<lparr>cb_thinking := cb_thinking b @ gp_text part\<rparr>]) st
           in (st', [(gev EvThinkingDelta i st')\<lparr>ev_delta := gp_text part\<rparr>]))
      | _ \<Rightarrow>
          (let i = length (gs_content st);
               st' = (put_content (gs_content st @
                 [(empty_block BlockThinking)\<lparr>cb_thinking := gp_text part, cb_thinking_signature := gp_signature part\<rparr>]) st)
                 \<lparr>gs_current := Some (BlockThinking, i)\<rparr>
           in (st', [gev EvThinkingStart i st', (gev EvThinkingDelta i st')\<lparr>ev_delta := gp_text part\<rparr>])))"

definition foldGoogleTextPart :: "google_part \<Rightarrow> google_fold_state \<Rightarrow> google_fold_state \<times> stream_event list" where
  "foldGoogleTextPart part st =
     (if gp_thought part then foldGoogleThinkingText part st
      else case gs_current st of
        Some (BlockText, i) \<Rightarrow>
          (let b = gs_content st ! i;
               st' = put_content ((gs_content st)[i := b\<lparr>cb_text := cb_text b @ gp_text part\<rparr>]) st
           in (st', [(gev EvTextDelta i st')\<lparr>ev_delta := gp_text part\<rparr>]))
      | _ \<Rightarrow>
          (let i = length (gs_content st);
               st' = (put_content (gs_content st @ [(empty_block BlockText)\<lparr>cb_text := gp_text part\<rparr>]) st)
                 \<lparr>gs_current := Some (BlockText, i)\<rparr>
           in (st', [gev EvTextStart i st', (gev EvTextDelta i st')\<lparr>ev_delta := gp_text part\<rparr>])))"

definition foldGoogleFuncCall ::
  "(nat \<Rightarrow> int) \<Rightarrow> google_part \<Rightarrow> google_call \<Rightarrow> google_fold_state \<Rightarrow> google_fold_state \<times> stream_event list" where
  "foldGoogleFuncCall counter part fc st =
     (let needs_new = gf_id fc = [] \<or> gf_id fc \<in> set (gs_ids st);
          call_id = (if needs_new then gf_name fc @ ''_'' @ show_int (counter (gs_drawn st)) else gf_id fc);
          args = (case gf_args fc of None \<Rightarrow> ''{}'' | Some ms \<Rightarrow> marshal_value (AObj ms));
          i = length (gs_content st);
          b = (empty_block BlockToolCall)\<lparr>cb_id := call_id, cb_name := gf_name fc, cb_arguments := args,
            cb_thought_signature := gp_signature part\<rparr>;
          st' = (put_content (gs_content st @ [b]) st)\<lparr>gs_current := None, gs_ids := call_id # gs_ids st,
            gs_drawn := (if needs_new then Suc (gs_drawn st) else gs_drawn st)\<rparr>
      in (st', [(gev EvToolCallStart i st')\<lparr>ev_tool_call := Some b\<rparr>, (gev EvToolCallDelta i st')\<lparr>ev_delta := args\<rparr>,
            (gev EvToolCallEnd i st')\<lparr>ev_tool_call := Some b\<rparr>]))"

definition fold_part :: "(nat \<Rightarrow> int) \<Rightarrow> google_part \<Rightarrow> google_fold_state \<Rightarrow> google_fold_state \<times> stream_event list" where
  "fold_part counter part st =
     (case gp_call part of
        Some fc \<Rightarrow> foldGoogleFuncCall counter part fc st
      | None \<Rightarrow> if gp_text part \<noteq> [] then foldGoogleTextPart part st else (st, []))"

fun fold_parts :: "(nat \<Rightarrow> int) \<Rightarrow> google_part list \<Rightarrow> google_fold_state \<Rightarrow> google_fold_state \<times> stream_event list" where
  "fold_parts counter [] st = (st, [])"
| "fold_parts counter (part # parts) st =
     (let (st1, evs1) = fold_part counter part st; (st2, evs2) = fold_parts counter parts st1 in (st2, evs1 @ evs2))"

definition google_mapStopReason :: "string \<Rightarrow> stop_reason" where
  "google_mapStopReason reason =
     (if reason = ''STOP'' then StopStop else if reason = ''MAX_TOKENS'' then StopLength else StopError)"

definition hasToolCalls :: "assistant_message \<Rightarrow> bool" where
  "hasToolCalls out \<longleftrightarrow> list_ex (\<lambda>b. cb_type b = BlockToolCall) (am_content out)"

definition finish_candidate :: "string \<Rightarrow> google_fold_state \<Rightarrow> google_fold_state" where
  "finish_candidate reason st =
     (if reason \<noteq> [] then
        st\<lparr>gs_output := (gs_output st)\<lparr>am_stop_reason :=
          (if hasToolCalls (gs_output st) then StopToolUse else google_mapStopReason reason)\<rparr>\<rparr>
      else st)"

fun fold_candidates ::
  "(nat \<Rightarrow> int) \<Rightarrow> google_candidate list \<Rightarrow> google_fold_state \<Rightarrow> google_fold_state \<times> stream_event list" where
  "fold_candidates counter [] st = (st, [])"
| "fold_candidates counter (c # cs) st =
     (case gc_content c of
        None \<Rightarrow> fold_candidates counter cs st
      | Some content \<Rightarrow>
          (let (st1, evs1) = fold_parts counter (gn_parts content) st;
               (st2, evs2) = fold_candidates counter cs (finish_candidate (gc_finish c) st1)
           in (st2, evs1 @ evs2)))"

definition applyGoogleUsage :: "assistant_message \<Rightarrow> google_usage \<Rightarrow> assistant_message" where
  "applyGoogleUsage out u =
     out\<lparr>am_usage := \<lparr>u_input = wrap64 (gu_prompt u - gu_cached u), u_output = wrap64 (gu_candidates u + gu_thoughts u),
        u_cache_read = gu_cached u, u_cache_write = 0, u_cache_write_1h = None,
        u_reasoning = (if gu_thoughts u > 0 then Some (gu_thoughts u) else None), u_total_tokens = gu_total u\<rparr>\<rparr>"

definition google_head :: "google_chunk \<Rightarrow> assistant_message \<Rightarrow> assistant_message" where
  "google_head c out =
     (let out1 = out\<lparr>am_response_id := firstNonEmptyStr [am_response_id out, gk_response_id c]\<rparr>
      in case gk_usage c of None \<Rightarrow> out1 | Some u \<Rightarrow> applyGoogleUsage out1 u)"

definition foldGoogleChunk ::
  "(nat \<Rightarrow> int) \<Rightarrow> google_chunk \<Rightarrow> google_fold_state \<Rightarrow> google_fold_state \<times> (string + stream_event list)" where
  "foldGoogleChunk counter c st =
     apsnd Inr (fold_candidates counter (gk_candidates c) (st\<lparr>gs_output := google_head c (gs_output st)\<rparr>))"

definition google_end :: "google_fold_state \<Rightarrow> nat \<Rightarrow> stream_event list" where
  "google_end st i =
     (let b = gs_content st ! i in
      case cb_type b of
        BlockText \<Rightarrow> [(gev EvTextEnd i st)\<lparr>ev_content := cb_text b\<rparr>]
      | BlockThinking \<Rightarrow> [(gev EvThinkingEnd i st)\<lparr>ev_content := cb_thinking b\<rparr>]
      | _ \<Rightarrow> [])"

definition foldGoogleFinalizeBlocks :: "google_fold_state \<Rightarrow> google_fold_state \<times> stream_event list" where
  "foldGoogleFinalizeBlocks st = (st\<lparr>gs_current := None\<rparr>, concat (map (google_end st) [0 ..< length (gs_content st)]))"

text \<open>The callback over the number of events seen and the caller's state.\<close>

definition google_frame ::
  "(string \<Rightarrow> string) \<Rightarrow> ('w \<Rightarrow> google_chunk \<Rightarrow> 'w \<times> string option) \<Rightarrow> nat \<times> 'w \<Rightarrow> sse_event \<Rightarrow> (nat \<times> 'w) \<times> string option" where
  "google_frame decode_error fn nw ev =
     (let n = Suc (fst nw); w = snd nw; data = trim_space (sse_data ev) in
      if data = [] then ((n, w), None)
      else case ParseJsonWithRepair unmarshal_google_chunk data of
        Inl _ \<Rightarrow> ((n, w), Some (''could not parse Gemini SSE chunk: '' @ decode_error data @ ''; data='' @ data))
      | Inr c \<Rightarrow> apfst (Pair n) (fn w c))"

end
