(* ===== verification/Google_Stream.thy ===== *)
theory Google_Stream
  imports Google_Events
begin

text \<open>
  \<open>internal/provider/google/stream.go\<close> from the response on, and the proof that its events describe
  its message: a tool call comes whole, so its arguments are the text of its one delta.
\<close>

section \<open>The fold keeps the description\<close>

definition google_good :: "google_fold_state \<Rightarrow> stream_event list \<Rightarrow> bool" where
  "google_good st evs \<longleftrightarrow>
     describes (\<lambda>s. s) (gs_content st) evs \<and>
     (\<forall>t i. gs_current st = Some (t, i) \<longrightarrow> i < length (gs_content st) \<and> cb_type (gs_content st ! i) = t)"

text \<open>What one step of the fold keeps.\<close>

definition google_step :: "stream_event list \<Rightarrow> google_fold_state \<times> stream_event list \<Rightarrow> bool" where
  "google_step evs r \<longleftrightarrow> google_good (fst r) (evs @ snd r) \<and> (\<forall>e \<in> set (snd r). ev_type e \<noteq> EvStart)"

lemma google_step_none [simp]: "google_step evs (st, []) \<longleftrightarrow> google_good st evs"
  by (simp add: google_step_def)

lemma google_step_trans:
  "google_step evs (st1, evs1) \<Longrightarrow> google_step (evs @ evs1) (st2, evs2) \<Longrightarrow> google_step evs (st2, evs1 @ evs2)"
  by (auto simp: google_step_def)

lemma gev_simps [simp]:
  "ev_type (gev t i st) = t" "ev_index (gev t i st) = i" "ev_delta (gev t i st) = []"
  by (simp_all add: gev_def event_def)

lemma put_content_simps [simp]:
  "am_content (gs_output (put_content bs st)) = bs" "gs_current (put_content bs st) = gs_current st"
  by (simp_all add: put_content_def)

lemma google_at:
  assumes "google_good st evs" "i < length (gs_content st)" "cb_type b = cb_type (gs_content st ! i)"
    and "gs_content st' = (gs_content st)[i := b]" "gs_current st' = gs_current st"
    and "\<forall>e \<in> set evs'. ev_index e = i \<and> \<not> is_terminal e \<and> ev_type e \<noteq> EvStart"
    and "described (\<lambda>s. s) (evs @ evs') i b"
  shows "google_step evs (st', evs')"
proof -
  have "describes (\<lambda>s. s) (gs_content st') (evs @ evs')"
    unfolding assms(4) using assms(1,2,6,7) by (intro describes_at) (auto simp: google_good_def)
  then show ?thesis
    using assms(1-6) by (auto simp: google_step_def google_good_def nth_list_update)
qed

lemma google_add:
  assumes "google_good st evs" "gs_content st' = gs_content st @ [b]"
    and "gs_current st' = None \<or> gs_current st' = Some (cb_type b, length (gs_content st))"
    and "\<forall>e \<in> set evs'. ev_index e = length (gs_content st) \<and> \<not> is_terminal e \<and> ev_type e \<noteq> EvStart"
    and "described (\<lambda>s. s) evs' (length (gs_content st)) b"
  shows "google_step evs (st', evs')"
proof -
  have "describes (\<lambda>s. s) (gs_content st') (evs @ evs')"
    unfolding assms(2) using assms(1,4,5) by (intro describes_add) (auto simp: google_good_def)
  then show ?thesis
    using assms(2-4) by (auto simp: google_step_def google_good_def nth_append)
qed

lemma google_described:
  "google_good st evs \<Longrightarrow> gs_current st = Some (t, i) \<Longrightarrow>
   i < length (gs_content st) \<and> cb_type (gs_content st ! i) = t \<and> described (\<lambda>s. s) evs i (gs_content st ! i)"
  by (simp add: google_good_def describes_def)

lemma google_thinking: "google_good st evs \<Longrightarrow> google_step evs (foldGoogleThinkingText part st)"
proof (cases "\<exists>i. gs_current st = Some (BlockThinking, i)")
  case True
  assume good: "google_good st evs"
  from True obtain i where c: "gs_current st = Some (BlockThinking, i)" by blast
  let ?b = "gs_content st ! i"
  show ?thesis
    using google_described [OF good c]
    by (auto simp: foldGoogleThinkingText_def c Let_def described_def redacted_text_def deltas_append deltas_Cons is_terminal_def
        intro!: google_at [OF good, where i = i and b = "?b\<lparr>cb_thinking := cb_thinking ?b @ gp_text part\<rparr>"])
next
  case False
  assume good: "google_good st evs"
  let ?i = "length (gs_content st)"
  let ?b = "(empty_block BlockThinking)\<lparr>cb_thinking := gp_text part, cb_thinking_signature := gp_signature part\<rparr>"
  let ?st = "(put_content (gs_content st @ [?b]) st)\<lparr>gs_current := Some (BlockThinking, ?i)\<rparr>"
  have "foldGoogleThinkingText part st = (?st, [gev EvThinkingStart ?i ?st, (gev EvThinkingDelta ?i ?st)\<lparr>ev_delta := gp_text part\<rparr>])"
    using False by (auto simp: foldGoogleThinkingText_def Let_def split: option.splits prod.splits block_type.splits)
  moreover have "google_step evs (?st, [gev EvThinkingStart ?i ?st, (gev EvThinkingDelta ?i ?st)\<lparr>ev_delta := gp_text part\<rparr>])"
    by (rule google_add [OF good, where b = ?b])
      (simp_all add: described_def redacted_text_def empty_block_def deltas_Cons is_terminal_def)
  ultimately show ?thesis by (simp only:)
qed

lemma google_words: "google_good st evs \<Longrightarrow> google_step evs (foldGoogleTextPart part st)"
proof (cases "gp_thought part")
  case True
  assume "google_good st evs"
  with google_thinking True show ?thesis by (simp add: foldGoogleTextPart_def)
next
  case words: False
  assume good: "google_good st evs"
  show ?thesis
  proof (cases "\<exists>i. gs_current st = Some (BlockText, i)")
    case True
    then obtain i where c: "gs_current st = Some (BlockText, i)" by blast
    let ?b = "gs_content st ! i"
    show ?thesis
      using google_described [OF good c] words
      by (auto simp: foldGoogleTextPart_def c Let_def described_def deltas_append deltas_Cons is_terminal_def
          intro!: google_at [OF good, where i = i and b = "?b\<lparr>cb_text := cb_text ?b @ gp_text part\<rparr>"])
  next
    case False
    let ?i = "length (gs_content st)" and ?b = "(empty_block BlockText)\<lparr>cb_text := gp_text part\<rparr>"
    let ?st = "(put_content (gs_content st @ [?b]) st)\<lparr>gs_current := Some (BlockText, ?i)\<rparr>"
    have "foldGoogleTextPart part st = (?st, [gev EvTextStart ?i ?st, (gev EvTextDelta ?i ?st)\<lparr>ev_delta := gp_text part\<rparr>])"
      using False words by (auto simp: foldGoogleTextPart_def Let_def split: option.splits prod.splits block_type.splits)
    moreover have "google_step evs (?st, [gev EvTextStart ?i ?st, (gev EvTextDelta ?i ?st)\<lparr>ev_delta := gp_text part\<rparr>])"
      by (rule google_add [OF good, where b = ?b]) (simp_all add: described_def empty_block_def deltas_Cons is_terminal_def)
    ultimately show ?thesis by (simp only:)
  qed
qed

lemma google_call: "google_good st evs \<Longrightarrow> google_step evs (foldGoogleFuncCall counter part fc st)"
proof -
  assume good: "google_good st evs"
  define args where "args = (case gf_args fc of None \<Rightarrow> ''{}'' | Some ms \<Rightarrow> marshal_value (AObj ms))"
  let ?i = "length (gs_content st)"
  define needs where "needs \<longleftrightarrow> gf_id fc = [] \<or> gf_id fc \<in> set (gs_ids st)"
  define call_id where "call_id = (if needs then gf_name fc @ ''_'' @ show_int (counter (gs_drawn st)) else gf_id fc)"
  define b where "b = (empty_block BlockToolCall)\<lparr>cb_id := call_id, cb_name := gf_name fc, cb_arguments := args,
    cb_thought_signature := gp_signature part\<rparr>"
  define st' where "st' = (put_content (gs_content st @ [b]) st)\<lparr>gs_current := None, gs_ids := call_id # gs_ids st,
    gs_drawn := (if needs then Suc (gs_drawn st) else gs_drawn st)\<rparr>"
  have b: "cb_type b = BlockToolCall" "cb_arguments b = args" by (simp_all add: b_def empty_block_def)
  have st': "gs_content st' = gs_content st @ [b]" "gs_current st' = None" by (simp_all add: st'_def)
  have run: "foldGoogleFuncCall counter part fc st = (st', [(gev EvToolCallStart ?i st')\<lparr>ev_tool_call := Some b\<rparr>,
      (gev EvToolCallDelta ?i st')\<lparr>ev_delta := args\<rparr>, (gev EvToolCallEnd ?i st')\<lparr>ev_tool_call := Some b\<rparr>])"
    by (simp only: foldGoogleFuncCall_def Let_def st'_def b_def args_def call_id_def needs_def)
  show ?thesis
    unfolding run using st' b by (intro google_add [OF good, where b = b]) (simp_all add: described_def deltas_Cons is_terminal_def)
qed

lemma google_part: "google_good st evs \<Longrightarrow> google_step evs (fold_part counter part st)"
  using google_words [of st evs part] google_call [of st evs counter part]
  by (simp add: fold_part_def split: option.splits)

lemma google_parts: "google_good st evs \<Longrightarrow> google_step evs (fold_parts counter parts st)"
proof (induction parts arbitrary: st evs)
  case (Cons part parts)
  obtain st1 evs1 where a: "fold_part counter part st = (st1, evs1)" by (cases "fold_part counter part st")
  obtain st2 evs2 where b: "fold_parts counter parts st1 = (st2, evs2)" by (cases "fold_parts counter parts st1")
  from google_part [OF Cons.prems, of counter part] a have s: "google_step evs (st1, evs1)" by simp
  then have "google_good st1 (evs @ evs1)" by (simp add: google_step_def)
  from google_step_trans [OF s Cons.IH [OF this, unfolded b]] a b show ?case by simp
qed simp

lemma finish_good: "google_good (finish_candidate reason st) evs \<longleftrightarrow> google_good st evs"
  by (simp add: google_good_def finish_candidate_def)

lemma google_candidates: "google_good st evs \<Longrightarrow> google_step evs (fold_candidates counter cs st)"
proof (induction cs arbitrary: st evs)
  case (Cons c cs)
  show ?case
  proof (cases "gc_content c")
    case None
    with Cons show ?thesis by simp
  next
    case (Some content)
    obtain st1 evs1 where a: "fold_parts counter (gn_parts content) st = (st1, evs1)"
      by (cases "fold_parts counter (gn_parts content) st")
    obtain st2 evs2 where b: "fold_candidates counter cs (finish_candidate (gc_finish c) st1) = (st2, evs2)"
      by (cases "fold_candidates counter cs (finish_candidate (gc_finish c) st1)")
    from google_parts [OF Cons.prems, of counter "gn_parts content"] a have s: "google_step evs (st1, evs1)" by simp
    then have "google_good (finish_candidate (gc_finish c) st1) (evs @ evs1)" by (simp add: google_step_def finish_good)
    from google_step_trans [OF s Cons.IH [OF this, unfolded b]] a b Some show ?thesis by simp
  qed
qed simp

lemma google_head_content: "am_content (google_head c out) = am_content out"
  by (simp add: google_head_def applyGoogleUsage_def Let_def split: option.splits)

lemma google_chunk_step:
  assumes "google_good st evs" "foldGoogleChunk counter c st = (st', r)"
  shows "google_step evs (st', pushed_events r)"
proof -
  let ?st = "st\<lparr>gs_output := google_head c (gs_output st)\<rparr>"
  have "google_good ?st evs" using assms(1) by (simp add: google_good_def google_head_content)
  from google_candidates [OF this, of counter "gk_candidates c"] assms(2) show ?thesis
    by (cases "fold_candidates counter (gk_candidates c) ?st") (auto simp: foldGoogleChunk_def pushed_events_def)
qed

lemma chunk_starts_nothing: "foldGoogleChunk counter c st = (st', r) \<Longrightarrow> \<forall>e \<in> set (pushed_events r). ev_type e \<noteq> EvStart"
proof -
  have w: "\<forall>e \<in> set (snd (foldGoogleTextPart part s)). ev_type e \<noteq> EvStart" for part s
    by (simp add: foldGoogleTextPart_def foldGoogleThinkingText_def Let_def split: option.splits prod.splits block_type.splits)
  have p: "\<forall>e \<in> set (snd (fold_part counter part s)). ev_type e \<noteq> EvStart" for part s
    using w by (simp add: fold_part_def foldGoogleFuncCall_def Let_def split: option.splits)
  have ps: "\<forall>e \<in> set (snd (fold_parts counter parts s)). ev_type e \<noteq> EvStart" for parts s
    using p by (induction parts arbitrary: s) (auto simp: case_prod_beta Let_def)
  have cs: "\<forall>e \<in> set (snd (fold_candidates counter cs s)). ev_type e \<noteq> EvStart" for cs s
    using ps by (induction cs arbitrary: s) (auto simp: case_prod_beta Let_def split: option.splits)
  assume "foldGoogleChunk counter c st = (st', r)"
  then have "r = snd (foldGoogleChunk counter c st)" by simp
  with cs show ?thesis by (simp add: foldGoogleChunk_def pushed_events_def apsnd_def map_prod_def case_prod_beta)
qed

interpretation google: stream_fold "foldGoogleChunk counter" "\<lambda>st. am_content (gs_output st)" "\<lambda>s. s" google_good
  for counter
  by unfold_locales (use google_chunk_step in \<open>force simp: google_step_def\<close>,
      use chunk_starts_nothing in blast, simp add: google_good_def)

section \<open>The run from the response on\<close>

definition google_state :: "assistant_message \<Rightarrow> google_fold_state" where
  "google_state output = \<lparr>gs_output = output, gs_current = None, gs_ids = [], gs_drawn = 0\<rparr>"

definition google_finish ::
  "string \<Rightarrow> string option \<Rightarrow> string option \<Rightarrow> bool \<Rightarrow> google_fold_state \<Rightarrow> string option \<Rightarrow> stream_event list" where
  "google_finish idle_timeout parent1 parent2 idle st err =
     (if err \<noteq> None then [final_event idle_timeout parent1 parent2 idle (gs_output st) err]
      else
        (let (st', evs) = foldGoogleFinalizeBlocks st
         in evs @ [final_event idle_timeout parent1 parent2 idle (gs_output st') None]))"

definition google_response ::
  "(nat \<Rightarrow> int) \<Rightarrow> (string \<Rightarrow> string) \<Rightarrow> string \<Rightarrow> string option \<Rightarrow> string option \<Rightarrow> bool \<Rightarrow> assistant_message
     \<Rightarrow> string read_step list \<Rightarrow> stream_event list option" where
  "google_response counter decode_error idle_timeout parent1 parent2 idle output reads =
     (case IterateSSE (google_frame decode_error (push_folded (foldGoogleChunk counter))) reads
          (0, google_state output, [(event EvStart)\<lparr>ev_partial := Some output\<rparr>]) of
        None \<Rightarrow> None
      | Some ((_, st, evs), err) \<Rightarrow> Some (evs @ google_finish idle_timeout parent1 parent2 idle st err))"

lemma google_frame_inv:
  assumes "\<And>w c. P w \<Longrightarrow> P (fst (fn w c))" "P (snd nw)"
  shows "P (snd (fst (google_frame decode_error fn nw ev)))"
  using assms by (auto simp: google_frame_def Let_def apfst_def map_prod_def split: sum.splits prod.splits) (metis fst_conv)

lemma google_end_step:
  assumes "google_good st evs" "i < length (gs_content st)"
  shows "google_step evs (st, google_end st i)"
proof -
  let ?b = "gs_content st ! i"
  have d: "described (\<lambda>s. s) evs i ?b" using assms by (simp add: google_good_def describes_def)
  have "cb_type ?b = BlockText \<or> cb_type ?b = BlockThinking \<or> cb_type ?b = BlockToolCall" by (rule described_kinds [OF d])
  with d assms(2) show ?thesis
    by (intro google_at [OF assms, where b = ?b])
      (auto simp: google_end_def described_def deltas_append deltas_Cons is_terminal_def)
qed

lemma google_ends_step:
  "google_good st evs \<Longrightarrow> \<forall>i \<in> set js. i < length (gs_content st) \<Longrightarrow> google_step evs (st, concat (map (google_end st) js))"
proof (induction js arbitrary: evs)
  case (Cons j js)
  have s: "google_step evs (st, google_end st j)" using Cons.prems by (intro google_end_step) simp_all
  then have "google_good st (evs @ google_end st j)" by (simp add: google_step_def)
  from google_step_trans [OF s Cons.IH [OF this]] Cons.prems(2) show ?case by simp
qed simp

lemma google_finished:
  assumes "started google_good s (st, evs)" "ev_type s = EvStart"
  shows "well_streamed (\<lambda>s. s) s (evs @ google_finish idle_timeout parent1 parent2 idle st err)"
proof -
  have fin: "well_streamed (\<lambda>s. s) s (evs1 @ [final_event idle_timeout parent1 parent2 idle (gs_output st1) x])"
    if st1: "started google_good s (st1, evs1)" for st1 evs1 x
  proof -
    obtain out where out: "final_message (final_event idle_timeout parent1 parent2 idle (gs_output st1) x) = Some out"
        "am_content out = am_content (gs_output st1)"
      using final_event_terminal by blast
    from google.started_well_streamed [OF st1 assms(2) final_event_terminal(1) out(1)] out(2) show ?thesis by simp
  qed
  let ?st = "st\<lparr>gs_current := None\<rparr>" and ?evs = "concat (map (google_end st) [0 ..< length (gs_content st)])"
  from assms(1) obtain pre where pre: "evs = s # pre" "google_good st (s # pre)" "\<forall>e \<in> set pre. ev_type e \<noteq> EvStart"
    by (auto simp: started_def)
  have "google_step (s # pre) (st, ?evs)" using pre(2) by (rule google_ends_step) simp
  with pre have "started google_good s (?st, evs @ ?evs)"
    by (auto simp: started_def google_step_def google_good_def)
  from fin [OF this] fin [OF assms(1)] show ?thesis
    unfolding google_finish_def foldGoogleFinalizeBlocks_def by simp
qed

lemma google_response_described:
  assumes "list_ex read_ends reads" "am_content output = []"
  shows "\<exists>evs. google_response counter decode_error idle_timeout parent1 parent2 idle output reads = Some evs \<and>
    well_streamed (\<lambda>s. s) ((event EvStart)\<lparr>ev_partial := Some output\<rparr>) evs"
proof -
  let ?s = "(event EvStart)\<lparr>ev_partial := Some output\<rparr>"
  let ?fn = "google_frame decode_error (push_folded (foldGoogleChunk counter))"
  obtain nw err where run: "IterateSSE ?fn reads (0, google_state output, [?s]) = Some (nw, err)"
    using IterateSSE_ends [OF assms(1), of ?fn "(0, google_state output, [?s])"] by blast
  obtain n st evs where nw: "nw = (n, st, evs)" by (cases nw)
  have "started google_good ?s (snd nw)"
  proof (rule IterateSSE_inv [where P = "\<lambda>nw. started google_good ?s (snd nw)", OF _ _ run])
    show "started google_good ?s (snd (fst (?fn w ev)))" if "started google_good ?s (snd w)" for w ev
      using google.push_started that by (rule google_frame_inv)
    show "started google_good ?s (snd (0, google_state output, [?s]))"
      using assms(2) describes_start [of ?s "\<lambda>s. s"] by (simp add: started_def google_good_def google_state_def event_def)
  qed
  then have "started google_good ?s (st, evs)" by (simp add: nw)
  from google_finished [OF this] run show ?thesis by (simp add: google_response_def nw event_def)
qed

text \<open>C7: A Gemini response that ends pushes the start event, then non-terminal events that point into
  the final message's content, and exactly one terminal event, the last.  The terminal event carries
  a message whose text and thinking blocks are the concatenated deltas pushed for their index and
  whose tool calls have the very arguments pushed, whether the body is complete, cut, malformed,
  cancelled or idle, and whatever identifiers the counter gives.
\<close>

theorem google_response_describes_message:
  assumes "list_ex read_ends reads"
  shows "\<exists>evs. google_response counter decode_error idle_timeout parent1 parent2 idle (newOutputMessage m now) reads
      = Some evs \<and> well_streamed (\<lambda>s. s) ((event EvStart)\<lparr>ev_partial := Some (newOutputMessage m now)\<rparr>) evs"
  by (rule google_response_described [OF assms]) (simp add: newOutputMessage_def empty_assistant_def)

definition google_example_body :: string where
  "google_example_body =
     ''data: {\"candidates\": [{\"content\": {\"parts\": [{\"text\": \"hi\"}]}, \"finishReason\": \"STOP\"}]}\<newline>\<newline>''"

theorem google_response_describes_message_witness:
  "\<exists>evs. google_response int id ''90s'' None None False (newOutputMessage example_model 0)
      [last_chunk google_example_body] = Some evs \<and>
    well_streamed (\<lambda>s. s) ((event EvStart)\<lparr>ev_partial := Some (newOutputMessage example_model 0)\<rparr>) evs"
  by (rule google_response_describes_message) (simp add: read_ends_def last_chunk_def)

section \<open>Limits of the code\<close>

text \<open>A candidate without content is skipped with its finish reason, as of a blocked response.\<close>

lemma blocked_candidate_skipped:
  "foldGoogleChunk counter \<lparr>gk_response_id = [], gk_candidates = [\<lparr>gc_content = None, gc_finish = reason\<rparr>], gk_usage = None\<rparr> st
     = (st\<lparr>gs_output := (gs_output st)\<lparr>am_response_id := firstNonEmptyStr [am_response_id (gs_output st), []]\<rparr>\<rparr>, Inr [])"
  by (simp add: foldGoogleChunk_def google_head_def)

text \<open>A body that ends without a finish reason is a complete answer.\<close>

lemma cut_off_is_done:
  "google_finish idle_timeout None None False (google_state (newOutputMessage m now)) None =
     [(event EvDone)\<lparr>ev_reason := StopStop, ev_message := Some (newOutputMessage m now)\<rparr>]"
  by (simp add: google_finish_def foldGoogleFinalizeBlocks_def google_state_def final_event_def newOutputMessage_def
      empty_assistant_def)

text \<open>An identifier made from the counter can be one the response already used.\<close>

definition two_calls :: google_content where
  "two_calls = \<lparr>gn_parts = [empty_part\<lparr>gp_call := Some \<lparr>gf_id = ''f_1'', gf_name = ''f'', gf_args = None\<rparr>\<rparr>,
     empty_part\<lparr>gp_call := Some \<lparr>gf_id = [], gf_name = ''f'', gf_args = None\<rparr>\<rparr>]\<rparr>"

lemma synthesized_id_collides:
  "map cb_id (am_content (gs_output (fst (fold_parts (\<lambda>n. int n + 1) (gn_parts two_calls)
     (google_state (newOutputMessage example_model 0)))))) = [''f_1'', ''f_1'']"
  by code_simp

end
