(* ===== verification/Google_Request.thy ===== *)
theory Google_Request
  imports Google_Stream
begin

text \<open>
  The Gemini request, \<open>internal/provider/google/convert.go\<close>, \<open>options.go\<close> and \<open>stream.go\<close>: the
  contents, the parameters and the whole of \<open>runStream\<close>.  What is a textual copy of the other
  provider packages is shared with their theories.  Indexing an empty slice is a panic, which
  \<open>runStream\<close> recovers; Unicode case mapping is an argument.
\<close>

section \<open>Contents\<close>

text \<open>A turn: its role and its parts.\<close>

record google_turn =
  gt_role :: string
  gt_parts :: "wire_map list"

definition turn_wire :: "google_turn \<Rightarrow> wire" where
  "turn_wire t = WMap [(''role'', WStr (gt_role t)), (''parts'', WArr (map WMap (gt_parts t)))]"

definition text_part :: "string \<Rightarrow> wire_map" where
  "text_part s = [(''text'', WStr s)]"

definition google_user_part :: "content_block \<Rightarrow> wire_map list" where
  "google_user_part b =
     (case cb_type b of
        BlockText \<Rightarrow>
          (let words = SanitizeSurrogates (cb_text b) in if trim_space words \<noteq> [] then [text_part words] else [])
      | BlockImage \<Rightarrow>
          [[(''inlineData'', WMap [(''mimeType'', WStr (cb_mime_type b)), (''data'', WStr (cb_data b))])]]
      | _ \<Rightarrow> [])"

definition google_user :: "user_message \<Rightarrow> google_turn list" where
  "google_user u =
     (case uc_blocks (um_content u) of
        None \<Rightarrow>
          if trim_space (uc_text (um_content u)) \<noteq> []
          then [\<lparr>gt_role = ''user'', gt_parts = [text_part (SanitizeSurrogates (uc_text (um_content u)))]\<rparr>] else []
      | Some blocks \<Rightarrow>
          (let parts = concat (map google_user_part blocks)
           in if parts \<noteq> [] then [\<lparr>gt_role = ''user'', gt_parts = parts\<rparr>] else []))"

definition requiresToolCallID :: "(string \<Rightarrow> string) \<Rightarrow> string \<Rightarrow> bool" where
  "requiresToolCallID lower mid \<longleftrightarrow> prefix ''claude-'' (lower mid) \<or> prefix ''gpt-oss-'' (lower mid)"

definition google_call_part :: "bool \<Rightarrow> bool \<Rightarrow> content_block \<Rightarrow> wire_map" where
  "google_call_part with_id same b =
     (''functionCall'', WMap ([(''name'', WStr (cb_name b)), (''args'', WAny (rawJSONToAny (cb_arguments b)))] @
        (if with_id then [(''id'', WStr (cb_id b))] else []))) #
     (if cb_thought_signature b \<noteq> [] \<and> same then [(''thoughtSignature'', WStr (cb_thought_signature b))] else [])"

definition google_thought_part :: "bool \<Rightarrow> content_block \<Rightarrow> wire_map" where
  "google_thought_part same b =
     (if same then [(''thought'', WBool True), (''text'', WStr (SanitizeSurrogates (cb_thinking b)))] @
        (if cb_thinking_signature b \<noteq> [] then [(''thoughtSignature'', WStr (cb_thinking_signature b))] else [])
      else text_part (SanitizeSurrogates (cb_thinking b)))"

definition google_assistant_part :: "bool \<Rightarrow> bool \<Rightarrow> content_block \<Rightarrow> wire_map list" where
  "google_assistant_part with_id same b =
     (case cb_type b of
        BlockText \<Rightarrow> if trim_space (cb_text b) = [] then [] else [text_part (SanitizeSurrogates (cb_text b))]
      | BlockThinking \<Rightarrow> if trim_space (cb_thinking b) = [] then [] else [google_thought_part same b]
      | BlockToolCall \<Rightarrow> [google_call_part with_id same b]
      | _ \<Rightarrow> [])"

definition google_assistant :: "bool \<Rightarrow> model \<Rightarrow> assistant_message \<Rightarrow> google_turn list" where
  "google_assistant with_id m a =
     (let same = (am_provider a = mo_provider m \<and> am_model a = mo_id m);
          parts = concat (map (google_assistant_part with_id same) (am_content a))
      in if parts = [] then [] else [\<lparr>gt_role = ''model'', gt_parts = parts\<rparr>])"

definition google_result_text :: "tool_result_message \<Rightarrow> string" where
  "google_result_text t =
     (let words = join ''\<newline>'' (map cb_text (filter (\<lambda>b. cb_type b = BlockText) (tr_content t)));
          has_images = list_ex (\<lambda>b. cb_type b = BlockImage) (tr_content t)
      in if \<not> has_images then SanitizeSurrogates words
         else if words = [] then ''(see attached image)'' else words)"

definition google_result_part :: "bool \<Rightarrow> tool_result_message \<Rightarrow> wire_map" where
  "google_result_part with_id t =
     [(''functionResponse'', WMap ([(''name'', WStr (tr_tool_name t)),
        (''response'', WMap [(if tr_is_error t then ''error'' else ''output'', WStr (google_result_text t))])] @
        (if with_id then [(''id'', WStr (tr_tool_call_id t))] else [])))]"

definition has_response :: "google_turn \<Rightarrow> bool" where
  "has_response t \<longleftrightarrow> list_ex (\<lambda>p. map_of p ''functionResponse'' \<noteq> None) (gt_parts t)"

text \<open>A result joins the last turn if that already holds results; without a last turn the code panics.\<close>

definition add_response :: "google_turn list \<Rightarrow> wire_map \<Rightarrow> string + google_turn list" where
  "add_response contents p =
     (if contents = [] then Inl ''runtime error: index out of range [-1]''
      else
        (let turn = last contents in
         if gt_role turn = ''user'' \<and> has_response turn
         then Inr (butlast contents @ [turn\<lparr>gt_parts := gt_parts turn @ [p]\<rparr>])
         else Inr (contents @ [\<lparr>gt_role = ''user'', gt_parts = [p]\<rparr>])))"

fun google_loop :: "bool \<Rightarrow> model \<Rightarrow> message list \<Rightarrow> google_turn list \<Rightarrow> string + google_turn list" where
  "google_loop with_id m [] contents = Inr contents"
| "google_loop with_id m (msg # ms) contents =
     (case asUser msg of
        Some u \<Rightarrow> google_loop with_id m ms (contents @ google_user u)
      | None \<Rightarrow>
          (case asAssistant msg of
             Some a \<Rightarrow> google_loop with_id m ms (contents @ google_assistant with_id m a)
           | None \<Rightarrow>
               (case asToolResult msg of
                  None \<Rightarrow> google_loop with_id m ms contents
                | Some t \<Rightarrow>
                    (case add_response contents (google_result_part with_id t) of
                       Inl panic \<Rightarrow> Inl panic | Inr contents' \<Rightarrow> google_loop with_id m ms contents'))))"

definition google_convertMessages :: "(string \<Rightarrow> string) \<Rightarrow> time_ms \<Rightarrow> message list \<Rightarrow> model \<Rightarrow> string + google_turn list" where
  "google_convertMessages lower now messages m =
     google_loop (requiresToolCallID lower (mo_id m)) m (TransformMessages now messages m (Some (\<lambda>i _ _. i))) []"

section \<open>Parameters\<close>

record thinkingConfig =
  th_enabled :: bool
  th_budget :: int
  th_level :: string

record google_options = stream_options +
  go_tool_choice :: "wire option"
  go_thinking :: "thinkingConfig option"

definition default_google_options :: google_options where
  "default_google_options = stream_options.extend (stream_options.truncate default_options)
     \<lparr>go_tool_choice = None, go_thinking = None\<rparr>"

definition mapToolChoice :: "(string \<Rightarrow> string) \<Rightarrow> wire \<Rightarrow> string" where
  "mapToolChoice upper choice =
     (case choice of
        WStr s \<Rightarrow> (if upper s = ''NONE'' then ''NONE'' else if upper s = ''ANY'' then ''ANY'' else ''AUTO'')
      | _ \<Rightarrow> ''AUTO'')"

definition google_tools :: "tool list \<Rightarrow> wire" where
  "google_tools tools = WArr [WMap [(''functionDeclarations'', WArr (map (\<lambda>t.
     WMap [(''name'', WStr (to_name t)), (''description'', WStr (to_description t)),
       (''parametersJsonSchema'', WAny (rawJSONToAny (to_parameters t)))]) tools))]]"

definition google_thinking :: "full_model \<Rightarrow> google_options option \<Rightarrow> wire_map" where
  "google_thinking m options =
     (case options of
        None \<Rightarrow> []
      | Some opts \<Rightarrow>
          (case go_thinking opts of
             None \<Rightarrow> []
           | Some t \<Rightarrow>
               if \<not> fm_reasoning m then []
               else if th_enabled t then
                 [(''thinkingConfig'', WMap ((''includeThoughts'', WBool True) #
                    (if th_level t \<noteq> [] then [(''thinkingLevel'', WStr (th_level t))]
                     else if th_budget t > 0 then [(''thinkingBudget'', WInt (th_budget t))] else [])))]
               else [(''thinkingConfig'', WMap [(''thinkingBudget'', WInt 0)])]))"

definition google_buildParams ::
  "(string \<Rightarrow> string) \<Rightarrow> (string \<Rightarrow> string) \<Rightarrow> time_ms \<Rightarrow> full_model \<Rightarrow> llm_context \<Rightarrow> google_options option \<Rightarrow> string + wire_map" where
  "google_buildParams lower upper now m c options =
     (let generation = (case options of
            None \<Rightarrow> []
          | Some opts \<Rightarrow>
              (case so_temperature opts of Some t \<Rightarrow> [(''temperature'', WNum t)] | None \<Rightarrow> []) @
              (if so_max_tokens opts > 0 then [(''maxOutputTokens'', WInt (so_max_tokens opts))] else []));
          choice = (case options of None \<Rightarrow> None | Some opts \<Rightarrow> go_tool_choice opts)
      in map_sum id (\<lambda>contents.
           [(''model'', WStr (mo_id m)), (''contents'', WArr (map turn_wire contents))] @
           (if lc_system_prompt c \<noteq> [] then
              [(''systemInstruction'', WMap [(''parts'', WArr [WMap (text_part (SanitizeSurrogates (lc_system_prompt c)))])])]
            else []) @
           (if generation \<noteq> [] then [(''generationConfig'', WMap generation)] else []) @
           (if lc_tools c \<noteq> [] then
              (''tools'', google_tools (lc_tools c)) #
              (case choice of
                 None \<Rightarrow> []
               | Some v \<Rightarrow> [(''toolConfig'', WMap [(''functionCallingConfig'', WMap [(''mode'', WStr (mapToolChoice upper v))])])])
            else []) @
           google_thinking m options)
         (google_convertMessages lower now (lc_messages c) (core m)))"

section \<open>The run\<close>

definition generateContentURL :: "string \<Rightarrow> string \<Rightarrow> string" where
  "generateContentURL base mid =
     (let url = (if trim_space base = [] then ''https://generativelanguage.googleapis.com'' else base)
      in rev (dropWhile (\<lambda>c. c = CHR ''/'') (rev url)) @ ''/v1beta/models/'' @ mid @ '':streamGenerateContent?alt=sse'')"

definition google_assertRequestAuth :: "string \<Rightarrow> string option" where
  "google_assertRequestAuth key = (if key \<noteq> [] then None else Some ''no API key for provider: google'')"

text \<open>A failure and whether it is a recovered panic, which is never reported as aborted.\<close>

definition google_prepare ::
  "run_env \<Rightarrow> (string \<Rightarrow> string) \<Rightarrow> full_model \<Rightarrow> llm_context \<Rightarrow> google_options \<Rightarrow> (string \<times> bool) + http_request" where
  "google_prepare en upper m c options =
     (let opts = with_env_key en m options; url = generateContentURL (fm_base_url m) (mo_id m) in
      case google_assertRequestAuth (so_api_key opts) of
        Some err \<Rightarrow> Inl (err, False)
      | None \<Rightarrow>
          (case google_buildParams (re_lower en) upper (re_now en) m c (Some opts) of
             Inl panic \<Rightarrow> Inl (panic, True)
           | Inr params \<Rightarrow>
               (case payload_of en (WMap params) of
                  Inl err \<Rightarrow> Inl (err, False)
                | Inr payload \<Rightarrow>
                    (case re_bad_request en url of
                       Some err \<Rightarrow> Inl (err, False)
                     | None \<Rightarrow> Inr \<lparr>rq_url = url,
                         rq_headers = mergeHeaders [[(''accept'', ''application/json''), (''content-type'', ''application/json''),
                           (''x-goog-api-key'', so_api_key opts)], fm_headers m, so_headers opts],
                         rq_body = marshal_wire payload\<rparr>))))"

definition google_runStream ::
  "run_env \<Rightarrow> (string \<Rightarrow> string) \<Rightarrow> (nat \<Rightarrow> int) \<Rightarrow> full_model \<Rightarrow> llm_context \<Rightarrow> google_options option \<Rightarrow> stream_event list option" where
  "google_runStream en upper counter m c options =
     (let output = newOutputMessage (core m) (re_now en) in
      case google_prepare en upper m c (case options of Some x \<Rightarrow> x | None \<Rightarrow> default_google_options) of
        Inl (err, panicked) \<Rightarrow> Some [pushError output err (\<not> panicked \<and> re_parent0 en \<noteq> None)]
      | Inr req \<Rightarrow>
          handle_response en output ''Gemini''
            (\<lambda>reads. google_response counter (re_decode_error en) (re_idle_timeout en) (re_parent1 en)
               (re_parent2 en) (re_idle en) output (case reads of None \<Rightarrow> [] | Some rs \<Rightarrow> rs))
            (re_send en req))"

definition google_StreamSimple ::
  "run_env \<Rightarrow> (string \<Rightarrow> string) \<Rightarrow> (nat \<Rightarrow> int) \<Rightarrow> full_model \<Rightarrow> llm_context \<Rightarrow> simple_options option \<Rightarrow> stream_event list option" where
  "google_StreamSimple en upper counter m c opts =
     (let base = buildBaseOptions m c opts (case opts of Some s \<Rightarrow> so_api_key s | None \<Rightarrow> []);
          enabled = (case opts of None \<Rightarrow> False | Some s \<Rightarrow> si_reasoning s \<noteq> [])
      in google_runStream en upper counter m c (Some (stream_options.extend base
           \<lparr>go_tool_choice = None, go_thinking = Some \<lparr>th_enabled = enabled, th_budget = 0, th_level = []\<rparr>\<rparr>)))"

section \<open>Every function call is followed by responses\<close>

definition has_call :: "google_turn \<Rightarrow> bool" where
  "has_call t \<longleftrightarrow> list_ex (\<lambda>p. map_of p ''functionCall'' \<noteq> None) (gt_parts t)"

text \<open>A turn of responses only.\<close>

definition response_turn :: "google_turn \<Rightarrow> bool" where
  "response_turn t \<longleftrightarrow> gt_role t = ''user'' \<and> gt_parts t \<noteq> [] \<and>
     list_all (\<lambda>p. map_of p ''functionResponse'' \<noteq> None) (gt_parts t)"

definition good_turn :: "google_turn \<Rightarrow> bool" where
  "good_turn t \<longleftrightarrow> gt_parts t \<noteq> [] \<and>
     (has_call t \<longrightarrow> gt_role t = ''model'') \<and> (has_response t \<longrightarrow> response_turn t)"

text \<open>The calls of a turn are followed by a turn of responses; \<open>open_end\<close> lets the last one wait.\<close>

fun calls_followed :: "bool \<Rightarrow> google_turn list \<Rightarrow> bool" where
  "calls_followed open_end [] \<longleftrightarrow> True"
| "calls_followed open_end [t] \<longleftrightarrow> good_turn t \<and> (has_call t \<longrightarrow> open_end)"
| "calls_followed open_end (t # t' # ts) \<longleftrightarrow>
     good_turn t \<and> (has_call t \<longrightarrow> response_turn t') \<and> calls_followed open_end (t' # ts)"

lemma calls_followed_mono: "calls_followed w ts \<Longrightarrow> (w \<Longrightarrow> w') \<Longrightarrow> calls_followed w' ts"
  by (induction w ts rule: calls_followed.induct) auto

lemma calls_followed_snoc:
  "calls_followed w (ts @ [t]) \<longleftrightarrow>
     calls_followed True ts \<and> good_turn t \<and> (ts \<noteq> [] \<and> has_call (last ts) \<longrightarrow> response_turn t) \<and> (has_call t \<longrightarrow> w)"
proof (induction True ts rule: calls_followed.induct)
  case (3 t1 t2 ts)
  then show ?case by auto
qed auto

lemma calls_followed_snoc_open: "calls_followed w ts \<Longrightarrow> \<not> w \<Longrightarrow> good_turn t \<Longrightarrow> (has_call t \<Longrightarrow> w') \<Longrightarrow> calls_followed w' (ts @ [t])"
proof -
  assume a: "calls_followed w ts" "\<not> w" "good_turn t" "has_call t \<Longrightarrow> w'"
  have "ts = [] \<or> \<not> has_call (last ts)"
    using a(1,2) by (cases ts rule: rev_cases) (auto simp: calls_followed_snoc)
  moreover have "calls_followed True ts" by (rule calls_followed_mono [OF a(1)]) simp
  ultimately show ?thesis using a(3,4) by (auto simp: calls_followed_snoc)
qed

lemma google_user_turns:
  "google_user u = [] \<or> (\<exists>t. google_user u = [t] \<and> good_turn t \<and> \<not> has_call t)"
proof -
  have part: "\<forall>p \<in> set (google_user_part b). map_of p ''functionCall'' = None \<and> map_of p ''functionResponse'' = None" for b
    by (simp add: google_user_part_def text_part_def Let_def split: block_type.splits)
  show ?thesis
    using part by (auto simp: google_user_def good_turn_def has_call_def has_response_def list_ex_iff text_part_def Let_def
        split: option.splits)
qed

lemma google_assistant_turns:
  "google_assistant with_id m a = [] \<and> tool_calls_of a = [] \<or>
   (\<exists>t. google_assistant with_id m a = [t] \<and> good_turn t \<and> (has_call t \<longrightarrow> tool_calls_of a \<noteq> []))"
proof -
  have part: "\<forall>p \<in> set (google_assistant_part i s b). map_of p ''functionResponse'' = None \<and>
      (map_of p ''functionCall'' \<noteq> None \<longrightarrow> cb_type b = BlockToolCall)" for i s b
    by (simp add: google_assistant_part_def google_thought_part_def google_call_part_def text_part_def split: block_type.splits)
  have call: "cb_type b = BlockToolCall \<Longrightarrow> google_assistant_part i s b \<noteq> []" for i s b
    by (simp add: google_assistant_part_def)
  let ?same = "am_provider a = mo_provider m \<and> am_model a = mo_id m"
  define parts where "parts = concat (map (google_assistant_part with_id ?same) (am_content a))"
  have run: "google_assistant with_id m a = (if parts = [] then [] else [\<lparr>gt_role = ''model'', gt_parts = parts\<rparr>])"
    unfolding google_assistant_def Let_def parts_def by simp
  show ?thesis
  proof (cases "parts = []")
    case True
    then have "tool_calls_of a = []" using call by (force simp: parts_def tool_calls_of_def filter_empty_conv)
    with True run show ?thesis by simp
  next
    case False
    have "\<forall>p \<in> set parts. map_of p ''functionResponse'' = None" using part by (auto simp: parts_def)
    moreover have "tool_calls_of a \<noteq> []" if "p \<in> set parts" "map_of p ''functionCall'' \<noteq> None" for p
    proof -
      from that(1) obtain b where "b \<in> set (am_content a)" "p \<in> set (google_assistant_part with_id ?same b)"
        by (auto simp: parts_def)
      with part that(2) show ?thesis by (fastforce simp: tool_calls_of_def filter_empty_conv)
    qed
    ultimately show ?thesis
      using False run by (auto simp: good_turn_def has_call_def has_response_def list_ex_iff)
  qed
qed

lemma add_response_followed:
  assumes "calls_followed w contents" "contents \<noteq> []"
  shows "\<exists>contents'. add_response contents (google_result_part with_id t) = Inr contents' \<and> contents' \<noteq> [] \<and>
    calls_followed w' contents'"
proof -
  let ?p = "google_result_part with_id t"
  have p: "map_of ?p ''functionCall'' = None" "map_of ?p ''functionResponse'' \<noteq> None"
    by (simp_all add: google_result_part_def)
  obtain ts x where ts: "contents = ts @ [x]" using assms(2) by (cases contents rule: rev_cases) auto
  have w: "calls_followed True contents" by (rule calls_followed_mono [OF assms(1)]) simp
  show ?thesis
  proof (cases "gt_role x = ''user'' \<and> has_response x")
    case True
    let ?x = "x\<lparr>gt_parts := gt_parts x @ [?p]\<rparr>"
    from w have "good_turn x" by (simp add: ts calls_followed_snoc)
    with True have "response_turn x" "\<not> has_call x" by (auto simp: good_turn_def)
    with p have "response_turn ?x" "\<not> has_call ?x" by (auto simp: response_turn_def has_call_def)
    then have "good_turn ?x" by (simp add: good_turn_def response_turn_def)
    with \<open>response_turn ?x\<close> \<open>\<not> has_call ?x\<close> w have "calls_followed w' (ts @ [?x])" by (simp add: ts calls_followed_snoc)
    with True show ?thesis by (simp add: add_response_def ts)
  next
    case False
    let ?x = "\<lparr>gt_role = ''user'', gt_parts = [?p]\<rparr>"
    have "response_turn ?x" "\<not> has_call ?x" using p by (auto simp: response_turn_def has_call_def)
    then have "good_turn ?x" by (simp add: good_turn_def response_turn_def)
    with \<open>response_turn ?x\<close> \<open>\<not> has_call ?x\<close> w have "calls_followed w' (contents @ [?x])" by (simp add: calls_followed_snoc [of w'])
    with False show ?thesis by (auto simp: add_response_def ts)
  qed
qed

text \<open>The loop panics only if no turn comes before the first result.\<close>

definition loop_result :: "google_turn list \<Rightarrow> string + google_turn list \<Rightarrow> bool" where
  "loop_result contents r \<longleftrightarrow> (case r of Inl _ \<Rightarrow> contents = [] | Inr out \<Rightarrow> calls_followed False out)"

lemma loop_result_weaken: "loop_result (contents @ ts) r \<Longrightarrow> loop_result contents r"
  by (auto simp: loop_result_def split: sum.splits)

lemma google_loop_followed:
  "answered pend got ms \<Longrightarrow> calls_followed (pend \<noteq> [] \<and> got = []) contents \<Longrightarrow>
   loop_result contents (google_loop with_id m ms contents)"
proof (induction ms arbitrary: pend got contents)
  case Nil
  then have "calls_followed False contents" by (auto intro: calls_followed_mono)
  then show ?case by (simp add: loop_result_def)
next
  case (Cons msg ms)
  have shut: "calls_followed False contents" if "set pend \<subseteq> set got"
    by (rule calls_followed_mono [OF Cons.prems(2)]) (use that in auto)
  consider (user) u where "asUser msg = Some u" | (assistant) a where "asUser msg = None" "asAssistant msg = Some a"
    | (result) t where "asUser msg = None" "asAssistant msg = None" "asToolResult msg = Some t"
    | (other) "asUser msg = None" "asAssistant msg = None" "asToolResult msg = None"
    by (cases "asUser msg"; cases "asAssistant msg"; cases "asToolResult msg") auto
  then show ?case
  proof cases
    case user
    with Cons.prems(1) have p: "set pend \<subseteq> set got" "answered [] [] ms"
      by (auto simp: answered_after_user simp del: answered.simps(2))
    have "calls_followed False (contents @ google_user u)"
      using google_user_turns [of u] shut [OF p(1)] by (auto intro: calls_followed_snoc_open)
    with Cons.IH [OF p(2)] user show ?thesis by (auto intro: loop_result_weaken)
  next
    case assistant
    with Cons.prems(1) have p: "set pend \<subseteq> set got" "answered (map cb_id (tool_calls_of a)) [] ms"
      by (auto simp: answered_after_assistant simp del: answered.simps(2))
    have "calls_followed (map cb_id (tool_calls_of a) \<noteq> [] \<and> [] = ([] :: string list)) (contents @ google_assistant with_id m a)"
      using google_assistant_turns [of with_id m a] shut [OF p(1)] by (auto intro: calls_followed_snoc_open)
    from Cons.IH [OF p(2) this] assistant show ?thesis by (auto intro: loop_result_weaken)
  next
    case result
    with Cons.prems(1) have p: "answered pend (tr_tool_call_id t # got) ms"
      by (simp add: answered_after_result del: answered.simps(2))
    show ?thesis
    proof (cases "contents = []")
      case True
      then show ?thesis using result by (simp add: add_response_def loop_result_def)
    next
      case False
      from add_response_followed [OF Cons.prems(2) False, of with_id t False] obtain contents' where
        "add_response contents (google_result_part with_id t) = Inr contents'" "contents' \<noteq> []" "calls_followed False contents'"
        by blast
      with Cons.IH [OF p, of contents'] result show ?thesis by (auto simp: loop_result_def split: sum.splits)
    qed
  next
    case other
    then have "answered pend got ms \<or> set pend \<subseteq> set got \<and> answered [] [] ms"
      using Cons.prems(1) by (cases msg) (auto split: option.splits)
    with Cons.IH Cons.prems(2) shut other show ?thesis by (auto simp del: answered.simps(2))
  qed
qed

lemma user_first:
  "uc_blocks (um_content u) = None \<Longrightarrow>
   \<exists>ms'. TransformMessages now (UserMessage u # ms) m norm = UserMessage u # ms'"
  by (simp add: TransformMessages_def downgradeUnsupportedImages_def downgrade_user_def insertSyntheticToolResults_def)

text \<open>C6: A transcript that starts with a prompt in words converts to Gemini contents without a panic;
  every turn has parts, a turn with function calls is the model's and is directly followed by a
  user turn of function responses only, and responses never share a turn with anything else.
\<close>

theorem google_contents_acceptable:
  assumes "messages = UserMessage u # ms" "uc_blocks (um_content u) = None" "trim_space (uc_text (um_content u)) \<noteq> []"
  shows "\<exists>contents. google_convertMessages lower now messages m = Inr contents \<and> calls_followed False contents"
proof -
  let ?w = "requiresToolCallID lower (mo_id m)"
  from user_first [OF assms(2)] obtain ms' where t: "TransformMessages now messages m (Some (\<lambda>i _ _. i)) = UserMessage u # ms'"
    unfolding assms(1) by blast
  have "answered [] [] (TransformMessages now messages m (Some (\<lambda>i _ _. i)))"
    using second_pass_answered [of "[]" "[]"] by (simp add: TransformMessages_def)
  then have a: "answered [] [] ms'" by (simp add: t)
  have "google_user u \<noteq> []" using assms(2,3) by (simp add: google_user_def)
  with google_user_turns [of u] obtain x where x: "google_user u = [x]" "good_turn x" "\<not> has_call x" by blast
  from google_loop_followed [OF a, of "[x]" ?w m] x have "loop_result [x] (google_loop ?w m ms' [x])" by simp
  then show ?thesis
    using x(1) by (auto simp: google_convertMessages_def t loop_result_def split: sum.splits)
qed

theorem google_contents_acceptable_witness:
  "\<exists>contents. google_convertMessages id 0 example_calls vision_model = Inr contents \<and> calls_followed False contents"
proof -
  have calls: "example_calls = UserMessage \<lparr>um_content = StringContent ''hi'', um_timestamp = 0\<rparr> # tl example_calls"
    by (simp add: example_calls_def)
  have "trim_space ''hi'' \<noteq> []" by code_simp
  then show ?thesis by (intro google_contents_acceptable [OF calls]) (simp_all add: StringContent_def)
qed

text \<open>A transcript that starts with a tool result makes the conversion panic.\<close>

lemma result_first_panics:
  "google_convertMessages lower now (ToolResultMessage t # ms) m = Inl ''runtime error: index out of range [-1]''"
  by (simp add: google_convertMessages_def TransformMessages_def downgradeUnsupportedImages_def add_response_def)

section \<open>What is sent\<close>

lemma google_runStream_ends:
  assumes "\<And>req resp. re_send en req = Inr resp \<Longrightarrow> \<exists>reads. hr_reads resp = Some reads \<and> list_ex read_ends reads"
  shows "ends_once (google_runStream en upper counter m c options)"
proof -
  let ?output = "newOutputMessage (core m) (re_now en)"
  have body: "ends_once (google_response counter (re_decode_error en) (re_idle_timeout en) (re_parent1 en)
      (re_parent2 en) (re_idle en) ?output (case hr_reads resp of None \<Rightarrow> [] | Some rs \<Rightarrow> rs))"
    if "re_send en req = Inr resp" for req resp
  proof -
    from assms [OF that] obtain reads where r: "hr_reads resp = Some reads" "list_ex read_ends reads" by blast
    have "am_content ?output = []" by (simp add: newOutputMessage_def empty_assistant_def)
    from google_response_described [OF r(2) this] obtain evs where
      "google_response counter (re_decode_error en) (re_idle_timeout en) (re_parent1 en)
        (re_parent2 en) (re_idle en) ?output reads = Some evs"
      "well_streamed (\<lambda>s. s) ((event EvStart)\<lparr>ev_partial := Some ?output\<rparr>) evs" by blast
    with ends_once_streamed r(1) show ?thesis by (simp add: event_def)
  qed
  show ?thesis
    by (auto simp: google_runStream_def Let_def ends_once_error intro!: handle_response_ends body split: sum.splits)
qed

end
