(* ===== verification/Mutation_Queue.thy ===== *)
theory Mutation_Queue
  imports Util
begin

text \<open>
  The file mutation queue of \<open>internal/toolio/toolio.go\<close>: one mutex per real path, created by the
  first caller and removed by the last.  A pointer to a lock is its position in the list of all
  locks ever made, so that \<open>q.locks[key] == lock\<close> compares positions.  A goroutine in \<open>DoValue\<close> is
  a caller in a phase; \<open>acquire\<close> and \<open>release\<close> run under the queue's mutex, so each is one step,
  and so are locking and unlocking the path's mutex.  The canonical path of a file is the key a
  caller starts with.
\<close>

section \<open>The queue\<close>

record file_lock =
  fl_held :: bool
  fl_refs :: int

record mutation_queue =
  mq_locks :: "(string \<times> nat) list"
  mq_heap :: "file_lock list"

definition NewFileMutationQueue :: mutation_queue where
  "NewFileMutationQueue = \<lparr>mq_locks = [], mq_heap = []\<rparr>"

text \<open>
  The key of a file, from what \<open>filepath.Abs\<close> and \<open>filepath.EvalSymlinks\<close> give; an error of the latter
  says whether it means that there is no such file.
\<close>

definition mutationQueueKey ::
  "(string \<Rightarrow> string + string) \<Rightarrow> (string \<Rightarrow> (string \<times> bool) + string) \<Rightarrow> string \<Rightarrow> string + string" where
  "mutationQueueKey abs_path eval_links filePath =
     (case abs_path filePath of
        Inl err \<Rightarrow> Inl err
      | Inr resolved \<Rightarrow>
          (case eval_links resolved of
             Inr real_path \<Rightarrow> Inr real_path
           | Inl (err, missing) \<Rightarrow> if missing then Inr resolved else Inl err))"

definition add_refs :: "int \<Rightarrow> nat \<Rightarrow> mutation_queue \<Rightarrow> mutation_queue" where
  "add_refs n l q = q\<lparr>mq_heap := (mq_heap q)[l := (mq_heap q ! l)\<lparr>fl_refs := fl_refs (mq_heap q ! l) + n\<rparr>]\<rparr>"

definition set_held :: "bool \<Rightarrow> nat \<Rightarrow> mutation_queue \<Rightarrow> mutation_queue" where
  "set_held b l q = q\<lparr>mq_heap := (mq_heap q)[l := (mq_heap q ! l)\<lparr>fl_held := b\<rparr>]\<rparr>"

definition acquire :: "mutation_queue \<Rightarrow> string \<Rightarrow> mutation_queue \<times> nat" where
  "acquire q key =
     (case map_of (mq_locks q) key of
        Some l \<Rightarrow> (add_refs 1 l q, l)
      | None \<Rightarrow>
          (let l = length (mq_heap q)
           in (add_refs 1 l (q\<lparr>mq_locks := (key, l) # mq_locks q, mq_heap := mq_heap q @ [\<lparr>fl_held = False, fl_refs = 0\<rparr>]\<rparr>), l)))"

definition release_lock :: "mutation_queue \<Rightarrow> string \<Rightarrow> nat \<Rightarrow> mutation_queue" where
  "release_lock q key l =
     (let q1 = add_refs (-1) l q in
      if fl_refs (mq_heap q1 ! l) = 0 \<and> map_of (mq_locks q1) key = Some l
      then q1\<lparr>mq_locks := filter (\<lambda>kl. fst kl \<noteq> key) (mq_locks q1)\<rparr> else q1)"

section \<open>Callers\<close>

datatype phase = Away | Waiting string nat | Inside string nat | Leaving string nat

type_synonym world = "mutation_queue \<times> phase list"

text \<open>The steps of \<open>DoValue\<close>: take a reference, lock, run \<open>fn\<close> and unlock, give the reference back.\<close>

inductive caller_step :: "world \<Rightarrow> world \<Rightarrow> bool" where
  enter: "i < length ps \<Longrightarrow> ps ! i = Away \<Longrightarrow> acquire q key = (q', l) \<Longrightarrow>
    caller_step (q, ps) (q', ps[i := Waiting key l])"
| lock: "i < length ps \<Longrightarrow> ps ! i = Waiting key l \<Longrightarrow> \<not> fl_held (mq_heap q ! l) \<Longrightarrow>
    caller_step (q, ps) (set_held True l q, ps[i := Inside key l])"
| unlock: "i < length ps \<Longrightarrow> ps ! i = Inside key l \<Longrightarrow>
    caller_step (q, ps) (set_held False l q, ps[i := Leaving key l])"
| leave: "i < length ps \<Longrightarrow> ps ! i = Leaving key l \<Longrightarrow>
    caller_step (q, ps) (release_lock q key l, ps[i := Away])"

text \<open>What \<open>n\<close> callers can reach from a new queue.\<close>

inductive reachable :: "nat \<Rightarrow> world \<Rightarrow> bool" for n where
  start: "reachable n (NewFileMutationQueue, replicate n Away)"
| step: "reachable n w \<Longrightarrow> caller_step w w' \<Longrightarrow> reachable n w'"

section \<open>The references are the callers\<close>

fun uses :: "string \<Rightarrow> nat \<Rightarrow> phase \<Rightarrow> bool" where
  "uses key l Away \<longleftrightarrow> False"
| "uses key l (Waiting k m) \<longleftrightarrow> k = key \<and> m = l"
| "uses key l (Inside k m) \<longleftrightarrow> k = key \<and> m = l"
| "uses key l (Leaving k m) \<longleftrightarrow> k = key \<and> m = l"

fun inside :: "nat \<Rightarrow> phase \<Rightarrow> bool" where
  "inside l (Inside k m) \<longleftrightarrow> m = l"
| "inside l _ \<longleftrightarrow> False"

definition how_many :: "(phase \<Rightarrow> bool) \<Rightarrow> phase list \<Rightarrow> int" where
  "how_many p ps = int (length (filter p ps))"

lemma how_many_update:
  "i < length ps \<Longrightarrow> how_many p (ps[i := x]) = how_many p ps - of_bool (p (ps ! i)) + of_bool (p x)"
proof (induction ps arbitrary: i)
  case (Cons y ps)
  then show ?case by (cases i) (auto simp: how_many_def)
qed simp

lemma how_many_nonneg [simp]: "0 \<le> how_many p ps"
  by (simp add: how_many_def)

lemma how_many_none: "how_many p ps = 0 \<longleftrightarrow> (\<forall>x \<in> set ps. \<not> p x)"
  by (auto simp: how_many_def filter_empty_conv)

lemma how_many_two: "i < length ps \<Longrightarrow> j < length ps \<Longrightarrow> i \<noteq> j \<Longrightarrow> p (ps ! i) \<Longrightarrow> p (ps ! j) \<Longrightarrow> 2 \<le> how_many p ps"
proof -
  assume a: "i < length ps" "j < length ps" "i \<noteq> j" "p (ps ! i)" "p (ps ! j)"
  have "card {i, j} \<le> card {k. k < length ps \<and> p (ps ! k)}" by (rule card_mono) (use a in auto)
  with a(3) show ?thesis by (simp add: how_many_def length_filter_conv_card)
qed

definition queue_ok :: "world \<Rightarrow> bool" where
  "queue_ok w \<longleftrightarrow>
     (let q = fst w; ps = snd w in
      distinct (map fst (mq_locks q)) \<and> distinct (map snd (mq_locks q)) \<and>
      (\<forall>(key, l) \<in> set (mq_locks q). l < length (mq_heap q) \<and> fl_refs (mq_heap q ! l) = how_many (uses key l) ps \<and>
         0 < fl_refs (mq_heap q ! l)) \<and>
      (\<forall>p \<in> set ps. \<forall>key l. uses key l p \<longrightarrow> (key, l) \<in> set (mq_locks q)) \<and>
      (\<forall>l < length (mq_heap q). how_many (inside l) ps = of_bool (fl_held (mq_heap q ! l))))"

lemma heap_add_refs [simp]:
  "length (mq_heap (add_refs n l q)) = length (mq_heap q)" "mq_locks (add_refs n l q) = mq_locks q"
  "m < length (mq_heap q) \<Longrightarrow> fl_refs (mq_heap (add_refs n l q) ! m) = fl_refs (mq_heap q ! m) + (if m = l then n else 0)"
  "m < length (mq_heap q) \<Longrightarrow> fl_held (mq_heap (add_refs n l q) ! m) = fl_held (mq_heap q ! m)"
  by (cases "m = l"; simp add: add_refs_def)+

lemma heap_set_held [simp]:
  "length (mq_heap (set_held b l q)) = length (mq_heap q)" "mq_locks (set_held b l q) = mq_locks q"
  "m < length (mq_heap q) \<Longrightarrow> fl_refs (mq_heap (set_held b l q) ! m) = fl_refs (mq_heap q ! m)"
  "m < length (mq_heap q) \<Longrightarrow> fl_held (mq_heap (set_held b l q) ! m) = (if m = l then b else fl_held (mq_heap q ! m))"
  by (cases "m = l"; simp add: set_held_def)+

text \<open>The parts of the invariant, as rules.\<close>

lemma queue_okI:
  assumes "distinct (map fst (mq_locks q))" "distinct (map snd (mq_locks q))"
    and "\<And>key l. (key, l) \<in> set (mq_locks q) \<Longrightarrow> l < length (mq_heap q) \<and>
      fl_refs (mq_heap q ! l) = how_many (uses key l) ps \<and> 0 < fl_refs (mq_heap q ! l)"
    and "\<And>p key l. p \<in> set ps \<Longrightarrow> uses key l p \<Longrightarrow> (key, l) \<in> set (mq_locks q)"
    and "\<And>l. l < length (mq_heap q) \<Longrightarrow> how_many (inside l) ps = of_bool (fl_held (mq_heap q ! l))"
  shows "queue_ok (q, ps)"
  using assms by (auto simp: queue_ok_def)

lemma queue_okD:
  assumes "queue_ok (q, ps)"
  shows "distinct (map fst (mq_locks q))" "distinct (map snd (mq_locks q))"
    and "(key, l) \<in> set (mq_locks q) \<Longrightarrow> l < length (mq_heap q)"
    and "(key, l) \<in> set (mq_locks q) \<Longrightarrow> fl_refs (mq_heap q ! l) = how_many (uses key l) ps"
    and "(key, l) \<in> set (mq_locks q) \<Longrightarrow> 0 < fl_refs (mq_heap q ! l)"
    and "p \<in> set ps \<Longrightarrow> uses key l p \<Longrightarrow> (key, l) \<in> set (mq_locks q)"
    and "l < length (mq_heap q) \<Longrightarrow> how_many (inside l) ps = of_bool (fl_held (mq_heap q ! l))"
  using assms by (auto simp: queue_ok_def)

lemma one_lock:
  assumes "queue_ok (q, ps)" "(key, l) \<in> set (mq_locks q)" "(key', l) \<in> set (mq_locks q)"
  shows "key' = key"
proof -
  have "inj_on snd (set (mq_locks q))" using queue_okD(2) [OF assms(1)] by (simp add: distinct_map)
  from inj_onD [OF this _ assms(2,3)] show ?thesis by simp
qed

lemma one_key:
  assumes "queue_ok (q, ps)" "(key, l) \<in> set (mq_locks q)" "(key, l') \<in> set (mq_locks q)"
  shows "l' = l"
proof -
  have "inj_on fst (set (mq_locks q))" using queue_okD(1) [OF assms(1)] by (simp add: distinct_map)
  from inj_onD [OF this _ assms(2,3)] show ?thesis by simp
qed

lemma inside_uses: "inside l p \<Longrightarrow> \<exists>key. uses key l p"
  by (cases p) auto

text \<open>A change of phase that keeps the key and the lock changes no reference.\<close>

lemma queue_ok_held:
  assumes ok: "queue_ok (q, ps)" and i: "i < length ps" "uses key l (ps ! i)" "uses key l p"
    and "b \<and> inside l p \<and> \<not> inside l (ps ! i) \<and> \<not> fl_held (mq_heap q ! l) \<or> \<not> b \<and> \<not> inside l p \<and> inside l (ps ! i)"
  shows "queue_ok (set_held b l q, ps[i := p])"
proof (rule queue_okI)
  note D = queue_okD [OF ok]
  have kl: "(key, l) \<in> set (mq_locks q)" using D(6) [of "ps ! i"] i by simp
  have same: "uses k m (ps ! i) = uses k m p" for k m using i(2,3) by (cases p; cases "ps ! i") auto
  have u: "how_many (uses k m) (ps[i := p]) = how_many (uses k m) ps" for k m
    by (simp add: how_many_update [OF i(1)] same)
  show "distinct (map fst (mq_locks (set_held b l q)))" "distinct (map snd (mq_locks (set_held b l q)))" using D(1,2) by simp_all
  show "m < length (mq_heap (set_held b l q)) \<and> fl_refs (mq_heap (set_held b l q) ! m) = how_many (uses k m) (ps[i := p]) \<and>
      0 < fl_refs (mq_heap (set_held b l q) ! m)" if "(k, m) \<in> set (mq_locks (set_held b l q))" for k m
    using that D(3,4,5) [of k m] by (simp add: u)
  show "(k, m) \<in> set (mq_locks (set_held b l q))" if "x \<in> set (ps[i := p])" "uses k m x" for x k m
  proof -
    from that(1) have "x = p \<or> x \<in> set ps" using set_update_subset_insert by fastforce
    with that(2) D(6) [of x k m] D(6) [of "ps ! i" k m] i(1) same show ?thesis by auto
  qed
  show "how_many (inside m) (ps[i := p]) = of_bool (fl_held (mq_heap (set_held b l q) ! m))"
    if "m < length (mq_heap (set_held b l q))" for m
  proof (cases "m = l")
    case True
    have l: "l < length (mq_heap q)" using D(3) kl by blast
    have "fl_held (mq_heap q ! l)" if "inside l (ps ! i)"
    proof (rule ccontr)
      assume "\<not> fl_held (mq_heap q ! l)"
      with D(7) [OF l] have "\<forall>x \<in> set ps. \<not> inside l x" by (simp add: how_many_none)
      with that i(1) show False by simp
    qed
    with D(7) [OF l] True assms(5) l show ?thesis by (auto simp: how_many_update [OF i(1)])
  next
    case False
    then have "inside m (ps ! i) = False" "inside m p = False" using i(2,3) by (cases "ps ! i"; cases p; auto)+
    with that False D(7) [of m] show ?thesis by (simp add: how_many_update [OF i(1)])
  qed
qed

lemma in_update: "x \<in> set (ps[i := p]) \<Longrightarrow> x = p \<or> x \<in> set ps"
  using set_update_subset_insert by fastforce

text \<open>A new reference to a lock in the map, old or just made with no caller yet.\<close>

lemma queue_ok_enter:
  assumes distinct: "distinct (map fst (mq_locks q))" "distinct (map snd (mq_locks q))"
    and refs: "\<And>k m. (k, m) \<in> set (mq_locks q) \<Longrightarrow> m < length (mq_heap q) \<and>
      fl_refs (mq_heap q ! m) = how_many (uses k m) ps \<and> (m \<noteq> l \<longrightarrow> 0 < fl_refs (mq_heap q ! m))"
    and known: "\<And>p k m. p \<in> set ps \<Longrightarrow> uses k m p \<Longrightarrow> (k, m) \<in> set (mq_locks q)"
    and held: "\<And>m. m < length (mq_heap q) \<Longrightarrow> how_many (inside m) ps = of_bool (fl_held (mq_heap q ! m))"
    and i: "i < length ps" "ps ! i = Away" and kl: "(key, l) \<in> set (mq_locks q)"
  shows "queue_ok (add_refs 1 l q, ps[i := Waiting key l])"
proof (rule queue_okI)
  show "distinct (map fst (mq_locks (add_refs 1 l q)))" "distinct (map snd (mq_locks (add_refs 1 l q)))"
    using distinct by simp_all
  have other: "k = key" if "(k, l) \<in> set (mq_locks q)" for k
  proof -
    have "inj_on snd (set (mq_locks q))" using distinct(2) by (simp add: distinct_map)
    from inj_onD [OF this _ that kl] show ?thesis by simp
  qed
  show "m < length (mq_heap (add_refs 1 l q)) \<and>
      fl_refs (mq_heap (add_refs 1 l q) ! m) = how_many (uses k m) (ps[i := Waiting key l]) \<and>
      0 < fl_refs (mq_heap (add_refs 1 l q) ! m)" if "(k, m) \<in> set (mq_locks (add_refs 1 l q))" for k m
    using that refs [of k m] other [of k] i(2) how_many_nonneg [of "uses k m" ps]
    by (auto simp: how_many_update [OF i(1)])
  show "(k, m) \<in> set (mq_locks (add_refs 1 l q))" if "x \<in> set (ps[i := Waiting key l])" "uses k m x" for x k m
    using in_update [OF that(1)] that(2) known [of x k m] kl by auto
  show "how_many (inside m) (ps[i := Waiting key l]) = of_bool (fl_held (mq_heap (add_refs 1 l q) ! m))"
    if "m < length (mq_heap (add_refs 1 l q))" for m
    using that held [of m] i(2) by (simp add: how_many_update [OF i(1)])
qed

lemma queue_ok_acquire:
  assumes ok: "queue_ok (q, ps)" and i: "i < length ps" "ps ! i = Away" and acq: "acquire q key = (q', l)"
  shows "queue_ok (q', ps[i := Waiting key l])"
proof (cases "map_of (mq_locks q) key")
  case (Some m)
  then have kl: "(key, m) \<in> set (mq_locks q)" by (rule map_of_SomeD)
  note D = queue_okD [OF ok]
  have "queue_ok (add_refs 1 m q, ps[i := Waiting key m])"
  proof (rule queue_ok_enter [OF D(1,2) _ D(6,7) i kl])
    show "n < length (mq_heap q) \<and> fl_refs (mq_heap q ! n) = how_many (uses k n) ps \<and> (n \<noteq> m \<longrightarrow> 0 < fl_refs (mq_heap q ! n))"
      if "(k, n) \<in> set (mq_locks q)" for k n
      using D(3-5) [OF that] by simp
  qed
  with acq Some show ?thesis by (auto simp: acquire_def)
next
  case None
  note D = queue_okD [OF ok]
  let ?l = "length (mq_heap q)"
  let ?q = "q\<lparr>mq_locks := (key, ?l) # mq_locks q, mq_heap := mq_heap q @ [\<lparr>fl_held = False, fl_refs = 0\<rparr>]\<rparr>"
  have fresh: "\<not> uses k ?l p" if "p \<in> set ps" for p k
    using D(6) [OF that, of k ?l] D(3) [of k ?l] by auto
  have "queue_ok (add_refs 1 ?l ?q, ps[i := Waiting key ?l])"
  proof (rule queue_ok_enter [OF _ _ _ _ _ i])
    show "distinct (map fst (mq_locks ?q))" using D(1) None by (simp add: map_of_eq_None_iff)
    show "distinct (map snd (mq_locks ?q))" using D(2,3) by force
    show "m < length (mq_heap ?q) \<and> fl_refs (mq_heap ?q ! m) = how_many (uses k m) ps \<and>
        (m \<noteq> ?l \<longrightarrow> 0 < fl_refs (mq_heap ?q ! m))" if km: "(k, m) \<in> set (mq_locks ?q)" for k m
    proof (cases "m = ?l")
      case True
      have "how_many (uses k ?l) ps = 0" using fresh by (simp add: how_many_none)
      with True show ?thesis by simp
    next
      case False
      with km have "(k, m) \<in> set (mq_locks q)" by auto
      with D(3-5) [of k m] show ?thesis by (simp add: nth_append)
    qed
    show "(k, m) \<in> set (mq_locks ?q)" if "p \<in> set ps" "uses k m p" for p k m
      using D(6) [OF that] by simp
    show "how_many (inside m) ps = of_bool (fl_held (mq_heap ?q ! m))" if "m < length (mq_heap ?q)" for m
    proof (cases "m = ?l")
      case True
      have "\<forall>p \<in> set ps. \<not> inside ?l p" using fresh inside_uses by blast
      then have "how_many (inside ?l) ps = 0" by (simp add: how_many_none)
      with True show ?thesis by simp
    next
      case False
      with that D(7) [of m] show ?thesis by (simp add: nth_append)
    qed
  qed simp
  with acq None show ?thesis by (auto simp: acquire_def Let_def)
qed

lemma queue_ok_release:
  assumes ok: "queue_ok (q, ps)" and i: "i < length ps" "ps ! i = Leaving key l"
  shows "queue_ok (release_lock q key l, ps[i := Away])"
proof -
  note D = queue_okD [OF ok]
  have "ps ! i \<in> set ps" using i(1) by simp
  then have kl: "(key, l) \<in> set (mq_locks q)" using D(6) [of "ps ! i" key l] i(2) by simp
  then have map: "map_of (mq_locks q) key = Some l" using D(1) by simp
  define q1 where "q1 = add_refs (-1) l q"
  have u: "how_many (uses k m) (ps[i := Away]) = how_many (uses k m) ps - of_bool (k = key \<and> m = l)" for k m
    using i(2) by (auto simp: how_many_update [OF i(1)])
  have refs: "m < length (mq_heap q1) \<and> fl_refs (mq_heap q1 ! m) = how_many (uses k m) (ps[i := Away]) \<and>
      (m \<noteq> l \<longrightarrow> 0 < fl_refs (mq_heap q1 ! m))" if "(k, m) \<in> set (mq_locks q)" for k m
    using that D(3-5) [of k m] one_lock [OF ok kl, of k] by (auto simp: q1_def u)
  have held: "how_many (inside m) (ps[i := Away]) = of_bool (fl_held (mq_heap q1 ! m))" if "m < length (mq_heap q1)" for m
    using that D(7) [of m] i(2) by (simp add: q1_def how_many_update [OF i(1)])
  have known: "(k, m) \<in> set (mq_locks q)" if "x \<in> set (ps[i := Away])" "uses k m x" for x k m
    using in_update [OF that(1)] that(2) D(6) [of x k m] by auto
  have pos: "0 \<le> fl_refs (mq_heap q1 ! l)" using refs [OF kl] by simp
  show ?thesis
  proof (cases "fl_refs (mq_heap q1 ! l) = 0")
    case True
    let ?q = "q1\<lparr>mq_locks := filter (\<lambda>kl. fst kl \<noteq> key) (mq_locks q)\<rparr>"
    have "release_lock q key l = ?q"
      using True map by (simp add: release_lock_def Let_def q1_def)
    moreover have "queue_ok (?q, ps[i := Away])"
    proof (rule queue_okI)
      show "distinct (map fst (mq_locks ?q))" "distinct (map snd (mq_locks ?q))"
        using D(1,2) by (simp_all add: distinct_map_filter)
      show "m < length (mq_heap ?q) \<and> fl_refs (mq_heap ?q ! m) = how_many (uses k m) (ps[i := Away]) \<and>
          0 < fl_refs (mq_heap ?q ! m)" if "(k, m) \<in> set (mq_locks ?q)" for k m
        using that refs [of k m] one_lock [OF ok kl, of k] by auto
      show "(k, m) \<in> set (mq_locks ?q)" if x: "x \<in> set (ps[i := Away])" "uses k m x" for x k m
      proof -
        have km: "(k, m) \<in> set (mq_locks q)" by (rule known [OF x])
        have "k \<noteq> key"
        proof
          assume "k = key"
          with one_key [OF ok kl] km have "m = l" by blast
          with \<open>k = key\<close> x refs [OF kl] True have "how_many (uses k m) (ps[i := Away]) = 0" by simp
          with x show False by (auto simp: how_many_none)
        qed
        with km show ?thesis by simp
      qed
      show "how_many (inside m) (ps[i := Away]) = of_bool (fl_held (mq_heap ?q ! m))" if "m < length (mq_heap ?q)" for m
        using that held [of m] by simp
    qed
    ultimately show ?thesis by simp
  next
    case False
    then have "release_lock q key l = q1" by (simp add: release_lock_def Let_def q1_def)
    moreover have "queue_ok (q1, ps[i := Away])"
    proof (rule queue_okI)
      show "distinct (map fst (mq_locks q1))" "distinct (map snd (mq_locks q1))" using D(1,2) by (simp_all add: q1_def)
      show "m < length (mq_heap q1) \<and> fl_refs (mq_heap q1 ! m) = how_many (uses k m) (ps[i := Away]) \<and>
          0 < fl_refs (mq_heap q1 ! m)" if "(k, m) \<in> set (mq_locks q1)" for k m
        using that refs [of k m] pos False by (cases "m = l") (auto simp: q1_def less_le)
      show "(k, m) \<in> set (mq_locks q1)" if "x \<in> set (ps[i := Away])" "uses k m x" for x k m
        using known [OF that] by (simp add: q1_def)
    qed (rule held)
    ultimately show ?thesis by simp
  qed
qed

lemma queue_ok_step: "caller_step w w' \<Longrightarrow> queue_ok w \<Longrightarrow> queue_ok w'"
proof (induction rule: caller_step.induct)
  case (enter i ps q key q' l)
  from queue_ok_acquire [OF enter.prems enter.hyps] show ?case .
next
  case (lock i ps key l q)
  then show ?case by (intro queue_ok_held) simp_all
next
  case (unlock i ps key l q)
  then show ?case by (intro queue_ok_held [where key = key]) simp_all
next
  case (leave i ps key l q)
  from queue_ok_release [OF leave.prems leave.hyps] show ?case .
qed

lemma reachable_ok: "reachable n w \<Longrightarrow> queue_ok w"
proof (induction rule: reachable.induct)
  case start
  show ?case by (auto simp: queue_ok_def NewFileMutationQueue_def)
qed (rule queue_ok_step)

section \<open>Mutual exclusion\<close>

text \<open>C9: However the callers of the mutation queue interleave, two of them are never inside their
  functions for the same path at the same time; a lock that someone holds or waits for is never
  evicted, since its references are exactly the callers using it; and when all callers are away the
  queue holds no lock.
\<close>

theorem mutation_queue_exclusive:
  assumes "reachable n (q, ps)"
  shows "(\<forall>i j key l l'. i < length ps \<and> j < length ps \<and> ps ! i = Inside key l \<and> ps ! j = Inside key l' \<longrightarrow> i = j) \<and>
    (\<forall>p \<in> set ps. \<forall>key l. uses key l p \<longrightarrow> map_of (mq_locks q) key = Some l \<and>
       fl_refs (mq_heap q ! l) = how_many (uses key l) ps) \<and>
    ((\<forall>p \<in> set ps. p = Away) \<longrightarrow> mq_locks q = [])"
proof (intro conjI allI impI ballI)
  note ok = reachable_ok [OF assms]
  note D = queue_okD [OF ok]
  fix i j key l l'
  assume ij: "i < length ps \<and> j < length ps \<and> ps ! i = Inside key l \<and> ps ! j = Inside key l'"
  have "ps ! i \<in> set ps" "ps ! j \<in> set ps" using nth_mem [of i ps] nth_mem [of j ps] ij by blast+
  with ij D(6) [of "ps ! i" key l] D(6) [of "ps ! j" key l'] have m: "(key, l) \<in> set (mq_locks q)" "(key, l') \<in> set (mq_locks q)"
    by simp_all
  from one_key [OF ok m] have l: "l' = l" .
  from D(7) [OF D(3) [OF m(1)]] have "how_many (inside l) ps \<le> 1" by simp
  with how_many_two [of i ps j "inside l"] ij l show "i = j" by fastforce
next
  note ok = reachable_ok [OF assms]
  note D = queue_okD [OF ok]
  fix p key l
  assume "p \<in> set ps" "uses key l p"
  from D(6) [OF this] have m: "(key, l) \<in> set (mq_locks q)" .
  with D(1) show "map_of (mq_locks q) key = Some l" by simp
  from D(4) [OF m] show "fl_refs (mq_heap q ! l) = how_many (uses key l) ps" .
next
  note ok = reachable_ok [OF assms]
  note D = queue_okD [OF ok]
  assume away: "\<forall>p \<in> set ps. p = Away"
  show "mq_locks q = []"
  proof (rule ccontr)
    assume "mq_locks q \<noteq> []"
    then obtain key l where m: "(key, l) \<in> set (mq_locks q)" by (cases "mq_locks q") auto
    have "how_many (uses key l) ps = 0" using away by (auto simp: how_many_none)
    with D(4,5) [OF m] show False by simp
  qed
qed

text \<open>Names that resolve to one existing file have one key, so their callers exclude each other.\<close>

lemma aliases_share_key:
  assumes "abs_path f = Inr p" "abs_path g = Inr p'" "eval_links p = Inr real_path" "eval_links p' = Inr real_path"
  shows "mutationQueueKey abs_path eval_links f = mutationQueueKey abs_path eval_links g"
  using assms by (simp add: mutationQueueKey_def)

text \<open>Two callers of one path: the second waits.\<close>

definition one_waits :: world where
  "one_waits = (\<lparr>mq_locks = [(''f'', 0)], mq_heap = [\<lparr>fl_held = True, fl_refs = 2\<rparr>]\<rparr>, [Inside ''f'' 0, Waiting ''f'' 0])"

lemma one_waits_reachable: "reachable 2 one_waits"
proof -
  let ?q1 = "\<lparr>mq_locks = [(''f'', 0)], mq_heap = [\<lparr>fl_held = False, fl_refs = 1\<rparr>]\<rparr>"
  let ?q2 = "\<lparr>mq_locks = [(''f'', 0)], mq_heap = [\<lparr>fl_held = False, fl_refs = 2\<rparr>]\<rparr>"
  have "reachable 2 (NewFileMutationQueue, [Away, Away])" using reachable.start [of 2] by (simp add: numeral_2_eq_2)
  moreover have "caller_step (NewFileMutationQueue, [Away, Away]) (?q1, [Waiting ''f'' 0, Away])"
    using enter [of 0 "[Away, Away]" NewFileMutationQueue "''f''"]
    by (simp add: acquire_def NewFileMutationQueue_def add_refs_def)
  moreover have "caller_step (?q1, [Waiting ''f'' 0, Away]) (?q2, [Waiting ''f'' 0, Waiting ''f'' 0])"
    using enter [of 1 "[Waiting ''f'' 0, Away]" ?q1 "''f''"] by (simp add: acquire_def add_refs_def)
  moreover have "caller_step (?q2, [Waiting ''f'' 0, Waiting ''f'' 0]) one_waits"
    using lock [of 0 "[Waiting ''f'' 0, Waiting ''f'' 0]" "''f''" 0 ?q2] by (simp add: set_held_def one_waits_def)
  ultimately show ?thesis by (blast intro: reachable.step)
qed

theorem mutation_queue_exclusive_witness:
  "map_of (mq_locks (fst one_waits)) ''f'' = Some 0 \<and>
   fl_refs (mq_heap (fst one_waits) ! 0) = how_many (uses ''f'' 0) (snd one_waits)"
proof -
  have "reachable 2 (fst one_waits, snd one_waits)" using one_waits_reachable by simp
  from mutation_queue_exclusive [OF this] show ?thesis by (simp add: one_waits_def)
qed

text \<open>No deadlock: some caller that is not away can move.\<close>

lemma mutation_queue_moves:
  assumes "reachable n (q, ps)" "i < length ps" "ps ! i \<noteq> Away"
  shows "\<exists>j w'. j < length ps \<and> ps ! j \<noteq> Away \<and> caller_step (q, ps) w' \<and> snd w' ! j \<noteq> ps ! j"
proof -
  note D = queue_okD [OF reachable_ok [OF assms(1)]]
  have go: ?thesis if "j < length ps" "ps ! j = Inside key l \<or> ps ! j = Leaving key l" for j key l
    using that(2)
  proof
    assume "ps ! j = Inside key l"
    with unlock [OF that(1) this] that(1) show ?thesis by (intro exI [of _ j]) force
  next
    assume "ps ! j = Leaving key l"
    with leave [OF that(1) this] that(1) show ?thesis by (intro exI [of _ j]) force
  qed
  consider key l where "ps ! i = Inside key l \<or> ps ! i = Leaving key l" | key l where "ps ! i = Waiting key l"
    using assms(3) by (cases "ps ! i") auto
  then show ?thesis
  proof cases
    case 1
    with go [OF assms(2)] show ?thesis by blast
  next
    case (2 key l)
    show ?thesis
    proof (cases "fl_held (mq_heap q ! l)")
      case True
      have "ps ! i \<in> set ps" using assms(2) by simp
      with 2 D(6) [of "ps ! i" key l] D(3) [of key l] have "l < length (mq_heap q)" by simp
      from D(7) [OF this] True have "how_many (inside l) ps \<noteq> 0" by simp
      then obtain j where j: "j < length ps" "inside l (ps ! j)" by (auto simp: how_many_none in_set_conv_nth)
      then obtain k where "ps ! j = Inside k l" by (cases "ps ! j") auto
      with go [OF j(1)] show ?thesis by blast
    next
      case False
      from lock [OF assms(2) 2 False] assms(2) 2 show ?thesis by (intro exI [of _ i]) force
    qed
  qed
qed

end
