(* ===== verification/Output_Accumulator.thy ===== *)
theory Output_Accumulator
  imports Truncate
begin

text \<open>
  The output accumulator of \<open>internal/toolio/toolio.go\<close>: the bytes of a command are decoded as they
  come, a rolling tail of the text is kept in memory, and output beyond the limits is spilled to a
  temporary file.  The file is its content and whether it is open; what the file system answers is an
  argument of each operation.  The window of the text is compared with the whole of it.
\<close>

section \<open>State\<close>

record output_accumulator =
  oa_max_lines :: int
  oa_max_bytes :: int
  oa_max_rolling :: int
  oa_prefix :: string
  oa_pending :: string
  oa_raw :: "string list"
  oa_tail :: string
  oa_tail_bytes :: int
  oa_boundary :: bool
  oa_total_raw :: int
  oa_total_decoded :: int
  oa_completed :: int
  oa_total_lines :: int
  oa_current_line :: int
  oa_open_line :: bool
  oa_finished :: bool
  oa_path :: string
  oa_file_open :: bool
  oa_disk :: string

record accumulator_options =
  ao_max_lines :: int
  ao_max_bytes :: int
  ao_prefix :: string

text \<open>Creating a temporary file gives an error or its name; a write, after the content so far, may fail.\<close>

record spill_env =
  se_create :: "string \<Rightarrow> string + string"
  se_write :: "string \<Rightarrow> string \<Rightarrow> string option"

definition NewOutputAccumulator :: "accumulator_options \<Rightarrow> output_accumulator" where
  "NewOutputAccumulator opts =
     (let maxLines = (if ao_max_lines opts = 0 then DefaultMaxLines else ao_max_lines opts);
          maxBytes = (if ao_max_bytes opts = 0 then DefaultMaxBytes else ao_max_bytes opts);
          prefix0 = (if ao_prefix opts = [] then ''harness-output'' else ao_prefix opts);
          rolling = wrap64 (maxBytes * 2)
      in \<lparr>oa_max_lines = maxLines, oa_max_bytes = maxBytes, oa_max_rolling = (if rolling < 1 then 1 else rolling),
          oa_prefix = prefix0, oa_pending = [], oa_raw = [], oa_tail = [], oa_tail_bytes = 0, oa_boundary = True,
          oa_total_raw = 0, oa_total_decoded = 0, oa_completed = 0, oa_total_lines = 0, oa_current_line = 0,
          oa_open_line = False, oa_finished = False, oa_path = [], oa_file_open = False, oa_disk = []\<rparr>)"

section \<open>Decoding\<close>

text \<open>\<open>utf8.FullRune\<close>: the bytes begin with a complete encoding, or with one that is invalid already.\<close>

definition full_rune :: "string \<Rightarrow> bool" where
  "full_rune s \<longleftrightarrow>
     (case s of [] \<Rightarrow> False
      | c0 # s1 \<Rightarrow>
          (let b0 = byte c0 in
           if 0xC2 \<le> b0 \<and> b0 \<le> 0xDF then s1 \<noteq> []
           else if 0xE0 \<le> b0 \<and> b0 \<le> 0xEF then
             (case s1 of [] \<Rightarrow> False | [c1] \<Rightarrow> \<not> second_ok b0 (byte c1) | _ \<Rightarrow> True)
           else if 0xF0 \<le> b0 \<and> b0 \<le> 0xF4 then
             (case s1 of [] \<Rightarrow> False | [c1] \<Rightarrow> \<not> second_ok b0 (byte c1)
              | [c1, c2] \<Rightarrow> \<not> second_ok b0 (byte c1) \<or> \<not> cont_byte c2 | _ \<Rightarrow> True)
           else True))"

text \<open>The runes read and the bytes left for later.\<close>

function decode_loop :: "bool \<Rightarrow> string \<Rightarrow> rune list \<times> string" where
  "decode_loop final buf =
     (if buf = [] then ([], [])
      else if \<not> final \<and> \<not> full_rune buf then ([], buf)
      else (let (r, w) = decode_rune buf in apfst (Cons r) (decode_loop final (drop w buf))))"
  by pat_completeness auto
termination
proof (relation "measure (\<lambda>(_, buf). length buf)")
  fix final buf x r w
  assume "buf \<noteq> []" "x = decode_rune buf" "(r, w) = x"
  with decode_rune_width [of buf] have "0 < w" by (metis snd_conv)
  with \<open>buf \<noteq> []\<close> show "((final, drop w buf), final, buf) \<in> measure (\<lambda>(_, buf). length buf)"
    by (simp add: length_pos_drop_less)
qed simp

declare decode_loop.simps [simp del]

definition decode :: "string \<Rightarrow> bool \<Rightarrow> output_accumulator \<Rightarrow> string \<times> output_accumulator" where
  "decode data final a =
     (let (rs, rest) = decode_loop final (oa_pending a @ data) in (string_of_runes rs, a\<lparr>oa_pending := rest\<rparr>))"

section \<open>The rolling tail\<close>

definition trimTail :: "output_accumulator \<Rightarrow> output_accumulator" where
  "trimTail a =
     (let buffer = oa_tail a; rolling = nat (oa_max_rolling a) in
      if len buffer \<le> oa_max_rolling a then a\<lparr>oa_tail_bytes := len buffer\<rparr>
      else
        (let rest = dropWhile is_cont (drop (length buffer - rolling) buffer);
             start = length buffer - length rest
         in a\<lparr>oa_boundary := (if start \<noteq> 0 then buffer ! (start - 1) = NL else oa_boundary a),
              oa_tail := rest, oa_tail_bytes := len rest\<rparr>))"

definition after_newline :: "string \<Rightarrow> string" where
  "after_newline s = rev (takeWhile (\<lambda>c. c \<noteq> NL) (rev s))"

definition appendDecodedText :: "string \<Rightarrow> output_accumulator \<Rightarrow> output_accumulator" where
  "appendDecodedText s a =
     (if s = [] then a
      else
        (let a1 = a\<lparr>oa_total_decoded := oa_total_decoded a + len s, oa_tail := oa_tail a @ s,
               oa_tail_bytes := oa_tail_bytes a + len s\<rparr>;
             a2 = (if oa_tail_bytes a1 > oa_max_rolling a1 * 2 then trimTail a1 else a1);
             newlines = int (count_list s NL);
             a3 = (if newlines = 0 then a2\<lparr>oa_current_line := oa_current_line a2 + len s, oa_open_line := True\<rparr>
                   else a2\<lparr>oa_completed := oa_completed a2 + newlines, oa_current_line := len (after_newline s),
                     oa_open_line := after_newline s \<noteq> []\<rparr>)
         in a3\<lparr>oa_total_lines := oa_completed a3 + (if oa_open_line a3 then 1 else 0)\<rparr>))"

definition getSnapshotText :: "output_accumulator \<Rightarrow> string" where
  "getSnapshotText a =
     (if oa_boundary a then oa_tail a
      else if NL \<notin> set (oa_tail a) then oa_tail a
      else tl (dropWhile (\<lambda>c. c \<noteq> NL) (oa_tail a)))"

section \<open>The spill file\<close>

definition shouldUseTempFile :: "output_accumulator \<Rightarrow> bool" where
  "shouldUseTempFile a \<longleftrightarrow>
     oa_total_raw a > oa_max_bytes a \<or> oa_total_decoded a > oa_max_bytes a \<or> oa_total_lines a > oa_max_lines a"

definition cleanupTempFile :: "output_accumulator \<Rightarrow> output_accumulator" where
  "cleanupTempFile a = a\<lparr>oa_file_open := False, oa_path := [], oa_disk := []\<rparr>"

fun write_chunks :: "spill_env \<Rightarrow> string list \<Rightarrow> string \<Rightarrow> string + string" where
  "write_chunks en [] disk = Inr disk"
| "write_chunks en (c # cs) disk =
     (case se_write en disk c of Some err \<Rightarrow> Inl err | None \<Rightarrow> write_chunks en cs (disk @ c))"

definition ensureTempFile :: "spill_env \<Rightarrow> output_accumulator \<Rightarrow> output_accumulator \<times> string option" where
  "ensureTempFile en a =
     (if oa_path a \<noteq> [] then (a, None)
      else case se_create en (oa_prefix a @ ''-*.log'') of
        Inl err \<Rightarrow> (a, Some err)
      | Inr name \<Rightarrow>
          (let a1 = a\<lparr>oa_path := name, oa_file_open := True, oa_disk := []\<rparr> in
           case write_chunks en (oa_raw a) [] of
             Inl err \<Rightarrow> (cleanupTempFile a1, Some err)
           | Inr disk \<Rightarrow> (a1\<lparr>oa_disk := disk, oa_raw := []\<rparr>, None)))"

definition CloseTempFile :: "output_accumulator \<Rightarrow> output_accumulator" where
  "CloseTempFile a = a\<lparr>oa_file_open := False\<rparr>"

section \<open>Operations\<close>

definition decoded :: "string \<Rightarrow> bool \<Rightarrow> output_accumulator \<Rightarrow> output_accumulator" where
  "decoded data final a = (let (s, a1) = decode data final a in appendDecodedText s a1)"

definition Append :: "spill_env \<Rightarrow> output_accumulator \<Rightarrow> string \<Rightarrow> output_accumulator \<times> string option" where
  "Append en a data =
     (if oa_finished a then (a, Some ''Cannot append to a finished output accumulator'')
      else
        (let a1 = decoded data False (a\<lparr>oa_total_raw := oa_total_raw a + len data\<rparr>) in
         if oa_file_open a1 \<or> shouldUseTempFile a1 then
           (case ensureTempFile en a1 of
              (a2, Some err) \<Rightarrow> (a2, Some err)
            | (a2, None) \<Rightarrow>
                if \<not> oa_file_open a2 then (a2, None)
                else (case se_write en (oa_disk a2) data of
                    None \<Rightarrow> (a2\<lparr>oa_disk := oa_disk a2 @ data\<rparr>, None)
                  | Some err \<Rightarrow> (cleanupTempFile a2, Some err)))
         else (a1\<lparr>oa_raw := oa_raw a1 @ (if data \<noteq> [] then [data] else [])\<rparr>, None)))"

definition Finish :: "spill_env \<Rightarrow> output_accumulator \<Rightarrow> output_accumulator \<times> string option" where
  "Finish en a =
     (if oa_finished a then (a, None)
      else
        (let a1 = decoded [] True (a\<lparr>oa_finished := True\<rparr>) in
         if shouldUseTempFile a1 then ensureTempFile en a1 else (a1, None)))"

record output_snapshot =
  on_content :: string
  on_truncation :: trunc_result
  on_path :: string

text \<open>The outer option is the panic of \<^const>\<open>Tail\<close> for a negative line limit.\<close>

definition Snapshot ::
  "spill_env \<Rightarrow> bool \<Rightarrow> output_accumulator \<Rightarrow> (output_accumulator \<times> (string + output_snapshot)) option" where
  "Snapshot en persist a =
     (case Tail (getSnapshotText a) \<lparr>opt_max_lines = Some (oa_max_lines a), opt_max_bytes = Some (oa_max_bytes a)\<rparr> of
        None \<Rightarrow> None
      | Some t \<Rightarrow>
          (let cut = (oa_total_lines a > oa_max_lines a \<or> oa_total_decoded a > oa_max_bytes a);
               by0 = (if cut \<and> TruncatedBy t = [] then
                        (if oa_total_decoded a > oa_max_bytes a then TruncatedByBytes else TruncatedByLines)
                      else TruncatedBy t);
               t' = t\<lparr>Truncated := cut, TruncatedBy := by0, TotalLines := oa_total_lines a,
                 TotalBytes := oa_total_decoded a, MaxLines := oa_max_lines a, MaxBytes := oa_max_bytes a\<rparr>;
               (a', err) = (if persist \<and> cut then ensureTempFile en a else (a, None))
           in Some (case err of
                Some e \<Rightarrow> (a', Inl e)
              | None \<Rightarrow> (a', Inr \<lparr>on_content = Content t', on_truncation = t', on_path = oa_path a'\<rparr>))))"

text \<open>A run: the pieces of output with what the file system answers to each, up to the first error.\<close>

fun append_all :: "(spill_env \<times> string) list \<Rightarrow> output_accumulator \<Rightarrow> output_accumulator \<times> string option" where
  "append_all [] a = (a, None)"
| "append_all ((en, data) # ds) a =
     (case Append en a data of (a', None) \<Rightarrow> append_all ds a' | (a', Some err) \<Rightarrow> (a', Some err))"

definition run_output :: "accumulator_options \<Rightarrow> (spill_env \<times> string) list \<Rightarrow> spill_env \<Rightarrow> output_accumulator \<times> string option" where
  "run_output opts ds en =
     (case append_all ds (NewOutputAccumulator opts) of
        (a, Some err) \<Rightarrow> (a, Some err) | (a, None) \<Rightarrow> Finish en a)"

section \<open>How the bytes are cut does not change the text\<close>

lemma full_rune_decode: "full_rune s \<Longrightarrow> decode_rune (s @ t) = decode_rune s"
proof (cases s)
  case (Cons c0 s1)
  assume f: "full_rune s"
  consider "s1 = []" | c1 where "s1 = [c1]" | c1 c2 where "s1 = [c1, c2]" | c1 c2 c3 s4 where "s1 = c1 # c2 # c3 # s4"
    by (cases s1; cases "tl s1"; cases "tl (tl s1)") auto
  then show ?thesis
    using f by cases (simp_all add: Cons full_rune_def decode_rune_def Let_def split: if_splits list.split, blast)
qed (simp add: full_rune_def)

lemma full_rune_nonempty: "full_rune s \<Longrightarrow> s \<noteq> []"
  by (auto simp: full_rune_def)

lemma runes_step: "s \<noteq> [] \<Longrightarrow> decode_rune s = (r, w) \<Longrightarrow> runes s = r # runes (drop w s)"
  by (simp add: runes_def rune_segments.simps [of s])

lemma runes_Nil [simp]: "runes [] = []"
  by (simp add: runes_def rune_segments.simps)

text \<open>What is read does not depend on what follows, and what is left is read later.\<close>

lemma decode_loop_runes: "decode_loop False buf = (rs, rest) \<Longrightarrow> runes (buf @ t) = rs @ runes (rest @ t)"
proof (induction False buf arbitrary: rs rule: decode_loop.induct)
  case (1 buf)
  show ?case
  proof (cases "buf = [] \<or> \<not> full_rune buf")
    case True
    with 1(2) show ?thesis by (auto simp: decode_loop.simps [of False buf] split: if_splits)
  next
    case False
    then have f: "buf \<noteq> []" "full_rune buf" by simp_all
    obtain r w where d: "decode_rune buf = (r, w)" by (cases "decode_rune buf")
    obtain rs' rest' where l: "decode_loop False (drop w buf) = (rs', rest')" by (cases "decode_loop False (drop w buf)")
    with 1(2) f d have rs: "rs = r # rs'" "rest = rest'" by (simp_all add: decode_loop.simps [of False buf])
    have w: "w \<le> length buf" using decode_rune_width [OF f(1)] d by simp
    from runes_step [of "buf @ t" r w] full_rune_decode [OF f(2), of t] d f(1) w
    have "runes (buf @ t) = r # runes (drop w buf @ t)" by simp
    with 1(1) [OF f(1) _ d [symmetric] refl, of rs'] f(2) l rs show ?thesis by simp
  qed
qed

lemma decode_loop_final: "decode_loop True buf = (runes buf, [])"
proof (induction True buf rule: decode_loop.induct)
  case (1 buf)
  show ?case
  proof (cases "buf = []")
    case False
    obtain r w where d: "decode_rune buf = (r, w)" by (cases "decode_rune buf")
    with 1 [OF False _ d [symmetric] refl] False runes_step [OF False d] show ?thesis
      by (simp add: decode_loop.simps [of True buf])
  qed (simp add: decode_loop.simps)
qed

section \<open>Valid text\<close>

lemma byte_char_of: "n < 256 \<Longrightarrow> byte (char_of n) = n"
  by simp

lemma encode_rune_shape:
  "encode_rune r \<noteq> [] \<and> \<not> is_cont (hd (encode_rune r)) \<and> length (encode_rune r) \<le> 4"
proof -
  define v where "v = (if (0xD800 \<le> r \<and> r \<le> 0xDFFF) \<or> 0x10FFFF < r then rune_error else r)"
  have v: "v \<le> 0x10FFFF" by (auto simp: v_def rune_error_def)
  have e: "encode_rune r = (if v < 0x80 then [char_of v]
     else if v < 0x800 then [char_of (0xC0 + v div 64), char_of (0x80 + v mod 64)]
     else if v < 0x10000 then
       [char_of (0xE0 + v div 4096), char_of (0x80 + v div 64 mod 64), char_of (0x80 + v mod 64)]
     else [char_of (0xF0 + v div 262144), char_of (0x80 + v div 4096 mod 64),
           char_of (0x80 + v div 64 mod 64), char_of (0x80 + v mod 64)])"
    by (simp add: encode_rune_def v_def [symmetric] Let_def)
  have "v div 64 < 32" if "v < 0x800" using that by simp
  moreover have "v div 4096 < 16" if "v < 0x10000" using that by simp
  moreover have "v div 262144 < 5" using v by simp
  ultimately show ?thesis by (auto simp: e is_cont_def)
qed

lemma string_of_runes_Cons: "string_of_runes (r # rs) = encode_rune r @ string_of_runes rs"
  by (simp add: string_of_runes_def)

lemma hd_valid: "string_of_runes rs \<noteq> [] \<Longrightarrow> \<not> is_cont (hd (string_of_runes rs))"
  using encode_rune_shape by (cases rs) (auto simp: string_of_runes_Cons, simp add: string_of_runes_def)

lemma conts_short: "length (takeWhile is_cont (drop n (string_of_runes rs))) \<le> 3"
proof (induction rs arbitrary: n)
  case Nil
  then show ?case by (simp add: string_of_runes_def)
next
  case (Cons r rs)
  note sh = encode_rune_shape [of r]
  have rest: "takeWhile is_cont (string_of_runes rs) = []"
    using hd_valid [of rs] by (cases "string_of_runes rs") auto
  show ?case
  proof (cases "n < length (encode_rune r)")
    case False
    then show ?thesis using Cons.IH [of "n - length (encode_rune r)"] by (simp add: string_of_runes_Cons)
  next
    case True
    show ?thesis
    proof (cases n)
      case 0
      with sh show ?thesis by (cases "encode_rune r") (auto simp: string_of_runes_Cons)
    next
      case (Suc m)
      have "length (takeWhile is_cont (drop n (encode_rune r) @ string_of_runes rs)) \<le> length (drop n (encode_rune r))"
      proof (cases "\<forall>x \<in> set (drop n (encode_rune r)). is_cont x")
        case True
        then have "takeWhile is_cont (drop n (encode_rune r) @ string_of_runes rs) = drop n (encode_rune r)"
          using rest by (simp add: takeWhile_append2)
        then show ?thesis by simp
      next
        case False
        then have "takeWhile is_cont (drop n (encode_rune r) @ string_of_runes rs) = takeWhile is_cont (drop n (encode_rune r))"
          by (auto simp: takeWhile_append1)
        then show ?thesis by (simp only: length_takeWhile_le)
      qed
      also have "\<dots> \<le> 3"
      proof -
        have "length (encode_rune r) \<le> 4" "1 \<le> n" using sh Suc by simp_all
        then show ?thesis unfolding length_drop by linarith
      qed
      finally show ?thesis using True by (simp add: string_of_runes_Cons)
    qed
  qed
qed

section \<open>Tails of a text and of a window of it\<close>

lemma tail_loop_stop:
  "tail_loop ml mb xs out ob = (out', ob', by, p) \<Longrightarrow> p \<or> length out' < length xs + length out \<Longrightarrow>
   tail_loop ml mb (xs @ ys) out ob = (out', ob', by, p)"
proof (induction xs arbitrary: out ob)
  case (Cons l xs)
  then show ?case by (auto simp: Let_def split: if_splits)
qed auto

lemma tail_loop_through:
  "tail_loop ml mb xs out ob = (out', ob', by, False) \<Longrightarrow> length out' = length xs + length out \<Longrightarrow>
   tail_loop ml mb (xs @ ys) out ob = tail_loop ml mb ys out' ob'"
proof (induction xs arbitrary: out ob)
  case (Cons l xs)
  then show ?case by (auto simp: Let_def split: if_splits)
qed auto

lemma len_join_suffix: "len (join [NL] zs) \<le> len (join [NL] (ys @ zs))"
proof (induction ys)
  case (Cons y ys)
  then show ?case using len_join_cons [of y "ys @ zs"] by (auto simp: len_def)
qed simp

lemma tail_loop_all:
  "len (join [NL] (rev xs @ out)) \<le> mb \<Longrightarrow> len xs + len out \<le> ml \<Longrightarrow> ob = len (join [NL] out) \<Longrightarrow>
   \<exists>by. tail_loop ml mb xs out ob = (rev xs @ out, len (join [NL] (rev xs @ out)), by, False)"
proof (induction xs arbitrary: out ob)
  case (Cons l xs)
  have m: "len out < ml" using Cons.prems(2) by (simp add: len_def)
  have pos: "len out > 0 \<longleftrightarrow> out \<noteq> []" by (auto simp: len_def)
  have b: "ob + (len l + (if len out > 0 then 1 else 0)) = len (join [NL] (l # out))"
    using Cons.prems(3) by (simp add: len_join_cons pos del: join.simps)
  have "len (join [NL] (l # out)) \<le> mb"
    using len_join_suffix [of "l # out" "rev xs"] Cons.prems(1) by (simp del: join.simps)
  then have run: "tail_loop ml mb (l # xs) out ob = tail_loop ml mb xs (l # out) (len (join [NL] (l # out)))"
    using m b by (simp add: Let_def del: join.simps)
  have "len (join [NL] (rev xs @ l # out)) \<le> mb" "len xs + len (l # out) \<le> ml" using Cons.prems(1,2) by (simp_all del: join.simps)
  from Cons.IH [OF this refl] run show ?case by (simp del: join.simps tail_loop.simps)
qed simp

lemma split_on_at: "split_on c (a @ c # b) = split_on c a @ split_on c b"
proof (induction a)
  case (Cons x a)
  obtain l ls where "split_on c a = l # ls" by (cases "split_on c a") auto
  with Cons show ?case by auto
qed simp

lemma lines_at: "splitLinesForCounting (c @ NL # s) = split_on NL c @ splitLinesForCounting s"
proof (cases "s = []")
  case True
  then show ?thesis by (simp add: splitLinesForCounting_def split_on_at suffix_def Let_def)
next
  case False
  then have "suffix [NL] (c @ NL # s) \<longleftrightarrow> suffix [NL] s"
    by (cases s rule: rev_cases) (auto simp: suffix_def)
  with False show ?thesis by (simp add: splitLinesForCounting_def split_on_at butlast_append Let_def)
qed

lemma lines_join: "s = join [NL] (splitLinesForCounting s) \<or> s = join [NL] (splitLinesForCounting s) @ [NL]"
proof (cases "suffix [NL] s")
  case True
  then obtain c where c: "s = c @ NL # []" by (auto simp: suffix_def)
  have "splitLinesForCounting s = split_on NL c" unfolding c lines_at by (simp add: splitLinesForCounting_def)
  then show ?thesis by (simp add: c)
next
  case False
  then show ?thesis by (cases "s = []") (simp_all add: splitLinesForCounting_def Let_def)
qed

lemma lines_nonempty: "s \<noteq> [] \<Longrightarrow> splitLinesForCounting s \<noteq> []"
proof -
  assume s: "s \<noteq> []"
  show ?thesis
  proof (cases "suffix [NL] s")
    case True
    then obtain c where c: "s = c @ NL # []" by (auto simp: suffix_def)
    show ?thesis unfolding c lines_at by simp
  next
    case False
    with s show ?thesis by (simp add: splitLinesForCounting_def Let_def)
  qed
qed

text \<open>The content of a tail is within its limits or that of the loop.\<close>

lemma Tail_content:
  assumes "limits o1 = (ml, mb)" "0 \<le> ml" "tail_loop ml mb (rev (splitLinesForCounting s)) [] 0 = (out, ob, by, p)"
  shows "\<exists>r. Tail s o1 = Some r \<and>
    Content r = (if len (splitLinesForCounting s) \<le> ml \<and> len s \<le> mb then s else join [NL] out)"
  using assms by (auto simp: Tail_def Let_def min_less_iff_disj)

lemma Tail_window_break:
  assumes lim: "limits o1 = (ml, mb)" "0 \<le> ml" "0 \<le> mb"
    and t: "t = c @ NL # s" "s \<noteq> []" "mb < len t" "mb < len s + len (last (split_on NL c))"
  shows "\<exists>r rs. Tail t o1 = Some r \<and> Tail s o1 = Some rs \<and> (Content rs = Content r \<or> Content rs = Content r @ [NL])"
proof -
  let ?A = "split_on NL c" and ?L = "splitLinesForCounting s"
  obtain out ob b p where loop: "tail_loop ml mb (rev ?L) [] 0 = (out, ob, b, p)" by (metis prod_cases4)
  obtain out2 ob2 b2 p2 where all: "tail_loop ml mb (rev ?L @ rev ?A) [] 0 = (out2, ob2, b2, p2)" by (metis prod_cases4)
  have revt: "rev (splitLinesForCounting t) = rev ?L @ rev ?A" by (simp add: t(1) lines_at)
  from Tail_content [OF lim(1,2), of t] all t(3) revt obtain r where r: "Tail t o1 = Some r" "Content r = join [NL] out2"
    by fastforce
  from Tail_content [OF lim(1,2) loop] obtain rs where
    rs: "Tail s o1 = Some rs" "Content rs = (if len ?L \<le> ml \<and> len s \<le> mb then s else join [NL] out)" by blast
  have L: "?L \<noteq> []" by (rule lines_nonempty [OF t(2)])
  have js: "len s \<le> len (join [NL] ?L) + 1"
    using lines_join [of s] by (metis len_simps(1,2,3) add_increasing2 order_refl zle_add1_eq_le zero_le_one add.commute add.right_neutral)
  have fit: "\<not> p \<and> out = ?L \<and> ob = len (join [NL] ?L)" if "len ?L \<le> ml" "len (join [NL] ?L) \<le> mb"
    using tail_loop_all [of "rev ?L" "[]" mb ml 0] that loop by (auto simp: len_def)
  show ?thesis
  proof (cases "p \<or> length out < length ?L")
    case True
    have "out2 = out" using tail_loop_stop [OF loop, of "rev ?A"] True all by simp
    moreover have "\<not> (len ?L \<le> ml \<and> len s \<le> mb)"
    proof
      assume a: "len ?L \<le> ml \<and> len s \<le> mb"
      have "len (join [NL] ?L) \<le> len s" using lines_join [of s] by (metis len_simps(3,4) le_add_same_cancel1 order_refl)
      with fit a True show False by auto
    qed
    ultimately show ?thesis using r rs by auto
  next
    case False
    from tail_loop_spec [OF loop] lim(2,3) False obtain k where
      k: "k \<le> length ?L" "out = rev (take k (rev ?L))" "len (join [NL] out) \<le> mb" "len out \<le> ml" by auto
    with False have out: "out = ?L" by (simp add: rev_take)
    with k fit have ob: "ob = len (join [NL] ?L)" by simp
    have through: "tail_loop ml mb (rev ?L @ rev ?A) [] 0 = tail_loop ml mb (rev ?A) ?L ob"
      using tail_loop_through [of ml mb "rev ?L" "[]" 0 out ob b "rev ?A"] loop False out by simp
    obtain ls l where A: "?A = ls @ [l]" by (cases ?A rule: rev_cases) auto
    have "0 < len ?L" using L by (simp add: len_def)
    moreover have "mb < ob + (len l + 1)" using js t(4) ob by (simp add: A)
    ultimately have "fst (tail_loop ml mb (rev ?A) ?L ob) = ?L" by (simp add: A Let_def)
    then have "out2 = ?L" unfolding through [symmetric] all by simp
    with r rs out lines_join [of s] show ?thesis by auto
  qed
qed

lemma truncate_longer: "mb < len s \<Longrightarrow> truncateStringToBytesFromEnd (x @ s) mb = truncateStringToBytesFromEnd s mb"
proof -
  assume a: "mb < len s"
  show ?thesis
  proof (cases "mb \<le> 0")
    case True
    with a show ?thesis by (auto simp: truncateStringToBytesFromEnd_def len_def)
  next
    case False
    with a have "nat (len (x @ s) - mb) = length x + nat (len s - mb)" by (simp add: len_def)
    with a False show ?thesis by (simp add: truncateStringToBytesFromEnd_def)
  qed
qed

lemma Tail_window_line:
  assumes lim: "limits o1 = (ml, mb)" "0 \<le> ml" "0 \<le> mb"
    and t: "splitLinesForCounting t = ls @ [x @ s]" "splitLinesForCounting s = [s]" "mb < len s" "mb < len t"
  shows "\<exists>r rs. Tail t o1 = Some r \<and> Tail s o1 = Some rs \<and> Content rs = Content r"
proof -
  have loop: "fst (tail_loop ml mb ((y @ s) # rest) [] 0) = (if 0 < ml then [truncateStringToBytesFromEnd s mb] else [])" for y rest
    using t(3) truncate_longer [OF t(3), of y] by (simp add: Let_def len_def)
  obtain out ob b p where a: "tail_loop ml mb (rev (splitLinesForCounting t)) [] 0 = (out, ob, b, p)" by (metis prod_cases4)
  obtain out2 ob2 b2 p2 where c: "tail_loop ml mb (rev (splitLinesForCounting s)) [] 0 = (out2, ob2, b2, p2)" by (metis prod_cases4)
  have "out = out2" using loop [of x "rev ls"] loop [of "[]" "[]"] a c by (simp add: t(1,2) del: tail_loop.simps)
  moreover obtain r where "Tail t o1 = Some r" "Content r = join [NL] out" using Tail_content [OF lim(1,2) a] t(4) by auto
  moreover obtain rs where "Tail s o1 = Some rs" "Content rs = join [NL] out2" using Tail_content [OF lim(1,2) c] t(3) by auto
  ultimately show ?thesis by simp
qed

section \<open>The accumulator describes the text\<close>

definition text_ok :: "output_accumulator \<Rightarrow> string \<Rightarrow> bool" where
  "text_ok a t \<longleftrightarrow>
     oa_total_decoded a = len t \<and> oa_tail_bytes a = len (oa_tail a) \<and> 1 \<le> oa_max_rolling a \<and>
     (\<exists>gone. t = gone @ oa_tail a \<and> (oa_boundary a \<longleftrightarrow> gone = [] \<or> last gone = NL) \<and>
        (gone \<noteq> [] \<longrightarrow> oa_max_rolling a \<le> len (oa_tail a) + 3 \<and> 2 * oa_max_rolling a < len t)) \<and>
     oa_completed a = int (count_list t NL) \<and> (oa_open_line a \<longleftrightarrow> t \<noteq> [] \<and> last t \<noteq> NL) \<and>
     oa_total_lines a = oa_completed a + (if oa_open_line a then 1 else 0)"

lemma split_on_count: "length (split_on c s) = Suc (count_list s c)"
  by (induction s) (auto split: list.splits)

lemma lines_count: "len (splitLinesForCounting t) = int (count_list t NL) + (if t \<noteq> [] \<and> last t \<noteq> NL then 1 else 0)"
  by (cases t rule: rev_cases) (auto simp: splitLinesForCounting_def len_def split_on_count suffix_def Let_def)

lemma text_ok_lines: "text_ok a t \<Longrightarrow> oa_total_lines a = len (splitLinesForCounting t)"
  by (simp add: text_ok_def lines_count)

lemma trimTail_keeps:
  "oa_total_decoded (trimTail a) = oa_total_decoded a" "oa_completed (trimTail a) = oa_completed a"
  "oa_max_rolling (trimTail a) = oa_max_rolling a" "oa_current_line (trimTail a) = oa_current_line a"
  "oa_open_line (trimTail a) = oa_open_line a"
  by (simp_all add: trimTail_def Let_def)

lemma trimTail_window:
  assumes "t = gone @ oa_tail a" "t = string_of_runes rs" "1 \<le> oa_max_rolling a" "oa_max_rolling a < len (oa_tail a)"
  shows "\<exists>gone'. gone' \<noteq> [] \<and> t = gone' @ oa_tail (trimTail a) \<and> (oa_boundary (trimTail a) \<longleftrightarrow> last gone' = NL) \<and>
    oa_tail_bytes (trimTail a) = len (oa_tail (trimTail a)) \<and> oa_max_rolling a \<le> len (oa_tail (trimTail a)) + 3"
proof -
  define buffer where "buffer = oa_tail a"
  define n where "n = length buffer - nat (oa_max_rolling a)"
  define rest where "rest = dropWhile is_cont (drop n buffer)"
  define start where "start = length buffer - length rest"
  have n: "0 < n" "n < length buffer" using assms(3,4) by (auto simp: n_def buffer_def len_def)
  have rest: "suffix rest buffer" unfolding rest_def using suffix_dropWhile suffix_drop suffix_order.trans by blast
  have le: "length rest \<le> length buffer - n" unfolding rest_def using length_dropWhile_le [of is_cont "drop n buffer"] by simp
  then have start: "0 < start" "start \<le> length buffer" using n by (auto simp: start_def)
  have cut_buffer: "buffer = take start buffer @ rest"
    using rest by (auto simp: start_def suffix_def)
  have trim: "oa_tail (trimTail a) = rest" "oa_boundary (trimTail a) = (buffer ! (start - 1) = NL)"
      "oa_tail_bytes (trimTail a) = len rest"
    using assms(4) start unfolding trimTail_def Let_def buffer_def [symmetric] n_def [symmetric] rest_def [symmetric]
        start_def [symmetric] by simp_all
  have "length (takeWhile is_cont (drop n buffer)) \<le> 3"
    using conts_short [of "length gone + n" rs] assms(1,2) by (simp add: buffer_def)
  moreover have "length (takeWhile is_cont (drop n buffer)) + length rest = length buffer - n"
    unfolding rest_def by (metis length_append length_drop takeWhile_dropWhile_id)
  ultimately have "length buffer - n \<le> length rest + 3" by linarith
  moreover have "length buffer - n = nat (oa_max_rolling a)" using assms(3,4) by (simp add: n_def buffer_def len_def)
  ultimately have long: "oa_max_rolling a \<le> len rest + 3" using assms(3) by (simp add: len_def)
  have ne: "take start buffer \<noteq> []" using start by auto
  have "last (take start buffer) = buffer ! (start - 1)"
    using start ne by (simp add: last_conv_nth min_def)
  then have "last (gone @ take start buffer) = buffer ! (start - 1)" using ne by simp
  moreover have "t = (gone @ take start buffer) @ rest" using assms(1) cut_buffer by (simp add: buffer_def)
  ultimately show ?thesis
    using ne long trim by (intro exI [of _ "gone @ take start buffer"]) simp
qed

lemma after_newline_last: "s \<noteq> [] \<Longrightarrow> after_newline s \<noteq> [] \<longleftrightarrow> last s \<noteq> NL"
  by (cases s rule: rev_cases) (simp_all add: after_newline_def)

lemma text_ok_append:
  assumes "text_ok a t" "t @ s = string_of_runes rs"
  shows "text_ok (appendDecodedText s a) (t @ s)"
proof (cases "s = []")
  case True
  with assms(1) show ?thesis by (simp add: appendDecodedText_def)
next
  case False
  define a1 where "a1 = a\<lparr>oa_total_decoded := oa_total_decoded a + len s, oa_tail := oa_tail a @ s,
    oa_tail_bytes := oa_tail_bytes a + len s\<rparr>"
  define a2 where "a2 = (if oa_tail_bytes a1 > oa_max_rolling a1 * 2 then trimTail a1 else a1)"
  from assms(1) obtain gone where gone: "t = gone @ oa_tail a" "oa_boundary a \<longleftrightarrow> gone = [] \<or> last gone = NL"
      "gone \<noteq> [] \<longrightarrow> oa_max_rolling a \<le> len (oa_tail a) + 3 \<and> 2 * oa_max_rolling a < len t"
    and r: "1 \<le> oa_max_rolling a" "oa_tail_bytes a = len (oa_tail a)" "oa_total_decoded a = len t"
    and c: "oa_completed a = int (count_list t NL)" "oa_open_line a \<longleftrightarrow> t \<noteq> [] \<and> last t \<noteq> NL"
    by (auto simp: text_ok_def)
  have a1: "oa_tail a1 = oa_tail a @ s" "oa_max_rolling a1 = oa_max_rolling a" "oa_tail_bytes a1 = len (oa_tail a1)"
      "oa_total_decoded a1 = len (t @ s)" "oa_completed a1 = oa_completed a" "oa_boundary a1 = oa_boundary a"
    by (simp_all add: a1_def r)
  have window: "oa_tail_bytes a2 = len (oa_tail a2) \<and> oa_max_rolling a2 = oa_max_rolling a \<and>
      oa_total_decoded a2 = len (t @ s) \<and> oa_completed a2 = oa_completed a \<and>
      (\<exists>gone. t @ s = gone @ oa_tail a2 \<and> (oa_boundary a2 \<longleftrightarrow> gone = [] \<or> last gone = NL) \<and>
        (gone \<noteq> [] \<longrightarrow> oa_max_rolling a2 \<le> len (oa_tail a2) + 3 \<and> 2 * oa_max_rolling a2 < len (t @ s)))"
  proof (cases "oa_tail_bytes a1 > oa_max_rolling a1 * 2")
    case True
    have long: "2 * oa_max_rolling a < len (oa_tail a1)" using True a1 by simp
    with r(1) have "oa_max_rolling a1 < len (oa_tail a1)" "1 \<le> oa_max_rolling a1" unfolding a1(2) by linarith+
    from trimTail_window [of "t @ s" gone a1 rs, OF _ assms(2) this(2,1)] gone(1) a1(1) obtain gone' where
      "gone' \<noteq> []" "t @ s = gone' @ oa_tail (trimTail a1)" "oa_boundary (trimTail a1) \<longleftrightarrow> last gone' = NL"
      "oa_tail_bytes (trimTail a1) = len (oa_tail (trimTail a1))" "oa_max_rolling a1 \<le> len (oa_tail (trimTail a1)) + 3"
      by auto
    moreover have "2 * oa_max_rolling a < len (t @ s)" using long gone(1) a1(1) by (simp add: len_def)
    ultimately show ?thesis using True a1 by (auto simp: a2_def trimTail_keeps)
  next
    case False
    have "oa_max_rolling a \<le> len (oa_tail a @ s) + 3 \<and> 2 * oa_max_rolling a < len (t @ s)" if "gone \<noteq> []"
      using gone(3) that by (auto simp: len_def)
    with False a1 gone show ?thesis by (auto simp: a2_def intro!: exI [of _ gone])
  qed
  define u where "u = t @ s"
  have u: "count_list u NL = count_list t NL + count_list s NL" "u \<noteq> []" "last u = last s"
    using False by (simp_all add: u_def)
  from window obtain g where w: "oa_tail_bytes a2 = len (oa_tail a2)" "oa_max_rolling a2 = oa_max_rolling a"
      "oa_total_decoded a2 = len u" "oa_completed a2 = oa_completed a"
    and g: "u = g @ oa_tail a2" "oa_boundary a2 \<longleftrightarrow> g = [] \<or> last g = NL"
      "g \<noteq> [] \<longrightarrow> oa_max_rolling a \<le> len (oa_tail a2) + 3 \<and> 2 * oa_max_rolling a < len u"
    unfolding u_def [symmetric] by (elim conjE exE) (rule that, (simp only: | assumption)+)
  have "\<exists>g. u = g @ oa_tail a2 \<and> (oa_boundary a2 \<longleftrightarrow> g = [] \<or> last g = NL) \<and>
      (g \<noteq> [] \<longrightarrow> oa_max_rolling a \<le> len (oa_tail a2) + 3 \<and> 2 * oa_max_rolling a < len u)"
    using g by (intro exI [of _ g] conjI)
  note parts = w this u r(1) c
  have "text_ok (appendDecodedText s a) u"
  proof (cases "count_list s NL = 0")
    case True
    then have "NL \<notin> set s" by (simp add: count_list_0_iff)
    then have "last s \<noteq> NL" using last_in_set [OF False] by auto
    have "appendDecodedText s a = (let a3 = a2\<lparr>oa_current_line := oa_current_line a2 + len s, oa_open_line := True\<rparr>
        in a3\<lparr>oa_total_lines := oa_completed a3 + (if oa_open_line a3 then 1 else 0)\<rparr>)"
      using False True by (simp add: appendDecodedText_def Let_def a1_def a2_def)
    with parts True \<open>last s \<noteq> NL\<close> show ?thesis by (simp add: text_ok_def Let_def)
  next
    case lines: False
    have "appendDecodedText s a = (let a3 = a2\<lparr>oa_completed := oa_completed a2 + int (count_list s NL),
        oa_current_line := len (after_newline s), oa_open_line := after_newline s \<noteq> []\<rparr>
        in a3\<lparr>oa_total_lines := oa_completed a3 + (if oa_open_line a3 then 1 else 0)\<rparr>)"
      using False lines by (simp add: appendDecodedText_def Let_def a1_def a2_def)
    with parts show ?thesis by (simp add: text_ok_def Let_def after_newline_last [OF False])
  qed
  then show ?thesis by (simp add: u_def)
qed

section \<open>A run\<close>

text \<open>The parts of the state that spilling leaves alone.\<close>

definition same_text :: "output_accumulator \<Rightarrow> output_accumulator \<Rightarrow> bool" where
  "same_text a a' \<longleftrightarrow>
     oa_total_decoded a' = oa_total_decoded a \<and> oa_tail_bytes a' = oa_tail_bytes a \<and> oa_tail a' = oa_tail a \<and>
     oa_max_rolling a' = oa_max_rolling a \<and> oa_boundary a' = oa_boundary a \<and> oa_completed a' = oa_completed a \<and>
     oa_open_line a' = oa_open_line a \<and> oa_total_lines a' = oa_total_lines a \<and> oa_pending a' = oa_pending a \<and>
     oa_finished a' = oa_finished a \<and> oa_max_lines a' = oa_max_lines a \<and> oa_max_bytes a' = oa_max_bytes a"

lemma same_text_ok: "same_text a a' \<Longrightarrow> text_ok a' t \<longleftrightarrow> text_ok a t"
  by (simp add: same_text_def text_ok_def)

lemma same_text_refl [simp]: "same_text a a"
  by (simp add: same_text_def)

lemma same_text_trans: "same_text a b \<Longrightarrow> same_text b c \<Longrightarrow> same_text a c"
  by (simp add: same_text_def)

lemma ensure_same: "same_text a (fst (ensureTempFile en a))"
  by (simp add: ensureTempFile_def cleanupTempFile_def same_text_def Let_def split: sum.split)

lemma decoded_keeps:
  "oa_path (decoded d f a) = oa_path a" "oa_file_open (decoded d f a) = oa_file_open a" "oa_disk (decoded d f a) = oa_disk a"
  "oa_raw (decoded d f a) = oa_raw a" "oa_finished (decoded d f a) = oa_finished a" "oa_max_lines (decoded d f a) = oa_max_lines a"
  "oa_max_bytes (decoded d f a) = oa_max_bytes a" "oa_max_rolling (decoded d f a) = oa_max_rolling a"
proof -
  have a: "oa_path (appendDecodedText s b) = oa_path b \<and> oa_file_open (appendDecodedText s b) = oa_file_open b \<and>
      oa_disk (appendDecodedText s b) = oa_disk b \<and> oa_raw (appendDecodedText s b) = oa_raw b \<and>
      oa_finished (appendDecodedText s b) = oa_finished b \<and> oa_max_lines (appendDecodedText s b) = oa_max_lines b \<and>
      oa_max_bytes (appendDecodedText s b) = oa_max_bytes b \<and> oa_max_rolling (appendDecodedText s b) = oa_max_rolling b \<and>
      oa_pending (appendDecodedText s b) = oa_pending b" for s b
    by (simp add: appendDecodedText_def trimTail_def Let_def)
  show "oa_path (decoded d f a) = oa_path a" "oa_file_open (decoded d f a) = oa_file_open a" "oa_disk (decoded d f a) = oa_disk a"
    "oa_raw (decoded d f a) = oa_raw a" "oa_finished (decoded d f a) = oa_finished a" "oa_max_lines (decoded d f a) = oa_max_lines a"
    "oa_max_bytes (decoded d f a) = oa_max_bytes a" "oa_max_rolling (decoded d f a) = oa_max_rolling a"
    by (simp_all add: decoded_def decode_def Let_def case_prod_beta a)
qed

lemma pending_appended: "oa_pending (appendDecodedText s b) = oa_pending b"
  by (simp add: appendDecodedText_def trimTail_def Let_def)

text \<open>The text so far is the decoding of the bytes so far but for the pending ones.\<close>

definition run_ok :: "output_accumulator \<Rightarrow> string \<Rightarrow> bool" where
  "run_ok a data \<longleftrightarrow>
     \<not> oa_finished a \<and>
     (\<exists>rs. text_ok a (string_of_runes rs) \<and> (\<forall>t. runes (data @ t) = rs @ runes (oa_pending a @ t)))"

text \<open>The bytes so far are in the file, once it exists, and else in the pieces.\<close>

definition file_ok :: "output_accumulator \<Rightarrow> string \<Rightarrow> bool" where
  "file_ok a data \<longleftrightarrow>
     (if oa_path a = [] then \<not> oa_file_open a \<and> concat (oa_raw a) = data else oa_file_open a \<and> oa_disk a = data)"

definition names_files :: "spill_env \<Rightarrow> bool" where
  "names_files en \<longleftrightarrow> (\<forall>p. se_create en p \<noteq> Inr [])"

lemma string_of_runes_append: "string_of_runes (rs @ rs') = string_of_runes rs @ string_of_runes rs'"
  by (simp add: string_of_runes_def)

lemma run_ok_same: "same_text a a' \<Longrightarrow> run_ok a' data \<longleftrightarrow> run_ok a data"
  by (simp add: run_ok_def same_text_ok) (simp add: same_text_def)

lemma run_ok_decoded:
  assumes "run_ok a data"
  shows "run_ok (decoded d False a) (data @ d)"
proof -
  from assms obtain rs where rs: "text_ok a (string_of_runes rs)" "\<And>t. runes (data @ t) = rs @ runes (oa_pending a @ t)"
    by (auto simp: run_ok_def)
  obtain new rest where l: "decode_loop False (oa_pending a @ d) = (new, rest)" by (cases "decode_loop False (oa_pending a @ d)")
  let ?a = "a\<lparr>oa_pending := rest\<rparr>"
  have d: "decoded d False a = appendDecodedText (string_of_runes new) ?a" by (simp add: decoded_def decode_def l)
  have "text_ok ?a (string_of_runes rs)" using rs(1) by (simp add: text_ok_def)
  from text_ok_append [OF this string_of_runes_append [symmetric]]
  have "text_ok (decoded d False a) (string_of_runes (rs @ new))" by (simp add: d string_of_runes_append)
  moreover have "runes ((data @ d) @ t) = (rs @ new) @ runes (oa_pending (decoded d False a) @ t)" for t
    using rs(2) [of "d @ t"] decode_loop_runes [OF l, of t] by (simp add: d pending_appended)
  moreover have "\<not> oa_finished (decoded d False a)" using assms by (simp add: decoded_keeps run_ok_def)
  ultimately show ?thesis unfolding run_ok_def by blast
qed

lemma write_chunks_disk: "write_chunks en cs disk = Inr disk' \<Longrightarrow> disk' = disk @ concat cs"
  by (induction cs arbitrary: disk) (fastforce split: option.splits)+

lemma ensure_file:
  assumes "ensureTempFile en a = (a', None)" "file_ok a data" "names_files en"
  shows "oa_path a' \<noteq> []" "oa_file_open a'" "oa_disk a' = data"
  using assms by (auto simp: ensureTempFile_def file_ok_def names_files_def Let_def dest: write_chunks_disk split: if_splits sum.splits)

lemma Append_ok:
  assumes "Append en a d = (a', None)" "run_ok a data" "file_ok a data" "names_files en"
  shows "run_ok a' (data @ d) \<and> file_ok a' (data @ d) \<and> oa_max_lines a' = oa_max_lines a \<and>
    oa_max_bytes a' = oa_max_bytes a \<and> oa_max_rolling a' = oa_max_rolling a"
proof -
  define a0 where "a0 = a\<lparr>oa_total_raw := oa_total_raw a + len d\<rparr>"
  define a1 where "a1 = decoded d False a0"
  have "same_text a a0" by (simp add: same_text_def a0_def)
  then have "run_ok a0 data" using assms(2) by (simp add: run_ok_same)
  from run_ok_decoded [OF this] have ok1: "run_ok a1 (data @ d)" by (simp add: a1_def)
  have f1: "file_ok a1 data" using assms(3) by (simp add: file_ok_def a1_def decoded_keeps a0_def)
  have lim: "oa_max_lines a1 = oa_max_lines a" "oa_max_bytes a1 = oa_max_bytes a" "oa_max_rolling a1 = oa_max_rolling a"
    by (simp_all add: a1_def a0_def decoded_keeps)
  have run: "Append en a d = (if oa_file_open a1 \<or> shouldUseTempFile a1 then
      (case ensureTempFile en a1 of
         (a2, Some err) \<Rightarrow> (a2, Some err)
       | (a2, None) \<Rightarrow>
           if \<not> oa_file_open a2 then (a2, None)
           else (case se_write en (oa_disk a2) d of
               None \<Rightarrow> (a2\<lparr>oa_disk := oa_disk a2 @ d\<rparr>, None)
             | Some err \<Rightarrow> (cleanupTempFile a2, Some err)))
      else (a1\<lparr>oa_raw := oa_raw a1 @ (if d \<noteq> [] then [d] else [])\<rparr>, None))"
    using assms(2) by (simp add: Append_def run_ok_def a1_def a0_def Let_def)
  show ?thesis
  proof (cases "oa_file_open a1 \<or> shouldUseTempFile a1")
    case True
    obtain a2 where e: "ensureTempFile en a1 = (a2, None)"
      using assms(1) True run by (auto split: prod.splits option.splits)
    note spilled = ensure_file [OF e f1 assms(4)]
    from e have s: "same_text a1 a2" using ensure_same [of a1 en] by simp
    have a': "a' = a2\<lparr>oa_disk := data @ d\<rparr>"
      using assms(1) True run e spilled by (auto split: option.splits)
    have "same_text a1 a'" using s by (simp add: same_text_def a')
    with ok1 have "run_ok a' (data @ d)" by (simp add: run_ok_same)
    moreover have "file_ok a' (data @ d)" using spilled by (simp add: file_ok_def a')
    ultimately show ?thesis using s lim by (simp add: same_text_def a')
  next
    case False
    have a': "a' = a1\<lparr>oa_raw := oa_raw a1 @ (if d \<noteq> [] then [d] else [])\<rparr>" using assms(1) False run by simp
    have "same_text a1 a'" by (simp add: same_text_def a')
    with ok1 have "run_ok a' (data @ d)" by (simp add: run_ok_same)
    moreover have "file_ok a' (data @ d)" using f1 False by (auto simp: file_ok_def a' split: if_splits)
    ultimately show ?thesis using lim by (simp add: a')
  qed
qed

lemma append_all_ok:
  "append_all ds a = (a', None) \<Longrightarrow> run_ok a data \<Longrightarrow> file_ok a data \<Longrightarrow> \<forall>(en, d) \<in> set ds. names_files en \<Longrightarrow>
   run_ok a' (data @ concat (map snd ds)) \<and> file_ok a' (data @ concat (map snd ds)) \<and> oa_max_lines a' = oa_max_lines a \<and>
   oa_max_bytes a' = oa_max_bytes a \<and> oa_max_rolling a' = oa_max_rolling a"
proof (induction ds arbitrary: a data)
  case (Cons x ds)
  obtain en d where x: "x = (en, d)" by (cases x)
  from Cons.prems(1) obtain a1 where s: "Append en a d = (a1, None)" "append_all ds a1 = (a', None)"
    by (auto simp: x split: prod.splits option.splits)
  from Append_ok [OF s(1) Cons.prems(2,3)] Cons.prems(4) have ok: "run_ok a1 (data @ d)" "file_ok a1 (data @ d)"
      "oa_max_lines a1 = oa_max_lines a" "oa_max_bytes a1 = oa_max_bytes a" "oa_max_rolling a1 = oa_max_rolling a"
    by (auto simp: x)
  from Cons.IH [OF s(2) ok(1,2)] Cons.prems(4) ok(3-5) show ?case by (simp add: x)
qed simp

lemma new_ok:
  "run_ok (NewOutputAccumulator opts) []" "file_ok (NewOutputAccumulator opts) []"
proof -
  have t: "text_ok (NewOutputAccumulator opts) []" by (simp add: text_ok_def NewOutputAccumulator_def Let_def)
  have "string_of_runes [] = []" by (simp add: string_of_runes_def)
  with t show "run_ok (NewOutputAccumulator opts) []"
    unfolding run_ok_def by (intro conjI exI [of _ "[]"]) (simp_all add: NewOutputAccumulator_def Let_def)
  show "file_ok (NewOutputAccumulator opts) []" by (simp add: file_ok_def NewOutputAccumulator_def Let_def)
qed

lemma run_output_ok:
  assumes "run_output opts ds en = (a, None)" "\<forall>(en, d) \<in> set ds. names_files en" "names_files en"
  shows "text_ok a (string_of_runes (runes (concat (map snd ds))))"
    and "oa_path a \<noteq> [] \<Longrightarrow> oa_file_open a \<and> oa_disk a = concat (map snd ds)"
    and "oa_max_lines a = oa_max_lines (NewOutputAccumulator opts)" "oa_max_bytes a = oa_max_bytes (NewOutputAccumulator opts)"
    and "oa_max_rolling a = oa_max_rolling (NewOutputAccumulator opts)"
    and "shouldUseTempFile a \<Longrightarrow> oa_path a \<noteq> []"
proof -
  let ?data = "concat (map snd ds)"
  from assms(1) obtain a1 where s: "append_all ds (NewOutputAccumulator opts) = (a1, None)" "Finish en a1 = (a, None)"
    by (auto simp: run_output_def split: prod.splits option.splits)
  from append_all_ok [OF s(1) new_ok assms(2)] have ok: "run_ok a1 ?data" "file_ok a1 ?data"
    and lim: "oa_max_lines a1 = oa_max_lines (NewOutputAccumulator opts)" "oa_max_bytes a1 = oa_max_bytes (NewOutputAccumulator opts)"
      "oa_max_rolling a1 = oa_max_rolling (NewOutputAccumulator opts)" by simp_all
  from ok(1) obtain rs where rs: "text_ok a1 (string_of_runes rs)" "\<And>t. runes (?data @ t) = rs @ runes (oa_pending a1 @ t)"
    and nf: "\<not> oa_finished a1" by (auto simp: run_ok_def)
  define a2 where "a2 = decoded [] True (a1\<lparr>oa_finished := True\<rparr>)"
  let ?b = "a1\<lparr>oa_finished := True, oa_pending := []\<rparr>"
  have a2: "a2 = appendDecodedText (string_of_runes (runes (oa_pending a1))) ?b"
    by (simp add: a2_def decoded_def decode_def decode_loop_final)
  have "text_ok ?b (string_of_runes rs)" using rs(1) by (simp add: text_ok_def)
  from text_ok_append [OF this string_of_runes_append [symmetric]] rs(2) [of "[]"]
  have t2: "text_ok a2 (string_of_runes (runes ?data))" by (simp add: a2 string_of_runes_append [symmetric])
  have f2: "file_ok a2 ?data" using ok(2) by (simp add: a2_def file_ok_def decoded_keeps)
  have lim2: "oa_max_lines a2 = oa_max_lines a1" "oa_max_bytes a2 = oa_max_bytes a1" "oa_max_rolling a2 = oa_max_rolling a1"
    by (simp_all add: a2_def decoded_keeps)
  have fin: "(if shouldUseTempFile a2 then ensureTempFile en a2 else (a2, None)) = (a, None)"
    using s(2) nf by (simp only: Finish_def a2_def Let_def if_False)
  then have same: "same_text a2 a" using ensure_same [of a2 en] by (cases "shouldUseTempFile a2") auto
  show "text_ok a (string_of_runes (runes ?data))" using same_text_ok [OF same] t2 by simp
  show "oa_max_lines a = oa_max_lines (NewOutputAccumulator opts)" "oa_max_bytes a = oa_max_bytes (NewOutputAccumulator opts)"
    "oa_max_rolling a = oa_max_rolling (NewOutputAccumulator opts)"
    using same lim lim2 by (simp_all add: same_text_def)
  show "oa_file_open a \<and> oa_disk a = ?data" if "oa_path a \<noteq> []"
  proof (cases "shouldUseTempFile a2")
    case True
    with fin have "ensureTempFile en a2 = (a, None)" by simp
    from ensure_file [OF this f2 assms(3)] show ?thesis by simp
  next
    case False
    with fin f2 that show ?thesis by (simp add: file_ok_def)
  qed
  show "oa_path a \<noteq> []" if "shouldUseTempFile a"
  proof -
    have "shouldUseTempFile a2"
    proof (rule ccontr)
      assume "\<not> shouldUseTempFile a2"
      with fin that show False by simp
    qed
    with fin have "ensureTempFile en a2 = (a, None)" by simp
    from ensure_file [OF this f2 assms(3)] show ?thesis by simp
  qed
qed


section \<open>The window and the whole text\<close>

lemma split_on_last: "last (split_on c (x @ c # p)) = last (split_on c p)"
  by (simp add: split_on_at)

lemma split_on_none: "c \<notin> set p \<Longrightarrow> split_on c p = [p]"
  by (induction p) auto

lemma last_line_parts: "c \<notin> set p \<Longrightarrow> \<exists>x. last (split_on c (u @ p)) = x @ p"
proof -
  assume p: "c \<notin> set p"
  show ?thesis
  proof (cases "c \<in> set u")
    case False
    then have "split_on c (u @ p) = [u @ p]" using p by (simp add: split_on_none)
    then show ?thesis by simp
  next
    case True
    then obtain u1 u2 where u: "u = u1 @ c # u2" "c \<notin> set u2" by (metis split_list_last)
    with p have "last (split_on c (u @ p)) = u2 @ p" by (simp add: split_on_last split_on_none)
    then show ?thesis by simp
  qed
qed

lemma lines_open: "s \<noteq> [] \<Longrightarrow> last s \<noteq> NL \<Longrightarrow> splitLinesForCounting s = split_on NL s"
  by (auto simp: splitLinesForCounting_def suffix_def Let_def)

lemma first_break: "NL \<in> set s \<Longrightarrow> \<exists>p. NL \<notin> set p \<and> s = p @ NL # tl (dropWhile (\<lambda>c. c \<noteq> NL) s)"
proof -
  assume "NL \<in> set s"
  then obtain p q where "s = p @ NL # q" "NL \<notin> set p" by (metis split_list_first)
  moreover from this have "dropWhile (\<lambda>c. c \<noteq> NL) s = NL # q" by (simp, subst dropWhile_append2) auto
  ultimately show ?thesis by auto
qed

lemma window_tail:
  assumes ok: "text_ok a t" and lim: "limits o1 = (ml, mb)" "0 \<le> ml" "5 \<le> mb" and roll: "oa_max_rolling a = 2 * mb"
    and line: "suffix [NL] t \<Longrightarrow> len (last (splitLinesForCounting t)) \<le> mb"
  shows "\<exists>r rs. Tail t o1 = Some r \<and> Tail (getSnapshotText a) o1 = Some rs \<and>
    (Content rs = Content r \<or> Content rs = Content r @ [NL])"
proof -
  from ok obtain gone where g: "t = gone @ oa_tail a" "oa_boundary a \<longleftrightarrow> gone = [] \<or> last gone = NL"
      "gone \<noteq> [] \<longrightarrow> 2 * mb \<le> len (oa_tail a) + 3 \<and> 4 * mb < len t"
    by (auto simp: text_ok_def roll)
  have pos: "0 \<le> mb" using lim(3) by simp
  show ?thesis
  proof (cases "gone = []")
    case True
    then have "getSnapshotText a = t" using g by (simp add: getSnapshotText_def)
    moreover obtain out ob b p where "tail_loop ml mb (rev (splitLinesForCounting t)) [] 0 = (out, ob, b, p)" by (metis prod_cases4)
    ultimately show ?thesis using Tail_content [OF lim(1,2)] by metis
  next
    case gone: False
    with g(3) have long: "2 * mb \<le> len (oa_tail a) + 3" "4 * mb < len t" by simp_all
    then have big: "mb < len (oa_tail a)" "mb < len t" using lim(3) by linarith+
    then have tail: "oa_tail a \<noteq> []" using pos by (auto simp: len_def)
    consider "oa_boundary a" | "\<not> oa_boundary a" "NL \<notin> set (oa_tail a)" | "\<not> oa_boundary a" "NL \<in> set (oa_tail a)" by blast
    then show ?thesis
    proof cases
      case 1
      with g(2) gone obtain c where c: "gone = c @ [NL]" by (metis append_butlast_last_id)
      have "mb < len (oa_tail a) + len (last (split_on NL c))" using big by (simp add: len_def)
      from Tail_window_break [OF lim(1,2) pos _ tail big(2) this] g(1) c 1 show ?thesis
        by (simp add: getSnapshotText_def)
    next
      case 2
      have "last (oa_tail a) \<noteq> NL" using 2(2) last_in_set [OF tail] by auto
      then have sp: "splitLinesForCounting (oa_tail a) = [oa_tail a]" "splitLinesForCounting t = split_on NL t"
        using tail 2(2) by (simp_all add: lines_open split_on_none g(1))
      obtain x where x: "last (split_on NL t) = x @ oa_tail a" using last_line_parts [OF 2(2)] g(1) by blast
      have "splitLinesForCounting t = butlast (split_on NL t) @ [x @ oa_tail a]"
        unfolding sp(2) x [symmetric] by simp
      from Tail_window_line [OF lim(1,2) pos this sp(1) big(1,2)] 2 show ?thesis
        by (auto simp: getSnapshotText_def)
    next
      case 3
      define s where "s = getSnapshotText a"
      have s: "s = tl (dropWhile (\<lambda>c. c \<noteq> NL) (oa_tail a))" using 3 by (simp add: s_def getSnapshotText_def)
      from first_break [OF 3(2)] s obtain p where p: "NL \<notin> set p" "oa_tail a = p @ NL # s" by blast
      obtain x where x: "last (split_on NL (gone @ p)) = x @ p" using last_line_parts [OF p(1)] by blast
      have t: "t = (gone @ p) @ NL # s" using g(1) p(2) by simp
      have "len (oa_tail a) = len p + len s + 1" by (simp add: p(2))
      moreover have "len p \<le> len (last (split_on NL (gone @ p)))" by (simp add: x len_def)
      ultimately have cut: "mb < len s + len (last (split_on NL (gone @ p)))" using long(1) lim(3) by linarith
      have "s \<noteq> []"
      proof
        assume e: "s = []"
        then have "suffix [NL] t" by (simp add: t suffix_def)
        moreover have "last (splitLinesForCounting t) = last (split_on NL (gone @ p))"
          unfolding t lines_at by (simp add: e splitLinesForCounting_def)
        ultimately show False using line cut e by (simp add: len_def)
      qed
      from Tail_window_break [OF lim(1,2) pos t this big(2) cut] show ?thesis by (simp add: s_def)
    qed
  qed
qed



lemma new_limits:
  assumes "ao_max_bytes opts = 0 \<or> 5 \<le> ao_max_bytes opts \<and> ao_max_bytes opts \<le> 2 ^ 60" "0 \<le> ao_max_lines opts"
  shows "5 \<le> oa_max_bytes (NewOutputAccumulator opts)" "0 \<le> oa_max_lines (NewOutputAccumulator opts)"
    "oa_max_rolling (NewOutputAccumulator opts) = 2 * oa_max_bytes (NewOutputAccumulator opts)"
  using assms by (auto simp: NewOutputAccumulator_def Let_def DefaultMaxBytes_def DefaultMaxLines_def in64_def)

text \<open>What a snapshot shows beside its content; no error when it need not spill or the spilling goes well.\<close>

lemma Snapshot_describes:
  assumes "Snapshot en persist a = Some (a', Inr snap)" "text_ok a t"
    and "Tail (getSnapshotText a) \<lparr>opt_max_lines = Some (oa_max_lines a), opt_max_bytes = Some (oa_max_bytes a)\<rparr> = Some rs"
  shows "on_content snap = Content rs" "TotalLines (on_truncation snap) = len (splitLinesForCounting t)"
    "TotalBytes (on_truncation snap) = len t" "on_path snap = oa_path a'"
    "Truncated (on_truncation snap) \<longleftrightarrow> oa_max_lines a < len (splitLinesForCounting t) \<or> oa_max_bytes a < len t"
    "a' = a \<or> Truncated (on_truncation snap) \<and> ensureTempFile en a = (a', None)"
proof -
  define cut_off where "cut_off \<longleftrightarrow> oa_total_lines a > oa_max_lines a \<or> oa_total_decoded a > oa_max_bytes a"
  obtain a2 err where spill: "(if persist \<and> cut_off then ensureTempFile en a else (a, None)) = (a2, err)"
    by (meson surj_pair)
  from assms(1,3) spill obtain by0 where
    t': "err = None" "a' = a2" "on_path snap = oa_path a2" "on_content snap = Content rs"
      "on_truncation snap = rs\<lparr>Truncated := cut_off, TruncatedBy := by0, TotalLines := oa_total_lines a,
         TotalBytes := oa_total_decoded a, MaxLines := oa_max_lines a, MaxBytes := oa_max_bytes a\<rparr>"
    by (cases err) (auto simp: Snapshot_def Let_def cut_off_def [symmetric])
  have t: "oa_total_lines a = len (splitLinesForCounting t)" using assms(2) by (rule text_ok_lines)
  have t2: "oa_total_decoded a = len t" using assms(2) by (simp add: text_ok_def)
  show "on_content snap = Content rs" "TotalLines (on_truncation snap) = len (splitLinesForCounting t)"
    "TotalBytes (on_truncation snap) = len t" "on_path snap = oa_path a'"
    "Truncated (on_truncation snap) \<longleftrightarrow> oa_max_lines a < len (splitLinesForCounting t) \<or> oa_max_bytes a < len t"
    by (simp_all add: t' t t2 cut_off_def)
  show "a' = a \<or> Truncated (on_truncation snap) \<and> ensureTempFile en a = (a', None)"
    using spill t' by (cases "persist \<and> cut_off") auto
qed



text \<open>C8: the accumulator, which keeps a bounded tail of what it decodes, shows what \<open>truncate.Tail\<close> of
  the whole output would show.  For any cutting of the bytes into pieces, if every append and the
  finish succeed and the limits are usable (at least zero lines, and at least five bytes or the
  default), the snapshot has the content of the tail of the whole decoded output, up to one final
  newline, and the same counts and truncation flag; and when it is truncated the spill file it names
  is open and holds every byte.  The one exception is output that ends with a newline after a last
  line longer than the byte limit.\<close>

theorem snapshot_is_tail:
  assumes run: "run_output opts ds en = (a, None)" and names: "\<forall>(e, d) \<in> set ds. names_files e" "names_files en"
    and lim: "ao_max_bytes opts = 0 \<or> 5 \<le> ao_max_bytes opts \<and> ao_max_bytes opts \<le> 2 ^ 60" "0 \<le> ao_max_lines opts"
    and T: "T = string_of_runes (runes (concat (map snd ds)))"
    and line: "suffix [NL] T \<Longrightarrow> len (last (splitLinesForCounting T)) \<le> oa_max_bytes a"
    and snap: "Snapshot en2 persist a = Some (a', Inr snap)"
  shows "a' = a \<and>
    (\<exists>r. Tail T \<lparr>opt_max_lines = Some (oa_max_lines a), opt_max_bytes = Some (oa_max_bytes a)\<rparr> = Some r \<and>
      (on_content snap = Content r \<or> on_content snap = Content r @ [NL]) \<and>
      Truncated (on_truncation snap) = Truncated r \<and> TotalLines (on_truncation snap) = TotalLines r \<and>
      TotalBytes (on_truncation snap) = TotalBytes r) \<and>
    (Truncated (on_truncation snap) \<longrightarrow>
      on_path snap \<noteq> [] \<and> on_path snap = oa_path a \<and> oa_file_open a \<and> oa_disk a = concat (map snd ds))"
proof -
  let ?o = "\<lparr>opt_max_lines = Some (oa_max_lines a), opt_max_bytes = Some (oa_max_bytes a)\<rparr>"
  note R = run_output_ok [OF run names]
  have ok: "text_ok a T" using R(1) by (simp add: T)
  have L: "5 \<le> oa_max_bytes a" "0 \<le> oa_max_lines a" "oa_max_rolling a = 2 * oa_max_bytes a"
    using new_limits [OF lim] by (simp_all add: R(3-5))
  have o: "limits ?o = (oa_max_lines a, oa_max_bytes a)" by (simp add: limits_def)
  from window_tail [OF ok o L(2,1,3) line] obtain r rs where
    r: "Tail T ?o = Some r" "Tail (getSnapshotText a) ?o = Some rs" "Content rs = Content r \<or> Content rs = Content r @ [NL]"
    by blast
  note S = Snapshot_describes [OF snap ok r(2)]
  have counts: "TotalLines r = len (splitLinesForCounting T)" "TotalBytes r = len T"
      "Truncated r \<longleftrightarrow> oa_max_lines a < len (splitLinesForCounting T) \<or> oa_max_bytes a < len T"
    using r(1) o L(2) by (auto simp: Tail_def Let_def split: if_splits prod.splits)
  have spilled: "oa_path a \<noteq> []" if "Truncated (on_truncation snap)"
  proof (rule R(6))
    have "oa_total_decoded a = len T" using ok by (simp add: text_ok_def)
    with that S(5) text_ok_lines [OF ok] show "shouldUseTempFile a" by (auto simp: shouldUseTempFile_def)
  qed
  have "a' = a" using S(6) spilled by (auto simp: ensureTempFile_def)
  with S(1-5) r(1,3) counts spilled R(2) show ?thesis by auto
qed



definition disk_env :: spill_env where
  "disk_env = \<lparr>se_create = \<lambda>p. Inr ''/tmp/out.log'', se_write = \<lambda>disk data. None\<rparr>"

definition example_options :: accumulator_options where
  "example_options = \<lparr>ao_max_lines = 2, ao_max_bytes = 5, ao_prefix = []\<rparr>"

definition example_pieces :: "(spill_env \<times> string) list" where
  "example_pieces = [(disk_env, ''abc'' @ [NL] @ ''d''), (disk_env, ''ef'' @ [NL] @ ''gh'' @ [CHR 0xC3]), (disk_env, [CHR 0xA9])]"

lemma disk_env_names: "names_files disk_env"
  by (simp add: names_files_def disk_env_def)

theorem snapshot_is_tail_witness:
  "\<exists>snap. Snapshot disk_env True (fst (run_output example_options example_pieces disk_env)) =
      Some (fst (run_output example_options example_pieces disk_env), Inr snap) \<and> Truncated (on_truncation snap) \<and>
    on_content snap = ''gh'' @ [CHR 0xC3, CHR 0xA9] \<and>
    oa_disk (fst (run_output example_options example_pieces disk_env)) = concat (map snd example_pieces)"
proof -
  define T where "T = string_of_runes (runes (concat (map snd example_pieces)))"
  have fin: "snd (run_output example_options example_pieces disk_env) = None" by code_simp
  then obtain a where run: "run_output example_options example_pieces disk_env = (a, None)"
    by (metis prod.collapse)
  have show_ok: "(case Snapshot disk_env True (fst (run_output example_options example_pieces disk_env)) of
      Some (_, Inr s) \<Rightarrow> Truncated (on_truncation s) \<and> on_content s = ''gh'' @ [CHR 0xC3, CHR 0xA9] | _ \<Rightarrow> False)" by code_simp
  then obtain a' res where res: "Snapshot disk_env True a = Some (a', res)"
    by (cases "Snapshot disk_env True a") (auto simp: run)
  with show_ok obtain snap where snap: "Snapshot disk_env True a = Some (a', Inr snap)" "Truncated (on_truncation snap)"
      "on_content snap = ''gh'' @ [CHR 0xC3, CHR 0xA9]"
    by (cases res) (simp_all add: run)
  have "\<not> suffix [NL] T" unfolding T_def by code_simp
  then have line: "suffix [NL] T \<Longrightarrow> len (last (splitLinesForCounting T)) \<le> oa_max_bytes a" by simp
  have names: "\<forall>(e, d) \<in> set example_pieces. names_files e" by (simp add: example_pieces_def disk_env_names)
  have lim: "ao_max_bytes example_options = 0 \<or> 5 \<le> ao_max_bytes example_options \<and> ao_max_bytes example_options \<le> 2 ^ 60"
      "0 \<le> ao_max_lines example_options" by (simp_all add: example_options_def)
  from snapshot_is_tail [OF run names disk_env_names lim T_def line snap(1)] snap show ?thesis by (auto simp: run)
qed

text \<open>The exception is real: one line of 25 bytes and its newline, with a limit of five bytes, is shown as
  nothing at all, where \<open>truncate.Tail\<close> of the whole shows the last five bytes.\<close>

definition long_line :: string where
  "long_line = replicate 25 CHR ''x'' @ [NL]"

lemma long_line_is_lost:
  "(case run_output \<lparr>ao_max_lines = 10, ao_max_bytes = 5, ao_prefix = []\<rparr> [(disk_env, long_line)] disk_env of
      (a, None) \<Rightarrow> (case Snapshot disk_env True a of Some (_, Inr s) \<Rightarrow> on_content s = [] | _ \<Rightarrow> False)
    | _ \<Rightarrow> False) \<and>
   map_option Content (Tail long_line \<lparr>opt_max_lines = Some 10, opt_max_bytes = Some 5\<rparr>) = Some ''xxxxx''"
  by code_simp



section \<open>Tools\<close>

text \<open>\<open>lookup\<close> is \<open>exec.LookPath\<close>: the path of a program, or nothing.\<close>

definition EnsureTool :: "(string \<Rightarrow> string option) \<Rightarrow> string \<Rightarrow> string \<times> bool" where
  "EnsureTool lookup tool =
     (if tool \<noteq> ''fd'' \<and> tool \<noteq> ''rg'' then ([], False)
      else (case List.map_filter lookup (tool # (if tool = ''fd'' then [''fdfind''] else [])) of
          [] \<Rightarrow> ([], False) | path # _ \<Rightarrow> (path, True)))"

lemma EnsureTool_found:
  "EnsureTool lookup tool = (path, True) \<longleftrightarrow>
     tool \<in> {''fd'', ''rg''} \<and>
     (lookup tool = Some path \<or> lookup tool = None \<and> tool = ''fd'' \<and> lookup ''fdfind'' = Some path)"
  by (auto simp: EnsureTool_def map_filter_simps split: option.splits)


end
