(* ===== verification/Adapter.thy ===== *)
theory Adapter
  imports Anthropic_Request Google_Request OpenAI_Request Retry_Policy
begin

text \<open>
  \<open>internal/adapter\<close>: model specs (\<open>modelspec.go\<close>), the routers of the three roles (\<open>roles.go\<close>) and
  the stream function of a router (\<open>provider.go\<close>), over the modelled providers.  What the standard
  library answers on text (\<open>url.ParseRequestURI\<close>, \<open>strings.EqualFold\<close>, \<open>%q\<close>) is a record of
  arguments.  A router keeps the stream function before retrying beside the retry configuration that
  was validated for it; Retry_Stream models what the configuration adds.
\<close>

section \<open>Model specs\<close>

record model_spec =
  ms_provider :: string
  ms_model :: string
  ms_base_url :: string

text \<open>\<open>s[:i], s[i+1:]\<close> for the first index \<open>i\<close> of a byte.\<close>

definition split_at_byte :: "char \<Rightarrow> string \<Rightarrow> (string \<times> string) option" where
  "split_at_byte c s =
     (if c \<in> set s then Some (takeWhile (\<lambda>x. x \<noteq> c) s, tl (dropWhile (\<lambda>x. x \<noteq> c) s)) else None)"

definition parseModelSpec :: "(string \<Rightarrow> string) \<Rightarrow> string \<Rightarrow> model_spec" where
  "parseModelSpec lower raw0 =
     (let raw = trim_space raw0;
          (provider, rest) = (case split_at_byte CHR '':'' raw of Some pr \<Rightarrow> pr | None \<Rightarrow> ([], raw));
          (modelID, baseURL) = (case split_at_byte CHR ''@'' rest of Some mb \<Rightarrow> mb | None \<Rightarrow> (rest, []))
      in \<lparr>ms_provider = lower (trim_space provider), ms_model = trim_space modelID, ms_base_url = trim_space baseURL\<rparr>)"

definition ModelIDFromSpec :: "(string \<Rightarrow> string) \<Rightarrow> string \<Rightarrow> string" where
  "ModelIDFromSpec lower raw = ms_model (parseModelSpec lower raw)"

text \<open>What the code reads of a parsed URL.\<close>

record parsed_url =
  pu_scheme :: string
  pu_host :: string
  pu_user :: bool
  pu_query :: string
  pu_fragment :: string

record route_lib =
  rl_parse_uri :: "string \<Rightarrow> parsed_url option"
  rl_equal_fold :: "string \<Rightarrow> string \<Rightarrow> bool"
  rl_quote :: "string \<Rightarrow> string"

definition ValidateBaseURL :: "route_lib \<Rightarrow> string \<Rightarrow> string option" where
  "ValidateBaseURL l raw =
     (case rl_parse_uri l raw of
        None \<Rightarrow> Some ''must be an absolute HTTP URL''
      | Some u \<Rightarrow>
          if pu_scheme u = [] \<or> pu_host u = [] \<or> (pu_scheme u \<noteq> ''http'' \<and> pu_scheme u \<noteq> ''https'')
          then Some ''must be an absolute HTTP URL''
          else if pu_user u \<or> pu_query u \<noteq> [] \<or> pu_fragment u \<noteq> []
          then Some ''must not contain credentials or URL fragments''
          else None)"

definition ValidateModelSpec :: "route_lib \<Rightarrow> (string \<Rightarrow> string) \<Rightarrow> string \<Rightarrow> string option" where
  "ValidateModelSpec l lower raw =
     (let spec = parseModelSpec lower raw in
      if trim_space raw = [] \<or> ms_model spec = [] then Some ''model spec must include a model id''
      else if ms_provider spec \<noteq> [] \<and> ms_provider spec \<noteq> ''anthropic'' \<and> ms_provider spec \<noteq> ''openai''
      then Some ''unsupported model provider; use anthropic or openai''
      else if ms_base_url spec \<noteq> [] then
        map_option (\<lambda>err. ''model spec base URL is invalid: '' @ err) (ValidateBaseURL l (ms_base_url spec))
      else None)"

fun firstNonEmpty :: "string list \<Rightarrow> string" where
  "firstNonEmpty [] = []"
| "firstNonEmpty (v # vs) = (let trimmed = trim_space v in if trimmed \<noteq> [] then trimmed else firstNonEmpty vs)"

section \<open>Routes\<close>

definition AnthropicMessagesAPI :: string where "AnthropicMessagesAPI = ''anthropic-messages''"
definition OpenAICompletionsAPI :: string where "OpenAICompletionsAPI = ''openai-completions''"
definition GoogleGenerativeAPI :: string where "GoogleGenerativeAPI = ''google-generative-ai''"
definition DefaultMaxTokens :: int where "DefaultMaxTokens = 32000"

text \<open>\<open>strconv.Atoi\<close>: a sign and digits, in 64 bits.\<close>

definition is_decimal :: "char \<Rightarrow> bool" where
  "is_decimal c \<longleftrightarrow> 48 \<le> byte c \<and> byte c \<le> 57"

definition atoi :: "string \<Rightarrow> int option" where
  "atoi s =
     (let ds = (case s of c # t \<Rightarrow> if c = CHR ''-'' \<or> c = CHR ''+'' then t else s | [] \<Rightarrow> []);
          v = foldl (\<lambda>v c. v * 10 + (int (byte c) - 48)) 0 ds;
          n = (if s \<noteq> [] \<and> hd s = CHR ''-'' then - v else v)
      in if ds \<noteq> [] \<and> list_all is_decimal ds \<and> in64 n then Some n else None)"

definition resolveMaxTokens :: "(string \<Rightarrow> string) \<Rightarrow> int" where
  "resolveMaxTokens env =
     (let v = trim_space (env ''HARNESS_MAX_TOKENS'') in
      if v = [] then DefaultMaxTokens
      else case atoi v of Some n \<Rightarrow> if n > 0 then n else DefaultMaxTokens | None \<Rightarrow> DefaultMaxTokens)"

record routing_config =
  rc_model_id :: string
  rc_base_url :: string
  rc_anthropic_url :: string
  rc_openai_url :: string
  rc_api_key :: string
  rc_auth_token :: string
  rc_max_tokens :: int
  rc_env :: "(string \<Rightarrow> string) option"
  rc_blobs :: "blob_reader option"
  rc_retry :: "config option"

record route =
  rt_model :: full_model
  rt_api :: string
  rt_api_key :: string
  rt_auth_token :: string

definition chosen_spec :: "routing_config \<Rightarrow> (string \<Rightarrow> string) \<Rightarrow> string" where
  "chosen_spec cfg env = firstNonEmpty [rc_model_id cfg, env ''ANTHROPIC_DEFAULT_SONNET_MODEL'', ''claude-opus-4-8'']"

definition route_model :: "string \<Rightarrow> string \<Rightarrow> string \<Rightarrow> string \<Rightarrow> int \<Rightarrow> int \<Rightarrow> full_model" where
  "route_model model_id api provider base_url window max_tokens =
     \<lparr>mo_id = model_id, mo_name = model_id, mo_api = api, mo_provider = provider, mo_input = [],
      mo_context_window = window, mo_max_tokens = max_tokens, fm_base_url = base_url, fm_reasoning = False,
      fm_thinking_levels = None, fm_headers = [], fm_compat = None\<rparr>"

definition resolveRoute :: "(string \<Rightarrow> string) \<Rightarrow> routing_config \<Rightarrow> (string \<Rightarrow> string) \<Rightarrow> string + route" where
  "resolveRoute lower cfg env =
     (let maxTokens = (if rc_max_tokens cfg \<le> 0 then resolveMaxTokens env else rc_max_tokens cfg);
          spec = parseModelSpec lower (chosen_spec cfg env);
          prov = (if ms_provider spec = [] then ''anthropic'' else ms_provider spec)
      in if prov = ''anthropic'' then
           Inr \<lparr>rt_model = route_model (ms_model spec) AnthropicMessagesAPI ''anthropic''
                  (firstNonEmpty [ms_base_url spec, rc_anthropic_url cfg, rc_base_url cfg,
                     env ''HARNESS_ANTHROPIC_BASE_URL'', env ''ANTHROPIC_BASE_URL'']) 200000 maxTokens,
                rt_api = AnthropicMessagesAPI,
                rt_api_key = firstNonEmpty [rc_api_key cfg, env ''ANTHROPIC_OAUTH_TOKEN'', env ''ANTHROPIC_API_KEY''],
                rt_auth_token = firstNonEmpty [rc_auth_token cfg, env ''ANTHROPIC_AUTH_TOKEN'']\<rparr>
         else if prov = ''openai'' then
           Inr \<lparr>rt_model = route_model (ms_model spec) OpenAICompletionsAPI ''openai''
                  (firstNonEmpty [ms_base_url spec, rc_openai_url cfg, rc_base_url cfg, env ''OPENAI_BASE_URL''])
                  128000 maxTokens,
                rt_api = OpenAICompletionsAPI,
                rt_api_key = firstNonEmpty [rc_api_key cfg, env ''OPENAI_API_KEY''], rt_auth_token = []\<rparr>
         else Inl ''unsupported model provider; use anthropic or openai'')"


section \<open>Routers\<close>

type_synonym stream_fn = "full_model \<Rightarrow> llm_context \<Rightarrow> simple_options option \<Rightarrow> stream_event list option"

record provider =
  pv_id :: string
  pv_models :: "full_model list"
  pv_stream :: "stream_fn option"

record router =
  pr_registry :: "provider registry"
  pr_model :: full_model
  pr_stream :: stream_fn
  pr_retry :: "config option"

text \<open>The three \<open>StreamSimple\<close> functions, over one environment.\<close>

record provider_env =
  pe_run :: run_env
  pe_upper :: "string \<Rightarrow> string"
  pe_counter :: "nat \<Rightarrow> int"

definition empty_simple_options :: simple_options where
  "empty_simple_options =
     \<lparr>so_temperature = None, so_max_tokens = 0, so_api_key = [], so_headers = [], so_session_id = [],
      so_cache_retention = [], so_metadata = [], so_env = [], si_reasoning = [], si_budgets = [], si_blobs = None\<rparr>"

definition cloneSimpleOptions :: "simple_options option \<Rightarrow> simple_options" where
  "cloneSimpleOptions opts = (case opts of None \<Rightarrow> empty_simple_options | Some o1 \<Rightarrow> o1)"

definition has_header :: "route_lib \<Rightarrow> (string \<times> string) list \<Rightarrow> string \<Rightarrow> bool" where
  "has_header l headers name \<longleftrightarrow> list_ex (\<lambda>(k, v). rl_equal_fold l k name \<and> trim_space v \<noteq> []) headers"

text \<open>The options a stream is called with.\<close>

definition resolved_options ::
  "route_lib \<Rightarrow> string \<Rightarrow> string \<Rightarrow> blob_reader option \<Rightarrow> simple_options option \<Rightarrow> simple_options" where
  "resolved_options l apiKey authToken blobReader opts =
     (let r0 = cloneSimpleOptions opts;
          r1 = (if blobReader \<noteq> None then r0\<lparr>si_blobs := blobReader\<rparr> else r0);
          r2 = (if trim_space (so_api_key r1) = [] \<and> apiKey \<noteq> [] then r1\<lparr>so_api_key := apiKey\<rparr> else r1)
      in if trim_space (so_api_key r2) = [] \<and> authToken \<noteq> [] \<and> \<not> has_header l (so_headers r2) ''authorization''
         then r2\<lparr>so_headers := assoc_set ''authorization'' (''Bearer '' @ authToken) (so_headers r2)\<rparr> else r2)"

definition erroredStream :: "time_ms \<Rightarrow> full_model \<Rightarrow> string \<Rightarrow> stream_event list" where
  "erroredStream now m err =
     [(event EvError)\<lparr>ev_reason := StopError,
        ev_err := Some ((empty_assistant (mo_api m) (mo_provider m) (mo_id m))
          \<lparr>am_stop_reason := StopError, am_error_message := err, am_timestamp := now\<rparr>)\<rparr>]"

definition withStream ::
  "route_lib \<Rightarrow> time_ms \<Rightarrow> stream_fn option \<Rightarrow> string \<Rightarrow> string \<Rightarrow> blob_reader option \<Rightarrow> router \<Rightarrow> router" where
  "withStream l now streamSimple apiKey authToken blobReader r =
     r\<lparr>pr_stream := \<lambda>m c opts.
        (case streamSimple of
           None \<Rightarrow> Some (erroredStream now m (''provider stream not configured for model API '' @ rl_quote l (mo_api m)))
         | Some f \<Rightarrow> f m c (Some (resolved_options l apiKey authToken blobReader opts)))\<rparr>"

definition registered :: "provider_env \<Rightarrow> full_model \<Rightarrow> provider registry" where
  "registered pe m =
     Register (Register (Register NewRegistry
       AnthropicMessagesAPI \<lparr>pv_id = ''anthropic'', pv_models = [m], pv_stream = Some (StreamSimple (pe_run pe))\<rparr>)
       OpenAICompletionsAPI \<lparr>pv_id = ''openai'', pv_models = [m], pv_stream = Some (openai_StreamSimple (pe_run pe))\<rparr>)
       GoogleGenerativeAPI \<lparr>pv_id = ''google'', pv_models = [m],
         pv_stream = Some (google_StreamSimple (pe_run pe) (pe_upper pe) (pe_counter pe))\<rparr>"

definition NewProviderRouter :: "route_lib \<Rightarrow> provider_env \<Rightarrow> routing_config \<Rightarrow> string + router" where
  "NewProviderRouter l pe cfg =
     (let lower = re_lower (pe_run pe);
          env = (case rc_env cfg of Some f \<Rightarrow> f | None \<Rightarrow> re_getenv (pe_run pe))
      in case ValidateModelSpec l lower (chosen_spec cfg env) of
        Some err \<Rightarrow> Inl err
      | None \<Rightarrow>
          (case resolveRoute lower cfg env of
            Inl err \<Rightarrow> Inl err
          | Inr rt \<Rightarrow>
              (let registry = registered pe (rt_model rt);
                   found = Resolve registry (rt_api rt);
                   stream = Option.bind found pv_stream
               in if stream = None then Inl (''no provider registered for model API '' @ rl_quote l (rt_api rt))
                  else
                    (let r = withStream l (re_now (pe_run pe)) stream (rt_api_key rt) (rt_auth_token rt) (rc_blobs cfg)
                               \<lparr>pr_registry = registry, pr_model = rt_model rt, pr_stream = \<lambda>_ _ _. None, pr_retry = None\<rparr>
                     in case rc_retry cfg of
                       None \<Rightarrow> Inr r
                     | Some policy \<Rightarrow>
                         (case Validate policy of
                            Some err \<Rightarrow> Inl (''retry policy: '' @ err)
                          | None \<Rightarrow> Inr (r\<lparr>pr_retry := Some policy\<rparr>))))))"

definition ResolveProviderForModel :: "(string \<Rightarrow> string) \<Rightarrow> string \<Rightarrow> string" where
  "ResolveProviderForModel lower modelID =
     (let trimmed = trim_space (lower modelID) in
      if list_ex (\<lambda>p. prefix p trimmed) [''claude-'', ''anthropic/'', ''openai/'', ''google/'', ''gemini/'']
      then ''anthropic'' else ''anthropic'')"

section \<open>Roles\<close>

record role_config =
  rr_default :: string
  rr_plan :: string
  rr_smol :: string
  rr_anthropic_url :: string
  rr_openai_url :: string
  rr_max_tokens :: int
  rr_lookup :: "(string \<Rightarrow> string \<times> bool) option"
  rr_retry :: "config option"

record role_routers =
  rs_default :: router
  rs_plan :: router
  rs_smol :: router

definition roleCredentials :: "(string \<Rightarrow> string) \<Rightarrow> string \<Rightarrow> (string \<Rightarrow> string \<times> bool) option \<Rightarrow> string \<times> string" where
  "roleCredentials lower model secrets =
     (case secrets of
        None \<Rightarrow> ([], [])
      | Some f \<Rightarrow>
          if ms_provider (parseModelSpec lower model) = ''openai'' then (fst (f ''OPENAI_API_KEY''), [])
          else (fst (f ''ANTHROPIC_API_KEY''), fst (f ''ANTHROPIC_AUTH_TOKEN'')))"

definition newRoleRouter :: "route_lib \<Rightarrow> provider_env \<Rightarrow> string \<Rightarrow> role_config \<Rightarrow> string + router" where
  "newRoleRouter l pe model cfg =
     (let (apiKey, authToken) = roleCredentials (re_lower (pe_run pe)) model (rr_lookup cfg)
      in NewProviderRouter l pe
           \<lparr>rc_model_id = model, rc_base_url = [], rc_anthropic_url = rr_anthropic_url cfg, rc_openai_url = rr_openai_url cfg,
            rc_api_key = apiKey, rc_auth_token = authToken, rc_max_tokens = rr_max_tokens cfg,
            rc_env = Some (\<lambda>_. []), rc_blobs = None, rc_retry = rr_retry cfg\<rparr>)"

definition ResolveRoles :: "route_lib \<Rightarrow> provider_env \<Rightarrow> role_config \<Rightarrow> string + role_routers" where
  "ResolveRoles l pe cfg =
     (let defaultModel = trim_space (rr_default cfg);
          planModel = firstNonEmpty [trim_space (rr_plan cfg), defaultModel];
          smolModel = firstNonEmpty [trim_space (rr_smol cfg), defaultModel]
      in case newRoleRouter l pe defaultModel cfg of
           Inl err \<Rightarrow> Inl err
         | Inr d \<Rightarrow>
             (case newRoleRouter l pe planModel cfg of
                Inl err \<Rightarrow> Inl err
              | Inr p \<Rightarrow>
                  (case newRoleRouter l pe smolModel cfg of
                     Inl err \<Rightarrow> Inl err
                   | Inr s \<Rightarrow> Inr \<lparr>rs_default = d, rs_plan = p, rs_smol = s\<rparr>)))"



section \<open>Trimming twice\<close>

lemma decode_rune_prefix:
  assumes "decode_rune (a @ b) = (r, w)" "w \<le> length a" "a \<noteq> []"
  shows "decode_rune a = (r, w)"
proof -
  consider c0 where "a = [c0]" | c0 c1 where "a = [c0, c1]" | c0 c1 c2 where "a = [c0, c1, c2]"
    | c0 c1 c2 c3 a4 where "a = c0 # c1 # c2 # c3 # a4"
    using assms(3) by (cases a; cases "tl a"; cases "tl (tl a)"; cases "tl (tl (tl a))") auto
  then show ?thesis
    using assms(1,2) by cases (auto simp: decode_rune_def Let_def split: if_splits list.splits)
qed

lemma segments_suffix: "rune_segments s = xs @ ys \<Longrightarrow> rune_segments (concat (map snd ys)) = ys"
proof (induction xs arbitrary: s)
  case Nil
  then show ?case using concat_rune_segments [of s] by simp
next
  case (Cons x xs)
  obtain r w where d: "decode_rune s = (r, w)" by (cases "decode_rune s")
  from Cons.prems d have "rune_segments (drop w s) = xs @ ys"
    by (subst (asm) rune_segments.simps) (auto split: if_splits)
  from Cons.IH [OF this] show ?case .
qed

lemma segments_prefix: "rune_segments s = xs @ ys \<Longrightarrow> rune_segments (concat (map snd xs)) = xs"
proof (induction xs arbitrary: s)
  case Nil
  then show ?case by (simp add: rune_segments.simps [of "[]"])
next
  case (Cons x xs)
  then have s: "s \<noteq> []" by (auto simp: rune_segments.simps [of "[]"])
  obtain r w where d: "decode_rune s = (r, w)" by (cases "decode_rune s")
  from Cons.prems d s have x: "x = (r, take w s)" and rest: "rune_segments (drop w s) = xs @ ys"
    by (subst (asm) rune_segments.simps; simp)+
  have w: "0 < w" "w \<le> length s" using decode_rune_width [OF s] d by simp_all
  let ?a = "take w s @ concat (map snd xs)"
  have "drop w s = concat (map snd xs) @ concat (map snd ys)" using concat_rune_segments [of "drop w s"] rest by simp
  then have "s = ?a @ concat (map snd ys)" by (metis append.assoc append_take_drop_id)
  then have "decode_rune ?a = (r, w)" using decode_rune_prefix [of ?a "concat (map snd ys)" r w] d w s by auto
  moreover have "?a \<noteq> []" using w by auto
  moreover have "drop w ?a = concat (map snd xs)" "take w ?a = take w s" using w by simp_all
  ultimately show ?case using Cons.IH [OF rest] by (subst rune_segments.simps) (simp add: x)
qed

lemma trim_space_idem [simp]: "trim_space (trim_space s) = trim_space s"
proof -
  let ?sp = "\<lambda>(r, _ :: string). is_space r"
  define D where "D = dropWhile ?sp (rune_segments s)"
  define t where "t = rev (dropWhile ?sp (rev D))"
  have "rune_segments s = takeWhile ?sp (rune_segments s) @ D" by (simp add: D_def)
  from segments_suffix [OF this] have "rune_segments (concat (map snd D)) = D" .
  also have D: "D = t @ rev (takeWhile ?sp (rev D))"
    unfolding t_def by (metis rev_append rev_rev_ident takeWhile_dropWhile_id)
  finally have t: "rune_segments (concat (map snd t)) = t" using D segments_prefix by metis
  have "dropWhile ?sp t = t"
  proof (cases t)
    case (Cons x t')
    have "D \<noteq> []" using D Cons by (metis append_is_Nil_conv list.distinct(1))
    moreover have "hd D = x" using D Cons by (metis append_Cons list.sel(1))
    ultimately have "\<not> ?sp x" using hd_dropWhile [of ?sp "rune_segments s"] by (auto simp: D_def)
    then show ?thesis by (simp add: Cons)
  qed simp
  moreover have "dropWhile ?sp (rev t) = rev t" by (simp add: t_def dropWhile_idem)
  moreover have "trim_space s = concat (map snd t)" by (simp add: trim_space_def D_def t_def)
  ultimately show ?thesis by (simp add: trim_space_def t)
qed



section \<open>Specs\<close>

lemma parseModelSpec_trim [simp]: "parseModelSpec lower (trim_space s) = parseModelSpec lower s"
  by (simp add: parseModelSpec_def)

lemma firstNonEmpty_trim [simp]: "trim_space v \<noteq> [] \<Longrightarrow> firstNonEmpty (v # vs) = trim_space v"
  by (simp add: Let_def)

lemma firstNonEmpty_skip [simp]: "trim_space v = [] \<Longrightarrow> firstNonEmpty (v # vs) = firstNonEmpty vs"
  by (simp add: Let_def)

lemma trim_space_Nil [simp]: "trim_space [] = []"
  by (simp add: trim_space_def rune_segments.simps [of "[]"])

lemma takeWhile_stop: "c \<notin> set p \<Longrightarrow> takeWhile (\<lambda>x. x \<noteq> c) (p @ c # m) = p"
  by (subst takeWhile_append2) auto

lemma dropWhile_stop: "c \<notin> set p \<Longrightarrow> dropWhile (\<lambda>x. x \<noteq> c) (p @ c # m) = c # m"
  by (subst dropWhile_append2) auto

lemma split_at_byte_at: "c \<notin> set p \<Longrightarrow> split_at_byte c (p @ c # m) = Some (p, m)"
  by (simp add: split_at_byte_def takeWhile_stop dropWhile_stop)

lemma split_at_byte_none: "c \<notin> set p \<Longrightarrow> split_at_byte c p = None"
  by (simp add: split_at_byte_def)

text \<open>The form of a spec: the parts come back, whatever the base URL holds.\<close>

lemma parseModelSpec_parts:
  assumes "trim_space p = p" "trim_space m = m" "trim_space u = u"
    and "trim_space (p @ '':'' @ m @ ''@'' @ u) = p @ '':'' @ m @ ''@'' @ u"
    and "CHR '':'' \<notin> set p" "CHR ''@'' \<notin> set m"
  shows "parseModelSpec lower (p @ '':'' @ m @ ''@'' @ u) = \<lparr>ms_provider = lower p, ms_model = m, ms_base_url = u\<rparr>"
  using assms by (simp add: parseModelSpec_def split_at_byte_at)



section \<open>Where a role's credentials go\<close>

lemma chosen_provider:
  "ms_provider (parseModelSpec lower (chosen_spec cfg (\<lambda>_. []))) = ms_provider (parseModelSpec lower (rc_model_id cfg))"
proof (cases "trim_space (rc_model_id cfg) = []")
  case False
  then show ?thesis by (simp add: chosen_spec_def del: firstNonEmpty.simps)
next
  case True
  have "trim_space ''claude-opus-4-8'' = ''claude-opus-4-8''" by code_simp
  then have "chosen_spec cfg (\<lambda>_. []) = ''claude-opus-4-8''" using True by (simp add: chosen_spec_def Let_def)
  moreover have "parseModelSpec lower (rc_model_id cfg) = parseModelSpec lower []"
    by (metis True parseModelSpec_trim)
  ultimately show ?thesis
    using \<open>trim_space ''claude-opus-4-8'' = ''claude-opus-4-8''\<close> by (simp add: parseModelSpec_def split_at_byte_def)
qed

text \<open>A router exists exactly for a valid spec and a valid retry policy.\<close>

definition router_env :: "provider_env \<Rightarrow> routing_config \<Rightarrow> string \<Rightarrow> string" where
  "router_env pe cfg = (case rc_env cfg of Some f \<Rightarrow> f | None \<Rightarrow> re_getenv (pe_run pe))"

lemma valid_provider:
  "ValidateModelSpec l lower raw = None \<Longrightarrow> ms_provider (parseModelSpec lower raw) \<in> {[], ''anthropic'', ''openai''}"
  by (auto simp: ValidateModelSpec_def Let_def split: if_splits)

lemma route_APIs: "AnthropicMessagesAPI \<noteq> OpenAICompletionsAPI" "AnthropicMessagesAPI \<noteq> GoogleGenerativeAPI"
    "OpenAICompletionsAPI \<noteq> GoogleGenerativeAPI"
  by (simp_all add: AnthropicMessagesAPI_def OpenAICompletionsAPI_def GoogleGenerativeAPI_def)

definition router_of :: "route_lib \<Rightarrow> provider_env \<Rightarrow> routing_config \<Rightarrow> route \<Rightarrow> router" where
  "router_of l pe cfg rt =
     \<lparr>pr_registry = registered pe (rt_model rt), pr_model = rt_model rt,
      pr_stream = (\<lambda>m c opts. (if rt_api rt = OpenAICompletionsAPI then openai_StreamSimple else StreamSimple) (pe_run pe) m c
        (Some (resolved_options l (rt_api_key rt) (rt_auth_token rt) (rc_blobs cfg) opts))),
      pr_retry = rc_retry cfg\<rparr>"

lemma resolveRoute_valid:
  assumes "ms_provider (parseModelSpec lower (chosen_spec cfg env)) \<in> {[], ''anthropic'', ''openai''}"
  obtains rt where "resolveRoute lower cfg env = Inr rt"
    "rt_api rt = mo_api (rt_model rt)"
    "rt_api rt = (if ms_provider (parseModelSpec lower (chosen_spec cfg env)) = ''openai''
       then OpenAICompletionsAPI else AnthropicMessagesAPI)"
    "mo_provider (rt_model rt) = (if ms_provider (parseModelSpec lower (chosen_spec cfg env)) = ''openai''
       then ''openai'' else ''anthropic'')"
    "mo_id (rt_model rt) = ms_model (parseModelSpec lower (chosen_spec cfg env))"
    "0 < mo_max_tokens (rt_model rt)" "mo_input (rt_model rt) = []" "\<not> fm_reasoning (rt_model rt)"
proof -
  have t: "0 < resolveMaxTokens env"
    by (simp add: resolveMaxTokens_def DefaultMaxTokens_def Let_def split: option.split)
  let ?p = "ms_provider (parseModelSpec lower (chosen_spec cfg env))"
  show thesis
  proof (cases "?p = ''openai''")
    case True
    then obtain rt where "resolveRoute lower cfg env = Inr rt"
      by (simp add: resolveRoute_def Let_def del: firstNonEmpty.simps)
    moreover from this True t have "rt_api rt = mo_api (rt_model rt)" "rt_api rt = OpenAICompletionsAPI"
        "mo_provider (rt_model rt) = ''openai''" "mo_id (rt_model rt) = ms_model (parseModelSpec lower (chosen_spec cfg env))"
        "0 < mo_max_tokens (rt_model rt)" "mo_input (rt_model rt) = []" "\<not> fm_reasoning (rt_model rt)"
      by (auto simp: resolveRoute_def Let_def route_model_def simp del: firstNonEmpty.simps)
    ultimately show thesis using True by (intro that) simp_all
  next
    case False
    with assms have p: "?p = [] \<or> ?p = ''anthropic''" by blast
    then obtain rt where "resolveRoute lower cfg env = Inr rt"
      by (auto simp: resolveRoute_def Let_def simp del: firstNonEmpty.simps)
    moreover from this p t have "rt_api rt = mo_api (rt_model rt)" "rt_api rt = AnthropicMessagesAPI"
        "mo_provider (rt_model rt) = ''anthropic''" "mo_id (rt_model rt) = ms_model (parseModelSpec lower (chosen_spec cfg env))"
        "0 < mo_max_tokens (rt_model rt)" "mo_input (rt_model rt) = []" "\<not> fm_reasoning (rt_model rt)"
      by (auto simp: resolveRoute_def Let_def route_model_def simp del: firstNonEmpty.simps)
    ultimately show thesis using False by (intro that) simp_all
  qed
qed

lemma NewProviderRouter_valid:
  assumes "ValidateModelSpec l (re_lower (pe_run pe)) (chosen_spec cfg (router_env pe cfg)) = None"
    and rt: "resolveRoute (re_lower (pe_run pe)) cfg (router_env pe cfg) = Inr rt"
      "rt_api rt \<in> {AnthropicMessagesAPI, OpenAICompletionsAPI}"
  shows "NewProviderRouter l pe cfg =
    (case Option.bind (rc_retry cfg) Validate of
       Some err \<Rightarrow> Inl (''retry policy: '' @ err) | None \<Rightarrow> Inr (router_of l pe cfg rt))"
proof -
  have found: "Option.bind (Resolve (registered pe m) (rt_api rt)) pv_stream =
      Some (if rt_api rt = OpenAICompletionsAPI then openai_StreamSimple (pe_run pe) else StreamSimple (pe_run pe))" for m
    using rt(2) route_APIs by (auto simp: registered_def)
  show ?thesis
    using assms(1) rt(1) unfolding NewProviderRouter_def router_env_def [symmetric] Let_def
    by (cases "rc_retry cfg") (auto simp: found withStream_def router_of_def split: option.split)
qed



definition secret :: "role_config \<Rightarrow> string \<Rightarrow> string" where
  "secret cfg name = (case rr_lookup cfg of None \<Rightarrow> [] | Some f \<Rightarrow> trim_space (fst (f name)))"

text \<open>The API key and the headers that a call with \<open>opts\<close> ends up with.\<close>

lemma resolved_key:
  "so_api_key (resolved_options l key token blobs opts) =
     (if trim_space (so_api_key (cloneSimpleOptions opts)) = [] \<and> key \<noteq> [] then key
      else so_api_key (cloneSimpleOptions opts))"
  by (auto simp: resolved_options_def Let_def)

lemma resolved_headers:
  "so_headers (resolved_options l key token blobs opts) =
     (if trim_space (so_api_key (resolved_options l key token blobs opts)) = [] \<and> token \<noteq> [] \<and>
         \<not> has_header l (so_headers (cloneSimpleOptions opts)) ''authorization''
      then assoc_set ''authorization'' (''Bearer '' @ token) (so_headers (cloneSimpleOptions opts))
      else so_headers (cloneSimpleOptions opts))"
  by (auto simp: resolved_options_def Let_def)

definition role_route :: "route_lib \<Rightarrow> provider_env \<Rightarrow> role_config \<Rightarrow> bool \<Rightarrow> simple_options option \<Rightarrow> simple_options" where
  "role_route l pe cfg openai opts =
     (if openai then resolved_options l (secret cfg ''OPENAI_API_KEY'') [] None opts
      else resolved_options l (secret cfg ''ANTHROPIC_API_KEY'') (secret cfg ''ANTHROPIC_AUTH_TOKEN'') None opts)"

lemma firstNonEmpty_trimmed: "firstNonEmpty [v, [], []] = trim_space v"
  by (simp add: Let_def)

lemma firstNonEmpty_trimmed2: "firstNonEmpty [v, []] = trim_space v"
  by (simp add: Let_def)

lemma newRoleRouter_routes:
  assumes "newRoleRouter l pe model cfg = Inr r"
  defines "openai \<equiv> ms_provider (parseModelSpec (re_lower (pe_run pe)) model) = ''openai''"
  shows "pr_stream r = (\<lambda>m c opts. (if openai then openai_StreamSimple else StreamSimple) (pe_run pe) m c
      (Some (role_route l pe cfg openai opts)))"
    and "mo_provider (pr_model r) = (if openai then ''openai'' else ''anthropic'')"
    and "mo_api (pr_model r) = (if openai then OpenAICompletionsAPI else AnthropicMessagesAPI)"
    and "trim_space model \<noteq> [] \<Longrightarrow> mo_id (pr_model r) = ms_model (parseModelSpec (re_lower (pe_run pe)) model)"
    and "mo_input (pr_model r) = []" "\<not> fm_reasoning (pr_model r)" "0 < mo_max_tokens (pr_model r)"
    and "pr_retry r = rr_retry cfg"
    and "ms_provider (parseModelSpec (re_lower (pe_run pe)) model) \<in> {[], ''anthropic'', ''openai''}"
proof -
  let ?lower = "re_lower (pe_run pe)"
  obtain key token where cred: "roleCredentials ?lower model (rr_lookup cfg) = (key, token)" by (meson surj_pair)
  let ?cfg = "\<lparr>rc_model_id = model, rc_base_url = [], rc_anthropic_url = rr_anthropic_url cfg, rc_openai_url = rr_openai_url cfg,
      rc_api_key = key, rc_auth_token = token, rc_max_tokens = rr_max_tokens cfg,
      rc_env = Some (\<lambda>_. []), rc_blobs = None, rc_retry = rr_retry cfg\<rparr>"
  have r: "NewProviderRouter l pe ?cfg = Inr r" using assms(1) by (simp add: newRoleRouter_def cred)
  have env: "router_env pe ?cfg = (\<lambda>_. [])" by (simp add: router_env_def)
  have prov: "ms_provider (parseModelSpec ?lower (chosen_spec ?cfg (\<lambda>_. []))) = ms_provider (parseModelSpec ?lower model)"
    using chosen_provider [of ?lower ?cfg] by simp
  have valid: "ValidateModelSpec l ?lower (chosen_spec ?cfg (\<lambda>_. [])) = None"
    using r by (auto simp: NewProviderRouter_def Let_def split: option.splits)
  from valid_provider [OF valid] have p: "ms_provider (parseModelSpec ?lower (chosen_spec ?cfg (\<lambda>_. []))) \<in> {[], ''anthropic'', ''openai''}" .
  then show "ms_provider (parseModelSpec ?lower model) \<in> {[], ''anthropic'', ''openai''}" by (simp only: prov)
  obtain rt where rt: "resolveRoute ?lower ?cfg (\<lambda>_. []) = Inr rt" "rt_api rt = mo_api (rt_model rt)"
      "rt_api rt = (if openai then OpenAICompletionsAPI else AnthropicMessagesAPI)"
      "mo_provider (rt_model rt) = (if openai then ''openai'' else ''anthropic'')"
      "mo_id (rt_model rt) = ms_model (parseModelSpec ?lower (chosen_spec ?cfg (\<lambda>_. [])))"
      "0 < mo_max_tokens (rt_model rt)" "mo_input (rt_model rt) = []" "\<not> fm_reasoning (rt_model rt)"
    using resolveRoute_valid [OF p] unfolding prov openai_def by blast
  have "rt_api rt \<in> {AnthropicMessagesAPI, OpenAICompletionsAPI}" by (simp add: rt(3))
  from NewProviderRouter_valid [of l pe ?cfg rt] valid rt(1) this r env
  have ro: "r = router_of l pe ?cfg rt" by (auto split: option.splits)
  have keys: "rt_api_key rt = trim_space key" "rt_auth_token rt = (if openai then [] else trim_space token)"
    using rt(1) p prov by (auto simp: resolveRoute_def Let_def openai_def firstNonEmpty_trimmed firstNonEmpty_trimmed2
        simp del: firstNonEmpty.simps split: if_splits)
  have creds: "trim_space key = secret cfg (if openai then ''OPENAI_API_KEY'' else ''ANTHROPIC_API_KEY'')"
      "\<not> openai \<Longrightarrow> trim_space token = secret cfg ''ANTHROPIC_AUTH_TOKEN''"
    using cred by (auto simp: roleCredentials_def secret_def openai_def split: option.splits if_splits)
  have api: "rt_api rt = OpenAICompletionsAPI \<longleftrightarrow> openai" using route_APIs by (simp add: rt(3))
  show "pr_stream r = (\<lambda>m c opts. (if openai then openai_StreamSimple else StreamSimple) (pe_run pe) m c
      (Some (role_route l pe cfg openai opts)))"
    using creds by (auto simp: ro router_of_def api keys role_route_def)
  show "mo_id (pr_model r) = ms_model (parseModelSpec ?lower model)" if "trim_space model \<noteq> []"
    using that rt(5) by (simp add: ro router_of_def chosen_spec_def del: firstNonEmpty.simps)
  show "mo_provider (pr_model r) = (if openai then ''openai'' else ''anthropic'')"
    "mo_api (pr_model r) = (if openai then OpenAICompletionsAPI else AnthropicMessagesAPI)"
    "mo_input (pr_model r) = []" "\<not> fm_reasoning (pr_model r)" "0 < mo_max_tokens (pr_model r)" "pr_retry r = rr_retry cfg"
    using rt by (simp_all add: ro router_of_def)
qed



text \<open>The spec of a role, and the one that is validated: without any, the default model's.\<close>

definition role_spec :: "role_config \<Rightarrow> string \<Rightarrow> string" where
  "role_spec cfg spec = (if trim_space spec = [] then rr_default cfg else spec)"

definition effective_spec :: "string \<Rightarrow> string" where
  "effective_spec spec = (if trim_space spec = [] then ''claude-opus-4-8'' else spec)"

lemma role_model: "firstNonEmpty [trim_space spec, trim_space (rr_default cfg)] = trim_space (role_spec cfg spec)"
  by (simp add: role_spec_def Let_def)

lemma ResolveRoles_each:
  "ResolveRoles l pe cfg =
     (case newRoleRouter l pe (trim_space (rr_default cfg)) cfg of
        Inl err \<Rightarrow> Inl err
      | Inr d \<Rightarrow>
          (case newRoleRouter l pe (trim_space (role_spec cfg (rr_plan cfg))) cfg of
             Inl err \<Rightarrow> Inl err
           | Inr p \<Rightarrow>
               (case newRoleRouter l pe (trim_space (role_spec cfg (rr_smol cfg))) cfg of
                  Inl err \<Rightarrow> Inl err
                | Inr s \<Rightarrow> Inr \<lparr>rs_default = d, rs_plan = p, rs_smol = s\<rparr>)))"
  unfolding ResolveRoles_def Let_def role_model ..

lemma ValidateModelSpec_trim [simp]: "ValidateModelSpec l lower (trim_space s) = ValidateModelSpec l lower s"
  by (simp add: ValidateModelSpec_def)

lemma newRoleRouter_iff:
  "(\<exists>r. newRoleRouter l pe model cfg = Inr r) \<longleftrightarrow>
     ValidateModelSpec l (re_lower (pe_run pe)) (effective_spec model) = None \<and> Option.bind (rr_retry cfg) Validate = None"
proof -
  let ?lower = "re_lower (pe_run pe)"
  obtain key token where cred: "roleCredentials ?lower model (rr_lookup cfg) = (key, token)" by (meson surj_pair)
  let ?cfg = "\<lparr>rc_model_id = model, rc_base_url = [], rc_anthropic_url = rr_anthropic_url cfg, rc_openai_url = rr_openai_url cfg,
      rc_api_key = key, rc_auth_token = token, rc_max_tokens = rr_max_tokens cfg,
      rc_env = Some (\<lambda>_. []), rc_blobs = None, rc_retry = rr_retry cfg\<rparr>"
  have new: "newRoleRouter l pe model cfg = NewProviderRouter l pe ?cfg" by (simp add: newRoleRouter_def cred)
  have env: "router_env pe ?cfg = (\<lambda>_. [])" by (simp add: router_env_def)
  have claude: "trim_space ''claude-opus-4-8'' = ''claude-opus-4-8''" by code_simp
  have chosen: "ValidateModelSpec l ?lower (chosen_spec ?cfg (\<lambda>_. [])) = ValidateModelSpec l ?lower (effective_spec model)"
    using claude by (simp add: chosen_spec_def effective_spec_def Let_def)
  show ?thesis
  proof (cases "ValidateModelSpec l ?lower (effective_spec model)")
    case None
    with chosen have v: "ValidateModelSpec l ?lower (chosen_spec ?cfg (\<lambda>_. [])) = None" by simp
    from resolveRoute_valid [OF valid_provider [OF v]] obtain rt where
      rt: "resolveRoute ?lower ?cfg (\<lambda>_. []) = Inr rt" "rt_api rt \<in> {AnthropicMessagesAPI, OpenAICompletionsAPI}"
      by (metis insertI1 insertI2)
    from NewProviderRouter_valid [of l pe ?cfg rt] v rt env None show ?thesis by (auto simp: new split: option.split)
  next
    case (Some err)
    with chosen env show ?thesis by (simp add: new NewProviderRouter_def router_env_def Let_def)
  qed
qed

lemma ResolveRoles_iff:
  "(\<exists>rs. ResolveRoles l pe cfg = Inr rs) \<longleftrightarrow>
     (\<exists>d. newRoleRouter l pe (trim_space (rr_default cfg)) cfg = Inr d) \<and>
     (\<exists>d. newRoleRouter l pe (trim_space (role_spec cfg (rr_plan cfg))) cfg = Inr d) \<and>
     (\<exists>d. newRoleRouter l pe (trim_space (role_spec cfg (rr_smol cfg))) cfg = Inr d)"
  unfolding ResolveRoles_each by (auto split: sum.split)

text \<open>No role falls back silently.  The three roles are routed exactly when the spec of each one
  (its own, the default role's, or the built-in model) is valid and the retry policy is; a spec
  names no provider, \<open>anthropic\<close> or \<open>openai\<close>, a model, and no base URL or a valid one.\<close>

lemma roles_resolve_exactly:
  "(\<exists>rs. ResolveRoles l pe cfg = Inr rs) \<longleftrightarrow>
     list_all (\<lambda>spec. ValidateModelSpec l (re_lower (pe_run pe)) (effective_spec spec) = None)
       [rr_default cfg, role_spec cfg (rr_plan cfg), role_spec cfg (rr_smol cfg)] \<and>
     Option.bind (rr_retry cfg) Validate = None"
proof -
  have e: "ValidateModelSpec l lower (effective_spec (trim_space s)) = ValidateModelSpec l lower (effective_spec s)" for lower s
    by (simp add: effective_spec_def)
  show ?thesis unfolding ResolveRoles_iff newRoleRouter_iff e by auto
qed

text \<open>C10: A provider only ever gets its own credentials.  The stream function of a role is that of the
  provider its spec names; the key it sends is the caller's or the secret of that provider, and a
  header is added only for Anthropic, only when there is no key, and only from the Anthropic token.
  The retry policy is the configured one.\<close>

theorem roles_keep_credentials:
  assumes "ResolveRoles l pe cfg = Inr rs"
    and "(spec, r) \<in> set [(rr_default cfg, rs_default rs), (role_spec cfg (rr_plan cfg), rs_plan rs),
      (role_spec cfg (rr_smol cfg), rs_smol rs)]"
  shows "let openai = (ms_provider (parseModelSpec (re_lower (pe_run pe)) spec) = ''openai'');
      key = secret cfg (if openai then ''OPENAI_API_KEY'' else ''ANTHROPIC_API_KEY'');
      given = cloneSimpleOptions opts in
    mo_provider (pr_model r) = (if openai then ''openai'' else ''anthropic'') \<and> pr_retry r = rr_retry cfg \<and>
    (\<exists>sent. pr_stream r m c opts = (if openai then openai_StreamSimple else StreamSimple) (pe_run pe) m c (Some sent) \<and>
      so_api_key sent = (if trim_space (so_api_key given) = [] \<and> key \<noteq> [] then key else so_api_key given) \<and>
      (so_headers sent = so_headers given \<or>
       \<not> openai \<and> trim_space (so_api_key sent) = [] \<and> \<not> has_header l (so_headers given) ''authorization'' \<and>
       so_headers sent = assoc_set ''authorization'' (''Bearer '' @ secret cfg ''ANTHROPIC_AUTH_TOKEN'') (so_headers given)))"
proof -
  have "newRoleRouter l pe (trim_space spec) cfg = Inr r"
    using assms unfolding ResolveRoles_each by (auto split: sum.splits)
  note R = newRoleRouter_routes [OF this, unfolded parseModelSpec_trim]
  show ?thesis
    unfolding Let_def R(1,2,8)
    by (intro conjI refl exI [of _ "role_route l pe cfg (ms_provider (parseModelSpec (re_lower (pe_run pe)) spec) = ''openai'') opts"])
      (auto simp: role_route_def resolved_key resolved_headers)
qed



definition example_lib :: route_lib where
  "example_lib = \<lparr>rl_parse_uri = \<lambda>_. None, rl_equal_fold = (=), rl_quote = id\<rparr>"

definition example_providers :: provider_env where
  "example_providers = \<lparr>pe_run = example_env\<lparr>re_lower := id\<rparr>, pe_upper = id, pe_counter = int\<rparr>"

definition example_roles :: role_config where
  "example_roles =
     \<lparr>rr_default = ''claude-opus-4-8'', rr_plan = '' openai:gpt-5 '', rr_smol = [], rr_anthropic_url = [], rr_openai_url = [],
      rr_max_tokens = 0, rr_lookup = Some (\<lambda>name. (name @ ''=1'', True)), rr_retry = Some DefaultConfig\<rparr>"

theorem roles_keep_credentials_witness:
  "\<exists>rs. ResolveRoles example_lib example_providers example_roles = Inr rs \<and>
     (\<forall>m c. \<exists>sent. pr_stream (rs_plan rs) m c None = openai_StreamSimple (pe_run example_providers) m c (Some sent) \<and>
        so_api_key sent = ''OPENAI_API_KEY=1'' \<and> so_headers sent = [])"
proof -
  have "Option.bind (rr_retry example_roles) Validate = None"
    by (simp add: example_roles_def DefaultConfig_def Validate_def Millisecond_def Second_def)
  moreover have "ValidateModelSpec example_lib (re_lower (pe_run example_providers))
      (effective_spec (trim_space (rr_default example_roles))) = None" by code_simp
  moreover have "ValidateModelSpec example_lib (re_lower (pe_run example_providers))
      (effective_spec (trim_space (role_spec example_roles (rr_plan example_roles)))) = None" by code_simp
  moreover have "ValidateModelSpec example_lib (re_lower (pe_run example_providers))
      (effective_spec (trim_space (role_spec example_roles (rr_smol example_roles)))) = None" by code_simp
  ultimately obtain rs where rs: "ResolveRoles example_lib example_providers example_roles = Inr rs"
    using ResolveRoles_iff [of example_lib example_providers example_roles] unfolding newRoleRouter_iff by blast
  have spec: "role_spec example_roles (rr_plan example_roles) = '' openai:gpt-5 ''" by code_simp
  have openai: "ms_provider (parseModelSpec (re_lower (pe_run example_providers)) '' openai:gpt-5 '') = ''openai''" by code_simp
  have key: "secret example_roles ''OPENAI_API_KEY'' = ''OPENAI_API_KEY=1''" by code_simp
  have "('' openai:gpt-5 '', rs_plan rs) \<in> set [(rr_default example_roles, rs_default rs),
      (role_spec example_roles (rr_plan example_roles), rs_plan rs), (role_spec example_roles (rr_smol example_roles), rs_smol rs)]"
    by (simp add: spec)
  from roles_keep_credentials [OF rs this, where opts = None] rs show ?thesis
    by (intro exI [of _ rs]) (simp add: Let_def openai key cloneSimpleOptions_def empty_simple_options_def)
qed

text \<open>
  The Google provider is registered, but no spec reaches it; and a routed model never accepts images
  and never reasons, since its input kinds and its reasoning flag are left at their zero values.
\<close>

lemma routed_model_limits:
  assumes "newRoleRouter l pe model cfg = Inr r"
  shows "mo_api (pr_model r) \<noteq> GoogleGenerativeAPI"
    "\<not> SupportsVision (core (pr_model r))" "\<not> fm_reasoning (pr_model r)"
  using newRoleRouter_routes(3,5,6) [OF assms] route_APIs by (auto simp: SupportsVision_def model.defs)


end
