(* ===== verification/Context_File.thy ===== *)
theory Context_File
  imports Prelude
begin

text \<open>
  \<open>internal/contextfile/imports.go\<close>: the expansion of \<open>@file\<close> references in context files.  The file
  system and the path functions of \<open>path/filepath\<close> are a record of arguments; the context is asked at
  the points where the code asks it, and its answers are counted by the state.  The import edges that
  may still be followed, \<open>maxDepth - depth\<close>, are the argument by which the recursion ends.
\<close>

section \<open>The world\<close>

record import_world =
  iw_dir :: "string \<Rightarrow> string"
  iw_join :: "string \<Rightarrow> string \<Rightarrow> string"
  iw_clean :: "string \<Rightarrow> string"
  iw_abs :: "string \<Rightarrow> string + string"
  iw_eval_links :: "string \<Rightarrow> string option"
  iw_regular :: "string \<Rightarrow> bool"
  iw_read :: "string \<Rightarrow> string option"
  iw_ctx :: "nat \<Rightarrow> string option"
  iw_home :: string

text \<open>The files visited so far, the last one first, and how often the context was asked.\<close>

record import_state =
  im_visited :: "string list"
  im_asked :: nat

definition ask_ctx :: "import_world \<Rightarrow> import_state \<Rightarrow> string option \<times> import_state" where
  "ask_ctx w st = (iw_ctx w (im_asked st), st\<lparr>im_asked := Suc (im_asked st)\<rparr>)"

type_synonym expansion = "import_state \<times> (string + string)"
type_synonym importer = "import_state \<Rightarrow> string \<Rightarrow> import_state \<times> (string + string option)"
type_synonym nested = "string \<Rightarrow> string \<Rightarrow> import_state \<Rightarrow> expansion"

text \<open>Text written before the rest of an expansion.\<close>

definition prepend :: "string \<Rightarrow> expansion \<Rightarrow> expansion" where
  "prepend p e = apsnd (map_sum id ((@) p)) e"

section \<open>Lines\<close>

definition importStart :: "char \<Rightarrow> bool" where
  "importStart b \<longleftrightarrow> b \<in> set ''./~_-'' \<or> (65 \<le> byte b \<and> byte b \<le> 90) \<or> (97 \<le> byte b \<and> byte b \<le> 122) \<or> (48 \<le> byte b \<and> byte b \<le> 57)"

definition tokenWhitespace :: "char \<Rightarrow> bool" where
  "tokenWhitespace b \<longleftrightarrow> byte b \<in> {32, 9, 13, 10, 11, 12}"

definition prose_end :: string where
  "prose_end = ''.,;:!?)]}'' @ [CHR 0x22, CHR 0x27]"

definition trim_token :: "string \<Rightarrow> string" where
  "trim_token token = rev (dropWhile (\<lambda>c. c \<in> set prose_end) (rev token))"

definition BACKTICK :: char where "BACKTICK = CHR 0x60"

text \<open>\<open>run\<close> is the open run of backticks, \<open>before\<close> the byte before the rest of the line.\<close>

function expandLine :: "importer \<Rightarrow> nat \<Rightarrow> char option \<Rightarrow> string \<Rightarrow> import_state \<Rightarrow> expansion" where
  "expandLine imp run before [] st = (st, Inr [])"
| "expandLine imp run before (c # s) st =
     (if c = BACKTICK then
        (let n = Suc (length (takeWhile (\<lambda>x. x = BACKTICK) s));
             run' = (if run = 0 then n else if run = n then 0 else run)
         in prepend (replicate n BACKTICK) (expandLine imp run' (Some BACKTICK) (drop (n - 1) s) st))
      else if run \<noteq> 0 \<or> c \<noteq> CHR ''@'' \<or> (case before of None \<Rightarrow> False | Some p \<Rightarrow> p \<noteq> CHR '' '' \<and> p \<noteq> TAB) \<or>
        s = [] \<or> \<not> importStart (hd s) then
        prepend [c] (expandLine imp run (Some c) s st)
      else
        (let token = takeWhile (\<lambda>x. \<not> tokenWhitespace x) s; candidate = trim_token token in
         case imp st candidate of
           (st', Inl err) \<Rightarrow> (st', Inl err)
         | (st', Inr found) \<Rightarrow>
             prepend (case found of Some text1 \<Rightarrow> text1 @ drop (length candidate) token | None \<Rightarrow> c # token)
               (expandLine imp run (Some (last (c # token))) (drop (length token) s) st')))"
  by pat_completeness auto
termination by (relation "measure (\<lambda>(_, _, _, s, _). length s)") auto

text \<open>The marker and the length of a code fence.\<close>

definition fence :: "string \<Rightarrow> (char \<times> nat) option" where
  "fence line =
     (case line of
        [] \<Rightarrow> None
      | c # _ \<Rightarrow>
          if length line < 3 \<or> (c \<noteq> BACKTICK \<and> c \<noteq> CHR ''~'') then None
          else (let n = length (takeWhile (\<lambda>x. x = c) line) in if n < 3 then None else Some (c, n)))"

function expand_lines :: "importer \<Rightarrow> (char \<times> nat) option \<Rightarrow> string \<Rightarrow> import_state \<Rightarrow> expansion" where
  "expand_lines imp open_fence content st =
     (if content = [] then (st, Inr [])
      else
        (let line = takeWhile (\<lambda>c. c \<noteq> NL) content;
             newline = (if NL \<in> set content then [NL] else []);
             rest = drop (Suc (length line)) content
         in case fence (dropWhile (\<lambda>c. c = CHR '' '' \<or> c = TAB) line) of
              Some (marker, n) \<Rightarrow>
                (let fence' = (case open_fence of
                    None \<Rightarrow> Some (marker, n)
                  | Some (c, k) \<Rightarrow> if marker = c \<and> n \<ge> k then None else open_fence)
                 in prepend (line @ newline) (expand_lines imp fence' rest st))
            | None \<Rightarrow>
                if open_fence \<noteq> None then prepend (line @ newline) (expand_lines imp open_fence rest st)
                else (case expandLine imp 0 None line st of
                    (st', Inl err) \<Rightarrow> (st', Inl err)
                  | (st', Inr out) \<Rightarrow> prepend (out @ newline) (expand_lines imp open_fence rest st'))))"
  by pat_completeness auto
termination by (relation "measure (\<lambda>(_, _, content, _). length content)") auto

declare expandLine.simps(2) [simp del] expand_lines.simps [simp del]

section \<open>Files\<close>

definition canonicalPath :: "import_world \<Rightarrow> string \<Rightarrow> string" where
  "canonicalPath w path = iw_clean w (case iw_eval_links w path of Some p \<Rightarrow> p | None \<Rightarrow> path)"

text \<open>The path a reference names, when it names one.\<close>

definition import_target :: "import_world \<Rightarrow> string \<Rightarrow> string \<Rightarrow> string option" where
  "import_target w source target =
     (if target = ''~'' then (if iw_home w = [] then None else Some (iw_home w))
      else if prefix ''~/'' target then (if iw_home w = [] then None else Some (iw_join w (iw_home w) (drop 2 target)))
      else if \<not> prefix ''/'' target then Some (iw_join w (iw_dir w source) target)
      else Some target)"

definition importFile :: "import_world \<Rightarrow> nested option \<Rightarrow> string \<Rightarrow> importer" where
  "importFile w deeper source st target =
     (case ask_ctx w st of
        (Some err, st1) \<Rightarrow> (st1, Inl err)
      | (None, st1) \<Rightarrow>
          (case Option.bind (import_target w source target) (\<lambda>p. case iw_abs w p of Inl _ \<Rightarrow> None | Inr a \<Rightarrow> Some a) of
             None \<Rightarrow> (st1, Inr None)
           | Some absolute \<Rightarrow>
               (let key = canonicalPath w absolute in
                if key \<in> set (im_visited st1) then (st1, Inr None)
                else case deeper of
                  None \<Rightarrow> (st1, Inr None)
                | Some expand \<Rightarrow>
                    (case ask_ctx w st1 of
                       (Some err, st2) \<Rightarrow> (st2, Inl err)
                     | (None, st2) \<Rightarrow>
                         (case (if iw_regular w absolute then iw_read w absolute else None) of
                            None \<Rightarrow> (st2, Inr None)
                          | Some data \<Rightarrow>
                              (case ask_ctx w st2 of
                                 (Some err, st3) \<Rightarrow> (st3, Inl err)
                               | (None, st3) \<Rightarrow>
                                   apsnd (map_sum id Some)
                                     (expand absolute data (st3\<lparr>im_visited := key # im_visited st3\<rparr>))))))))"

definition expand_body :: "import_world \<Rightarrow> nested option \<Rightarrow> nested" where
  "expand_body w deeper path content st =
     (case ask_ctx w st of
        (Some err, st1) \<Rightarrow> (st1, Inl err)
      | (None, st1) \<Rightarrow> expand_lines (importFile w deeper path) None content st1)"

text \<open>With \<open>n\<close> import edges left.\<close>

primrec expand :: "import_world \<Rightarrow> nat \<Rightarrow> nested" where
  "expand w 0 = expand_body w None"
| "expand w (Suc n) = expand_body w (Some (expand w n))"

datatype import_error = InvalidOptions string | InvalidSource string string | ContextDone string

definition MaxImportDepth :: nat where "MaxImportDepth = 5"

definition Expand :: "import_world \<Rightarrow> string \<Rightarrow> string \<Rightarrow> int \<Rightarrow> import_state option \<times> (import_error + string)" where
  "Expand w filePath content max_depth =
     (if max_depth < 0 \<or> max_depth > int MaxImportDepth then (None, Inl (InvalidOptions filePath))
      else case iw_abs w filePath of
        Inl err \<Rightarrow> (None, Inl (InvalidSource filePath err))
      | Inr absolute \<Rightarrow>
          (let depth = (if max_depth = 0 then MaxImportDepth else nat max_depth);
               (st, res) = expand w depth absolute content \<lparr>im_visited = [canonicalPath w absolute], im_asked = 0\<rparr>
           in (Some st, map_sum ContextDone id res)))"


section \<open>The contract of an importer\<close>

lemma prepend_simps [simp]:
  "fst (prepend p e) = fst e" "isl (snd (prepend p e)) = isl (snd e)" "prepend p (st, Inr out) = (st, Inr (p @ out))"
  by (cases e; cases "snd e"; simp add: prepend_def)+

lemma prepend_Inr: "snd e = Inr out \<Longrightarrow> snd (prepend p e) = Inr (p @ out)"
  by (cases e) simp

text \<open>
  The loops over an importer, by what holds of it: one import changes the state along a preorder, and
  relates it to a result that a prefix can be put before.
\<close>

locale lawful_importer =
  fixes imp :: importer and R :: "import_state \<Rightarrow> import_state \<Rightarrow> bool"
  assumes stays: "R st st" and chain: "R a b \<Longrightarrow> R b c \<Longrightarrow> R a c" and one: "R st (fst (imp st t))"
begin

lemma expandLine_moves: "R st (fst (expandLine imp run before s st))"
proof (induction "length s" arbitrary: run before s st rule: less_induct)
  case less
  show ?case
  proof (cases s)
    case Nil
    then show ?thesis by (simp add: stays)
  next
    case (Cons c s')
    have IH: "R st' (fst (expandLine imp run' before' (drop n s') st'))" for run' before' n st'
      by (rule less.hyps) (simp add: Cons)
    obtain st' res where i: "imp st (trim_token (takeWhile (\<lambda>x. \<not> tokenWhitespace x) s')) = (st', res)" by (meson surj_pair)
    have "R st st'" using one [of st] i by (metis fst_conv)
    then have "R st (fst (expandLine imp run' before' (drop n s') st'))" for run' before' n using IH chain by blast
    with IH [of st _ _ 0] IH \<open>R st st'\<close> show ?thesis by (cases res) (simp_all add: Cons expandLine.simps(2) Let_def i)
  qed
qed

lemma expand_lines_moves: "R st (fst (expand_lines imp open_fence content st))"
proof (induction "length content" arbitrary: open_fence content st rule: less_induct)
  case less
  show ?case
  proof (cases "content = []")
    case True
    then show ?thesis by (simp add: expand_lines.simps stays)
  next
    case False
    let ?line = "takeWhile (\<lambda>c. c \<noteq> NL) content"
    have IH: "R st' (fst (expand_lines imp f (drop (Suc n) content) st'))" for f n st'
      by (rule less.hyps) (use False in simp)
    obtain st' res where l: "expandLine imp 0 None ?line st = (st', res)" by (meson surj_pair)
    have m: "R st st'" using expandLine_moves [of st 0 None ?line] l by simp
    then have "R st (fst (expand_lines imp f (drop (Suc n) content) st'))" for f n using IH chain by blast
    with IH m False show ?thesis
      by (subst expand_lines.simps) (auto simp: Let_def l split: option.split sum.split)
  qed
qed

end

text \<open>An importer that never fails.\<close>

locale quiet_importer = lawful_importer +
  assumes quiet: "\<not> isl (snd (imp st t))"
begin

lemma expandLine_quiet: "\<not> isl (snd (expandLine imp run before s st))"
proof (induction "length s" arbitrary: run before s st rule: less_induct)
  case less
  show ?case
  proof (cases s)
    case (Cons c s')
    have IH: "\<not> isl (snd (expandLine imp run' before' (drop n s') st'))" for run' before' n st'
      by (rule less.hyps) (simp add: Cons)
    obtain st' found where "imp st (trim_token (takeWhile (\<lambda>x. \<not> tokenWhitespace x) s')) = (st', Inr found)"
      using quiet by (metis isl_def prod.collapse sum.exhaust)
    with IH [of _ _ 0] IH show ?thesis by (simp add: Cons expandLine.simps(2) Let_def)
  qed simp
qed

lemma expand_lines_quiet: "\<not> isl (snd (expand_lines imp open_fence content st))"
proof (induction "length content" arbitrary: open_fence content st rule: less_induct)
  case less
  show ?case
  proof (cases "content = []")
    case True
    then show ?thesis by (simp add: expand_lines.simps)
  next
    case False
    have IH: "\<not> isl (snd (expand_lines imp f (drop (Suc n) content) st'))" for f n st'
      by (rule less.hyps) (use False in simp)
    obtain st' out where "expandLine imp 0 None (takeWhile (\<lambda>c. c \<noteq> NL) content) st = (st', Inr out)"
      using expandLine_quiet by (metis isl_def prod.collapse sum.exhaust)
    with IH False show ?thesis by (subst expand_lines.simps) (simp add: Let_def split: option.split)
  qed
qed

end



section \<open>Text that stays\<close>

lemma take_run: "takeWhile (\<lambda>x. x = c) s @ drop (length (takeWhile (\<lambda>x. x = c) s)) s = s"
  by (metis append_eq_conv_conj takeWhile_dropWhile_id)

lemma run_replicate: "takeWhile (\<lambda>x. x = c) s = replicate (length (takeWhile (\<lambda>x. x = c) s)) c"
  by (induction s) auto

lemma backticks_again:
  "replicate (length (takeWhile (\<lambda>x. x = c) s)) c @ drop (length (takeWhile (\<lambda>x. x = c) s)) s = s"
  using take_run [of c s] run_replicate [of c s] by metis

lemma line_again: "takeWhile (\<lambda>c. c \<noteq> d) s @ (if d \<in> set s then [d] else []) @
    drop (Suc (length (takeWhile (\<lambda>c. c \<noteq> d) s))) s = s"
  by (induction s) auto

text \<open>A line comes back when its references, if it has any, all stay.\<close>

lemma expandLine_literal:
  assumes "CHR ''@'' \<notin> set s \<or> (\<forall>st t. snd (imp st t) = Inr None)"
  shows "snd (expandLine imp run before s st) = Inr s"
  using assms
proof (induction "length s" arbitrary: run before s st rule: less_induct)
  case less
  show ?case
  proof (cases s)
    case (Cons c s')
    have "CHR ''@'' \<notin> set (drop n s') \<or> (\<forall>st t. snd (imp st t) = Inr None)" for n
      using less.prems set_drop_subset [of n s'] by (auto simp: Cons)
    then have IH: "snd (expandLine imp run' before' (drop n s') st') = Inr (drop n s')" for run' before' n st'
      using less.hyps [of "drop n s'"] by (simp add: Cons)
    have plain: "snd (prepend p (expandLine imp run' before' (drop n s') st')) = Inr (p @ drop n s')" for p run' before' n st'
      by (rule prepend_Inr [OF IH])
    show ?thesis
    proof (cases "c = BACKTICK")
      case True
      then show ?thesis using plain by (simp add: Cons expandLine.simps(2) Let_def backticks_again)
    next
      case False
      let ?token = "takeWhile (\<lambda>x. \<not> tokenWhitespace x) s'"
      obtain st' res where i: "imp st (trim_token ?token) = (st', res)" by (meson surj_pair)
      have token: "?token @ drop (length ?token) s' = s'" by (metis append_eq_conv_conj takeWhile_dropWhile_id)
      have "c = CHR ''@'' \<Longrightarrow> res = Inr None" using less.prems i by (auto simp: Cons) (metis snd_conv)
      with False plain [of _ _ _ 0] plain token show ?thesis
        by (auto simp: Cons expandLine.simps(2) Let_def i)
    qed
  qed simp
qed

lemma expand_lines_literal:
  assumes "CHR ''@'' \<notin> set content \<or> (\<forall>st t. snd (imp st t) = Inr None)"
  shows "snd (expand_lines imp open_fence content st) = Inr content"
  using assms
proof (induction "length content" arbitrary: open_fence content st rule: less_induct)
  case less
  show ?case
  proof (cases "content = []")
    case True
    then show ?thesis by (simp add: expand_lines.simps)
  next
    case False
    let ?line = "takeWhile (\<lambda>c. c \<noteq> NL) content"
    let ?rest = "drop (Suc (length ?line)) content"
    have "CHR ''@'' \<notin> set ?rest \<or> (\<forall>st t. snd (imp st t) = Inr None)"
      using less.prems set_drop_subset [of "Suc (length ?line)" content] by auto
    then have IH: "snd (expand_lines imp f ?rest st') = Inr ?rest" for f st'
      using less.hyps [of ?rest] False by simp
    have "CHR ''@'' \<notin> set ?line \<or> (\<forall>st t. snd (imp st t) = Inr None)"
      using less.prems set_takeWhileD [of _ _ content] by auto
    then obtain st' where l: "expandLine imp 0 None ?line st = (st', Inr ?line)"
      using expandLine_literal [of ?line imp 0 None st] by (metis prod.collapse)
    have done1: "snd (prepend (?line @ (if NL \<in> set content then [NL] else [])) (expand_lines imp f ?rest st')) = Inr content"
      for f st' using prepend_Inr [OF IH] line_again [of NL content] by (metis append.assoc)
    define nl where "nl = (if NL \<in> set content then [NL] else [])"
    have "snd (prepend (?line @ nl) (expand_lines imp f ?rest st')) = Inr content" for f st'
      using done1 by (simp only: nl_def)
    then show ?thesis using False unfolding expand_lines.simps [of imp open_fence content st] Let_def nl_def [symmetric]
      by (simp add: l split: option.split)
  qed
qed

section \<open>The files of an expansion\<close>

text \<open>From one state to a later one: new keys, none of them visited before, all of regular files.\<close>

definition visits :: "import_world \<Rightarrow> import_state \<Rightarrow> import_state \<Rightarrow> bool" where
  "visits w st st' \<longleftrightarrow>
     (\<exists>new. im_visited st' = new @ im_visited st \<and> distinct new \<and> set new \<inter> set (im_visited st) = {} \<and>
       list_all (\<lambda>k. \<exists>p. canonicalPath w p = k \<and> iw_regular w p) new)"

lemma visits_refl: "visits w st st"
  by (auto simp: visits_def)

lemma visits_trans: "visits w a b \<Longrightarrow> visits w b c \<Longrightarrow> visits w a c"
  unfolding visits_def by (elim exE conjE) (rule exI, auto)

lemma visits_asked: "ask_ctx w st = (e, st') \<Longrightarrow> im_visited st' = im_visited st"
  by (auto simp: ask_ctx_def)

lemma visits_same: "im_visited st' = im_visited st \<Longrightarrow> visits w st st'"
  by (simp add: visits_def)



text \<open>What the file below may be relied on for.\<close>

definition visiting :: "import_world \<Rightarrow> nested option \<Rightarrow> bool" where
  "visiting w deeper = pred_option (\<lambda>f. \<forall>path data st. visits w st (fst (f path data st))) deeper"

definition quiet_file :: "nested option \<Rightarrow> bool" where
  "quiet_file deeper = pred_option (\<lambda>f. \<forall>path data st. \<not> isl (snd (f path data st))) deeper"

lemma importFile_visits:
  assumes deeper: "visiting w deeper"
  shows "visits w st (fst (importFile w deeper source st target))"
proof -
  obtain e1 st1 where a1: "ask_ctx w st = (e1, st1)" by (meson surj_pair)
  obtain e2 st2 where a2: "ask_ctx w st1 = (e2, st2)" by (meson surj_pair)
  obtain e3 st3 where a3: "ask_ctx w st2 = (e3, st3)" by (meson surj_pair)
  have v: "im_visited st1 = im_visited st" "im_visited st2 = im_visited st" "im_visited st3 = im_visited st"
    using visits_asked [OF a1] visits_asked [OF a2] visits_asked [OF a3] by simp_all
  note same = v [THEN visits_same]
  define goal_path where
    "goal_path = Option.bind (import_target w source target) (\<lambda>p. case iw_abs w p of Inl _ \<Rightarrow> None | Inr a \<Rightarrow> Some a)"
  show ?thesis
  proof (cases "e1 = None \<and> (\<exists>absolute. goal_path = Some absolute \<and> canonicalPath w absolute \<notin> set (im_visited st1)) \<and>
      (\<exists>expand. deeper = Some expand) \<and> e2 = None")
    case False
    then show ?thesis using same
      by (auto simp: importFile_def a1 a2 goal_path_def [symmetric] Let_def split: option.split)
  next
    case True
    then obtain absolute expand where t: "e1 = None" "goal_path = Some absolute"
        "canonicalPath w absolute \<notin> set (im_visited st1)" "deeper = Some expand" "e2 = None" by blast
    show ?thesis
    proof (cases "\<exists>data. iw_regular w absolute \<and> iw_read w absolute = Some data \<and> e3 = None")
      case False
      then show ?thesis using same t
        by (auto simp: importFile_def a1 a2 a3 goal_path_def [symmetric] Let_def split: option.split)
    next
      case True
      then obtain data where d: "iw_regular w absolute" "iw_read w absolute = Some data" "e3 = None" by blast
      let ?st = "st3\<lparr>im_visited := canonicalPath w absolute # im_visited st3\<rparr>"
      have "visits w st ?st"
        unfolding visits_def by (rule exI [of _ "[canonicalPath w absolute]"]) (use t d v in auto)
      moreover have "visits w ?st (fst (expand absolute data ?st))" using deeper t(4) by (simp add: visiting_def)
      ultimately have "visits w st (fst (expand absolute data ?st))" by (rule visits_trans)
      then show ?thesis using t d
        by (simp add: importFile_def a1 a2 a3 goal_path_def [symmetric] Let_def)
    qed
  qed
qed

lemma importFile_lawful:
  assumes "visiting w deeper"
  shows "lawful_importer (importFile w deeper source) (visits w)"
  using importFile_visits [OF assms] by unfold_locales (auto intro: visits_refl visits_trans)

text \<open>The expansion with \<open>n\<close> edges left, as what the files one edge above may call.\<close>

definition below :: "import_world \<Rightarrow> nat \<Rightarrow> nested option" where
  "below w n = (case n of 0 \<Rightarrow> None | Suc k \<Rightarrow> Some (expand w k))"

lemma expand_below: "expand w n = expand_body w (below w n)"
  by (cases n) (simp_all add: below_def)

lemma expand_body_visits:
  assumes "visiting w deeper"
  shows "visits w st (fst (expand_body w deeper path content st))"
proof -
  obtain e st1 where a: "ask_ctx w st = (e, st1)" by (meson surj_pair)
  have "visits w st st1" using visits_same [OF visits_asked [OF a]] .
  moreover have "visits w st1 (fst (expand_lines (importFile w deeper path) None content st1))"
    by (rule lawful_importer.expand_lines_moves [OF importFile_lawful [OF assms]])
  ultimately show ?thesis by (auto simp: expand_body_def a intro: visits_trans split: option.split)
qed

lemma expand_visits: "visits w st (fst (expand w n path content st))"
proof (induction n arbitrary: path content st)
  case 0
  show ?case by (simp add: expand_body_visits visiting_def)
next
  case (Suc n)
  then have "visiting w (Some (expand w n))" by (simp add: visiting_def)
  then show ?case by (simp add: expand_body_visits)
qed

lemma below_visits: "visiting w (below w n)"
  by (auto simp: below_def visiting_def expand_visits split: nat.splits)

interpretation files: lawful_importer "importFile w (below w n) source" "visits w" for w n source
  by (rule importFile_lawful [OF below_visits])



section \<open>Without cancellation\<close>

definition uncancelled :: "import_world \<Rightarrow> import_world" where
  "uncancelled w = w\<lparr>iw_ctx := \<lambda>_. None\<rparr>"

lemma ask_uncancelled: "fst (ask_ctx (uncancelled w) st) = None"
  by (simp add: ask_ctx_def uncancelled_def)

lemma importFile_quiet:
  assumes deeper: "quiet_file deeper"
  shows "\<not> isl (snd (importFile (uncancelled w) deeper source st target))"
proof -
  let ?w = "uncancelled w"
  obtain st1 where a1: "ask_ctx ?w st = (None, st1)" using ask_uncancelled by (metis prod.collapse)
  obtain st2 where a2: "ask_ctx ?w st1 = (None, st2)" using ask_uncancelled by (metis prod.collapse)
  obtain st3 where a3: "ask_ctx ?w st2 = (None, st3)" using ask_uncancelled by (metis prod.collapse)
  show ?thesis
    using deeper by (auto simp: quiet_file_def importFile_def a1 a2 a3 Let_def isl_map_sum split: option.split)
qed

lemma below_quiet_importer:
  assumes "quiet_file (below (uncancelled w) n)"
  shows "quiet_importer (importFile (uncancelled w) (below (uncancelled w) n) source) (visits (uncancelled w))"
  by (rule quiet_importer.intro [OF files.lawful_importer_axioms]) (unfold_locales, rule importFile_quiet [OF assms])

lemma expand_quiet: "\<not> isl (snd (expand (uncancelled w) n path content st))"
proof (induction n arbitrary: path content st)
  case 0
  have "quiet_importer (importFile (uncancelled w) (below (uncancelled w) 0) path) (visits (uncancelled w))"
    by (rule below_quiet_importer) (simp add: below_def quiet_file_def)
  from quiet_importer.expand_lines_quiet [OF this] show ?case
    using ask_uncancelled [of w st] by (auto simp: expand_body_def below_def split: prod.split option.split)
next
  case (Suc n)
  have "quiet_importer (importFile (uncancelled w) (below (uncancelled w) (Suc n)) path) (visits (uncancelled w))"
    by (rule below_quiet_importer) (simp add: below_def quiet_file_def Suc.IH)
  from quiet_importer.expand_lines_quiet [OF this] show ?case
    using ask_uncancelled [of w st] by (auto simp: expand_body_def below_def split: prod.split option.split)
qed

interpretation calm: quiet_importer
  "importFile (uncancelled w) (below (uncancelled w) n) source" "visits (uncancelled w)" for w n source
  by (rule below_quiet_importer) (auto simp: below_def quiet_file_def expand_quiet split: nat.splits)



lemma importFile_none:
  assumes "\<forall>p. \<not> iw_regular w p"
  shows "snd (importFile (uncancelled w) deeper source st target) = Inr None"
proof -
  let ?w = "uncancelled w"
  obtain st1 where a1: "ask_ctx ?w st = (None, st1)" using ask_uncancelled by (metis prod.collapse)
  obtain st2 where a2: "ask_ctx ?w st1 = (None, st2)" using ask_uncancelled by (metis prod.collapse)
  have "\<not> iw_regular ?w p" for p using assms by (simp add: uncancelled_def)
  then show ?thesis by (simp add: importFile_def a1 a2 Let_def split: option.split)
qed

lemma expand_literal:
  assumes "CHR ''@'' \<notin> set content \<or> (\<forall>p. \<not> iw_regular w p)"
  shows "snd (expand (uncancelled w) n path content st) = Inr content"
proof -
  have "CHR ''@'' \<notin> set content \<or> (\<forall>st t. snd (importFile (uncancelled w) (below (uncancelled w) n) path st t) = Inr None)"
    using assms importFile_none by blast
  from expand_lines_literal [OF this] show ?thesis
    using ask_uncancelled [of w st] unfolding expand_below expand_body_def by (auto split: prod.split option.split)
qed


text \<open>Two files that import each other, from a third.\<close>

definition cyclic_files :: import_world where
  "cyclic_files =
     \<lparr>iw_dir = \<lambda>_. ''/d/'', iw_join = \<lambda>d p. d @ drop 2 p, iw_clean = id, iw_abs = Inr, iw_eval_links = Some,
      iw_regular = \<lambda>p. p \<in> set [''/d/a'', ''/d/b''],
      iw_read = \<lambda>p. map_of [(''/d/a'', ''A @./b.''), (''/d/b'', ''B @./a'')] p, iw_ctx = \<lambda>_. None, iw_home = []\<rparr>"

lemma cyclic_files_text: "snd (Expand cyclic_files ''/d/m'' ''see @./a, @./b'' 0) = Inr ''see A B @./a., @./b''"
  by code_simp



end
