(* ===== verification/Progress.thy ===== *)
theory Progress
  imports Prelude
begin

text \<open>
  \<open>internal/progress/progress.go\<close>: the checklist of todos that is rewritten at every \<open>todo_write\<close>.
  The answers of the file system to the steps of an update are arguments; the two files it touches
  and the todos are the state, and an update, which runs under the store's mutex, is one step.
\<close>

section \<open>Todos\<close>

record todo =
  td_id :: string
  td_content :: string
  td_status :: string
  td_priority :: string

text \<open>\<open>unicode.IsControl\<close>.\<close>

definition is_control :: "rune \<Rightarrow> bool" where
  "is_control r \<longleftrightarrow> r < 0x20 \<or> (0x7F \<le> r \<and> r \<le> 0x9F)"

text \<open>\<open>quote\<close> is \<open>%q\<close>.\<close>

definition validate_todo :: "(string \<Rightarrow> string) \<Rightarrow> nat \<Rightarrow> todo \<Rightarrow> string option" where
  "validate_todo quote n t =
     (if trim_space (td_content t) = [] then Some (''todo '' @ show_nat n @ '' content is required'')
      else if list_ex is_control (runes (td_content t))
      then Some (''todo '' @ show_nat n @ '' content must be a single printable line'')
      else if td_status t \<notin> set [''pending'', ''in_progress'', ''completed'']
      then Some (''todo '' @ show_nat n @ '' has invalid status '' @ quote (td_status t))
      else if td_priority t \<noteq> [] \<and> td_priority t \<notin> set [''high'', ''medium'', ''low'']
      then Some (''todo '' @ show_nat n @ '' has invalid priority '' @ quote (td_priority t))
      else None)"

fun validate_from :: "(string \<Rightarrow> string) \<Rightarrow> nat \<Rightarrow> todo list \<Rightarrow> string option" where
  "validate_from quote n [] = None"
| "validate_from quote n (t # ts) =
     (case validate_todo quote n t of Some err \<Rightarrow> Some err | None \<Rightarrow> validate_from quote (Suc n) ts)"

definition validate_todos :: "(string \<Rightarrow> string) \<Rightarrow> todo list \<Rightarrow> string option" where
  "validate_todos quote todos = validate_from quote 1 todos"

section \<open>The checklist\<close>

definition escapeBackticks :: "string \<Rightarrow> string" where
  "escapeBackticks s = concat (map (\<lambda>c. if c = CHR 0x60 then [CHR 0x5C, CHR 0x60] else [c]) s)"

definition todo_metadata :: "todo \<Rightarrow> string list" where
  "todo_metadata t =
     (if td_status t = ''in_progress'' then [''in progress''] else []) @
     (if td_priority t \<noteq> [] then [td_priority t @ '' priority''] else [])"

definition render_todo :: "todo \<Rightarrow> string" where
  "render_todo t =
     ''- '' @ (if td_status t = ''completed'' then ''[x]'' else ''[ ]'') @ '' '' @
     (if td_id t \<noteq> [] then [CHR 0x60] @ escapeBackticks (td_id t) @ [CHR 0x60] @ '' '' else []) @ td_content t @
     (if todo_metadata t \<noteq> [] then '' _('' @ join '', '' (todo_metadata t) @ '')_'' else []) @ [NL]"

definition RenderMarkdown :: "todo list \<Rightarrow> string" where
  "RenderMarkdown todos =
     ''# Progress'' @ [NL, NL] @ (if todos = [] then ''No todos.'' @ [NL] else concat (map render_todo todos))"

section \<open>The store\<close>

record progress_store =
  ps_todos :: "todo list"
  ps_file :: "string option"
  ps_tmp :: "string option"

text \<open>
  What the steps of an update answer: the errors of \<open>MkdirAll\<close>, \<open>WriteFile\<close> (with what it leaves
  in the file) and \<open>Rename\<close>, and whether \<open>Remove\<close> works.
\<close>

record progress_env =
  pg_ctx :: "string option"
  pg_mkdir :: "string option"
  pg_write :: "(string \<times> string option) option"
  pg_rename :: "string option"
  pg_removed :: bool

definition NewStore :: progress_store where
  "NewStore = \<lparr>ps_todos = [], ps_file = None, ps_tmp = None\<rparr>"

definition Update :: "(string \<Rightarrow> string) \<Rightarrow> progress_env \<Rightarrow> todo list \<Rightarrow> progress_store \<Rightarrow> progress_store \<times> string option" where
  "Update quote en todos s =
     (case validate_todos quote todos of
        Some err \<Rightarrow> (s, Some err)
      | None \<Rightarrow>
          (case pg_ctx en of
             Some err \<Rightarrow> (s, Some err)
           | None \<Rightarrow>
               if todos = [] then (s, None)
               else case pg_mkdir en of
                 Some err \<Rightarrow> (s, Some err)
               | None \<Rightarrow>
                   (case pg_write en of
                      Some (err, left) \<Rightarrow> (s\<lparr>ps_tmp := left\<rparr>, Some err)
                    | None \<Rightarrow>
                        (let s1 = s\<lparr>ps_tmp := Some (RenderMarkdown todos)\<rparr> in
                         case pg_rename en of
                           Some err \<Rightarrow> ((if pg_removed en then s1\<lparr>ps_tmp := None\<rparr> else s1), Some err)
                         | None \<Rightarrow> (s1\<lparr>ps_file := ps_tmp s1, ps_tmp := None, ps_todos := todos\<rparr>, None)))))"

definition Todos :: "progress_store \<Rightarrow> todo list" where
  "Todos s = ps_todos s"

section \<open>An update is all or nothing\<close>

lemma validate_from_list: "validate_from quote n ts = None \<Longrightarrow> t \<in> set ts \<Longrightarrow> \<exists>k. validate_todo quote k t = None"
  by (induction ts arbitrary: n) (auto split: option.splits)

definition in_step :: "progress_store \<Rightarrow> bool" where
  "in_step s \<longleftrightarrow> ps_file s = (if ps_todos s = [] then None else Some (RenderMarkdown (ps_todos s)))"

text \<open>
  A failed update leaves the todos and the file as they were; one that succeeds replaces both, except
  that an empty list changes nothing; so the file always is the checklist of the todos.
\<close>

lemma Update_all_or_nothing:
  assumes "Update quote en todos s = (s', res)"
  shows "(res \<noteq> None \<or> todos = [] \<longrightarrow> ps_todos s' = ps_todos s \<and> ps_file s' = ps_file s)"
    and "res = None \<and> todos \<noteq> [] \<longrightarrow> Todos s' = todos \<and> ps_file s' = Some (RenderMarkdown todos) \<and> ps_tmp s' = None"
    and "in_step s \<Longrightarrow> in_step s'"
  using assms by (auto simp: Update_def Todos_def Let_def in_step_def split: option.splits if_splits)

lemma NewStore_in_step: "in_step NewStore"
  by (simp add: in_step_def NewStore_def)

section \<open>One line for each todo\<close>

lemma count_list_concat: "count_list (concat xss) c = sum_list (map (\<lambda>xs. count_list xs c) xss)"
  by (induction xss) simp_all

lemma decoded_newline: "decode_rune s = (r, w) \<Longrightarrow> NL \<in> set (take w s) \<Longrightarrow> r = 10"
  by (auto simp: decode_rune_def Let_def cont_byte_def second_ok_def take_Cons' split: list.splits if_splits)

lemma newline_rune: "NL \<in> set s \<Longrightarrow> 10 \<in> set (runes s)"
proof (induction "length s" arbitrary: s rule: less_induct)
  case less
  then have s: "s \<noteq> []" by auto
  obtain r w where d: "decode_rune s = (r, w)" by (cases "decode_rune s")
  have w: "0 < w" using decode_rune_width [OF s] d by simp
  have r: "runes s = r # runes (drop w s)" using s d by (simp add: runes_def rune_segments.simps [of s])
  show ?case
  proof (cases "NL \<in> set (take w s)")
    case True
    with decoded_newline [OF d] r show ?thesis by simp
  next
    case False
    with less.prems have "NL \<in> set (drop w s)" by (metis append_take_drop_id Un_iff set_append)
    with less.hyps [of "drop w s"] w s r show ?thesis by simp
  qed
qed

lemma valid_content: "validate_todo quote n t = None \<Longrightarrow> NL \<notin> set (td_content t) \<and> NL \<notin> set (td_priority t)"
proof
  assume v: "validate_todo quote n t = None"
  then have "\<forall>r \<in> set (runes (td_content t)). \<not> is_control r"
    by (auto simp: validate_todo_def list_ex_iff split: if_splits)
  moreover have "is_control 10" by (simp add: is_control_def)
  ultimately show "NL \<notin> set (td_content t)" using newline_rune [of "td_content t"] by blast
  show "NL \<notin> set (td_priority t)" using v by (auto simp: validate_todo_def split: if_splits)
qed

lemma escape_no_newline: "NL \<notin> set s \<Longrightarrow> NL \<notin> set (escapeBackticks s)"
  by (auto simp: escapeBackticks_def)

text \<open>The checklist of valid todos has one line for each, when no identifier holds a line break.\<close>

lemma checklist_lines:
  assumes "validate_todos quote todos = None" "todos \<noteq> []" "\<forall>t \<in> set todos. NL \<notin> set (td_id t)"
  shows "count_list (RenderMarkdown todos) NL = 2 + length todos"
proof -
  have "count_list (render_todo t) NL = 1" if t: "t \<in> set todos" for t
  proof -
    obtain k where "validate_todo quote k t = None"
      using validate_from_list [OF assms(1) [unfolded validate_todos_def] t] by blast
    from valid_content [OF this] have v: "NL \<notin> set (td_content t)" "NL \<notin> set (td_priority t)" by simp_all
    have "NL \<notin> set (join '', '' (todo_metadata t))" using v by (auto simp: todo_metadata_def)
    moreover have "NL \<notin> set (escapeBackticks (td_id t))" using assms(3) t escape_no_newline by blast
    ultimately show ?thesis using v by (simp add: render_todo_def count_list_0_iff [THEN iffD2])
  qed
  then have "sum_list (map (\<lambda>t. count_list (render_todo t) NL) todos) = length todos"
    by (induction todos) simp_all
  with assms(2) show ?thesis by (simp add: RenderMarkdown_def count_list_concat comp_def)
qed

text \<open>Identifiers are not validated: one with a line break adds a line that looks like another todo.\<close>

lemma identifier_adds_line:
  "validate_todos id [\<lparr>td_id = ''1'' @ [NL] @ ''- [x] done'', td_content = ''a'', td_status = ''pending'', td_priority = []\<rparr>] = None \<and>
   count_list (RenderMarkdown
     [\<lparr>td_id = ''1'' @ [NL] @ ''- [x] done'', td_content = ''a'', td_status = ''pending'', td_priority = []\<rparr>]) NL = 4"
  by code_simp

end
