(* ===== verification/Completion.thy ===== *)
theory Completion
  imports Agent_Runtime
begin

text \<open>
  The completion loop of \<open>internal/session/completion.go\<close>: an agent is prompted, then prompted to
  continue until its text, a file or the cap ends the loop.  The loop sees the agent through a record
  of operations; Agent_Runtime's agent is one.  \<^const>\<open>None\<close> stands for a prompt that does not
  return.  The file \<open>TASK_COMPLETED\<close> is behind \<open>se_consume\<close>, which tells whether it was there and could
  be removed.
\<close>

section \<open>Texts and promises\<close>

datatype promise = PromiseNone | PromiseWorkflowComplete | PromiseStepComplete | PromiseStuck
  | PromiseMaxContinuations | PromiseTaskCompleted

definition promise_tag :: "string \<Rightarrow> string" where
  "promise_tag s = ''<promise>'' @ s @ ''</promise>''"

definition PromiseStatusFromText :: "string \<Rightarrow> promise" where
  "PromiseStatusFromText s =
     (if str_contains s (promise_tag ''WORKFLOW_COMPLETE'') then PromiseWorkflowComplete
      else if str_contains s (promise_tag ''STUCK'') then PromiseStuck
      else if str_contains s (promise_tag ''STEP_COMPLETE'') then PromiseStepComplete
      else PromiseNone)"

definition AssistantMessageText :: "message \<Rightarrow> string" where
  "AssistantMessageText msg =
     (case asAssistant msg of
        None \<Rightarrow> []
      | Some m \<Rightarrow> join [NL] (map cb_text (filter (\<lambda>b. cb_type b = BlockText) (am_content m))))"

definition AssistantTranscriptText :: "message list \<Rightarrow> string" where
  "AssistantTranscriptText messages = join [NL] (filter (\<lambda>s. s \<noteq> []) (map AssistantMessageText messages))"

definition LastAssistantText :: "message list \<Rightarrow> string" where
  "LastAssistantText messages = (case find (\<lambda>s. s \<noteq> []) (rev (map AssistantMessageText messages)) of Some s \<Rightarrow> s | None \<Rightarrow> [])"

definition lastAssistantErrored :: "message list \<Rightarrow> bool" where
  "lastAssistantErrored messages =
     (case List.map_filter asAssistant (rev messages) of
        [] \<Rightarrow> False | m # _ \<Rightarrow> am_stop_reason m = StopError \<or> am_stop_reason m = StopAborted)"

section \<open>The loop\<close>

record 's session =
  se_messages :: "'s \<Rightarrow> message list"
  se_prompt :: "message \<Rightarrow> 's \<Rightarrow> ('s \<times> string option) option"
  se_ctx :: "'s \<Rightarrow> string option"
  se_consume :: "'s \<Rightarrow> 's \<times> bool"
  se_now :: "'s \<Rightarrow> time_ms"

record completion_options =
  co_enabled :: bool
  co_max :: int
  co_prompt :: string

record completion_outcome =
  oc_status :: promise
  oc_sent :: int
  oc_by_file :: bool
  oc_text :: string
  oc_reason :: string

definition defaultMaxContinuations :: int where "defaultMaxContinuations = 5"

definition defaultContinuePrompt :: string where
  "defaultContinuePrompt =
     ''continue'' @ [NL, NL] @
     ''CRITICAL: When the task is fully complete you MUST output the EXACT tag below '' @
     ''as a standalone line - no paraphrasing, no alternatives:'' @ [NL, NL] @
     promise_tag ''WORKFLOW_COMPLETE'' @ [NL, NL] @
     ''Without this tag the system will keep prompting you to continue.''"

definition PromptText :: "'s session \<Rightarrow> string \<Rightarrow> 's \<Rightarrow> ('s \<times> string option) option" where
  "PromptText se s st = se_prompt se (UserMessage \<lparr>um_content = BlockContent (Some [NewText s]), um_timestamp = se_now se st\<rparr>) st"

definition outcome_of :: "promise \<Rightarrow> int \<Rightarrow> bool \<Rightarrow> string \<Rightarrow> string \<Rightarrow> completion_outcome" where
  "outcome_of status sent by_file s reason =
     \<lparr>oc_status = status, oc_sent = sent, oc_by_file = by_file, oc_text = s, oc_reason = reason\<rparr>"

text \<open>
  One pass: the outcome, or nothing when the agent is to be prompted again, which only happens below
  the cap; the test of the cap in the loop is never true and makes its recursion end.
\<close>

definition turn_outcome :: "int \<Rightarrow> int \<Rightarrow> bool \<Rightarrow> message list \<Rightarrow> completion_outcome option" where
  "turn_outcome cap attempt by_file messages =
     (let s = AssistantTranscriptText messages; status = PromiseStatusFromText s in
      if lastAssistantErrored messages then Some (outcome_of PromiseNone attempt False s ''assistant ended with a terminal error'')
      else if status = PromiseWorkflowComplete then Some (outcome_of status 0 by_file s [])
      else if status = PromiseStuck then Some (outcome_of status 0 False s ''agent reported STUCK'')
      else if by_file then Some (outcome_of PromiseTaskCompleted attempt True s [])
      else if trim_space s = [] then Some (outcome_of PromiseNone attempt False s ''initial turn produced no assistant content'')
      else if attempt \<ge> cap then
        Some (outcome_of PromiseMaxContinuations attempt False s ''workflow did not signal completion before continuation cap'')
      else None)"

function continue_loop ::
  "'s session \<Rightarrow> string \<Rightarrow> int \<Rightarrow> int \<Rightarrow> 's \<Rightarrow> ('s \<times> (string + completion_outcome)) option" where
  "continue_loop se prompt cap attempt st =
     (case se_ctx se st of
        Some err \<Rightarrow> Some (st, Inl err)
      | None \<Rightarrow>
          (let messages = se_messages se st; (st1, by_file) = se_consume se st in
           case turn_outcome cap attempt by_file messages of
             Some out \<Rightarrow> Some (st1, Inr out)
           | None \<Rightarrow>
               if attempt \<ge> cap then None
               else (case PromptText se prompt st1 of
                   None \<Rightarrow> None
                 | Some (st2, Some err) \<Rightarrow> Some (st2, Inl err)
                 | Some (st2, None) \<Rightarrow> continue_loop se prompt cap (attempt + 1) st2)))"
  by pat_completeness auto
termination by (relation "measure (\<lambda>(_, _, cap, attempt, _). nat (cap - attempt))") auto

declare continue_loop.simps [simp del]

definition ContinueUntilComplete ::
  "'s session option \<Rightarrow> completion_options \<Rightarrow> 's \<Rightarrow> ('s \<times> (string + completion_outcome)) option" where
  "ContinueUntilComplete agt opts st =
     (case agt of
        None \<Rightarrow> Some (st, Inl ''completion loop agent is nil'')
      | Some se \<Rightarrow>
          if \<not> co_enabled opts then
            (let s = AssistantTranscriptText (se_messages se st)
             in Some (st, Inr (outcome_of (PromiseStatusFromText s) 0 False s [])))
          else continue_loop se (if trim_space (co_prompt opts) = [] then defaultContinuePrompt else co_prompt opts)
            (if co_max opts \<le> 0 then defaultMaxContinuations else co_max opts) 0 st)"

text \<open>The first prompt: a text, and the blocks of the media delivered with it.\<close>

definition initialUserMessage :: "string \<Rightarrow> content_block list list \<Rightarrow> time_ms \<Rightarrow> message" where
  "initialUserMessage s media now = UserMessage \<lparr>um_content = BlockContent (Some (NewText s # concat media)), um_timestamp = now\<rparr>"

definition RunCompletionLoop ::
  "'s session option \<Rightarrow> string \<Rightarrow> content_block list list \<Rightarrow> completion_options \<Rightarrow> 's
     \<Rightarrow> ('s \<times> (string + completion_outcome)) option" where
  "RunCompletionLoop agt s media opts st =
     (case agt of
        None \<Rightarrow> Some (st, Inl ''completion loop agent is nil'')
      | Some se \<Rightarrow>
          (let st1 = fst (se_consume se st) in
           case (if media = [] then PromptText se s st1 else se_prompt se (initialUserMessage s media (se_now se st1)) st1) of
             None \<Rightarrow> None
           | Some (st2, Some err) \<Rightarrow> Some (st2, Inl err)
           | Some (st2, None) \<Rightarrow> ContinueUntilComplete agt opts st2))"


section \<open>The loop ends, and why\<close>

text \<open>\<open>n\<close> passes that found nothing to end on, each followed by a prompt that succeeded.\<close>

inductive continued :: "'s session \<Rightarrow> string \<Rightarrow> int \<Rightarrow> int \<Rightarrow> 's \<Rightarrow> int \<Rightarrow> 's \<Rightarrow> bool" for se prompt cap where
  here: "continued se prompt cap attempt st attempt st"
| on: "se_ctx se st = None \<Longrightarrow> turn_outcome cap attempt (snd (se_consume se st)) (se_messages se st) = None \<Longrightarrow>
    PromptText se prompt (fst (se_consume se st)) = Some (st1, None) \<Longrightarrow>
    continued se prompt cap (attempt + 1) st1 n st2 \<Longrightarrow> continued se prompt cap attempt st n st2"

lemma turn_outcome_cap: "turn_outcome cap attempt by_file messages = None \<Longrightarrow> attempt < cap"
  by (auto simp: turn_outcome_def Let_def split: if_splits)

lemma continued_le: "continued se prompt cap attempt st n st' \<Longrightarrow> attempt \<le> cap \<Longrightarrow> attempt \<le> n \<and> n \<le> cap"
  by (induction rule: continued.induct) (auto dest: turn_outcome_cap)

lemma continue_loop_next:
  assumes "se_ctx se st = None" "turn_outcome cap attempt (snd (se_consume se st)) (se_messages se st) = None"
  shows "continue_loop se prompt cap attempt st =
    (case PromptText se prompt (fst (se_consume se st)) of
       None \<Rightarrow> None
     | Some (st2, Some err) \<Rightarrow> Some (st2, Inl err)
     | Some (st2, None) \<Rightarrow> continue_loop se prompt cap (attempt + 1) st2)"
  using turn_outcome_cap [OF assms(2)] assms
  by (subst continue_loop.simps) (simp add: case_prod_beta Let_def)

lemma continue_loop_explained:
  assumes "continue_loop se prompt cap attempt st = Some (st', Inr out)"
  shows "\<exists>n st1. continued se prompt cap attempt st n st1 \<and> st' = fst (se_consume se st1) \<and> se_ctx se st1 = None \<and>
    turn_outcome cap n (snd (se_consume se st1)) (se_messages se st1) = Some out"
  using assms
proof (induction "nat (cap - attempt)" arbitrary: attempt st rule: less_induct)
  case less
  have ctx: "se_ctx se st = None"
    using less.prems by (subst (asm) continue_loop.simps) (auto split: option.splits)
  show ?case
  proof (cases "turn_outcome cap attempt (snd (se_consume se st)) (se_messages se st)")
    case None
    then obtain st2 where p: "PromptText se prompt (fst (se_consume se st)) = Some (st2, None)"
        "continue_loop se prompt cap (attempt + 1) st2 = Some (st', Inr out)"
      using less.prems continue_loop_next [OF ctx None] by (auto split: option.splits)
    have "nat (cap - (attempt + 1)) < nat (cap - attempt)" using turn_outcome_cap [OF None] by simp
    from less.hyps [OF this p(2)] show ?thesis using continued.on [OF ctx None p(1)] by blast
  next
    case (Some o1)
    with less.prems ctx have "st' = fst (se_consume se st)" "o1 = out"
      by (subst (asm) continue_loop.simps; simp add: case_prod_beta Let_def)+
    with Some ctx show ?thesis by (intro exI [of _ attempt] exI [of _ st]) (simp add: continued.here)
  qed
qed

lemma continue_loop_returns:
  assumes "\<forall>m st. se_prompt se m st \<noteq> None"
  shows "continue_loop se prompt cap attempt st \<noteq> None"
proof (induction "nat (cap - attempt)" arbitrary: attempt st rule: less_induct)
  case less
  show ?case
  proof (cases "se_ctx se st = None \<and> turn_outcome cap attempt (snd (se_consume se st)) (se_messages se st) = None")
    case True
    then have "nat (cap - (attempt + 1)) < nat (cap - attempt)" using turn_outcome_cap by fastforce
    from less.hyps [OF this] continue_loop_next [of se st cap attempt prompt] True assms show ?thesis
      by (auto simp: PromptText_def split: option.split)
  next
    case False
    then show ?thesis by (subst continue_loop.simps) (auto simp: case_prod_beta Let_def split: option.split)
  qed
qed

text \<open>What the statuses mean.\<close>

lemma turn_outcome_status:
  assumes "turn_outcome cap n by_file messages = Some out"
  shows "oc_text out = AssistantTranscriptText messages"
    and "oc_status out = PromiseWorkflowComplete \<longleftrightarrow> \<not> lastAssistantErrored messages \<and>
      str_contains (AssistantTranscriptText messages) (promise_tag ''WORKFLOW_COMPLETE'')"
    and "oc_status out = PromiseTaskCompleted \<longrightarrow> by_file \<and> \<not> lastAssistantErrored messages"
    and "oc_status out = PromiseMaxContinuations \<longrightarrow> cap \<le> n"
    and "oc_sent out = (if oc_status out = PromiseWorkflowComplete \<or> oc_status out = PromiseStuck then 0 else n)"
  using assms by (auto simp: turn_outcome_def outcome_of_def Let_def PromiseStatusFromText_def split: if_splits)



section \<open>The agent behind the loop\<close>

text \<open>What a session promises: an invariant that its prompts and its file keep.\<close>

locale kept_session =
  fixes se :: "'s session" and I :: "'s \<Rightarrow> bool"
  assumes prompt_keeps: "I st \<Longrightarrow> se_prompt se m st = Some (st', r) \<Longrightarrow> I st'"
    and consume_keeps: "I st \<Longrightarrow> I (fst (se_consume se st))"
begin

lemma continue_loop_keeps: "I st \<Longrightarrow> continue_loop se prompt cap attempt st = Some (st', r) \<Longrightarrow> I st'"
proof (induction "nat (cap - attempt)" arbitrary: attempt st rule: less_induct)
  case less
  have looked: "I (fst (se_consume se st))" using consume_keeps [OF less.prems(1)] .
  show ?case
  proof (cases "se_ctx se st = None \<and> turn_outcome cap attempt (snd (se_consume se st)) (se_messages se st) = None")
    case True
    then have c: "nat (cap - (attempt + 1)) < nat (cap - attempt)" using turn_outcome_cap by fastforce
    have step: "I st2" if "PromptText se prompt (fst (se_consume se st)) = Some (st2, e)" for st2 e
      using prompt_keeps [OF looked] that by (auto simp: PromptText_def)
    from less.prems(2) continue_loop_next [of se st cap attempt prompt] True
    have "(case PromptText se prompt (fst (se_consume se st)) of
       None \<Rightarrow> None
     | Some (st2, Some err) \<Rightarrow> Some (st2, Inl err)
     | Some (st2, None) \<Rightarrow> continue_loop se prompt cap (attempt + 1) st2) = Some (st', r)" by simp
    then show ?thesis using step less.hyps [OF c] by (auto split: option.splits)
  next
    case False
    with less.prems(2) have "st' = st \<or> st' = fst (se_consume se st)"
      by (subst (asm) continue_loop.simps) (auto simp: case_prod_beta Let_def split: option.splits)
    then show ?thesis using less.prems(1) looked by blast
  qed
qed

lemma run_keeps:
  assumes "I st" "RunCompletionLoop (Some se) s media opts st = Some (st', r)"
  shows "I st'"
proof -
  let ?st1 = "fst (se_consume se st)"
  have looked: "I ?st1" using consume_keeps [OF assms(1)] .
  obtain st2 e where p: "(if media = [] then PromptText se s ?st1
      else se_prompt se (initialUserMessage s media (se_now se ?st1)) ?st1) = Some (st2, e)"
    using assms(2) by (cases "if media = [] then PromptText se s ?st1
      else se_prompt se (initialUserMessage s media (se_now se ?st1)) ?st1") (auto simp: RunCompletionLoop_def Let_def)
  have st2: "I st2" using p prompt_keeps [OF looked] by (auto simp: PromptText_def split: if_splits)
  have "e = None \<Longrightarrow> ContinueUntilComplete (Some se) opts st2 = Some (st', r)" "e \<noteq> None \<Longrightarrow> st' = st2"
    using assms(2) p by (auto simp: RunCompletionLoop_def Let_def)
  then show ?thesis using st2 continue_loop_keeps [OF st2]
    by (cases e) (auto simp: ContinueUntilComplete_def Let_def split: if_splits)
qed

end

text \<open>
  The agent of Agent_Runtime as a session; its state is the agent's world and what each look for the
  file will find.
\<close>

definition agent_session ::
  "('t, 'x) hooks \<Rightarrow> ('t, 'x) world env \<Rightarrow> (('t, 'x) world \<Rightarrow> string option) \<Rightarrow> (('t, 'x) world \<Rightarrow> time_ms)
     \<Rightarrow> (nat \<Rightarrow> nat list) \<Rightarrow> nat \<Rightarrow> (('t, 'x) world \<times> bool list) session" where
  "agent_session hk en ctx now sch n =
     \<lparr>se_messages = (\<lambda>(w, _). ag_messages (wo_agent w)),
      se_prompt = (\<lambda>m (w, flags). map_option (\<lambda>(w', e). ((w', flags), e)) (Prompt hk en (\<lambda>w. ctx w \<noteq> None) now sch n [m] w)),
      se_ctx = (\<lambda>(w, _). ctx w),
      se_consume = (\<lambda>(w, flags). ((w, tl flags), flags \<noteq> [] \<and> hd flags)),
      se_now = (\<lambda>(w, _). now w)\<rparr>"

lemma Prompt_idle:
  assumes "idle (wo_agent w)" "Prompt hk en ctx now sch n ms w = Some (w', e)"
  shows "idle (wo_agent w')"
  using assms by (auto simp: Prompt_def split: if_splits dest: run_body_idle)

interpretation agent_loop: kept_session "agent_session hk en ctx now sch n" "\<lambda>(w, _). idle (wo_agent w)" for hk en ctx now sch n
proof
  show "case st' of (w, _) \<Rightarrow> idle (wo_agent w)"
    if "case st of (w, _) \<Rightarrow> idle (wo_agent w)" "se_prompt (agent_session hk en ctx now sch n) m st = Some (st', r)"
    for st m st' r
    using that by (auto simp: agent_session_def dest: Prompt_idle split: prod.splits)
  show "case fst (se_consume (agent_session hk en ctx now sch n) st) of (w, _) \<Rightarrow> idle (wo_agent w)"
    if "case st of (w, _) \<Rightarrow> idle (wo_agent w)" for st
    using that by (auto simp: agent_session_def split: prod.splits)
qed



section \<open>A run of the loop\<close>

definition loop_cap :: "completion_options \<Rightarrow> int" where
  "loop_cap opts = (if co_max opts \<le> 0 then defaultMaxContinuations else co_max opts)"

definition loop_prompt :: "completion_options \<Rightarrow> string" where
  "loop_prompt opts = (if trim_space (co_prompt opts) = [] then defaultContinuePrompt else co_prompt opts)"

lemma loop_cap_pos: "0 < loop_cap opts"
  by (simp add: loop_cap_def defaultMaxContinuations_def)

lemma ContinueUntilComplete_loop:
  "co_enabled opts \<Longrightarrow> ContinueUntilComplete (Some se) opts st = continue_loop se (loop_prompt opts) (loop_cap opts) 0 st"
  by (simp add: ContinueUntilComplete_def loop_cap_def loop_prompt_def)

lemma run_explained:
  assumes "RunCompletionLoop (Some se) s media opts st = Some (st', Inr out)" "co_enabled opts"
  obtains st1 n st2 where
    "(if media = [] then PromptText se s (fst (se_consume se st))
      else se_prompt se (initialUserMessage s media (se_now se (fst (se_consume se st)))) (fst (se_consume se st))) = Some (st1, None)"
    "continued se (loop_prompt opts) (loop_cap opts) 0 st1 n st2" "st' = fst (se_consume se st2)"
    "turn_outcome (loop_cap opts) n (snd (se_consume se st2)) (se_messages se st2) = Some out"
proof -
  let ?first = "if media = [] then PromptText se s (fst (se_consume se st))
      else se_prompt se (initialUserMessage s media (se_now se (fst (se_consume se st)))) (fst (se_consume se st))"
  obtain st1 e where p: "?first = Some (st1, e)"
    using assms(1) by (cases ?first) (auto simp: RunCompletionLoop_def Let_def)
  then have e: "e = None" "ContinueUntilComplete (Some se) opts st1 = Some (st', Inr out)"
    using assms(1) by (auto simp: RunCompletionLoop_def Let_def split: option.splits)
  from continue_loop_explained [OF e(2) [unfolded ContinueUntilComplete_loop [OF assms(2)]]] p e(1) that
  show thesis by blast
qed




text \<open>An agent without a provider: its first run fails, and the loop ends without another prompt.\<close>

definition idle_world :: "(unit, unit) world" where
  "idle_world = \<lparr>wo_agent = NewAgent None [] [], wo_rest = ()\<rparr>"

definition example_completion :: completion_options where
  "example_completion = \<lparr>co_enabled = True, co_max = 2, co_prompt = ''go on''\<rparr>"

definition example_run :: "(((unit, unit) world \<times> bool list) \<times> (string + completion_outcome)) option" where
  "example_run = RunCompletionLoop (Some (agent_session demo_hooks demo_runtime_env (\<lambda>_. None) (\<lambda>_. 0) (\<lambda>_. []) 1))
     ''hello'' [] example_completion (idle_world, [])"

lemma example_run_fails:
  "(case example_run of Some (_, Inr out) \<Rightarrow> oc_status out = PromiseNone \<and> oc_sent out = 0 \<and>
      oc_reason out = ''assistant ended with a terminal error'' | _ \<Rightarrow> False)"
  by code_simp


section \<open>Old promises count\<close>

lemma join_filter_append:
  "join [NL] (xs @ ys) = (if xs = [] then join [NL] ys else if ys = [] then join [NL] xs else join [NL] xs @ NL # join [NL] ys)"
proof (induction xs)
  case (Cons x xs)
  then show ?case by (cases xs; cases ys) simp_all
qed simp

lemma transcript_contains:
  "str_contains (AssistantTranscriptText old) tag \<Longrightarrow> str_contains (AssistantTranscriptText (old @ new)) tag"
proof -
  assume "str_contains (AssistantTranscriptText old) tag"
  then obtain a b where a: "AssistantTranscriptText old = a @ tag @ b" by (auto simp: str_contains_iff)
  have "\<exists>c. AssistantTranscriptText (old @ new) = AssistantTranscriptText old @ c \<or> AssistantTranscriptText old = []"
    by (auto simp: AssistantTranscriptText_def join_filter_append)
  then obtain c where "AssistantTranscriptText (old @ new) = AssistantTranscriptText old @ c \<or> AssistantTranscriptText old = []" ..
  then show ?thesis
  proof
    assume "AssistantTranscriptText (old @ new) = AssistantTranscriptText old @ c"
    then have "AssistantTranscriptText (old @ new) = a @ tag @ (b @ c)" by (simp add: a)
    then show ?thesis unfolding str_contains_iff by blast
  next
    assume "AssistantTranscriptText old = []"
    with a have "AssistantTranscriptText (old @ new) = [] @ tag @ AssistantTranscriptText (old @ new)" by simp
    then show ?thesis unfolding str_contains_iff by blast
  qed
qed

text \<open>
  The whole transcript is searched, so the tag of an earlier task completes every later one that does
  not fail, before it was continued once.
\<close>

lemma old_promise_completes:
  assumes "str_contains (AssistantTranscriptText old) (promise_tag ''WORKFLOW_COMPLETE'')"
    and "\<not> lastAssistantErrored (old @ new)"
  shows "\<exists>out. turn_outcome cap attempt by_file (old @ new) = Some out \<and> oc_status out = PromiseWorkflowComplete"
  using assms(2) transcript_contains [OF assms(1), of new]
  by (simp add: turn_outcome_def PromiseStatusFromText_def outcome_of_def Let_def)

text \<open>And the continuations that were sent are not counted when the workflow completes.\<close>

lemma completed_counts_none:
  "turn_outcome cap n by_file messages = Some out \<Longrightarrow> oc_status out = PromiseWorkflowComplete \<Longrightarrow> oc_sent out = 0"
  using turn_outcome_status(5) by metis


end
