(* ===== verification/Spec2Isabelle.thy ===== *)
theory Spec2Isabelle
  imports Truncate Sse Json_Repair Edit_Diff Retry_Stream Agent_Runtime Plan_Steps Journal_Replay
    Transform_Messages Compaction_Facts Anthropic_Request Google_Request
    Mutation_Queue Output_Accumulator Adapter Context_File Progress Completion
begin

text \<open>
  A verification library of the harness, a coding agent written in Go: it sends a transcript to a
  language model, runs the tools the model asks for, and keeps the transcript in a journal.

  \<^bold>\<open>The program and the theories.\<close>  A prompt enters the runtime
  (\<open>internal/agent/runtime.go\<close>, theory Agent_Runtime), which runs the loop (\<open>loop.go\<close>, Agent_Loop)
  until no message and no tool call is left.  A turn of the loop transforms the context, asks the
  provider for a stream, folds the stream into an assistant message (\<open>internal/engine/types\<close> and
  \<open>engine/stream\<close>, Msg_Types and Event_Stream), and gives its tool calls to the executor
  (\<open>executor.go\<close>, Agent_Executor), which validates the arguments (\<open>engine/validate\<close>, Validate),
  asks the permission gate (\<open>internal/permission\<close>, Permission with the regular expressions of
  Regex, and the plan collector in Plan_Steps) and runs the tools in sequence or in parallel.
  Streams are retried (\<open>internal/retry\<close>, Retry_Policy and Retry_Stream).  Model specs, credentials and
  the three roles choose the provider (\<open>internal/adapter\<close>, Adapter; its registry and environment keys
  are \<open>provider/base\<close>, Provider_Base).  The three providers (\<open>internal/provider/anthropic\<close>, \<open>openai\<close> and
  \<open>google\<close>) turn a transcript (\<open>engine/transform\<close>, Transform_Messages) into a request
  (Anthropic_Convert, Anthropic_Request, OpenAI_Request, Google_Request) and the bytes of the response
  (\<open>transport/sseparse\<close>, Sse; \<open>engine/jsonrepair\<close>, Json_Repair; decoded by Json_Structs) into stream
  events (Anthropic_Events, OpenAI_Events and Google_Events fold the chunks; Anthropic_Stream,
  OpenAI_Stream and Google_Stream run them and prove the contract of Stream_Description, that the
  events describe the message).  The completion loop (\<open>session/completion.go\<close>, Completion) prompts the
  agent until its task is complete.  A transcript that grows too
  long (\<open>engine/estimate\<close>, Estimate) is compacted (\<open>internal/compaction\<close> and
  \<open>session/compact.go\<close>, Compaction, Compaction_Run and Compaction_Facts).  Every message and
  compaction is a line of the journal (\<open>internal/session/journal\<close>, Journal_Entry, Journal_Store,
  Journal_Replay).  The tools cut their output with \<open>internal/truncate\<close> (Truncate) and edit files
  with \<open>internal/editdiff\<close> (Edit_Diff), one at a time for each file, and collect the output of commands
  in a rolling window (\<open>internal/toolio\<close>, Mutation_Queue and Output_Accumulator); todos go to a
  checklist (\<open>internal/progress\<close>, Progress), and context files import one another
  (\<open>internal/contextfile\<close>, Context_File).  Below all of these are Prelude (strings as bytes, UTF-8,
  64-bit integers), Json and Json_Raw (\<open>encoding/json\<close> as the program uses it), Float64
  (\<open>float64\<close> values, their reading and printing), Util (\<open>engine/util\<close>, base64, the errors of
  \<open>internal/document\<close>) and Provider_Types (options and request bodies).

  \<^bold>\<open>How the code is modelled.\<close>  A struct is a record, an enumeration or an interface a datatype, a
  string the list of its bytes.  A Go \<open>int\<close> is an \<open>int\<close>, with \<open>wrap64\<close> where it can overflow.  An
  error is a value of an option or a sum; a panic is a value too where the code can reach one.  A
  map is an association list or a function.  What the code takes from outside the repository or
  from the world (the clock, random numbers, the file system, the HTTP round trip, the tools,
  hooks and listeners, the JSON Schema compiler, Unicode case mapping, blob stores) is an argument
  of the definitions that use it.  Goroutines are steps of an explicit schedule
  (Agent_Executor) or of a step relation (Event_Stream, Mutation_Queue).  A definition bears the name of the Go
  function it models, or of the part of it; the manifest gives the lines.

  \<^bold>\<open>Bounds.\<close>  Recursion is structural or has a measure.  Where the code may run for ever the model
  has fuel or a list of rounds that may be too short, which is a value of its own: the turns of
  Agent_Loop, the reads of Sse and the attempts of Retry_Stream; each has a lemma that gives a
  sufficient amount (for the reads: one that fails, ends the input or is cancelled).  The completion
  loop is bounded by its cap and imports by their depth, which are arguments of the code itself.

  \<^bold>\<open>What is proved.\<close>  Safety: a tool never runs without its gate and with other arguments than
  those validated; every tool call of a transcript, of a transformed transcript, of a request to each
  of the three providers and of a compacted one is answered; a provider gets its own credentials only; destructive commands are refused; retried attempts
  show nothing of a failed one; a request is sent with authentication and within its limits; one
  run at a time.  Invariants: the transcript of a run, the journal's chain of parents, the agent's
  state as the fold of its events, the plan collector, the retry stream's single terminal event, the
  mutual exclusion of the mutation queue and its references.
  Functional behaviour: batches answer in order, events match the transcript, edits replace
  exactly their targets, the events of a response describe its message, the window of kept tool results.  Round trips: journal records, frames of an event
  stream.  Equivalence with a simpler specification: chunking, the window of a command's output and
  the tail of all of it (and, as lemmas, overlap detection, native transcripts, the two token
  estimates).  Errors, bounds, termination and liveness: failures are reported, truncation keeps the
  longest prefix, the completion loop stays below its cap, parallel batches and imports return,
  streams drain (and, as lemmas, edits never panic and delays never overflow).

  \<^bold>\<open>Interfaces.\<close>  The locales state the contracts between components (the stream and its consumer, the
  executor and its tools, the journal and its codec, the imports of a context file, the agent behind the
  completion loop) and are interpreted on the model's own definitions where these are
  declared.

  \<^bold>\<open>Not modelled.\<close>  The built-in tools beyond truncation, editing, output and validation,
  configuration, skills, discovery, prompts, documents, subagents, the session wiring and the command
  line are effects on files, processes and terminals around the modelled parts; the redaction of logs and the
  paths of \<open>pathutil\<close> rest on regular expressions and path functions of libraries; the scripted provider is for
  tests.  Prices are not modelled, and neither are the goroutine of the idle watchdog and the locks
  other than those of the mutation queue: an operation under a lock is one step.
\<close>

end
